(* ===== verification/Euler_Prelude.thy ===== *)
theory Euler_Prelude
  imports Complex_Main "HOL-Library.AList" "HOL-Library.Multiset" "HOL-Library.Word"
begin

text \<open>
  The shared vocabulary of the development: JavaScript's insertion-ordered \<open>Map\<close>, numbers that
  may fail \<^verbatim>\<open>Number.isInteger\<close>, exceptions as the left summand of a result, the loop
  \<^verbatim>\<open>for (const x of xs) step(x)\<close> over a fallible step, and the generic lemmas the
  component theories rest on.
\<close>

section \<open>Automation collections\<close>

named_theorems map_model \<open>equations of the insertion-ordered map\<close>
named_theorems error_simps \<open>inversion of fallible computations\<close>

section \<open>JavaScript values\<close>

text \<open>
  A JavaScript number as the validation code sees it: an integer, or anything that
  \<^verbatim>\<open>Number.isInteger\<close> rejects (a fraction, NaN, an infinity).
\<close>

datatype js_number = JsInt int | JsNotInt

text \<open>
  A JavaScript \<open>Map\<close> iterates in insertion order; \<open>set\<close> on a present key keeps its position and
  \<open>delete\<close> removes it. It is an association list with at most one pair per key.
\<close>

type_synonym ('k, 'v) js_map = "('k \<times> 'v) list"

definition map_get :: "('k, 'v) js_map \<Rightarrow> 'k \<Rightarrow> 'v option" where
  "map_get m k = map_of m k"

definition map_has :: "('k, 'v) js_map \<Rightarrow> 'k \<Rightarrow> bool" where
  "map_has m k \<longleftrightarrow> map_get m k \<noteq> None"

definition map_set :: "('k, 'v) js_map \<Rightarrow> 'k \<Rightarrow> 'v \<Rightarrow> ('k, 'v) js_map" where
  "map_set m k v = AList.update k v m"

definition map_remove :: "('k, 'v) js_map \<Rightarrow> 'k \<Rightarrow> ('k, 'v) js_map" where
  "map_remove m k = AList.delete k m"

definition map_values :: "('k, 'v) js_map \<Rightarrow> 'v list" where
  "map_values m = map snd m"

definition map_keys :: "('k, 'v) js_map \<Rightarrow> 'k set" where
  "map_keys m = fst ` set m"

definition map_entries_of :: "('a \<Rightarrow> 'k) \<Rightarrow> 'a list \<Rightarrow> ('k, 'a) js_map" where
  "map_entries_of key xs = fold (\<lambda>x m. map_set m (key x) x) xs []"

text \<open>\<^verbatim>\<open>[...xs].sort((a, b) => key(a) - key(b))\<close>: JavaScript's sort is stable.\<close>

definition sort_by :: "('a \<Rightarrow> 'k::linorder) \<Rightarrow> 'a list \<Rightarrow> 'a list" where
  "sort_by key xs = sort_key key xs"

text \<open>\<^verbatim>\<open>xs.find(p)\<close> and \<^verbatim>\<open>xs.at(-1)\<close>, \<^verbatim>\<open>xs.at(-2)\<close>.\<close>

definition at_last :: "'a list \<Rightarrow> 'a option" where
  "at_last xs = (if xs = [] then None else Some (last xs))"

definition at_before_last :: "'a list \<Rightarrow> 'a option" where
  "at_before_last xs = (if length xs < 2 then None else Some (xs ! (length xs - 2)))"

text \<open>A non-negative integer in a template string: its decimal digits.\<close>

definition digit_char :: "nat \<Rightarrow> char" where
  "digit_char d = char_of (48 + d)"

fun decimal :: "nat \<Rightarrow> string" where
  "decimal n = (if n < 10 then [digit_char n] else decimal (n div 10) @ [digit_char (n mod 10)])"

declare decimal.simps [simp del]

section \<open>Fallible loops\<close>

fun for_each :: "('s \<Rightarrow> 'm \<Rightarrow> 'e + 's) \<Rightarrow> 's \<Rightarrow> 'm list \<Rightarrow> 'e + 's" where
  "for_each step s [] = Inr s"
| "for_each step s (m # ms) =
     (case step s m of Inl e \<Rightarrow> Inl e | Inr s' \<Rightarrow> for_each step s' ms)"

text \<open>
  The collecting loop of the session queries: skip what does not match, push what does, stop
  when as many results as the limit have been pushed.
\<close>

fun scan_limit :: "('a \<Rightarrow> bool) \<Rightarrow> js_number option \<Rightarrow> 'a list \<Rightarrow> 'a list \<Rightarrow> 'a list" where
  "scan_limit match lmt results [] = results"
| "scan_limit match lmt results (x # xs) =
     (if \<not> match x then scan_limit match lmt results xs
      else let results' = results @ [x] in
        if lmt = Some (JsInt (int (length results'))) then results'
        else scan_limit match lmt results' xs)"

section \<open>Lemmas on maps\<close>

lemma map_get_nil [simp, map_model]: "map_get [] k = None"
  by (simp add: map_get_def)

lemma map_get_cons [simp]: "map_get ((a, v) # m) k = (if a = k then Some v else map_get m k)"
  by (simp add: map_get_def)

lemma map_get_set [simp, map_model]:
  "map_get (map_set m k v) k' = (if k' = k then Some v else map_get m k')"
  by (simp add: map_get_def map_set_def update_conv')

lemma map_get_remove [simp, map_model]:
  "map_get (map_remove m k) k' = (if k' = k then None else map_get m k')"
  by (simp add: map_get_def map_remove_def delete_conv')

lemma map_has_get [map_model]: "map_has m k \<longleftrightarrow> (\<exists>v. map_get m k = Some v)"
  by (auto simp: map_has_def)

lemma map_has_set [simp]: "map_has (map_set m k v) k' \<longleftrightarrow> k' = k \<or> map_has m k'"
  by (auto simp: map_has_def)

lemma map_has_nil [simp]: "\<not> map_has [] k"
  by (simp add: map_has_def)

lemma map_set_keys_distinct: "distinct (map fst m) \<Longrightarrow> distinct (map fst (map_set m k v))"
  by (simp add: map_set_def distinct_update)

lemma map_remove_keys_distinct: "distinct (map fst m) \<Longrightarrow> distinct (map fst (map_remove m k))"
  by (simp add: map_remove_def distinct_delete)

lemma map_set_fresh: "\<not> map_has m k \<Longrightarrow> map_set m k v = m @ [(k, v)]"
  by (simp add: map_set_def map_has_def map_get_def map_of_eq_None_iff update_nonempty
      AList.update.simps) (induction m; auto)

lemma map_get_in_set: "map_get m k = Some v \<Longrightarrow> (k, v) \<in> set m"
  by (simp add: map_get_def map_of_SomeD)

lemma map_get_of_in_set:
  "distinct (map fst m) \<Longrightarrow> (k, v) \<in> set m \<Longrightarrow> map_get m k = Some v"
  by (simp add: map_get_def)

lemma map_has_keys: "map_has m k \<longleftrightarrow> k \<in> map_keys m"
  by (auto simp: map_has_def map_get_def map_keys_def map_of_eq_None_iff)

lemma map_keys_simps [simp]:
  "map_keys [] = {}"
  "map_keys ((k, v) # m) = insert k (map_keys m)"
  "map_keys (m @ m') = map_keys m \<union> map_keys m'"
  by (auto simp: map_keys_def)

lemma map_keys_set [simp]: "map_keys (map_set m k v) = insert k (map_keys m)"
  by (simp add: map_keys_def map_set_def dom_update)

lemma map_remove_filter: "map_remove m k = filter (\<lambda>(i, op). i \<noteq> k) m"
  by (auto simp: map_remove_def AList.delete_eq intro: filter_cong)

lemma map_keys_remove [simp]: "map_keys (map_remove m k) = map_keys m - {k}"
  by (auto simp: map_keys_def map_remove_filter)

lemma map_set_range: "snd ` set (map_set m k v) \<subseteq> insert v (snd ` set m)"
  unfolding map_set_def by (induction m) auto

lemma map_get_range: "map_get m k = Some v \<Longrightarrow> v \<in> snd ` set m"
  by (force dest: map_get_in_set)

section \<open>Lemmas on fallible loops\<close>

lemma for_each_append:
  "for_each step s (xs @ ys) =
     (case for_each step s xs of Inl e \<Rightarrow> Inl e | Inr s' \<Rightarrow> for_each step s' ys)"
  by (induction xs arbitrary: s) (auto split: sum.splits)

lemma for_each_snoc_Inr [error_simps]:
  "for_each step s (xs @ [x]) = Inr t \<longleftrightarrow> (\<exists>u. for_each step s xs = Inr u \<and> step u x = Inr t)"
  by (auto simp: for_each_append split: sum.splits)

text \<open>
  A fallible machine: a step that returns an error or the next state, and a predicate that every
  successful step keeps. It holds after every successful run.
\<close>

locale fallible_machine =
  fixes step :: "'s \<Rightarrow> 'm \<Rightarrow> 'e + 's" and inv :: "'s \<Rightarrow> bool"
  assumes step_keeps: "inv s \<Longrightarrow> step s m = Inr s' \<Longrightarrow> inv s'"
begin

lemma run_keeps: "inv s \<Longrightarrow> for_each step s ms = Inr s' \<Longrightarrow> inv s'"
proof (induction ms arbitrary: s)
  case Nil
  then show ?case by simp
next
  case (Cons m ms)
  from Cons.prems(2) obtain u where u: "step s m = Inr u" "for_each step u ms = Inr s'"
    by (auto split: sum.splits)
  from Cons.prems(1) u(1) have "inv u" by (rule step_keeps)
  from this u(2) show ?case by (rule Cons.IH)
qed

end

section \<open>Lemmas on bounded scans\<close>

lemma scan_limit_none: "scan_limit match None results xs = results @ filter match xs"
  by (induction xs arbitrary: results) (auto simp: Let_def)

lemma scan_limit_take:
  assumes "length results < n"
  shows "scan_limit match (Some (JsInt (int n))) results xs
    = results @ take (n - length results) (filter match xs)"
  using assms
proof (induction xs arbitrary: results)
  case Nil
  then show ?case by simp
next
  case (Cons x xs)
  show ?case
  proof (cases "match x")
    case False
    then show ?thesis using Cons by simp
  next
    case True
    show ?thesis
    proof (cases "n = Suc (length results)")
      case True
      with \<open>match x\<close> show ?thesis by (simp add: Let_def)
    next
      case False
      with Cons.prems have lt: "length (results @ [x]) < n" by simp
      have "n - length results = Suc (n - length (results @ [x]))"
        using Cons.prems False by simp
      with Cons.IH [OF lt] \<open>match x\<close> False show ?thesis
        by (simp add: Let_def)
    qed
  qed
qed

lemma at_last_append [simp]: "at_last (xs @ [x]) = Some x"
  by (simp add: at_last_def)

lemma at_last_in: "at_last xs = Some x \<Longrightarrow> x \<in> set xs"
  by (auto simp: at_last_def split: if_splits)

lemma digit_char_value: "d < 10 \<Longrightarrow> of_char (digit_char d) = (48 + d :: nat)"
  by (simp add: digit_char_def)

definition undecimal :: "string \<Rightarrow> nat" where
  "undecimal s = foldl (\<lambda>a c. a * 10 + (of_char c - 48)) 0 s"

lemma undecimal_decimal [simp]: "undecimal (decimal n) = n"
proof (induction n rule: decimal.induct)
  case (1 n)
  then show ?case
    by (subst decimal.simps) (simp add: undecimal_def digit_char_value)
qed

lemma decimal_inject [simp]: "decimal m = decimal n \<longleftrightarrow> m = n"
  by (metis undecimal_decimal)

lemma decimal_no_nul: "char_of (0::nat) \<notin> set (decimal n)"
proof (induction n rule: decimal.induct)
  case (1 n)
  have "char_of (0::nat) \<noteq> digit_char d" if "d < 10" for d
    using digit_char_value [OF that] by (metis add_is_0 of_char_of mod_0 zero_neq_numeral)
  with 1 show ?case by (subst decimal.simps) auto
qed

text \<open>\<^verbatim>\<open>last\<close> element that satisfies a predicate: the value a map keeps under overwriting.\<close>

definition last_matching :: "('a \<Rightarrow> bool) \<Rightarrow> 'a list \<Rightarrow> 'a option" where
  "last_matching P xs = find P (rev xs)"

lemma last_matching_Nil [simp]: "last_matching P [] = None"
  by (simp add: last_matching_def)

lemma last_matching_snoc [simp]:
  "last_matching P (xs @ [x]) = (if P x then Some x else last_matching P xs)"
  by (simp add: last_matching_def)

lemma last_matching_Some: "last_matching P xs = Some x \<Longrightarrow> x \<in> set xs \<and> P x"
  by (induction xs rule: rev_induct) (auto split: if_splits)

lemma last_matching_None: "last_matching P xs = None \<longleftrightarrow> (\<forall>x \<in> set xs. \<not> P x)"
  by (induction xs rule: rev_induct) auto

lemma sort_by_sorted: "sorted (map key (sort_by key xs))"
  by (simp add: sort_by_def)

lemma set_sort_by [simp]: "set (sort_by key xs) = set xs"
  by (simp add: sort_by_def)

lemma length_sort_by [simp]: "length (sort_by key xs) = length xs"
  by (simp add: sort_by_def)

lemma distinct_sort_by: "distinct (map key xs) \<Longrightarrow> distinct (map key (sort_by key xs))"
  by (simp add: sort_by_def distinct_map)

lemma sort_by_perm:
  assumes "mset xs = mset ys" "distinct (map key xs)"
  shows "sort_by key xs = sort_by key ys"
proof (rule map_sorted_distinct_set_unique [where f = key])
  have "mset (map key xs) = mset (map key ys)" by (simp add: assms(1))
  then have "distinct (map key ys)" using assms(2) mset_eq_imp_distinct_iff [of "map key xs" "map key ys"] by simp
  then show "distinct (map key (sort_by key ys))" by (rule distinct_sort_by)
  show "set (sort_by key xs) = set (sort_by key ys)"
    using mset_eq_setD [OF assms(1)] by simp
  then show "inj_on key (set (sort_by key xs) \<union> set (sort_by key ys))"
    using assms(2) by (simp add: distinct_map)
qed (simp_all add: sort_by_sorted distinct_sort_by assms(2))

lemma sort_by_index_less:
  assumes "distinct (map key xs)" "j < length xs" "k < length xs"
  shows "key (sort_by key xs ! j) < key (sort_by key xs ! k) \<longleftrightarrow> j < k"
proof -
  let ?ys = "map key (sort_by key xs)"
  have s: "sorted ?ys" "distinct ?ys" using assms(1) by (simp_all add: sort_by_sorted distinct_sort_by)
  have "?ys ! j < ?ys ! k \<longleftrightarrow> j < k"
    using s assms(2,3)
    by (metis length_map length_sort_by linorder_less_linear nth_eq_iff_index_eq order_less_asym'
        order_less_le sorted_nth_mono less_imp_le)
  then show ?thesis using assms(2,3) by simp
qed

lemma sort_by_Nil [simp]: "sort_by key [] = []"
  by (simp add: sort_by_def)

lemma sort_by_Cons [simp]: "sort_by key (x # xs) = insort_key key x (sort_by key xs)"
  by (simp add: sort_by_def)

end
