(* ===== verification/Session_Types.thy ===== *)
theory Session_Types
  imports Euler_Prelude
begin

text \<open>
  The data of the session layer: messages (\<^verbatim>\<open>packages/ai/src/types.ts\<close>,
  \<^verbatim>\<open>packages/agent/src/harness/messages.ts\<close>), session entries, lane records, queries, log
  items and error codes (\<^verbatim>\<open>packages/agent/src/harness/session/types.ts\<close>).
  TypeScript's discriminated unions are datatypes, interfaces are records; an optional field is an
  \<open>option\<close>. Identifiers and texts of this layer are only stored, compared and concatenated, and
  are HOL strings; sequence numbers count from 1 and are \<open>nat\<close>; costs are exact rationals, so the
  rounding of floating-point addition is not modelled.
\<close>

type_synonym ident = string
type_synonym lane_name = string

datatype json = JNull | JBool bool | JNumber rat | JString string
  | JArray "json list" | JObject "(string \<times> json) list"

section \<open>Messages\<close>

record usage_cost =
  cost_input :: rat
  cost_output :: rat
  cost_cacheRead :: rat
  cost_cacheWrite :: rat
  cost_total :: rat

record usage =
  u_input :: int
  u_output :: int
  u_cacheRead :: int
  u_cacheWrite :: int
  u_cacheWrite1h :: "int option"
  u_reasoning :: "int option"
  u_totalTokens :: int
  u_cost :: usage_cost

datatype stop_reason = StopPending | StopStop | StopLength | StopToolUse | StopError
  | StopAborted | StopDeferred

record deferred_handle =
  dh_provider :: string
  dh_modelId :: string
  dh_api :: string
  dh_id :: string
  dh_expiresAt :: "int option"
  dh_pollAfterMs :: "int option"
  dh_data :: "json option"

record tool_call =
  tc_id :: ident
  tc_name :: string
  tc_arguments :: "(string \<times> json) list"
  tc_thoughtSignature :: "string option"
  tc_namespace :: "string option"

datatype input_content = TextInput string "string option" | ImageInput string string

datatype assistant_content = TextContent string "string option"
  | ThinkingContent string "string option" "bool option"
  | ToolCallContent tool_call

datatype message_content = ContentString string | ContentBlocks "input_content list"

record user_message =
  um_content :: message_content
  um_timestamp :: int

record assistant_message =
  am_content :: "assistant_content list"
  am_api :: string
  am_provider :: string
  am_model :: string
  am_responseModel :: "string option"
  am_responseId :: "string option"
  am_diagnostics :: "json list option"
  am_usage :: usage
  am_stopReason :: stop_reason
  am_deferred :: "deferred_handle option"
  am_errorMessage :: "string option"
  am_rawStopReason :: "string option"
  am_endTurn :: "bool option"
  am_timestamp :: int

record tool_result_message =
  tr_toolCallId :: ident
  tr_toolName :: string
  tr_content :: "input_content list"
  tr_details :: "json option"
  tr_usage :: "usage option"
  tr_addedToolNames :: "string list option"
  tr_isError :: bool
  tr_timestamp :: int

record bash_execution_message =
  bx_command :: string
  bx_output :: string
  bx_exitCode :: "int option"
  bx_cancelled :: bool
  bx_truncated :: bool
  bx_fullOutputPath :: "string option"
  bx_timestamp :: int
  bx_excludeFromContext :: "bool option"

record custom_message =
  cm_customType :: string
  cm_content :: message_content
  cm_display :: bool
  cm_details :: "json option"
  cm_timestamp :: int

record branch_summary_message =
  bsm_summary :: string
  bsm_fromId :: ident
  bsm_timestamp :: int

record compaction_summary_message =
  csm_summary :: string
  csm_tokensBefore :: int
  csm_timestamp :: int

datatype agent_message = UserMessage user_message
  | AssistantMessage assistant_message
  | ToolResultMessage tool_result_message
  | BashExecutionMessage bash_execution_message
  | CustomMessage custom_message
  | BranchSummaryMessage branch_summary_message
  | CompactionSummaryMessage compaction_summary_message

datatype message_role = RoleUser | RoleAssistant | RoleToolResult | RoleBashExecution
  | RoleCustom | RoleBranchSummary | RoleCompactionSummary

fun role_of :: "agent_message \<Rightarrow> message_role" where
  "role_of (UserMessage _) = RoleUser"
| "role_of (AssistantMessage _) = RoleAssistant"
| "role_of (ToolResultMessage _) = RoleToolResult"
| "role_of (BashExecutionMessage _) = RoleBashExecution"
| "role_of (CustomMessage _) = RoleCustom"
| "role_of (BranchSummaryMessage _) = RoleBranchSummary"
| "role_of (CompactionSummaryMessage _) = RoleCompactionSummary"

fun tool_calls_of :: "assistant_content list \<Rightarrow> tool_call list" where
  "tool_calls_of [] = []"
| "tool_calls_of (ToolCallContent c # cs) = c # tool_calls_of cs"
| "tool_calls_of (_ # cs) = tool_calls_of cs"

section \<open>Entries\<close>

text \<open>
  \<open>Entry\<close> is \<open>EntryBase\<close> plus a payload selected by \<open>type\<close>; a provisioned entry is an entry
  without the three fields that storage assigns (\<open>parentId\<close>, \<open>seq\<close>, \<open>timestamp\<close>).
\<close>

datatype entry_payload =
    MessagePayload agent_message bool \<comment> \<open>message, \<open>terminate\<close> is present\<close>
  | ModelChangePayload string string \<comment> \<open>provider, modelId\<close>
  | ThinkingLevelPayload string
  | ActiveToolsPayload "string list"
  | CompactionPayload string "agent_message list" int "json option" "usage option"
      \<comment> \<open>summary, retainedTail, tokensBefore, details, usage\<close>
  | BranchSummaryPayload ident string "json option" "usage option"
      \<comment> \<open>fromId, summary, details, usage\<close>
  | CustomPayload string "json option" \<comment> \<open>customType, data\<close>

datatype entry_type = TMessage | TModelChange | TThinkingLevelChange | TActiveToolsChange
  | TCompaction | TBranchSummary | TCustom

fun payload_type :: "entry_payload \<Rightarrow> entry_type" where
  "payload_type (MessagePayload _ _) = TMessage"
| "payload_type (ModelChangePayload _ _) = TModelChange"
| "payload_type (ThinkingLevelPayload _) = TThinkingLevelChange"
| "payload_type (ActiveToolsPayload _) = TActiveToolsChange"
| "payload_type (CompactionPayload _ _ _ _ _) = TCompaction"
| "payload_type (BranchSummaryPayload _ _ _ _) = TBranchSummary"
| "payload_type (CustomPayload _ _) = TCustom"

record entry =
  e_id :: ident
  e_seq :: nat
  e_parentId :: "ident option"
  e_timestamp :: int
  e_payload :: entry_payload

record provisioned_entry =
  p_id :: ident
  p_payload :: entry_payload

definition entry_type_of :: "entry \<Rightarrow> entry_type" where
  "entry_type_of e = payload_type (e_payload e)"

section \<open>Lane records\<close>

record run_intent =
  ri_originalPrompt :: "agent_message list"
  ri_initialMessages :: "provisioned_entry list"
  ri_systemPromptOverride :: "string option"
  ri_resumeData :: "(string \<times> json) list option"

record compaction_intent =
  ci_customInstructions :: "string option"
  ci_resultEntryId :: ident

record navigation_intent =
  ni_targetId :: "ident option"
  ni_summarize :: bool
  ni_customInstructions :: "string option"
  ni_label :: "string option"
  ni_summaryEntryId :: "ident option"

datatype operation_intent = RunIntent run_intent | CompactionIntent compaction_intent
  | NavigationIntent navigation_intent

datatype operation_kind = KRun | KCompaction | KNavigation

fun intent_kind :: "operation_intent \<Rightarrow> operation_kind" where
  "intent_kind (RunIntent _) = KRun"
| "intent_kind (CompactionIntent _) = KCompaction"
| "intent_kind (NavigationIntent _) = KNavigation"

datatype operation_outcome = Completed | Aborted | Failed | Declined

datatype step_kind = StepAssistant | StepCompaction | StepBranchSummary

datatype compaction_reason = ReasonManual | ReasonThreshold | ReasonOverflow

datatype replay_policy = ReplayNever | ReplaySafe

record tool_start =
  ts_runId :: ident
  ts_assistantEntryId :: ident
  ts_toolIndex :: nat
  ts_toolCallId :: ident
  ts_toolName :: string
  ts_effectiveArgs :: "(string \<times> json) list"
  ts_resultEntryId :: ident
  ts_replay :: replay_policy

record step_attempt =
  sa_runId :: ident
  sa_step :: step_kind
  sa_attempt :: nat
  sa_resultEntryId :: ident
  sa_compactionReason :: "compaction_reason option"

datatype queue_name = QSteer | QFollowUp | QNextRun

datatype generation_cause = CauseAssistant | CauseCompaction | CauseBranchSummary
  | CauseDeferredFetch

datatype usage_cause =
    GenerationUsage generation_cause ident ident nat stop_reason
      \<comment> \<open>runId, entryId, attempt, stopReason\<close>
  | ToolUsage ident ident ident \<comment> \<open>runId, entryId, toolCallId\<close>
  | HookUsage ident ident \<comment> \<open>runId, entryId\<close>
  | AdjustmentUsage "ident option" "ident option" "json option"
      \<comment> \<open>runId, entryId, details\<close>

datatype record_body =
    OperationStarted "ident option" operation_intent \<comment> \<open>sourceLeafId, intent\<close>
  | AbortRequested ident
  | OperationFinished ident operation_outcome "(string \<times> string) option"
  | StepAttempt step_attempt
  | ToolStarted tool_start
  | QueueEnqueued queue_name "ident option" provisioned_entry \<comment> \<open>queue, runId, target\<close>
  | QueueCancelled "ident option" ident \<comment> \<open>runId, entryId\<close>
  | WriteDeferred ident provisioned_entry
  | UsageRecord usage usage_cause

datatype record_type = ROperationStarted | RAbortRequested | ROperationFinished | RStepAttempt
  | RToolStarted | RQueueEnqueued | RQueueCancelled | RWriteDeferred | RUsage

fun body_type :: "record_body \<Rightarrow> record_type" where
  "body_type (OperationStarted _ _) = ROperationStarted"
| "body_type (AbortRequested _) = RAbortRequested"
| "body_type (OperationFinished _ _ _) = ROperationFinished"
| "body_type (StepAttempt _) = RStepAttempt"
| "body_type (ToolStarted _) = RToolStarted"
| "body_type (QueueEnqueued _ _ _) = RQueueEnqueued"
| "body_type (QueueCancelled _ _) = RQueueCancelled"
| "body_type (WriteDeferred _ _) = RWriteDeferred"
| "body_type (UsageRecord _ _) = RUsage"

text \<open>The \<open>runId\<close> property of a record, when it carries one.\<close>

fun body_runId :: "record_body \<Rightarrow> ident option" where
  "body_runId (OperationStarted _ _) = None"
| "body_runId (AbortRequested r) = Some r"
| "body_runId (OperationFinished r _ _) = Some r"
| "body_runId (StepAttempt a) = Some (sa_runId a)"
| "body_runId (ToolStarted t) = Some (ts_runId t)"
| "body_runId (QueueEnqueued _ r _) = r"
| "body_runId (QueueCancelled r _) = r"
| "body_runId (WriteDeferred r _) = Some r"
| "body_runId (UsageRecord _ (GenerationUsage _ r _ _ _)) = Some r"
| "body_runId (UsageRecord _ (ToolUsage r _ _)) = Some r"
| "body_runId (UsageRecord _ (HookUsage r _)) = Some r"
| "body_runId (UsageRecord _ (AdjustmentUsage r _ _)) = r"

record record_base =
  r_id :: ident
  r_seq :: nat
  r_lane :: lane_name
  r_timestamp :: int

record lane_record = record_base +
  r_body :: record_body

record operation_started_record = record_base +
  os_sourceLeafId :: "ident option"
  os_intent :: operation_intent

record new_record =
  nr_id :: ident
  nr_lane :: lane_name
  nr_body :: record_body

section \<open>Queries, statistics, log items, errors\<close>

datatype entry_order = NewestFirst | OldestFirst

record entry_query =
  q_type :: "entry_type option"
  q_customType :: "string option"
  q_order :: "entry_order option"
  q_limit :: "js_number option"
  q_cursor :: "js_number option"

record branch_query = entry_query +
  q_start :: ident
  q_stopAtType :: "entry_type option"
  q_stopAtId :: "ident option"

record record_query =
  rq_lane :: "lane_name option"
  rq_type :: "record_type option"
  rq_runId :: "ident option"
  rq_operationKind :: "operation_kind option"
  rq_afterSeq :: "js_number option"
  rq_order :: "entry_order option"
  rq_limit :: "js_number option"

record session_metadata =
  sm_id :: ident
  sm_createdAt :: int
  sm_parentSessionId :: "ident option"

record session_stats =
  st_messageCount :: nat
  st_cachedTokens :: int
  st_uncachedTokens :: int
  st_totalTokens :: int
  st_costTotal :: rat

datatype log_item =
    LogEntry nat entry
  | LogRecord nat lane_record
  | LogLane nat lane_name "ident option"
  | LogName nat "string option"
  | LogLabel nat ident "string option"

fun log_seq :: "log_item \<Rightarrow> nat" where
  "log_seq (LogEntry n _) = n"
| "log_seq (LogRecord n _) = n"
| "log_seq (LogLane n _ _) = n"
| "log_seq (LogName n _) = n"
| "log_seq (LogLabel n _ _) = n"

record log_options =
  lo_afterSeq :: "js_number option"
  lo_limit :: "js_number option"

datatype fork_position = Before | At

datatype fork_options = ForkTree | ForkBranch "ident option" "fork_position option"

datatype session_error = NotFound | AlreadyExists | InvalidEntry | InvalidPayload | InvalidLane
  | InvalidQuery | InvalidForkTarget | StorageError

end
