(* ===== verification/Session_State.thy ===== *)
theory Session_State
  imports Session_Types
begin

text \<open>
  The in-memory session: \<^verbatim>\<open>packages/agent/src/harness/session/state.ts\<close>. One record holds
  the private fields of the class \<open>SessionState\<close>; every method is a definition. A thrown
  \<open>SessionError\<close> is \<open>Inl\<close> of its code (the message text is not kept). The lemmas show that
  every accepted mutation keeps the state well formed, what walking a branch returns, that paging
  through a query loses nothing, and that a fork replays without an error.
\<close>

section \<open>State and mutations\<close>

datatype session_mutation =
    EntryMutation "lane_name option" entry
  | RecordMutation lane_record
  | LaneMutation nat lane_name "ident option"
  | NameMutation nat "string option"
  | LabelMutation nat ident "string option"

record session_state =
  ss_sequence :: nat
  ss_usedIds :: "ident set"
  ss_entries :: "entry list"
  ss_entriesById :: "(ident, entry) js_map"
  ss_records :: "lane_record list"
  ss_openOperationsByLane :: "(lane_name, (ident, operation_started_record) js_map) js_map"
  ss_lanes :: "(lane_name, ident option) js_map"
  ss_log :: "log_item list"
  ss_stats :: session_stats
  ss_name :: "string option"
  ss_labels :: "(ident, string) js_map"

definition main_lane :: lane_name where
  "main_lane = ''main''"

definition initial_stats :: session_stats where
  "initial_stats = \<lparr>st_messageCount = 0, st_cachedTokens = 0, st_uncachedTokens = 0,
     st_totalTokens = 0, st_costTotal = 0\<rparr>"

definition new_session_state :: session_state where
  "new_session_state = \<lparr>ss_sequence = 0, ss_usedIds = {}, ss_entries = [], ss_entriesById = [],
     ss_records = [], ss_openOperationsByLane = [], ss_lanes = [(main_lane, None)], ss_log = [],
     ss_stats = initial_stats, ss_name = None, ss_labels = []\<rparr>"

definition nextSequence :: "session_state \<Rightarrow> nat" where
  "nextSequence s = ss_sequence s + 1"

definition getLanes :: "session_state \<Rightarrow> (lane_name \<times> ident option) list" where
  "getLanes s = ss_lanes s"

definition requireLane :: "session_state \<Rightarrow> lane_name \<Rightarrow> session_error + ident option" where
  "requireLane s lane =
     (case map_get (ss_lanes s) lane of None \<Rightarrow> Inl InvalidLane | Some leafId \<Rightarrow> Inr leafId)"

definition validateNewLane :: "session_state \<Rightarrow> lane_name \<Rightarrow> session_error + unit" where
  "validateNewLane s lane = (if map_has (ss_lanes s) lane then Inl AlreadyExists else Inr ())"

definition validateTarget :: "session_state \<Rightarrow> ident option \<Rightarrow> session_error + unit" where
  "validateTarget s targetId =
     (case targetId of None \<Rightarrow> Inr ()
      | Some t \<Rightarrow> if \<not> map_has (ss_entriesById s) t then Inl NotFound else Inr ())"

definition validateUnusedId :: "session_state \<Rightarrow> ident \<Rightarrow> session_error + unit" where
  "validateUnusedId s i = (if i \<in> ss_usedIds s then Inl AlreadyExists else Inr ())"

text \<open>\<open>operation_started\<close> narrows a record to its own type.\<close>

definition operation_started_of ::
    "lane_record \<Rightarrow> ident option \<Rightarrow> operation_intent \<Rightarrow> operation_started_record" where
  "operation_started_of r src i = \<lparr>r_id = r_id r, r_seq = r_seq r, r_lane = r_lane r,
     r_timestamp = r_timestamp r, os_sourceLeafId = src, os_intent = i\<rparr>"

definition track_open_operations ::
    "(lane_name, (ident, operation_started_record) js_map) js_map \<Rightarrow> lane_record \<Rightarrow>
     (lane_name, (ident, operation_started_record) js_map) js_map" where
  "track_open_operations openOps r =
     (case r_body r of
        OperationStarted src i \<Rightarrow>
          (let openOperations = (case map_get openOps (r_lane r) of None \<Rightarrow> [] | Some m \<Rightarrow> m)
           in map_set openOps (r_lane r)
                (map_set openOperations (r_id r) (operation_started_of r src i)))
      | OperationFinished runId _ _ \<Rightarrow>
          (case map_get openOps (r_lane r) of
             None \<Rightarrow> openOps
           | Some m \<Rightarrow> map_set openOps (r_lane r) (map_remove m runId))
      | _ \<Rightarrow> openOps)"

definition add_entry_stats :: "session_stats \<Rightarrow> entry \<Rightarrow> session_stats" where
  "add_entry_stats st e =
     (if entry_type_of e = TMessage then st\<lparr>st_messageCount := st_messageCount st + 1\<rparr> else st)"

definition add_record_stats :: "session_stats \<Rightarrow> lane_record \<Rightarrow> session_stats" where
  "add_record_stats st r =
     (case r_body r of
        UsageRecord u _ \<Rightarrow>
          st\<lparr>st_cachedTokens := st_cachedTokens st + u_cacheRead u,
             st_uncachedTokens := st_uncachedTokens st + (u_input u + u_cacheWrite u),
             st_totalTokens := st_totalTokens st + u_totalTokens u,
             st_costTotal := st_costTotal st + cost_total (u_cost u)\<rparr>
      | _ \<Rightarrow> st)"

fun mutation_seq :: "session_mutation \<Rightarrow> nat" where
  "mutation_seq (EntryMutation _ e) = e_seq e"
| "mutation_seq (RecordMutation r) = r_seq r"
| "mutation_seq (LaneMutation n _ _) = n"
| "mutation_seq (NameMutation n _) = n"
| "mutation_seq (LabelMutation n _ _) = n"

fun apply_mutation_body :: "session_state \<Rightarrow> session_mutation \<Rightarrow> session_error + session_state" where
  "apply_mutation_body s (EntryMutation lane e) =
     (if e_id e \<in> ss_usedIds s then Inl InvalidEntry
      else if (case lane of None \<Rightarrow> False
               | Some l \<Rightarrow> (case map_get (ss_lanes s) l of None \<Rightarrow> True
                           | Some leafId \<Rightarrow> e_parentId e \<noteq> leafId)) then Inl InvalidEntry
      else if (case e_parentId e of None \<Rightarrow> False
               | Some p \<Rightarrow> \<not> map_has (ss_entriesById s) p) then Inl InvalidEntry
      else Inr (s\<lparr>ss_sequence := e_seq e,
                  ss_usedIds := insert (e_id e) (ss_usedIds s),
                  ss_entries := ss_entries s @ [e],
                  ss_entriesById := map_set (ss_entriesById s) (e_id e) e,
                  ss_lanes := (case lane of None \<Rightarrow> ss_lanes s
                               | Some l \<Rightarrow> map_set (ss_lanes s) l (Some (e_id e))),
                  ss_log := ss_log s @ [LogEntry (e_seq e) e],
                  ss_stats := add_entry_stats (ss_stats s) e\<rparr>))"
| "apply_mutation_body s (RecordMutation r) =
     (if \<not> map_has (ss_lanes s) (r_lane r) then Inl InvalidEntry
      else if r_id r \<in> ss_usedIds s then Inl InvalidEntry
      else Inr (s\<lparr>ss_sequence := r_seq r,
                  ss_usedIds := insert (r_id r) (ss_usedIds s),
                  ss_records := ss_records s @ [r],
                  ss_openOperationsByLane := track_open_operations (ss_openOperationsByLane s) r,
                  ss_log := ss_log s @ [LogRecord (r_seq r) r],
                  ss_stats := add_record_stats (ss_stats s) r\<rparr>))"
| "apply_mutation_body s (LaneMutation n lane leafId) =
     (if (case leafId of None \<Rightarrow> False | Some t \<Rightarrow> \<not> map_has (ss_entriesById s) t)
      then Inl InvalidEntry
      else Inr (s\<lparr>ss_sequence := n,
                  ss_lanes := map_set (ss_lanes s) lane leafId,
                  ss_log := ss_log s @ [LogLane n lane leafId]\<rparr>))"
| "apply_mutation_body s (NameMutation n name) =
     Inr (s\<lparr>ss_sequence := n, ss_name := name, ss_log := ss_log s @ [LogName n name]\<rparr>)"
| "apply_mutation_body s (LabelMutation n targetId label) =
     (if \<not> map_has (ss_entriesById s) targetId then Inl InvalidEntry
      else Inr (s\<lparr>ss_sequence := n,
                  ss_labels := (case label of None \<Rightarrow> map_remove (ss_labels s) targetId
                                | Some t \<Rightarrow> map_set (ss_labels s) targetId t),
                  ss_log := ss_log s @ [LogLabel n targetId label]\<rparr>))"

definition applyMutation :: "session_state \<Rightarrow> session_mutation \<Rightarrow> session_error + session_state" where
  "applyMutation s m =
     (if mutation_seq m \<noteq> ss_sequence s + 1 then Inl InvalidEntry else apply_mutation_body s m)"

section \<open>Queries\<close>

definition assertValidLimit :: "js_number option \<Rightarrow> session_error + unit" where
  "assertValidLimit lmt =
     (case lmt of None \<Rightarrow> Inr () | Some JsNotInt \<Rightarrow> Inl InvalidQuery
      | Some (JsInt n) \<Rightarrow> if n \<le> 0 then Inl InvalidQuery else Inr ())"

definition assertValidCursor :: "js_number option \<Rightarrow> session_error + unit" where
  "assertValidCursor afterSeq =
     (case afterSeq of None \<Rightarrow> Inr () | Some JsNotInt \<Rightarrow> Inl InvalidQuery
      | Some (JsInt n) \<Rightarrow> if n < 0 then Inl InvalidQuery else Inr ())"

definition validate_page ::
    "js_number option \<Rightarrow> js_number option \<Rightarrow> session_error + unit" where
  "validate_page lmt afterSeq =
     (case assertValidLimit lmt of Inl e \<Rightarrow> Inl e | Inr _ \<Rightarrow> assertValidCursor afterSeq)"

definition ordered :: "'a list \<Rightarrow> entry_order option \<Rightarrow> 'a list" where
  "ordered items order = (if order = Some OldestFirst then items else rev items)"

text \<open>
  A comparison with a number that is not an integer is false here: the callers have already
  rejected it.
\<close>

fun seq_after :: "nat \<Rightarrow> js_number \<Rightarrow> bool" where
  "seq_after n (JsInt a) \<longleftrightarrow> a < int n"
| "seq_after n JsNotInt \<longleftrightarrow> False"

fun seq_before :: "nat \<Rightarrow> js_number \<Rightarrow> bool" where
  "seq_before n (JsInt a) \<longleftrightarrow> int n < a"
| "seq_before n JsNotInt \<longleftrightarrow> False"

definition matchesEntryQuery :: "entry \<Rightarrow> 'z entry_query_scheme \<Rightarrow> bool" where
  "matchesEntryQuery e q \<longleftrightarrow>
     (case q_type q of None \<Rightarrow> True | Some t \<Rightarrow> entry_type_of e = t) \<and>
     (case q_customType q of None \<Rightarrow> True
      | Some c \<Rightarrow> (case e_payload e of CustomPayload ct _ \<Rightarrow> ct = c | _ \<Rightarrow> False)) \<and>
     (case q_cursor q of None \<Rightarrow> True
      | Some a \<Rightarrow> if q_order q = Some OldestFirst then seq_after (e_seq e) a
                  else seq_before (e_seq e) a)"

definition matchesRecordQuery :: "lane_record \<Rightarrow> record_query \<Rightarrow> bool" where
  "matchesRecordQuery r q \<longleftrightarrow>
     (case rq_lane q of None \<Rightarrow> True | Some l \<Rightarrow> r_lane r = l) \<and>
     (case rq_type q of None \<Rightarrow> True | Some t \<Rightarrow> body_type (r_body r) = t) \<and>
     (case rq_runId q of None \<Rightarrow> True
      | Some i \<Rightarrow> (case r_body r of OperationStarted _ _ \<Rightarrow> r_id r = i
                  | b \<Rightarrow> body_runId b = Some i)) \<and>
     (case rq_operationKind q of None \<Rightarrow> True
      | Some k \<Rightarrow> (case r_body r of OperationStarted _ i \<Rightarrow> intent_kind i = k | _ \<Rightarrow> False)) \<and>
     (case rq_afterSeq q of None \<Rightarrow> True | Some a \<Rightarrow> seq_after (r_seq r) a)"

definition getEntry :: "session_state \<Rightarrow> ident \<Rightarrow> entry option" where
  "getEntry s i = map_get (ss_entriesById s) i"

definition findEntries :: "session_state \<Rightarrow> entry_query \<Rightarrow> session_error + entry list" where
  "findEntries s q =
     (case validate_page (q_limit q) (q_cursor q) of
        Inl e \<Rightarrow> Inl e
      | Inr _ \<Rightarrow> Inr (scan_limit (\<lambda>e. matchesEntryQuery e q) (q_limit q) []
                        (ordered (ss_entries s) (q_order q))))"

text \<open>
  The generator \<open>walkToRoot\<close>: the entries it yields and, when it throws after them, the error.
  A consumer that stops early never sees the error.
\<close>

function walk_loop ::
    "(ident, entry) js_map \<Rightarrow> entry_type option \<Rightarrow> ident option \<Rightarrow> ident set \<Rightarrow> entry \<Rightarrow>
     entry list \<times> session_error option" where
  "walk_loop m stopAtType stopAtId visited current =
     (if e_id current \<in> visited then ([], Some InvalidEntry)
      else if Some (e_id current) = stopAtId \<or> Some (entry_type_of current) = stopAtType
      then ([current], None)
      else (case e_parentId current of
              None \<Rightarrow> ([current], None)
            | Some parentId \<Rightarrow>
                (case map_get m parentId of
                   None \<Rightarrow> ([current], Some InvalidEntry)
                 | Some next \<Rightarrow>
                     (case walk_loop m stopAtType stopAtId (insert (e_id current) visited) next of
                        (es, err) \<Rightarrow> (current # es, err)))))"
  by pat_completeness auto

termination
proof (relation "measure (\<lambda>(m, _, _, visited, current).
    card (e_id ` snd ` set m - visited) + (if e_id current \<in> e_id ` snd ` set m then 0 else 1))",
    goal_cases)
  case 1
  then show ?case by simp
next
  case (2 m stopAtType stopAtId visited current parentId "next")
  let ?ids = "e_id ` snd ` set m"
  have nxt: "e_id next \<in> ?ids"
    using 2(4) map_get_in_set by force
  show ?case
  proof (cases "e_id current \<in> ?ids")
    case True
    have "card (?ids - insert (e_id current) visited) < card (?ids - visited)"
      by (rule psubset_card_mono) (use True 2(1) in auto)
    then show ?thesis using nxt True by simp
  next
    case False
    then have "?ids - insert (e_id current) visited = ?ids - visited" by auto
    then show ?thesis using nxt False by simp
  qed
qed

declare walk_loop.simps [simp del]

definition walkToRoot ::
    "session_state \<Rightarrow> ident option \<Rightarrow> entry_type option \<Rightarrow> ident option \<Rightarrow>
     entry list \<times> session_error option" where
  "walkToRoot s start stopAtType stopAtId =
     (case start of
        None \<Rightarrow> ([], None)
      | Some i \<Rightarrow>
          (case map_get (ss_entriesById s) i of
             None \<Rightarrow> ([], Some NotFound)
           | Some current \<Rightarrow>
               walk_loop (ss_entriesById s) stopAtType stopAtId {} current))"

text \<open>The two loops of \<open>findEntriesOnBranch\<close>; the flag says that the loop ran to its end.\<close>

fun branch_oldest_loop :: "branch_query \<Rightarrow> entry list \<Rightarrow> entry list \<Rightarrow> entry list" where
  "branch_oldest_loop q results [] = results"
| "branch_oldest_loop q results (e # es) =
     (let reachedBound = (Some (e_id e) = q_stopAtId q \<or> Some (entry_type_of e) = q_stopAtType q);
          results' = (if matchesEntryQuery e q then results @ [e] else results)
      in if reachedBound \<or> q_limit q = Some (JsInt (int (length results'))) then results'
         else branch_oldest_loop q results' es)"

fun branch_newest_loop :: "branch_query \<Rightarrow> entry list \<Rightarrow> entry list \<Rightarrow> entry list \<times> bool" where
  "branch_newest_loop q results [] = (results, True)"
| "branch_newest_loop q results (e # es) =
     (let results' = (if matchesEntryQuery e q then results @ [e] else results)
      in if q_limit q = Some (JsInt (int (length results'))) then (results', False)
         else branch_newest_loop q results' es)"

definition findEntriesOnBranch :: "session_state \<Rightarrow> branch_query \<Rightarrow> session_error + entry list" where
  "findEntriesOnBranch s q =
     (case validate_page (q_limit q) (q_cursor q) of
        Inl e \<Rightarrow> Inl e
      | Inr _ \<Rightarrow>
          (if q_order q = Some OldestFirst
           then (case walkToRoot s (Some (q_start q)) None None of
                   (path, Some e) \<Rightarrow> Inl e
                 | (path, None) \<Rightarrow> Inr (branch_oldest_loop q [] (rev path)))
           else (case walkToRoot s (Some (q_start q)) (q_stopAtType q) (q_stopAtId q) of
                   (path, err) \<Rightarrow>
                     (case branch_newest_loop q [] path of
                        (results, ranToEnd) \<Rightarrow>
                          (case err of None \<Rightarrow> Inr results
                           | Some e \<Rightarrow> if ranToEnd then Inl e else Inr results)))))"

definition findRecords :: "session_state \<Rightarrow> record_query \<Rightarrow> session_error + lane_record list" where
  "findRecords s q =
     (case validate_page (rq_limit q) (rq_afterSeq q) of
        Inl e \<Rightarrow> Inl e
      | Inr _ \<Rightarrow> Inr (scan_limit (\<lambda>r. matchesRecordQuery r q) (rq_limit q) []
                        (ordered (ss_records s) (rq_order q))))"

definition findOpenOperations ::
    "session_state \<Rightarrow> lane_name \<Rightarrow> js_number option \<Rightarrow> session_error + operation_started_record list" where
  "findOpenOperations s lane lmt =
     (case assertValidLimit lmt of
        Inl e \<Rightarrow> Inl e
      | Inr _ \<Rightarrow>
          (let openOperations = (case map_get (ss_openOperationsByLane s) lane of
                 None \<Rightarrow> [] | Some m \<Rightarrow> rev (map_values m))
           in Inr (case lmt of Some (JsInt n) \<Rightarrow> take (nat n) openOperations
                   | _ \<Rightarrow> openOperations)))"

definition getLog :: "session_state \<Rightarrow> log_options \<Rightarrow> session_error + log_item list" where
  "getLog s opts =
     (case validate_page (lo_limit opts) (lo_afterSeq opts) of
        Inl e \<Rightarrow> Inl e
      | Inr _ \<Rightarrow> Inr (scan_limit
            (\<lambda>item. case lo_afterSeq opts of None \<Rightarrow> True | Some a \<Rightarrow> seq_after (log_seq item) a)
            (lo_limit opts) [] (ss_log s)))"

definition getLabel :: "session_state \<Rightarrow> ident \<Rightarrow> string option" where
  "getLabel s i = map_get (ss_labels s) i"

section \<open>Forks\<close>

definition default_entry_query :: entry_query where
  "default_entry_query = \<lparr>q_type = None, q_customType = None, q_order = None, q_limit = None,
     q_cursor = None\<rparr>"

definition branch_path_query :: "ident \<Rightarrow> branch_query" where
  "branch_path_query start = \<lparr>q_type = None, q_customType = None, q_order = Some OldestFirst,
     q_limit = None, q_cursor = None, q_start = start, q_stopAtType = None, q_stopAtId = None\<rparr>"

definition fork_target ::
    "session_state \<Rightarrow> ident option \<Rightarrow> fork_position option \<Rightarrow> session_error + ident option" where
  "fork_target s entryId position =
     (case (case entryId of Some i \<Rightarrow> Inr (Some i) | None \<Rightarrow> requireLane s main_lane) of
        Inl e \<Rightarrow> Inl e
      | Inr None \<Rightarrow> Inr None
      | Inr (Some selected) \<Rightarrow>
          (case getEntry s selected of
             None \<Rightarrow> Inl InvalidForkTarget
           | Some e \<Rightarrow>
               if entry_type_of e \<noteq> TMessage then Inl InvalidForkTarget
               else let pos = (case position of Some p \<Rightarrow> p
                               | None \<Rightarrow> if entryId = None then At else Before)
                    in Inr (if pos = At then Some (e_id e) else e_parentId e)))"

definition fork_selection ::
    "session_state \<Rightarrow> fork_options \<Rightarrow>
     session_error + (entry list \<times> (lane_name \<times> ident option) list)" where
  "fork_selection s opts =
     (case opts of
        ForkTree \<Rightarrow>
          (case findEntries s (default_entry_query\<lparr>q_order := Some OldestFirst\<rparr>) of
             Inl e \<Rightarrow> Inl e | Inr es \<Rightarrow> Inr (es, getLanes s))
      | ForkBranch entryId position \<Rightarrow>
          (case fork_target s entryId position of
             Inl e \<Rightarrow> Inl e
           | Inr None \<Rightarrow> Inr ([], [(main_lane, None)])
           | Inr (Some targetId) \<Rightarrow>
               (case findEntriesOnBranch s (branch_path_query targetId) of
                  Inl e \<Rightarrow> Inl e | Inr es \<Rightarrow> Inr (es, [(main_lane, Some targetId)]))))"

definition labels_of_entries :: "session_state \<Rightarrow> entry list \<Rightarrow> (ident \<times> string) list" where
  "labels_of_entries s es =
     List.map_filter (\<lambda>e. map_option (Pair (e_id e)) (map_get (ss_labels s) (e_id e))) es"

definition fork_mutations ::
    "session_state \<Rightarrow> entry list \<Rightarrow> (lane_name \<times> ident option) list \<Rightarrow> session_mutation list" where
  "fork_mutations s copiedEntries forkLanes =
     (let n1 = 1 + length copiedEntries;
          n2 = n1 + length forkLanes;
          n3 = (if ss_name s = None then n2 else n2 + 1)
      in map (\<lambda>(n, e). EntryMutation None (e\<lparr>e_seq := n\<rparr>)) (enumerate 1 copiedEntries)
       @ map (\<lambda>(n, lane, leafId). LaneMutation n lane leafId) (enumerate n1 forkLanes)
       @ (if ss_name s = None then [] else [NameMutation n2 (ss_name s)])
       @ map (\<lambda>(n, i, label). LabelMutation n i (Some label))
           (enumerate n3 (labels_of_entries s copiedEntries)))"

definition createForkMutations ::
    "session_state \<Rightarrow> fork_options \<Rightarrow> session_error + session_mutation list" where
  "createForkMutations s opts =
     (case fork_selection s opts of
        Inl e \<Rightarrow> Inl e
      | Inr (copiedEntries, forkLanes) \<Rightarrow> Inr (fork_mutations s copiedEntries forkLanes))"

section \<open>Well-formed states\<close>

fun chained :: "ident set \<Rightarrow> entry list \<Rightarrow> bool" where
  "chained seen [] \<longleftrightarrow> True"
| "chained seen (e # es) \<longleftrightarrow>
     e_id e \<notin> seen \<and> (case e_parentId e of None \<Rightarrow> True | Some p \<Rightarrow> p \<in> seen) \<and>
     chained (insert (e_id e) seen) es"

definition starts_operation :: "lane_name \<Rightarrow> lane_record \<Rightarrow> operation_started_record option" where
  "starts_operation lane r =
     (case r_body r of OperationStarted src i \<Rightarrow>
        if r_lane r = lane then Some (operation_started_of r src i) else None
      | _ \<Rightarrow> None)"

definition finishes_operation :: "lane_name \<Rightarrow> ident \<Rightarrow> lane_record \<Rightarrow> bool" where
  "finishes_operation lane runId r \<longleftrightarrow>
     r_lane r = lane \<and> (case r_body r of OperationFinished i _ _ \<Rightarrow> i = runId | _ \<Rightarrow> False)"

fun open_operations :: "lane_name \<Rightarrow> lane_record list \<Rightarrow> (ident \<times> operation_started_record) list" where
  "open_operations lane [] = []"
| "open_operations lane (r # rs) =
     (case starts_operation lane r of
        Some op \<Rightarrow> if (\<exists>f \<in> set rs. finishes_operation lane (r_id r) f) then open_operations lane rs
                   else (r_id r, op) # open_operations lane rs
      | None \<Rightarrow> open_operations lane rs)"

fun log_entries :: "log_item list \<Rightarrow> entry list" where
  "log_entries [] = []"
| "log_entries (LogEntry _ e # items) = e # log_entries items"
| "log_entries (_ # items) = log_entries items"

fun log_records :: "log_item list \<Rightarrow> lane_record list" where
  "log_records [] = []"
| "log_records (LogRecord _ r # items) = r # log_records items"
| "log_records (_ # items) = log_records items"

definition stats_of :: "entry list \<Rightarrow> lane_record list \<Rightarrow> session_stats" where
  "stats_of es rs = fold (\<lambda>r st. add_record_stats st r) rs
     (fold (\<lambda>e st. add_entry_stats st e) es initial_stats)"

definition lane_operations ::
    "(lane_name, (ident, operation_started_record) js_map) js_map \<Rightarrow> lane_name \<Rightarrow>
     (ident, operation_started_record) js_map" where
  "lane_operations ops lane = (case map_get ops lane of None \<Rightarrow> [] | Some m \<Rightarrow> m)"

definition wf_log :: "session_state \<Rightarrow> bool" where
  "wf_log s \<longleftrightarrow> map log_seq (ss_log s) = [1..<Suc (ss_sequence s)] \<and>
     ss_entries s = log_entries (ss_log s) \<and> ss_records s = log_records (ss_log s)"

definition wf_tree :: "session_state \<Rightarrow> bool" where
  "wf_tree s \<longleftrightarrow> chained {} (ss_entries s) \<and> sorted_wrt (<) (map e_seq (ss_entries s)) \<and>
     (\<forall>e \<in> set (ss_entries s). e_seq e \<le> ss_sequence s) \<and>
     ss_entriesById s = map (\<lambda>e. (e_id e, e)) (ss_entries s)"

definition wf_ids :: "session_state \<Rightarrow> bool" where
  "wf_ids s \<longleftrightarrow> distinct (map e_id (ss_entries s) @ map r_id (ss_records s)) \<and>
     ss_usedIds s = set (map e_id (ss_entries s) @ map r_id (ss_records s))"

definition wf_lanes :: "session_state \<Rightarrow> bool" where
  "wf_lanes s \<longleftrightarrow> distinct (map fst (ss_lanes s)) \<and> map_has (ss_lanes s) main_lane \<and>
     (\<forall>lane i. map_get (ss_lanes s) lane = Some (Some i) \<longrightarrow> i \<in> e_id ` set (ss_entries s)) \<and>
     (\<forall>r \<in> set (ss_records s). map_has (ss_lanes s) (r_lane r))"

definition wf_operations :: "session_state \<Rightarrow> bool" where
  "wf_operations s \<longleftrightarrow>
     (\<forall>lane. lane_operations (ss_openOperationsByLane s) lane = open_operations lane (ss_records s))"

definition wf_labels :: "session_state \<Rightarrow> bool" where
  "wf_labels s \<longleftrightarrow> distinct (map fst (ss_labels s)) \<and>
     map_keys (ss_labels s) \<subseteq> e_id ` set (ss_entries s)"

definition wf_state :: "session_state \<Rightarrow> bool" where
  "wf_state s \<longleftrightarrow> wf_log s \<and> wf_tree s \<and> wf_ids s \<and> wf_lanes s \<and> wf_operations s \<and>
     wf_labels s \<and> ss_stats s = stats_of (ss_entries s) (ss_records s)"

lemmas wf_defs = wf_log_def wf_tree_def wf_ids_def wf_lanes_def wf_operations_def wf_labels_def

lemma chained_snoc:
  "chained seen (es @ [e]) \<longleftrightarrow> chained seen es \<and> e_id e \<notin> seen \<union> e_id ` set es \<and>
     (case e_parentId e of None \<Rightarrow> True | Some p \<Rightarrow> p \<in> seen \<union> e_id ` set es)"
  by (induction es arbitrary: seen) (auto split: option.splits)

lemma chained_distinct: "chained seen es \<Longrightarrow> distinct (map e_id es) \<and> seen \<inter> e_id ` set es = {}"
  by (induction es arbitrary: seen) auto

lemma log_entries_append [simp]: "log_entries (xs @ ys) = log_entries xs @ log_entries ys"
  by (induction xs rule: log_entries.induct) auto

lemma log_records_append [simp]: "log_records (xs @ ys) = log_records xs @ log_records ys"
  by (induction xs rule: log_records.induct) auto

lemma open_operations_snoc:
  "open_operations lane (rs @ [r]) =
     filter (\<lambda>(i, op). \<not> finishes_operation lane i r) (open_operations lane rs) @
     (case starts_operation lane r of Some op \<Rightarrow> [(r_id r, op)] | None \<Rightarrow> [])"
  by (induction rs) (auto split: option.splits)

lemma open_operations_ids: "map_keys (open_operations lane rs) \<subseteq> r_id ` set rs"
  by (induction rs) (auto split: option.splits)

lemma stats_of_entry: "stats_of (es @ [e]) rs = add_entry_stats (stats_of es rs) e"
proof -
  have comm: "add_record_stats (add_entry_stats st e) r = add_entry_stats (add_record_stats st r) e" for st r
    by (auto simp: add_record_stats_def add_entry_stats_def split: record_body.splits)
  have "fold (\<lambda>r st. add_record_stats st r) rs (add_entry_stats st e)
      = add_entry_stats (fold (\<lambda>r st. add_record_stats st r) rs st) e" for st
    by (induction rs arbitrary: st) (simp_all add: comm)
  then show ?thesis by (simp add: stats_of_def)
qed

lemma stats_of_record: "stats_of es (rs @ [r]) = add_record_stats (stats_of es rs) r"
  by (simp add: stats_of_def)

lemma wf_new_session_state: "wf_state new_session_state"
  by (simp add: wf_state_def wf_defs new_session_state_def stats_of_def map_has_def
      lane_operations_def)

lemma lane_operations_set:
  "lane_operations (map_set ops l m) lane = (if lane = l then m else lane_operations ops lane)"
  by (simp add: lane_operations_def)

lemma lane_operations_track:
  "lane_operations (track_open_operations ops r) lane =
     (if lane \<noteq> r_lane r then lane_operations ops lane
      else case r_body r of
        OperationStarted src i \<Rightarrow>
          map_set (lane_operations ops lane) (r_id r) (operation_started_of r src i)
      | OperationFinished runId _ _ \<Rightarrow> map_remove (lane_operations ops lane) runId
      | _ \<Rightarrow> lane_operations ops lane)"
proof (cases "r_body r")
  case (OperationFinished runId oc er)
  then show ?thesis
    by (cases "map_get ops (r_lane r)")
      (simp_all add: track_open_operations_def lane_operations_def map_remove_filter)
qed (simp_all add: track_open_operations_def lane_operations_set lane_operations_def)

lemma open_operations_other_lane:
  "lane \<noteq> r_lane r \<Longrightarrow> open_operations lane (rs @ [r]) = open_operations lane rs"
  by (auto simp: open_operations_snoc starts_operation_def finishes_operation_def
      split: option.splits record_body.splits)

lemma track_open_operations_spec:
  assumes ops: "\<forall>lane. lane_operations ops lane = open_operations lane rs"
    and fresh: "r_id r \<notin> r_id ` set rs"
  shows "lane_operations (track_open_operations ops r) lane = open_operations lane (rs @ [r])"
proof (cases "lane = r_lane r")
  case False
  then show ?thesis by (simp add: lane_operations_track open_operations_other_lane ops)
next
  case True
  have "\<not> map_has (open_operations lane rs) (r_id r)"
    using fresh open_operations_ids [of lane rs]
    by (auto simp: map_has_keys)
  then show ?thesis using True
  proof (cases "r_body r")
    case (OperationFinished runId oc er)
    then have fin: "finishes_operation (r_lane r) i r \<longleftrightarrow> i = runId" for i
      by (auto simp: finishes_operation_def)
    show ?thesis using True OperationFinished
      by (simp add: lane_operations_track open_operations_snoc starts_operation_def ops fin
          map_remove_filter)
  qed (simp_all add: lane_operations_track open_operations_snoc starts_operation_def ops
        finishes_operation_def map_set_fresh)
qed

lemma map_entries_get: 
  "distinct (map e_id es) \<Longrightarrow> map_get (map (\<lambda>e. (e_id e, e)) es) i = Some e \<longleftrightarrow> e \<in> set es \<and> e_id e = i"
  by (induction es) auto

lemma map_entries_has: "map_has (map (\<lambda>e. (e_id e, e)) es) i \<longleftrightarrow> i \<in> e_id ` set es"
  by (induction es) (auto simp: map_has_def)

lemma entriesById_has: "wf_tree s \<Longrightarrow> map_has (ss_entriesById s) i \<longleftrightarrow> i \<in> e_id ` set (ss_entries s)"
  by (simp add: wf_tree_def map_entries_has)

lemma wf_lanes_extend:
  assumes "wf_lanes s" "e_id ` set (ss_entries s) \<subseteq> e_id ` set (ss_entries s')"
    "ss_records s' = ss_records s" "ss_lanes s' = map_set (ss_lanes s) l leafId"
    "case leafId of None \<Rightarrow> True | Some i \<Rightarrow> i \<in> e_id ` set (ss_entries s')"
  shows "wf_lanes s'"
  unfolding wf_lanes_def using assms(1,2,5)
  by (simp add: wf_lanes_def assms(3,4) map_set_keys_distinct subset_iff split: option.splits)

lemma wf_lanes_mono:
  assumes "wf_lanes s" "e_id ` set (ss_entries s) \<subseteq> e_id ` set (ss_entries s')"
    "ss_records s' = ss_records s" "ss_lanes s' = ss_lanes s"
  shows "wf_lanes s'"
  unfolding wf_lanes_def using assms(1,2) by (simp add: wf_lanes_def assms(3,4) subset_iff)

lemma wf_labels_mono:
  assumes "wf_labels s" "e_id ` set (ss_entries s) \<subseteq> e_id ` set (ss_entries s')"
    "ss_labels s' = ss_labels s"
  shows "wf_labels s'"
  using assms by (simp add: wf_labels_def subset_iff)

lemma wf_log_append:
  assumes "wf_log s" "ss_sequence s' = Suc (ss_sequence s)" "ss_log s' = ss_log s @ [item]"
    "log_seq item = Suc (ss_sequence s)" "ss_entries s' = ss_entries s @ log_entries [item]"
    "ss_records s' = ss_records s @ log_records [item]"
  shows "wf_log s'"
  using assms by (simp add: wf_log_def)

lemma wf_entry_mutation:
  assumes wf: "wf_state s" and ok: "applyMutation s (EntryMutation lane e) = Inr s'"
  shows "wf_state s'"
proof -
  have w: "wf_log s" "wf_tree s" "wf_ids s" "wf_lanes s" "wf_operations s" "wf_labels s"
    "ss_stats s = stats_of (ss_entries s) (ss_records s)"
    using wf by (simp_all add: wf_state_def)
  note has = entriesById_has [OF w(2)]
  from ok have seq: "e_seq e = Suc (ss_sequence s)" and fresh: "e_id e \<notin> ss_usedIds s"
    and par: "case e_parentId e of None \<Rightarrow> True | Some p \<Rightarrow> p \<in> e_id ` set (ss_entries s)"
    and s': "s' = s\<lparr>ss_sequence := e_seq e,
                  ss_usedIds := insert (e_id e) (ss_usedIds s),
                  ss_entries := ss_entries s @ [e],
                  ss_entriesById := map_set (ss_entriesById s) (e_id e) e,
                  ss_lanes := (case lane of None \<Rightarrow> ss_lanes s
                               | Some l \<Rightarrow> map_set (ss_lanes s) l (Some (e_id e))),
                  ss_log := ss_log s @ [LogEntry (e_seq e) e],
                  ss_stats := add_entry_stats (ss_stats s) e\<rparr>"
    by (auto simp: applyMutation_def has split: if_splits option.splits)
  have "wf_log s'"
    by (rule wf_log_append [OF w(1), where item = "LogEntry (e_seq e) e"]) (simp_all add: s' seq)
  moreover have "wf_tree s'"
    using w(2,3) fresh par seq
    by (auto simp: wf_tree_def wf_ids_def s' chained_snoc sorted_wrt_append map_set_fresh
        map_entries_has less_Suc_eq_le split: option.splits)
  moreover have "wf_ids s'" using w(3) fresh by (auto simp: wf_ids_def s')
  moreover have "wf_lanes s'"
    by (cases lane) (auto intro: wf_lanes_mono [OF w(4)] wf_lanes_extend [OF w(4)] simp: s')
  moreover have "wf_operations s'" using w(5) by (simp add: wf_operations_def s')
  moreover have "wf_labels s'" by (rule wf_labels_mono [OF w(6)]) (auto simp: s')
  ultimately show ?thesis using w(7) by (simp add: wf_state_def s' stats_of_entry)
qed

lemma wf_record_mutation:
  assumes wf: "wf_state s" and ok: "applyMutation s (RecordMutation r) = Inr s'"
  shows "wf_state s'"
proof -
  have w: "wf_log s" "wf_tree s" "wf_ids s" "wf_lanes s" "wf_operations s" "wf_labels s"
    "ss_stats s = stats_of (ss_entries s) (ss_records s)"
    using wf by (simp_all add: wf_state_def)
  from ok have seq: "r_seq r = Suc (ss_sequence s)" and fresh: "r_id r \<notin> ss_usedIds s"
    and lane: "map_has (ss_lanes s) (r_lane r)"
    and s': "s' = s\<lparr>ss_sequence := r_seq r,
                  ss_usedIds := insert (r_id r) (ss_usedIds s),
                  ss_records := ss_records s @ [r],
                  ss_openOperationsByLane := track_open_operations (ss_openOperationsByLane s) r,
                  ss_log := ss_log s @ [LogRecord (r_seq r) r],
                  ss_stats := add_record_stats (ss_stats s) r\<rparr>"
    by (auto simp: applyMutation_def split: if_splits)
  have "wf_log s'"
    by (rule wf_log_append [OF w(1), where item = "LogRecord (r_seq r) r"]) (simp_all add: s' seq)
  moreover have "wf_tree s'" using w(2) seq by (auto simp: wf_tree_def s')
  moreover have "wf_ids s'" using w(3) fresh by (auto simp: wf_ids_def s')
  moreover have "wf_lanes s'" using w(4) lane by (auto simp: wf_lanes_def s')
  moreover have "wf_operations s'"
    using w(3,5) fresh track_open_operations_spec by (auto simp: wf_operations_def wf_ids_def s')
  moreover have "wf_labels s'" by (rule wf_labels_mono [OF w(6)]) (auto simp: s')
  ultimately show ?thesis using w(7) by (simp add: wf_state_def s' stats_of_record)
qed

lemma wf_pointer_mutation:
  assumes wf: "wf_state s" and ok: "applyMutation s m = Inr s'"
    and m: "\<And>l e. m \<noteq> EntryMutation l e" "\<And>r. m \<noteq> RecordMutation r"
  shows "wf_state s'"
proof -
  have w: "wf_log s" "wf_tree s" "wf_ids s" "wf_lanes s" "wf_operations s" "wf_labels s"
    "ss_stats s = stats_of (ss_entries s) (ss_records s)"
    using wf by (simp_all add: wf_state_def)
  note has = entriesById_has [OF w(2)]
  have same: "ss_entries s' = ss_entries s" "ss_records s' = ss_records s"
    "ss_entriesById s' = ss_entriesById s" "ss_usedIds s' = ss_usedIds s"
    "ss_openOperationsByLane s' = ss_openOperationsByLane s" "ss_stats s' = ss_stats s"
    and seq: "ss_sequence s' = Suc (ss_sequence s)"
    using ok m by (cases m; auto simp: applyMutation_def split: if_splits)+
  obtain item where item: "ss_log s' = ss_log s @ [item]" "log_seq item = Suc (ss_sequence s)"
    "log_entries [item] = []" "log_records [item] = []"
    using ok m by (cases m) (auto simp: applyMutation_def split: if_splits)
  have "wf_log s'" by (rule wf_log_append [OF w(1) seq item(1,2)]) (simp_all add: item same)
  moreover have "wf_tree s'" using w(2) by (auto simp: wf_tree_def same seq)
  moreover have "wf_ids s'" using w(3) by (simp add: wf_ids_def same)
  moreover have "wf_lanes s'"
    using ok m by (cases m)
      (auto intro: wf_lanes_mono [OF w(4)] wf_lanes_extend [OF w(4)]
        simp: applyMutation_def has split: if_splits option.splits)
  moreover have "wf_operations s'" using w(5) by (simp add: wf_operations_def same)
  moreover have "wf_labels s'"
    using ok m w(6) by (cases m)
      (auto simp: applyMutation_def wf_labels_def has map_set_keys_distinct map_remove_keys_distinct
        split: if_splits option.splits)
  ultimately show ?thesis using w(7) by (simp add: wf_state_def same)
qed

lemma applyMutation_wf: "wf_state s \<Longrightarrow> applyMutation s m = Inr s' \<Longrightarrow> wf_state s'"
  by (cases m) (blast intro: wf_entry_mutation wf_record_mutation wf_pointer_mutation)+

interpretation session: fallible_machine applyMutation wf_state
  by unfold_locales (rule applyMutation_wf)

section \<open>Branches\<close>

fun root_path :: "entry list \<Rightarrow> bool" where
  "root_path [] \<longleftrightarrow> False"
| "root_path [e] \<longleftrightarrow> e_parentId e = None"
| "root_path (e # e' # es) \<longleftrightarrow> e_parentId e = Some (e_id e') \<and> root_path (e' # es)"

fun upto_bound :: "('a \<Rightarrow> bool) \<Rightarrow> 'a list \<Rightarrow> 'a list" where
  "upto_bound P [] = []"
| "upto_bound P (x # xs) = (if P x then [x] else x # upto_bound P xs)"

definition limited :: "js_number option \<Rightarrow> 'a list \<Rightarrow> 'a list" where
  "limited lmt xs = (case lmt of Some (JsInt n) \<Rightarrow> take (nat n) xs | _ \<Rightarrow> xs)"

definition at_bound :: "branch_query \<Rightarrow> entry \<Rightarrow> bool" where
  "at_bound q e \<longleftrightarrow> Some (e_id e) = q_stopAtId q \<or> Some (entry_type_of e) = q_stopAtType q"

lemma chained_parent:
  assumes "chained seen es" "sorted_wrt (<) (map e_seq es)" "e \<in> set es" "e_parentId e = Some p"
  shows "p \<in> seen \<or> (\<exists>e' \<in> set es. e_id e' = p \<and> e_seq e' < e_seq e)"
  using assms
proof (induction es arbitrary: seen)
  case Nil
  then show ?case by simp
next
  case (Cons a es)
  show ?case
  proof (cases "e = a")
    case True
    with Cons.prems show ?thesis by simp
  next
    case False
    with Cons.prems have "p \<in> insert (e_id a) seen \<or> (\<exists>e' \<in> set es. e_id e' = p \<and> e_seq e' < e_seq e)"
      by (intro Cons.IH) auto
    moreover have "e_seq a < e_seq e" using Cons.prems False by auto
    ultimately show ?thesis by auto
  qed
qed

lemma entriesById_get:
  "wf_tree s \<Longrightarrow> map_get (ss_entriesById s) i = Some e \<longleftrightarrow> e \<in> set (ss_entries s) \<and> e_id e = i"
  by (auto simp: wf_tree_def map_entries_get dest: chained_distinct)

lemma wf_tree_parent:
  assumes "wf_tree s" "e \<in> set (ss_entries s)" "e_parentId e = Some p"
  obtains e' where "map_get (ss_entriesById s) p = Some e'" "e' \<in> set (ss_entries s)"
    "e_id e' = p" "e_seq e' < e_seq e"
  using chained_parent [of "{}" "ss_entries s" e p] assms entriesById_get [OF assms(1)]
  by (auto simp: wf_tree_def)

lemma wf_tree_id_inj:
  "wf_tree s \<Longrightarrow> a \<in> set (ss_entries s) \<Longrightarrow> b \<in> set (ss_entries s) \<Longrightarrow> e_id a = e_id b \<Longrightarrow> a = b"
  using entriesById_get [of s "e_id a" a] entriesById_get [of s "e_id a" b] by auto

text \<open>Walking from any entry reaches a root: no cycle, no missing parent.\<close>

lemma walk_loop_reaches_root:
  assumes wf: "wf_tree s" and cur: "cur \<in> set (ss_entries s)"
    and new: "\<forall>e \<in> set (ss_entries s). e_seq e \<le> e_seq cur \<longrightarrow> e_id e \<notin> visited"
  shows "\<exists>path. walk_loop (ss_entriesById s) None None visited cur = (cur # path, None) \<and>
    root_path (cur # path) \<and> set (cur # path) \<subseteq> set (ss_entries s) \<and>
    sorted_wrt (>) (map e_seq (cur # path))"
  using cur new
proof (induction "e_seq cur" arbitrary: cur visited rule: less_induct)
  case less
  have notv: "e_id cur \<notin> visited" using less.prems by auto
  show ?case
  proof (cases "e_parentId cur")
    case None
    then show ?thesis using notv less.prems(1) by (simp add: walk_loop.simps)
  next
    case (Some p)
    obtain e' where e': "map_get (ss_entriesById s) p = Some e'" "e' \<in> set (ss_entries s)"
      "e_id e' = p" "e_seq e' < e_seq cur"
      using wf_tree_parent [OF wf less.prems(1) Some] .
    have "\<forall>e \<in> set (ss_entries s). e_seq e \<le> e_seq e' \<longrightarrow> e_id e \<notin> insert (e_id cur) visited"
      using less.prems e'(4) wf_tree_id_inj [OF wf] by fastforce
    from less.hyps [OF e'(4,2) this] obtain path where path:
      "walk_loop (ss_entriesById s) None None (insert (e_id cur) visited) e' = (e' # path, None)"
      "root_path (e' # path)" "set (e' # path) \<subseteq> set (ss_entries s)"
      "sorted_wrt (>) (map e_seq (e' # path))" by blast
    have "walk_loop (ss_entriesById s) None None visited cur = (cur # e' # path, None)"
      using notv Some e'(1) path(1) by (simp add: walk_loop.simps [of _ _ _ visited cur])
    moreover have "root_path (cur # e' # path)" using Some e'(3) path(2) by simp
    moreover have "sorted_wrt (>) (map e_seq (cur # e' # path))" using path(4) e'(4) by auto
    ultimately show ?thesis using path(3) less.prems(1) by auto
  qed
qed

lemma walk_loop_bounded:
  assumes "walk_loop m None None visited cur = (path, None)"
  shows "walk_loop m st si visited cur =
    (upto_bound (\<lambda>e. Some (e_id e) = si \<or> Some (entry_type_of e) = st) path, None)"
  using assms
proof (induction m st si visited cur arbitrary: path rule: walk_loop.induct)
  case (1 m st si visited cur)
  show ?case
  proof (cases "e_parentId cur")
    case None
    then show ?thesis using "1.prems"
      by (auto simp: walk_loop.simps [of _ _ _ visited cur] split: if_splits)
  next
    case (Some p)
    have notv: "e_id cur \<notin> visited"
      using "1.prems" by (auto simp: walk_loop.simps [of _ _ _ visited cur] split: if_splits)
    then obtain nxt where nxt: "map_get m p = Some nxt"
      using "1.prems" Some by (auto simp: walk_loop.simps [of _ _ _ visited cur] split: option.splits)
    then obtain rest where rest: "walk_loop m None None (insert (e_id cur) visited) nxt = (rest, None)"
      "path = cur # rest"
      using "1.prems" Some notv
      by (auto simp: walk_loop.simps [of _ _ _ visited cur] split: prod.splits)
    show ?thesis
    proof (cases "Some (e_id cur) = si \<or> Some (entry_type_of cur) = st")
      case True
      then show ?thesis using notv rest(2) by (auto simp: walk_loop.simps [of _ _ _ visited cur])
    next
      case False
      from "1.IH" [OF notv False Some nxt rest(1)] False notv Some nxt rest(2)
      show ?thesis by (auto simp: walk_loop.simps [of _ _ _ visited cur])
    qed
  qed
qed

definition branch_of :: "session_state \<Rightarrow> ident \<Rightarrow> entry list" where
  "branch_of s i = fst (walkToRoot s (Some i) None None)"

lemma walkToRoot_branch:
  assumes wf: "wf_tree s" and i: "i \<in> e_id ` set (ss_entries s)"
  shows "walkToRoot s (Some i) None None = (branch_of s i, None)" (is ?A)
    and "root_path (branch_of s i)" (is ?B)
    and "set (branch_of s i) \<subseteq> set (ss_entries s)" (is ?C)
    and "sorted_wrt (>) (map e_seq (branch_of s i))" (is ?D)
    and "e_id (hd (branch_of s i)) = i" (is ?E)
proof -
  from i obtain cur where cur: "cur \<in> set (ss_entries s)" "e_id cur = i" by auto
  then have get: "map_get (ss_entriesById s) i = Some cur" using entriesById_get [OF wf] by simp
  obtain path where path: "walk_loop (ss_entriesById s) None None {} cur = (cur # path, None)"
    "root_path (cur # path)" "set (cur # path) \<subseteq> set (ss_entries s)"
    "sorted_wrt (>) (map e_seq (cur # path))"
    using walk_loop_reaches_root [OF wf cur(1), of "{}"] by auto
  have walk: "walkToRoot s (Some i) None None = (cur # path, None)"
    using get path(1) by (simp add: walkToRoot_def)
  then have "branch_of s i = cur # path" by (simp add: branch_of_def)
  with walk path cur(2) show ?A ?B ?C ?D ?E by simp_all
qed

lemma walkToRoot_bounded:
  assumes wf: "wf_tree s" and i: "i \<in> e_id ` set (ss_entries s)"
  shows "walkToRoot s (Some i) st si =
    (upto_bound (\<lambda>e. Some (e_id e) = si \<or> Some (entry_type_of e) = st) (branch_of s i), None)"
  using walkToRoot_branch(1) [OF wf i] walk_loop_bounded
  by (auto simp: walkToRoot_def split: option.splits)

definition limit_ok :: "js_number option \<Rightarrow> bool" where
  "limit_ok lmt \<longleftrightarrow> assertValidLimit lmt = Inr ()"

lemma limit_ok_cases:
  assumes "limit_ok lmt"
  obtains "lmt = None" | n where "lmt = Some (JsInt (int n))" "0 < n"
proof (cases lmt)
  case None
  then show ?thesis using that by blast
next
  case (Some v)
  then obtain k where "v = JsInt k" "0 < k"
    using assms by (cases v) (auto simp: limit_ok_def assertValidLimit_def split: if_splits)
  then show ?thesis using that(2) [of "nat k"] Some by simp
qed

lemma validate_page_ok:
  "validate_page lmt cursor = Inr () \<Longrightarrow> limit_ok lmt"
  by (simp add: validate_page_def limit_ok_def split: sum.splits)

lemma scan_limit_limited:
  "limit_ok lmt \<Longrightarrow> scan_limit match lmt [] xs = limited lmt (filter match xs)"
  by (erule limit_ok_cases) (simp_all add: scan_limit_none scan_limit_take limited_def)

lemma branch_oldest_none:
  "q_limit q = None \<Longrightarrow>
   branch_oldest_loop q results es = results @ filter (\<lambda>e. matchesEntryQuery e q) (upto_bound (at_bound q) es)"
  by (induction es arbitrary: results) (auto simp: Let_def at_bound_def)

lemma branch_oldest_some:
  "q_limit q = Some (JsInt (int n)) \<Longrightarrow> length results < n \<Longrightarrow>
   branch_oldest_loop q results es =
     results @ take (n - length results) (filter (\<lambda>e. matchesEntryQuery e q) (upto_bound (at_bound q) es))"
proof (induction es arbitrary: results)
  case Nil
  then show ?case by simp
next
  case (Cons e es)
  consider "\<not> matchesEntryQuery e q" | "matchesEntryQuery e q" "n = Suc (length results)"
    | "matchesEntryQuery e q" "length (results @ [e]) < n"
    using Cons.prems by fastforce
  then show ?case
  proof cases
    case 1
    then show ?thesis using Cons by (auto simp: Let_def at_bound_def)
  next
    case 2
    then show ?thesis using Cons.prems by (simp add: Let_def)
  next
    case 3
    then have "n - length results = Suc (n - length (results @ [e]))" by simp
    then show ?thesis using 3 Cons.prems Cons.IH [OF _ 3(2)] by (auto simp: Let_def at_bound_def)
  qed
qed

lemma branch_oldest_limited:
  "limit_ok (q_limit q) \<Longrightarrow> branch_oldest_loop q [] es =
     limited (q_limit q) (filter (\<lambda>e. matchesEntryQuery e q) (upto_bound (at_bound q) es))"
  by (erule limit_ok_cases) (simp_all add: branch_oldest_none branch_oldest_some limited_def)

lemma branch_newest_none:
  "q_limit q = None \<Longrightarrow>
   branch_newest_loop q results es = (results @ filter (\<lambda>e. matchesEntryQuery e q) es, True)"
  by (induction es arbitrary: results) (auto simp: Let_def)

lemma branch_newest_some:
  "q_limit q = Some (JsInt (int n)) \<Longrightarrow> length results < n \<Longrightarrow>
   fst (branch_newest_loop q results es) =
     results @ take (n - length results) (filter (\<lambda>e. matchesEntryQuery e q) es)"
proof (induction es arbitrary: results)
  case Nil
  then show ?case by simp
next
  case (Cons e es)
  consider "\<not> matchesEntryQuery e q" | "matchesEntryQuery e q" "n = Suc (length results)"
    | "matchesEntryQuery e q" "length (results @ [e]) < n"
    using Cons.prems by fastforce
  then show ?case
  proof cases
    case 1
    then show ?thesis using Cons by (auto simp: Let_def)
  next
    case 2
    then show ?thesis using Cons.prems by (simp add: Let_def)
  next
    case 3
    then have "n - length results = Suc (n - length (results @ [e]))" by simp
    then show ?thesis using 3 Cons.prems Cons.IH [OF _ 3(2)] by (simp add: Let_def)
  qed
qed

lemma branch_newest_limited:
  "limit_ok (q_limit q) \<Longrightarrow> fst (branch_newest_loop q [] es) =
     limited (q_limit q) (filter (\<lambda>e. matchesEntryQuery e q) es)"
  by (erule limit_ok_cases) (simp_all add: branch_newest_none branch_newest_some limited_def)

lemma findEntriesOnBranch_spec:
  assumes wf: "wf_state s" and i: "q_start q \<in> e_id ` set (ss_entries s)"
    and page: "validate_page (q_limit q) (q_cursor q) = Inr ()"
  shows "findEntriesOnBranch s q =
    Inr (limited (q_limit q) (filter (\<lambda>e. matchesEntryQuery e q) (upto_bound (at_bound q)
      (if q_order q = Some OldestFirst then rev (branch_of s (q_start q)) else branch_of s (q_start q)))))"
proof -
  have tree: "wf_tree s" using wf by (simp add: wf_state_def)
  have ab: "(\<lambda>e. Some (e_id e) = q_stopAtId q \<or> Some (entry_type_of e) = q_stopAtType q) = at_bound q"
    by (simp add: at_bound_def fun_eq_iff)
  note ok = validate_page_ok [OF page]
  show ?thesis
  proof (cases "q_order q = Some OldestFirst")
    case True
    then show ?thesis
      by (simp add: findEntriesOnBranch_def page walkToRoot_branch(1) [OF tree i]
          branch_oldest_limited [OF ok])
  next
    case False
    obtain rs b where loop:
      "branch_newest_loop q [] (upto_bound (at_bound q) (branch_of s (q_start q))) = (rs, b)"
      by fastforce
    with branch_newest_limited [OF ok, of "upto_bound (at_bound q) (branch_of s (q_start q))"] False
    show ?thesis
      by (simp add: findEntriesOnBranch_def page walkToRoot_bounded [OF tree i] ab)
  qed
qed

section \<open>Paging\<close>

lemma findEntries_spec:
  assumes "validate_page (q_limit q) (q_cursor q) = Inr ()"
  shows "findEntries s q =
    Inr (limited (q_limit q) (filter (\<lambda>e. matchesEntryQuery e q) (ordered (ss_entries s) (q_order q))))"
  using assms scan_limit_limited [OF validate_page_ok [OF assms]] by (simp add: findEntries_def)

lemma sorted_wrt_filter_after_take:
  assumes "sorted_wrt R xs" "take n xs \<noteq> []" "\<And>x. \<not> R x x" "\<And>x y. R x y \<Longrightarrow> \<not> R y x"
  shows "filter (\<lambda>x. R (last (take n xs)) x) xs = drop n xs"
proof -
  let ?a = "take n xs" and ?b = "drop n xs"
  have sw: "sorted_wrt R (?a @ ?b)" using assms(1) by simp
  obtain l ys where a: "?a = ys @ [l]" using assms(2) by (metis rev_exhaust)
  have "filter (R l) ?b = ?b"
    using sw a by (auto simp: sorted_wrt_append filter_id_conv)
  moreover have "filter (R l) ?a = []"
    using sw a assms(3,4) by (auto simp: sorted_wrt_append filter_empty_conv)
  moreover have "filter (R l) xs = filter (R l) ?a @ filter (R l) ?b"
    by (metis append_take_drop_id filter_append)
  ultimately show ?thesis using a by simp
qed

text \<open>The next page starts after the last entry of the previous one.\<close>

definition precedes :: "entry_order option \<Rightarrow> entry \<Rightarrow> entry \<Rightarrow> bool" where
  "precedes order a b \<longleftrightarrow> (if order = Some OldestFirst then e_seq a < e_seq b else e_seq b < e_seq a)"

lemma query_next_cursor:
  assumes "matchesEntryQuery l q"
  shows "matchesEntryQuery e (q\<lparr>q_cursor := Some (JsInt (int (e_seq l)))\<rparr>) \<longleftrightarrow>
     matchesEntryQuery e q \<and> precedes (q_order q) l e"
proof -
  have "(case q_cursor q of None \<Rightarrow> True
      | Some a \<Rightarrow> if q_order q = Some OldestFirst then seq_after (e_seq l) a else seq_before (e_seq l) a)"
    using assms by (simp add: matchesEntryQuery_def)
  then show ?thesis
    by (cases "q_cursor q"; cases "q_order q = Some OldestFirst"; cases "the (q_cursor q)")
      (auto simp: matchesEntryQuery_def precedes_def split: option.splits)
qed

lemma matchesEntryQuery_limit [simp]:
  "matchesEntryQuery e (q\<lparr>q_limit := l\<rparr>) = matchesEntryQuery e q"
  by (simp add: matchesEntryQuery_def split: option.splits)

lemma findEntries_pages_concat:
  assumes wf: "wf_state s" and lmt: "q_limit q = Some (JsInt (int n))"
    and page: "findEntries s q = Inr es" "es \<noteq> []"
  shows "\<exists>es'. findEntries s (q\<lparr>q_cursor := Some (JsInt (int (e_seq (last es))))\<rparr>) = Inr es' \<and>
    findEntries s (q\<lparr>q_limit := Some (JsInt (int (n + n)))\<rparr>) = Inr (es @ es')"
proof -
  let ?R = "precedes (q_order q)"
  let ?F = "filter (\<lambda>e. matchesEntryQuery e q) (ordered (ss_entries s) (q_order q))"
  let ?q' = "q\<lparr>q_cursor := Some (JsInt (int (e_seq (last es))))\<rparr>"
  have ok: "validate_page (q_limit q) (q_cursor q) = Inr ()"
    using page(1) by (cases "validate_page (q_limit q) (q_cursor q)") (auto simp: findEntries_def)
  have n: "0 < n" using ok lmt by (auto simp: validate_page_def assertValidLimit_def split: if_splits)
  have es: "es = take n ?F" using page(1) findEntries_spec [OF ok] lmt by (simp add: limited_def)
  have "sorted_wrt (\<lambda>a b. e_seq a < e_seq b) (ss_entries s)"
    using wf by (simp add: wf_state_def wf_tree_def sorted_wrt_map)
  then have "sorted_wrt ?R (ordered (ss_entries s) (q_order q))"
    by (auto simp: ordered_def sorted_wrt_rev precedes_def elim: sorted_wrt_mono_rel [rotated])
  then have sF: "sorted_wrt ?R ?F" by (rule sorted_wrt_filter)
  have "last es \<in> set ?F" using page(2) es by (metis last_in_set in_set_takeD)
  then have m: "matchesEntryQuery (last es) q" by simp
  have "filter (\<lambda>e. matchesEntryQuery e ?q') (ordered (ss_entries s) (q_order q))
      = filter (?R (last es)) ?F"
    by (simp add: query_next_cursor [OF m] filter_filter conj_commute)
  also have "\<dots> = drop n ?F"
    unfolding es
    by (rule sorted_wrt_filter_after_take [OF sF])
      (use page(2) es in \<open>auto simp: precedes_def split: if_splits\<close>)
  finally have rest: "filter (\<lambda>e. matchesEntryQuery e ?q') (ordered (ss_entries s) (q_order q)) = drop n ?F" .
  have ok': "validate_page (q_limit ?q') (q_cursor ?q') = Inr ()"
    "validate_page (Some (JsInt (int (n + n)))) (q_cursor q) = Inr ()"
    using ok n lmt by (simp_all add: validate_page_def assertValidLimit_def assertValidCursor_def
        split: option.splits js_number.splits)
  have "findEntries s ?q' = Inr (take n (drop n ?F))"
    using findEntries_spec [OF ok'(1)] rest lmt by (simp add: limited_def)
  moreover have "findEntries s (q\<lparr>q_limit := Some (JsInt (int (n + n)))\<rparr>) = Inr (take (n + n) ?F)"
    using findEntries_spec [of "q\<lparr>q_limit := Some (JsInt (int (n + n)))\<rparr>" s] ok'(2)
    by (simp add: limited_def del: of_nat_add)
  ultimately show ?thesis using es by (simp add: take_add)
qed

section \<open>Forks\<close>

definition unsequenced :: "entry \<Rightarrow> entry" where
  "unsequenced e = e\<lparr>e_seq := 0\<rparr>"

lemma unsequenced_sel [simp]:
  "e_id (unsequenced e) = e_id e" "e_parentId (unsequenced e) = e_parentId e"
  "unsequenced (e\<lparr>e_seq := n\<rparr>) = unsequenced e"
  by (simp_all add: unsequenced_def)

lemma unsequenced_ids:
  assumes "map unsequenced es = map unsequenced fs"
  shows "e_id ` set es = e_id ` set fs"
proof -
  have "e_id ` set xs = e_id ` set (map unsequenced xs)" for xs
    by (force simp: image_iff)
  then show ?thesis using assms by metis
qed

lemma enumerate_snoc: "enumerate n (xs @ [x]) = enumerate n xs @ [(n + length xs, x)]"
  by (simp add: enumerate_append_eq)

lemma replay_entries:
  assumes "chained {} es"
  shows "\<exists>t. for_each applyMutation new_session_state
      (map (\<lambda>(n, e). EntryMutation None (e\<lparr>e_seq := n\<rparr>)) (enumerate 1 es)) = Inr t \<and>
    ss_sequence t = length es \<and> map unsequenced (ss_entries t) = map unsequenced es \<and>
    ss_lanes t = [(main_lane, None)] \<and> ss_name t = None \<and> ss_labels t = [] \<and> ss_records t = []"
  using assms
proof (induction es rule: rev_induct)
  case Nil
  then show ?case by (simp add: new_session_state_def)
next
  case (snoc e es)
  let ?ms = "map (\<lambda>(n, e). EntryMutation None (e\<lparr>e_seq := n\<rparr>)) (enumerate 1 es)"
  from snoc obtain t where t: "for_each applyMutation new_session_state ?ms = Inr t"
    "ss_sequence t = length es" "map unsequenced (ss_entries t) = map unsequenced es"
    "ss_lanes t = [(main_lane, None)]" "ss_name t = None" "ss_labels t = []" "ss_records t = []"
    by (auto simp: chained_snoc)
  have wf: "wf_state t" using session.run_keeps [OF wf_new_session_state t(1)] .
  have ids: "e_id ` set (ss_entries t) = e_id ` set es" using unsequenced_ids [OF t(3)] .
  have "ss_usedIds t = e_id ` set es" using wf ids t(7) by (simp add: wf_state_def wf_ids_def)
  moreover have "map_has (ss_entriesById t) i \<longleftrightarrow> i \<in> e_id ` set es" for i
    using wf entriesById_has [of t i] ids by (simp add: wf_state_def)
  ultimately have "\<exists>u. applyMutation t (EntryMutation None (e\<lparr>e_seq := Suc (length es)\<rparr>)) = Inr u \<and>
      ss_sequence u = Suc (length es) \<and> ss_entries u = ss_entries t @ [e\<lparr>e_seq := Suc (length es)\<rparr>] \<and>
      ss_lanes u = ss_lanes t \<and> ss_name u = ss_name t \<and> ss_labels u = ss_labels t \<and>
      ss_records u = ss_records t"
    using snoc.prems t(2) by (auto simp: applyMutation_def chained_snoc split: option.splits)
  then show ?case using t by (auto simp: enumerate_snoc for_each_append)
qed

lemma replay_lanes:
  assumes "\<forall>lane i. (lane, Some i) \<in> set ls \<longrightarrow> map_has (ss_entriesById s) i"
    and "distinct (map fst ls)"
  shows "\<exists>t. for_each applyMutation s
      (map (\<lambda>(n, lane, leafId). LaneMutation n lane leafId) (enumerate (Suc (ss_sequence s)) ls)) = Inr t \<and>
    ss_sequence t = ss_sequence s + length ls \<and> ss_entries t = ss_entries s \<and>
    ss_entriesById t = ss_entriesById s \<and>
    (\<forall>lane. map_get (ss_lanes t) lane =
      (case map_get ls lane of Some leafId \<Rightarrow> Some leafId | None \<Rightarrow> map_get (ss_lanes s) lane)) \<and>
    ss_name t = ss_name s \<and> ss_labels t = ss_labels s \<and> ss_records t = ss_records s"
  using assms
proof (induction ls arbitrary: s)
  case Nil
  then show ?case by simp
next
  case (Cons l ls)
  obtain lane leafId where l: "l = (lane, leafId)" by fastforce
  let ?u = "s\<lparr>ss_sequence := Suc (ss_sequence s), ss_lanes := map_set (ss_lanes s) lane leafId,
      ss_log := ss_log s @ [LogLane (Suc (ss_sequence s)) lane leafId]\<rparr>"
  have u: "applyMutation s (LaneMutation (Suc (ss_sequence s)) lane leafId) = Inr ?u"
    using Cons.prems(1) l by (auto simp: applyMutation_def split: option.splits)
  have "\<forall>lane i. (lane, Some i) \<in> set ls \<longrightarrow> map_has (ss_entriesById ?u) i"
    using Cons.prems(1) by simp
  from Cons.IH [OF this] Cons.prems(2) obtain t where t:
    "for_each applyMutation ?u (map (\<lambda>(n, lane, leafId). LaneMutation n lane leafId)
        (enumerate (Suc (ss_sequence ?u)) ls)) = Inr t"
    "ss_sequence t = ss_sequence ?u + length ls" "ss_entries t = ss_entries ?u"
    "ss_entriesById t = ss_entriesById ?u"
    "\<forall>lane. map_get (ss_lanes t) lane =
      (case map_get ls lane of Some leafId \<Rightarrow> Some leafId | None \<Rightarrow> map_get (ss_lanes ?u) lane)"
    "ss_name t = ss_name ?u" "ss_labels t = ss_labels ?u" "ss_records t = ss_records ?u"
    by auto
  have nin: "map_get ls lane = None"
    using Cons.prems(2) l by (simp add: map_get_def map_of_eq_None_iff)
  show ?case
    using u t nin l by (auto split: option.splits)
qed

lemma replay_labels:
  assumes "\<forall>i label. (i, label) \<in> set ls \<longrightarrow> map_has (ss_entriesById s) i" and "distinct (map fst ls)"
  shows "\<exists>t. for_each applyMutation s
      (map (\<lambda>(n, i, label). LabelMutation n i (Some label)) (enumerate (Suc (ss_sequence s)) ls)) = Inr t \<and>
    ss_entries t = ss_entries s \<and> ss_lanes t = ss_lanes s \<and>
    (\<forall>i. map_get (ss_labels t) i =
      (case map_get ls i of Some label \<Rightarrow> Some label | None \<Rightarrow> map_get (ss_labels s) i)) \<and>
    ss_name t = ss_name s \<and> ss_records t = ss_records s"
  using assms
proof (induction ls arbitrary: s)
  case Nil
  then show ?case by simp
next
  case (Cons l ls)
  obtain i label where l: "l = (i, label)" by fastforce
  let ?u = "s\<lparr>ss_sequence := Suc (ss_sequence s), ss_labels := map_set (ss_labels s) i label,
      ss_log := ss_log s @ [LogLabel (Suc (ss_sequence s)) i (Some label)]\<rparr>"
  have u: "applyMutation s (LabelMutation (Suc (ss_sequence s)) i (Some label)) = Inr ?u"
    using Cons.prems(1) l by (auto simp: applyMutation_def)
  have "\<forall>i label. (i, label) \<in> set ls \<longrightarrow> map_has (ss_entriesById ?u) i"
    using Cons.prems(1) by simp
  from Cons.IH [OF this] Cons.prems(2) obtain t where t:
    "for_each applyMutation ?u (map (\<lambda>(n, i, label). LabelMutation n i (Some label))
        (enumerate (Suc (ss_sequence ?u)) ls)) = Inr t"
    "ss_entries t = ss_entries ?u" "ss_lanes t = ss_lanes ?u"
    "\<forall>i. map_get (ss_labels t) i =
      (case map_get ls i of Some label \<Rightarrow> Some label | None \<Rightarrow> map_get (ss_labels ?u) i)"
    "ss_name t = ss_name ?u" "ss_records t = ss_records ?u"
    by auto
  have nin: "map_get ls i = None"
    using Cons.prems(2) l by (simp add: map_get_def map_of_eq_None_iff)
  show ?case
    using u t nin l by (auto split: option.splits)
qed

lemma labels_of_entries_get:
  "distinct (map e_id es) \<Longrightarrow> map_get (labels_of_entries s es) i =
     (if i \<in> e_id ` set es then map_get (ss_labels s) i else None)"
  by (induction es) (auto simp: labels_of_entries_def split: option.splits)

lemma labels_of_entries_keys:
  "map fst (labels_of_entries s es) = map e_id (filter (\<lambda>e. map_has (ss_labels s) (e_id e)) es)"
  by (induction es) (auto simp: labels_of_entries_def map_has_def split: option.splits)

lemma fork_mutations_replay:
  assumes ch: "chained {} es"
    and ls: "\<forall>lane i. (lane, Some i) \<in> set ls \<longrightarrow> i \<in> e_id ` set es"
    and ds: "distinct (map fst ls)" and mn: "map_has ls main_lane"
  shows "\<exists>t. for_each applyMutation new_session_state (fork_mutations s es ls) = Inr t \<and>
    map unsequenced (ss_entries t) = map unsequenced es \<and>
    (\<forall>lane. map_get (ss_lanes t) lane = map_get ls lane) \<and>
    ss_name t = ss_name s \<and>
    (\<forall>i. map_get (ss_labels t) i = (if i \<in> e_id ` set es then map_get (ss_labels s) i else None)) \<and>
    ss_records t = []"
proof -
  obtain t1 where t1: "for_each applyMutation new_session_state
      (map (\<lambda>(n, e). EntryMutation None (e\<lparr>e_seq := n\<rparr>)) (enumerate 1 es)) = Inr t1"
    "ss_sequence t1 = length es" "map unsequenced (ss_entries t1) = map unsequenced es"
    "ss_lanes t1 = [(main_lane, None)]" "ss_name t1 = None" "ss_labels t1 = []" "ss_records t1 = []"
    using replay_entries [OF ch] by blast
  have wf1: "wf_tree t1"
    using session.run_keeps [OF wf_new_session_state t1(1)] by (simp add: wf_state_def)
  have has1: "map_has (ss_entriesById t1) i \<longleftrightarrow> i \<in> e_id ` set es" for i
    using entriesById_has [OF wf1] unsequenced_ids [OF t1(3)] by simp
  have "\<forall>lane i. (lane, Some i) \<in> set ls \<longrightarrow> map_has (ss_entriesById t1) i"
    using ls by (simp add: has1)
  from replay_lanes [OF this ds] obtain t2 where t2: "for_each applyMutation t1
      (map (\<lambda>(n, lane, leafId). LaneMutation n lane leafId) (enumerate (Suc (ss_sequence t1)) ls)) = Inr t2"
    "ss_sequence t2 = ss_sequence t1 + length ls" "ss_entries t2 = ss_entries t1"
    "ss_entriesById t2 = ss_entriesById t1"
    "\<forall>lane. map_get (ss_lanes t2) lane =
      (case map_get ls lane of Some leafId \<Rightarrow> Some leafId | None \<Rightarrow> map_get (ss_lanes t1) lane)"
    "ss_name t2 = ss_name t1" "ss_labels t2 = ss_labels t1" "ss_records t2 = ss_records t1" by blast
  define t3 where "t3 = (if ss_name s = None then t2 else t2\<lparr>ss_sequence := Suc (ss_sequence t2),
      ss_name := ss_name s, ss_log := ss_log t2 @ [LogName (Suc (ss_sequence t2)) (ss_name s)]\<rparr>)"
  have t3: "for_each applyMutation t2
      (if ss_name s = None then [] else [NameMutation (Suc (ss_sequence t2)) (ss_name s)]) = Inr t3"
    "ss_entries t3 = ss_entries t2" "ss_entriesById t3 = ss_entriesById t2"
    "ss_lanes t3 = ss_lanes t2" "ss_labels t3 = ss_labels t2" "ss_records t3 = ss_records t2"
    "ss_name t3 = ss_name s" using t1(5) t2(6) by (simp_all add: t3_def applyMutation_def)
  have dist: "distinct (map e_id es)" using chained_distinct [OF ch] by simp
  have "\<forall>i label. (i, label) \<in> set (labels_of_entries s es) \<longrightarrow> map_has (ss_entriesById t3) i"
    by (auto simp: t3 t2 has1 labels_of_entries_def List.map_filter_def)
  moreover have "distinct (map fst (labels_of_entries s es))"
    using dist by (simp add: labels_of_entries_keys distinct_map_filter)
  ultimately obtain t where t: "for_each applyMutation t3
      (map (\<lambda>(n, i, label). LabelMutation n i (Some label))
        (enumerate (Suc (ss_sequence t3)) (labels_of_entries s es))) = Inr t"
    "ss_entries t = ss_entries t3" "ss_lanes t = ss_lanes t3"
    "\<forall>i. map_get (ss_labels t) i = (case map_get (labels_of_entries s es) i of
        Some label \<Rightarrow> Some label | None \<Rightarrow> map_get (ss_labels t3) i)"
    "ss_name t = ss_name t3" "ss_records t = ss_records t3"
    using replay_labels [of "labels_of_entries s es" t3] by blast
  have run: "for_each applyMutation new_session_state (fork_mutations s es ls) = Inr t"
    using t1(1,2) t2(1,2) t3(1) t(1) by (simp add: fork_mutations_def for_each_append Let_def t3_def
        split: if_splits)
  have lanes: "map_get (ss_lanes t) lane = map_get ls lane" for lane
    using t(3) t3(4) t2(5) t1(4) mn by (auto simp: map_has_def split: option.splits)
  have labels: "map_get (ss_labels t) i = (if i \<in> e_id ` set es then map_get (ss_labels s) i else None)" for i
    using t(4) t3(5) t2(7) t1(6) labels_of_entries_get [OF dist] by (simp split: option.splits)
  show ?thesis
    using run lanes labels t t3 t2 t1 by (intro exI [of _ t]) simp
qed

lemma js_map_single:
  assumes "distinct (map fst m)" "\<forall>k. map_get m k = map_get [(a, v)] k"
  shows "m = [(a, v)]"
proof (cases m)
  case Nil
  then show ?thesis using assms(2) by (auto split: if_splits dest: spec [of _ a])
next
  case (Cons p m')
  have in_m: "k = a \<and> w = v" if "(k, w) \<in> set m" for k w
    using map_get_of_in_set [OF assms(1) that] assms(2) by (auto split: if_splits)
  then have p: "p = (a, v)" using Cons by (cases p) auto
  have "m' = []"
  proof (rule ccontr)
    assume "m' \<noteq> []"
    then have "hd m' \<in> set m'" by simp
    with in_m [of "fst (hd m')" "snd (hd m')"] Cons have "fst (hd m') = a" by simp
    with \<open>hd m' \<in> set m'\<close> p Cons assms(1) show False by (auto simp: rev_image_eqI)
  qed
  with p show ?thesis using Cons by simp
qed

lemma root_path_chained:
  "root_path path \<Longrightarrow> distinct (map e_id path) \<Longrightarrow> chained {} (rev path)"
proof (induction path rule: root_path.induct)
  case (3 e e' es)
  then have "chained {} ((rev es @ [e']) @ [e])"
    unfolding chained_snoc [of "{}" "rev es @ [e']" e] by auto
  then show ?case by simp
qed auto

lemma sorted_wrt_irrefl_distinct: "sorted_wrt R xs \<Longrightarrow> \<forall>x. \<not> R x x \<Longrightarrow> distinct xs"
  by (induction xs) auto

lemma branch_of_distinct:
  assumes "wf_tree s" "i \<in> e_id ` set (ss_entries s)"
  shows "distinct (map e_id (branch_of s i))"
proof -
  have "distinct (branch_of s i)"
    using walkToRoot_branch(4) [OF assms] unfolding sorted_wrt_map
    by (rule sorted_wrt_irrefl_distinct) simp
  moreover have "inj_on e_id (set (branch_of s i))"
    using walkToRoot_branch(3) [OF assms] wf_tree_id_inj [OF assms(1)] by (blast intro: inj_onI)
  ultimately show ?thesis by (simp add: distinct_map)
qed

lemma getEntry_wf:
  "wf_tree s \<Longrightarrow> getEntry s i = Some e \<longleftrightarrow> e \<in> set (ss_entries s) \<and> e_id e = i"
  by (simp add: getEntry_def entriesById_get)

lemma fork_target_known:
  assumes "wf_state s" "fork_target s entryId position = Inr (Some t)"
  shows "t \<in> e_id ` set (ss_entries s)"
proof -
  have tree: "wf_tree s" using assms(1) by (simp add: wf_state_def)
  show ?thesis
    using assms(2) wf_tree_parent [OF tree]
    by (force simp: fork_target_def getEntry_wf [OF tree] Let_def
        split: sum.splits option.splits if_splits)
qed

lemma findEntriesOnBranch_path:
  assumes "wf_state s" "t \<in> e_id ` set (ss_entries s)"
  shows "findEntriesOnBranch s (branch_path_query t) = Inr (rev (branch_of s t))"
proof -
  have all: "upto_bound (at_bound (branch_path_query t)) es = es" for es
    by (induction es) (simp_all add: at_bound_def branch_path_query_def)
  have "matchesEntryQuery e (branch_path_query t)" for e
    by (simp add: matchesEntryQuery_def branch_path_query_def)
  then show ?thesis
    using findEntriesOnBranch_spec [of s "branch_path_query t"] assms all
    by (simp add: branch_path_query_def validate_page_def assertValidLimit_def
        assertValidCursor_def limited_def)
qed

lemma fork_selection_tree: "fork_selection s ForkTree = Inr (ss_entries s, ss_lanes s)"
  using findEntries_spec [of "default_entry_query\<lparr>q_order := Some OldestFirst\<rparr>" s]
  by (simp add: fork_selection_def default_entry_query_def validate_page_def assertValidLimit_def
      assertValidCursor_def limited_def matchesEntryQuery_def ordered_def getLanes_def)

lemma fork_selection_branch:
  assumes "wf_state s" "fork_target s entryId position = Inr target"
  shows "fork_selection s (ForkBranch entryId position) =
    Inr (case target of None \<Rightarrow> [] | Some t \<Rightarrow> rev (branch_of s t), [(main_lane, target)])"
  using assms(2) findEntriesOnBranch_path [OF assms(1) fork_target_known [OF assms(1)]]
  by (auto simp: fork_selection_def split: option.splits)

lemma tree_fork_replays:
  assumes wf: "wf_state s"
  shows "\<exists>ms t. createForkMutations s ForkTree = Inr ms \<and>
    for_each applyMutation new_session_state ms = Inr t \<and>
    map unsequenced (ss_entries t) = map unsequenced (ss_entries s) \<and>
    (\<forall>lane. map_get (ss_lanes t) lane = map_get (ss_lanes s) lane) \<and>
    ss_name t = ss_name s \<and> (\<forall>i. getLabel t i = getLabel s i) \<and> ss_records t = []"
proof -
  have ch: "chained {} (ss_entries s)" using wf by (simp add: wf_state_def wf_tree_def)
  have lanes: "\<forall>lane i. (lane, Some i) \<in> set (ss_lanes s) \<longrightarrow> i \<in> e_id ` set (ss_entries s)"
    using wf by (auto simp: wf_state_def wf_lanes_def dest: map_get_of_in_set)
  have d: "distinct (map fst (ss_lanes s))" "map_has (ss_lanes s) main_lane"
    using wf by (simp_all add: wf_state_def wf_lanes_def)
  have lab: "map_get (ss_labels s) i = None" if "i \<notin> e_id ` set (ss_entries s)" for i
    using wf that map_has_keys [of "ss_labels s" i]
    by (auto simp: wf_state_def wf_labels_def map_has_def)
  show ?thesis
    using fork_mutations_replay [OF ch lanes d, of s] lab
    by (auto simp: createForkMutations_def fork_selection_tree getLabel_def)
qed

definition session_reachable :: "session_state \<Rightarrow> bool" where
  "session_reachable s \<longleftrightarrow> (\<exists>ms. for_each applyMutation new_session_state ms = Inr s)"

lemma session_reachable_wf: "session_reachable s \<Longrightarrow> wf_state s"
  unfolding session_reachable_def by (blast intro: session.run_keeps wf_new_session_state)

lemma session_reachable_new: "session_reachable new_session_state"
  unfolding session_reachable_def by (rule exI [of _ "[]"]) simp

lemma session_reachable_step:
  assumes "session_reachable s" "applyMutation s m = Inr s'"
  shows "session_reachable s'"
proof -
  obtain ms where "for_each applyMutation new_session_state ms = Inr s"
    using assms(1) unfolding session_reachable_def by blast
  then have "for_each applyMutation new_session_state (ms @ [m]) = Inr s'"
    using assms(2) by (simp add: for_each_snoc_Inr)
  then show ?thesis unfolding session_reachable_def by blast
qed

section \<open>Properties\<close>

definition demo_entry :: "ident \<Rightarrow> nat \<Rightarrow> ident option \<Rightarrow> entry" where
  "demo_entry i n parent = \<lparr>e_id = i, e_seq = n, e_parentId = parent, e_timestamp = 0,
     e_payload = MessagePayload (UserMessage \<lparr>um_content = ContentString ''hi'', um_timestamp = 0\<rparr>) False\<rparr>"

definition demo_mutations :: "session_mutation list" where
  "demo_mutations =
     [EntryMutation (Some main_lane) (demo_entry ''a'' 1 None),
      EntryMutation (Some main_lane) (demo_entry ''b'' 2 (Some ''a'')),
      LaneMutation 3 ''side'' (Some ''a''),
      LabelMutation 4 ''b'' (Some ''l'')]"

definition demo_state :: session_state where
  "demo_state = (case for_each applyMutation new_session_state demo_mutations of
     Inl _ \<Rightarrow> new_session_state | Inr s \<Rightarrow> s)"

lemma demo_state_eq:
  "demo_state = \<lparr>ss_sequence = 4, ss_usedIds = {''b'', ''a''},
     ss_entries = [demo_entry ''a'' 1 None, demo_entry ''b'' 2 (Some ''a'')],
     ss_entriesById = [(''a'', demo_entry ''a'' 1 None), (''b'', demo_entry ''b'' 2 (Some ''a''))],
     ss_records = [], ss_openOperationsByLane = [],
     ss_lanes = [(''main'', Some ''b''), (''side'', Some ''a'')],
     ss_log = [LogEntry 1 (demo_entry ''a'' 1 None), LogEntry 2 (demo_entry ''b'' 2 (Some ''a'')),
       LogLane 3 ''side'' (Some ''a''), LogLabel 4 ''b'' (Some ''l'')],
     ss_stats = initial_stats\<lparr>st_messageCount := 2\<rparr>, ss_name = None,
     ss_labels = [(''b'', ''l'')]\<rparr>"
  by (simp add: demo_state_def demo_mutations_def demo_entry_def applyMutation_def
      new_session_state_def main_lane_def map_set_def map_has_def add_entry_stats_def
      entry_type_of_def initial_stats_def)

lemma demo_reachable: "session_reachable demo_state"
proof -
  have "for_each applyMutation new_session_state demo_mutations = Inr demo_state"
    by (simp add: demo_state_def demo_mutations_def demo_entry_def applyMutation_def
        new_session_state_def main_lane_def map_set_def map_has_def)
  then show ?thesis unfolding session_reachable_def by blast
qed

text \<open>
  C1. Every sequence of mutations that \<open>applyMutation\<close> accepts from a fresh session leaves the
  state well formed: the log is numbered without a gap and holds exactly the entries and records,
  ids are never reused, every parent is an earlier entry, every lane points at an existing entry,
  the open operations of a lane are the started and not finished ones, labels belong to entries
  and the statistics are the sums over the records.
\<close>

theorem accepted_mutations_keep_wf:
  assumes "for_each applyMutation new_session_state ms = Inr s"
  shows "wf_state s"
  by (rule session.run_keeps [OF wf_new_session_state assms])

theorem accepted_mutations_keep_wf_witness:
  "for_each applyMutation new_session_state demo_mutations = Inr demo_state \<and> wf_state demo_state"
proof -
  have run: "for_each applyMutation new_session_state demo_mutations = Inr demo_state"
    by (simp add: demo_state_def demo_mutations_def demo_entry_def applyMutation_def
        new_session_state_def main_lane_def map_set_def map_has_def)
  show ?thesis using run accepted_mutations_keep_wf [OF run] by simp
qed

text \<open>
  C2. In every reachable session, walking from an entry to the root never throws: it yields a
  path that starts at that entry, follows parent links and ends at an entry without a parent,
  with strictly decreasing sequence numbers (so it visits nothing twice).
\<close>

theorem walk_reaches_root:
  assumes "session_reachable s" and "getEntry s i = Some e"
  shows "\<exists>path. walkToRoot s (Some i) None None = (path, None) \<and> hd path = e \<and>
    root_path path \<and> set path \<subseteq> set (ss_entries s) \<and> sorted_wrt (>) (map e_seq path)"
proof -
  have tree: "wf_tree s" using session_reachable_wf [OF assms(1)] by (simp add: wf_state_def)
  have e: "e \<in> set (ss_entries s)" "e_id e = i" using assms(2) getEntry_wf [OF tree] by simp_all
  then have i: "i \<in> e_id ` set (ss_entries s)" by blast
  note b = walkToRoot_branch [OF tree i]
  have "hd (branch_of s i) \<in> set (ss_entries s)"
    using b(2,3) by (cases "branch_of s i") auto
  then have "hd (branch_of s i) = e" using e b(5) wf_tree_id_inj [OF tree] by blast
  then show ?thesis using b by blast
qed

theorem walk_reaches_root_witness:
  "session_reachable demo_state \<and> getEntry demo_state ''b'' = Some (demo_entry ''b'' 2 (Some ''a'')) \<and>
   (\<exists>path. walkToRoot demo_state (Some ''b'') None None = (path, None) \<and>
      hd path = demo_entry ''b'' 2 (Some ''a'') \<and> root_path path \<and>
      set path \<subseteq> set (ss_entries demo_state) \<and> sorted_wrt (>) (map e_seq path))"
proof -
  have g: "getEntry demo_state ''b'' = Some (demo_entry ''b'' 2 (Some ''a''))"
    by (simp add: demo_state_eq getEntry_def)
  show ?thesis using g walk_reaches_root [OF demo_reachable g] demo_reachable by blast
qed

text \<open>
  C3. \<open>findEntriesOnBranch\<close> computes what its query describes: the branch of the start entry
  (leaf to root, or root to leaf for \<open>oldestFirst\<close>), cut after the first entry at a bound,
  filtered by the query and cut to the limit. It never throws on a valid page of a known start.
\<close>

theorem branch_query_refines_spec:
  assumes "session_reachable s" and "getEntry s (q_start q) = Some e"
    and "validate_page (q_limit q) (q_cursor q) = Inr ()"
  shows "findEntriesOnBranch s q =
    Inr (limited (q_limit q) (filter (\<lambda>e. matchesEntryQuery e q) (upto_bound (at_bound q)
      (if q_order q = Some OldestFirst then rev (branch_of s (q_start q)) else branch_of s (q_start q)))))"
proof -
  have wf: "wf_state s" using session_reachable_wf [OF assms(1)] .
  then have "q_start q \<in> e_id ` set (ss_entries s)"
    using assms(2) by (force simp: wf_state_def getEntry_wf)
  then show ?thesis by (rule findEntriesOnBranch_spec [OF wf _ assms(3)])
qed

theorem branch_query_refines_spec_witness:
  "findEntriesOnBranch demo_state (branch_path_query ''b'') =
     Inr (rev (branch_of demo_state ''b''))"
proof -
  let ?q = "branch_path_query ''b''"
  have g: "getEntry demo_state (q_start ?q) = Some (demo_entry ''b'' 2 (Some ''a''))"
    by (simp add: demo_state_eq getEntry_def branch_path_query_def)
  have v: "validate_page (q_limit ?q) (q_cursor ?q) = Inr ()"
    by (simp add: branch_path_query_def validate_page_def assertValidLimit_def assertValidCursor_def)
  have all: "upto_bound (at_bound ?q) es = es" for es
    by (induction es) (simp_all add: at_bound_def branch_path_query_def)
  show ?thesis using branch_query_refines_spec [OF demo_reachable g v] all
    by (simp add: branch_path_query_def limited_def matchesEntryQuery_def)
qed

text \<open>
  Paging loses and repeats nothing: a page of \<open>n\<close> entries followed by the page whose cursor
  is the sequence number of the last entry received is the page of \<open>2 n\<close> entries, in both orders.
\<close>

lemma entry_pages_concatenate:
  assumes "session_reachable s" and "q_limit q = Some (JsInt (int n))"
    and "findEntries s q = Inr es" and "es \<noteq> []"
  shows "\<exists>es'. findEntries s (q\<lparr>q_cursor := Some (JsInt (int (e_seq (last es))))\<rparr>) = Inr es' \<and>
    findEntries s (q\<lparr>q_limit := Some (JsInt (int (n + n)))\<rparr>) = Inr (es @ es')"
  by (rule findEntries_pages_concat [OF session_reachable_wf [OF assms(1)] assms(2-4)])

lemma entry_pages_concatenate_witness:
  "\<exists>es'. findEntries demo_state (default_entry_query\<lparr>q_limit := Some (JsInt 1),
      q_cursor := Some (JsInt 2)\<rparr>) = Inr es' \<and>
    findEntries demo_state (default_entry_query\<lparr>q_limit := Some (JsInt 2)\<rparr>) =
      Inr ([demo_entry ''b'' 2 (Some ''a'')] @ es')"
proof -
  let ?q = "default_entry_query\<lparr>q_limit := Some (JsInt 1)\<rparr>"
  have p: "findEntries demo_state ?q = Inr [demo_entry ''b'' 2 (Some ''a'')]"
    by (simp add: findEntries_def demo_state_eq default_entry_query_def validate_page_def
        assertValidLimit_def assertValidCursor_def ordered_def matchesEntryQuery_def Let_def)
  show ?thesis
    using entry_pages_concatenate [OF demo_reachable _ p, of 1]
    by (simp add: default_entry_query_def demo_entry_def)
qed

text \<open>
  C4. A tree fork never fails and copies the session: the mutations it produces replay from an
  empty session without an error, and the copy has the same entries (up to renumbering), the same
  lanes and leaves, name and labels, and no records.
\<close>

theorem tree_fork_copies_session:
  assumes "session_reachable s"
  shows "\<exists>ms t. createForkMutations s ForkTree = Inr ms \<and>
    for_each applyMutation new_session_state ms = Inr t \<and>
    map unsequenced (ss_entries t) = map unsequenced (ss_entries s) \<and>
    (\<forall>lane. map_get (ss_lanes t) lane = map_get (ss_lanes s) lane) \<and>
    ss_name t = ss_name s \<and> (\<forall>i. getLabel t i = getLabel s i) \<and> ss_records t = []"
  by (rule tree_fork_replays [OF session_reachable_wf [OF assms]])

theorem tree_fork_copies_session_witness:
  "\<exists>ms t. createForkMutations demo_state ForkTree = Inr ms \<and>
    for_each applyMutation new_session_state ms = Inr t \<and>
    map unsequenced (ss_entries t) = map unsequenced (ss_entries demo_state) \<and>
    (\<forall>lane. map_get (ss_lanes t) lane = map_get (ss_lanes demo_state) lane) \<and>
    ss_name t = ss_name demo_state \<and> (\<forall>i. getLabel t i = getLabel demo_state i) \<and> ss_records t = []"
  by (rule tree_fork_copies_session [OF demo_reachable])

text \<open>
  C39. A branch fork whose target resolves replays without an error into a session that holds
  exactly the branch of the target, root first, with the main lane pointing at the target.
\<close>

theorem branch_fork_copies_branch:
  assumes "session_reachable s" and "fork_target s entryId position = Inr target"
  shows "\<exists>ms t. createForkMutations s (ForkBranch entryId position) = Inr ms \<and>
    for_each applyMutation new_session_state ms = Inr t \<and>
    map unsequenced (ss_entries t) =
      map unsequenced (case target of None \<Rightarrow> [] | Some i \<Rightarrow> rev (branch_of s i)) \<and>
    getLanes t = [(main_lane, target)] \<and> ss_name t = ss_name s"
proof -
  have wf: "wf_state s" using session_reachable_wf [OF assms(1)] .
  then have tree: "wf_tree s" by (simp add: wf_state_def)
  let ?es = "case target of None \<Rightarrow> [] | Some i \<Rightarrow> rev (branch_of s i)"
  have ch: "chained {} ?es"
    using fork_target_known [OF wf] assms(2) walkToRoot_branch(2) [OF tree] branch_of_distinct [OF tree]
    by (auto split: option.splits intro!: root_path_chained)
  have "i \<in> e_id ` set ?es" if "target = Some i" for i
  proof -
    have "i \<in> e_id ` set (ss_entries s)" using fork_target_known [OF wf] assms(2) that by simp
    note b = walkToRoot_branch [OF tree this]
    have "hd (branch_of s i) \<in> set (branch_of s i)" using b(2) by (cases "branch_of s i") auto
    then show ?thesis using that b(5) by force
  qed
  then have l: "\<forall>lane i. (lane, Some i) \<in> set [(main_lane, target)] \<longrightarrow> i \<in> e_id ` set ?es"
    by (metis empty_iff empty_set prod.inject set_ConsD)
  obtain t where t: "for_each applyMutation new_session_state (fork_mutations s ?es [(main_lane, target)]) = Inr t"
    "map unsequenced (ss_entries t) = map unsequenced ?es"
    "\<forall>lane. map_get (ss_lanes t) lane = map_get [(main_lane, target)] lane" "ss_name t = ss_name s"
    using fork_mutations_replay [OF ch l, of s] by (auto simp: map_has_def)
  have "distinct (map fst (ss_lanes t))"
    using session.run_keeps [OF wf_new_session_state t(1)] by (simp add: wf_state_def wf_lanes_def)
  then have "ss_lanes t = [(main_lane, target)]" using t(3) by (rule js_map_single)
  then show ?thesis
    using t fork_selection_branch [OF wf assms(2)] by (auto simp: createForkMutations_def getLanes_def)
qed

theorem branch_fork_copies_branch_witness:
  "fork_target demo_state (Some ''b'') None = Inr (Some ''a'') \<and>
   (\<exists>ms t. createForkMutations demo_state (ForkBranch (Some ''b'') None) = Inr ms \<and>
    for_each applyMutation new_session_state ms = Inr t \<and>
    map unsequenced (ss_entries t) = map unsequenced (rev (branch_of demo_state ''a'')) \<and>
    getLanes t = [(main_lane, Some ''a'')] \<and> ss_name t = ss_name demo_state)"
proof -
  have f: "fork_target demo_state (Some ''b'') None = Inr (Some ''a'')"
    by (simp add: fork_target_def demo_state_eq getEntry_def demo_entry_def entry_type_of_def)
  show ?thesis using f branch_fork_copies_branch [OF demo_reachable f] by simp
qed

end
