(* ===== verification/Session_Memory.thy ===== *)
theory Session_Memory
  imports Session_State
begin

text \<open>
  The storage interface of a session and its in-memory implementation
  (\<^verbatim>\<open>packages/agent/src/harness/session/memory.ts\<close>), with the repository of sessions.
  \<open>Date.now()\<close> and \<open>uuidv7()\<close> are arguments (\<open>now\<close>, \<open>uuid\<close>); \<open>structuredClone\<close> is the
  identity on values. The locale \<open>session_storage\<close> states what the interface
  \<open>SessionStorage\<close> (\<^verbatim>\<open>session/types.ts\<close>) promises about its writes; the in-memory storage
  is an instance of it.
\<close>

section \<open>The in-memory storage\<close>

record memory_storage =
  ms_metadata :: session_metadata
  ms_state :: session_state

definition new_memory_storage :: "session_metadata \<Rightarrow> memory_storage" where
  "new_memory_storage metadata = \<lparr>ms_metadata = metadata, ms_state = new_session_state\<rparr>"

definition mem_fork ::
    "memory_storage \<Rightarrow> session_metadata \<Rightarrow> fork_options \<Rightarrow> session_error + memory_storage" where
  "mem_fork st metadata opts =
     (case createForkMutations (ms_state st) opts of
        Inl e \<Rightarrow> Inl e
      | Inr ms \<Rightarrow>
          (case for_each applyMutation (ms_state (new_memory_storage metadata)) ms of
             Inl e \<Rightarrow> Inl e
           | Inr s \<Rightarrow> Inr ((new_memory_storage metadata)\<lparr>ms_state := s\<rparr>)))"

definition mem_apply :: "memory_storage \<Rightarrow> session_mutation \<Rightarrow> session_error + memory_storage" where
  "mem_apply st m =
     (case applyMutation (ms_state st) m of Inl e \<Rightarrow> Inl e | Inr s \<Rightarrow> Inr (st\<lparr>ms_state := s\<rparr>))"

definition mem_createLane ::
    "memory_storage \<Rightarrow> lane_name \<Rightarrow> ident option \<Rightarrow> session_error + memory_storage" where
  "mem_createLane st lane leaf =
     (case validateNewLane (ms_state st) lane of
        Inl e \<Rightarrow> Inl e
      | Inr _ \<Rightarrow>
          (case validateTarget (ms_state st) leaf of
             Inl e \<Rightarrow> Inl e
           | Inr _ \<Rightarrow> mem_apply st (LaneMutation (nextSequence (ms_state st)) lane leaf)))"

definition mem_moveLane ::
    "memory_storage \<Rightarrow> lane_name \<Rightarrow> ident option \<Rightarrow> session_error + memory_storage" where
  "mem_moveLane st lane dest =
     (case requireLane (ms_state st) lane of
        Inl e \<Rightarrow> Inl e
      | Inr _ \<Rightarrow>
          (case validateTarget (ms_state st) dest of
             Inl e \<Rightarrow> Inl e
           | Inr _ \<Rightarrow> mem_apply st (LaneMutation (nextSequence (ms_state st)) lane dest)))"

definition mem_appendEntry ::
    "memory_storage \<Rightarrow> provisioned_entry \<Rightarrow> lane_name \<Rightarrow> int \<Rightarrow>
     session_error + (memory_storage \<times> entry)" where
  "mem_appendEntry st newEntry lane now =
     (case requireLane (ms_state st) lane of
        Inl e \<Rightarrow> Inl e
      | Inr parentId \<Rightarrow>
          (case validateUnusedId (ms_state st) (p_id newEntry) of
             Inl e \<Rightarrow> Inl e
           | Inr _ \<Rightarrow>
               (let entry = \<lparr>e_id = p_id newEntry, e_seq = nextSequence (ms_state st),
                      e_parentId = parentId, e_timestamp = now, e_payload = p_payload newEntry\<rparr>
                in case mem_apply st (EntryMutation (Some lane) entry) of
                     Inl e \<Rightarrow> Inl e | Inr st' \<Rightarrow> Inr (st', entry))))"

definition is_operation_start :: "record_body \<Rightarrow> bool" where
  "is_operation_start b \<longleftrightarrow> body_type b = ROperationStarted"

definition mem_appendRecord ::
    "memory_storage \<Rightarrow> new_record \<Rightarrow> int \<Rightarrow> session_error + (memory_storage \<times> lane_record)" where
  "mem_appendRecord st newRecord now =
     (case requireLane (ms_state st) (nr_lane newRecord) of
        Inl e \<Rightarrow> Inl e
      | Inr _ \<Rightarrow>
          (case validateUnusedId (ms_state st) (nr_id newRecord) of
             Inl e \<Rightarrow> Inl e
           | Inr _ \<Rightarrow>
               (case findOpenOperations (ms_state st) (nr_lane newRecord) (Some (JsInt 1)) of
                  Inl e \<Rightarrow> Inl e
                | Inr ops \<Rightarrow>
                    if is_operation_start (nr_body newRecord) \<and> ops \<noteq> [] then Inl StorageError
                    else
                      (let record = \<lparr>r_id = nr_id newRecord, r_seq = nextSequence (ms_state st),
                             r_lane = nr_lane newRecord, r_timestamp = now, r_body = nr_body newRecord\<rparr>
                       in case mem_apply st (RecordMutation record) of
                            Inl e \<Rightarrow> Inl e | Inr st' \<Rightarrow> Inr (st', record)))))"

definition mem_setName ::
    "memory_storage \<Rightarrow> string option \<Rightarrow> session_error + memory_storage" where
  "mem_setName st name = mem_apply st (NameMutation (nextSequence (ms_state st)) name)"

definition mem_setLabel ::
    "memory_storage \<Rightarrow> ident \<Rightarrow> string option \<Rightarrow> session_error + memory_storage" where
  "mem_setLabel st i label =
     (case validateTarget (ms_state st) (Some i) of
        Inl e \<Rightarrow> Inl e
      | Inr _ \<Rightarrow> mem_apply st (LabelMutation (nextSequence (ms_state st)) i label))"

section \<open>The repository of in-memory sessions\<close>

type_synonym memory_repo = "(ident, memory_storage) js_map"

record create_options =
  co_id :: "ident option"
  co_parentSessionId :: "ident option"

definition repo_create ::
    "memory_repo \<Rightarrow> create_options \<Rightarrow> ident \<Rightarrow> int \<Rightarrow> session_error + (memory_repo \<times> ident)" where
  "repo_create sessions opts uuid now =
     (let i = (case co_id opts of Some i \<Rightarrow> i | None \<Rightarrow> uuid)
      in if map_has sessions i then Inl AlreadyExists
         else let storage = new_memory_storage
                    \<lparr>sm_id = i, sm_createdAt = now, sm_parentSessionId = co_parentSessionId opts\<rparr>
              in Inr (map_set sessions i storage, i))"

definition requireStorage :: "memory_repo \<Rightarrow> ident \<Rightarrow> session_error + memory_storage" where
  "requireStorage sessions i =
     (case map_get sessions i of None \<Rightarrow> Inl NotFound | Some storage \<Rightarrow> Inr storage)"

definition repo_open :: "memory_repo \<Rightarrow> session_metadata \<Rightarrow> session_error + memory_storage" where
  "repo_open sessions metadata = requireStorage sessions (sm_id metadata)"

definition repo_list :: "memory_repo \<Rightarrow> session_metadata list" where
  "repo_list sessions = map ms_metadata (map_values sessions)"

definition repo_delete :: "memory_repo \<Rightarrow> session_metadata \<Rightarrow> memory_repo" where
  "repo_delete sessions metadata = map_remove sessions (sm_id metadata)"

definition repo_fork ::
    "memory_repo \<Rightarrow> session_metadata \<Rightarrow> create_options \<Rightarrow> fork_options \<Rightarrow> ident \<Rightarrow> int \<Rightarrow>
     session_error + (memory_repo \<times> ident)" where
  "repo_fork sessions source opts fork uuid now =
     (case requireStorage sessions (sm_id source) of
        Inl e \<Rightarrow> Inl e
      | Inr sourceStorage \<Rightarrow>
          (let i = (case co_id opts of Some i \<Rightarrow> i | None \<Rightarrow> uuid)
           in if map_has sessions i then Inl AlreadyExists
              else let parent = (case co_parentSessionId opts of Some p \<Rightarrow> p | None \<Rightarrow> sm_id source)
                   in case mem_fork sourceStorage
                          \<lparr>sm_id = i, sm_createdAt = now, sm_parentSessionId = Some parent\<rparr> fork of
                        Inl e \<Rightarrow> Inl e
                      | Inr storage \<Rightarrow> Inr (map_set sessions i storage, i)))"

section \<open>Writes as steps\<close>

datatype storage_write =
    CreateLane lane_name "ident option"
  | MoveLane lane_name "ident option"
  | AppendEntry provisioned_entry lane_name int
  | AppendRecord new_record int
  | SetName "string option"
  | SetLabel ident "string option"

fun mem_write :: "memory_storage \<Rightarrow> storage_write \<Rightarrow> session_error + memory_storage" where
  "mem_write st (CreateLane lane leaf) = mem_createLane st lane leaf"
| "mem_write st (MoveLane lane dest) = mem_moveLane st lane dest"
| "mem_write st (AppendEntry e lane now) =
     (case mem_appendEntry st e lane now of Inl er \<Rightarrow> Inl er | Inr (st', _) \<Rightarrow> Inr st')"
| "mem_write st (AppendRecord r now) =
     (case mem_appendRecord st r now of Inl er \<Rightarrow> Inl er | Inr (st', _) \<Rightarrow> Inr st')"
| "mem_write st (SetName name) = mem_setName st name"
| "mem_write st (SetLabel i label) = mem_setLabel st i label"

section \<open>The storage contract\<close>

fun expected_mutation :: "session_state \<Rightarrow> storage_write \<Rightarrow> session_mutation" where
  "expected_mutation s (CreateLane lane leaf) = LaneMutation (nextSequence s) lane leaf"
| "expected_mutation s (MoveLane lane dest) = LaneMutation (nextSequence s) lane dest"
| "expected_mutation s (AppendEntry p lane now) =
     EntryMutation (Some lane) \<lparr>e_id = p_id p, e_seq = nextSequence s,
       e_parentId = (case map_get (ss_lanes s) lane of None \<Rightarrow> None | Some leafId \<Rightarrow> leafId),
       e_timestamp = now, e_payload = p_payload p\<rparr>"
| "expected_mutation s (AppendRecord r now) =
     RecordMutation \<lparr>r_id = nr_id r, r_seq = nextSequence s, r_lane = nr_lane r,
       r_timestamp = now, r_body = nr_body r\<rparr>"
| "expected_mutation s (SetName name) = NameMutation (nextSequence s) name"
| "expected_mutation s (SetLabel i label) = LabelMutation (nextSequence s) i label"

definition single_operation :: "session_state \<Rightarrow> bool" where
  "single_operation s \<longleftrightarrow> wf_state s \<and> (\<forall>lane. length (open_operations lane (ss_records s)) \<le> 1)"

lemma open_operations_step:
  assumes "length (open_operations lane rs) \<le> 1"
    and "is_operation_start (r_body r) \<Longrightarrow> open_operations (r_lane r) rs = []"
  shows "length (open_operations lane (rs @ [r])) \<le> 1"
proof (cases "starts_operation lane r")
  case None
  then show ?thesis using assms(1) by (simp add: open_operations_snoc) (meson le_trans length_filter_le)
next
  case (Some op)
  then have "is_operation_start (r_body r)" "r_lane r = lane"
    by (auto simp: starts_operation_def is_operation_start_def split: record_body.splits if_splits)
  with assms(2) Some show ?thesis by (simp add: open_operations_snoc)
qed

lemma applyMutation_history:
  assumes "applyMutation s m = Inr s'"
  shows "\<exists>es rs items. ss_entries s' = ss_entries s @ es \<and> ss_records s' = ss_records s @ rs \<and>
    ss_log s' = ss_log s @ items"
  using assms by (cases m) (auto simp: applyMutation_def split: if_splits)

lemma applyMutation_records:
  assumes "applyMutation s m = Inr s'"
  shows "ss_records s' = ss_records s @ (case m of RecordMutation r \<Rightarrow> [r] | _ \<Rightarrow> [])"
  using assms by (cases m) (auto simp: applyMutation_def split: if_splits)

locale session_storage =
  fixes view :: "'s \<Rightarrow> session_state"
    and store :: "'s \<Rightarrow> storage_write \<Rightarrow> session_error + 's"
  assumes store_applies: "store st w = Inr st' \<Longrightarrow>
      applyMutation (view st) (expected_mutation (view st) w) = Inr (view st')"
    and start_needs_idle: "wf_state (view st) \<Longrightarrow> store st (AppendRecord r now) = Inr st' \<Longrightarrow>
      is_operation_start (nr_body r) \<Longrightarrow> open_operations (nr_lane r) (ss_records (view st)) = []"
begin

lemma store_keeps_single:
  assumes inv: "single_operation (view st)" and w: "store st w = Inr st'"
  shows "single_operation (view st')"
proof -
  have wf: "wf_state (view st')"
    using inv applyMutation_wf [OF _ store_applies [OF w]] by (simp add: single_operation_def)
  show ?thesis
  proof (cases "\<exists>r now. w = AppendRecord r now")
    case True
    then obtain r now where r: "w = AppendRecord r now" by blast
    define r' :: lane_record where "r' = \<lparr>r_id = nr_id r, r_seq = nextSequence (view st),
        r_lane = nr_lane r, r_timestamp = now, r_body = nr_body r\<rparr>"
    have "ss_records (view st') = ss_records (view st) @ [r']"
      using applyMutation_records [OF store_applies [OF w]] r by (simp add: r'_def)
    moreover have "open_operations (r_lane r') (ss_records (view st)) = []"
      if "is_operation_start (r_body r')"
      using start_needs_idle [of st r now st'] inv w r that by (simp add: single_operation_def r'_def)
    ultimately show ?thesis
      using inv wf open_operations_step [of _ "ss_records (view st)" r']
      by (simp add: single_operation_def)
  next
    case False
    then have "ss_records (view st') = ss_records (view st)"
      using applyMutation_records [OF store_applies [OF w]] by (cases w) simp_all
    then show ?thesis using inv wf by (simp add: single_operation_def)
  qed
qed

sublocale writes: fallible_machine store "\<lambda>st. single_operation (view st)"
  by unfold_locales (rule store_keeps_single)

sublocale history: fallible_machine store "\<lambda>st. session_reachable (view st)"
  by unfold_locales (rule session_reachable_step [OF _ store_applies])

lemma writes_append_only:
  assumes "for_each store st ws = Inr st'"
  shows "\<exists>es rs items. ss_entries (view st') = ss_entries (view st) @ es \<and>
    ss_records (view st') = ss_records (view st) @ rs \<and> ss_log (view st') = ss_log (view st) @ items"
  using assms
proof (induction ws arbitrary: st)
  case Nil
  then show ?case by simp
next
  case (Cons w ws)
  then obtain u where u: "store st w = Inr u" "for_each store u ws = Inr st'"
    by (auto split: sum.splits)
  from applyMutation_history [OF store_applies [OF u(1)]] Cons.IH [OF u(2)] show ?case
    by fastforce
qed

lemma open_operations_at_most_one:
  assumes "single_operation (view st)" "for_each store st ws = Inr st'"
    and "findOpenOperations (view st') lane lmt = Inr ops"
  shows "length ops \<le> 1"
proof -
  have single: "single_operation (view st')" using writes.run_keeps [OF assms(1,2)] .
  have "length ops \<le> length (open_operations lane (ss_records (view st')))"
    using single assms(3)
    by (auto simp: findOpenOperations_def single_operation_def wf_state_def wf_operations_def
        lane_operations_def map_values_def Let_def split: option.splits sum.splits js_number.splits
        dest!: spec [of _ lane])
  then show ?thesis using single by (meson le_trans single_operation_def)
qed

end

section \<open>The in-memory storage keeps the contract\<close>

lemma mem_apply_Inr [simp]:
  "mem_apply st m = Inr st' \<longleftrightarrow>
     (\<exists>s. applyMutation (ms_state st) m = Inr s \<and> st' = st\<lparr>ms_state := s\<rparr>)"
  by (auto simp: mem_apply_def split: sum.splits)

lemmas mem_defs = mem_createLane_def mem_moveLane_def mem_appendEntry_def mem_appendRecord_def
  mem_setName_def mem_setLabel_def

lemma findOpenOperations_first:
  "findOpenOperations s lane (Some (JsInt 1)) =
     Inr (take 1 (case map_get (ss_openOperationsByLane s) lane of
        None \<Rightarrow> [] | Some m \<Rightarrow> rev (map_values m)))"
  by (simp add: findOpenOperations_def assertValidLimit_def Let_def)

lemma idle_lane:
  assumes "wf_state s" "findOpenOperations s lane (Some (JsInt 1)) = Inr []"
  shows "open_operations lane (ss_records s) = []"
proof -
  have "lane_operations (ss_openOperationsByLane s) lane = open_operations lane (ss_records s)"
    using assms(1) by (simp add: wf_state_def wf_operations_def)
  then show ?thesis using assms(2)
    by (auto simp: findOpenOperations_first lane_operations_def map_values_def split: option.splits)
qed

lemma mem_start_needs_idle:
  assumes "wf_state (ms_state st)" "mem_write st (AppendRecord r now) = Inr st'"
    "is_operation_start (nr_body r)"
  shows "open_operations (nr_lane r) (ss_records (ms_state st)) = []"
proof (rule idle_lane [OF assms(1)])
  show "findOpenOperations (ms_state st) (nr_lane r) (Some (JsInt 1)) = Inr []"
    using assms(2,3)
    by (auto simp: mem_appendRecord_def findOpenOperations_first split: sum.splits if_splits)
qed

interpretation mem: session_storage ms_state mem_write
proof (unfold_locales, goal_cases)
  case (1 st w st')
  then show ?case
    by (cases w) (auto simp: mem_defs requireLane_def Let_def split: sum.splits option.splits if_splits)
next
  case (2 st r now st')
  then show ?case by (rule mem_start_needs_idle)
qed


lemma single_operation_new: "single_operation new_session_state"
  using wf_new_session_state by (simp add: single_operation_def new_session_state_def)

definition memory_reachable :: "memory_storage \<Rightarrow> bool" where
  "memory_reachable st \<longleftrightarrow>
     (\<exists>metadata ws. for_each mem_write (new_memory_storage metadata) ws = Inr st)"

lemma memory_reachable_single: "memory_reachable st \<Longrightarrow> single_operation (ms_state st)"
  unfolding memory_reachable_def
  by (auto simp: new_memory_storage_def single_operation_new dest: mem.writes.run_keeps [rotated])

lemma memory_reachable_wf: "memory_reachable st \<Longrightarrow> wf_state (ms_state st)"
  by (drule memory_reachable_single) (simp add: single_operation_def)

lemma memory_reachable_session: "memory_reachable st \<Longrightarrow> session_reachable (ms_state st)"
  unfolding memory_reachable_def
  by (auto simp: new_memory_storage_def session_reachable_new dest: mem.history.run_keeps [rotated])

lemma root_path_unique:
  assumes "root_path p" "root_path q" "hd p = hd q"
    and "\<forall>a \<in> set p. \<forall>b \<in> set q. e_id a = e_id b \<longrightarrow> a = b"
  shows "p = q"
  using assms
proof (induction p arbitrary: q rule: root_path.induct)
  case (1 q)
  then show ?case by simp
next
  case (2 e q)
  then show ?case by (cases q rule: root_path.cases) auto
next
  case (3 e e' es q)
  obtain b bs where q: "q = e # b # bs" "e_id e' = e_id b" "root_path (b # bs)"
    using 3(2-4) by (cases q rule: root_path.cases) simp_all
  then have "e' = b" using 3(5) by simp
  moreover have "e' # es = b # bs"
    by (rule 3(1)) (use 3(2,5) q \<open>e' = b\<close> in simp_all)
  ultimately show ?case using q(1) by simp
qed

lemma branch_of_append:
  assumes wf: "wf_tree s" and wf': "wf_tree s'" and es: "ss_entries s' = ss_entries s @ [e]"
  shows "branch_of s' (e_id e) =
    e # (case e_parentId e of None \<Rightarrow> [] | Some p \<Rightarrow> branch_of s p)"
proof -
  have i: "e_id e \<in> e_id ` set (ss_entries s')" using es by simp
  note b = walkToRoot_branch [OF wf' i]
  let ?q = "e # (case e_parentId e of None \<Rightarrow> [] | Some p \<Rightarrow> branch_of s p)"
  have hd: "hd (branch_of s' (e_id e)) = e"
    using wf_tree_id_inj [OF wf', of "hd (branch_of s' (e_id e))" e] b(2,3,5) es
    by (cases "branch_of s' (e_id e)") auto
  have q: "root_path ?q \<and> set ?q \<subseteq> set (ss_entries s')"
  proof (cases "e_parentId e")
    case None
    then show ?thesis using es by simp
  next
    case (Some p)
    obtain e' where e': "e' \<in> set (ss_entries s')" "e_id e' = p" "e_seq e' < e_seq e"
      using wf_tree_parent [OF wf' _ Some] es by auto
    then have p: "p \<in> e_id ` set (ss_entries s)" using es by auto
    note bp = walkToRoot_branch [OF wf p]
    then show ?thesis using Some es by (cases "branch_of s p") auto
  qed
  show ?thesis
  proof (rule root_path_unique)
    show "\<forall>a \<in> set (branch_of s' (e_id e)). \<forall>c \<in> set ?q. e_id a = e_id c \<longrightarrow> a = c"
      using q b(3) wf_tree_id_inj [OF wf'] by blast
  qed (use q b(2) hd in simp_all)
qed

lemma mem_appendEntry_ok:
  assumes wf: "wf_state (ms_state st)" and lane: "map_get (ss_lanes (ms_state st)) lane = Some leaf"
    and fresh: "p_id p \<notin> ss_usedIds (ms_state st)"
  shows "mem_appendEntry st p lane now =
    (let e = \<lparr>e_id = p_id p, e_seq = nextSequence (ms_state st), e_parentId = leaf,
           e_timestamp = now, e_payload = p_payload p\<rparr>;
         s = ms_state st
     in Inr (st\<lparr>ms_state := s\<lparr>ss_sequence := e_seq e, ss_usedIds := insert (p_id p) (ss_usedIds s),
          ss_entries := ss_entries s @ [e], ss_entriesById := map_set (ss_entriesById s) (p_id p) e,
          ss_lanes := map_set (ss_lanes s) lane (Some (p_id p)),
          ss_log := ss_log s @ [LogEntry (e_seq e) e],
          ss_stats := add_entry_stats (ss_stats s) e\<rparr>\<rparr>, e))"
proof -
  have "map_has (ss_entriesById (ms_state st)) t" if "leaf = Some t" for t
    using wf lane that by (simp add: wf_state_def wf_lanes_def entriesById_has)
  then show ?thesis
    using lane fresh
    by (auto simp: mem_appendEntry_def requireLane_def validateUnusedId_def Let_def mem_apply_def
        applyMutation_def nextSequence_def split: option.splits)
qed

section \<open>Properties\<close>

definition demo_metadata :: session_metadata where
  "demo_metadata = \<lparr>sm_id = ''s'', sm_createdAt = 0, sm_parentSessionId = None\<rparr>"

definition demo_payload :: entry_payload where
  "demo_payload = MessagePayload (UserMessage \<lparr>um_content = ContentString ''hi'', um_timestamp = 0\<rparr>) False"

definition demo_start :: record_body where
  "demo_start = OperationStarted None (CompactionIntent
     \<lparr>ci_customInstructions = None, ci_resultEntryId = ''c''\<rparr>)"

definition demo_writes :: "storage_write list" where
  "demo_writes = [AppendEntry \<lparr>p_id = ''a'', p_payload = demo_payload\<rparr> main_lane 7,
     AppendRecord \<lparr>nr_id = ''run'', nr_lane = main_lane, nr_body = demo_start\<rparr> 8]"

definition demo_storage :: memory_storage where
  "demo_storage = (case for_each mem_write (new_memory_storage demo_metadata) demo_writes of
     Inl _ \<Rightarrow> new_memory_storage demo_metadata | Inr st \<Rightarrow> st)"

lemmas mem_eval = mem_defs new_memory_storage_def requireLane_def validateUnusedId_def
  mem_apply_def applyMutation_def new_session_state_def main_lane_def Let_def nextSequence_def
  findOpenOperations_first map_set_def map_has_def track_open_operations_def
  add_entry_stats_def add_record_stats_def entry_type_of_def is_operation_start_def
  demo_start_def demo_payload_def validateTarget_def

lemma demo_storage_run:
  "for_each mem_write (new_memory_storage demo_metadata) demo_writes = Inr demo_storage"
  by (simp add: demo_storage_def demo_writes_def mem_eval)

lemma demo_storage_reachable: "memory_reachable demo_storage"
  using demo_storage_run unfolding memory_reachable_def by blast

lemma demo_storage_parts:
  "ss_lanes (ms_state demo_storage) = [(''main'', Some ''a'')]"
  "ss_usedIds (ms_state demo_storage) = {''run'', ''a''}"
  "ss_openOperationsByLane (ms_state demo_storage) =
     [(''main'', [(''run'', \<lparr>r_id = ''run'', r_seq = 2, r_lane = ''main'', r_timestamp = 8,
        os_sourceLeafId = None, os_intent = CompactionIntent
          \<lparr>ci_customInstructions = None, ci_resultEntryId = ''c''\<rparr>\<rparr>)])]"
  by (simp_all add: demo_storage_def demo_writes_def mem_eval operation_started_of_def)

text \<open>
  C16. Storage serialises the operations of a lane: whatever writes it accepted, a lane has at
  most one operation that is started and not finished.
\<close>

theorem one_open_operation_per_lane:
  assumes "memory_reachable st"
    and "findOpenOperations (ms_state st) lane lmt = Inr ops"
  shows "length ops \<le> 1"
  using mem.open_operations_at_most_one [of st "[]" st lane lmt ops]
    memory_reachable_single [OF assms(1)] assms(2) by simp

theorem one_open_operation_per_lane_witness:
  "memory_reachable demo_storage \<and> (\<exists>op. findOpenOperations (ms_state demo_storage) main_lane None = Inr [op] \<and>
     length [op] \<le> 1)"
proof -
  obtain op where op: "findOpenOperations (ms_state demo_storage) main_lane None = Inr [op]"
    by (simp add: findOpenOperations_def demo_storage_parts main_lane_def assertValidLimit_def
        map_values_def)
  show ?thesis
    using op one_open_operation_per_lane [OF demo_storage_reachable op] demo_storage_reachable
    by blast
qed

text \<open>
  \<open>appendEntry\<close> on every branch. An unknown lane and a used id are refused with the
  documented codes; otherwise it always succeeds: the entry is stored under its id with the
  lane's previous leaf as parent and the next sequence number, it becomes the leaf of the lane,
  no other lane and no other entry changes, and its branch is the lane's previous branch with the
  entry in front.
\<close>

lemma append_entry_outcome:
  assumes "memory_reachable st"
  shows "case map_get (ss_lanes (ms_state st)) lane of
      None \<Rightarrow> mem_appendEntry st p lane now = Inl InvalidLane
    | Some leaf \<Rightarrow>
        if p_id p \<in> ss_usedIds (ms_state st) then mem_appendEntry st p lane now = Inl AlreadyExists
        else (\<exists>st' e. mem_appendEntry st p lane now = Inr (st', e) \<and>
          e_id e = p_id p \<and> e_payload e = p_payload p \<and> e_parentId e = leaf \<and>
          e_seq e = nextSequence (ms_state st) \<and>
          (\<forall>l. map_get (ss_lanes (ms_state st')) l =
             (if l = lane then Some (Some (p_id p)) else map_get (ss_lanes (ms_state st)) l)) \<and>
          (\<forall>i. getEntry (ms_state st') i = (if i = p_id p then Some e else getEntry (ms_state st) i)) \<and>
          branch_of (ms_state st') (p_id p) =
             e # (case leaf of None \<Rightarrow> [] | Some i \<Rightarrow> branch_of (ms_state st) i))"
proof (cases "map_get (ss_lanes (ms_state st)) lane")
  case None
  then show ?thesis by (simp add: mem_appendEntry_def requireLane_def)
next
  case (Some leaf)
  have wf: "wf_state (ms_state st)" using memory_reachable_wf [OF assms] .
  show ?thesis
  proof (cases "p_id p \<in> ss_usedIds (ms_state st)")
    case True
    with Some show ?thesis by (simp add: mem_appendEntry_def requireLane_def validateUnusedId_def)
  next
    case False
    obtain st' e where st': "mem_appendEntry st p lane now = Inr (st', e)"
      "e = \<lparr>e_id = p_id p, e_seq = nextSequence (ms_state st), e_parentId = leaf,
           e_timestamp = now, e_payload = p_payload p\<rparr>"
      "ss_entries (ms_state st') = ss_entries (ms_state st) @ [e]"
      "ss_lanes (ms_state st') = map_set (ss_lanes (ms_state st)) lane (Some (p_id p))"
      "ss_entriesById (ms_state st') = map_set (ss_entriesById (ms_state st)) (p_id p) e"
      using mem_appendEntry_ok [OF wf Some False, of now] by (simp add: Let_def)
    then have "wf_state (ms_state st')"
      using mem.writes.run_keeps [of st "[AppendEntry p lane now]" st']
        memory_reachable_single [OF assms] by (simp add: single_operation_def)
    then have "branch_of (ms_state st') (e_id e) =
        e # (case e_parentId e of None \<Rightarrow> [] | Some i \<Rightarrow> branch_of (ms_state st) i)"
      using wf st'(3) by (intro branch_of_append) (simp_all add: wf_state_def)
    then show ?thesis using Some False st' by (simp add: getEntry_def)
  qed
qed

lemma append_entry_outcome_witness:
  "memory_reachable demo_storage \<and>
   (\<exists>st' e. mem_appendEntry demo_storage \<lparr>p_id = ''b'', p_payload = demo_payload\<rparr> ''main'' 9 =
      Inr (st', e) \<and> e_parentId e = Some ''a'' \<and>
      branch_of (ms_state st') ''b'' = e # branch_of (ms_state demo_storage) ''a'')"
  using append_entry_outcome [OF demo_storage_reachable, where lane = "''main''"
      and p = "\<lparr>p_id = ''b'', p_payload = demo_payload\<rparr>" and now = 9] demo_storage_reachable
  by (auto simp: demo_storage_parts)

text \<open>
  C17. History is append-only: no accepted sequence of writes removes, reorders or rewrites an
  entry, a record or a log item that was there before.
\<close>

theorem history_is_append_only:
  assumes "for_each mem_write st ws = Inr st'"
  shows "\<exists>es rs items. ss_entries (ms_state st') = ss_entries (ms_state st) @ es \<and>
    ss_records (ms_state st') = ss_records (ms_state st) @ rs \<and>
    ss_log (ms_state st') = ss_log (ms_state st) @ items"
  by (rule mem.writes_append_only [OF assms])

theorem history_is_append_only_witness:
  "\<exists>es rs items. ss_entries (ms_state demo_storage) =
      ss_entries (ms_state (new_memory_storage demo_metadata)) @ es \<and>
    ss_records (ms_state demo_storage) = ss_records (ms_state (new_memory_storage demo_metadata)) @ rs \<and>
    ss_log (ms_state demo_storage) = ss_log (ms_state (new_memory_storage demo_metadata)) @ items"
  by (rule history_is_append_only [OF demo_storage_run])

text \<open>
  \<open>fork\<close> of the repository: an unknown source and a taken id are refused; a tree fork of a
  stored session otherwise always succeeds. It adds one session under the new id, with the source
  as parent unless another one is given, whose state is well formed and has the entries, lanes,
  name and labels of the source; every other session stays as it was.
\<close>

lemma repo_tree_fork:
  assumes "\<forall>i storage. map_get sessions i = Some storage \<longrightarrow> session_reachable (ms_state storage)"
  shows "case map_get sessions (sm_id source) of
      None \<Rightarrow> repo_fork sessions source opts ForkTree uuid now = Inl NotFound
    | Some storage \<Rightarrow>
        let i = (case co_id opts of Some i \<Rightarrow> i | None \<Rightarrow> uuid)
        in if map_has sessions i
           then repo_fork sessions source opts ForkTree uuid now = Inl AlreadyExists
           else \<exists>sessions' copy. repo_fork sessions source opts ForkTree uuid now = Inr (sessions', i) \<and>
             map_get sessions' i = Some copy \<and>
             (\<forall>j. j \<noteq> i \<longrightarrow> map_get sessions' j = map_get sessions j) \<and>
             session_reachable (ms_state copy) \<and>
             sm_parentSessionId (ms_metadata copy) = Some (case co_parentSessionId opts of
               Some p \<Rightarrow> p | None \<Rightarrow> sm_id source) \<and>
             map unsequenced (ss_entries (ms_state copy)) =
               map unsequenced (ss_entries (ms_state storage)) \<and>
             (\<forall>lane. map_get (ss_lanes (ms_state copy)) lane = map_get (ss_lanes (ms_state storage)) lane)"
proof (cases "map_get sessions (sm_id source)")
  case None
  then show ?thesis by (simp add: repo_fork_def requireStorage_def)
next
  case (Some storage)
  have reach: "session_reachable (ms_state storage)" using assms Some by blast
  obtain ms t where t: "createForkMutations (ms_state storage) ForkTree = Inr ms"
    "for_each applyMutation new_session_state ms = Inr t"
    "map unsequenced (ss_entries t) = map unsequenced (ss_entries (ms_state storage))"
    "\<forall>lane. map_get (ss_lanes t) lane = map_get (ss_lanes (ms_state storage)) lane"
    using tree_fork_replays [OF session_reachable_wf [OF reach]] by blast
  have "session_reachable t" using t(2) unfolding session_reachable_def by blast
  then show ?thesis
    using Some t
    by (auto simp: repo_fork_def requireStorage_def mem_fork_def new_memory_storage_def Let_def)
qed

lemma repo_tree_fork_witness:
  "\<exists>sessions' copy. repo_fork [(''s'', demo_storage)] demo_metadata
      \<lparr>co_id = Some ''t'', co_parentSessionId = None\<rparr> ForkTree ''u'' 9 = Inr (sessions', ''t'') \<and>
    map_get sessions' ''t'' = Some copy \<and>
    map unsequenced (ss_entries (ms_state copy)) = map unsequenced (ss_entries (ms_state demo_storage))"
proof -
  let ?opts = "\<lparr>co_id = Some ''t'', co_parentSessionId = None\<rparr>"
  have "\<forall>i storage. map_get [(''s'', demo_storage)] i = Some storage \<longrightarrow>
      session_reachable (ms_state storage)"
    using memory_reachable_session [OF demo_storage_reachable] by simp
  from repo_tree_fork [OF this, where source = demo_metadata and opts = ?opts and uuid = "''u''"
      and now = 9]
  show ?thesis by (auto simp: demo_metadata_def map_has_def Let_def)
qed

end
