(* ===== verification/Lane_Reducer.thy ===== *)
theory Lane_Reducer
  imports Session_Memory
begin

text \<open>
  Recovery of a lane (\<^verbatim>\<open>packages/agent/src/harness/reducer.ts\<close>): \<open>validateRecordLog\<close> rejects
  record logs that the single-writer protocol cannot produce, \<open>reduceLaneState\<close> rebuilds the
  orchestration state of the lane from the log. Each validation function of the source is a
  definition returning \<open>Inl\<close> of the corruption reason; the maps and the set of the validation
  loop are the fields of the record \<open>validation\<close>. \<open>Guard.IsDeepEqual\<close> of the package
  \<^verbatim>\<open>typebox\<close> is the parameter \<open>deq\<close>. \<open>structuredClone\<close> is the identity on values.
\<close>

section \<open>Data\<close>

datatype corruption_reason = MultipleOpenOperations | UnknownOperation | RecordAfterFinish
  | NonConsecutiveAttempt | InvalidCompactionReason | QueueAfterAbort | InvalidQueueCancellation
  | InconsistentStep | ToolCallMismatch | DuplicateToolInvocation | ProvisionedEntryMismatch
  | InvalidDeferredHandle

type_synonym checked = "corruption_reason + unit"
type_synonym deep_equal = "provisioned_entry \<Rightarrow> provisioned_entry \<Rightarrow> bool"
type_synonym entry_map = "(ident, entry) js_map"

record record_log_slice =
  sl_lane :: lane_name
  sl_openOperations :: "operation_started_record list"
  sl_records :: "lane_record list"
  sl_entries :: "entry list"

record lane_configuration =
  lc_model :: "string \<times> string" \<comment> \<open>provider, modelId\<close>
  lc_thinkingLevel :: string
  lc_activeToolNames :: "string list"

datatype failure_source = FromStep | FromDeferredFetch

record terminal_failure =
  tf_entryId :: ident
  tf_source :: failure_source
  tf_message :: assistant_message

record tool_started_record = record_base +
  tsr_start :: tool_start

record tool_call_state =
  tcs_toolIndex :: nat
  tcs_toolCall :: tool_call
  tcs_started :: "tool_started_record option"
  tcs_resultExists :: bool
  tcs_terminate :: bool

record tool_batch_state =
  tb_assistantEntryId :: ident
  tb_calls :: "tool_call_state list"
  tb_truncated :: bool
  tb_unresolved :: bool

record step_state =
  step_kind_of :: step_kind
  step_attempts :: nat
  step_resultEntryId :: ident
  step_compactionReason :: "compaction_reason option"

record newest_own =
  no_entryId :: ident
  no_type :: entry_type
  no_role :: "message_role option"
  no_stopReason :: "stop_reason option"

record operation_targets =
  ot_result :: "bool option"
  ot_summary :: "bool option"

record operation_state =
  op_id :: ident
  op_kind :: operation_kind
  op_intent :: operation_intent
  op_aborting :: bool
  op_step :: "step_state option"
  op_toolBatch :: "tool_batch_state option"
  op_missingInitialMessages :: "provisioned_entry list"
  op_pendingSteer :: "provisioned_entry list"
  op_pendingFollowUp :: "provisioned_entry list"
  op_pendingWrites :: "provisioned_entry list"
  op_deferred :: "deferred_handle option"
  op_overflowRecoveryUsed :: bool
  op_newestOwn :: "newest_own option"
  op_targets :: operation_targets

record lane_state =
  ls_lane :: lane_name
  ls_leafId :: "ident option"
  ls_operation :: "operation_state option"
  ls_pendingNextRun :: "provisioned_entry list"

record lane_reduction_input = record_log_slice +
  li_leafId :: "ident option"
  li_ownEntries :: "entry list"
  li_configurationEntries :: "entry list"
  li_defaults :: lane_configuration

record lane_reduction_result =
  lr_laneState :: lane_state
  lr_effectiveConfiguration :: lane_configuration
  lr_terminalFailure :: "terminal_failure option"

section \<open>Validation\<close>

definition matchesProvisionedEntry :: "deep_equal \<Rightarrow> entry \<Rightarrow> provisioned_entry \<Rightarrow> bool" where
  "matchesProvisionedEntry deq e target = deq \<lparr>p_id = e_id e, p_payload = e_payload e\<rparr> target"

definition validateExactProvisionedEntry ::
    "deep_equal \<Rightarrow> entry_map \<Rightarrow> provisioned_entry \<Rightarrow> checked" where
  "validateExactProvisionedEntry deq entriesById target =
     (case map_get entriesById (p_id target) of
        None \<Rightarrow> Inr ()
      | Some e \<Rightarrow> if \<not> matchesProvisionedEntry deq e target then Inl ProvisionedEntryMismatch else Inr ())"

definition validateResultEntry :: "entry_map \<Rightarrow> ident \<Rightarrow> (entry \<Rightarrow> bool) \<Rightarrow> checked" where
  "validateResultEntry entriesById resultEntryId matches =
     (case map_get entriesById resultEntryId of
        None \<Rightarrow> Inr ()
      | Some e \<Rightarrow> if \<not> matches e then Inl ProvisionedEntryMismatch else Inr ())"

definition validateAttemptReason :: "step_attempt \<Rightarrow> checked" where
  "validateAttemptReason a =
     (if sa_step a = StepCompaction
      then (if sa_compactionReason a = None then Inl InvalidCompactionReason else Inr ())
      else (if sa_compactionReason a \<noteq> None then Inl InvalidCompactionReason else Inr ()))"

text \<open>An attempt with the sequence number of its record.\<close>

definition continues_series ::
    "entry_map \<Rightarrow> step_attempt option \<Rightarrow> nat \<Rightarrow> step_attempt \<Rightarrow> bool" where
  "continues_series entriesById previous seq a =
     (case previous of
        None \<Rightarrow> False
      | Some p \<Rightarrow> sa_step p = sa_step a \<and>
          (case map_get entriesById (sa_resultEntryId p) of
             None \<Rightarrow> True | Some e \<Rightarrow> seq \<le> e_seq e))"

definition validateAttemptSequence ::
    "nat \<Rightarrow> step_attempt \<Rightarrow> step_attempt option \<Rightarrow> entry_map \<Rightarrow> checked" where
  "validateAttemptSequence seq a previous entriesById =
     (let continuesSeries = continues_series entriesById previous seq a;
          expectedAttempt = (case previous of
            Some p \<Rightarrow> if continuesSeries then sa_attempt p + 1 else 1 | None \<Rightarrow> 1)
      in if sa_attempt a \<noteq> expectedAttempt then Inl NonConsecutiveAttempt
         else if \<not> continuesSeries \<or> sa_step a = StepAssistant then Inr ()
         else (case previous of
            None \<Rightarrow> Inr ()
          | Some p \<Rightarrow>
              if sa_resultEntryId a \<noteq> sa_resultEntryId p then Inl InconsistentStep
              else if sa_compactionReason a \<noteq> sa_compactionReason p then Inl InconsistentStep
              else Inr ()))"

definition is_assistant_entry :: "entry \<Rightarrow> bool" where
  "is_assistant_entry e \<longleftrightarrow> (case e_payload e of MessagePayload (AssistantMessage _) _ \<Rightarrow> True | _ \<Rightarrow> False)"

definition validateAttemptResult :: "entry_map \<Rightarrow> step_attempt \<Rightarrow> checked" where
  "validateAttemptResult entriesById a =
     validateResultEntry entriesById (sa_resultEntryId a)
       (case sa_step a of
          StepAssistant \<Rightarrow> is_assistant_entry
        | StepCompaction \<Rightarrow> (\<lambda>e. entry_type_of e = TCompaction)
        | StepBranchSummary \<Rightarrow> (\<lambda>e. entry_type_of e = TBranchSummary))"

definition tool_invocation :: "tool_start \<Rightarrow> string" where
  "tool_invocation t = ts_assistantEntryId t @ [char_of (0::nat)] @ decimal (ts_toolIndex t)"

definition is_result_of :: "tool_start \<Rightarrow> entry \<Rightarrow> bool" where
  "is_result_of t e \<longleftrightarrow>
     (case e_payload e of
        MessagePayload (ToolResultMessage r) _ \<Rightarrow>
          tr_toolCallId r = ts_toolCallId t \<and> tr_toolName r = ts_toolName t
      | _ \<Rightarrow> False)"

definition validateToolStart ::
    "tool_start \<Rightarrow> entry_map \<Rightarrow> string set \<Rightarrow> corruption_reason + string set" where
  "validateToolStart t entriesById invocations =
     (if tool_invocation t \<in> invocations then Inl DuplicateToolInvocation
      else
        (case map_get entriesById (ts_assistantEntryId t) of
           None \<Rightarrow> Inl ToolCallMismatch
         | Some assistantEntry \<Rightarrow>
             (case e_payload assistantEntry of
                MessagePayload (AssistantMessage m) _ \<Rightarrow>
                  (let toolCalls = tool_calls_of (am_content m)
                   in if \<not> ts_toolIndex t < length toolCalls then Inl ToolCallMismatch
                      else let toolCall = toolCalls ! ts_toolIndex t
                      in if tc_id toolCall \<noteq> ts_toolCallId t \<or> tc_name toolCall \<noteq> ts_toolName t
                         then Inl ToolCallMismatch
                         else (case validateResultEntry entriesById (ts_resultEntryId t) (is_result_of t) of
                            Inl c \<Rightarrow> Inl c
                          | Inr _ \<Rightarrow> Inr (insert (tool_invocation t) invocations)))
              | _ \<Rightarrow> Inl ToolCallMismatch)))"

definition unhandled_deferral :: "entry \<Rightarrow> bool" where
  "unhandled_deferral e \<longleftrightarrow>
     (case e_payload e of
        MessagePayload (AssistantMessage m) _ \<Rightarrow> am_stopReason m = StopDeferred \<and> am_deferred m = None
      | _ \<Rightarrow> False)"

definition validateDeferredHandles :: "entry list \<Rightarrow> checked" where
  "validateDeferredHandles es =
     for_each (\<lambda>_ e. if unhandled_deferral e then Inl InvalidDeferredHandle else Inr ()) () es"

text \<open>\<open>summaryEntryId\<close> is tested for truthiness: an empty string counts as absent.\<close>

definition truthy_id :: "ident option \<Rightarrow> ident option" where
  "truthy_id i = (if i = Some [] then None else i)"

definition validateOperationResult ::
    "deep_equal \<Rightarrow> entry_map \<Rightarrow> operation_intent \<Rightarrow> checked" where
  "validateOperationResult deq entriesById intent =
     (case intent of
        RunIntent i \<Rightarrow>
          for_each (\<lambda>_ target. validateExactProvisionedEntry deq entriesById target) ()
            (ri_initialMessages i)
      | CompactionIntent i \<Rightarrow>
          validateResultEntry entriesById (ci_resultEntryId i) (\<lambda>e. entry_type_of e = TCompaction)
      | NavigationIntent i \<Rightarrow>
          (case truthy_id (ni_summaryEntryId i) of
             None \<Rightarrow> Inr ()
           | Some summaryEntryId \<Rightarrow>
               validateResultEntry entriesById summaryEntryId (\<lambda>e. entry_type_of e = TBranchSummary)))"

record validation =
  v_starts :: "ident set"
  v_finishedAt :: "(ident, nat) js_map"
  v_abortedAt :: "(ident, nat) js_map"
  v_queueEnqueues :: "(ident, lane_record) js_map"
  v_latestAttempt :: "(ident, step_attempt) js_map"
  v_toolInvocations :: "string set"

definition new_validation :: validation where
  "new_validation = \<lparr>v_starts = {}, v_finishedAt = [], v_abortedAt = [], v_queueEnqueues = [],
     v_latestAttempt = [], v_toolInvocations = {}\<rparr>"

definition validate_run :: "validation \<Rightarrow> lane_record \<Rightarrow> checked" where
  "validate_run v r =
     (case body_runId (r_body r) of
        None \<Rightarrow> Inr ()
      | Some runId \<Rightarrow>
          if runId \<notin> v_starts v then Inl UnknownOperation
          else (case map_get (v_finishedAt v) runId of
                  None \<Rightarrow> Inr ()
                | Some finishSeq \<Rightarrow> if finishSeq < r_seq r then Inl RecordAfterFinish else Inr ()))"

definition queue_run :: "lane_record \<Rightarrow> ident option" where
  "queue_run r = body_runId (r_body r)"

fun validate_body ::
    "deep_equal \<Rightarrow> entry_map \<Rightarrow> validation \<Rightarrow> lane_record \<Rightarrow> record_body \<Rightarrow> corruption_reason + validation" where
  "validate_body deq entriesById v r (OperationStarted _ intent) =
     (case validateOperationResult deq entriesById intent of
        Inl c \<Rightarrow> Inl c | Inr _ \<Rightarrow> Inr (v\<lparr>v_starts := insert (r_id r) (v_starts v)\<rparr>))"
| "validate_body deq entriesById v r (OperationFinished runId _ _) =
     Inr (v\<lparr>v_finishedAt := map_set (v_finishedAt v) runId (r_seq r)\<rparr>)"
| "validate_body deq entriesById v r (AbortRequested runId) =
     Inr (v\<lparr>v_abortedAt := map_set (v_abortedAt v) runId (r_seq r)\<rparr>)"
| "validate_body deq entriesById v r (StepAttempt a) =
     (case validateAttemptReason a of
        Inl c \<Rightarrow> Inl c
      | Inr _ \<Rightarrow>
          (case validateAttemptSequence (r_seq r) a (map_get (v_latestAttempt v) (sa_runId a)) entriesById of
             Inl c \<Rightarrow> Inl c
           | Inr _ \<Rightarrow>
               (case validateAttemptResult entriesById a of
                  Inl c \<Rightarrow> Inl c
                | Inr _ \<Rightarrow> Inr (v\<lparr>v_latestAttempt := map_set (v_latestAttempt v) (sa_runId a) a\<rparr>))))"
| "validate_body deq entriesById v r (ToolStarted t) =
     (case validateToolStart t entriesById (v_toolInvocations v) of
        Inl c \<Rightarrow> Inl c | Inr invocations \<Rightarrow> Inr (v\<lparr>v_toolInvocations := invocations\<rparr>))"
| "validate_body deq entriesById v r (QueueEnqueued queue runId target) =
     (if queue \<noteq> QNextRun \<and>
         (case Option.bind runId (map_get (v_abortedAt v)) of None \<Rightarrow> False | Some abortSeq \<Rightarrow> abortSeq < r_seq r)
      then Inl QueueAfterAbort
      else (case validateExactProvisionedEntry deq entriesById target of
              Inl c \<Rightarrow> Inl c
            | Inr _ \<Rightarrow> Inr (v\<lparr>v_queueEnqueues := map_set (v_queueEnqueues v) (p_id target) r\<rparr>)))"
| "validate_body deq entriesById v r (QueueCancelled runId entryId) =
     (case map_get (v_queueEnqueues v) entryId of
        None \<Rightarrow> Inl InvalidQueueCancellation
      | Some enqueue \<Rightarrow>
          if r_seq r \<le> r_seq enqueue \<or> queue_run enqueue \<noteq> runId \<or> map_has entriesById entryId
          then Inl InvalidQueueCancellation else Inr v)"
| "validate_body deq entriesById v r (WriteDeferred _ target) =
     (case validateExactProvisionedEntry deq entriesById target of Inl c \<Rightarrow> Inl c | Inr _ \<Rightarrow> Inr v)"
| "validate_body deq entriesById v r (UsageRecord _ _) = Inr v"

definition validate_record ::
    "deep_equal \<Rightarrow> entry_map \<Rightarrow> validation \<Rightarrow> lane_record \<Rightarrow> corruption_reason + validation" where
  "validate_record deq entriesById v r =
     (case validate_run v r of Inl c \<Rightarrow> Inl c | Inr _ \<Rightarrow> validate_body deq entriesById v r (r_body r))"

definition validateRecordLog :: "deep_equal \<Rightarrow> 'z record_log_slice_scheme \<Rightarrow> checked" where
  "validateRecordLog deq input =
     (if 1 < length (sl_openOperations input) then Inl MultipleOpenOperations
      else
        (let entriesById = map_entries_of e_id (sl_entries input)
         in case validateDeferredHandles (map_values entriesById) of
              Inl c \<Rightarrow> Inl c
            | Inr _ \<Rightarrow>
                (case for_each (validate_record deq entriesById) new_validation
                        (sort_by r_seq (sl_records input)) of
                   Inl c \<Rightarrow> Inl c | Inr _ \<Rightarrow> Inr ())))"

section \<open>Reduction\<close>

definition apply_configuration :: "lane_configuration \<Rightarrow> entry \<Rightarrow> lane_configuration" where
  "apply_configuration c e =
     (case e_payload e of
        ModelChangePayload provider modelId \<Rightarrow> c\<lparr>lc_model := (provider, modelId)\<rparr>
      | ThinkingLevelPayload level \<Rightarrow> c\<lparr>lc_thinkingLevel := level\<rparr>
      | ActiveToolsPayload names \<Rightarrow> c\<lparr>lc_activeToolNames := names\<rparr>
      | MessagePayload (AssistantMessage m) _ \<Rightarrow> c\<lparr>lc_model := (am_provider m, am_model m)\<rparr>
      | _ \<Rightarrow> c)"

definition deriveEffectiveConfiguration :: "lane_reduction_input \<Rightarrow> lane_configuration" where
  "deriveEffectiveConfiguration input =
     (let entriesById = map_entries_of e_id (li_configurationEntries input @ li_ownEntries input)
      in fold (\<lambda>e c. apply_configuration c e) (sort_by e_seq (map_values entriesById)) (li_defaults input))"

definition deriveNewestOwn :: "entry option \<Rightarrow> newest_own option" where
  "deriveNewestOwn entry =
     (case entry of
        None \<Rightarrow> None
      | Some e \<Rightarrow>
          Some (case e_payload e of
             MessagePayload (AssistantMessage m) _ \<Rightarrow>
               \<lparr>no_entryId = e_id e, no_type = TMessage, no_role = Some RoleAssistant,
                no_stopReason = Some (am_stopReason m)\<rparr>
           | MessagePayload m _ \<Rightarrow>
               \<lparr>no_entryId = e_id e, no_type = TMessage, no_role = Some (role_of m), no_stopReason = None\<rparr>
           | _ \<Rightarrow> \<lparr>no_entryId = e_id e, no_type = entry_type_of e, no_role = None, no_stopReason = None\<rparr>))"

definition assistant_of :: "entry \<Rightarrow> assistant_message option" where
  "assistant_of e = (case e_payload e of MessagePayload (AssistantMessage m) _ \<Rightarrow> Some m | _ \<Rightarrow> None)"

definition calls_tools :: "entry \<Rightarrow> bool" where
  "calls_tools e \<longleftrightarrow>
     (case assistant_of e of None \<Rightarrow> False | Some m \<Rightarrow> tool_calls_of (am_content m) \<noteq> [])"

definition note_tool_start ::
    "ident \<Rightarrow> ident \<Rightarrow> lane_record \<Rightarrow> (nat, tool_started_record) js_map \<Rightarrow>
     (nat, tool_started_record) js_map" where
  "note_tool_start operationId assistantId r m =
     (case r_body r of
        ToolStarted t \<Rightarrow>
          if ts_runId t = operationId \<and> ts_assistantEntryId t = assistantId
          then map_set m (ts_toolIndex t)
            \<lparr>r_id = r_id r, r_seq = r_seq r, r_lane = r_lane r, r_timestamp = r_timestamp r,
             tsr_start = t\<rparr>
          else m
      | _ \<Rightarrow> m)"

definition tool_starts ::
    "ident \<Rightarrow> ident \<Rightarrow> lane_record list \<Rightarrow> (nat, tool_started_record) js_map" where
  "tool_starts operationId assistantId records =
     fold (note_tool_start operationId assistantId) records []"

definition blocks_call :: "entry \<Rightarrow> ident set \<Rightarrow> tool_call \<Rightarrow> entry \<Rightarrow> bool" where
  "blocks_call assistantEntry deferredWriteIds toolCall e \<longleftrightarrow>
     e_seq assistantEntry < e_seq e \<and> e_id e \<notin> deferredWriteIds \<and>
     (case e_payload e of
        MessagePayload (ToolResultMessage r) _ \<Rightarrow> tr_toolCallId r = tc_id toolCall | _ \<Rightarrow> False)"

definition terminates :: "entry option \<Rightarrow> bool" where
  "terminates result =
     (case result of
        Some e \<Rightarrow> (case e_payload e of MessagePayload _ terminate \<Rightarrow> terminate | _ \<Rightarrow> False)
      | None \<Rightarrow> False)"

definition call_state ::
    "entry \<Rightarrow> (nat, tool_started_record) js_map \<Rightarrow> entry list \<Rightarrow> entry_map \<Rightarrow> ident set \<Rightarrow>
     nat \<times> tool_call \<Rightarrow> tool_call_state" where
  "call_state assistantEntry starts ownEntries entriesById deferredWriteIds indexed =
     (case indexed of (toolIndex, toolCall) \<Rightarrow>
        (let started = map_get starts toolIndex;
             startedResult = (case started of None \<Rightarrow> None
               | Some s \<Rightarrow> map_get entriesById (ts_resultEntryId (tsr_start s)));
             blockedResult = find (blocks_call assistantEntry deferredWriteIds toolCall) ownEntries;
             result = (case startedResult of Some e \<Rightarrow> Some e | None \<Rightarrow> blockedResult)
         in \<lparr>tcs_toolIndex = toolIndex, tcs_toolCall = toolCall, tcs_started = started,
             tcs_resultExists = (result \<noteq> None), tcs_terminate = terminates result\<rparr>))"

definition deriveToolBatch ::
    "ident \<Rightarrow> lane_record list \<Rightarrow> entry list \<Rightarrow> entry_map \<Rightarrow> ident set \<Rightarrow> tool_batch_state option" where
  "deriveToolBatch operationId records ownEntries entriesById deferredWriteIds =
     (case find calls_tools (rev ownEntries) of
        None \<Rightarrow> None
      | Some assistantEntry \<Rightarrow>
          (case assistant_of assistantEntry of
             None \<Rightarrow> None
           | Some m \<Rightarrow>
               (let starts = tool_starts operationId (e_id assistantEntry) records;
                    calls = map (call_state assistantEntry starts ownEntries entriesById deferredWriteIds)
                      (enumerate 0 (tool_calls_of (am_content m)))
                in Some \<lparr>tb_assistantEntryId = e_id assistantEntry, tb_calls = calls,
                     tb_truncated = (am_stopReason m = StopLength),
                     tb_unresolved = list_ex (\<lambda>c. \<not> tcs_resultExists c) calls\<rparr>)))"

definition cancelled_queue_ids :: "lane_record list \<Rightarrow> ident set" where
  "cancelled_queue_ids records =
     set (concat (map (\<lambda>r. case r_body r of QueueCancelled _ entryId \<Rightarrow> [entryId] | _ \<Rightarrow> []) records))"

text \<open>The pending enqueues, in log order: queue, run and target.\<close>

definition pending_queue_records ::
    "entry_map \<Rightarrow> lane_record list \<Rightarrow> (queue_name \<times> ident option \<times> provisioned_entry) list" where
  "pending_queue_records entriesById records =
     concat (map (\<lambda>r. case r_body r of
        QueueEnqueued queue runId target \<Rightarrow>
          if \<not> map_has entriesById (p_id target) \<and> p_id target \<notin> cancelled_queue_ids records
          then [(queue, runId, target)] else []
      | _ \<Rightarrow> []) records)"

definition queue_targets ::
    "queue_name \<Rightarrow> ident \<Rightarrow> (queue_name \<times> ident option \<times> provisioned_entry) list \<Rightarrow> provisioned_entry list" where
  "queue_targets queue runId pending =
     map (snd \<circ> snd) (filter (\<lambda>(q, run, _). q = queue \<and> run = Some runId) pending)"

definition initial_messages :: "operation_intent \<Rightarrow> provisioned_entry list" where
  "initial_messages intent = (case intent of RunIntent i \<Rightarrow> ri_initialMessages i | _ \<Rightarrow> [])"

definition in_operation :: "ident \<Rightarrow> lane_record \<Rightarrow> bool" where
  "in_operation operationId r \<longleftrightarrow>
     (case r_body r of OperationStarted _ _ \<Rightarrow> r_id r = operationId | b \<Rightarrow> body_runId b = Some operationId)"

fun step_attempts_of :: "lane_record list \<Rightarrow> (nat \<times> step_attempt) list" where
  "step_attempts_of [] = []"
| "step_attempts_of (r # rs) =
     (case r_body r of StepAttempt a \<Rightarrow> (r_seq r, a) # step_attempts_of rs | _ \<Rightarrow> step_attempts_of rs)"

definition deferred_writes :: "lane_record list \<Rightarrow> provisioned_entry list" where
  "deferred_writes records =
     concat (map (\<lambda>r. case r_body r of WriteDeferred _ target \<Rightarrow> [target] | _ \<Rightarrow> []) records)"

definition derive_step :: "entry_map \<Rightarrow> lane_record list \<Rightarrow> step_state option" where
  "derive_step entriesById operationRecords =
     (case at_last (step_attempts_of operationRecords) of
        None \<Rightarrow> None
      | Some (_, a) \<Rightarrow>
          if map_has entriesById (sa_resultEntryId a) then None
          else Some \<lparr>step_kind_of = sa_step a, step_attempts = sa_attempt a,
                 step_resultEntryId = sa_resultEntryId a,
                 step_compactionReason = (if sa_step a = StepCompaction then sa_compactionReason a else None)\<rparr>)"

definition consumed_input_ids :: "operation_intent \<Rightarrow> lane_record list \<Rightarrow> ident list" where
  "consumed_input_ids intent operationRecords =
     map p_id (initial_messages intent) @
     concat (map (\<lambda>r. case r_body r of
        QueueEnqueued queue _ target \<Rightarrow> if queue \<noteq> QNextRun then [p_id target] else [] | _ \<Rightarrow> [])
        operationRecords)"

text \<open>
  The newest sequence number of a consumed input; \<open>None\<close> stands for
  \<^verbatim>\<open>Number.NEGATIVE_INFINITY\<close>.
\<close>

definition newest_consumed :: "entry_map \<Rightarrow> ident list \<Rightarrow> nat option" where
  "newest_consumed entriesById ids =
     fold (\<lambda>i newest.
        case map_get entriesById i of
          None \<Rightarrow> newest
        | Some e \<Rightarrow>
            if entry_type_of e = TMessage
            then (case newest of None \<Rightarrow> Some (e_seq e) | Some n \<Rightarrow> Some (max n (e_seq e)))
            else newest) ids None"

definition overflow_recovery_used :: "nat option \<Rightarrow> lane_record list \<Rightarrow> bool" where
  "overflow_recovery_used newest operationRecords \<longleftrightarrow>
     list_ex (\<lambda>(seq, a). sa_step a = StepCompaction \<and> sa_compactionReason a = Some ReasonOverflow \<and>
        (case newest of None \<Rightarrow> True | Some n \<Rightarrow> n < seq)) (step_attempts_of operationRecords)"

definition derive_deferred :: "entry option \<Rightarrow> deferred_handle option" where
  "derive_deferred newestOwnEntry =
     (case Option.bind newestOwnEntry assistant_of of
        None \<Rightarrow> None
      | Some m \<Rightarrow> if am_stopReason m = StopDeferred then am_deferred m else None)"

definition derive_targets :: "entry_map \<Rightarrow> operation_intent \<Rightarrow> operation_targets" where
  "derive_targets entriesById intent =
     (case intent of
        CompactionIntent i \<Rightarrow>
          \<lparr>ot_result = Some (map_has entriesById (ci_resultEntryId i)), ot_summary = None\<rparr>
      | NavigationIntent i \<Rightarrow>
          \<lparr>ot_result = None,
           ot_summary = map_option (map_has entriesById) (truthy_id (ni_summaryEntryId i))\<rparr>
      | RunIntent _ \<Rightarrow> \<lparr>ot_result = None, ot_summary = None\<rparr>)"

definition fetched_deferred :: "ident \<Rightarrow> lane_record \<Rightarrow> bool" where
  "fetched_deferred i r \<longleftrightarrow>
     (case r_body r of
        UsageRecord _ (GenerationUsage CauseDeferredFetch _ entryId _ _) \<Rightarrow> entryId = i | _ \<Rightarrow> False)"

definition derive_failure ::
    "lane_record list \<Rightarrow> entry list \<Rightarrow> ident set \<Rightarrow> terminal_failure option" where
  "derive_failure operationRecords ownEntries deferredWriteIds =
     (case at_last ownEntries of
        None \<Rightarrow> None
      | Some newest \<Rightarrow>
          (case assistant_of newest of
             None \<Rightarrow> None
           | Some m \<Rightarrow>
               if am_stopReason m = StopError \<and> e_id newest \<notin> deferredWriteIds
               then
                 (let producedByStep =
                        list_ex (\<lambda>(_, a). sa_resultEntryId a = e_id newest) (step_attempts_of operationRecords);
                      producedByDeferredFetch =
                        (list_ex (fetched_deferred (e_id newest)) operationRecords \<or>
                         (case Option.bind (at_before_last ownEntries) assistant_of of
                            None \<Rightarrow> False | Some p \<Rightarrow> am_stopReason p = StopDeferred))
                  in if producedByStep \<or> producedByDeferredFetch
                     then Some \<lparr>tf_entryId = e_id newest,
                        tf_source = (if producedByStep then FromStep else FromDeferredFetch),
                        tf_message = m\<rparr>
                     else None)
               else None))"

definition reduce_operation ::
    "operation_started_record \<Rightarrow> lane_record list \<Rightarrow> entry list \<Rightarrow> entry_map \<Rightarrow>
     (queue_name \<times> ident option \<times> provisioned_entry) list \<Rightarrow> operation_state" where
  "reduce_operation started operationRecords ownEntries entriesById pending =
     (let intent = os_intent started;
          aborting = list_ex (\<lambda>r. body_type (r_body r) = RAbortRequested) operationRecords;
          deferredWriteIds = p_id ` set (deferred_writes operationRecords)
      in \<lparr>op_id = r_id started, op_kind = intent_kind intent, op_intent = intent,
          op_aborting = aborting,
          op_step = derive_step entriesById operationRecords,
          op_toolBatch = deriveToolBatch (r_id started) operationRecords ownEntries entriesById deferredWriteIds,
          op_missingInitialMessages =
            filter (\<lambda>target. \<not> map_has entriesById (p_id target)) (initial_messages intent),
          op_pendingSteer = (if aborting then [] else queue_targets QSteer (r_id started) pending),
          op_pendingFollowUp = (if aborting then [] else queue_targets QFollowUp (r_id started) pending),
          op_pendingWrites =
            filter (\<lambda>target. \<not> map_has entriesById (p_id target)) (deferred_writes operationRecords),
          op_deferred = derive_deferred (at_last ownEntries),
          op_overflowRecoveryUsed = overflow_recovery_used
            (newest_consumed entriesById (consumed_input_ids intent operationRecords)) operationRecords,
          op_newestOwn = deriveNewestOwn (at_last ownEntries),
          op_targets = derive_targets entriesById intent\<rparr>)"

definition pending_next_run ::
    "operation_started_record option \<Rightarrow> (queue_name \<times> ident option \<times> provisioned_entry) list \<Rightarrow>
     provisioned_entry list" where
  "pending_next_run started pending =
     (let captured = (case started of None \<Rightarrow> {} | Some s \<Rightarrow> p_id ` set (initial_messages (os_intent s)))
      in map (snd \<circ> snd) (filter (\<lambda>(q, _, target). q = QNextRun \<and> p_id target \<notin> captured) pending))"

definition reduceLaneState ::
    "deep_equal \<Rightarrow> lane_reduction_input \<Rightarrow> corruption_reason + lane_reduction_result" where
  "reduceLaneState deq input =
     (case validateRecordLog deq input of
        Inl c \<Rightarrow> Inl c
      | Inr _ \<Rightarrow>
          (let records = sort_by r_seq (sl_records input);
               ownEntries = sort_by e_seq (li_ownEntries input);
               entriesById = map_entries_of e_id (sl_entries input @ ownEntries);
               pending = pending_queue_records entriesById records;
               started = (case sl_openOperations input of [] \<Rightarrow> None | s # _ \<Rightarrow> Some s);
               pendingNextRun = pending_next_run started pending;
               effectiveConfiguration = deriveEffectiveConfiguration input
           in Inr (case started of
                None \<Rightarrow>
                  \<lparr>lr_laneState = \<lparr>ls_lane = sl_lane input, ls_leafId = li_leafId input,
                     ls_operation = None, ls_pendingNextRun = pendingNextRun\<rparr>,
                   lr_effectiveConfiguration = effectiveConfiguration,
                   lr_terminalFailure = None\<rparr>
              | Some s \<Rightarrow>
                  (let operationRecords = filter (in_operation (r_id s)) records
                   in \<lparr>lr_laneState = \<lparr>ls_lane = sl_lane input, ls_leafId = li_leafId input,
                         ls_operation = Some (reduce_operation s operationRecords ownEntries entriesById pending),
                         ls_pendingNextRun = pendingNextRun\<rparr>,
                       lr_effectiveConfiguration = effectiveConfiguration,
                       lr_terminalFailure = derive_failure operationRecords ownEntries
                         (p_id ` set (deferred_writes operationRecords))\<rparr>))))"

section \<open>What an accepted log looks like\<close>

text \<open>
  The specification of the validation has no running state: whether a record is acceptable is a
  predicate of the record and of the records before it.
\<close>

definition starts_run :: "ident \<Rightarrow> lane_record \<Rightarrow> bool" where
  "starts_run run r \<longleftrightarrow> is_operation_start (r_body r) \<and> r_id r = run"

definition finishes_run :: "ident \<Rightarrow> lane_record \<Rightarrow> bool" where
  "finishes_run run r \<longleftrightarrow> (case r_body r of OperationFinished i _ _ \<Rightarrow> i = run | _ \<Rightarrow> False)"

definition aborts_run :: "ident \<Rightarrow> lane_record \<Rightarrow> bool" where
  "aborts_run run r \<longleftrightarrow> (case r_body r of AbortRequested i \<Rightarrow> i = run | _ \<Rightarrow> False)"

definition enqueues :: "ident \<Rightarrow> lane_record \<Rightarrow> bool" where
  "enqueues i r \<longleftrightarrow> (case r_body r of QueueEnqueued _ _ target \<Rightarrow> p_id target = i | _ \<Rightarrow> False)"

definition attempt_of :: "lane_record \<Rightarrow> step_attempt option" where
  "attempt_of r = (case r_body r of StepAttempt a \<Rightarrow> Some a | _ \<Rightarrow> None)"

definition tool_start_of :: "lane_record \<Rightarrow> tool_start option" where
  "tool_start_of r = (case r_body r of ToolStarted t \<Rightarrow> Some t | _ \<Rightarrow> None)"

definition last_attempt :: "ident \<Rightarrow> lane_record list \<Rightarrow> step_attempt option" where
  "last_attempt run rs = Option.bind
     (last_matching (\<lambda>r. case attempt_of r of None \<Rightarrow> False | Some a \<Rightarrow> sa_runId a = run) rs) attempt_of"

definition entry_agrees :: "deep_equal \<Rightarrow> entry_map \<Rightarrow> provisioned_entry \<Rightarrow> bool" where
  "entry_agrees deq m target \<longleftrightarrow>
     (\<forall>e. map_get m (p_id target) = Some e \<longrightarrow> matchesProvisionedEntry deq e target)"

definition result_agrees :: "entry_map \<Rightarrow> ident \<Rightarrow> (entry \<Rightarrow> bool) \<Rightarrow> bool" where
  "result_agrees m i P \<longleftrightarrow> (\<forall>e. map_get m i = Some e \<longrightarrow> P e)"

definition intent_agrees :: "deep_equal \<Rightarrow> entry_map \<Rightarrow> operation_intent \<Rightarrow> bool" where
  "intent_agrees deq m intent \<longleftrightarrow>
     (case intent of
        RunIntent i \<Rightarrow> \<forall>target \<in> set (ri_initialMessages i). entry_agrees deq m target
      | CompactionIntent i \<Rightarrow> result_agrees m (ci_resultEntryId i) (\<lambda>e. entry_type_of e = TCompaction)
      | NavigationIntent i \<Rightarrow> \<forall>s. truthy_id (ni_summaryEntryId i) = Some s \<longrightarrow>
          result_agrees m s (\<lambda>e. entry_type_of e = TBranchSummary))"

definition attempt_ok :: "entry_map \<Rightarrow> nat \<Rightarrow> step_attempt \<Rightarrow> step_attempt option \<Rightarrow> bool" where
  "attempt_ok m seq a previous \<longleftrightarrow>
     (sa_step a = StepCompaction \<longleftrightarrow> sa_compactionReason a \<noteq> None) \<and>
     (if continues_series m previous seq a
      then \<exists>p. previous = Some p \<and> sa_attempt a = sa_attempt p + 1 \<and>
        (sa_step a \<noteq> StepAssistant \<longrightarrow>
           sa_resultEntryId a = sa_resultEntryId p \<and> sa_compactionReason a = sa_compactionReason p)
      else sa_attempt a = 1) \<and>
     result_agrees m (sa_resultEntryId a)
       (case sa_step a of
          StepAssistant \<Rightarrow> is_assistant_entry
        | StepCompaction \<Rightarrow> (\<lambda>e. entry_type_of e = TCompaction)
        | StepBranchSummary \<Rightarrow> (\<lambda>e. entry_type_of e = TBranchSummary))"

definition tool_start_ok :: "entry_map \<Rightarrow> tool_start \<Rightarrow> bool" where
  "tool_start_ok m t \<longleftrightarrow>
     (\<exists>e am. map_get m (ts_assistantEntryId t) = Some e \<and> assistant_of e = Some am \<and>
        (let calls = tool_calls_of (am_content am)
         in ts_toolIndex t < length calls \<and> tc_id (calls ! ts_toolIndex t) = ts_toolCallId t \<and>
            tc_name (calls ! ts_toolIndex t) = ts_toolName t)) \<and>
     result_agrees m (ts_resultEntryId t) (is_result_of t)"

definition run_ok :: "lane_record list \<Rightarrow> lane_record \<Rightarrow> bool" where
  "run_ok before r \<longleftrightarrow>
     (\<forall>run. body_runId (r_body r) = Some run \<longrightarrow>
        (\<exists>s \<in> set before. starts_run run s) \<and>
        (\<forall>f. last_matching (finishes_run run) before = Some f \<longrightarrow> r_seq r \<le> r_seq f))"

definition body_ok ::
    "deep_equal \<Rightarrow> entry_map \<Rightarrow> lane_record list \<Rightarrow> lane_record \<Rightarrow> record_body \<Rightarrow> bool" where
  "body_ok deq m before r b \<longleftrightarrow>
     (case b of
        OperationStarted _ intent \<Rightarrow> intent_agrees deq m intent
      | StepAttempt a \<Rightarrow> attempt_ok m (r_seq r) a (last_attempt (sa_runId a) before)
      | ToolStarted t \<Rightarrow> tool_start_ok m t \<and>
          (\<forall>r' \<in> set before. \<forall>t'. tool_start_of r' = Some t' \<longrightarrow>
             (ts_assistantEntryId t', ts_toolIndex t') \<noteq> (ts_assistantEntryId t, ts_toolIndex t))
      | QueueEnqueued queue run target \<Rightarrow> entry_agrees deq m target \<and>
          (queue \<noteq> QNextRun \<longrightarrow> (\<forall>i a. run = Some i \<longrightarrow>
             last_matching (aborts_run i) before = Some a \<longrightarrow> r_seq r \<le> r_seq a))
      | QueueCancelled run i \<Rightarrow> \<not> map_has m i \<and>
          (\<exists>q. last_matching (enqueues i) before = Some q \<and> r_seq q < r_seq r \<and> queue_run q = run)
      | WriteDeferred _ target \<Rightarrow> entry_agrees deq m target
      | _ \<Rightarrow> True)"

definition record_accepted ::
    "deep_equal \<Rightarrow> entry_map \<Rightarrow> lane_record list \<Rightarrow> lane_record \<Rightarrow> bool" where
  "record_accepted deq m before r \<longleftrightarrow> run_ok before r \<and> body_ok deq m before r (r_body r)"

definition started_runs :: "lane_record list \<Rightarrow> ident set" where
  "started_runs rs = {run. \<exists>s \<in> set rs. starts_run run s}"

definition used_invocations :: "lane_record list \<Rightarrow> string set" where
  "used_invocations rs = {i. \<exists>r \<in> set rs. \<exists>t. tool_start_of r = Some t \<and> i = tool_invocation t}"

definition tracks :: "validation \<Rightarrow> lane_record list \<Rightarrow> bool" where
  "tracks v before \<longleftrightarrow>
     v_starts v = started_runs before \<and>
     (\<forall>run. map_get (v_finishedAt v) run = map_option r_seq (last_matching (finishes_run run) before)) \<and>
     (\<forall>run. map_get (v_abortedAt v) run = map_option r_seq (last_matching (aborts_run run) before)) \<and>
     (\<forall>i. map_get (v_queueEnqueues v) i = last_matching (enqueues i) before) \<and>
     (\<forall>run. map_get (v_latestAttempt v) run = last_attempt run before) \<and>
     v_toolInvocations v = used_invocations before"

section \<open>The validation loop meets its specification\<close>

lemma tool_invocation_inject:
  "tool_invocation t = tool_invocation t' \<longleftrightarrow>
     ts_assistantEntryId t = ts_assistantEntryId t' \<and> ts_toolIndex t = ts_toolIndex t'"
proof -
  have split: "u = u' \<and> d = d'"
    if "u @ [z] @ d = u' @ [z] @ d'" "z \<notin> set d" "z \<notin> set d'" for u u' d d' :: string and z
    using that by (induction u arbitrary: u') (auto simp: append_eq_Cons_conv Cons_eq_append_conv)
  show ?thesis
    unfolding tool_invocation_def using split decimal_no_nul decimal_inject by metis
qed

lemma validateExactProvisionedEntry_eq:
  "validateExactProvisionedEntry deq m target =
     (if entry_agrees deq m target then Inr () else Inl ProvisionedEntryMismatch)"
  by (auto simp: validateExactProvisionedEntry_def entry_agrees_def split: option.splits)

lemma validateResultEntry_eq:
  "validateResultEntry m i P = (if result_agrees m i P then Inr () else Inl ProvisionedEntryMismatch)"
  by (auto simp: validateResultEntry_def result_agrees_def split: option.splits)

lemma for_each_check:
  "for_each (\<lambda>_ x. f x) () xs = Inr () \<longleftrightarrow> (\<forall>x \<in> set xs. f x = Inr ())"
  by (induction xs) (auto split: sum.splits)

lemma validateOperationResult_ok:
  "validateOperationResult deq m intent = Inr u \<longleftrightarrow> intent_agrees deq m intent"
  by (auto simp: validateOperationResult_def intent_agrees_def for_each_check validateResultEntry_eq
      validateExactProvisionedEntry_eq
      split: operation_intent.splits option.splits)

lemma validateAttempt_ok:
  "validateAttemptReason a = Inr () \<and> validateAttemptSequence seq a previous m = Inr () \<and>
   validateAttemptResult m a = Inr () \<longleftrightarrow> attempt_ok m seq a previous"
  by (auto simp: validateAttemptReason_def validateAttemptSequence_def validateAttemptResult_def
      validateResultEntry_eq attempt_ok_def continues_series_def Let_def split: option.splits if_splits)

lemma validateToolStart_ok:
  "validateToolStart t m used = Inr used' \<longleftrightarrow>
     tool_invocation t \<notin> used \<and> tool_start_ok m t \<and> insert (tool_invocation t) used = used'"
  by (auto simp: validateToolStart_def tool_start_ok_def assistant_of_def Let_def validateResultEntry_eq
      split: option.splits entry_payload.splits agent_message.splits sum.splits)

lemmas event_defs = starts_run_def finishes_run_def aborts_run_def enqueues_def attempt_of_def
  tool_start_of_def is_operation_start_def

lemma tracks_new: "tracks new_validation []"
  by (simp add: tracks_def started_runs_def used_invocations_def new_validation_def last_attempt_def)

lemma validate_run_ok:
  assumes "tracks v before"
  shows "validate_run v r = Inr () \<longleftrightarrow> run_ok before r"
  using assms
  by (auto simp: validate_run_def run_ok_def tracks_def started_runs_def split: option.splits)

lemma last_attempt_snoc:
  "last_attempt run (rs @ [r]) =
     (case r_body r of StepAttempt a \<Rightarrow> if sa_runId a = run then Some a else last_attempt run rs
      | _ \<Rightarrow> last_attempt run rs)"
  by (auto simp: last_attempt_def attempt_of_def split: record_body.splits)

lemma started_runs_snoc:
  "started_runs (rs @ [r]) =
     (if is_operation_start (r_body r) then insert (r_id r) (started_runs rs) else started_runs rs)"
  by (auto simp: started_runs_def starts_run_def)

lemma used_invocations_snoc:
  "used_invocations (rs @ [r]) =
     (case r_body r of ToolStarted t \<Rightarrow> insert (tool_invocation t) (used_invocations rs)
      | _ \<Rightarrow> used_invocations rs)"
  by (auto simp: used_invocations_def tool_start_of_def split: record_body.splits)

lemma validate_body_ok:
  assumes t: "tracks v before"
  shows "(\<exists>v'. validate_body deq m v r (r_body r) = Inr v') \<longleftrightarrow> body_ok deq m before r (r_body r)"
proof (cases "r_body r")
  case (StepAttempt a)
  have "map_get (v_latestAttempt v) (sa_runId a) = last_attempt (sa_runId a) before"
    using t by (simp add: tracks_def)
  then show ?thesis
    using StepAttempt validateAttempt_ok [of a "r_seq r" "last_attempt (sa_runId a) before" m]
    by (auto simp: body_ok_def split: sum.splits)
next
  case (ToolStarted ts)
  have used: "tool_invocation ts \<in> v_toolInvocations v \<longleftrightarrow>
      (\<exists>r' \<in> set before. \<exists>t'. tool_start_of r' = Some t' \<and>
         ts_assistantEntryId t' = ts_assistantEntryId ts \<and> ts_toolIndex t' = ts_toolIndex ts)"
  proof -
    have "v_toolInvocations v = used_invocations before" using t by (simp add: tracks_def)
    then show ?thesis by (simp add: used_invocations_def tool_invocation_inject) metis
  qed
  have checked: "(\<exists>u. validateToolStart ts m (v_toolInvocations v) = Inr u) \<longleftrightarrow>
      tool_invocation ts \<notin> v_toolInvocations v \<and> tool_start_ok m ts"
    by (simp add: validateToolStart_ok)
  show ?thesis using ToolStarted
    using used checked
    by (cases "validateToolStart ts m (v_toolInvocations v)") (auto simp: body_ok_def)
next
  case (QueueEnqueued queue run target)
  then show ?thesis
    using t by (auto simp: body_ok_def tracks_def validateExactProvisionedEntry_eq
        split: option.splits bind_splits if_splits)
next
  case (QueueCancelled run i)
  then show ?thesis
    using t by (auto simp: body_ok_def tracks_def split: option.splits)
next
  case (OperationStarted src intent)
  then show ?thesis
    using validateOperationResult_ok [of deq m intent]
    by (cases "validateOperationResult deq m intent") (simp_all add: body_ok_def)
qed (auto simp: body_ok_def validateExactProvisionedEntry_eq)

lemma validate_body_tracks:
  assumes t: "tracks v before" and v': "validate_body deq m v r (r_body r) = Inr v'"
  shows "tracks v' (before @ [r])"
  using assms
  by (cases "r_body r")
    (auto simp: tracks_def started_runs_snoc used_invocations_snoc last_attempt_snoc event_defs
      validateToolStart_ok split: sum.splits option.splits if_splits)

lemma validate_record_ok:
  assumes "tracks v before"
  shows "(\<exists>v'. validate_record deq m v r = Inr v') \<longleftrightarrow> record_accepted deq m before r"
  using validate_run_ok [OF assms, of r] validate_body_ok [OF assms, of deq m r]
  by (auto simp: validate_record_def record_accepted_def split: sum.splits)

lemma validate_record_tracks:
  assumes "tracks v before" "validate_record deq m v r = Inr v'"
  shows "tracks v' (before @ [r])"
  using assms validate_body_tracks by (auto simp: validate_record_def split: sum.splits)

lemma all_less_Suc_shift: "(\<forall>k < Suc n. P k) \<longleftrightarrow> P 0 \<and> (\<forall>k < n. P (Suc k))"
  by (auto simp: less_Suc_eq_0_disj)

lemma validate_loop_ok:
  assumes "tracks v before"
  shows "(\<exists>v'. for_each (validate_record deq m) v rs = Inr v') \<longleftrightarrow>
    (\<forall>k < length rs. record_accepted deq m (before @ take k rs) (rs ! k))"
  using assms
proof (induction rs arbitrary: v before)
  case Nil
  then show ?case by simp
next
  case (Cons r rs)
  show ?case
  proof (cases "validate_record deq m v r")
    case (Inl c)
    then have "\<not> record_accepted deq m before r"
      using validate_record_ok [OF Cons.prems, of deq m r] by simp
    then show ?thesis using Inl by fastforce
  next
    case (Inr v')
    have r: "record_accepted deq m before r"
      using validate_record_ok [OF Cons.prems, of deq m r] Inr by simp
    have "(\<forall>k < length (r # rs). record_accepted deq m (before @ take k (r # rs)) ((r # rs) ! k)) \<longleftrightarrow>
        (\<forall>k < length rs. record_accepted deq m ((before @ [r]) @ take k rs) (rs ! k))"
      using r by (simp add: all_less_Suc_shift)
    then show ?thesis
      using Inr Cons.IH [OF validate_record_tracks [OF Cons.prems Inr]] by simp
  qed
qed

definition accepted_log :: "deep_equal \<Rightarrow> 'z record_log_slice_scheme \<Rightarrow> bool" where
  "accepted_log deq input \<longleftrightarrow>
     (let m = map_entries_of e_id (sl_entries input); rs = sort_by r_seq (sl_records input)
      in length (sl_openOperations input) \<le> 1 \<and>
         (\<forall>e \<in> set (map_values m). \<not> unhandled_deferral e) \<and>
         (\<forall>k < length rs. record_accepted deq m (take k rs) (rs ! k)))"

lemma validateDeferredHandles_ok:
  "validateDeferredHandles es = Inr () \<longleftrightarrow> (\<forall>e \<in> set es. \<not> unhandled_deferral e)"
  by (auto simp: validateDeferredHandles_def for_each_check)

lemma validateRecordLog_ok: "validateRecordLog deq input = Inr () \<longleftrightarrow> accepted_log deq input"
  using validate_loop_ok [OF tracks_new, of deq "map_entries_of e_id (sl_entries input)"
      "sort_by r_seq (sl_records input)"]
    validateDeferredHandles_ok [of "map_values (map_entries_of e_id (sl_entries input))"]
  by (auto simp: validateRecordLog_def accepted_log_def Let_def split: sum.splits if_splits)

section \<open>Consequences for a recovered lane\<close>

lemma accepted_record:
  assumes "accepted_log deq input" "r \<in> set (sl_records input)" "distinct (map r_seq (sl_records input))"
  shows "\<exists>before. record_accepted deq (map_entries_of e_id (sl_entries input)) before r \<and>
    (\<forall>r'. r' \<in> set before \<longleftrightarrow> r' \<in> set (sl_records input) \<and> r_seq r' < r_seq r)"
proof -
  let ?rs = "sort_by r_seq (sl_records input)"
  obtain k where k: "k < length ?rs" "?rs ! k = r" using assms(2) by (metis in_set_conv_nth set_sort_by)
  have "r' \<in> set (take k ?rs) \<longleftrightarrow> r' \<in> set (sl_records input) \<and> r_seq r' < r_seq r" for r'
  proof -
    have "r' \<in> set (take k ?rs) \<longleftrightarrow> (\<exists>j < k. r' = ?rs ! j)"
      using k(1) by (auto simp: in_set_conv_nth)
    also have "\<dots> \<longleftrightarrow> (\<exists>j < length ?rs. r' = ?rs ! j \<and> r_seq r' < r_seq r)"
      using k sort_by_index_less [OF assms(3)] by (auto intro: less_trans)
    finally show ?thesis by (metis in_set_conv_nth set_sort_by)
  qed
  then show ?thesis using assms(1) k by (auto simp: accepted_log_def Let_def)
qed

lemma accepted_run:
  assumes "accepted_log deq input" "distinct (map r_seq (sl_records input))"
    and "r \<in> set (sl_records input)" "body_runId (r_body r) = Some run"
  shows "\<exists>s \<in> set (sl_records input). starts_run run s \<and> r_seq s < r_seq r"
    and "\<forall>f \<in> set (sl_records input). finishes_run run f \<longrightarrow> r_seq r \<le> r_seq f"
proof -
  obtain before where b: "record_accepted deq (map_entries_of e_id (sl_entries input)) before r"
    "\<And>r'. r' \<in> set before \<longleftrightarrow> r' \<in> set (sl_records input) \<and> r_seq r' < r_seq r"
    using accepted_record [OF assms(1,3,2)] by blast
  then have ok: "run_ok before r" by (simp add: record_accepted_def)
  then show "\<exists>s \<in> set (sl_records input). starts_run run s \<and> r_seq s < r_seq r"
    using assms(4) b(2) by (auto simp: run_ok_def)
  show "\<forall>f \<in> set (sl_records input). finishes_run run f \<longrightarrow> r_seq r \<le> r_seq f"
  proof (intro ballI impI)
    fix f assume f: "f \<in> set (sl_records input)" "finishes_run run f"
    show "r_seq r \<le> r_seq f"
    proof (rule ccontr)
      assume "\<not> r_seq r \<le> r_seq f"
      then have "f \<in> set before" using b(2) f(1) by simp
      then obtain g where g: "last_matching (finishes_run run) before = Some g"
        using f(2) last_matching_None [of "finishes_run run" before] by (cases "last_matching (finishes_run run) before") auto
      then have "r_seq r \<le> r_seq g" using ok assms(4) by (auto simp: run_ok_def)
      moreover have "r_seq g < r_seq r" using b(2) last_matching_Some [OF g] by blast
      ultimately show False by simp
    qed
  qed
qed

lemma accepted_body:
  assumes "accepted_log deq input" "distinct (map r_seq (sl_records input))"
    and "r \<in> set (sl_records input)"
  obtains before where "body_ok deq (map_entries_of e_id (sl_entries input)) before r (r_body r)"
    "\<And>r'. r' \<in> set before \<longleftrightarrow> r' \<in> set (sl_records input) \<and> r_seq r' < r_seq r"
  using accepted_record [OF assms(1,3,2)] by (auto simp: record_accepted_def)

lemma accepted_enqueue:
  assumes "accepted_log deq input" "distinct (map r_seq (sl_records input))"
    and "r \<in> set (sl_records input)" "r_body r = QueueEnqueued queue (Some run) target"
    and "queue \<noteq> QNextRun" "a \<in> set (sl_records input)" "aborts_run run a"
  shows "r_seq r < r_seq a"
proof (rule ccontr)
  assume not: "\<not> r_seq r < r_seq a"
  obtain before where b: "body_ok deq (map_entries_of e_id (sl_entries input)) before r (r_body r)"
    "\<And>r'. r' \<in> set before \<longleftrightarrow> r' \<in> set (sl_records input) \<and> r_seq r' < r_seq r"
    using accepted_body [OF assms(1-3)] by blast
  have "r \<noteq> a" using assms(4,7) by (auto simp: aborts_run_def)
  then have "r_seq a < r_seq r"
    using not assms(2,3,6) by (metis distinct_map inj_on_def linorder_neqE_nat)
  then have "a \<in> set before" using b(2) assms(6) by simp
  then obtain g where g: "last_matching (aborts_run run) before = Some g"
    using assms(7) last_matching_None [of "aborts_run run" before]
    by (cases "last_matching (aborts_run run) before") auto
  then have "r_seq r \<le> r_seq g" using b(1) assms(4,5) by (simp add: body_ok_def)
  moreover have "r_seq g < r_seq r" using b(2) last_matching_Some [OF g] by blast
  ultimately show False by simp
qed

lemma map_has_entries_of [simp]: "map_has (map_entries_of key xs) k \<longleftrightarrow> k \<in> key ` set xs"
  by (induction xs rule: rev_induct) (auto simp: map_entries_of_def map_has_def)

lemma map_get_entries_of:
  assumes "distinct (map key xs)" "x \<in> set xs"
  shows "map_get (map_entries_of key xs) (key x) = Some x"
  using assms by (induction xs rule: rev_induct) (auto simp: map_entries_of_def, metis image_eqI)

lemma map_get_entries_of_mem: "map_get (map_entries_of key xs) k = Some x \<Longrightarrow> x \<in> set xs \<and> key x = k"
  by (induction xs rule: rev_induct) (auto simp: map_entries_of_def split: if_splits)

lemma find_Some_mem: "find P xs = Some x \<Longrightarrow> x \<in> set xs \<and> P x"
  by (induction xs) (auto split: if_splits)

text \<open>The tool batch of a recovered operation agrees with the assistant message it executes.\<close>

lemma tool_starts_get:
  "map_get (tool_starts run i rs) n = Some s \<Longrightarrow>
     \<exists>r \<in> set rs. r_body r = ToolStarted (tsr_start s) \<and> ts_runId (tsr_start s) = run \<and>
       ts_assistantEntryId (tsr_start s) = i \<and> ts_toolIndex (tsr_start s) = n"
  by (induction rs rule: rev_induct)
    (auto simp: tool_starts_def note_tool_start_def split: record_body.splits if_splits)

definition batch_ok :: "entry list \<Rightarrow> tool_batch_state \<Rightarrow> bool" where
  "batch_ok ownEntries b \<longleftrightarrow>
     (\<exists>e m. e \<in> set ownEntries \<and> e_id e = tb_assistantEntryId b \<and> assistant_of e = Some m \<and>
        map tcs_toolCall (tb_calls b) = tool_calls_of (am_content m) \<and> tb_calls b \<noteq> [] \<and>
        map tcs_toolIndex (tb_calls b) = [0..<length (tb_calls b)] \<and>
        (tb_unresolved b \<longleftrightarrow> (\<exists>c \<in> set (tb_calls b). \<not> tcs_resultExists c)) \<and>
        (\<forall>c \<in> set (tb_calls b). \<forall>s. tcs_started c = Some s \<longrightarrow>
           ts_toolCallId (tsr_start s) = tc_id (tcs_toolCall c) \<and>
           ts_toolName (tsr_start s) = tc_name (tcs_toolCall c)))"

definition step_ok :: "step_state \<Rightarrow> bool" where
  "step_ok s \<longleftrightarrow> 0 < step_attempts s \<and>
     (step_compactionReason s \<noteq> None \<longleftrightarrow> step_kind_of s = StepCompaction)"

lemma step_attempts_of_set:
  "(n, a) \<in> set (step_attempts_of rs) \<longleftrightarrow> (\<exists>r \<in> set rs. r_body r = StepAttempt a \<and> r_seq r = n)"
  by (induction rs) (auto split: record_body.splits)

lemma accepted_attempt:
  assumes "accepted_log deq input" "r \<in> set (sl_records input)" "r_body r = StepAttempt a"
  shows "0 < sa_attempt a \<and> (sa_step a = StepCompaction \<longleftrightarrow> sa_compactionReason a \<noteq> None)"
proof -
  obtain before where "record_accepted deq (map_entries_of e_id (sl_entries input)) before r"
    using assms(1,2) unfolding accepted_log_def Let_def by (metis in_set_conv_nth set_sort_by)
  then show ?thesis
    using assms(3) by (auto simp: record_accepted_def body_ok_def attempt_ok_def split: if_splits)
qed

lemma accepted_tool_start:
  assumes "accepted_log deq input" "r \<in> set (sl_records input)" "r_body r = ToolStarted t"
  shows "tool_start_ok (map_entries_of e_id (sl_entries input)) t"
proof -
  obtain before where "record_accepted deq (map_entries_of e_id (sl_entries input)) before r"
    using assms(1,2) unfolding accepted_log_def Let_def by (metis in_set_conv_nth set_sort_by)
  then show ?thesis using assms(3) by (simp add: record_accepted_def body_ok_def)
qed

lemma derive_step_ok:
  assumes "accepted_log deq input" "set rs \<subseteq> set (sl_records input)"
    and "derive_step m rs = Some s"
  shows "step_ok s"
proof -
  obtain n a where a: "at_last (step_attempts_of rs) = Some (n, a)"
    "s = \<lparr>step_kind_of = sa_step a, step_attempts = sa_attempt a,
       step_resultEntryId = sa_resultEntryId a,
       step_compactionReason = (if sa_step a = StepCompaction then sa_compactionReason a else None)\<rparr>"
    using assms(3) by (auto simp: derive_step_def split: option.splits if_splits prod.splits)
  then obtain r where "r \<in> set (sl_records input)" "r_body r = StepAttempt a"
    using at_last_in [OF a(1)] step_attempts_of_set assms(2) by blast
  then show ?thesis using accepted_attempt [OF assms(1)] a(2) by (auto simp: step_ok_def)
qed

lemma call_state_simps [simp]:
  "tcs_toolIndex (call_state e starts own m ids x) = fst x"
  "tcs_toolCall (call_state e starts own m ids x) = snd x"
  "tcs_started (call_state e starts own m ids x) = map_get starts (fst x)"
  by (simp_all add: call_state_def Let_def case_prod_beta)

lemma deriveToolBatch_ok:
  assumes acc: "accepted_log deq input" and rs: "set rs \<subseteq> set (sl_records input)"
    and own: "set own \<subseteq> set (sl_entries input)" "distinct (map e_id (sl_entries input))"
    and b: "deriveToolBatch run rs own m ids = Some b"
  shows "batch_ok own b"
proof -
  obtain e am where e: "find calls_tools (rev own) = Some e" "assistant_of e = Some am"
    "b = \<lparr>tb_assistantEntryId = e_id e,
       tb_calls = map (call_state e (tool_starts run (e_id e) rs) own m ids)
         (enumerate 0 (tool_calls_of (am_content am))),
       tb_truncated = (am_stopReason am = StopLength),
       tb_unresolved = list_ex (\<lambda>c. \<not> tcs_resultExists c)
         (map (call_state e (tool_starts run (e_id e) rs) own m ids)
           (enumerate 0 (tool_calls_of (am_content am))))\<rparr>"
    using b by (auto simp: deriveToolBatch_def Let_def split: option.splits)
  let ?calls = "tool_calls_of (am_content am)"
  have mem: "e \<in> set own" "calls_tools e" using find_Some_mem [OF e(1)] by simp_all
  have calls: "map tcs_toolCall (tb_calls b) = ?calls" "map tcs_toolIndex (tb_calls b) = [0..<length (tb_calls b)]"
    using e(3) by (simp_all add: comp_def enumerate_eq_zip)
  have "ts_toolCallId (tsr_start s) = tc_id (tcs_toolCall c) \<and> ts_toolName (tsr_start s) = tc_name (tcs_toolCall c)"
    if c: "c \<in> set (tb_calls b)" "tcs_started c = Some s" for c s
  proof -
    obtain n call where n: "c = call_state e (tool_starts run (e_id e) rs) own m ids (n, call)"
      "n < length ?calls" "call = ?calls ! n"
      using c(1) e(3) by (auto simp: enumerate_eq_zip set_zip)
    then obtain r where r: "r \<in> set rs" "r_body r = ToolStarted (tsr_start s)"
      "ts_assistantEntryId (tsr_start s) = e_id e" "ts_toolIndex (tsr_start s) = n"
      using c(2) tool_starts_get [of run "e_id e" rs n s] by auto
    have "tool_start_ok (map_entries_of e_id (sl_entries input)) (tsr_start s)"
      using accepted_tool_start [OF acc _ r(2)] r(1) rs by blast
    moreover have "map_get (map_entries_of e_id (sl_entries input)) (e_id e) = Some e"
      using map_get_entries_of [OF own(2)] own(1) mem(1) by blast
    ultimately show ?thesis using r n e(2) by (auto simp: tool_start_ok_def Let_def)
  qed
  moreover have "tb_calls b \<noteq> []" "tb_unresolved b \<longleftrightarrow> (\<exists>c \<in> set (tb_calls b). \<not> tcs_resultExists c)"
    using e(2,3) mem(2) by (auto simp: calls_tools_def list_ex_iff dest: arg_cong [of _ _ length])
  ultimately show ?thesis
    using e(2,3) mem(1) calls unfolding batch_ok_def by (intro exI [of _ e] exI [of _ am]) simp
qed

definition queued_targets :: "queue_name \<Rightarrow> ident option \<Rightarrow> lane_record list \<Rightarrow> provisioned_entry set" where
  "queued_targets queue run rs = {target. \<exists>r \<in> set rs. r_body r = QueueEnqueued queue run target}"

lemma pending_queue_records_set:
  "(queue, run, target) \<in> set (pending_queue_records m rs) \<longleftrightarrow>
     target \<in> queued_targets queue run rs \<and> \<not> map_has m (p_id target) \<and>
     p_id target \<notin> cancelled_queue_ids rs"
  by (auto simp: pending_queue_records_def queued_targets_def split: record_body.splits if_splits;
      force)

lemma queue_targets_set:
  "set (queue_targets queue run (pending_queue_records m rs)) =
     {target \<in> queued_targets queue (Some run) rs.
        \<not> map_has m (p_id target) \<and> p_id target \<notin> cancelled_queue_ids rs}"
  by (force simp: queue_targets_def pending_queue_records_set)

lemma pending_next_run_set:
  "target \<in> set (pending_next_run (Some s) pending) \<longleftrightarrow>
     (\<exists>run. (QNextRun, run, target) \<in> set pending) \<and>
     p_id target \<notin> p_id ` set (initial_messages (os_intent s))"
  by (force simp: pending_next_run_def Let_def)

lemma queued_targets_sort [simp]: "queued_targets queue run (sort_by key rs) = queued_targets queue run rs"
  by (simp add: queued_targets_def)

lemma cancelled_queue_ids_sort [simp]: "cancelled_queue_ids (sort_by key rs) = cancelled_queue_ids rs"
  by (simp add: cancelled_queue_ids_def)

fun promised_targets :: "record_body \<Rightarrow> provisioned_entry set" where
  "promised_targets (OperationStarted _ (RunIntent i)) = set (ri_initialMessages i)"
| "promised_targets (QueueEnqueued _ _ target) = {target}"
| "promised_targets (WriteDeferred _ target) = {target}"
| "promised_targets _ = {}"

lemma accepted_targets:
  assumes "accepted_log deq input" "r \<in> set (sl_records input)" "target \<in> promised_targets (r_body r)"
  shows "entry_agrees deq (map_entries_of e_id (sl_entries input)) target"
proof -
  obtain before where "record_accepted deq (map_entries_of e_id (sl_entries input)) before r"
    using assms(1,2) unfolding accepted_log_def Let_def by (metis in_set_conv_nth set_sort_by)
  then show ?thesis
    using assms(3) by (cases "r_body r" rule: promised_targets.cases)
      (auto simp: record_accepted_def body_ok_def intent_agrees_def)
qed

lemma reduceLaneState_open:
  assumes "reduceLaneState deq input = Inr res" "ls_operation (lr_laneState res) = Some op"
  obtains s rs own where
    "accepted_log deq input" "sl_openOperations input = [s]"
    "rs = filter (in_operation (r_id s)) (sort_by r_seq (sl_records input))"
    "own = sort_by e_seq (li_ownEntries input)"
    "op = reduce_operation s rs own (map_entries_of e_id (sl_entries input @ own))
       (pending_queue_records (map_entries_of e_id (sl_entries input @ own))
         (sort_by r_seq (sl_records input)))"
    "lr_terminalFailure res = derive_failure rs own (p_id ` set (deferred_writes rs))"
proof -
  have v: "validateRecordLog deq input = Inr ()"
    using assms(1) by (auto simp: reduceLaneState_def split: sum.splits)
  then have acc: "accepted_log deq input" by (simp add: validateRecordLog_ok)
  then have "length (sl_openOperations input) \<le> 1" by (simp add: accepted_log_def Let_def)
  moreover have "sl_openOperations input \<noteq> []"
    using assms v by (auto simp: reduceLaneState_def Let_def)
  ultimately obtain s where s: "sl_openOperations input = [s]"
    by (cases "sl_openOperations input") auto
  show ?thesis
    by (rule that [OF acc s refl refl]) (use assms v s in \<open>auto simp: reduceLaneState_def Let_def\<close>)
qed

section \<open>Properties\<close>

text \<open>
  C18. \<open>validateRecordLog\<close> accepts a recovery slice exactly when it meets the stateless
  specification: at most one open operation, a handle on every deferred assistant message, and
  every record (in sequence order) acceptable given the records before it. The loop's maps and
  its string-keyed set of tool invocations lose nothing.
\<close>

theorem validation_meets_specification:
  "validateRecordLog deq input = Inr () \<longleftrightarrow> accepted_log deq input"
  by (rule validateRecordLog_ok)

definition demo_records :: "lane_record list" where
  "demo_records =
     [\<lparr>r_id = ''steer'', r_seq = 4, r_lane = ''main'', r_timestamp = 0,
       r_body = QueueEnqueued QSteer (Some ''run'') \<lparr>p_id = ''q'', p_payload = demo_payload\<rparr>\<rparr>,
      \<lparr>r_id = ''run'', r_seq = 2, r_lane = ''main'', r_timestamp = 0, r_body = demo_start\<rparr>,
      \<lparr>r_id = ''try'', r_seq = 3, r_lane = ''main'', r_timestamp = 0,
       r_body = StepAttempt \<lparr>sa_runId = ''run'', sa_step = StepCompaction, sa_attempt = 1,
         sa_resultEntryId = ''c'', sa_compactionReason = Some ReasonManual\<rparr>\<rparr>]"

definition demo_input :: lane_reduction_input where
  "demo_input = \<lparr>sl_lane = ''main'',
     sl_openOperations = [\<lparr>r_id = ''run'', r_seq = 2, r_lane = ''main'', r_timestamp = 0,
       os_sourceLeafId = None, os_intent = CompactionIntent
         \<lparr>ci_customInstructions = None, ci_resultEntryId = ''c''\<rparr>\<rparr>],
     sl_records = demo_records, sl_entries = [demo_entry ''a'' 1 None], li_leafId = Some ''a'',
     li_ownEntries = [], li_configurationEntries = [],
     li_defaults = \<lparr>lc_model = (''p'', ''m''), lc_thinkingLevel = ''off'', lc_activeToolNames = []\<rparr>\<rparr>"

lemmas reducer_eval = validateRecordLog_def validate_record_def validate_run_def
  validateExactProvisionedEntry_def validateResultEntry_def validateAttemptReason_def
  validateAttemptSequence_def validateAttemptResult_def validateOperationResult_def
  validateDeferredHandles_def continues_series_def new_validation_def map_entries_of_def
  map_values_def map_set_def unhandled_deferral_def

lemma demo_input_valid: "validateRecordLog deq demo_input = Inr ()"
  by (simp add: reducer_eval demo_input_def demo_records_def demo_entry_def demo_start_def
      Let_def)

lemma demo_input_accepted: "accepted_log deq demo_input"
  using demo_input_valid validateRecordLog_ok by blast

lemma demo_input_open:
  "\<exists>res op s. reduceLaneState (=) demo_input = Inr res \<and> ls_operation (lr_laneState res) = Some op \<and>
     op_step op = Some s"
  using demo_input_valid [of "(=)"] unfolding reduceLaneState_def
  by (simp add: demo_input_def demo_records_def Let_def reduce_operation_def in_operation_def
      demo_start_def derive_step_def at_last_def demo_entry_def)

lemma demo_input_seqs: "distinct (map r_seq (sl_records demo_input))"
  by (simp add: demo_input_def demo_records_def)

text \<open>
  C19. In an accepted log with distinct sequence numbers every record of a run lies between the
  start and the finish of that run, and no steering or follow-up message was enqueued after an
  abort of its run.
\<close>

theorem accepted_runs_are_bracketed:
  assumes "validateRecordLog deq input = Inr ()" and "distinct (map r_seq (sl_records input))"
    and "r \<in> set (sl_records input)" and "body_runId (r_body r) = Some run"
  shows "(\<exists>s \<in> set (sl_records input). starts_run run s \<and> r_seq s < r_seq r) \<and>
    (\<forall>f \<in> set (sl_records input). finishes_run run f \<longrightarrow> r_seq r \<le> r_seq f) \<and>
    (\<forall>queue target. \<forall>a \<in> set (sl_records input). r_body r = QueueEnqueued queue (Some run) target \<longrightarrow>
       queue \<noteq> QNextRun \<longrightarrow> aborts_run run a \<longrightarrow> r_seq r < r_seq a)"
proof -
  have acc: "accepted_log deq input" using assms(1) by (simp add: validateRecordLog_ok)
  show ?thesis
    using accepted_run [OF acc assms(2-4)] accepted_enqueue [OF acc assms(2,3)] by blast
qed

theorem accepted_runs_are_bracketed_witness:
  "validateRecordLog (=) demo_input = Inr () \<and>
   (\<exists>s \<in> set (sl_records demo_input). starts_run ''run'' s \<and> r_seq s < r_seq (demo_records ! 0))"
proof -
  have r: "demo_records ! 0 \<in> set (sl_records demo_input)" "body_runId (r_body (demo_records ! 0)) = Some ''run''"
    by (simp_all add: demo_input_def demo_records_def)
  show ?thesis
    using accepted_runs_are_bracketed [OF demo_input_valid demo_input_seqs r] demo_input_valid by blast
qed

lemma validateRecordLog_perm:
  assumes "mset rs = mset (sl_records input)" "distinct (map r_seq (sl_records input))"
  shows "validateRecordLog deq (input\<lparr>sl_records := rs\<rparr>) = validateRecordLog deq input"
  using sort_by_perm [of "sl_records input" rs r_seq] assms
  by (auto simp: validateRecordLog_def Let_def split: sum.splits)

text \<open>
  C20. Recovery does not depend on the order in which storage returns the records: permuting
  records with distinct sequence numbers gives the same corruption or the same lane state.
\<close>

theorem reduction_ignores_storage_order:
  assumes "mset rs = mset (sl_records input)" and "distinct (map r_seq (sl_records input))"
  shows "reduceLaneState deq (input\<lparr>sl_records := rs\<rparr>) = reduceLaneState deq input"
  using sort_by_perm [of "sl_records input" rs r_seq] validateRecordLog_perm [OF assms, of deq] assms
  by (cases "validateRecordLog deq input")
    (auto simp: reduceLaneState_def deriveEffectiveConfiguration_def Let_def split: list.splits)

theorem reduction_ignores_storage_order_witness:
  "reduceLaneState (=) (demo_input\<lparr>sl_records := rev demo_records\<rparr>) = reduceLaneState (=) demo_input"
  by (rule reduction_ignores_storage_order) (simp_all add: demo_input_def demo_records_def)

text \<open>
  The recovered operation is consistent: a step in progress has at least one attempt and a
  compaction reason exactly when it is a compaction; a tool batch lists the tool calls of one of
  the operation's assistant messages in order, is unresolved exactly when a call has no result,
  and every recorded start belongs to the call with its id and name.
\<close>

lemma recovered_operation_consistent:
  assumes "reduceLaneState deq input = Inr res" and "ls_operation (lr_laneState res) = Some op"
    and "set (li_ownEntries input) \<subseteq> set (sl_entries input)"
    and "distinct (map e_id (sl_entries input))"
  shows "(\<forall>s. op_step op = Some s \<longrightarrow> step_ok s) \<and>
    (\<forall>b. op_toolBatch op = Some b \<longrightarrow> batch_ok (li_ownEntries input) b)"
proof -
  obtain s rs own where o: "accepted_log deq input" "set rs \<subseteq> set (sl_records input)"
    "own = sort_by e_seq (li_ownEntries input)"
    "op = reduce_operation s rs own (map_entries_of e_id (sl_entries input @ own))
       (pending_queue_records (map_entries_of e_id (sl_entries input @ own))
         (sort_by r_seq (sl_records input)))"
    using reduceLaneState_open [OF assms(1,2)] by (metis filter_is_subset set_sort_by)
  have own: "set own \<subseteq> set (sl_entries input)" using o(3) assms(3) by simp
  have "batch_ok (li_ownEntries input) b \<longleftrightarrow> batch_ok own b" for b
    using o(3) by (simp add: batch_ok_def)
  then show ?thesis
    using derive_step_ok [OF o(1,2)] deriveToolBatch_ok [OF o(1,2) own assms(4)] o(4)
    by (auto simp: reduce_operation_def Let_def)
qed

lemma recovered_operation_consistent_witness:
  "\<exists>res op s. reduceLaneState (=) demo_input = Inr res \<and> ls_operation (lr_laneState res) = Some op \<and>
     op_step op = Some s \<and> step_ok s"
proof -
  obtain res op s where res: "reduceLaneState (=) demo_input = Inr res"
    and op: "ls_operation (lr_laneState res) = Some op" "op_step op = Some s"
    using demo_input_open by blast
  have "set (li_ownEntries demo_input) \<subseteq> set (sl_entries demo_input)" "distinct (map e_id (sl_entries demo_input))"
    by (simp_all add: demo_input_def)
  from recovered_operation_consistent [OF res op(1) this] res op show ?thesis by blast
qed

definition undelivered :: "lane_reduction_input \<Rightarrow> provisioned_entry \<Rightarrow> bool" where
  "undelivered input target \<longleftrightarrow>
     p_id target \<notin> e_id ` (set (sl_entries input) \<union> set (li_ownEntries input)) \<and>
     p_id target \<notin> cancelled_queue_ids (sl_records input)"

text \<open>
  C21. No queued message is lost or invented by recovery: the pending steering and follow-up
  messages of the open operation are exactly those enqueued for it that were neither delivered
  (no entry with their id) nor cancelled, and none when the operation is being aborted; the
  pending next-run messages are the undelivered, uncancelled ones that the open run has not
  already taken as its initial messages.
\<close>

theorem recovered_queues_exact:
  assumes "reduceLaneState deq input = Inr res" and "ls_operation (lr_laneState res) = Some op"
  shows "(op_aborting op \<longleftrightarrow> (\<exists>r \<in> set (sl_records input). aborts_run (op_id op) r)) \<and>
    set (op_pendingSteer op) = (if op_aborting op then {} else
      {target \<in> queued_targets QSteer (Some (op_id op)) (sl_records input). undelivered input target}) \<and>
    set (op_pendingFollowUp op) = (if op_aborting op then {} else
      {target \<in> queued_targets QFollowUp (Some (op_id op)) (sl_records input). undelivered input target}) \<and>
    set (ls_pendingNextRun (lr_laneState res)) =
      {target. (\<exists>run. target \<in> queued_targets QNextRun run (sl_records input)) \<and>
         undelivered input target \<and> p_id target \<notin> p_id ` set (initial_messages (op_intent op))}"
proof -
  obtain s rs own where o: "sl_openOperations input = [s]"
    "rs = filter (in_operation (r_id s)) (sort_by r_seq (sl_records input))"
    "own = sort_by e_seq (li_ownEntries input)"
    "op = reduce_operation s rs own (map_entries_of e_id (sl_entries input @ own))
       (pending_queue_records (map_entries_of e_id (sl_entries input @ own))
         (sort_by r_seq (sl_records input)))"
    using reduceLaneState_open [OF assms] by metis
  have ab: "op_aborting op \<longleftrightarrow> (\<exists>r \<in> set (sl_records input). aborts_run (op_id op) r)"
  proof -
    have "body_type (r_body r) = RAbortRequested \<and> in_operation (r_id s) r \<longleftrightarrow> aborts_run (r_id s) r" for r
      by (cases "r_body r") (auto simp: in_operation_def aborts_run_def)
    then show ?thesis unfolding o(4) by (auto simp: reduce_operation_def Let_def list_ex_iff o(2))
  qed
  have live: "\<not> map_has (map_entries_of e_id (sl_entries input @ own)) (p_id t) \<and>
      p_id t \<notin> cancelled_queue_ids (sl_records input) \<longleftrightarrow> undelivered input t" for t
    by (auto simp: undelivered_def o(3))
  have next_run: "ls_pendingNextRun (lr_laneState res) = pending_next_run (Some s)
      (pending_queue_records (map_entries_of e_id (sl_entries input @ own))
         (sort_by r_seq (sl_records input)))"
    using assms(1) o(1,3) by (auto simp: reduceLaneState_def Let_def split: sum.splits)
  have intent: "op_intent op = os_intent s" by (simp add: o(4) reduce_operation_def Let_def)
  have "target \<in> set (ls_pendingNextRun (lr_laneState res)) \<longleftrightarrow>
      (\<exists>run. target \<in> queued_targets QNextRun run (sl_records input)) \<and>
         undelivered input target \<and> p_id target \<notin> p_id ` set (initial_messages (op_intent op))" for target
    unfolding next_run intent pending_next_run_set pending_queue_records_set live [symmetric]
      queued_targets_sort cancelled_queue_ids_sort by blast
  then have "set (ls_pendingNextRun (lr_laneState res)) =
      {target. (\<exists>run. target \<in> queued_targets QNextRun run (sl_records input)) \<and>
         undelivered input target \<and> p_id target \<notin> p_id ` set (initial_messages (op_intent op))}"
    by blast
  then show ?thesis
    using ab live unfolding o(4)
    by (simp add: reduce_operation_def Let_def queue_targets_set del: map_has_entries_of)
qed

theorem recovered_queues_exact_witness:
  "\<exists>res op. reduceLaneState (=) demo_input = Inr res \<and> ls_operation (lr_laneState res) = Some op \<and>
     set (op_pendingSteer op) = (if op_aborting op then {} else
      {target \<in> queued_targets QSteer (Some (op_id op)) (sl_records demo_input). undelivered demo_input target})"
proof -
  obtain res op where res: "reduceLaneState (=) demo_input = Inr res"
    and op: "ls_operation (lr_laneState res) = Some op"
    using demo_input_open by blast
  show ?thesis using res op recovered_queues_exact [OF res op] by blast
qed

text \<open>
  When recovery accepts a lane, every entry that carries the id of a promised message (an
  initial message of a run, a queued message, a deferred write) has exactly the promised content.
  \<open>IsDeepEqual\<close> is assumed to decide structural equality.
\<close>

lemma delivered_entries_match_promises:
  assumes "\<forall>a b. deq a b \<longleftrightarrow> a = b" and "reduceLaneState deq input = Inr res"
    and "distinct (map e_id (sl_entries input))" and "r \<in> set (sl_records input)"
    and "target \<in> promised_targets (r_body r)" and "e \<in> set (sl_entries input)"
    and "e_id e = p_id target"
  shows "e_payload e = p_payload target"
proof -
  have "validateRecordLog deq input = Inr ()"
    using assms(2) by (auto simp: reduceLaneState_def split: sum.splits)
  then have "entry_agrees deq (map_entries_of e_id (sl_entries input)) target"
    using accepted_targets assms(4,5) validateRecordLog_ok by blast
  then have "deq \<lparr>p_id = e_id e, p_payload = e_payload e\<rparr> target"
    using map_get_entries_of [OF assms(3,6)] assms(7)
    by (simp add: entry_agrees_def matchesProvisionedEntry_def)
  then have "\<lparr>p_id = e_id e, p_payload = e_payload e\<rparr> = target" using assms(1) by blast
  then show ?thesis by auto
qed

definition delivered_input :: lane_reduction_input where
  "delivered_input = demo_input\<lparr>sl_entries := [demo_entry ''q'' 5 None]\<rparr>"

lemma delivered_entries_match_promises_witness:
  "(\<exists>res. reduceLaneState (=) delivered_input = Inr res) \<and>
   e_payload (demo_entry ''q'' 5 None) = demo_payload"
proof -
  have v: "validateRecordLog (=) delivered_input = Inr ()"
    by (simp add: delivered_input_def reducer_eval demo_input_def demo_records_def demo_entry_def
        demo_start_def demo_payload_def Let_def matchesProvisionedEntry_def)
  then obtain res where res: "reduceLaneState (=) delivered_input = Inr res"
    by (simp add: reduceLaneState_def Let_def)
  have "e_payload (demo_entry ''q'' 5 None) = p_payload \<lparr>p_id = ''q'', p_payload = demo_payload\<rparr>"
    by (rule delivered_entries_match_promises [OF _ res, where r = "demo_records ! 0"])
      (simp_all add: delivered_input_def demo_input_def demo_records_def demo_entry_def)
  then show ?thesis using res by simp
qed

end
