(* ===== verification/Js_String.thy ===== *)
theory Js_String
  imports Euler_Prelude
begin

text \<open>
  JavaScript strings as sequences of UTF-16 code units, and the platform's UTF-8 conversions that
  the sources call: \<open>TextEncoder\<close> (an unpaired surrogate becomes U+FFFD), \<open>TextDecoder\<close> with
  \<^verbatim>\<open>fatal: true, ignoreBOM: true\<close>, and \<^verbatim>\<open>Buffer.byteLength(s, "utf8")\<close>. The lemmas show
  that decoding inverts encoding and when the string itself comes back.
\<close>

unbundle bit_operations_syntax

type_synonym byte = "8 word"
type_synonym bytes = "byte list"
type_synonym code_unit = "16 word"
type_synonym js_string = "code_unit list"

definition byte_of :: "nat \<Rightarrow> byte" where
  "byte_of n = word_of_nat n"

definition unit_of :: "nat \<Rightarrow> code_unit" where
  "unit_of n = word_of_nat n"

section \<open>Code units and scalar values\<close>

definition is_high :: "code_unit \<Rightarrow> bool" where
  "is_high u \<longleftrightarrow> 0xD800 \<le> u \<and> u \<le> 0xDBFF"

definition is_low :: "code_unit \<Rightarrow> bool" where
  "is_low u \<longleftrightarrow> 0xDC00 \<le> u \<and> u \<le> 0xDFFF"

definition surrogate_pair :: "code_unit \<Rightarrow> code_unit \<Rightarrow> nat" where
  "surrogate_pair h l = 0x10000 + (unat h - 0xD800) * 0x400 + (unat l - 0xDC00)"

text \<open>The scalar values of a string, an unpaired surrogate replaced by U+FFFD.\<close>

fun scalars :: "js_string \<Rightarrow> nat list" where
  "scalars [] = []"
| "scalars [u] = [if is_high u \<or> is_low u then 0xFFFD else unat u]"
| "scalars (u # v # us) =
     (if is_high u \<and> is_low v then surrogate_pair u v # scalars us
      else (if is_high u \<or> is_low u then 0xFFFD else unat u) # scalars (v # us))"

fun well_formed :: "js_string \<Rightarrow> bool" where
  "well_formed [] \<longleftrightarrow> True"
| "well_formed [u] \<longleftrightarrow> \<not> is_high u \<and> \<not> is_low u"
| "well_formed (u # v # us) \<longleftrightarrow>
     (if is_high u \<and> is_low v then well_formed us
      else \<not> is_high u \<and> \<not> is_low u \<and> well_formed (v # us))"

definition scalar_value :: "nat \<Rightarrow> bool" where
  "scalar_value n \<longleftrightarrow> n < 0x110000 \<and> \<not> (0xD800 \<le> n \<and> n < 0xE000)"

definition utf16_of_scalar :: "nat \<Rightarrow> js_string" where
  "utf16_of_scalar n =
     (if n < 0x10000 then [unit_of n]
      else [unit_of (0xD800 + (n - 0x10000) div 0x400), unit_of (0xDC00 + (n - 0x10000) mod 0x400)])"

section \<open>UTF-8\<close>

definition utf8_of_scalar :: "nat \<Rightarrow> bytes" where
  "utf8_of_scalar n =
     (if n < 0x80 then [byte_of n]
      else if n < 0x800 then [byte_of (0xC0 + n div 64), byte_of (0x80 + n mod 64)]
      else if n < 0x10000
      then [byte_of (0xE0 + n div 4096), byte_of (0x80 + n div 64 mod 64),
            byte_of (0x80 + n mod 64)]
      else [byte_of (0xF0 + n div 262144), byte_of (0x80 + n div 4096 mod 64),
            byte_of (0x80 + n div 64 mod 64), byte_of (0x80 + n mod 64)])"

definition utf8_encode :: "js_string \<Rightarrow> bytes" where
  "utf8_encode s = concat (map utf8_of_scalar (scalars s))"

definition continuation :: "byte \<Rightarrow> bool" where
  "continuation b \<longleftrightarrow> 0x80 \<le> unat b \<and> unat b < 0xC0"

definition low_bits :: "byte \<Rightarrow> nat" where
  "low_bits b = unat b - 0x80"

fun utf8_next :: "bytes \<Rightarrow> (nat \<times> bytes) option" where
  "utf8_next [] = None"
| "utf8_next (b # bs) =
     (if unat b < 0x80 then Some (unat b, bs)
      else if unat b < 0xC0 then None
      else if unat b < 0xE0
      then (case bs of
              c # rest \<Rightarrow>
                let n = (unat b - 0xC0) * 64 + low_bits c
                in if continuation c \<and> 0x80 \<le> n then Some (n, rest) else None
            | _ \<Rightarrow> None)
      else if unat b < 0xF0
      then (case bs of
              c # c' # rest \<Rightarrow>
                let n = (unat b - 0xE0) * 4096 + low_bits c * 64 + low_bits c'
                in if continuation c \<and> continuation c' \<and> 0x800 \<le> n \<and> scalar_value n
                   then Some (n, rest) else None
            | _ \<Rightarrow> None)
      else (case bs of
              c # c' # c'' # rest \<Rightarrow>
                let n = (unat b - 0xF0) * 262144 + low_bits c * 4096 + low_bits c' * 64 + low_bits c''
                in if continuation c \<and> continuation c' \<and> continuation c'' \<and> 0x10000 \<le> n \<and> scalar_value n
                   then Some (n, rest) else None
            | _ \<Rightarrow> None))"

lemma utf8_next_shorter: "utf8_next bs = Some (n, rest) \<Longrightarrow> length rest < length bs"
  by (cases bs) (auto simp: Let_def split: if_splits list.splits)

function utf8_decode :: "bytes \<Rightarrow> nat list option" where
  "utf8_decode bs =
     (if bs = [] then Some []
      else (case utf8_next bs of
              None \<Rightarrow> None
            | Some (n, rest) \<Rightarrow> map_option (\<lambda>ns. n # ns) (utf8_decode rest)))"
  by pat_completeness auto
termination by (relation "measure length") (auto dest: utf8_next_shorter)

declare utf8_decode.simps [simp del]

definition text_decode :: "bytes \<Rightarrow> js_string option" where
  "text_decode bs = map_option (\<lambda>ns. concat (map utf16_of_scalar ns)) (utf8_decode bs)"

section \<open>Round trips\<close>

lemma high_low_disjoint: "is_high u \<Longrightarrow> \<not> is_low u"
  by (auto simp: is_high_def is_low_def word_le_nat_alt)

lemma high_bounds: "is_high u \<longleftrightarrow> 0xD800 \<le> unat u \<and> unat u < 0xDC00"
  by (auto simp: is_high_def word_le_nat_alt)

lemma low_bounds: "is_low u \<longleftrightarrow> 0xDC00 \<le> unat u \<and> unat u < 0xE000"
  by (auto simp: is_low_def word_le_nat_alt)

lemma unat_code_unit: "unat (u :: code_unit) < 0x10000"
  using unsigned_less [of u] by simp

lemma single_scalar: "scalar_value (if is_high u \<or> is_low u then 0xFFFD else unat u)"
  using unat_code_unit [of u] by (auto simp: scalar_value_def high_bounds low_bounds)

lemma pair_scalar: "is_high u \<Longrightarrow> is_low v \<Longrightarrow> scalar_value (surrogate_pair u v)"
  unfolding scalar_value_def surrogate_pair_def high_bounds low_bounds by arith

lemma scalars_are_scalar_values: "\<forall>n \<in> set (scalars s). scalar_value n"
proof (induction s rule: scalars.induct)
  case (2 u)
  then show ?case using single_scalar [of u] by simp
next
  case (3 u v us)
  then show ?case using single_scalar [of u] pair_scalar [of u v] by simp
qed simp

lemma unat_byte: "n < 256 \<Longrightarrow> unat (byte_of n) = n"
  by (simp add: byte_of_def unsigned_of_nat take_bit_eq_mod)

lemma unit_of_unat [simp]: "unit_of (unat u) = u"
  by (simp add: unit_of_def)

lemma unat_unit: "n < 65536 \<Longrightarrow> unat (unit_of n) = n"
  by (simp add: unit_of_def unsigned_of_nat take_bit_eq_mod)

lemma split64:
  fixes n :: nat
  shows "n div 64 * 64 + n mod 64 = n"
    "n div 4096 * 4096 + n div 64 mod 64 * 64 + n mod 64 = n"
    "n div 262144 * 262144 + n div 4096 mod 64 * 4096 + n div 64 mod 64 * 64 + n mod 64 = n"
proof -
  have d: "n div 4096 = n div 64 div 64" "n div 262144 = n div 64 div 64 div 64"
    by (simp_all flip: div_mult2_eq)
  note s = div_mult_mod_eq [of n 64] div_mult_mod_eq [of "n div 64" 64]
    div_mult_mod_eq [of "n div 64 div 64" 64]
  show "n div 64 * 64 + n mod 64 = n" using s by linarith
  show "n div 4096 * 4096 + n div 64 mod 64 * 64 + n mod 64 = n" unfolding d using s by linarith
  show "n div 262144 * 262144 + n div 4096 mod 64 * 4096 + n div 64 mod 64 * 64 + n mod 64 = n"
    unfolding d using s by linarith
qed

lemma utf8_next_encoded:
  assumes "scalar_value n"
  shows "utf8_next (utf8_of_scalar n @ rest) = Some (n, rest)"
proof -
  have lt: "n < 0x110000" using assms by (simp add: scalar_value_def)
  consider "n < 0x80" | "0x80 \<le> n" "n < 0x800" | "0x800 \<le> n" "n < 0x10000" | "0x10000 \<le> n" by linarith
  then show ?thesis
  proof cases
    case 1
    then show ?thesis by (simp add: utf8_of_scalar_def unat_byte)
  next
    case 2
    then have d: "n div 64 < 32" by (simp add: less_mult_imp_div_less)
    then show ?thesis
      using 2 split64(1) [of n]
      by (simp add: utf8_of_scalar_def unat_byte continuation_def low_bits_def Let_def d)
  next
    case 3
    then have d: "n div 4096 < 16" by (simp add: less_mult_imp_div_less)
    then show ?thesis
      using 3 split64(2) [of n] assms
      by (simp add: utf8_of_scalar_def unat_byte continuation_def low_bits_def Let_def d)
  next
    case 4
    define q where "q = n div 262144"
    define c1 where "c1 = n div 4096 mod 64"
    define c2 where "c2 = n div 64 mod 64"
    define c3 where "c3 = n mod 64"
    have enc: "utf8_of_scalar n = [byte_of (0xF0 + q), byte_of (0x80 + c1), byte_of (0x80 + c2), byte_of (0x80 + c3)]"
      using 4 by (simp add: utf8_of_scalar_def q_def c1_def c2_def c3_def)
    have n: "q * 262144 + c1 * 4096 + c2 * 64 + c3 = n"
      unfolding q_def c1_def c2_def c3_def by (rule split64(3))
    have "c1 < 64" "c2 < 64" "c3 < 64" by (simp_all add: c1_def c2_def c3_def)
    moreover have "q < 8" using lt unfolding q_def by (simp add: less_mult_imp_div_less)
    ultimately show ?thesis
      using 4 n assms enc by (simp add: unat_byte continuation_def low_bits_def Let_def)
  qed
qed

lemma utf8_of_scalar_nonempty [simp]: "utf8_of_scalar n \<noteq> []"
  by (simp add: utf8_of_scalar_def)

lemma utf8_decode_scalars:
  "\<forall>n \<in> set ns. scalar_value n \<Longrightarrow> utf8_decode (concat (map utf8_of_scalar ns)) = Some ns"
proof (induction ns)
  case Nil
  then show ?case by (simp add: utf8_decode.simps)
next
  case (Cons n ns)
  then show ?case
    using utf8_next_encoded [of n "concat (map utf8_of_scalar ns)"]
    by (subst utf8_decode.simps) simp
qed

lemma utf8_decode_encode: "utf8_decode (utf8_encode s) = Some (scalars s)"
  unfolding utf8_encode_def by (rule utf8_decode_scalars [OF scalars_are_scalar_values])

text \<open>The string that decoding the encoded bytes gives: the original with U+FFFD for unpaired surrogates.\<close>

definition replaced :: "js_string \<Rightarrow> js_string" where
  "replaced s = concat (map utf16_of_scalar (scalars s))"

lemma text_decode_encode: "text_decode (utf8_encode s) = Some (replaced s)"
  by (simp add: text_decode_def utf8_decode_encode replaced_def)

lemma utf16_pair:
  assumes "is_high u" "is_low v"
  shows "utf16_of_scalar (surrogate_pair u v) = [u, v]"
proof -
  have b: "0xD800 \<le> unat u" "unat u < 0xDC00" "0xDC00 \<le> unat v" "unat v < 0xE000"
    using assms by (simp_all add: high_bounds low_bounds)
  obtain a c where ac: "unat u = 0xD800 + a" "unat v = 0xDC00 + c" "a < 0x400" "c < 0x400"
    using b that [of "unat u - 0xD800" "unat v - 0xDC00"] by simp
  have "(a * 0x400 + c) div 0x400 = a" "(a * 0x400 + c) mod 0x400 = c" using ac by simp_all
  then have "utf16_of_scalar (surrogate_pair u v) = [unit_of (unat u), unit_of (unat v)]"
    using ac by (simp add: utf16_of_scalar_def surrogate_pair_def)
  then show ?thesis by simp
qed

lemma utf16_single: "utf16_of_scalar (unat u) = [u]" for u :: code_unit
  using unat_code_unit [of u] by (simp add: utf16_of_scalar_def)

lemma replaced_well_formed: "well_formed s \<Longrightarrow> replaced s = s"
  by (induction s rule: well_formed.induct)
    (auto simp: replaced_def utf16_pair utf16_single split: if_splits)

end
