(* ===== verification/Truncate.thy ===== *)
theory Truncate
  imports Js_String
begin

text \<open>
  Truncation of tool output (\<^verbatim>\<open>packages/agent/src/harness/utils/truncate.ts\<close>). Strings are
  UTF-16 code units; limits are integers. The flag \<open>buf\<close> says whether the runtime has
  \<open>Buffer\<close>; without it \<open>utf8ByteLength\<close> counts by hand. \<open>truncateHead\<close> reads \<^verbatim>\<open>lines[0]\<close>,
  which does not exist for an empty text: that call throws and is \<open>Inl\<close> here.
\<close>

section \<open>Byte length and lines\<close>

definition DEFAULT_MAX_LINES :: int where
  "DEFAULT_MAX_LINES = 2000"

definition DEFAULT_MAX_BYTES :: int where
  "DEFAULT_MAX_BYTES = 50 * 1024"

definition GREP_MAX_LINE_LENGTH :: int where
  "GREP_MAX_LINE_LENGTH = 500"

definition newline :: code_unit where
  "newline = 10"

fun count_bytes :: "js_string \<Rightarrow> nat" where
  "count_bytes [] = 0"
| "count_bytes [u] = (if u \<le> 0x7F then 1 else if u \<le> 0x7FF then 2 else 3)"
| "count_bytes (u # v # us) =
     (if u \<le> 0x7F then 1 + count_bytes (v # us)
      else if u \<le> 0x7FF then 2 + count_bytes (v # us)
      else if is_high u
      then (if is_low v then 4 + count_bytes us else 3 + count_bytes (v # us))
      else 3 + count_bytes (v # us))"

definition ascii_prefix :: "js_string \<Rightarrow> nat" where
  "ascii_prefix content = length (takeWhile (\<lambda>u. u \<le> 0x7F) content)"

definition utf8ByteLength :: "bool \<Rightarrow> js_string \<Rightarrow> nat" where
  "utf8ByteLength buf content =
     (if buf then length (utf8_encode content)
      else
        (let firstNonAscii = ascii_prefix content
         in if firstNonAscii = length content then length content
            else firstNonAscii + count_bytes (drop firstNonAscii content)))"

fun split_newlines :: "js_string \<Rightarrow> js_string list" where
  "split_newlines [] = [[]]"
| "split_newlines (u # us) =
     (if u = newline then [] # split_newlines us
      else (case split_newlines us of [] \<Rightarrow> [[u]] | l # ls \<Rightarrow> (u # l) # ls))"

definition splitLinesForCounting :: "js_string \<Rightarrow> js_string list" where
  "splitLinesForCounting content =
     (if content = [] then []
      else (let lines = split_newlines content
            in if last content = newline then butlast lines else lines))"

fun join_newlines :: "js_string list \<Rightarrow> js_string" where
  "join_newlines [] = []"
| "join_newlines [l] = l"
| "join_newlines (l # ls) = l @ newline # join_newlines ls"

fun replaceUnpairedSurrogates :: "js_string \<Rightarrow> js_string" where
  "replaceUnpairedSurrogates [] = []"
| "replaceUnpairedSurrogates [u] = [if is_high u \<or> is_low u then 0xFFFD else u]"
| "replaceUnpairedSurrogates (u # v # us) =
     (if is_high u
      then (if is_low v then u # v # replaceUnpairedSurrogates us
            else 0xFFFD # replaceUnpairedSurrogates (v # us))
      else if is_low u then 0xFFFD # replaceUnpairedSurrogates (v # us)
      else u # replaceUnpairedSurrogates (v # us))"

section \<open>Results\<close>

datatype truncated_by = ByLines | ByBytes

record truncation_options =
  to_maxLines :: "int option"
  to_maxBytes :: "int option"

record truncation_result =
  tr_text :: js_string
  tr_truncated :: bool
  tr_truncatedBy :: "truncated_by option"
  tr_totalLines :: nat
  tr_totalBytes :: nat
  tr_outputLines :: nat
  tr_outputBytes :: nat
  tr_lastLinePartial :: bool
  tr_firstLineExceedsLimit :: bool
  tr_maxLines :: int
  tr_maxBytes :: int

definition formatSize :: "nat \<Rightarrow> string" where
  "formatSize bytes =
     (if bytes < 1024 then decimal bytes @ ''B''
      else if bytes < 1024 * 1024
      then (let n = (bytes * 10 + 512) div 1024 in decimal (n div 10) @ ''.'' @ decimal (n mod 10) @ ''KB'')
      else (let n = (bytes * 10 + 524288) div 1048576
            in decimal (n div 10) @ ''.'' @ decimal (n mod 10) @ ''MB''))"

definition untruncated ::
    "js_string \<Rightarrow> nat \<Rightarrow> nat \<Rightarrow> int \<Rightarrow> int \<Rightarrow> truncation_result" where
  "untruncated content totalLines totalBytes maxLines maxBytes =
     \<lparr>tr_text = content, tr_truncated = False, tr_truncatedBy = None, tr_totalLines = totalLines,
      tr_totalBytes = totalBytes, tr_outputLines = totalLines, tr_outputBytes = totalBytes,
      tr_lastLinePartial = False, tr_firstLineExceedsLimit = False, tr_maxLines = maxLines,
      tr_maxBytes = maxBytes\<rparr>"

section \<open>Head truncation\<close>

text \<open>The loop over the lines: the lines kept, their byte count, and what stopped it.\<close>

fun head_loop ::
    "bool \<Rightarrow> int \<Rightarrow> int \<Rightarrow> nat \<Rightarrow> js_string list \<Rightarrow> nat \<Rightarrow> js_string list \<times> nat \<times> truncated_by" where
  "head_loop buf maxLines maxBytes i [] used = ([], used, ByLines)"
| "head_loop buf maxLines maxBytes i (line # lines) used =
     (if \<not> int i < maxLines then ([], used, ByLines)
      else
        (let lineBytes = utf8ByteLength buf line + (if 0 < i then 1 else 0)
         in if maxBytes < int (used + lineBytes) then ([], used, ByBytes)
            else (case head_loop buf maxLines maxBytes (i + 1) lines (used + lineBytes) of
                    (ls, n, by) \<Rightarrow> (line # ls, n, by))))"

datatype js_error = TypeError

definition truncateHead ::
    "bool \<Rightarrow> js_string \<Rightarrow> truncation_options \<Rightarrow> js_error + truncation_result" where
  "truncateHead buf content opts =
     (let maxLines = (case to_maxLines opts of None \<Rightarrow> DEFAULT_MAX_LINES | Some n \<Rightarrow> n);
          maxBytes = (case to_maxBytes opts of None \<Rightarrow> DEFAULT_MAX_BYTES | Some n \<Rightarrow> n);
          totalBytes = utf8ByteLength buf content;
          lines = splitLinesForCounting content;
          totalLines = length lines
      in if int totalLines \<le> maxLines \<and> int totalBytes \<le> maxBytes
         then Inr (untruncated content totalLines totalBytes maxLines maxBytes)
         else if lines = [] then Inl TypeError
         else if maxBytes < int (utf8ByteLength buf (lines ! 0))
         then Inr \<lparr>tr_text = [], tr_truncated = True, tr_truncatedBy = Some ByBytes,
                tr_totalLines = totalLines, tr_totalBytes = totalBytes, tr_outputLines = 0,
                tr_outputBytes = 0, tr_lastLinePartial = False, tr_firstLineExceedsLimit = True,
                tr_maxLines = maxLines, tr_maxBytes = maxBytes\<rparr>
         else
           (case head_loop buf maxLines maxBytes 0 lines 0 of
              (outputLinesArr, outputBytesCount, stoppedBy) \<Rightarrow>
                (let truncatedBy = (if maxLines \<le> int (length outputLinesArr) \<and>
                       int outputBytesCount \<le> maxBytes then ByLines else stoppedBy);
                     outputContent = join_newlines outputLinesArr
                 in Inr \<lparr>tr_text = outputContent, tr_truncated = True, tr_truncatedBy = Some truncatedBy,
                       tr_totalLines = totalLines, tr_totalBytes = totalBytes,
                       tr_outputLines = length outputLinesArr,
                       tr_outputBytes = utf8ByteLength buf outputContent, tr_lastLinePartial = False,
                       tr_firstLineExceedsLimit = False, tr_maxLines = maxLines, tr_maxBytes = maxBytes\<rparr>)))"

section \<open>Tail truncation\<close>

text \<open>
  The backward scan over the code units: how many are taken and whether an unpaired surrogate is
  among them. The argument is the rest of the string, last unit first.
\<close>

fun scan_back :: "int \<Rightarrow> nat \<Rightarrow> js_string \<Rightarrow> nat \<times> bool" where
  "scan_back maxBytes outputBytes [] = (0, False)"
| "scan_back maxBytes outputBytes [u] =
     (let bytes = (if is_high u \<or> is_low u then 3 else if u \<le> 0x7F then 1 else if u \<le> 0x7FF then 2 else 3)
      in if maxBytes < int (outputBytes + bytes) then (0, False) else (1, is_high u \<or> is_low u))"
| "scan_back maxBytes outputBytes (u # p # us) =
     (if is_low u \<and> is_high p
      then (if maxBytes < int (outputBytes + 4) then (0, False)
            else (case scan_back maxBytes (outputBytes + 4) us of (n, r) \<Rightarrow> (n + 2, r)))
      else
        (let bytes = (if is_high u \<or> is_low u then 3 else if u \<le> 0x7F then 1 else if u \<le> 0x7FF then 2 else 3)
         in if maxBytes < int (outputBytes + bytes) then (0, False)
            else (case scan_back maxBytes (outputBytes + bytes) (p # us) of
                    (n, r) \<Rightarrow> (n + 1, (is_high u \<or> is_low u) \<or> r))))"

definition truncateStringToBytesFromEnd :: "js_string \<Rightarrow> int \<Rightarrow> js_string" where
  "truncateStringToBytesFromEnd str maxBytes =
     (if maxBytes \<le> 0 then []
      else (case scan_back maxBytes 0 (rev str) of
              (n, needsReplacement) \<Rightarrow>
                (let output = drop (length str - n) str
                 in if needsReplacement then replaceUnpairedSurrogates output else output)))"

text \<open>The loop over the lines from the last one; the argument lists them last first.\<close>

fun tail_loop ::
    "bool \<Rightarrow> int \<Rightarrow> int \<Rightarrow> js_string list \<Rightarrow> js_string list \<Rightarrow> nat \<Rightarrow>
     js_string list \<times> nat \<times> truncated_by \<times> bool" where
  "tail_loop buf maxLines maxBytes [] out used = (out, used, ByLines, False)"
| "tail_loop buf maxLines maxBytes (line # before) out used =
     (if \<not> int (length out) < maxLines then (out, used, ByLines, False)
      else
        (let lineBytes = utf8ByteLength buf line + (if 0 < length out then 1 else 0)
         in if maxBytes < int (used + lineBytes)
            then (if length out = 0
                  then (let truncatedLine = truncateStringToBytesFromEnd line maxBytes
                        in ([truncatedLine], utf8ByteLength buf truncatedLine, ByBytes, True))
                  else (out, used, ByBytes, False))
            else tail_loop buf maxLines maxBytes before (line # out) (used + lineBytes)))"

definition truncateTail :: "bool \<Rightarrow> js_string \<Rightarrow> truncation_options \<Rightarrow> truncation_result" where
  "truncateTail buf content opts =
     (let maxLines = (case to_maxLines opts of None \<Rightarrow> DEFAULT_MAX_LINES | Some n \<Rightarrow> n);
          maxBytes = (case to_maxBytes opts of None \<Rightarrow> DEFAULT_MAX_BYTES | Some n \<Rightarrow> n);
          totalBytes = utf8ByteLength buf content;
          lines = splitLinesForCounting content;
          totalLines = length lines
      in if int totalLines \<le> maxLines \<and> int totalBytes \<le> maxBytes
         then untruncated content totalLines totalBytes maxLines maxBytes
         else
           (case tail_loop buf maxLines maxBytes (rev lines) [] 0 of
              (outputLinesArr, outputBytesCount, stoppedBy, lastLinePartial) \<Rightarrow>
                (let truncatedBy = (if maxLines \<le> int (length outputLinesArr) \<and>
                       int outputBytesCount \<le> maxBytes then ByLines else stoppedBy);
                     outputContent = join_newlines outputLinesArr
                 in \<lparr>tr_text = outputContent, tr_truncated = True, tr_truncatedBy = Some truncatedBy,
                      tr_totalLines = totalLines, tr_totalBytes = totalBytes,
                      tr_outputLines = length outputLinesArr,
                      tr_outputBytes = utf8ByteLength buf outputContent,
                      tr_lastLinePartial = lastLinePartial, tr_firstLineExceedsLimit = False,
                      tr_maxLines = maxLines, tr_maxBytes = maxBytes\<rparr>)))"

text \<open>\<^verbatim>\<open>line.slice(0, n)\<close> counts a negative \<open>n\<close> from the end.\<close>

definition slice_to :: "js_string \<Rightarrow> int \<Rightarrow> js_string" where
  "slice_to s n = (if n < 0 then take (nat (int (length s) + n)) s else take (nat n) s)"

definition js_ascii :: "string \<Rightarrow> js_string" where
  "js_ascii s = map (\<lambda>c. word_of_nat (of_char c)) s"

definition truncateLine :: "js_string \<Rightarrow> int \<Rightarrow> js_string \<times> bool" where
  "truncateLine line maxChars =
     (if int (length line) \<le> maxChars then (line, False)
      else (slice_to line maxChars @ js_ascii ''... [truncated]'', True))"

section \<open>Byte lengths\<close>

abbreviation byte_size :: "js_string \<Rightarrow> nat" where
  "byte_size s \<equiv> length (utf8_encode s)"

definition unit_bytes :: "code_unit \<Rightarrow> nat" where
  "unit_bytes u = (if u \<le> 0x7F then 1 else if u \<le> 0x7FF then 2 else 3)"

lemma surrogate_bytes:
  "is_high u \<Longrightarrow> \<not> u \<le> 0x7F" "is_high u \<Longrightarrow> \<not> u \<le> 0x7FF"
  "is_low u \<Longrightarrow> \<not> u \<le> 0x7F" "is_low u \<Longrightarrow> \<not> u \<le> 0x7FF"
  by (auto simp: high_bounds low_bounds word_le_nat_alt)

lemma length_utf8_unit: "\<not> is_high u \<Longrightarrow> \<not> is_low u \<Longrightarrow> length (utf8_of_scalar (unat u)) = unit_bytes u"
  using unat_code_unit [of u] by (auto simp: utf8_of_scalar_def unit_bytes_def word_le_nat_alt)

lemma length_utf8_pair: "is_high u \<Longrightarrow> is_low v \<Longrightarrow> length (utf8_of_scalar (surrogate_pair u v)) = 4"
  by (simp add: utf8_of_scalar_def surrogate_pair_def)

lemma length_utf8_replacement: "length (utf8_of_scalar 0xFFFD) = 3"
  by (simp add: utf8_of_scalar_def)

lemma count_bytes_eq: "count_bytes s = byte_size s"
proof (induction s rule: count_bytes.induct)
  case (2 u)
  then show ?case
    using length_utf8_unit [of u] surrogate_bytes [of u]
    by (auto simp: utf8_encode_def unit_bytes_def length_utf8_replacement)
next
  case (3 u v us)
  then show ?case
    using length_utf8_unit [of u] length_utf8_pair [of u v] surrogate_bytes [of u]
    by (auto simp: utf8_encode_def unit_bytes_def length_utf8_replacement)
qed (simp add: utf8_encode_def)

lemma byte_size_simps [simp]:
  "byte_size [] = 0"
  "is_high u \<Longrightarrow> is_low v \<Longrightarrow> byte_size (u # v # s) = 4 + byte_size s"
  using surrogate_bytes [of u] by (simp_all flip: count_bytes_eq)

lemma byte_size_Cons:
  "\<not> (is_high u \<and> s \<noteq> [] \<and> is_low (hd s)) \<Longrightarrow> byte_size (u # s) = unit_bytes u + byte_size s"
  using surrogate_bytes [of u] by (cases s) (auto simp: unit_bytes_def simp flip: count_bytes_eq)

lemma byte_size_append:
  "ys = [] \<or> \<not> is_low (hd ys) \<Longrightarrow> byte_size (xs @ ys) = byte_size xs + byte_size ys"
proof (induction xs rule: count_bytes.induct)
  case (2 u)
  then show ?case using byte_size_Cons [of u ys] byte_size_Cons [of u "[]"] by simp
next
  case (3 u v us)
  show ?case
  proof (cases "is_high u \<and> is_low v")
    case True
    then show ?thesis using 3 surrogate_bytes [of u] by simp
  next
    case False
    then have "byte_size (v # us @ ys) = byte_size (v # us) + byte_size ys"
      using 3 surrogate_bytes [of u] by (cases "u \<le> 0x7F"; cases "u \<le> 0x7FF") auto
    then show ?thesis
      using False byte_size_Cons [of u "v # us @ ys"] byte_size_Cons [of u "v # us"] by simp
  qed
qed simp

lemma ascii_bytes: "\<forall>u \<in> set xs. u \<le> 0x7F \<Longrightarrow> byte_size (xs @ ys) = length xs + byte_size ys"
proof (induction xs)
  case (Cons u xs)
  then show ?case
    using byte_size_Cons [of u "xs @ ys"] surrogate_bytes [of u] by (auto simp: unit_bytes_def)
qed simp

lemma utf8ByteLength_eq: "utf8ByteLength buf s = byte_size s"
proof (cases buf)
  case True
  then show ?thesis by (simp add: utf8ByteLength_def)
next
  case False
  let ?a = "takeWhile (\<lambda>u. u \<le> 0x7F) s"
  have a: "\<forall>u \<in> set ?a. u \<le> 0x7F" by (auto dest: set_takeWhileD)
  have drop: "drop (length ?a) s = dropWhile (\<lambda>u. u \<le> 0x7F) s" by (simp add: dropWhile_eq_drop)
  have "byte_size s = length ?a + byte_size (drop (length ?a) s)"
    using ascii_bytes [OF a, of "drop (length ?a) s"] drop by simp
  moreover have "length ?a = length s \<Longrightarrow> drop (length ?a) s = []" by simp
  ultimately show ?thesis
    using False by (auto simp: utf8ByteLength_def ascii_prefix_def count_bytes_eq Let_def)
qed

lemma replaceUnpaired_well_formed: "well_formed s \<Longrightarrow> replaceUnpairedSurrogates s = s"
  by (induction s rule: well_formed.induct) (auto split: if_splits)

lemma replacement_unit: "\<not> is_high 0xFFFD" "\<not> is_low 0xFFFD" "unit_bytes 0xFFFD = 3"
  by (simp_all add: is_high_def is_low_def unit_bytes_def)

lemma byte_size_replaceUnpaired: "byte_size (replaceUnpairedSurrogates s) = byte_size s"
proof (induction s rule: replaceUnpairedSurrogates.induct)
  case (2 u)
  then show ?case
    using byte_size_Cons [of u "[]"] byte_size_Cons [of "0xFFFD" "[]"] replacement_unit surrogate_bytes [of u]
    by (auto simp: unit_bytes_def)
next
  case (3 u v us)
  then show ?case
    using byte_size_Cons [of u "v # us"] byte_size_Cons [of "0xFFFD"] replacement_unit
      byte_size_Cons [of u "replaceUnpairedSurrogates (v # us)"] surrogate_bytes [of u]
    by (auto simp: unit_bytes_def)
qed simp

section \<open>Lines\<close>

lemma split_newlines_nonempty [simp]: "split_newlines s \<noteq> []"
  by (induction s) (auto split: list.splits)

lemma join_newlines_Cons: "ls \<noteq> [] \<Longrightarrow> join_newlines (l # ls) = l @ newline # join_newlines ls"
  by (cases ls) auto

lemma join_split [simp]: "join_newlines (split_newlines s) = s"
proof (induction s)
  case (Cons u us)
  then show ?case
  proof (cases "split_newlines us")
    case (Cons l ls)
    with \<open>join_newlines (split_newlines us) = us\<close> show ?thesis
      by (cases ls) (auto simp: join_newlines_Cons)
  qed simp
qed simp

lemma join_newlines_snoc:
  "join_newlines (ls @ [l]) = (if ls = [] then l else join_newlines ls @ newline # l)"
  by (induction ls) (auto simp: join_newlines_Cons)

lemma split_newlines_snoc_newline: "split_newlines (s @ [newline]) = split_newlines s @ [[]]"
  by (induction s) (auto split: list.splits)

lemma join_lines:
  "content = join_newlines (splitLinesForCounting content) \<or>
   content = join_newlines (splitLinesForCounting content) @ [newline]"
proof (cases content rule: rev_cases)
  case (snoc s u)
  then show ?thesis
    by (cases "u = newline") (auto simp: splitLinesForCounting_def split_newlines_snoc_newline Let_def)
qed (simp add: splitLinesForCounting_def)

lemma newline_unit: "\<not> is_low newline" "\<not> is_high newline" "unit_bytes newline = 1"
  by (simp_all add: newline_def is_low_def is_high_def unit_bytes_def)

lemma byte_size_newline: "byte_size (xs @ newline # ys) = byte_size xs + 1 + byte_size ys"
  using byte_size_append [of "newline # ys" xs] byte_size_Cons [of newline ys] newline_unit by simp

lemma byte_size_join_snoc:
  "byte_size (join_newlines (ls @ [l])) = byte_size (join_newlines ls) + byte_size l + (if ls \<noteq> [] then 1 else 0)"
  by (simp add: join_newlines_snoc byte_size_newline)

lemma byte_size_join_Cons:
  "byte_size (join_newlines (l # ls)) = byte_size (join_newlines ls) + byte_size l + (if ls \<noteq> [] then 1 else 0)"
  by (cases ls) (simp_all add: byte_size_newline)

section \<open>The loops\<close>

lemma head_loop_spec:
  assumes "head_loop buf maxLines maxBytes (length acc) lines (byte_size (join_newlines acc)) = (ls, n, stop)"
    and "int (byte_size (join_newlines acc)) \<le> maxBytes"
  shows "\<exists>k \<le> length lines. ls = take k lines \<and> n = byte_size (join_newlines (acc @ ls)) \<and> int n \<le> maxBytes \<and>
    (0 < k \<longrightarrow> int (length acc + k) \<le> maxLines) \<and>
    (if k < length lines \<and> int (length acc + k) < maxLines
     then maxBytes < int (byte_size (join_newlines (acc @ take (Suc k) lines))) \<and> stop = ByBytes
     else stop = ByLines)"
  using assms
proof (induction lines arbitrary: acc ls)
  case Nil
  then show ?case by simp
next
  case (Cons l lines)
  let ?size = "byte_size (join_newlines (acc @ [l]))"
  have size: "byte_size (join_newlines acc) + (utf8ByteLength buf l + (if 0 < length acc then 1 else 0)) = ?size"
    by (simp add: byte_size_join_snoc utf8ByteLength_eq)
  have step: "head_loop buf maxLines maxBytes (length acc) (l # lines) (byte_size (join_newlines acc)) =
      (if \<not> int (length acc) < maxLines then ([], byte_size (join_newlines acc), ByLines)
       else if maxBytes < int ?size then ([], byte_size (join_newlines acc), ByBytes)
       else (case head_loop buf maxLines maxBytes (length (acc @ [l])) lines ?size of
               (ls, n, stop) \<Rightarrow> (l # ls, n, stop)))"
    by (simp only: head_loop.simps Let_def size length_append_singleton Suc_eq_plus1)
  consider (full) "\<not> int (length acc) < maxLines" | (big) "int (length acc) < maxLines" "maxBytes < int ?size"
    | (fits) "int (length acc) < maxLines" "int ?size \<le> maxBytes" by linarith
  then show ?case
  proof cases
    case full
    then show ?thesis using Cons.prems unfolding step by (intro exI [of _ 0]) auto
  next
    case big
    then show ?thesis using Cons.prems unfolding step by (intro exI [of _ 0]) auto
  next
    case fits
    obtain ls' where ls': "head_loop buf maxLines maxBytes (length (acc @ [l])) lines ?size = (ls', n, stop)"
      "ls = l # ls'"
      using Cons.prems(1) fits unfolding step by (auto split: prod.splits)
    then obtain k where k: "k \<le> length lines" "ls' = take k lines" "n = byte_size (join_newlines ((acc @ [l]) @ ls'))"
      "int n \<le> maxBytes" "0 < k \<longrightarrow> int (length (acc @ [l]) + k) \<le> maxLines"
      "if k < length lines \<and> int (length (acc @ [l]) + k) < maxLines
       then maxBytes < int (byte_size (join_newlines ((acc @ [l]) @ take (Suc k) lines))) \<and> stop = ByBytes
       else stop = ByLines"
      using Cons.IH [OF ls'(1) fits(2)] by blast
    then show ?thesis using ls'(2) fits(1) by (intro exI [of _ "Suc k"]) auto
  qed
qed

text \<open>The backward scan keeps the bytes of what it takes within the limit.\<close>

definition cut_ok :: "js_string \<Rightarrow> js_string \<Rightarrow> bool" where
  "cut_ok bk ys \<longleftrightarrow> \<not> (bk \<noteq> [] \<and> is_high (hd bk) \<and> ys \<noteq> [] \<and> is_low (hd ys))"

lemma unit_bytes_surrogate: "is_high u \<or> is_low u \<Longrightarrow> unit_bytes u = 3"
  using surrogate_bytes [of u] by (auto simp: unit_bytes_def)

lemma well_formed_Cons: "\<not> is_high u \<Longrightarrow> \<not> is_low u \<Longrightarrow> well_formed s \<Longrightarrow> well_formed (u # s)"
  by (cases s) auto

lemma scan_back_spec:
  assumes "scan_back maxBytes (byte_size ys) bk = (n, r)" "int (byte_size ys) \<le> maxBytes" "cut_ok bk ys"
  shows "n \<le> length bk \<and> int (byte_size (rev (take n bk) @ ys)) \<le> maxBytes \<and>
    (well_formed ys \<and> \<not> r \<longrightarrow> well_formed (rev (take n bk) @ ys))"
  using assms
proof (induction maxBytes "byte_size ys" bk arbitrary: ys n r rule: scan_back.induct)
  case (1 maxBytes ys n r)
  then show ?case by simp
next
  case (2 maxBytes u ys n r)
  have size: "byte_size (u # ys) = byte_size ys + unit_bytes u"
    using 2(3) byte_size_Cons [of u ys] by (auto simp: cut_ok_def)
  have ub: "(if is_high u \<or> is_low u then 3 else if u \<le> 0x7F then 1 else if u \<le> 0x7FF then 2 else 3) = unit_bytes u"
    using surrogate_bytes [of u] by (auto simp: unit_bytes_def)
  show ?case
    using 2(1,2) size well_formed_Cons [of u ys] by (auto simp: Let_def ub split: if_splits)
next
  case (3 maxBytes u p us ys n r)
  show ?case
  proof (cases "is_low u \<and> is_high p")
    case True
    show ?thesis
    proof (cases "maxBytes < int (byte_size ys + 4)")
      case big: True
      then show ?thesis using 3(3,4) True by auto
    next
      case False
      obtain n' r' where r': "scan_back maxBytes (byte_size (p # u # ys)) us = (n', r')" "n = n' + 2" "r = r'"
        using 3(3) True False by (auto simp: add.commute split: prod.splits)
      have "cut_ok us (p # u # ys)" using True high_low_disjoint [of p] by (auto simp: cut_ok_def)
      then show ?thesis
        using 3(1) [OF True False _ r'(1)] r'(2,3) True False by (simp add: add.commute)
    qed
  next
    case False
    have size: "byte_size (u # ys) = byte_size ys + unit_bytes u"
      using 3(5) byte_size_Cons [of u ys] by (auto simp: cut_ok_def)
    have ub: "(if is_high u \<or> is_low u then 3 else if u \<le> 0x7F then 1 else if u \<le> 0x7FF then 2 else 3) = unit_bytes u"
      using surrogate_bytes [of u] by (auto simp: unit_bytes_def)
    show ?thesis
    proof (cases "maxBytes < int (byte_size ys + unit_bytes u)")
      case big: True
      then show ?thesis using 3(3,4) False by (auto simp: Let_def ub)
    next
      case fits: False
      obtain n' r' where r': "scan_back maxBytes (byte_size (u # ys)) (p # us) = (n', r')" "n = n' + 1"
        "r = ((is_high u \<or> is_low u) \<or> r')"
        using 3(3) False fits size by (auto simp: Let_def ub split: prod.splits)
      have "cut_ok (p # us) (u # ys)" using False by (auto simp: cut_ok_def)
      then show ?thesis
        using 3(2) [OF False refl _ _ r'(1)] r'(2,3) fits size ub well_formed_Cons [of u ys] by auto
    qed
  qed
qed

lemma truncateStringToBytesFromEnd_spec:
  assumes "0 \<le> maxBytes"
  shows "\<exists>k. truncateStringToBytesFromEnd s maxBytes = replaceUnpairedSurrogates (drop k s) \<and>
    int (byte_size (truncateStringToBytesFromEnd s maxBytes)) \<le> maxBytes"
proof (cases "maxBytes \<le> 0")
  case True
  then show ?thesis
    using assms by (intro exI [of _ "length s"]) (simp add: truncateStringToBytesFromEnd_def)
next
  case False
  obtain n r where nr: "scan_back maxBytes 0 (rev s) = (n, r)" by fastforce
  have suffix: "rev (take n (rev s)) = drop (length s - n) s" by (simp add: rev_take)
  have spec: "int (byte_size (drop (length s - n) s)) \<le> maxBytes" "\<not> r \<longrightarrow> well_formed (drop (length s - n) s)"
    using scan_back_spec [of maxBytes "[]" "rev s" n r] nr assms suffix by (simp_all add: cut_ok_def)
  have "truncateStringToBytesFromEnd s maxBytes = replaceUnpairedSurrogates (drop (length s - n) s)"
    using False nr spec(2) by (simp add: truncateStringToBytesFromEnd_def Let_def replaceUnpaired_well_formed)
  then show ?thesis using spec(1) byte_size_replaceUnpaired by (intro exI [of _ "length s - n"]) simp
qed

lemma tail_loop_spec:
  assumes "tail_loop buf maxLines maxBytes before out (byte_size (join_newlines out)) = (ls, n, stop, partial)"
    and "int (byte_size (join_newlines out)) \<le> maxBytes"
  shows "if partial
    then out = [] \<and> (\<exists>line rest. before = line # rest \<and> 0 < maxLines \<and> maxBytes < int (byte_size line) \<and>
      ls = [truncateStringToBytesFromEnd line maxBytes] \<and> n = byte_size (join_newlines ls) \<and> stop = ByBytes)
    else \<exists>k \<le> length before. ls = rev (take k before) @ out \<and> n = byte_size (join_newlines ls) \<and> int n \<le> maxBytes \<and>
      (0 < k \<longrightarrow> int (length ls) \<le> maxLines) \<and>
      (if k < length before \<and> int (length ls) < maxLines
       then maxBytes < int (byte_size (join_newlines (rev (take (Suc k) before) @ out))) \<and> stop = ByBytes \<and> ls \<noteq> []
       else stop = ByLines)"
  using assms
proof (induction before arbitrary: out)
  case Nil
  then show ?case by auto
next
  case (Cons l before)
  let ?size = "byte_size (join_newlines (l # out))"
  have size: "byte_size (join_newlines out) + (utf8ByteLength buf l + (if 0 < length out then 1 else 0)) = ?size"
    by (simp add: byte_size_join_Cons utf8ByteLength_eq)
  consider (full) "\<not> int (length out) < maxLines" | (big) "int (length out) < maxLines" "maxBytes < int ?size"
    | (fits) "int (length out) < maxLines" "int ?size \<le> maxBytes" by linarith
  then show ?case
  proof cases
    case full
    then show ?thesis using Cons.prems by (auto intro!: exI [of _ 0])
  next
    case big
    then show ?thesis
      using Cons.prems size by (auto simp: Let_def utf8ByteLength_eq split: if_splits intro!: exI [of _ 0])
  next
    case fits
    have "tail_loop buf maxLines maxBytes before (l # out) ?size = (ls, n, stop, partial)"
      using Cons.prems(1) fits size by (auto simp: Let_def)
    note ih = Cons.IH [OF this fits(2)]
    show ?thesis
    proof (cases partial)
      case True
      then show ?thesis using ih by simp
    next
      case False
      obtain k where k: "k \<le> length before" "ls = rev (take k before) @ l # out" "n = byte_size (join_newlines ls)"
        "int n \<le> maxBytes" "0 < k \<longrightarrow> int (length ls) \<le> maxLines"
        "if k < length before \<and> int (length ls) < maxLines
         then maxBytes < int (byte_size (join_newlines (rev (take (Suc k) before) @ l # out))) \<and> stop = ByBytes \<and> ls \<noteq> []
         else stop = ByLines"
        using ih unfolding if_not_P [OF False] by blast
      have "\<exists>k' \<le> length (l # before). ls = rev (take k' (l # before)) @ out \<and> n = byte_size (join_newlines ls) \<and>
        int n \<le> maxBytes \<and> (0 < k' \<longrightarrow> int (length ls) \<le> maxLines) \<and>
        (if k' < length (l # before) \<and> int (length ls) < maxLines
         then maxBytes < int (byte_size (join_newlines (rev (take (Suc k') (l # before)) @ out))) \<and> stop = ByBytes \<and> ls \<noteq> []
         else stop = ByLines)"
        using k fits(1) by (intro exI [of _ "Suc k"]) (auto split: if_splits)
      then show ?thesis using False by simp
    qed
  qed
qed

lemma splitLines_empty [simp]: "splitLinesForCounting content = [] \<longleftrightarrow> content = []"
  by (cases content rule: rev_cases)
    (auto simp: splitLinesForCounting_def split_newlines_snoc_newline Let_def)

lemma head_loop_start:
  assumes "head_loop buf maxLines maxBytes 0 lines 0 = (ls, n, stop)" "0 \<le> maxBytes"
  shows "\<exists>k \<le> length lines. ls = take k lines \<and> n = byte_size (join_newlines ls) \<and> int n \<le> maxBytes \<and>
    (0 < k \<longrightarrow> int k \<le> maxLines) \<and>
    (if k < length lines \<and> int k < maxLines
     then maxBytes < int (byte_size (join_newlines (take (Suc k) lines))) \<and> stop = ByBytes
     else stop = ByLines)"
  by (rule head_loop_spec [where acc = "[]", unfolded append_Nil list.size(3) add_0
        join_newlines.simps(1) byte_size_simps(1), OF assms(1)]) (use assms(2) in simp)

lemma tail_loop_start:
  assumes "tail_loop buf maxLines maxBytes (rev lines) [] 0 = (ls, n, stop, False)" "0 \<le> maxBytes"
  shows "\<exists>k \<le> length lines. ls = drop (length lines - k) lines \<and> n = byte_size (join_newlines ls) \<and>
    int n \<le> maxBytes \<and> (0 < k \<longrightarrow> int k \<le> maxLines) \<and>
    (if k < length lines \<and> int k < maxLines
     then maxBytes < int (byte_size (join_newlines (drop (length lines - Suc k) lines))) \<and> stop = ByBytes
     else stop = ByLines)"
proof -
  have "int 0 \<le> maxBytes" using assms(2) by simp
  then obtain k where "k \<le> length lines" "ls = rev (take k (rev lines))" "n = byte_size (join_newlines ls)"
    "int n \<le> maxBytes" "0 < k \<longrightarrow> int (length ls) \<le> maxLines"
    "if k < length lines \<and> int (length ls) < maxLines
     then maxBytes < int (byte_size (join_newlines (rev (take (Suc k) (rev lines))))) \<and> stop = ByBytes \<and> ls \<noteq> []
     else stop = ByLines"
    using tail_loop_spec [where out = "[]" and partial = False, unfolded append_Nil2
        join_newlines.simps(1) byte_size_simps(1) if_False, OF assms(1)]
    unfolding length_rev by blast
  then show ?thesis by (intro exI [of _ k]) (auto simp: rev_take split: if_splits)
qed

section \<open>Properties\<close>

definition line_limit :: "truncation_options \<Rightarrow> int" where
  "line_limit opts = (case to_maxLines opts of None \<Rightarrow> DEFAULT_MAX_LINES | Some n \<Rightarrow> n)"

definition byte_limit :: "truncation_options \<Rightarrow> int" where
  "byte_limit opts = (case to_maxBytes opts of None \<Rightarrow> DEFAULT_MAX_BYTES | Some n \<Rightarrow> n)"

definition kept_within :: "truncation_options \<Rightarrow> truncation_result \<Rightarrow> bool" where
  "kept_within opts r \<longleftrightarrow> tr_outputBytes r = length (utf8_encode (tr_text r)) \<and>
     int (tr_outputBytes r) \<le> byte_limit opts \<and> int (tr_outputLines r) \<le> line_limit opts"

text \<open>
  The hand-written byte counter used without \<open>Buffer\<close> agrees with the runtime's: both
  give the number of bytes of the UTF-8 encoding, unpaired surrogates included.
\<close>

lemma byte_length_paths_agree:
  "utf8ByteLength buf content = length (utf8_encode content)"
  by (rule utf8ByteLength_eq)

text \<open>
  C25. Head truncation with non-negative limits never throws, stays within both limits and
  reports the true size of its output. It returns the text unchanged, or a sequence of complete
  lines from its start that cannot be extended: one more line would break the line limit or the
  byte limit, and in the second case the result says so.
\<close>

theorem head_truncation_keeps_longest_prefix:
  assumes "0 \<le> line_limit opts" and "0 \<le> byte_limit opts"
  shows "\<exists>r. truncateHead buf content opts = Inr r \<and> kept_within opts r \<and>
    (if tr_truncated r
     then let lines = splitLinesForCounting content; k = tr_outputLines r
       in k \<le> length lines \<and> tr_text r = join_newlines (take k lines) \<and>
          (k < length lines \<and> int k < line_limit opts \<longrightarrow> tr_truncatedBy r = Some ByBytes \<and>
             byte_limit opts < int (length (utf8_encode (join_newlines (take (Suc k) lines)))))
     else tr_text r = content)"
proof -
  let ?lines = "splitLinesForCounting content" and ?L = "line_limit opts" and ?B = "byte_limit opts"
  consider (whole) "int (length ?lines) \<le> ?L" "int (byte_size content) \<le> ?B"
    | (first) "\<not> (int (length ?lines) \<le> ?L \<and> int (byte_size content) \<le> ?B)" "?lines \<noteq> []"
      "?B < int (byte_size (?lines ! 0))"
    | (cut) "\<not> (int (length ?lines) \<le> ?L \<and> int (byte_size content) \<le> ?B)" "?lines \<noteq> []"
      "int (byte_size (?lines ! 0)) \<le> ?B"
    using assms by fastforce
  then show ?thesis
  proof cases
    case whole
    then show ?thesis
      by (simp add: truncateHead_def line_limit_def byte_limit_def Let_def untruncated_def
          kept_within_def utf8ByteLength_eq)
  next
    case first
    then have "take (Suc 0) ?lines = [?lines ! 0]" by (cases ?lines) simp_all
    with first show ?thesis using assms
      by (auto simp: truncateHead_def line_limit_def byte_limit_def Let_def kept_within_def utf8ByteLength_eq)
  next
    case cut
    obtain ls n stop where h: "head_loop buf ?L ?B 0 ?lines 0 = (ls, n, stop)" by (metis prod_cases3)
    obtain k where k: "k \<le> length ?lines" "ls = take k ?lines" "n = byte_size (join_newlines ls)" "int n \<le> ?B"
      "0 < k \<longrightarrow> int k \<le> ?L"
      "if k < length ?lines \<and> int k < ?L
       then ?B < int (byte_size (join_newlines (take (Suc k) ?lines))) \<and> stop = ByBytes else stop = ByLines"
      using head_loop_start [OF h assms(2)] by blast
    have "truncateHead buf content opts =
        Inr \<lparr>tr_text = join_newlines ls, tr_truncated = True,
          tr_truncatedBy = Some (if ?L \<le> int (length ls) \<and> int n \<le> ?B then ByLines else stop),
          tr_totalLines = length ?lines, tr_totalBytes = utf8ByteLength buf content,
          tr_outputLines = length ls, tr_outputBytes = utf8ByteLength buf (join_newlines ls),
          tr_lastLinePartial = False, tr_firstLineExceedsLimit = False, tr_maxLines = ?L, tr_maxBytes = ?B\<rparr>"
      using cut h by (auto simp: truncateHead_def line_limit_def byte_limit_def Let_def utf8ByteLength_eq)
    then show ?thesis
      using k assms by (auto simp: kept_within_def utf8ByteLength_eq Let_def)
  qed
qed

theorem head_truncation_keeps_longest_prefix_witness:
  "\<exists>r. truncateHead False [97, newline, 98] \<lparr>to_maxLines = Some 1, to_maxBytes = Some 10\<rparr> = Inr r \<and>
     kept_within \<lparr>to_maxLines = Some 1, to_maxBytes = Some 10\<rparr> r"
  using head_truncation_keeps_longest_prefix [of "\<lparr>to_maxLines = Some 1, to_maxBytes = Some 10\<rparr>" False
      "[97, newline, 98]"]
  by (auto simp: line_limit_def byte_limit_def)

text \<open>
  Tail truncation with non-negative limits stays within both limits and reports the true
  size of its output. It returns the text unchanged, or complete lines from its end that cannot
  be extended backwards; only when the last line alone exceeds the byte limit is the output a
  part of that line, cut at a character boundary with unpaired surrogates replaced.
\<close>

lemma tail_truncation_keeps_longest_suffix:
  assumes "0 \<le> line_limit opts" and "0 \<le> byte_limit opts" and "r = truncateTail buf content opts"
  shows "kept_within opts r \<and>
    (let lines = splitLinesForCounting content; k = tr_outputLines r; start = length lines - k
     in if \<not> tr_truncated r then tr_text r = content
        else if tr_lastLinePartial r
        then byte_limit opts < int (length (utf8_encode (last lines))) \<and>
          (\<exists>j. tr_text r = replaceUnpairedSurrogates (drop j (last lines)))
        else k \<le> length lines \<and> tr_text r = join_newlines (drop start lines) \<and>
          (0 < start \<and> int k < line_limit opts \<longrightarrow> tr_truncatedBy r = Some ByBytes \<and>
             byte_limit opts < int (length (utf8_encode (join_newlines (drop (start - 1) lines))))))"
proof -
  let ?lines = "splitLinesForCounting content" and ?L = "line_limit opts" and ?B = "byte_limit opts"
  show ?thesis
  proof (cases "int (length ?lines) \<le> ?L \<and> int (byte_size content) \<le> ?B")
    case True
    then show ?thesis
      using assms(3) by (simp add: truncateTail_def line_limit_def byte_limit_def Let_def untruncated_def
          kept_within_def utf8ByteLength_eq)
  next
    case False
    obtain ls n stop partial where t: "tail_loop buf ?L ?B (rev ?lines) [] 0 = (ls, n, stop, partial)"
      by (metis prod_cases4)
    have r: "r = \<lparr>tr_text = join_newlines ls, tr_truncated = True,
          tr_truncatedBy = Some (if ?L \<le> int (length ls) \<and> int n \<le> ?B then ByLines else stop),
          tr_totalLines = length ?lines, tr_totalBytes = utf8ByteLength buf content,
          tr_outputLines = length ls, tr_outputBytes = utf8ByteLength buf (join_newlines ls),
          tr_lastLinePartial = partial, tr_firstLineExceedsLimit = False, tr_maxLines = ?L, tr_maxBytes = ?B\<rparr>"
      using False t assms(3)
      by (auto simp: truncateTail_def line_limit_def byte_limit_def Let_def utf8ByteLength_eq)
    note spec = tail_loop_spec [of buf ?L ?B "rev ?lines" "[]" ls n stop partial]
    show ?thesis
    proof (cases partial)
      case True
      obtain line rest where p: "rev ?lines = line # rest" "0 < ?L" "?B < int (byte_size line)"
        "ls = [truncateStringToBytesFromEnd line ?B]"
        using spec t assms(2) True by auto
      have "last ?lines = line" using p(1) by (metis hd_rev list.sel(1))
      then show ?thesis
        using r p True truncateStringToBytesFromEnd_spec [OF assms(2), of line]
        by (auto simp: kept_within_def utf8ByteLength_eq Let_def)
    next
      case False
      obtain k where k: "k \<le> length ?lines" "ls = drop (length ?lines - k) ?lines"
        "n = byte_size (join_newlines ls)" "int n \<le> ?B" "0 < k \<longrightarrow> int k \<le> ?L"
        "if k < length ?lines \<and> int k < ?L
         then ?B < int (byte_size (join_newlines (drop (length ?lines - Suc k) ?lines))) \<and> stop = ByBytes
         else stop = ByLines"
        using tail_loop_start [of buf ?L ?B ?lines ls n stop] t assms(2) False by auto
      have "length ls = k" using k(1,2) by simp
      then show ?thesis
        using r k False assms(1)
        by (auto simp: kept_within_def utf8ByteLength_eq Let_def)
    qed
  qed
qed

lemma tail_truncation_keeps_longest_suffix_witness:
  "kept_within \<lparr>to_maxLines = Some 1, to_maxBytes = Some 2\<rparr>
     (truncateTail True [97, newline, 98, 99, 100] \<lparr>to_maxLines = Some 1, to_maxBytes = Some 2\<rparr>)"
  using tail_truncation_keeps_longest_suffix [of "\<lparr>to_maxLines = Some 1, to_maxBytes = Some 2\<rparr>" _ True
      "[97, newline, 98, 99, 100]"]
  by (simp add: line_limit_def byte_limit_def)

text \<open>
  The reported limit is not always the one that was hit: when only the newline at the end of the
  text exceeds the byte limit, every line is kept and the result still says \<open>ByLines\<close>.
\<close>

lemma head_reports_lines_for_final_newline:
  "map_sum id tr_truncatedBy (truncateHead True [97, 98, newline] \<lparr>to_maxLines = Some 10, to_maxBytes = Some 2\<rparr>) =
     Inr (Some ByLines)"
  by (simp add: truncateHead_def splitLinesForCounting_def newline_def utf8ByteLength_def utf8_encode_def
      utf8_of_scalar_def is_high_def is_low_def Let_def)

end
