(* ===== verification/Edit_Diff.thy ===== *)
theory Edit_Diff
  imports Truncate
begin

text \<open>
  Text edits (\<^verbatim>\<open>packages/agent/src/harness/tools/edit-diff.ts\<close>) and the text pipeline of the edit
  tool (\<^verbatim>\<open>tools/edit.ts\<close>). Texts are UTF-16 strings. \<open>String.prototype.normalize("NFKC")\<close> is the
  parameter \<open>nfkc\<close>; the parts that \<open>Diff.diffLines\<close> of the package \<^verbatim>\<open>diff\<close> returns are the
  argument \<open>parts\<close> of \<open>generateDiffString\<close>. An error thrown by the code is a value of
  \<open>edit_error\<close>; \<open>edit_error_message\<close> gives its text.
\<close>

section \<open>Strings\<close>

definition starts_with :: "js_string \<Rightarrow> js_string \<Rightarrow> bool" where
  "starts_with s p \<longleftrightarrow> take (length p) s = p"

fun index_of :: "js_string \<Rightarrow> js_string \<Rightarrow> nat option" where
  "index_of [] p = (if p = [] then Some 0 else None)"
| "index_of (c # cs) p = (if starts_with (c # cs) p then Some 0 else map_option Suc (index_of cs p))"

definition carriage_return :: code_unit where
  "carriage_return = 13"

datatype line_ending = CRLF | LF

definition detectLineEnding :: "js_string \<Rightarrow> line_ending" where
  "detectLineEnding content =
     (case (index_of content [carriage_return, newline], index_of content [newline]) of
        (_, None) \<Rightarrow> LF
      | (None, _) \<Rightarrow> LF
      | (Some crlfIdx, Some lfIdx) \<Rightarrow> if crlfIdx < lfIdx then CRLF else LF)"

fun replace_crlf :: "js_string \<Rightarrow> js_string" where
  "replace_crlf [] = []"
| "replace_crlf [u] = [u]"
| "replace_crlf (u # v # us) =
     (if u = carriage_return \<and> v = newline then newline # replace_crlf us else u # replace_crlf (v # us))"

definition normalizeToLF :: "js_string \<Rightarrow> js_string" where
  "normalizeToLF text = map (\<lambda>u. if u = carriage_return then newline else u) (replace_crlf text)"

definition restoreLineEndings :: "js_string \<Rightarrow> line_ending \<Rightarrow> js_string" where
  "restoreLineEndings text ending =
     (if ending = CRLF then concat (map (\<lambda>u. if u = newline then [carriage_return, newline] else [u]) text)
      else text)"

text \<open>White space and line terminators of ECMAScript, as \<open>trimEnd\<close> strips them.\<close>

definition js_space :: "code_unit \<Rightarrow> bool" where
  "js_space u \<longleftrightarrow> u \<in> {9, 10, 11, 12, 13, 32, 0xA0, 0x1680, 0x2028, 0x2029, 0x202F, 0x205F, 0x3000, 0xFEFF} \<or>
     (0x2000 \<le> u \<and> u \<le> 0x200A)"

definition trim_end :: "js_string \<Rightarrow> js_string" where
  "trim_end line = rev (dropWhile js_space (rev line))"

definition fuzzy_unit :: "code_unit \<Rightarrow> code_unit" where
  "fuzzy_unit u =
     (if u \<in> {0x2018, 0x2019, 0x201A, 0x201B} then 39
      else if u \<in> {0x201C, 0x201D, 0x201E, 0x201F} then 34
      else if u \<in> {0x2010, 0x2011, 0x2012, 0x2013, 0x2014, 0x2015, 0x2212} then 45
      else if u \<in> {0xA0, 0x202F, 0x205F, 0x3000} \<or> (0x2002 \<le> u \<and> u \<le> 0x200A) then 32
      else u)"

definition normalizeForFuzzyMatch :: "(js_string \<Rightarrow> js_string) \<Rightarrow> js_string \<Rightarrow> js_string" where
  "normalizeForFuzzyMatch nfkc text =
     map fuzzy_unit (join_newlines (map trim_end (split_newlines (nfkc text))))"

fun splitLinesWithEndings :: "js_string \<Rightarrow> js_string list" where
  "splitLinesWithEndings [] = []"
| "splitLinesWithEndings (u # us) =
     (if u = newline then [u] # splitLinesWithEndings us
      else (case splitLinesWithEndings us of [] \<Rightarrow> [[u]] | l # ls \<Rightarrow> (u # l) # ls))"

section \<open>Replacements\<close>

record line_span =
  sp_start :: nat
  sp_end :: nat

record replacement =
  rp_matchIndex :: nat
  rp_matchLength :: nat
  rp_newText :: js_string

record matched_edit = replacement +
  me_editIndex :: nat

fun line_spans :: "nat \<Rightarrow> js_string list \<Rightarrow> line_span list" where
  "line_spans off [] = []"
| "line_spans off (l # ls) = \<lparr>sp_start = off, sp_end = off + length l\<rparr> # line_spans (off + length l) ls"

definition getLineSpans :: "js_string \<Rightarrow> line_span list" where
  "getLineSpans content = line_spans 0 (splitLinesWithEndings content)"

datatype edit_error = OutsideBase | LineCountMismatch | EmptyOldText nat | OldTextNotFound nat
  | OldTextDuplicate nat int | EditsOverlap nat nat | NoChange

fun start_line :: "nat \<Rightarrow> line_span list \<Rightarrow> nat \<Rightarrow> nat option" where
  "start_line i [] pos = None"
| "start_line i (line # lines) pos =
     (if sp_start line \<le> pos \<and> pos < sp_end line then Some i else start_line (i + 1) lines pos)"

fun end_line :: "nat \<Rightarrow> line_span list \<Rightarrow> nat \<Rightarrow> nat option" where
  "end_line i [] stop = None"
| "end_line i (line # lines) stop = (if sp_end line < stop then end_line (i + 1) lines stop else Some i)"

definition getReplacementLineRange ::
    "line_span list \<Rightarrow> 'z replacement_scheme \<Rightarrow> edit_error + (nat \<times> nat)" where
  "getReplacementLineRange lines r =
     (case start_line 0 lines (rp_matchIndex r) of
        None \<Rightarrow> Inl OutsideBase
      | Some startLine \<Rightarrow>
          (case end_line startLine (drop startLine lines) (rp_matchIndex r + rp_matchLength r) of
             None \<Rightarrow> Inl OutsideBase | Some endLine \<Rightarrow> Inr (startLine, endLine + 1)))"

text \<open>\<open>substring\<close> clamps a negative position to 0, as \<open>nat\<close> does.\<close>

definition replace_at :: "nat \<Rightarrow> 'z replacement_scheme \<Rightarrow> js_string \<Rightarrow> js_string" where
  "replace_at off r result =
     (let matchIndex = int (rp_matchIndex r) - int off
      in take (nat matchIndex) result @ rp_newText r @ drop (nat (matchIndex + int (rp_matchLength r))) result)"

definition applyReplacements :: "js_string \<Rightarrow> 'z replacement_scheme list \<Rightarrow> nat \<Rightarrow> js_string" where
  "applyReplacements content replacements off = fold (replace_at off) (rev replacements) content"

record 'z group =
  g_startLine :: nat
  g_endLine :: nat
  g_replacements :: "'z replacement_scheme list"

definition add_to_groups :: "'z group list \<Rightarrow> nat \<times> nat \<Rightarrow> 'z replacement_scheme \<Rightarrow> 'z group list" where
  "add_to_groups groups lineRange r =
     (if groups \<noteq> [] \<and> fst lineRange < g_endLine (last groups)
      then butlast groups @ [(last groups)\<lparr>g_endLine := max (g_endLine (last groups)) (snd lineRange),
             g_replacements := g_replacements (last groups) @ [r]\<rparr>]
      else groups @ [\<lparr>g_startLine = fst lineRange, g_endLine = snd lineRange, g_replacements = [r]\<rparr>])"

definition group_replacements ::
    "line_span list \<Rightarrow> 'z replacement_scheme list \<Rightarrow> edit_error + 'z group list" where
  "group_replacements baseLines replacements =
     for_each (\<lambda>groups r.
        case getReplacementLineRange baseLines r of
          Inl e \<Rightarrow> Inl e | Inr lineRange \<Rightarrow> Inr (add_to_groups groups lineRange r)) [] replacements"

fun weave_lines ::
    "js_string list \<Rightarrow> line_span list \<Rightarrow> js_string \<Rightarrow> nat \<Rightarrow> 'z group list \<Rightarrow> js_string" where
  "weave_lines originalLines baseLines base originalLineIndex [] = concat (drop originalLineIndex originalLines)"
| "weave_lines originalLines baseLines base originalLineIndex (g # gs) =
     (let groupStartOffset = sp_start (baseLines ! g_startLine g);
          groupEndOffset = sp_end (baseLines ! (g_endLine g - 1))
      in concat (take (g_startLine g - originalLineIndex) (drop originalLineIndex originalLines)) @
         applyReplacements (take (groupEndOffset - groupStartOffset) (drop groupStartOffset base))
           (g_replacements g) groupStartOffset @
         weave_lines originalLines baseLines base (g_endLine g) gs)"

definition applyReplacementsPreservingUnchangedLines ::
    "js_string \<Rightarrow> js_string \<Rightarrow> 'z replacement_scheme list \<Rightarrow> edit_error + js_string" where
  "applyReplacementsPreservingUnchangedLines original base replacements =
     (let originalLines = splitLinesWithEndings original;
          baseLines = getLineSpans base
      in if length originalLines \<noteq> length baseLines then Inl LineCountMismatch
         else (case group_replacements baseLines (sort_by rp_matchIndex replacements) of
                 Inl e \<Rightarrow> Inl e
               | Inr groups \<Rightarrow> Inr (weave_lines originalLines baseLines base 0 groups)))"

section \<open>Matching\<close>

record fuzzy_match =
  fm_found :: bool
  fm_index :: int
  fm_matchLength :: nat
  fm_usedFuzzyMatch :: bool
  fm_contentForReplacement :: js_string

record edit =
  ed_oldText :: js_string
  ed_newText :: js_string

definition fuzzyFindText :: "(js_string \<Rightarrow> js_string) \<Rightarrow> js_string \<Rightarrow> js_string \<Rightarrow> fuzzy_match" where
  "fuzzyFindText nfkc content oldText =
     (case index_of content oldText of
        Some exactIndex \<Rightarrow>
          \<lparr>fm_found = True, fm_index = int exactIndex, fm_matchLength = length oldText,
           fm_usedFuzzyMatch = False, fm_contentForReplacement = content\<rparr>
      | None \<Rightarrow>
          (let fuzzyContent = normalizeForFuzzyMatch nfkc content;
               fuzzyOldText = normalizeForFuzzyMatch nfkc oldText
           in case index_of fuzzyContent fuzzyOldText of
                None \<Rightarrow>
                  \<lparr>fm_found = False, fm_index = - 1, fm_matchLength = 0, fm_usedFuzzyMatch = False,
                   fm_contentForReplacement = content\<rparr>
              | Some fuzzyIndex \<Rightarrow>
                  \<lparr>fm_found = True, fm_index = int fuzzyIndex, fm_matchLength = length fuzzyOldText,
                   fm_usedFuzzyMatch = True, fm_contentForReplacement = fuzzyContent\<rparr>))"

definition BOM :: code_unit where
  "BOM = 0xFEFF"

definition stripBom :: "js_string \<Rightarrow> js_string \<times> js_string" where
  "stripBom content = (if starts_with content [BOM] then ([BOM], drop 1 content) else ([], content))"

text \<open>\<open>s.split(sep).length\<close>: an empty separator splits into code units.\<close>

function cuts :: "js_string \<Rightarrow> js_string \<Rightarrow> nat" where
  "cuts sep [] = 0"
| "cuts sep (c # cs) =
     (if starts_with (c # cs) sep then Suc (cuts sep (drop (length sep - 1) cs)) else cuts sep cs)"
  by pat_completeness auto
termination by (relation "measure (length \<circ> snd)") auto

definition split_length :: "js_string \<Rightarrow> js_string \<Rightarrow> nat" where
  "split_length s sep = (if sep = [] then length s else cuts sep s + 1)"

definition countOccurrences :: "(js_string \<Rightarrow> js_string) \<Rightarrow> js_string \<Rightarrow> js_string \<Rightarrow> int" where
  "countOccurrences nfkc content oldText =
     int (split_length (normalizeForFuzzyMatch nfkc content) (normalizeForFuzzyMatch nfkc oldText)) - 1"

section \<open>Applying edits\<close>

fun first_empty :: "nat \<Rightarrow> edit list \<Rightarrow> nat option" where
  "first_empty i [] = None"
| "first_empty i (e # es) = (if ed_oldText e = [] then Some i else first_empty (i + 1) es)"

fun match_edits ::
    "(js_string \<Rightarrow> js_string) \<Rightarrow> js_string \<Rightarrow> nat \<Rightarrow> edit list \<Rightarrow> edit_error + matched_edit list" where
  "match_edits nfkc base i [] = Inr []"
| "match_edits nfkc base i (e # es) =
     (let matchResult = fuzzyFindText nfkc base (ed_oldText e);
          occurrences = countOccurrences nfkc base (ed_oldText e)
      in if \<not> fm_found matchResult then Inl (OldTextNotFound i)
         else if 1 < occurrences then Inl (OldTextDuplicate i occurrences)
         else (case match_edits nfkc base (i + 1) es of
                 Inl err \<Rightarrow> Inl err
               | Inr ms \<Rightarrow> Inr (\<lparr>rp_matchIndex = nat (fm_index matchResult),
                   rp_matchLength = fm_matchLength matchResult, rp_newText = ed_newText e,
                   me_editIndex = i\<rparr> # ms)))"

fun check_overlap :: "matched_edit list \<Rightarrow> edit_error + unit" where
  "check_overlap (previous # current # ms) =
     (if rp_matchIndex previous + rp_matchLength previous > rp_matchIndex current
      then Inl (EditsOverlap (me_editIndex previous) (me_editIndex current))
      else check_overlap (current # ms))"
| "check_overlap _ = Inr ()"

record applied_edits =
  ae_baseContent :: js_string
  ae_newContent :: js_string

definition normalize_edit :: "edit \<Rightarrow> edit" where
  "normalize_edit e = \<lparr>ed_oldText = normalizeToLF (ed_oldText e), ed_newText = normalizeToLF (ed_newText e)\<rparr>"

definition applyEditsToNormalizedContent ::
    "(js_string \<Rightarrow> js_string) \<Rightarrow> js_string \<Rightarrow> edit list \<Rightarrow> edit_error + applied_edits" where
  "applyEditsToNormalizedContent nfkc normalizedContent edits =
     (let normalizedEdits = map normalize_edit edits
      in case first_empty 0 normalizedEdits of
           Some i \<Rightarrow> Inl (EmptyOldText i)
         | None \<Rightarrow>
             (let usedFuzzyMatch = list_ex (\<lambda>e. fm_usedFuzzyMatch (fuzzyFindText nfkc normalizedContent (ed_oldText e)))
                    normalizedEdits;
                  replacementBase =
                    (if usedFuzzyMatch then normalizeForFuzzyMatch nfkc normalizedContent else normalizedContent)
              in case match_edits nfkc replacementBase 0 normalizedEdits of
                   Inl err \<Rightarrow> Inl err
                 | Inr found \<Rightarrow>
                     (let matchedEdits = sort_by rp_matchIndex found
                      in case check_overlap matchedEdits of
                           Inl err \<Rightarrow> Inl err
                         | Inr _ \<Rightarrow>
                             (case (if usedFuzzyMatch
                                    then applyReplacementsPreservingUnchangedLines normalizedContent replacementBase
                                           matchedEdits
                                    else Inr (applyReplacements replacementBase matchedEdits 0)) of
                                Inl err \<Rightarrow> Inl err
                              | Inr newContent \<Rightarrow>
                                  if normalizedContent = newContent then Inl NoChange
                                  else Inr \<lparr>ae_baseContent = normalizedContent, ae_newContent = newContent\<rparr>))))"

text \<open>The text that the edit tool writes back for the text it read.\<close>

definition edited_file :: "(js_string \<Rightarrow> js_string) \<Rightarrow> js_string \<Rightarrow> edit list \<Rightarrow> edit_error + js_string" where
  "edited_file nfkc file edits =
     (case stripBom file of
        (bom, content) \<Rightarrow>
          (case applyEditsToNormalizedContent nfkc (normalizeToLF content) edits of
             Inl err \<Rightarrow> Inl err
           | Inr r \<Rightarrow> Inr (bom @ restoreLineEndings (ae_newContent r) (detectLineEnding content))))"

section \<open>Messages of errors\<close>

definition edit_error_message :: "string \<Rightarrow> nat \<Rightarrow> edit_error \<Rightarrow> string" where
  "edit_error_message path totalEdits err =
     (case err of
        OutsideBase \<Rightarrow> ''Replacement range is outside the base content.''
      | LineCountMismatch \<Rightarrow>
          ''Cannot preserve unchanged lines because the base content has a different line count.''
      | OldTextNotFound i \<Rightarrow>
          if totalEdits = 1
          then ''Could not find the exact text in '' @ path @
            ''. The old text must match exactly including all whitespace and newlines.''
          else ''Could not find edits['' @ decimal i @ ''] in '' @ path @
            ''. The oldText must match exactly including all whitespace and newlines.''
      | OldTextDuplicate i occurrences \<Rightarrow>
          if totalEdits = 1
          then ''Found '' @ decimal (nat occurrences) @ '' occurrences of the text in '' @ path @
            ''. The text must be unique. Please provide more context to make it unique.''
          else ''Found '' @ decimal (nat occurrences) @ '' occurrences of edits['' @ decimal i @ ''] in '' @ path @
            ''. Each oldText must be unique. Please provide more context to make it unique.''
      | EmptyOldText i \<Rightarrow>
          if totalEdits = 1 then ''oldText must not be empty in '' @ path @ ''.''
          else ''edits['' @ decimal i @ ''].oldText must not be empty in '' @ path @ ''.''
      | EditsOverlap i j \<Rightarrow>
          ''edits['' @ decimal i @ ''] and edits['' @ decimal j @ ''] overlap in '' @ path @
          ''. Merge them into one edit or target disjoint regions.''
      | NoChange \<Rightarrow>
          if totalEdits = 1
          then ''No changes made to '' @ path @
            ''. The replacement produced identical content. This might indicate an issue with '' @
            ''special characters or the text not existing as expected.''
          else ''No changes made to '' @ path @ ''. The replacements produced identical content.'')"

section \<open>The displayed diff\<close>

datatype part_kind = PartAdded | PartRemoved | PartUnchanged

record diff_part =
  dp_kind :: part_kind
  dp_value :: js_string

datatype diff_line = AddedLine nat js_string | RemovedLine nat js_string | ContextLine nat js_string | Ellipsis

record diff_state =
  ds_output :: "diff_line list"
  ds_oldLineNum :: nat
  ds_newLineNum :: nat
  ds_lastWasChange :: bool
  ds_firstChangedLine :: "nat option"

definition raw_lines :: "diff_part \<Rightarrow> js_string list" where
  "raw_lines part =
     (let raw = split_newlines (dp_value part) in if last raw = [] then butlast raw else raw)"

definition numbered :: "(nat \<Rightarrow> js_string \<Rightarrow> diff_line) \<Rightarrow> nat \<Rightarrow> js_string list \<Rightarrow> diff_line list" where
  "numbered kind n lines = map (\<lambda>(k, line). kind k line) (enumerate n lines)"

definition show_change :: "diff_part \<Rightarrow> diff_state \<Rightarrow> diff_state" where
  "show_change part s =
     (let raw = raw_lines part;
          s' = s\<lparr>ds_firstChangedLine := (case ds_firstChangedLine s of
                 None \<Rightarrow> Some (ds_newLineNum s) | Some n \<Rightarrow> Some n), ds_lastWasChange := True\<rparr>
      in if dp_kind part = PartAdded
         then s'\<lparr>ds_output := ds_output s @ numbered AddedLine (ds_newLineNum s) raw,
                ds_newLineNum := ds_newLineNum s + length raw\<rparr>
         else s'\<lparr>ds_output := ds_output s @ numbered RemovedLine (ds_oldLineNum s) raw,
                ds_oldLineNum := ds_oldLineNum s + length raw\<rparr>)"

definition context_output :: "nat \<Rightarrow> bool \<Rightarrow> bool \<Rightarrow> nat \<Rightarrow> js_string list \<Rightarrow> diff_line list" where
  "context_output contextLines hasLeadingChange hasTrailingChange oldLineNum raw =
     (if hasLeadingChange \<and> hasTrailingChange then
        (if length raw \<le> contextLines * 2 then numbered ContextLine oldLineNum raw
         else let leadingLines = take contextLines raw;
                  trailingLines = drop (length raw - contextLines) raw;
                  skippedLines = length raw - length leadingLines - length trailingLines
              in numbered ContextLine oldLineNum leadingLines @ [Ellipsis] @
                 numbered ContextLine (oldLineNum + length leadingLines + skippedLines) trailingLines)
      else if hasLeadingChange then
        (let shownLines = take contextLines raw;
             skippedLines = length raw - length shownLines
         in numbered ContextLine oldLineNum shownLines @ (if 0 < skippedLines then [Ellipsis] else []))
      else if hasTrailingChange then
        (let skippedLines = length raw - contextLines
         in (if 0 < skippedLines then [Ellipsis] else []) @
            numbered ContextLine (oldLineNum + skippedLines) (drop skippedLines raw))
      else [])"

definition show_context :: "nat \<Rightarrow> bool \<Rightarrow> diff_part \<Rightarrow> diff_state \<Rightarrow> diff_state" where
  "show_context contextLines nextPartIsChange part s =
     (let raw = raw_lines part
      in s\<lparr>ds_output := ds_output s @
             context_output contextLines (ds_lastWasChange s) nextPartIsChange (ds_oldLineNum s) raw,
           ds_oldLineNum := ds_oldLineNum s + length raw,
           ds_newLineNum := ds_newLineNum s + length raw,
           ds_lastWasChange := False\<rparr>)"

fun diff_loop :: "nat \<Rightarrow> diff_part list \<Rightarrow> diff_state \<Rightarrow> diff_state" where
  "diff_loop contextLines [] s = s"
| "diff_loop contextLines (part # parts) s =
     diff_loop contextLines parts
       (if dp_kind part \<noteq> PartUnchanged then show_change part s
        else show_context contextLines (parts \<noteq> [] \<and> dp_kind (hd parts) \<noteq> PartUnchanged) part s)"

definition pad_start :: "nat \<Rightarrow> js_string \<Rightarrow> js_string" where
  "pad_start width s = replicate (width - length s) 32 @ s"

fun render_line :: "nat \<Rightarrow> diff_line \<Rightarrow> js_string" where
  "render_line width (AddedLine n line) = js_ascii ''+'' @ pad_start width (js_ascii (decimal n)) @ [32] @ line"
| "render_line width (RemovedLine n line) = js_ascii ''-'' @ pad_start width (js_ascii (decimal n)) @ [32] @ line"
| "render_line width (ContextLine n line) = [32] @ pad_start width (js_ascii (decimal n)) @ [32] @ line"
| "render_line width Ellipsis = [32] @ pad_start width [] @ js_ascii '' ...''"

definition diff_start :: diff_state where
  "diff_start = \<lparr>ds_output = [], ds_oldLineNum = 1, ds_newLineNum = 1, ds_lastWasChange = False,
     ds_firstChangedLine = None\<rparr>"

definition generateDiffString ::
    "js_string \<Rightarrow> js_string \<Rightarrow> nat \<Rightarrow> diff_part list \<Rightarrow> js_string \<times> nat option" where
  "generateDiffString oldContent newContent contextLines parts =
     (let maxLineNum = max (length (split_newlines oldContent)) (length (split_newlines newContent));
          lineNumWidth = length (decimal maxLineNum);
          s = diff_loop contextLines parts diff_start
      in (join_newlines (map (render_line lineNumWidth) (ds_output s)), ds_firstChangedLine s))"

section \<open>Line endings\<close>

fun crlf_only :: "js_string \<Rightarrow> bool" where
  "crlf_only [] \<longleftrightarrow> True"
| "crlf_only [u] \<longleftrightarrow> u \<noteq> carriage_return \<and> u \<noteq> newline"
| "crlf_only (u # v # us) \<longleftrightarrow>
     (if u = carriage_return then v = newline \<and> crlf_only us else u \<noteq> newline \<and> crlf_only (v # us))"

lemma line_units [simp]: "carriage_return \<noteq> newline" "newline \<noteq> carriage_return"
  by (simp_all add: carriage_return_def newline_def)

lemma replace_crlf_id: "carriage_return \<notin> set str \<Longrightarrow> replace_crlf str = str"
  by (induction str rule: replace_crlf.induct) auto

lemma map_no_cr: "carriage_return \<notin> set s \<Longrightarrow> map (\<lambda>u. if u = carriage_return then newline else u) s = s"
  by (induction s) auto

lemma normalizeToLF_id: "carriage_return \<notin> set str \<Longrightarrow> normalizeToLF str = str"
  by (simp add: normalizeToLF_def replace_crlf_id map_no_cr)

lemma normalizeToLF_no_cr: "carriage_return \<notin> set (normalizeToLF str)"
  by (auto simp: normalizeToLF_def)

lemma replace_crlf_only:
  "crlf_only str \<Longrightarrow> carriage_return \<notin> set (replace_crlf str) \<and> restoreLineEndings (replace_crlf str) CRLF = str"
  by (induction str rule: replace_crlf.induct) (auto simp: restoreLineEndings_def split: if_splits)

lemma restore_normalize_crlf: "crlf_only str \<Longrightarrow> restoreLineEndings (normalizeToLF str) CRLF = str"
proof -
  assume "crlf_only str"
  then have "carriage_return \<notin> set (replace_crlf str)" "restoreLineEndings (replace_crlf str) CRLF = str"
    using replace_crlf_only by blast+
  then show ?thesis by (simp add: normalizeToLF_def map_no_cr)
qed

lemma index_of_none: "set p \<inter> set s = {} \<Longrightarrow> p \<noteq> [] \<Longrightarrow> index_of s p = None"
proof (induction s)
  case (Cons c cs)
  then show ?case by (cases p) (auto simp: starts_with_def)
qed auto

lemma index_of_newline_crlf:
  "crlf_only str \<Longrightarrow> newline \<in> set str \<Longrightarrow>
   \<exists>i. index_of str [carriage_return, newline] = Some i \<and> index_of str [newline] = Some (Suc i)"
proof (induction str rule: crlf_only.induct)
  case (3 u v us)
  then show ?case by (cases "u = carriage_return") (auto simp: starts_with_def)
qed auto

lemma detect_crlf: "crlf_only str \<Longrightarrow> newline \<in> set str \<Longrightarrow> detectLineEnding str = CRLF"
  using index_of_newline_crlf [of str] by (auto simp: detectLineEnding_def)

lemma crlf_only_no_newline: "crlf_only str \<Longrightarrow> newline \<notin> set str \<Longrightarrow> carriage_return \<notin> set str"
  by (induction str rule: crlf_only.induct) (auto split: if_splits)

lemma detect_lf: "carriage_return \<notin> set str \<Longrightarrow> detectLineEnding str = LF"
proof -
  assume cr: "carriage_return \<notin> set str"
  have "index_of str [carriage_return, newline] = None"
    using cr by (induction str) (auto simp: starts_with_def)
  then show ?thesis by (simp add: detectLineEnding_def split: option.splits)
qed

lemma replace_crlf_expand:
  "carriage_return \<notin> set str \<Longrightarrow>
   replace_crlf (concat (map (\<lambda>u. if u = newline then [carriage_return, newline] else [u]) str) @ rest) =
     str @ replace_crlf rest"
proof (induction str)
  case (Cons u us)
  show ?case
  proof (cases "u = newline")
    case True
    then show ?thesis using Cons by simp
  next
    case False
    have "replace_crlf (u # ws) = u # replace_crlf ws" for ws
      using Cons.prems False by (cases ws) auto
    then show ?thesis using Cons False by simp
  qed
qed simp

lemma normalize_restore: "carriage_return \<notin> set str \<Longrightarrow> normalizeToLF (restoreLineEndings str ending) = str"
  using replace_crlf_expand [of str "[]"]
  by (cases ending) (auto simp: normalizeToLF_def restoreLineEndings_def replace_crlf_id intro: map_idI)

lemma uniform_round_trip:
  assumes "crlf_only str \<or> carriage_return \<notin> set str"
  shows "restoreLineEndings (normalizeToLF str) (detectLineEnding str) = str"
proof (cases "carriage_return \<in> set str")
  case True
  then have "crlf_only str" "newline \<in> set str" using assms crlf_only_no_newline by blast+
  then show ?thesis using restore_normalize_crlf detect_crlf by simp
next
  case False
  then show ?thesis by (simp add: detect_lf normalizeToLF_id restoreLineEndings_def)
qed

section \<open>Splicing\<close>

text \<open>The reference: one pass from left to right over disjoint replacements; \<open>rest\<close> is the str from \<open>pos\<close> on.\<close>

fun splice_at :: "nat \<Rightarrow> js_string \<Rightarrow> 'z replacement_scheme list \<Rightarrow> js_string" where
  "splice_at pos rest [] = rest"
| "splice_at pos rest (r # rs) =
     take (rp_matchIndex r - pos) rest @ rp_newText r @
     splice_at (rp_matchIndex r + rp_matchLength r) (drop (rp_matchIndex r + rp_matchLength r - pos) rest) rs"

fun disjoint_from :: "nat \<Rightarrow> 'z replacement_scheme list \<Rightarrow> bool" where
  "disjoint_from pos [] \<longleftrightarrow> True"
| "disjoint_from pos (r # rs) \<longleftrightarrow>
     pos \<le> rp_matchIndex r \<and> disjoint_from (rp_matchIndex r + rp_matchLength r) rs"

definition ends_by :: "nat \<Rightarrow> 'z replacement_scheme list \<Rightarrow> bool" where
  "ends_by q rs \<longleftrightarrow> (\<forall>r \<in> set rs. rp_matchIndex r + rp_matchLength r \<le> q)"

lemma disjoint_from_mono: "disjoint_from p rs \<Longrightarrow> q \<le> p \<Longrightarrow> disjoint_from q rs"
  by (cases rs) auto

lemma splice_skip:
  assumes "disjoint_from p rs" "off \<le> p" "p \<le> off + length c"
  shows "splice_at off c rs = take (p - off) c @ splice_at p (drop (p - off) c) rs"
proof (cases rs)
  case Nil
  then show ?thesis by simp
next
  case (Cons r rs')
  have le: "p \<le> rp_matchIndex r" using assms Cons by simp
  then have "take (rp_matchIndex r - off) c = take (p - off) c @ take (rp_matchIndex r - p) (drop (p - off) c)"
    using assms by (metis Nat.add_diff_assoc add.commute diff_add_inverse2 take_add)
  then show ?thesis using Cons assms le by (simp add: add.commute)
qed

lemma applyReplacements_Cons:
  "applyReplacements c (r # rs) off = replace_at off r (applyReplacements c rs off)"
  by (simp add: applyReplacements_def)

lemma applyReplacements_splice:
  "disjoint_from off rs \<Longrightarrow> ends_by (off + length c) rs \<Longrightarrow> applyReplacements c rs off = splice_at off c rs"
proof (induction rs)
  case Nil
  then show ?case by (simp add: applyReplacements_def)
next
  case (Cons r rs)
  let ?i = "rp_matchIndex r" and ?j = "rp_matchIndex r + rp_matchLength r"
  have o: "off \<le> ?i" "?j \<le> off + length c" "disjoint_from ?j rs" using Cons.prems by (auto simp: ends_by_def)
  have "applyReplacements c rs off = splice_at off c rs"
    using Cons.IH Cons.prems disjoint_from_mono [OF o(3)] by (simp add: ends_by_def)
  also have "\<dots> = take (?j - off) c @ splice_at ?j (drop (?j - off) c) rs"
    using splice_skip [OF o(3) _ o(2)] o(1) by simp
  finally have tail: "applyReplacements c rs off = take (?j - off) c @ splice_at ?j (drop (?j - off) c) rs" .
  have len: "length (take (?j - off) c) = ?j - off" using o by simp
  have n: "nat (int ?i - int off) = ?i - off" "nat (int ?i - int off + int (rp_matchLength r)) = ?j - off"
    using o(1) by linarith+
  show ?case
    unfolding applyReplacements_Cons replace_at_def Let_def n tail using o len by (simp add: min_def)
qed

lemma splice_append:
  assumes "disjoint_from p rs" "ends_by q rs" "p \<le> q" "q \<le> p + length c" "disjoint_from q rs'"
  shows "splice_at p c (rs @ rs') = splice_at p (take (q - p) c) rs @ splice_at q (drop (q - p) c) rs'"
  using assms
proof (induction rs arbitrary: p c)
  case Nil
  then show ?case using splice_skip [of q rs' p c] by simp
next
  case (Cons r rs)
  let ?i = "rp_matchIndex r" and ?j = "rp_matchIndex r + rp_matchLength r"
  have j: "?j \<le> q" "p \<le> ?i" "disjoint_from ?j rs" "ends_by q rs" using Cons.prems by (auto simp: ends_by_def)
  have "splice_at ?j (drop (?j - p) c) (rs @ rs') =
      splice_at ?j (take (q - ?j) (drop (?j - p) c)) rs @ splice_at q (drop (q - ?j) (drop (?j - p) c)) rs'"
    using Cons.IH [of ?j "drop (?j - p) c"] Cons.prems j by simp
  moreover have "drop (q - ?j) (drop (?j - p) c) = drop (q - p) c" using j by (simp add: add.commute)
  moreover have "take (q - ?j) (drop (?j - p) c) = drop (?j - p) (take (q - p) c)"
    using j by (simp add: drop_take)
  ultimately show ?case using j by (simp add: min_def)
qed

section \<open>Lines\<close>

lemma concat_splitLinesWithEndings [simp]: "concat (splitLinesWithEndings s) = s"
  by (induction s) (auto split: list.splits)

lemma splitLinesWithEndings_nonempty: "l \<in> set (splitLinesWithEndings s) \<Longrightarrow> l \<noteq> []"
  by (induction s arbitrary: l) (auto split: list.splits if_splits)

definition line_offset :: "js_string list \<Rightarrow> nat \<Rightarrow> nat" where
  "line_offset lines k = length (concat (take k lines))"

lemma line_offset_0 [simp]: "line_offset lines 0 = 0"
  by (simp add: line_offset_def)

lemma line_offset_Suc: "k < length lines \<Longrightarrow> line_offset lines (Suc k) = line_offset lines k + length (lines ! k)"
  by (simp add: line_offset_def take_Suc_conv_app_nth)

lemma line_offset_end: "line_offset lines (length lines) = length (concat lines)"
  by (simp add: line_offset_def)

lemma line_offset_mono: "i \<le> k \<Longrightarrow> line_offset lines i \<le> line_offset lines k"
proof -
  assume "i \<le> k"
  then have "take k lines = take i lines @ take (k - i) (drop i lines)"
    by (metis le_add_diff_inverse take_add)
  then show ?thesis by (simp add: line_offset_def)
qed

lemma line_spans_nth:
  "k < length lines \<Longrightarrow> line_spans off lines ! k =
     \<lparr>sp_start = off + line_offset lines k, sp_end = off + line_offset lines (Suc k)\<rparr>"
proof (induction lines arbitrary: off k)
  case (Cons l ls)
  then show ?case by (cases k) (simp_all add: line_offset_def)
qed simp

lemma length_line_spans [simp]: "length (line_spans off lines) = length lines"
  by (induction lines arbitrary: off) auto

lemma start_line_Some:
  "start_line i lines pos = Some k \<Longrightarrow>
   i \<le> k \<and> k - i < length lines \<and> sp_start (lines ! (k - i)) \<le> pos \<and> pos < sp_end (lines ! (k - i))"
proof (induction lines arbitrary: i)
  case (Cons line lines)
  then show ?case by (fastforce split: if_splits simp: nth_Cons')
qed simp

lemma start_line_None:
  "start_line i lines pos = None \<Longrightarrow> k < length lines \<Longrightarrow> \<not> (sp_start (lines ! k) \<le> pos \<and> pos < sp_end (lines ! k))"
  by (induction lines arbitrary: i k) (auto simp: nth_Cons' split: if_splits)

lemma end_line_Some:
  "end_line i lines stop = Some k \<Longrightarrow>
   i \<le> k \<and> k - i < length lines \<and> stop \<le> sp_end (lines ! (k - i)) \<and> (\<forall>m < k - i. sp_end (lines ! m) < stop)"
proof (induction lines arbitrary: i)
  case (Cons line lines)
  show ?case
  proof (cases "sp_end line < stop")
    case False
    then show ?thesis using Cons.prems by auto
  next
    case True
    with Cons.prems have rec: "end_line (i + 1) lines stop = Some k" by simp
    from Cons.IH [OF rec] obtain d where k: "k = Suc i + d" and d: "d < length lines"
      "stop \<le> sp_end (lines ! d)" "\<forall>m < d. sp_end (lines ! m) < stop"
      by (metis Suc_eq_plus1 add_diff_cancel_left' le_iff_add)
    then show ?thesis using True by (auto simp: nth_Cons' Suc_diff_le)
  qed
qed simp

lemma end_line_None: "end_line i lines stop = None \<Longrightarrow> m < length lines \<Longrightarrow> sp_end (lines ! m) < stop"
  by (induction lines arbitrary: i m) (auto simp: nth_Cons' split: if_splits)

section \<open>Line ranges and groups\<close>

text \<open>A replacement touches the line it starts in and every line it reaches into.\<close>

definition touches :: "js_string list \<Rightarrow> 'z replacement_scheme \<Rightarrow> nat \<Rightarrow> bool" where
  "touches lines r k \<longleftrightarrow> k < length lines \<and> rp_matchIndex r < line_offset lines (Suc k) \<and>
     (line_offset lines k \<le> rp_matchIndex r \<or> line_offset lines k < rp_matchIndex r + rp_matchLength r)"

definition in_text :: "nat \<Rightarrow> 'z replacement_scheme \<Rightarrow> bool" where
  "in_text n r \<longleftrightarrow> rp_matchIndex r < n \<and> rp_matchIndex r + rp_matchLength r \<le> n"

lemma line_offset_less: "line_offset lines i < line_offset lines k \<Longrightarrow> i < k"
  using line_offset_mono by (metis leD not_le)

lemma line_range:
  assumes "in_text (length (concat lines)) r"
  obtains a b where "getReplacementLineRange (line_spans 0 lines) r = Inr (a, b)" "a < b" "b \<le> length lines"
    "line_offset lines a \<le> rp_matchIndex r" "rp_matchIndex r < line_offset lines (Suc a)"
    "rp_matchIndex r + rp_matchLength r \<le> line_offset lines b"
    "\<And>k. touches lines r k \<longleftrightarrow> a \<le> k \<and> k < b"
proof -
  let ?i = "rp_matchIndex r" and ?j = "rp_matchIndex r + rp_matchLength r" and ?n = "length lines"
  let ?off = "line_offset lines" and ?sp = "line_spans 0 lines"
  have "?i < ?off ?n" using assms by (simp add: in_text_def line_offset_end)
  then obtain k where k: "k < ?n" "\<forall>m \<le> k. \<not> ?i < ?off m" "?i < ?off (Suc k)"
    using ex_least_nat_less [of "\<lambda>m. ?i < ?off m" ?n] by auto
  have "start_line 0 ?sp ?i \<noteq> None"
  proof
    assume "start_line 0 ?sp ?i = None"
    from start_line_None [OF this, of k] k(1) have "\<not> (?off k \<le> ?i \<and> ?i < ?off (Suc k))"
      by (simp add: line_spans_nth)
    then show False using k(2,3) by (simp add: not_less)
  qed
  then obtain a where a: "start_line 0 ?sp ?i = Some a" by auto
  from start_line_Some [OF a] have a': "a < ?n" "?off a \<le> ?i" "?i < ?off (Suc a)"
    by (auto simp: line_spans_nth)
  have nth: "drop a ?sp ! m = \<lparr>sp_start = ?off (a + m), sp_end = ?off (Suc (a + m))\<rparr>" if "m < ?n - a" for m
    using that a'(1) by (simp add: line_spans_nth)
  have "Suc (a + (?n - 1 - a)) = ?n" "?n - 1 - a < ?n - a" using a'(1) by simp_all
  then have "sp_end (drop a ?sp ! (?n - 1 - a)) = ?off ?n" by (simp only: nth line_span.simps)
  moreover have "?j \<le> ?off ?n" using assms by (simp add: in_text_def line_offset_end)
  ultimately have "end_line a (drop a ?sp) ?j \<noteq> None"
    using end_line_None [of a "drop a ?sp" ?j "?n - 1 - a"] \<open>?n - 1 - a < ?n - a\<close> by force
  then obtain e where e: "end_line a (drop a ?sp) ?j = Some e" by auto
  from end_line_Some [OF e] have e': "a \<le> e" "e < ?n" "?j \<le> ?off (Suc e)" "\<forall>m < e - a. ?off (Suc (a + m)) < ?j"
    using nth by (auto simp: line_spans_nth)
  have before: "?off k < ?j" if "a < k" "k \<le> e" for k
  proof -
    have "Suc (a + (k - Suc a)) = k" "k - Suc a < e - a" using that by auto
    then show ?thesis using e'(4) by metis
  qed
  have touched: "touches lines r k \<longleftrightarrow> a \<le> k \<and> k < e + 1" for k
  proof
    assume t: "touches lines r k"
    have "a \<le> k"
    proof (rule ccontr)
      assume "\<not> a \<le> k"
      then have "?off (Suc k) \<le> ?off a" by (intro line_offset_mono) simp
      with t a'(2) show False by (simp add: touches_def)
    qed
    moreover have "k \<le> e"
    proof (rule ccontr)
      assume "\<not> k \<le> e"
      then have "?off (Suc e) \<le> ?off k" by (intro line_offset_mono) simp
      moreover have "?off (Suc a) \<le> ?off (Suc e)" using e'(1) by (intro line_offset_mono) simp
      ultimately show False using t e'(3) a'(3) by (simp add: touches_def)
    qed
    ultimately show "a \<le> k \<and> k < e + 1" by simp
  next
    assume k: "a \<le> k \<and> k < e + 1"
    then have "?off (Suc a) \<le> ?off (Suc k)" by (intro line_offset_mono) simp
    then show "touches lines r k"
      using k a' e'(2) before [of k] by (cases "k = a") (auto simp: touches_def)
  qed
  have "getReplacementLineRange ?sp r = Inr (a, e + 1)"
    using a e by (simp add: getReplacementLineRange_def)
  then show ?thesis using a' e' touched by (intro that [of a "e + 1"]) auto
qed

definition group_ok :: "js_string list \<Rightarrow> 'z group \<Rightarrow> bool" where
  "group_ok lines g \<longleftrightarrow> g_startLine g < g_endLine g \<and> g_endLine g \<le> length lines \<and> g_replacements g \<noteq> [] \<and>
     disjoint_from (line_offset lines (g_startLine g)) (g_replacements g) \<and>
     ends_by (line_offset lines (g_endLine g)) (g_replacements g)"

definition groups_ok :: "js_string list \<Rightarrow> 'z group list \<Rightarrow> bool" where
  "groups_ok lines gs \<longleftrightarrow> (\<forall>g \<in> set gs. group_ok lines g) \<and> sorted_wrt (\<lambda>g h. g_endLine g \<le> g_startLine h) gs"

definition covered :: "'z group list \<Rightarrow> nat \<Rightarrow> bool" where
  "covered gs k \<longleftrightarrow> (\<exists>g \<in> set gs. g_startLine g \<le> k \<and> k < g_endLine g)"

lemma disjoint_from_le: "disjoint_from p rs \<Longrightarrow> r \<in> set rs \<Longrightarrow> p \<le> rp_matchIndex r"
  by (induction rs arbitrary: p) fastforce+

lemma disjoint_from_snoc:
  "disjoint_from p (rs @ [r]) \<longleftrightarrow> disjoint_from p rs \<and> p \<le> rp_matchIndex r \<and> ends_by (rp_matchIndex r) rs"
proof (induction rs arbitrary: p)
  case (Cons r' rs)
  then show ?case by (auto simp: ends_by_def)
qed (simp add: ends_by_def)

lemma ends_by_mono: "ends_by p rs \<Longrightarrow> p \<le> q \<Longrightarrow> ends_by q rs"
  by (auto simp: ends_by_def)

lemma group_snoc:
  assumes gs: "groups_ok lines gs" "concat (map g_replacements gs) = rs" "disjoint_from 0 (rs @ [r])"
    and ab: "a < b" "b \<le> length lines" "line_offset lines a \<le> rp_matchIndex r"
      "rp_matchIndex r < line_offset lines (Suc a)" "rp_matchIndex r + rp_matchLength r \<le> line_offset lines b"
  shows "groups_ok lines (add_to_groups gs (a, b) r)"
    and "concat (map g_replacements (add_to_groups gs (a, b) r)) = rs @ [r]"
    and "covered (add_to_groups gs (a, b) r) k \<longleftrightarrow> covered gs k \<or> a \<le> k \<and> k < b"
proof -
  have new: "group_ok lines \<lparr>g_startLine = a, g_endLine = b, g_replacements = [r]\<rparr>"
    using ab by (simp add: group_ok_def ends_by_def)
  have "groups_ok lines (add_to_groups gs (a, b) r) \<and>
      concat (map g_replacements (add_to_groups gs (a, b) r)) = rs @ [r] \<and>
      (covered (add_to_groups gs (a, b) r) k \<longleftrightarrow> covered gs k \<or> a \<le> k \<and> k < b)"
  proof (cases gs rule: rev_cases)
    case Nil
    then show ?thesis using new gs(2) by (auto simp: add_to_groups_def groups_ok_def covered_def)
  next
    case (snoc gs' g)
    have g: "group_ok lines g" "\<forall>h \<in> set gs'. group_ok lines h"
      "sorted_wrt (\<lambda>g h. g_endLine g \<le> g_startLine h) gs'" "\<forall>h \<in> set gs'. g_endLine h \<le> g_startLine g"
      using gs(1) snoc by (auto simp: groups_ok_def sorted_wrt_append)
    obtain r' where r': "r' \<in> set (g_replacements g)" using g(1) by (cases "g_replacements g") (auto simp: group_ok_def)
    have prev: "ends_by (rp_matchIndex r) rs" using gs(3) by (simp add: disjoint_from_snoc)
    then have prev_g: "ends_by (rp_matchIndex r) (g_replacements g)" using gs(2) snoc by (auto simp: ends_by_def)
    have "line_offset lines (g_startLine g) \<le> rp_matchIndex r'"
      using g(1) r' disjoint_from_le by (auto simp: group_ok_def)
    moreover have "rp_matchIndex r' \<le> rp_matchIndex r" using prev_g r' by (force simp: ends_by_def)
    ultimately have start: "line_offset lines (g_startLine g) \<le> rp_matchIndex r" "g_startLine g \<le> a"
      using ab(4) line_offset_less [of lines "g_startLine g" "Suc a"] by auto
    show ?thesis
    proof (cases "a < g_endLine g")
      case True
      let ?g = "g\<lparr>g_endLine := max (g_endLine g) b, g_replacements := g_replacements g @ [r]\<rparr>"
      have "ends_by (line_offset lines (max (g_endLine g) b)) (g_replacements g @ [r])"
        using g(1) ab(5) line_offset_mono [of "g_endLine g" "max (g_endLine g) b" lines]
          line_offset_mono [of b "max (g_endLine g) b" lines]
        by (fastforce simp: group_ok_def ends_by_def)
      then have "group_ok lines ?g"
        using g(1) ab(2) start prev_g by (auto simp: group_ok_def disjoint_from_snoc)
      then show ?thesis
        using g True snoc gs(2) start(2) ab(1)
        by (auto simp: add_to_groups_def groups_ok_def covered_def sorted_wrt_append)
    next
      case False
      moreover have "\<forall>h \<in> set gs'. g_endLine h \<le> a" using g(4) start(2) by fastforce
      ultimately show ?thesis
        using g new snoc gs(2) by (auto simp: add_to_groups_def groups_ok_def covered_def sorted_wrt_append)
    qed
  qed
  then show "groups_ok lines (add_to_groups gs (a, b) r)"
    "concat (map g_replacements (add_to_groups gs (a, b) r)) = rs @ [r]"
    "covered (add_to_groups gs (a, b) r) k \<longleftrightarrow> covered gs k \<or> a \<le> k \<and> k < b" by blast+
qed

lemma group_replacements_ok:
  assumes "disjoint_from 0 rs" "\<forall>r \<in> set rs. in_text (length (concat lines)) r"
  shows "\<exists>gs. group_replacements (line_spans 0 lines) rs = Inr gs \<and> groups_ok lines gs \<and>
    concat (map g_replacements gs) = rs \<and> (\<forall>k. covered gs k \<longleftrightarrow> (\<exists>r \<in> set rs. touches lines r k))"
  using assms
proof (induction rs rule: rev_induct)
  case Nil
  then show ?case by (simp add: group_replacements_def groups_ok_def covered_def)
next
  case (snoc r rs)
  then obtain gs where gs: "group_replacements (line_spans 0 lines) rs = Inr gs" "groups_ok lines gs"
    "concat (map g_replacements gs) = rs" "\<forall>k. covered gs k \<longleftrightarrow> (\<exists>r \<in> set rs. touches lines r k)"
    by (auto simp: disjoint_from_snoc)
  have "in_text (length (concat lines)) r" using snoc.prems by simp
  then obtain a b where ab: "getReplacementLineRange (line_spans 0 lines) r = Inr (a, b)" "a < b" "b \<le> length lines"
    "line_offset lines a \<le> rp_matchIndex r" "rp_matchIndex r < line_offset lines (Suc a)"
    "rp_matchIndex r + rp_matchLength r \<le> line_offset lines b" "\<And>k. touches lines r k \<longleftrightarrow> a \<le> k \<and> k < b"
    by (rule line_range) blast
  have step: "group_replacements (line_spans 0 lines) (rs @ [r]) = Inr (add_to_groups gs (a, b) r)"
    using gs(1) ab(1) by (simp add: group_replacements_def for_each_append)
  show ?case
    unfolding step using group_snoc [OF gs(2,3) snoc.prems(1) ab(2-6)] gs(4) ab(7) by auto
qed

section \<open>Weaving\<close>

lemma concat_map_upt_eq:
  assumes "i \<le> m" "m \<le> n" "\<forall>k. i \<le> k \<and> k < m \<longrightarrow> f k = lines ! k" "n \<le> length lines"
  shows "concat (map f [i..<m]) = concat (take (m - i) (drop i lines))"
proof -
  have "map f [i..<m] = take (m - i) (drop i lines)"
    using assms by (auto simp: list_eq_iff_nth_eq)
  then show ?thesis by simp
qed

lemma weave_pieces:
  assumes "groups_ok lines gs" "\<forall>g \<in> set gs. i \<le> g_startLine g" "i \<le> length lines"
  shows "\<exists>P. \<forall>orig. length orig = length lines \<longrightarrow>
    weave_lines orig (line_spans 0 lines) base i gs =
      concat (map (\<lambda>k. if covered gs k then P k else orig ! k) [i..<length lines])"
  using assms
proof (induction gs arbitrary: i)
  case Nil
  have "weave_lines orig (line_spans 0 lines) base i [] =
      concat (map (\<lambda>k. if covered [] k then [] else orig ! k) [i..<length lines])"
    if "length orig = length lines" for orig
    using concat_map_upt_eq [of i "length lines" "length lines" "\<lambda>k. orig ! k" orig] Nil that
    by (simp add: covered_def)
  then show ?case by (intro exI [of _ "\<lambda>_. []"]) blast
next
  case (Cons g gs)
  let ?n = "length lines" and ?sp = "line_spans 0 lines"
  let ?new = "applyReplacements (take (sp_end (?sp ! (g_endLine g - 1)) - sp_start (?sp ! g_startLine g))
      (drop (sp_start (?sp ! g_startLine g)) base)) (g_replacements g) (sp_start (?sp ! g_startLine g))"
  have g: "group_ok lines g" "groups_ok lines gs" "\<forall>h \<in> set gs. g_endLine g \<le> g_startLine h"
    using Cons.prems by (auto simp: groups_ok_def)
  have b: "i \<le> g_startLine g" "g_startLine g < g_endLine g" "g_endLine g \<le> ?n"
    using Cons.prems g(1) by (auto simp: group_ok_def)
  obtain P where P: "\<forall>orig. length orig = ?n \<longrightarrow> weave_lines orig ?sp base (g_endLine g) gs =
      concat (map (\<lambda>k. if covered gs k then P k else orig ! k) [g_endLine g..<?n])"
    using Cons.IH [OF g(2,3) b(3)] by blast
  let ?P = "\<lambda>k. if k = g_startLine g then ?new else if k < g_endLine g then [] else P k"
  have "weave_lines orig ?sp base i (g # gs) =
      concat (map (\<lambda>k. if covered (g # gs) k then ?P k else orig ! k) [i..<?n])"
    if orig: "length orig = ?n" for orig
  proof -
    let ?f = "\<lambda>k. if covered (g # gs) k then ?P k else orig ! k"
    have split: "[i..<?n] = [i..<g_startLine g] @ [g_startLine g..<g_endLine g] @ [g_endLine g..<?n]"
      using b upt_add_eq_append [of i "g_startLine g" "g_endLine g - g_startLine g"]
        upt_add_eq_append [of i "g_endLine g" "?n - g_endLine g"] by simp
    have "\<forall>k. i \<le> k \<and> k < g_startLine g \<longrightarrow> ?f k = orig ! k"
      using g(3) b by (auto simp: covered_def)
    then have before: "concat (map ?f [i..<g_startLine g]) = concat (take (g_startLine g - i) (drop i orig))"
      using concat_map_upt_eq [of i "g_startLine g" ?n ?f orig] b orig by simp
    have "[g_startLine g..<g_endLine g] = g_startLine g # [Suc (g_startLine g)..<g_endLine g]"
      using b(2) by (rule upt_conv_Cons)
    moreover have "concat (map ?f [Suc (g_startLine g)..<g_endLine g]) = []"
      by (auto simp: covered_def)
    ultimately have mid: "concat (map ?f [g_startLine g..<g_endLine g]) = ?new"
      using b(2) by (simp add: covered_def)
    have later: "map ?f [g_endLine g..<?n] = map (\<lambda>k. if covered gs k then P k else orig ! k) [g_endLine g..<?n]"
      using b(2) by (auto simp: covered_def)
    have rest: "concat (map ?f [g_endLine g..<?n]) = weave_lines orig ?sp base (g_endLine g) gs"
      unfolding later using P orig by simp
    show ?thesis unfolding split map_append concat_append before mid rest by (simp add: Let_def)
  qed
  then show ?case by (intro exI [of _ ?P]) blast
qed

lemma concat_lines_between:
  assumes "i \<le> k"
  shows "concat (take (k - i) (drop i lines)) =
    take (line_offset lines k - line_offset lines i) (drop (line_offset lines i) (concat lines))"
proof -
  have "lines = take i lines @ take (k - i) (drop i lines) @ drop k lines"
    using assms by (metis append_assoc append_take_drop_id le_add_diff_inverse take_add)
  then have cat: "concat lines = concat (take i lines) @ concat (take (k - i) (drop i lines)) @ concat (drop k lines)"
    by (metis concat_append)
  have "take k lines = take i lines @ take (k - i) (drop i lines)"
    using assms by (metis le_add_diff_inverse take_add)
  then have "line_offset lines k = line_offset lines i + length (concat (take (k - i) (drop i lines)))"
    by (simp add: line_offset_def)
  then show ?thesis unfolding cat by (simp add: line_offset_def)
qed

lemma disjoint_from_append:
  "disjoint_from p rs \<Longrightarrow> ends_by q rs \<Longrightarrow> p \<le> q \<Longrightarrow> disjoint_from q rs' \<Longrightarrow> disjoint_from p (rs @ rs')"
proof (induction rs arbitrary: p)
  case Nil
  then show ?case using disjoint_from_mono by simp
qed (auto simp: ends_by_def)

lemma groups_disjoint:
  assumes "groups_ok lines gs" "\<forall>g \<in> set gs. i \<le> g_startLine g"
  shows "disjoint_from (line_offset lines i) (concat (map g_replacements gs))"
  using assms
proof (induction gs arbitrary: i)
  case (Cons g gs)
  have g: "group_ok lines g" "groups_ok lines gs" "\<forall>h \<in> set gs. g_endLine g \<le> g_startLine h" "i \<le> g_startLine g"
    using Cons.prems by (auto simp: groups_ok_def)
  have "disjoint_from (line_offset lines i) (g_replacements g)"
    using g(1,4) disjoint_from_mono line_offset_mono by (fastforce simp: group_ok_def)
  moreover have "line_offset lines i \<le> line_offset lines (g_endLine g)"
    using g(1,4) by (intro line_offset_mono) (simp add: group_ok_def)
  ultimately show ?case
    using disjoint_from_append [OF _ _ _ Cons.IH [OF g(2,3)]] g(1) by (simp add: group_ok_def)
qed simp

lemma weave_base:
  assumes "groups_ok lines gs" "\<forall>g \<in> set gs. i \<le> g_startLine g" "i \<le> length lines"
  shows "weave_lines lines (line_spans 0 lines) (concat lines) i gs =
      splice_at (line_offset lines i) (drop (line_offset lines i) (concat lines)) (concat (map g_replacements gs))"
  using assms
proof (induction gs arbitrary: i)
  case Nil
  have "concat lines = concat (take i lines) @ concat (drop i lines)"
    by (metis append_take_drop_id concat_append)
  then show ?case by (simp add: line_offset_def)
next
  case (Cons g gs)
  let ?n = "length lines" and ?off = "line_offset lines" and ?base = "concat lines"
  let ?s = "g_startLine g" and ?e = "g_endLine g"
  have g: "group_ok lines g" "groups_ok lines gs" "\<forall>h \<in> set gs. ?e \<le> g_startLine h"
    using Cons.prems by (auto simp: groups_ok_def)
  have b: "i \<le> ?s" "?s < ?e" "?e \<le> ?n" using Cons.prems g(1) by (auto simp: group_ok_def)
  have offs: "?off i \<le> ?off ?s" "?off ?s \<le> ?off ?e" "?off ?e \<le> length ?base"
    using b line_offset_mono [of _ _ lines] line_offset_end [of lines] by (metis less_imp_le)+
  have sp: "sp_start (line_spans 0 lines ! ?s) = ?off ?s" "sp_end (line_spans 0 lines ! (?e - 1)) = ?off ?e"
    using b by (simp_all add: line_spans_nth)
  have reps: "disjoint_from (?off ?s) (g_replacements g)" "ends_by (?off ?e) (g_replacements g)"
    using g(1) by (auto simp: group_ok_def)
  have later: "disjoint_from (?off ?e) (concat (map g_replacements gs))" using groups_disjoint [OF g(2,3)] .
  have all: "disjoint_from (?off ?s) (g_replacements g @ concat (map g_replacements gs))"
    using disjoint_from_append [OF reps offs(2) later] .
  let ?new = "applyReplacements (take (?off ?e - ?off ?s) (drop (?off ?s) ?base)) (g_replacements g) (?off ?s)"
  have "concat (take (?s - i) (drop i lines)) = take (?off ?s - ?off i) (drop (?off i) ?base)"
    using concat_lines_between [OF b(1)] .
  moreover have "?new = splice_at (?off ?s) (take (?off ?e - ?off ?s) (drop (?off ?s) ?base)) (g_replacements g)"
    by (rule applyReplacements_splice) (use reps offs in auto)
  moreover have "splice_at (?off ?s) (drop (?off ?s) ?base) (g_replacements g @ concat (map g_replacements gs)) =
      splice_at (?off ?s) (take (?off ?e - ?off ?s) (drop (?off ?s) ?base)) (g_replacements g) @
      splice_at (?off ?e) (drop (?off ?e) ?base) (concat (map g_replacements gs))"
    using splice_append [OF reps offs(2) _ later, of "drop (?off ?s) ?base"] offs by simp
  moreover have "splice_at (?off i) (drop (?off i) ?base) (g_replacements g @ concat (map g_replacements gs)) =
      take (?off ?s - ?off i) (drop (?off i) ?base) @
      splice_at (?off ?s) (drop (?off ?s) ?base) (g_replacements g @ concat (map g_replacements gs))"
    using splice_skip [OF all offs(1), of "drop (?off i) ?base"] offs by simp
  ultimately show ?case
    using Cons.IH [OF g(2,3) b(3)] by (simp only: weave_lines.simps Let_def sp list.map concat.simps append_assoc)
qed

section \<open>Edits that match exactly\<close>

lemma index_of_Some:
  "index_of s p = Some i \<Longrightarrow> take (length p) (drop i s) = p \<and> i + length p \<le> length s"
proof (induction s arbitrary: i)
  case Nil
  then show ?case by (simp split: if_splits)
next
  case (Cons c cs)
  show ?case
  proof (cases "starts_with (c # cs) p")
    case True
    then have "length p \<le> length (c # cs)" unfolding starts_with_def by (metis length_take min.cobounded1)
    then show ?thesis using True Cons.prems by (simp add: starts_with_def)
  next
    case False
    then show ?thesis using Cons by auto
  qed
qed

definition exact_match :: "js_string \<Rightarrow> edit \<Rightarrow> matched_edit \<Rightarrow> bool" where
  "exact_match content e m \<longleftrightarrow>
     take (rp_matchLength m) (drop (rp_matchIndex m) content) = ed_oldText e \<and>
     rp_matchLength m = length (ed_oldText e) \<and>
     rp_matchIndex m + rp_matchLength m \<le> length content \<and> rp_newText m = ed_newText e"

lemma match_edits_exact:
  assumes "match_edits nfkc content i es = Inr ms" "\<forall>e \<in> set es. index_of content (ed_oldText e) \<noteq> None"
  shows "length ms = length es \<and> (\<forall>k < length es. me_editIndex (ms ! k) = i + k \<and> exact_match content (es ! k) (ms ! k))"
  using assms
proof (induction es arbitrary: i ms)
  case Nil
  then show ?case by simp
next
  case (Cons e es)
  obtain j where j: "index_of content (ed_oldText e) = Some j" using Cons.prems(2) by auto
  obtain ms' where ms': "match_edits nfkc content (i + 1) es = Inr ms'"
    "ms = \<lparr>rp_matchIndex = j, rp_matchLength = length (ed_oldText e), rp_newText = ed_newText e, me_editIndex = i\<rparr> # ms'"
    using Cons.prems(1) j by (auto simp: Let_def fuzzyFindText_def split: if_splits sum.splits)
  have "exact_match content e (ms ! 0)"
    using index_of_Some [OF j] ms'(2) by (simp add: exact_match_def)
  then show ?case
    using Cons.IH [OF ms'(1)] Cons.prems(2) ms'(2) by (auto simp: less_Suc_eq_0_disj)
qed

lemma check_overlap_disjoint:
  "check_overlap ms = Inr () \<Longrightarrow> disjoint_from 0 (ms :: matched_edit list)"
proof (induction ms rule: check_overlap.induct)
  case (1 p c ms)
  then show ?case by (auto split: if_splits)
qed auto

lemma applyEdits_exact:
  assumes "applyEditsToNormalizedContent nfkc content edits = Inr r"
    and "\<forall>e \<in> set edits. index_of content (normalizeToLF (ed_oldText e)) \<noteq> None"
  shows "\<exists>ms. match_edits nfkc content 0 (map normalize_edit edits) = Inr ms \<and>
    check_overlap (sort_by rp_matchIndex ms) = Inr () \<and> ae_baseContent r = content \<and> ae_newContent r \<noteq> content \<and>
    ae_newContent r = applyReplacements content (sort_by rp_matchIndex ms) 0"
proof -
  have "\<not> list_ex (\<lambda>e. fm_usedFuzzyMatch (fuzzyFindText nfkc content (ed_oldText e))) (map normalize_edit edits)"
    using assms(2) by (auto simp: list_ex_iff fuzzyFindText_def normalize_edit_def)
  then show ?thesis
    using assms(1)
    by (auto simp: applyEditsToNormalizedContent_def Let_def split: option.splits sum.splits if_splits)
qed

section \<open>The displayed diff\<close>

definition shown_in :: "js_string list \<Rightarrow> js_string list \<Rightarrow> diff_line \<Rightarrow> bool" where
  "shown_in oldLines newLines d \<longleftrightarrow>
     (case d of
        AddedLine n line \<Rightarrow> 0 < n \<and> n \<le> length newLines \<and> newLines ! (n - 1) = line
      | RemovedLine n line \<Rightarrow> 0 < n \<and> n \<le> length oldLines \<and> oldLines ! (n - 1) = line
      | ContextLine n line \<Rightarrow> 0 < n \<and> n \<le> length oldLines \<and> oldLines ! (n - 1) = line
      | Ellipsis \<Rightarrow> True)"

definition side_lines :: "part_kind \<Rightarrow> diff_part list \<Rightarrow> js_string list" where
  "side_lines other parts = concat (map raw_lines (filter (\<lambda>p. dp_kind p \<noteq> other) parts))"

fun changed_lines :: "diff_line list \<Rightarrow> (bool \<times> js_string) list" where
  "changed_lines [] = []"
| "changed_lines (AddedLine _ line # ds) = (True, line) # changed_lines ds"
| "changed_lines (RemovedLine _ line # ds) = (False, line) # changed_lines ds"
| "changed_lines (_ # ds) = changed_lines ds"

definition part_changes :: "diff_part \<Rightarrow> (bool \<times> js_string) list" where
  "part_changes part =
     (if dp_kind part = PartUnchanged then []
      else map (Pair (dp_kind part = PartAdded)) (raw_lines part))"

lemma changed_lines_append [simp]: "changed_lines (xs @ ys) = changed_lines xs @ changed_lines ys"
  by (induction xs rule: changed_lines.induct) auto

lemma numbered_simps [simp]:
  "numbered kind n [] = []" "numbered kind n (l # ls) = kind n l # numbered kind (Suc n) ls"
  by (simp_all add: numbered_def)

lemma changed_lines_numbered [simp]:
  "changed_lines (numbered AddedLine n ls) = map (Pair True) ls"
  "changed_lines (numbered RemovedLine n ls) = map (Pair False) ls"
  "changed_lines (numbered ContextLine n ls) = []"
  by (induction ls arbitrary: n) auto

lemma changed_lines_context [simp]: "changed_lines (context_output c lead trail n raw) = []"
  by (simp add: context_output_def Let_def)

lemma shown_numbered:
  "0 < n \<Longrightarrow> n - 1 + length ls \<le> length newLines \<Longrightarrow> take (length ls) (drop (n - 1) newLines) = ls \<Longrightarrow>
    list_all (shown_in oldLines newLines) (numbered AddedLine n ls)"
  "0 < n \<Longrightarrow> n - 1 + length ls \<le> length oldLines \<Longrightarrow> take (length ls) (drop (n - 1) oldLines) = ls \<Longrightarrow>
    list_all (shown_in oldLines newLines) (numbered RemovedLine n ls)"
  "0 < n \<Longrightarrow> n - 1 + length ls \<le> length oldLines \<Longrightarrow> take (length ls) (drop (n - 1) oldLines) = ls \<Longrightarrow>
    list_all (shown_in oldLines newLines) (numbered ContextLine n ls)"
proof -
  have *: "(k, line) \<in> set (enumerate n ls) \<Longrightarrow> 0 < n \<Longrightarrow> n - 1 + length ls \<le> length xs \<Longrightarrow>
      take (length ls) (drop (n - 1) xs) = ls \<Longrightarrow> 0 < k \<and> k \<le> length xs \<and> xs ! (k - 1) = line" for k line xs
  proof -
    assume a: "(k, line) \<in> set (enumerate n ls)" "0 < n" "n - 1 + length ls \<le> length xs"
      "take (length ls) (drop (n - 1) xs) = ls"
    then obtain m where m: "m < length ls" "k = n + m" "line = ls ! m"
      by (intro that [of "k - n"]) (auto simp: in_set_enumerate_eq)
    have "ls ! m = take (length ls) (drop (n - 1) xs) ! m" using a(4) by simp
    also have "\<dots> = xs ! (n - 1 + m)" using m(1) a(3) by simp
    finally show ?thesis using m a(2,3) by simp
  qed
  show "0 < n \<Longrightarrow> n - 1 + length ls \<le> length newLines \<Longrightarrow> take (length ls) (drop (n - 1) newLines) = ls \<Longrightarrow>
    list_all (shown_in oldLines newLines) (numbered AddedLine n ls)"
    "0 < n \<Longrightarrow> n - 1 + length ls \<le> length oldLines \<Longrightarrow> take (length ls) (drop (n - 1) oldLines) = ls \<Longrightarrow>
    list_all (shown_in oldLines newLines) (numbered RemovedLine n ls)"
    "0 < n \<Longrightarrow> n - 1 + length ls \<le> length oldLines \<Longrightarrow> take (length ls) (drop (n - 1) oldLines) = ls \<Longrightarrow>
    list_all (shown_in oldLines newLines) (numbered ContextLine n ls)"
    using * by (auto simp: list_all_iff numbered_def shown_in_def)
qed

lemma shown_in_extend: "shown_in o1 n1 d \<Longrightarrow> shown_in (o1 @ o2) (n1 @ n2) d"
  by (auto simp: shown_in_def nth_append split: diff_line.splits)

lemma shown_context:
  assumes "0 < n" "n - 1 + length raw \<le> length oldLines" "take (length raw) (drop (n - 1) oldLines) = raw"
  shows "list_all (shown_in oldLines newLines) (context_output c lead trail n raw)"
proof -
  have part: "list_all (shown_in oldLines newLines) (numbered ContextLine (n + a) (take b (drop a raw)))" for a b
  proof (cases "a \<le> length raw")
    case True
    have "take (length (take b (drop a raw))) (drop (n + a - 1) oldLines) = take b (drop a raw)"
    proof -
      have "drop (n + a - 1) oldLines = drop a (drop (n - 1) oldLines)" using assms(1) by (simp add: add.commute)
      moreover have "length (take b (drop a raw)) = min (length raw - a) b" by simp
      moreover have "drop a raw = take (length raw - a) (drop a (drop (n - 1) oldLines))"
        using assms(3) by (metis drop_take)
      ultimately show ?thesis by (metis min.commute take_take)
    qed
    then show ?thesis using assms True by (intro shown_numbered(3)) auto
  qed simp
  have all: "list_all (shown_in oldLines newLines) (numbered ContextLine n raw)"
    using part [of 0 "length raw"] by simp
  show ?thesis
    using part [of 0 c] part [of "length raw - c" "length raw"] all
    by (auto simp: context_output_def Let_def shown_in_def)
qed

text \<open>The first changed line: one more than the lines of the new text before the first changed part.\<close>

definition first_change :: "diff_part list \<Rightarrow> nat option" where
  "first_change parts =
     (if list_ex (\<lambda>p. dp_kind p \<noteq> PartUnchanged) parts
      then Some (Suc (length (concat (map raw_lines (takeWhile (\<lambda>p. dp_kind p = PartUnchanged) parts)))))
      else None)"

definition diff_inv :: "diff_part list \<Rightarrow> diff_state \<Rightarrow> bool" where
  "diff_inv seen s \<longleftrightarrow>
     ds_oldLineNum s = Suc (length (side_lines PartAdded seen)) \<and>
     ds_newLineNum s = Suc (length (side_lines PartRemoved seen)) \<and>
     list_all (shown_in (side_lines PartAdded seen) (side_lines PartRemoved seen)) (ds_output s) \<and>
     changed_lines (ds_output s) = concat (map part_changes seen) \<and>
     ds_firstChangedLine s = first_change seen"

lemma side_lines_snoc:
  "side_lines other (seen @ [p]) = side_lines other seen @ (if dp_kind p = other then [] else raw_lines p)"
  by (simp add: side_lines_def)

lemma first_change_snoc:
  "first_change (seen @ [p]) =
     (case first_change seen of
        Some n \<Rightarrow> Some n
      | None \<Rightarrow> if dp_kind p = PartUnchanged then None else Some (Suc (length (side_lines PartRemoved seen))))"
proof (cases "list_ex (\<lambda>p. dp_kind p \<noteq> PartUnchanged) seen")
  case True
  then have "takeWhile (\<lambda>p. dp_kind p = PartUnchanged) (seen @ [p]) = takeWhile (\<lambda>p. dp_kind p = PartUnchanged) seen"
    by (auto simp: list_ex_iff)
  with True show ?thesis by (simp add: first_change_def)
next
  case False
  then have all: "\<forall>q \<in> set seen. dp_kind q = PartUnchanged" by (simp add: list_ex_iff)
  then have "takeWhile (\<lambda>p. dp_kind p = PartUnchanged) seen = seen" "filter (\<lambda>p. dp_kind p \<noteq> PartRemoved) seen = seen"
    by (simp_all add: filter_id_conv)
  with all False show ?thesis by (auto simp: first_change_def side_lines_def)
qed

lemma output_extend:
  "list_all (shown_in o1 n1) ds \<Longrightarrow> list_all (shown_in (o1 @ o2) (n1 @ n2)) ds"
  by (auto simp: list_all_iff shown_in_extend)

lemma diff_inv_change:
  assumes "diff_inv seen s" "dp_kind p \<noteq> PartUnchanged"
  shows "diff_inv (seen @ [p]) (show_change p s)"
proof (cases "dp_kind p = PartAdded")
  case True
  then have "list_all (shown_in (side_lines PartAdded seen) (side_lines PartRemoved seen @ raw_lines p))
      (numbered AddedLine (ds_newLineNum s) (raw_lines p))"
    using assms(1) by (intro shown_numbered) (auto simp: diff_inv_def)
  then show ?thesis
    using assms True output_extend [of "side_lines PartAdded seen" "side_lines PartRemoved seen" "ds_output s" "[]" "raw_lines p"]
    by (auto simp: diff_inv_def show_change_def Let_def side_lines_snoc first_change_snoc part_changes_def split: option.splits)
next
  case False
  with assms(2) have k: "dp_kind p = PartRemoved" by (cases "dp_kind p") auto
  then have "list_all (shown_in (side_lines PartAdded seen @ raw_lines p) (side_lines PartRemoved seen))
      (numbered RemovedLine (ds_oldLineNum s) (raw_lines p))"
    using assms(1) by (intro shown_numbered) (auto simp: diff_inv_def)
  then show ?thesis
    using assms k output_extend [of "side_lines PartAdded seen" "side_lines PartRemoved seen" "ds_output s" "raw_lines p" "[]"]
    by (auto simp: diff_inv_def show_change_def Let_def side_lines_snoc first_change_snoc part_changes_def split: option.splits)
qed

lemma diff_inv_context:
  assumes "diff_inv seen s" "dp_kind p = PartUnchanged"
  shows "diff_inv (seen @ [p]) (show_context c nextIsChange p s)"
proof -
  have "list_all (shown_in (side_lines PartAdded seen @ raw_lines p) (side_lines PartRemoved seen @ raw_lines p))
      (context_output c (ds_lastWasChange s) nextIsChange (ds_oldLineNum s) (raw_lines p))"
    using assms by (intro shown_context) (auto simp: diff_inv_def)
  then show ?thesis
    using assms output_extend [of "side_lines PartAdded seen" "side_lines PartRemoved seen" "ds_output s" "raw_lines p" "raw_lines p"]
    by (auto simp: diff_inv_def show_context_def Let_def side_lines_snoc first_change_snoc part_changes_def split: option.splits)
qed

lemma diff_loop_inv: "diff_inv seen s \<Longrightarrow> diff_inv (seen @ parts) (diff_loop c parts s)"
proof (induction parts arbitrary: seen s)
  case (Cons p parts)
  then show ?case
    using Cons.IH [of "seen @ [p]"] diff_inv_change diff_inv_context by simp
qed simp

lemma diff_inv_start: "diff_inv [] diff_start"
  by (simp add: diff_inv_def diff_start_def side_lines_def first_change_def)

text \<open>Occurrences that overlap are counted once, so an ambiguous old text can be accepted.\<close>

lemma overlapping_occurrences_accepted:
  "applyEditsToNormalizedContent id [97, 97, 97] [\<lparr>ed_oldText = [97, 97], ed_newText = [98]\<rparr>] =
     Inr \<lparr>ae_baseContent = [97, 97, 97], ae_newContent = [98, 97]\<rparr>"
  by code_simp

section \<open>Properties\<close>

text \<open>
  C28. Edits whose old texts occur literally in the content are applied as one splice: every edit
  is matched against the same content at a place where exactly its old text stands, the matches
  are disjoint, and the new content is the content with each match replaced by the new text of
  its edit and everything between the matches kept. The right-to-left replacement of the code
  computes the left-to-right reference.
\<close>

theorem exact_edits_splice:
  assumes "applyEditsToNormalizedContent nfkc content edits = Inr r"
    and "\<forall>e \<in> set edits. index_of content (normalizeToLF (ed_oldText e)) \<noteq> None"
  shows "\<exists>ms. length ms = length edits \<and>
    (\<forall>k < length edits. \<exists>m \<in> set ms. me_editIndex m = k \<and> exact_match content (normalize_edit (edits ! k)) m) \<and>
    disjoint_from 0 ms \<and> ae_newContent r = splice_at 0 content ms \<and>
    ae_baseContent r = content \<and> ae_newContent r \<noteq> content"
proof -
  from applyEdits_exact [OF assms] obtain found where f:
    "match_edits nfkc content 0 (map normalize_edit edits) = Inr found"
    "check_overlap (sort_by rp_matchIndex found) = Inr ()" "ae_baseContent r = content" "ae_newContent r \<noteq> content"
    "ae_newContent r = applyReplacements content (sort_by rp_matchIndex found) 0" by blast
  have exact: "length found = length edits" "\<forall>k < length edits. me_editIndex (found ! k) = k \<and>
      exact_match content (normalize_edit (edits ! k)) (found ! k)"
    using match_edits_exact [OF f(1)] assms(2) by (simp_all add: normalize_edit_def)
  then have "ends_by (0 + length content) (sort_by rp_matchIndex found)"
    by (auto simp: ends_by_def exact_match_def in_set_conv_nth)
  from applyReplacements_splice [OF check_overlap_disjoint [OF f(2)] this]
  have "ae_newContent r = splice_at 0 content (sort_by rp_matchIndex found)" using f(5) by simp
  moreover have "\<exists>m \<in> set (sort_by rp_matchIndex found). me_editIndex m = k \<and>
      exact_match content (normalize_edit (edits ! k)) m" if "k < length edits" for k
    using exact that by (auto intro: bexI [of _ "found ! k"])
  ultimately show ?thesis
    using f exact(1) check_overlap_disjoint [OF f(2)] by (intro exI [of _ "sort_by rp_matchIndex found"]) simp
qed

definition demo_edits :: "edit list" where
  "demo_edits = [\<lparr>ed_oldText = [100], ed_newText = [89, 89]\<rparr>, \<lparr>ed_oldText = [98], ed_newText = [88]\<rparr>]"

lemma demo_edits_applied:
  "applyEditsToNormalizedContent id [97, 98, 99, 100] demo_edits =
     Inr \<lparr>ae_baseContent = [97, 98, 99, 100], ae_newContent = [97, 88, 99, 89, 89]\<rparr>"
  by code_simp

theorem exact_edits_splice_witness:
  "\<exists>ms. length ms = 2 \<and> disjoint_from 0 ms \<and> [97, 88, 99, 89, 89] = splice_at 0 [97, 98, 99, 100] (ms :: matched_edit list)"
proof -
  have "\<forall>e \<in> set demo_edits. index_of [97, 98, 99, 100] (normalizeToLF (ed_oldText e)) \<noteq> None"
    by code_simp
  from exact_edits_splice [OF demo_edits_applied this] obtain ms :: "matched_edit list"
    where "length ms = length demo_edits" "disjoint_from 0 ms" "[97, 88, 99, 89, 89] = splice_at 0 [97, 98, 99, 100] ms"
    by auto
  then show ?thesis by (intro exI [of _ ms]) (simp add: demo_edits_def)
qed

text \<open>
  C29. Edits that needed fuzzy matching do not disturb the lines they do not touch: applied to a
  normalised base with as many lines as the original, disjoint replacements inside the base never
  fail; every line no replacement touches is copied from the original, and the touched lines get
  exactly what plain splicing of the base would put there.
\<close>

theorem fuzzy_edits_keep_untouched_lines:
  assumes "length (splitLinesWithEndings original) = length (splitLinesWithEndings base)"
    and "disjoint_from 0 (sort_by rp_matchIndex rs)" "\<forall>r \<in> set rs. in_text (length base) r"
  shows "\<exists>newLine. applyReplacementsPreservingUnchangedLines original base rs =
      Inr (concat (map (\<lambda>k. if \<exists>r \<in> set rs. touches (splitLinesWithEndings base) r k then newLine k
        else splitLinesWithEndings original ! k) [0..<length (splitLinesWithEndings base)])) \<and>
    splice_at 0 base (sort_by rp_matchIndex rs) =
      concat (map (\<lambda>k. if \<exists>r \<in> set rs. touches (splitLinesWithEndings base) r k then newLine k
        else splitLinesWithEndings base ! k) [0..<length (splitLinesWithEndings base)])"
proof -
  let ?lines = "splitLinesWithEndings base" and ?rs = "sort_by rp_matchIndex rs"
  obtain gs where gs: "group_replacements (line_spans 0 ?lines) ?rs = Inr gs" "groups_ok ?lines gs"
    "concat (map g_replacements gs) = ?rs" "\<forall>k. covered gs k \<longleftrightarrow> (\<exists>r \<in> set rs. touches ?lines r k)"
    using group_replacements_ok [OF assms(2), of ?lines] assms(3) by auto
  obtain P where P: "\<forall>orig. length orig = length ?lines \<longrightarrow> weave_lines orig (line_spans 0 ?lines) base 0 gs =
      concat (map (\<lambda>k. if covered gs k then P k else orig ! k) [0..<length ?lines])"
    using weave_pieces [OF gs(2), of 0 base] by auto
  have "applyReplacementsPreservingUnchangedLines original base rs =
      Inr (weave_lines (splitLinesWithEndings original) (line_spans 0 ?lines) base 0 gs)"
    using gs(1) assms(1) by (simp add: applyReplacementsPreservingUnchangedLines_def getLineSpans_def Let_def)
  moreover have "weave_lines ?lines (line_spans 0 ?lines) base 0 gs = splice_at 0 base ?rs"
    using weave_base [OF gs(2), of 0] gs(3) by simp
  ultimately show ?thesis using P assms(1) gs(4) by (intro exI [of _ P]) simp
qed

definition demo_replacements :: "replacement list" where
  "demo_replacements = [\<lparr>rp_matchIndex = 2, rp_matchLength = 1, rp_newText = [88]\<rparr>]"

theorem fuzzy_edits_keep_untouched_lines_witness:
  "\<exists>newLine. applyReplacementsPreservingUnchangedLines [97, 32, 10, 98, 32, 10] [97, 10, 98, 10] demo_replacements =
      Inr ([97, 32, 10] @ newLine)"
proof -
  have n: "splitLinesWithEndings [97, 10, 98, 10] = [[97, 10], [98, 10]]"
    "splitLinesWithEndings [97, 32, 10, 98, 32, 10] = [[97, 32, 10], [98, 32, 10]]" by code_simp+
  have t: "\<not> touches [[97, 10], [98, 10]] r 0" "touches [[97, 10], [98, 10]] r (Suc 0)"
    if "r \<in> set demo_replacements" for r
    using that by (simp_all add: demo_replacements_def touches_def line_offset_def)
  have "\<forall>r \<in> set demo_replacements. in_text (length [97, 10, 98, 10 :: code_unit]) r"
    "disjoint_from 0 (sort_by rp_matchIndex demo_replacements)"
    by (simp_all add: demo_replacements_def in_text_def)
  from fuzzy_edits_keep_untouched_lines [OF _ this(2,1), of "[97, 32, 10, 98, 32, 10]"] show ?thesis
    unfolding n using t by (auto simp: demo_replacements_def)
qed

text \<open>
  Line endings survive an edit: a text whose line breaks are all CRLF, or that has no carriage
  return, is restored from its LF form unchanged with the ending that was detected; and LF text
  written with either ending normalises back to itself.
\<close>

lemma line_endings_round_trip:
  assumes "crlf_only str \<or> carriage_return \<notin> set str" "carriage_return \<notin> set lf"
  shows "restoreLineEndings (normalizeToLF str) (detectLineEnding str) = str \<and>
    normalizeToLF (restoreLineEndings lf ending) = lf"
  using uniform_round_trip [OF assms(1)] normalize_restore [OF assms(2)] by blast

lemma line_endings_round_trip_witness:
  "restoreLineEndings (normalizeToLF [97, 13, 10, 98]) (detectLineEnding [97, 13, 10, 98]) = [97, 13, 10, 98] \<and>
   normalizeToLF (restoreLineEndings [97, 10] CRLF) = [97, 10]"
  by (rule line_endings_round_trip) (simp_all add: carriage_return_def newline_def)

text \<open>
  The displayed diff is truthful: every line it shows carries its true line number (added lines
  in the new text, removed and context lines in the old text), no added or removed line is left
  out or reordered whatever the amount of context, and the reported first changed line is where
  the first changed part starts in the new text.
\<close>

lemma diff_shows_true_line_numbers:
  "list_all (shown_in (side_lines PartAdded parts) (side_lines PartRemoved parts))
      (ds_output (diff_loop contextLines parts diff_start)) \<and>
   changed_lines (ds_output (diff_loop contextLines parts diff_start)) = concat (map part_changes parts) \<and>
   snd (generateDiffString oldContent newContent contextLines parts) = first_change parts"
  using diff_loop_inv [OF diff_inv_start, of parts contextLines]
  by (simp add: diff_inv_def generateDiffString_def Let_def)

text \<open>
  An old text of spaces is always refused as a duplicate, with an invented count, even when it
  occurs exactly once: its normal form is empty, and splitting by an empty separator counts the
  code units of the content.
\<close>

lemma blank_old_text_refused:
  assumes "old \<noteq> []" "set old = {32}" "nfkc old = old" "index_of content old \<noteq> None"
    and "3 \<le> length (normalizeForFuzzyMatch nfkc content)"
  shows "applyEditsToNormalizedContent nfkc content [\<lparr>ed_oldText = old, ed_newText = new\<rparr>] =
    Inl (OldTextDuplicate 0 (int (length (normalizeForFuzzyMatch nfkc content)) - 1))"
proof -
  have "carriage_return \<notin> set old" "newline \<notin> set old"
    using assms(2) by (simp_all add: carriage_return_def newline_def)
  then have lf: "normalizeToLF old = old" by (simp add: normalizeToLF_id)
  have "split_newlines old = [old]"
    using \<open>newline \<notin> set old\<close> by (induction old) auto
  moreover have "trim_end old = []"
    using assms(2) by (simp add: trim_end_def js_space_def)
  ultimately have blank: "normalizeForFuzzyMatch nfkc old = []"
    using assms(3) by (simp add: normalizeForFuzzyMatch_def)
  obtain i where i: "index_of content old = Some i" using assms(4) by auto
  then show ?thesis
    using assms(1,5) lf blank
    by (simp add: applyEditsToNormalizedContent_def normalize_edit_def fuzzyFindText_def countOccurrences_def
        split_length_def Let_def)
qed

lemma blank_old_text_refused_witness:
  "applyEditsToNormalizedContent id [97, 32, 98] [\<lparr>ed_oldText = [32], ed_newText = [45]\<rparr>] =
     Inl (OldTextDuplicate 0 2)"
proof -
  have n: "normalizeForFuzzyMatch id [97, 32, 98] = [97, 32, 98]" by code_simp
  have "index_of [97, 32, 98] [32] = Some 1" by code_simp
  from blank_old_text_refused [of "[32]" id "[97, 32, 98]" "[45]"] this show ?thesis by (simp add: n)
qed

end
