(* ===== verification/Session_Context.thy ===== *)
theory Session_Context
  imports Session_State
begin

text \<open>
  What the model sees of a branch: \<^verbatim>\<open>packages/agent/src/harness/session/context.ts\<close> turns
  the entries of a branch into agent messages and the model settings in force,
  \<^verbatim>\<open>packages/agent/src/harness/messages.ts\<close> turns agent messages into messages for the
  provider. The caller's \<open>entryTransforms\<close> and \<open>entryProjectors\<close> are function arguments.
  Timestamps of entries are numbers, so the string branch of the \<open>create...Message\<close> functions
  is never taken.
\<close>

section \<open>Messages\<close>

definition nl :: string where
  "nl = [char_of (10::nat)]"

definition backtick :: string where
  "backtick = [char_of (96::nat)]"

definition COMPACTION_SUMMARY_PREFIX :: string where
  "COMPACTION_SUMMARY_PREFIX =
     ''The conversation history before this point was compacted into the following summary:'' @
     nl @ nl @ ''<summary>'' @ nl"

definition COMPACTION_SUMMARY_SUFFIX :: string where
  "COMPACTION_SUMMARY_SUFFIX = nl @ ''</summary>''"

definition BRANCH_SUMMARY_PREFIX :: string where
  "BRANCH_SUMMARY_PREFIX =
     ''The following is a summary of a branch that this conversation came back from:'' @
     nl @ nl @ ''<summary>'' @ nl"

definition BRANCH_SUMMARY_SUFFIX :: string where
  "BRANCH_SUMMARY_SUFFIX = ''</summary>''"

definition decimal_int :: "int \<Rightarrow> string" where
  "decimal_int i = (if i < 0 then ''-'' @ decimal (nat (- i)) else decimal (nat i))"

definition bashExecutionToText :: "bash_execution_message \<Rightarrow> string" where
  "bashExecutionToText msg =
     ''Ran '' @ backtick @ bx_command msg @ backtick @ nl @
     (if bx_output msg \<noteq> []
      then backtick @ backtick @ backtick @ nl @ bx_output msg @ nl @ backtick @ backtick @ backtick
      else ''(no output)'') @
     (if bx_cancelled msg then nl @ nl @ ''(command cancelled)''
      else (case bx_exitCode msg of
              None \<Rightarrow> []
            | Some code \<Rightarrow> if code \<noteq> 0 then nl @ nl @ ''Command exited with code '' @ decimal_int code else [])) @
     (case bx_fullOutputPath msg of
        None \<Rightarrow> []
      | Some path \<Rightarrow>
          if bx_truncated msg \<and> path \<noteq> [] then nl @ nl @ ''[Output truncated. Full output: '' @ path @ '']'' else [])"

definition createBranchSummaryMessage :: "string \<Rightarrow> ident \<Rightarrow> int \<Rightarrow> branch_summary_message" where
  "createBranchSummaryMessage summary fromId timestamp =
     \<lparr>bsm_summary = summary, bsm_fromId = fromId, bsm_timestamp = timestamp\<rparr>"

definition createCompactionSummaryMessage :: "string \<Rightarrow> int \<Rightarrow> int \<Rightarrow> compaction_summary_message" where
  "createCompactionSummaryMessage summary tokensBefore timestamp =
     \<lparr>csm_summary = summary, csm_tokensBefore = tokensBefore, csm_timestamp = timestamp\<rparr>"

definition createCustomMessage ::
    "string \<Rightarrow> message_content \<Rightarrow> bool \<Rightarrow> json option \<Rightarrow> int \<Rightarrow> custom_message" where
  "createCustomMessage customType content display details timestamp =
     \<lparr>cm_customType = customType, cm_content = content, cm_display = display, cm_details = details,
      cm_timestamp = timestamp\<rparr>"

definition user_text :: "string \<Rightarrow> int \<Rightarrow> agent_message" where
  "user_text text timestamp =
     UserMessage \<lparr>um_content = ContentBlocks [TextInput text None], um_timestamp = timestamp\<rparr>"

fun convert_message :: "agent_message \<Rightarrow> agent_message option" where
  "convert_message (BashExecutionMessage m) =
     (if bx_excludeFromContext m = Some True then None
      else Some (user_text (bashExecutionToText m) (bx_timestamp m)))"
| "convert_message (CustomMessage m) =
     Some (UserMessage \<lparr>um_content = (case cm_content m of
         ContentString s \<Rightarrow> ContentBlocks [TextInput s None] | c \<Rightarrow> c), um_timestamp = cm_timestamp m\<rparr>)"
| "convert_message (BranchSummaryMessage m) =
     Some (user_text (BRANCH_SUMMARY_PREFIX @ bsm_summary m @ BRANCH_SUMMARY_SUFFIX) (bsm_timestamp m))"
| "convert_message (CompactionSummaryMessage m) =
     Some (user_text (COMPACTION_SUMMARY_PREFIX @ csm_summary m @ COMPACTION_SUMMARY_SUFFIX) (csm_timestamp m))"
| "convert_message (UserMessage m) = Some (UserMessage m)"
| "convert_message (AssistantMessage m) = Some (AssistantMessage m)"
| "convert_message (ToolResultMessage m) = Some (ToolResultMessage m)"

definition convertToLlm :: "agent_message list \<Rightarrow> agent_message list" where
  "convertToLlm messages = List.map_filter convert_message messages"

section \<open>The context of a branch\<close>

record context_state =
  cs_thinkingLevel :: string
  cs_model :: "(string \<times> string) option"
  cs_activeToolNames :: "string list option"

record session_context = context_state +
  sc_messages :: "agent_message list"

type_synonym entry_projector = "entry \<Rightarrow> nat \<Rightarrow> entry list \<Rightarrow> agent_message list option"

record build_options =
  bo_entryTransforms :: "(entry list \<Rightarrow> entry list) list"
  bo_entryProjectors :: "string \<Rightarrow> entry_projector option"

definition default_build_options :: build_options where
  "default_build_options = \<lparr>bo_entryTransforms = [], bo_entryProjectors = (\<lambda>_. None)\<rparr>"

definition apply_context_entry :: "entry \<Rightarrow> context_state \<Rightarrow> context_state" where
  "apply_context_entry e s =
     (case e_payload e of
        ThinkingLevelPayload level \<Rightarrow> s\<lparr>cs_thinkingLevel := level\<rparr>
      | ModelChangePayload provider modelId \<Rightarrow> s\<lparr>cs_model := Some (provider, modelId)\<rparr>
      | MessagePayload (AssistantMessage m) _ \<Rightarrow> s\<lparr>cs_model := Some (am_provider m, am_model m)\<rparr>
      | ActiveToolsPayload names \<Rightarrow> s\<lparr>cs_activeToolNames := Some names\<rparr>
      | _ \<Rightarrow> s)"

definition deriveSessionContextState :: "entry list \<Rightarrow> context_state" where
  "deriveSessionContextState pathEntries =
     fold apply_context_entry pathEntries
       \<lparr>cs_thinkingLevel = ''off'', cs_model = None, cs_activeToolNames = None\<rparr>"

text \<open>The loop from the last entry backwards, on the reversed path: the newest compaction and what follows it.\<close>

fun after_compaction :: "entry list \<Rightarrow> entry list \<Rightarrow> entry list option" where
  "after_compaction [] later = None"
| "after_compaction (e # before) later =
     (if entry_type_of e = TCompaction then Some (e # later) else after_compaction before (e # later))"

definition defaultContextEntryTransform :: "entry list \<Rightarrow> entry list" where
  "defaultContextEntryTransform pathEntries =
     (case after_compaction (rev pathEntries) [] of None \<Rightarrow> pathEntries | Some entries \<Rightarrow> entries)"

definition buildContextEntries :: "entry list \<Rightarrow> build_options \<Rightarrow> entry list" where
  "buildContextEntries pathEntries opts =
     fold (\<lambda>transform entries. transform entries) (bo_entryTransforms opts)
       (defaultContextEntryTransform pathEntries)"

definition sessionEntryToContextMessages ::
    "entry \<Rightarrow> nat \<Rightarrow> entry list \<Rightarrow> build_options \<Rightarrow> agent_message list" where
  "sessionEntryToContextMessages e index entries opts =
     (case e_payload e of
        MessagePayload m _ \<Rightarrow>
          (case m of
             AssistantMessage a \<Rightarrow> if am_stopReason a = StopDeferred then [] else [m]
           | _ \<Rightarrow> [m])
      | CompactionPayload summary retainedTail tokensBefore _ _ \<Rightarrow>
          CompactionSummaryMessage (createCompactionSummaryMessage summary tokensBefore (e_timestamp e)) # retainedTail
      | BranchSummaryPayload fromId summary _ _ \<Rightarrow>
          if summary \<noteq> [] then [BranchSummaryMessage (createBranchSummaryMessage summary fromId (e_timestamp e))] else []
      | CustomPayload customType _ \<Rightarrow>
          (case bo_entryProjectors opts customType of
             None \<Rightarrow> []
           | Some project \<Rightarrow> (case project e index entries of None \<Rightarrow> [] | Some ms \<Rightarrow> ms))
      | _ \<Rightarrow> [])"

definition buildSessionContext :: "entry list \<Rightarrow> build_options \<Rightarrow> session_context" where
  "buildSessionContext pathEntries opts =
     (let state = deriveSessionContextState pathEntries;
          contextEntries = buildContextEntries pathEntries opts;
          messages = concat (map (\<lambda>(index, e). sessionEntryToContextMessages e index contextEntries opts)
            (enumerate 0 contextEntries))
      in \<lparr>cs_thinkingLevel = cs_thinkingLevel state, cs_model = cs_model state,
          cs_activeToolNames = cs_activeToolNames state, sc_messages = messages\<rparr>)"

section \<open>Lemmas\<close>

lemma after_compaction_none:
  "\<forall>e \<in> set before. entry_type_of e \<noteq> TCompaction \<Longrightarrow> after_compaction before later = None"
  by (induction before arbitrary: later) auto

lemma after_compaction_some:
  assumes "\<forall>e \<in> set post. entry_type_of e \<noteq> TCompaction" "entry_type_of c = TCompaction"
  shows "after_compaction (rev post @ c # pre) later = Some (c # post @ later)"
  using assms
proof (induction post arbitrary: later rule: rev_induct)
  case (snoc e post)
  then show ?case by simp
qed simp

lemma transform_cuts_at_compaction:
  assumes "\<forall>e \<in> set post. entry_type_of e \<noteq> TCompaction" "entry_type_of c = TCompaction"
  shows "defaultContextEntryTransform (pre @ c # post) = c # post"
  using after_compaction_some [OF assms, of "rev pre" "[]"]
  by (simp add: defaultContextEntryTransform_def)

lemma transform_without_compaction:
  "\<forall>e \<in> set es. entry_type_of e \<noteq> TCompaction \<Longrightarrow> defaultContextEntryTransform es = es"
  using after_compaction_none [of "rev es" "[]"] by (simp add: defaultContextEntryTransform_def)

definition plain_messages :: "entry \<Rightarrow> agent_message list" where
  "plain_messages e = sessionEntryToContextMessages e 0 [] default_build_options"

lemma convert_message_role:
  "convert_message m = Some m' \<Longrightarrow> role_of m' \<in> {RoleUser, RoleAssistant, RoleToolResult}"
  by (cases m) (auto simp: user_text_def split: if_splits)

section \<open>Properties\<close>

text \<open>
  C26. Compaction replaces history in the context of a session. Whatever transforms and projectors the caller of
  \<^verbatim>\<open>buildSessionContext\<close> passes, the messages do not depend on what the branch holds before its newest
  compaction: the transforms are given that compaction and the entries after it. Without transforms the messages
  are the compaction's summary, its retained tail as it was stored, and then the messages of each entry after it
  in order. This is the context before the conversion for a provider, which may still leave messages out.
\<close>

theorem compaction_replaces_history:
  assumes "e_payload c = CompactionPayload summary retainedTail tokensBefore details usage"
    and "\<forall>e \<in> set post. entry_type_of e \<noteq> TCompaction"
  shows "buildContextEntries (pre @ c # post) opts = fold (\<lambda>transform entries. transform entries) (bo_entryTransforms opts) (c # post) \<and>
    sc_messages (buildSessionContext (pre @ c # post) opts) = sc_messages (buildSessionContext (pre' @ c # post) opts) \<and>
    (bo_entryTransforms opts = [] \<longrightarrow>
       sc_messages (buildSessionContext (pre @ c # post) opts) =
         CompactionSummaryMessage \<lparr>csm_summary = summary, csm_tokensBefore = tokensBefore, csm_timestamp = e_timestamp c\<rparr> #
         retainedTail @ concat (map (\<lambda>(i, e). sessionEntryToContextMessages e i (c # post) opts) (enumerate 1 post)))"
proof -
  have entries: "buildContextEntries (before @ c # post) opts =
      fold (\<lambda>transform entries. transform entries) (bo_entryTransforms opts) (c # post)" for before
    using transform_cuts_at_compaction [OF assms(2), of c before] assms(1)
    by (simp add: buildContextEntries_def entry_type_of_def)
  have "sessionEntryToContextMessages c 0 (c # post) opts = CompactionSummaryMessage \<lparr>csm_summary = summary,
      csm_tokensBefore = tokensBefore, csm_timestamp = e_timestamp c\<rparr> # retainedTail"
    using assms(1) by (simp add: sessionEntryToContextMessages_def createCompactionSummaryMessage_def)
  then show ?thesis by (simp add: buildSessionContext_def Let_def entries)
qed

definition demo_compaction :: entry where
  "demo_compaction = \<lparr>e_id = ''c'', e_seq = 2, e_parentId = Some ''a'', e_timestamp = 5,
     e_payload = CompactionPayload ''sum'' [] 100 None None\<rparr>"

theorem compaction_replaces_history_witness:
  "sc_messages (buildSessionContext [demo_entry ''a'' 1 None, demo_compaction] default_build_options) =
     [CompactionSummaryMessage \<lparr>csm_summary = ''sum'', csm_tokensBefore = 100, csm_timestamp = 5\<rparr>]"
proof -
  have "e_payload demo_compaction = CompactionPayload ''sum'' [] 100 None None" "e_timestamp demo_compaction = 5"
    "bo_entryTransforms default_build_options = []"
    by (simp_all add: demo_compaction_def default_build_options_def)
  then show ?thesis
    using compaction_replaces_history [of demo_compaction "''sum''" "[]" 100 None None "[]" "[demo_entry ''a'' 1 None]"
        default_build_options] by simp
qed

text \<open>
  What is sent to a provider consists of user, assistant and tool-result messages only, in
  the order of the conversation; exactly the shell executions marked as excluded are left out,
  and messages that already have one of the three roles are passed on unchanged.
\<close>

lemma provider_messages_have_provider_roles:
  "set (map role_of (convertToLlm ms)) \<subseteq> {RoleUser, RoleAssistant, RoleToolResult} \<and>
   convertToLlm (ms @ ms') = convertToLlm ms @ convertToLlm ms' \<and>
   length (convertToLlm ms) = length (filter (\<lambda>m. \<not> (\<exists>b. m = BashExecutionMessage b \<and>
     bx_excludeFromContext b = Some True)) ms) \<and>
   convertToLlm (filter (\<lambda>m. role_of m \<in> {RoleUser, RoleAssistant, RoleToolResult}) ms) =
     filter (\<lambda>m. role_of m \<in> {RoleUser, RoleAssistant, RoleToolResult}) ms"
proof (intro conjI)
  show "set (map role_of (convertToLlm ms)) \<subseteq> {RoleUser, RoleAssistant, RoleToolResult}"
    using convert_message_role
    by (induction ms) (auto simp: convertToLlm_def List.map_filter_def)
  show "convertToLlm (ms @ ms') = convertToLlm ms @ convertToLlm ms'"
    by (simp add: convertToLlm_def List.map_filter_def)
  show "length (convertToLlm ms) = length (filter (\<lambda>m. \<not> (\<exists>b. m = BashExecutionMessage b \<and>
      bx_excludeFromContext b = Some True)) ms)"
  proof (induction ms)
    case (Cons m ms)
    then show ?case by (cases m) (auto simp: convertToLlm_def List.map_filter_def)
  qed (simp add: convertToLlm_def List.map_filter_def)
  show "convertToLlm (filter (\<lambda>m. role_of m \<in> {RoleUser, RoleAssistant, RoleToolResult}) ms) =
      filter (\<lambda>m. role_of m \<in> {RoleUser, RoleAssistant, RoleToolResult}) ms"
  proof (induction ms)
    case (Cons m ms)
    then show ?case by (cases m) (auto simp: convertToLlm_def List.map_filter_def)
  qed (simp add: convertToLlm_def List.map_filter_def)
qed

end
