(* ===== verification/Json_Text.thy ===== *)
theory Json_Text
  imports Session_Types
begin

text \<open>
  JSON text as ECMAScript defines it for \<^verbatim>\<open>JSON.stringify\<close> and \<^verbatim>\<open>JSON.parse\<close>,
  the standard functions on which the session file format of
  \<^verbatim>\<open>packages/agent/src/harness/session/jsonl/codec.ts\<close> rests. Numbers are exact rationals:
  a number is written in the layout of \<^verbatim>\<open>Number::toString\<close> from its decimal digits, and a
  rational without a finite decimal expansion is no number of the program (it is written
  \<open>null\<close>, as every value that is not a finite number). Texts are over 8-bit characters, as
  everywhere in the session layer; an escape \<^verbatim>\<open>\u\<close> of a larger code unit is outside the model
  and does not read. The reader takes fuel; twice the length of the text is always enough. The
  lemmas show that printed values read back, that a printed value has no line break, and that no
  proper beginning of a printed object reads.
\<close>

section \<open>Numbers\<close>

definition is_digit :: "char \<Rightarrow> bool" where
  "is_digit c \<longleftrightarrow> 48 \<le> (of_char c :: nat) \<and> (of_char c :: nat) \<le> 57"

text \<open>\<open>strip_zeros s e\<close>: the digits and exponent of \<open>s * 10 ^ e\<close> without trailing zeros.\<close>

fun strip_zeros :: "nat \<Rightarrow> int \<Rightarrow> nat \<times> int" where
  "strip_zeros s e = (if s \<noteq> 0 \<and> 10 dvd s then strip_zeros (s div 10) (e + 1) else (s, e))"

declare strip_zeros.simps [simp del]

text \<open>The number of decimal places of a fraction with denominator \<open>b\<close>.\<close>

function decimal_scale :: "nat \<Rightarrow> nat option" where
  "decimal_scale b =
     (if b \<le> 1 then Some 0
      else if gcd b 10 = 1 then None
      else map_option Suc (decimal_scale (b div gcd b 10)))"
  by pat_completeness auto

termination
proof (relation "measure id", goal_cases)
  case (2 b)
  then have "1 < gcd b 10" using gcd_pos_nat [of b 10] by linarith
  with 2 show ?case by simp
qed simp

declare decimal_scale.simps [simp del]

definition decimal_form :: "rat \<Rightarrow> (nat \<times> int) option" where
  "decimal_form q =
     (case quotient_of q of (a, b) \<Rightarrow>
        (case decimal_scale (nat b) of
           None \<Rightarrow> None
         | Some e \<Rightarrow> Some (strip_zeros (nat (a * 10 ^ e div b)) (- int e))))"

definition exponent_text :: "int \<Rightarrow> string" where
  "exponent_text x = CHR ''e'' # (if 0 \<le> x then CHR ''+'' else CHR ''-'') # decimal (nat \<bar>x\<bar>)"

text \<open>
  The digits \<open>ds\<close> of a positive number \<open>0.ds * 10 ^ n\<close>, laid out as by Number::toString.
\<close>

definition number_layout :: "string \<Rightarrow> int \<Rightarrow> string" where
  "number_layout ds n =
     (let k = int (length ds)
      in if k \<le> n \<and> n \<le> 21 then ds @ replicate (nat (n - k)) CHR ''0''
         else if 0 < n \<and> n \<le> 21 then take (nat n) ds @ CHR ''.'' # drop (nat n) ds
         else if -6 < n \<and> n \<le> 0 then CHR ''0'' # CHR ''.'' # replicate (nat (- n)) CHR ''0'' @ ds
         else if k = 1 then ds @ exponent_text (n - 1)
         else hd ds # CHR ''.'' # tl ds @ exponent_text (n - 1))"

definition number_text :: "rat \<Rightarrow> string" where
  "number_text q =
     (if q = 0 then ''0''
      else case decimal_form \<bar>q\<bar> of
             None \<Rightarrow> ''null''
           | Some (s, e) \<Rightarrow> (if q < 0 then ''-'' else []) @
               number_layout (decimal s) (int (length (decimal s)) + e))"

definition read_fraction :: "string \<Rightarrow> (string \<times> string) option" where
  "read_fraction s =
     (case s of
        [] \<Rightarrow> Some ([], [])
      | c # t \<Rightarrow>
          if c = CHR ''.'' then
            (if takeWhile is_digit t = [] then None
             else Some (takeWhile is_digit t, dropWhile is_digit t))
          else Some ([], s))"

definition read_sign :: "string \<Rightarrow> bool \<times> string" where
  "read_sign s =
     (case s of [] \<Rightarrow> (False, [])
      | c # t \<Rightarrow> if c = CHR ''-'' then (True, t) else if c = CHR ''+'' then (False, t) else (False, s))"

definition read_exponent :: "string \<Rightarrow> (int \<times> string) option" where
  "read_exponent s =
     (case s of
        [] \<Rightarrow> Some (0, [])
      | c # t \<Rightarrow>
          if c = CHR ''e'' \<or> c = CHR ''E'' then
            (case read_sign t of (negative, r) \<Rightarrow>
               if takeWhile is_digit r = [] then None
               else let x = int (undecimal (takeWhile is_digit r))
                    in Some (if negative then - x else x, dropWhile is_digit r))
          else Some (0, s))"

definition read_unsigned :: "string \<Rightarrow> (rat \<times> string) option" where
  "read_unsigned s =
     (let ip = takeWhile is_digit s
      in if ip = [] \<or> hd ip = CHR ''0'' \<and> 1 < length ip then None
         else case read_fraction (dropWhile is_digit s) of
                None \<Rightarrow> None
              | Some (fp, r) \<Rightarrow>
                  (case read_exponent r of
                     None \<Rightarrow> None
                   | Some (x, r') \<Rightarrow>
                       Some (of_nat (undecimal (ip @ fp)) * power_int 10 (x - int (length fp)), r')))"

definition read_number :: "string \<Rightarrow> (rat \<times> string) option" where
  "read_number s =
     (case s of
        [] \<Rightarrow> None
      | c # t \<Rightarrow>
          if c = CHR ''-'' then map_option (\<lambda>(q, r). (- q, r)) (read_unsigned t)
          else read_unsigned s)"

section \<open>Strings\<close>

definition hex_char :: "nat \<Rightarrow> char" where
  "hex_char d = (if d < 10 then char_of (48 + d) else char_of (87 + d))"

definition hex_value :: "char \<Rightarrow> nat option" where
  "hex_value c =
     (let n = of_char c
      in if 48 \<le> n \<and> n \<le> 57 then Some (n - 48)
         else if 97 \<le> n \<and> n \<le> 102 then Some (n - 87)
         else if 65 \<le> n \<and> n \<le> 70 then Some (n - 55)
         else None)"

definition escape_char :: "char \<Rightarrow> string" where
  "escape_char c =
     (if c = CHR 0x08 then [CHR 0x5C, CHR ''b'']
      else if c = CHR 0x09 then [CHR 0x5C, CHR ''t'']
      else if c = CHR 0x0A then [CHR 0x5C, CHR ''n'']
      else if c = CHR 0x0C then [CHR 0x5C, CHR ''f'']
      else if c = CHR 0x0D then [CHR 0x5C, CHR ''r'']
      else if c = CHR 0x22 then [CHR 0x5C, CHR 0x22]
      else if c = CHR 0x5C then [CHR 0x5C, CHR 0x5C]
      else if (of_char c :: nat) < 32 then
        [CHR 0x5C, CHR ''u'', CHR ''0'', CHR ''0'', hex_char (of_char c div 16), hex_char (of_char c mod 16)]
      else [c])"

definition quote_text :: "string \<Rightarrow> string" where
  "quote_text s = CHR 0x22 # concat (map escape_char s) @ [CHR 0x22]"

definition unescape :: "char \<Rightarrow> char option" where
  "unescape c =
     (if c = CHR ''b'' then Some (CHR 0x08)
      else if c = CHR ''t'' then Some (CHR 0x09)
      else if c = CHR ''n'' then Some (CHR 0x0A)
      else if c = CHR ''f'' then Some (CHR 0x0C)
      else if c = CHR ''r'' then Some (CHR 0x0D)
      else if c = CHR 0x22 \<or> c = CHR 0x5C \<or> c = CHR ''/'' then Some c
      else None)"

definition read_unicode :: "string \<Rightarrow> (char \<times> string) option" where
  "read_unicode s =
     (case s of
        a # b # c # d # t \<Rightarrow>
          (case (hex_value a, hex_value b, hex_value c, hex_value d) of
             (Some 0, Some 0, Some h, Some l) \<Rightarrow> Some (char_of (16 * h + l), t)
           | _ \<Rightarrow> None)
      | _ \<Rightarrow> None)"

definition read_escape :: "string \<Rightarrow> (char \<times> string) option" where
  "read_escape s =
     (case s of
        [] \<Rightarrow> None
      | x # t \<Rightarrow> if x = CHR ''u'' then read_unicode t else map_option (\<lambda>c. (c, t)) (unescape x))"

lemma read_escape_shorter: "read_escape s = Some (c, r) \<Longrightarrow> length r < length s"
  by (auto simp: read_escape_def read_unicode_def split: list.splits if_splits option.splits nat.splits)

text \<open>The characters of a string literal after its opening quote.\<close>

function read_chars :: "string \<Rightarrow> (string \<times> string) option" where
  "read_chars [] = None"
| "read_chars (c # t) =
     (if c = CHR 0x22 then Some ([], t)
      else if (of_char c :: nat) < 32 then None
      else if c = CHR 0x5C then
        (case read_escape t of
           None \<Rightarrow> None
         | Some (x, r) \<Rightarrow> map_option (\<lambda>(s, q). (x # s, q)) (read_chars r))
      else map_option (\<lambda>(s, q). (c # s, q)) (read_chars t))"
  by pat_completeness auto

termination by (relation "measure length") (auto dest: read_escape_shorter)

section \<open>Values\<close>

definition is_space :: "char \<Rightarrow> bool" where
  "is_space c \<longleftrightarrow> c = CHR '' '' \<or> c = CHR 0x09 \<or> c = CHR 0x0A \<or> c = CHR 0x0D"

abbreviation skip_space :: "string \<Rightarrow> string" where
  "skip_space s \<equiv> dropWhile is_space s"

fun comma_join :: "string list \<Rightarrow> string" where
  "comma_join [] = []"
| "comma_join [x] = x"
| "comma_join (x # y # xs) = x @ CHR '','' # comma_join (y # xs)"

fun json_text :: "json \<Rightarrow> string" where
  "json_text JNull = ''null''"
| "json_text (JBool b) = (if b then ''true'' else ''false'')"
| "json_text (JNumber q) = number_text q"
| "json_text (JString s) = quote_text s"
| "json_text (JArray vs) = CHR ''['' # comma_join (map json_text vs) @ '']''"
| "json_text (JObject ms) =
     CHR ''{'' # comma_join (map (\<lambda>(k, v). quote_text k @ CHR '':'' # json_text v) ms) @ ''}''"

definition collect_members :: "(string \<times> json) list \<Rightarrow> (string \<times> json) list" where
  "collect_members ms = foldl (\<lambda>m (k, v). map_set m k v) [] ms"

definition read_literal :: "string \<Rightarrow> json \<Rightarrow> string \<Rightarrow> (json \<times> string) option" where
  "read_literal word v s =
     (if take (length word) s = word then Some (v, drop (length word) s) else None)"

definition flat_value :: "char \<Rightarrow> string \<Rightarrow> (json \<times> string) option" where
  "flat_value c t =
     (if c = CHR 0x22 then map_option (\<lambda>(x, r). (JString x, r)) (read_chars t)
      else if c = CHR ''t'' then read_literal ''true'' (JBool True) (c # t)
      else if c = CHR ''f'' then read_literal ''false'' (JBool False) (c # t)
      else if c = CHR ''n'' then read_literal ''null'' JNull (c # t)
      else map_option (\<lambda>(q, r). (JNumber q, r)) (read_number (c # t)))"

text \<open>
  One step of the reader, given the readers of the parts: the value that starts with the character
  \<open>c\<close>, the elements of an array after its bracket, the members of an object after its brace.
\<close>

definition value_at ::
    "(string \<Rightarrow> (json list \<times> string) option) \<Rightarrow> (string \<Rightarrow> ((string \<times> json) list \<times> string) option) \<Rightarrow>
     char \<Rightarrow> string \<Rightarrow> (json \<times> string) option" where
  "value_at elements members c t =
     (if c = CHR ''{'' then
        (if take 1 (skip_space t) = ''}'' then Some (JObject [], tl (skip_space t))
         else map_option (\<lambda>(ms, r). (JObject (collect_members ms), r)) (members t))
      else if c = CHR ''['' then
        (if take 1 (skip_space t) = '']'' then Some (JArray [], tl (skip_space t))
         else map_option (\<lambda>(vs, r). (JArray vs, r)) (elements t))
      else flat_value c t)"

definition value_step ::
    "(string \<Rightarrow> (json list \<times> string) option) \<Rightarrow> (string \<Rightarrow> ((string \<times> json) list \<times> string) option) \<Rightarrow>
     string \<Rightarrow> (json \<times> string) option" where
  "value_step elements members s =
     (case skip_space s of [] \<Rightarrow> None | c # t \<Rightarrow> value_at elements members c t)"

definition element_step ::
    "(string \<Rightarrow> (json \<times> string) option) \<Rightarrow> (string \<Rightarrow> (json list \<times> string) option) \<Rightarrow>
     string \<Rightarrow> (json list \<times> string) option" where
  "element_step val elements s =
     (case val s of
        None \<Rightarrow> None
      | Some (v, r) \<Rightarrow>
          (case skip_space r of
             [] \<Rightarrow> None
           | c # t \<Rightarrow>
               if c = CHR '','' then map_option (\<lambda>(vs, q). (v # vs, q)) (elements t)
               else if c = CHR '']'' then Some ([v], t)
               else None))"

definition read_key :: "string \<Rightarrow> (string \<times> string) option" where
  "read_key s =
     (case skip_space s of
        [] \<Rightarrow> None
      | c # t \<Rightarrow>
          if c \<noteq> CHR 0x22 then None
          else (case read_chars t of
                  None \<Rightarrow> None
                | Some (k, r) \<Rightarrow>
                    (case skip_space r of
                       [] \<Rightarrow> None
                     | d # u \<Rightarrow> if d = CHR '':'' then Some (k, u) else None)))"

definition member_step ::
    "(string \<Rightarrow> (json \<times> string) option) \<Rightarrow> (string \<Rightarrow> ((string \<times> json) list \<times> string) option) \<Rightarrow>
     string \<Rightarrow> ((string \<times> json) list \<times> string) option" where
  "member_step val members s =
     (case read_key s of
        None \<Rightarrow> None
      | Some (k, u) \<Rightarrow>
          (case val u of
             None \<Rightarrow> None
           | Some (v, w) \<Rightarrow>
               (case skip_space w of
                  [] \<Rightarrow> None
                | c # t \<Rightarrow>
                    if c = CHR '','' then map_option (\<lambda>(ms, q). ((k, v) # ms, q)) (members t)
                    else if c = CHR ''}'' then Some ([(k, v)], t)
                    else None)))"

fun read_value :: "nat \<Rightarrow> string \<Rightarrow> (json \<times> string) option"
  and read_elements :: "nat \<Rightarrow> string \<Rightarrow> (json list \<times> string) option"
  and read_members :: "nat \<Rightarrow> string \<Rightarrow> ((string \<times> json) list \<times> string) option" where
  "read_value 0 s = None"
| "read_value (Suc n) s = value_step (read_elements n) (read_members n) s"
| "read_elements 0 s = None"
| "read_elements (Suc n) s = element_step (read_value n) (read_elements n) s"
| "read_members 0 s = None"
| "read_members (Suc n) s = member_step (read_value n) (read_members n) s"

definition json_parse :: "string \<Rightarrow> json option" where
  "json_parse s =
     (case read_value (2 * length s + 2) s of
        None \<Rightarrow> None
      | Some (v, r) \<Rightarrow> if skip_space r = [] then Some v else None)"

fun json_ok :: "json \<Rightarrow> bool" where
  "json_ok (JNumber q) \<longleftrightarrow> decimal_form \<bar>q\<bar> \<noteq> None"
| "json_ok (JArray vs) \<longleftrightarrow> (\<forall>v \<in> set vs. json_ok v)"
| "json_ok (JObject ms) \<longleftrightarrow> distinct (map fst ms) \<and> (\<forall>(k, v) \<in> set ms. json_ok v)"
| "json_ok _ \<longleftrightarrow> True"

section \<open>Numbers read back\<close>

lemma is_digit_char: "d < 10 \<Longrightarrow> is_digit (digit_char d)"
  by (simp add: is_digit_def digit_char_value)

lemma decimal_digits: "\<forall>c \<in> set (decimal n). is_digit c"
proof (induction n rule: decimal.induct)
  case (1 n)
  then show ?case by (subst decimal.simps) (auto simp: is_digit_char)
qed

lemma decimal_nonempty [simp]: "decimal n \<noteq> []" "[] \<noteq> decimal n"
  by (subst decimal.simps, simp)+

lemma decimal_no_leading_zero: "0 < n \<Longrightarrow> hd (decimal n) \<noteq> CHR ''0''"
proof (induction n rule: decimal.induct)
  case (1 n)
  show ?case
  proof (cases "n < 10")
    case True
    have "of_char (digit_char n) = 48 + n" using True by (rule digit_char_value)
    then have "digit_char n \<noteq> CHR ''0''" using 1(2) by auto
    then show ?thesis using True by (subst decimal.simps) simp
  next
    case False
    then have "hd (decimal (n div 10)) \<noteq> CHR ''0''" using 1 by simp
    then show ?thesis using False by (subst decimal.simps) simp
  qed
qed

lemma undecimal_foldl:
  "foldl (\<lambda>a c. a * 10 + (of_char c - 48)) m s = m * 10 ^ length s + undecimal s"
  unfolding undecimal_def
proof (induction s rule: rev_induct)
  case (snoc c s)
  then show ?case by (simp add: algebra_simps)
qed simp

lemma undecimal_append: "undecimal (a @ b) = undecimal a * 10 ^ length b + undecimal b"
  using undecimal_foldl [of "undecimal a" b] by (simp add: undecimal_def)

lemma undecimal_zeros: "undecimal (replicate k (CHR ''0'')) = 0"
proof (induction k)
  case (Suc k)
  then show ?case using undecimal_append [of "[CHR ''0'']" "replicate k (CHR ''0'')"]
    by (simp add: undecimal_def)
qed (simp add: undecimal_def)

lemma undecimal_zero: "undecimal (CHR ''0'' # s) = undecimal s"
  using undecimal_append [of "[CHR ''0'']" s] by (simp add: undecimal_def)

definition starts_with :: "(char \<Rightarrow> bool) \<Rightarrow> string \<Rightarrow> bool" where
  "starts_with P s \<longleftrightarrow> (case s of [] \<Rightarrow> False | c # _ \<Rightarrow> P c)"

lemma starts_with_simps [simp]: "\<not> starts_with P []" "starts_with P (c # s) \<longleftrightarrow> P c"
  by (simp_all add: starts_with_def)

lemma takeWhile_digits:
  assumes "\<forall>c \<in> set ds. P c" "\<not> starts_with P r"
  shows "takeWhile P (ds @ r) = ds \<and> dropWhile P (ds @ r) = r"
  using assms by (cases r) (simp_all add: takeWhile_append2 dropWhile_append2)

text \<open>A text after which no digit of a number continues.\<close>

definition number_end :: "string \<Rightarrow> bool" where
  "number_end s \<longleftrightarrow> \<not> starts_with (\<lambda>c. is_digit c \<or> c = CHR ''.'' \<or> c = CHR ''e'' \<or> c = CHR ''E'') s"

lemma number_end_digit: "number_end r \<Longrightarrow> \<not> starts_with is_digit r"
  by (cases r) (auto simp: number_end_def)

lemma read_exponent_none: "number_end r \<Longrightarrow> read_exponent r = Some (0, r)"
  by (cases r) (auto simp: number_end_def read_exponent_def)

lemma read_exponent_text: "number_end r \<Longrightarrow> read_exponent (exponent_text x @ r) = Some (x, r)"
  using takeWhile_digits [OF decimal_digits number_end_digit, of r "nat \<bar>x\<bar>"]
  by (auto simp: read_exponent_def exponent_text_def read_sign_def)

definition fraction_text :: "string \<Rightarrow> string" where
  "fraction_text fp = (if fp = [] then [] else CHR ''.'' # fp)"

lemma read_unsigned_parts:
  assumes ip: "\<forall>c \<in> set ip. is_digit c" "ip \<noteq> []" "hd ip \<noteq> CHR ''0'' \<or> length ip = 1"
    and fp: "\<forall>c \<in> set fp. is_digit c"
    and r: "read_exponent r = Some (x, r')" "\<not> starts_with (\<lambda>c. is_digit c \<or> c = CHR ''.'') r"
  shows "read_unsigned (ip @ fraction_text fp @ r) =
    Some (of_nat (undecimal (ip @ fp)) * power_int 10 (x - int (length fp)), r')"
proof -
  have nd: "\<not> starts_with is_digit r" using r(2) by (cases r) auto
  have "\<not> starts_with is_digit (fraction_text fp @ r)"
    using nd by (simp add: fraction_text_def is_digit_def)
  note i = takeWhile_digits [OF ip(1) this] and f = takeWhile_digits [OF fp nd]
  have "read_fraction (fraction_text fp @ r) = Some (fp, r)"
  proof (cases "fp = []")
    case True
    then show ?thesis using r(2) by (cases r) (auto simp: read_fraction_def fraction_text_def)
  next
    case False
    then have "read_fraction (fraction_text fp @ r) = read_fraction (CHR ''.'' # (fp @ r))"
      by (simp add: fraction_text_def)
    with False f show ?thesis by (simp only: read_fraction_def list.case if_True if_False) simp
  qed
  then show ?thesis using ip(2,3) i r(1) by (auto simp: read_unsigned_def Let_def)
qed

lemma exponent_text_start: "\<not> starts_with (\<lambda>c. is_digit c \<or> c = CHR ''.'') (exponent_text x @ r)"
  by (simp add: exponent_text_def is_digit_def)

lemma number_end_start: "number_end r \<Longrightarrow> \<not> starts_with (\<lambda>c. is_digit c \<or> c = CHR ''.'') r"
  by (cases r) (auto simp: number_end_def)

lemma digits_value:
  assumes "undecimal ds = s"
  shows "undecimal (CHR ''0'' # replicate k (CHR ''0'') @ ds) = s"
  using assms by (simp add: undecimal_zero undecimal_append undecimal_zeros)

lemma read_layout:
  assumes s: "0 < s" and r: "number_end r" and n: "n = int (length (decimal s)) + e"
  shows "read_unsigned (number_layout (decimal s) n @ r) = Some (of_nat s * power_int 10 e, r)"
proof -
  let ?ds = "decimal s"
  have ds: "\<forall>c \<in> set ?ds. is_digit c" "?ds \<noteq> []" "hd ?ds \<noteq> CHR ''0''"
    using decimal_digits decimal_no_leading_zero s by simp_all
  note exps = read_exponent_none [OF r] number_end_start [OF r]
  note expt = read_exponent_text [OF r] exponent_text_start
  have z: "is_digit (CHR ''0'')" by (simp add: is_digit_def)
  consider (int) "int (length ?ds) \<le> n" "n \<le> 21"
    | (point) "\<not> int (length ?ds) \<le> n" "0 < n" "n \<le> 21"
    | (zeros) "-6 < n" "n \<le> 0"
    | (exp) "\<not> (int (length ?ds) \<le> n \<and> n \<le> 21)" "\<not> (0 < n \<and> n \<le> 21)" "\<not> (-6 < n \<and> n \<le> 0)"
    by linarith
  then show ?thesis
  proof cases
    case int
    then obtain k where k: "e = int k" using n by (metis le_add_same_cancel1 nonneg_int_cases)
    have "\<forall>c \<in> set (?ds @ replicate k CHR ''0''). is_digit c" using ds z by auto
    from read_unsigned_parts [OF this, of "[]" r 0 r] have
      "read_unsigned ((?ds @ replicate k CHR ''0'') @ r) =
        Some (of_nat (undecimal (?ds @ replicate k CHR ''0'')), r)"
      using ds exps by (simp add: fraction_text_def)
    then show ?thesis using int n k
      by (simp add: number_layout_def fraction_text_def undecimal_append undecimal_zeros)
  next
    case point
    define i where "i = nat n"
    have i: "0 < i" "i < length ?ds" "e = int i - int (length ?ds)" using point n by (auto simp: i_def)
    have "read_unsigned (take i ?ds @ fraction_text (drop i ?ds) @ r) =
        Some (of_nat (undecimal (take i ?ds @ drop i ?ds)) *
          power_int 10 (0 - int (length (drop i ?ds))), r)"
      using ds exps i
      by (intro read_unsigned_parts) (auto dest: in_set_takeD in_set_dropD simp: hd_take)
    then show ?thesis using point i
      by (simp add: number_layout_def fraction_text_def i_def [symmetric] of_nat_diff)
  next
    case zeros
    define k where "k = nat (- n)"
    have k: "e = - int (k + length ?ds)" using zeros n by (simp add: k_def)
    have "read_unsigned (''0'' @ fraction_text (replicate k CHR ''0'' @ ?ds) @ r) =
        Some (of_nat (undecimal (''0'' @ replicate k CHR ''0'' @ ?ds)) *
          power_int 10 (0 - int (length (replicate k CHR ''0'' @ ?ds))), r)"
      by (rule read_unsigned_parts) (use ds z exps in auto)
    moreover have "number_layout ?ds n = ''0'' @ fraction_text (replicate k CHR ''0'' @ ?ds)"
    proof -
      have "0 < length ?ds" by simp
      then have "\<not> int (length ?ds) \<le> n" using zeros(2) by linarith
      then show ?thesis using zeros ds(2) by (simp add: number_layout_def fraction_text_def k_def Let_def)
    qed
    ultimately show ?thesis using k digits_value [of ?ds s k] by simp
  next
    case exp
    obtain d t where dt: "?ds = d # t" using ds(2) by (cases ?ds) auto
    have "read_unsigned ([d] @ fraction_text t @ exponent_text (n - 1) @ r) =
        Some (of_nat (undecimal ([d] @ t)) * power_int 10 ((n - 1) - int (length t)), r)"
      by (rule read_unsigned_parts) (use ds dt expt in auto)
    moreover have "undecimal ([d] @ t) = s" using dt by (metis append_Cons append_Nil undecimal_decimal)
    moreover have "number_layout ?ds n = [d] @ fraction_text t @ exponent_text (n - 1)"
      using exp dt by (auto simp: number_layout_def fraction_text_def Let_def)
    moreover have "(n - 1) - int (length t) = e" using n dt by simp
    ultimately show ?thesis by simp
  qed
qed


lemma strip_zeros_value:
  "strip_zeros s e = (s', e') \<Longrightarrow>
     (of_nat s' :: rat) * power_int 10 e' = of_nat s * power_int 10 e \<and> (0 < s \<longrightarrow> 0 < s')"
proof (induction s e rule: strip_zeros.induct)
  case (1 s e)
  show ?case
  proof (cases "s \<noteq> 0 \<and> 10 dvd s")
    case True
    then obtain t where t: "s = 10 * t" by blast
    with True 1 have "(of_nat s' :: rat) * power_int 10 e' = of_nat t * power_int 10 (e + 1) \<and> 0 < s'"
      by (subst (asm) (2) strip_zeros.simps) auto
    then show ?thesis using t by (simp add: power_int_add)
  next
    case False
    then show ?thesis using 1(2) by (subst (asm) strip_zeros.simps) auto
  qed
qed

lemma decimal_scale_dvd: "decimal_scale b = Some e \<Longrightarrow> 0 < b \<Longrightarrow> b dvd 10 ^ e"
proof (induction b arbitrary: e rule: decimal_scale.induct)
  case (1 b)
  show ?case
  proof (cases "b \<le> 1")
    case True
    then show ?thesis using 1(3) by (cases "b = 1") simp_all
  next
    case False
    let ?g = "gcd b 10"
    obtain f where g: "?g \<noteq> 1" "decimal_scale (b div ?g) = Some f" "e = Suc f"
      using 1(2) False by (subst (asm) decimal_scale.simps) (auto split: if_splits)
    have "0 < b div ?g" using 1(3) by (simp add: div_greater_zero_iff)
    then have "b div ?g dvd 10 ^ f" using 1(1) [OF False g(1,2)] by simp
    moreover have "?g dvd 10" by simp
    ultimately have "?g * (b div ?g) dvd 10 * 10 ^ f" by (simp only: mult_dvd_mono)
    then show ?thesis using g(3) by simp
  qed
qed

lemma decimal_form_value:
  assumes "decimal_form q = Some (s, e)" "0 < q"
  shows "q = of_nat s * power_int 10 e \<and> 0 < s"
proof -
  obtain a b where ab: "quotient_of q = (a, b)" by (cases "quotient_of q")
  have b: "0 < b" using ab by (rule quotient_of_denom_pos)
  have q: "q = of_int a / of_int b" using ab by (rule quotient_of_div)
  then have a: "0 < a" using assms(2) b by (simp add: zero_less_divide_iff)
  obtain x where x: "decimal_scale (nat b) = Some x" "strip_zeros (nat (a * 10 ^ x div b)) (- int x) = (s, e)"
    using assms(1) ab by (auto simp: decimal_form_def split: option.splits)
  have "nat b dvd 10 ^ x" using decimal_scale_dvd [OF x(1)] b by simp
  then have "int (nat b) dvd int (10 ^ x)" by (simp only: int_dvd_int_iff)
  then have "b dvd 10 ^ x" using b by simp
  then have d: "b dvd a * 10 ^ x" by simp
  then obtain m where m: "a * 10 ^ x = b * m" by (auto elim: dvdE)
  have m0: "0 < m" using m a b by (metis mult_pos_pos zero_less_mult_pos zero_less_numeral zero_less_power)
  have "(of_int a :: rat) * 10 ^ x = of_int b * of_int m" using m by (metis of_int_mult of_int_numeral of_int_power)
  then have "of_int b * (q * 10 ^ x) = of_int b * of_int m" using q b by simp
  then have "q * 10 ^ x = of_int m" using b by simp
  then have "q = of_int m / 10 ^ x" by (simp add: field_simps)
  also have "\<dots> = of_nat (nat m) * power_int 10 (- int x)"
    using m0 by (simp add: power_int_minus divide_inverse)
  finally have "q = of_nat (nat m) * power_int 10 (- int x)" .
  moreover have "a * 10 ^ x div b = m" using m b by simp
  ultimately show ?thesis using strip_zeros_value [OF x(2)] m0 by simp
qed

lemma layout_start: "s \<noteq> 0 \<Longrightarrow> starts_with is_digit (number_layout (decimal s) n)"
  using decimal_digits [of s] decimal_nonempty [of s]
  by (cases "decimal s") (auto simp: number_layout_def Let_def is_digit_def take_Cons')

lemma number_text_reads:
  assumes "json_ok (JNumber q)" "number_end r"
  shows "read_number (number_text q @ r) = Some (q, r)"
proof (cases "q = 0")
  case True
  have "read_unsigned (''0'' @ fraction_text [] @ r) = Some (of_nat (undecimal (''0'' @ [])) *
      power_int 10 (0 - int (length ([] :: string))), r)"
    by (rule read_unsigned_parts)
      (use assms(2) in \<open>simp_all add: read_exponent_none number_end_start, simp add: is_digit_def\<close>)
  then show ?thesis using True
    by (simp add: number_text_def read_number_def fraction_text_def undecimal_def)
next
  case False
  then obtain s e where se: "decimal_form \<bar>q\<bar> = Some (s, e)" using assms(1) by auto
  then have v: "\<bar>q\<bar> = of_nat s * power_int 10 e" "0 < s" using decimal_form_value False by auto
  note reads = read_layout [OF v(2) assms(2) refl, of e]
  have start: "starts_with is_digit (number_layout (decimal s) (int (length (decimal s)) + e))"
    using v(2) by (simp add: layout_start)
  then have plain: "read_number (number_layout (decimal s) (int (length (decimal s)) + e) @ r) =
      Some (\<bar>q\<bar>, r)"
    using reads v(1) by (cases "number_layout (decimal s) (int (length (decimal s)) + e)")
      (auto simp: read_number_def is_digit_def)
  show ?thesis
  proof (cases "q < 0")
    case True
    have "read_number (CHR ''-'' # (number_layout (decimal s) (int (length (decimal s)) + e) @ r)) =
        Some (- \<bar>q\<bar>, r)"
      using reads v(1) by (simp add: read_number_def)
    then show ?thesis using True False se by (simp add: number_text_def)
  next
    case nonneg: False
    then show ?thesis using False se plain by (simp add: number_text_def)
  qed
qed

lemma number_text_start:
  assumes "json_ok (JNumber q)"
  shows "starts_with (\<lambda>c. is_digit c \<or> c = CHR ''-'') (number_text q)"
proof (cases "q = 0")
  case False
  then obtain s e where se: "decimal_form \<bar>q\<bar> = Some (s, e)" using assms by auto
  then have "0 < s" using decimal_form_value False by auto
  then show ?thesis using False se layout_start [of s "int (length (decimal s)) + e"]
    by (cases "number_layout (decimal s) (int (length (decimal s)) + e)") (auto simp: number_text_def)
qed (simp add: number_text_def is_digit_def)

section \<open>Strings read back\<close>

lemma hex_value_char: "d < 16 \<Longrightarrow> hex_value (hex_char d) = Some d"
  by (auto simp: hex_value_def hex_char_def Let_def)

lemma read_unicode_char:
  assumes "n < 256"
  shows "read_unicode (CHR ''0'' # CHR ''0'' # hex_char (n div 16) # hex_char (n mod 16) # t) =
    Some (char_of n, t)"
proof -
  have "hex_value (CHR ''0'') = Some 0" by (simp add: hex_value_def)
  moreover have "hex_value (hex_char (n div 16)) = Some (n div 16)"
    using assms by (intro hex_value_char) (simp add: less_mult_imp_div_less)
  moreover have "hex_value (hex_char (n mod 16)) = Some (n mod 16)" by (intro hex_value_char) simp
  ultimately show ?thesis by (simp add: read_unicode_def)
qed

lemma read_chars_plain:
  "c \<noteq> CHR 0x22 \<Longrightarrow> c \<noteq> CHR 0x5C \<Longrightarrow> \<not> (of_char c :: nat) < 32 \<Longrightarrow>
     read_chars (c # t) = map_option (\<lambda>(s, q). (c # s, q)) (read_chars t)"
  by simp

lemma read_chars_escaped:
  "read_escape t = Some (x, r) \<Longrightarrow>
     read_chars (CHR 0x5C # t) = map_option (\<lambda>(s, q). (x # s, q)) (read_chars r)"
  by simp

lemma read_chars_escape:
  "read_chars (escape_char c @ t) = map_option (\<lambda>(s, q). (c # s, q)) (read_chars t)"
proof (cases "c \<in> {CHR 0x08, CHR 0x09, CHR 0x0A, CHR 0x0C, CHR 0x0D, CHR 0x22, CHR 0x5C}")
  case True
  then have "\<exists>x. escape_char c = [CHR 0x5C, x] \<and> x \<noteq> CHR ''u'' \<and> unescape x = Some c"
    by (auto simp: escape_char_def unescape_def)
  then obtain x where "escape_char c = [CHR 0x5C, x]" "x \<noteq> CHR ''u''" "unescape x = Some c" by blast
  then show ?thesis using read_chars_escaped [of "x # t" c t] by (simp add: read_escape_def)
next
  case special: False
  show ?thesis
  proof (cases "(of_char c :: nat) < 32")
    case True
    let ?h = "CHR ''0'' # CHR ''0'' # hex_char (of_char c div 16) # hex_char (of_char c mod 16) # t"
    have "escape_char c @ t = CHR 0x5C # CHR ''u'' # ?h"
      using special True by (simp add: escape_char_def)
    moreover have "read_escape (CHR ''u'' # ?h) = Some (c, t)"
      using read_unicode_char [of "of_char c" t] True by (simp add: read_escape_def)
    ultimately show ?thesis by (simp only: read_chars_escaped)
  next
    case False
    then show ?thesis using special read_chars_plain [of c t] by (simp add: escape_char_def)
  qed
qed

lemma read_chars_quoted: "read_chars (concat (map escape_char s) @ CHR 0x22 # r) = Some (s, r)"
  by (induction s) (simp_all add: read_chars_escape del: read_chars.simps(2), simp)

lemma hex_char_no_newline: "d < 16 \<Longrightarrow> CHR 0x0A \<noteq> hex_char d"
proof -
  assume "d < 16"
  then have "hex_value (hex_char d) = Some d" by (rule hex_value_char)
  moreover have "hex_value (CHR 0x0A) = None" by (simp add: hex_value_def)
  ultimately show ?thesis by (metis option.distinct(1))
qed

lemma escape_char_no_newline: "CHR 0x0A \<notin> set (escape_char c)"
  using hex_char_no_newline [of "of_char c div 16"] hex_char_no_newline [of "of_char c mod 16"]
  by (auto simp: escape_char_def less_mult_imp_div_less)

section \<open>Values read back\<close>

declare value_step_def [simp] value_at_def [simp] flat_value_def [simp] element_step_def [simp]

lemma json_text_start:
  assumes "json_ok v"
  shows "starts_with (\<lambda>c. \<not> is_space c \<and> c \<noteq> CHR '']'' \<and> c \<noteq> CHR ''}'') (json_text v)"
proof (cases v)
  case (JNumber q)
  then show ?thesis using number_text_start [of q] assms
    by (cases "number_text q") (auto simp: is_digit_def is_space_def)
qed (simp_all add: is_space_def quote_text_def)

lemma skip_space_text:
  assumes "json_ok v"
  shows "skip_space (json_text v @ r) = json_text v @ r"
    "take 1 (json_text v @ r) \<noteq> '']''" "take 1 (json_text v @ r) \<noteq> ''}''"
  using json_text_start [OF assms] by (cases "json_text v", simp, simp)+

lemma skip_space_start: "\<not> is_space c \<Longrightarrow> skip_space (c # s) = c # s"
  by simp

lemma comma_join_cons: "xs \<noteq> [] \<Longrightarrow> comma_join (x # xs) = x @ CHR '','' # comma_join xs"
  by (cases xs) simp_all

lemma number_end_delimiter [simp]:
  "number_end (CHR '','' # s)" "number_end (CHR '']'' # s)" "number_end (CHR ''}'' # s)" "number_end []"
  by (simp_all add: number_end_def is_digit_def)

lemma read_elements_text:
  assumes "\<forall>v \<in> set vs. \<forall>n r. number_end r \<longrightarrow> 2 * length (json_text v) < n \<longrightarrow>
      read_value n (json_text v @ r) = Some (v, r)"
    and "vs \<noteq> []" "2 * length (comma_join (map json_text vs)) + 1 < n"
  shows "read_elements n (comma_join (map json_text vs) @ CHR '']'' # r) = Some (vs, r)"
  using assms
proof (induction vs arbitrary: n)
  case (Cons v vs)
  obtain m where m: "n = Suc m" using Cons.prems(3) by (cases n) auto
  show ?case
  proof (cases "vs = []")
    case True
    then have "read_value m (json_text v @ CHR '']'' # r) = Some (v, CHR '']'' # r)"
      using Cons.prems m by simp
    then show ?thesis using True m by (simp add: is_space_def)
  next
    case False
    let ?rest = "comma_join (map json_text vs) @ CHR '']'' # r"
    have "read_value m (json_text v @ CHR '','' # ?rest) = Some (v, CHR '','' # ?rest)"
      using Cons.prems m False by (simp add: comma_join_cons)
    moreover have "read_elements m ?rest = Some (vs, r)"
      using Cons.prems m False by (intro Cons.IH) (auto simp: comma_join_cons)
    ultimately show ?thesis using False m by (simp add: comma_join_cons is_space_def)
  qed
qed simp

abbreviation member_text :: "string \<times> json \<Rightarrow> string" where
  "member_text \<equiv> \<lambda>(k, v). quote_text k @ CHR '':'' # json_text v"

lemma read_members_step:
  assumes "read_value n (t @ r) = Some (v, r)"
  shows "read_members (Suc n) (quote_text k @ CHR '':'' # t @ r) =
    (case skip_space r of
       [] \<Rightarrow> None
     | f # x \<Rightarrow> if f = CHR '','' then map_option (\<lambda>(ms, q). ((k, v) # ms, q)) (read_members n x)
         else if f = CHR ''}'' then Some ([(k, v)], x) else None)"
proof -
  have "read_key (quote_text k @ CHR '':'' # t @ r) = Some (k, t @ r)"
    using read_chars_quoted [of k "CHR '':'' # t @ r"] by (simp add: read_key_def quote_text_def is_space_def)
  with assms show ?thesis by (simp add: member_step_def)
qed

lemma read_members_text:
  assumes "\<forall>(k, v) \<in> set ms. \<forall>n r. number_end r \<longrightarrow> 2 * length (json_text v) < n \<longrightarrow>
      read_value n (json_text v @ r) = Some (v, r)"
    and "ms \<noteq> []" "2 * length (comma_join (map member_text ms)) + 1 < n"
  shows "read_members n (comma_join (map member_text ms) @ CHR ''}'' # r) = Some (ms, r)"
  using assms
proof (induction ms arbitrary: n)
  case (Cons p ms)
  obtain m where m: "n = Suc m" using Cons.prems(3) by (cases n) auto
  obtain k v where p: "p = (k, v)" by fastforce
  show ?case
  proof (cases "ms = []")
    case True
    then have "read_value m (json_text v @ CHR ''}'' # r) = Some (v, CHR ''}'' # r)"
      using Cons.prems m p by simp
    then show ?thesis using True m p read_members_step [of m "json_text v" "CHR ''}'' # r" v k]
      by (simp add: is_space_def del: read_members.simps)
  next
    case False
    let ?rest = "comma_join (map member_text ms) @ CHR ''}'' # r"
    have "read_value m (json_text v @ CHR '','' # ?rest) = Some (v, CHR '','' # ?rest)"
      using Cons.prems m False p by (simp add: comma_join_cons)
    moreover have "read_members m ?rest = Some (ms, r)"
      using Cons.prems m False by (intro Cons.IH) (auto simp: comma_join_cons)
    ultimately show ?thesis
      using False m p read_members_step [of m "json_text v" "CHR '','' # ?rest" v k]
      by (simp add: comma_join_cons is_space_def del: read_members.simps)
  qed
qed simp

lemma collect_fresh:
  "distinct (map fst (acc @ ms)) \<Longrightarrow> foldl (\<lambda>m (k, v). map_set m k v) acc ms = acc @ ms"
proof (induction ms arbitrary: acc)
  case (Cons p ms)
  obtain k v where p: "p = (k, v)" by fastforce
  with Cons.prems have "\<not> map_has acc k" by (auto simp: map_has_keys map_keys_def)
  then have "map_set acc k v = acc @ [p]" using p by (simp add: map_set_fresh)
  then show ?case using Cons.IH [of "acc @ [p]"] Cons.prems p by simp
qed simp

lemma collect_distinct: "distinct (map fst ms) \<Longrightarrow> collect_members ms = ms"
  using collect_fresh [of "[]" ms] by (simp add: collect_members_def)


lemma read_value_text:
  assumes "json_ok v" "number_end r" "2 * length (json_text v) < n"
  shows "read_value n (json_text v @ r) = Some (v, r)"
  using assms
proof (induction v arbitrary: n r)
  case JNull
  then show ?case by (cases n) (simp_all add: is_space_def read_literal_def)
next
  case (JBool b)
  then show ?case by (cases n; cases b) (simp_all add: is_space_def read_literal_def)
next
  case (JNumber q)
  obtain m where m: "n = Suc m" using JNumber.prems(3) by (cases n) auto
  obtain c t where ct: "number_text q = c # t" "is_digit c \<or> c = CHR ''-''"
    using number_text_start [OF JNumber.prems(1)] by (cases "number_text q") auto
  have "\<not> is_space c" "c \<noteq> CHR ''{''" "c \<noteq> CHR ''[''" "c \<noteq> CHR 0x22" "c \<noteq> CHR ''t''"
      "c \<noteq> CHR ''f''" "c \<noteq> CHR ''n''"
    using ct(2) by (auto simp: is_space_def is_digit_def)
  moreover have "read_number (c # t @ r) = Some (q, r)"
    using number_text_reads [OF JNumber.prems(1,2)] ct(1) by simp
  ultimately show ?case using m ct(1) by simp
next
  case (JString s)
  then show ?case using read_chars_quoted [of s r]
    by (cases n) (simp_all add: is_space_def quote_text_def)
next
  case (JArray vs)
  obtain m where m: "n = Suc m" using JArray.prems(3) by (cases n) auto
  show ?case
  proof (cases vs)
    case Nil
    then show ?thesis using m by (simp add: is_space_def)
  next
    case (Cons v ws)
    let ?t = "comma_join (map json_text vs) @ CHR '']'' # r"
    have v: "json_ok v" using JArray.prems Cons by simp
    obtain u where "?t = json_text v @ u" using Cons by (cases ws) auto
    then have first: "take 1 (skip_space ?t) \<noteq> '']''"
      using skip_space_text [OF v, of u] by simp
    have "read_elements m ?t = Some (vs, r)"
      using JArray Cons m by (intro read_elements_text) auto
    then show ?thesis using m first by (simp add: is_space_def)
  qed
next
  case (JObject ms)
  obtain m where m: "n = Suc m" using JObject.prems(3) by (cases n) auto
  show ?case
  proof (cases ms)
    case Nil
    then show ?thesis using m by (simp add: is_space_def)
  next
    case (Cons p ps)
    let ?t = "comma_join (map member_text ms) @ CHR ''}'' # r"
    have "\<exists>u. ?t = CHR 0x22 # u" using Cons by (cases p; cases ps) (auto simp: quote_text_def)
    then have first: "take 1 (skip_space ?t) \<noteq> ''}''" by (auto simp: is_space_def)
    have "read_members m ?t = Some (ms, r)"
      using JObject Cons m by (intro read_members_text) (fastforce simp: snds.simps)+
    then show ?thesis using m first JObject.prems by (simp add: is_space_def collect_distinct)
  qed
qed

lemma json_parse_text: "json_ok v \<Longrightarrow> json_parse (json_text v) = Some v"
  using read_value_text [of v "[]"] by (simp add: json_parse_def del: read_value.simps)

declare value_step_def [simp del] value_at_def [simp del] flat_value_def [simp del] element_step_def [simp del]

lemma comma_join_set: "set (comma_join xs) \<subseteq> insert (CHR '','') (\<Union> (set ` set xs))"
  by (induction xs rule: comma_join.induct) auto

lemma number_text_no_newline: "CHR 0x0A \<notin> set (number_text q)"
proof -
  have d: "CHR 0x0A \<notin> set (decimal n)" for n using decimal_digits [of n] by (auto simp: is_digit_def)
  have "CHR 0x0A \<notin> set (exponent_text x)" for x using d by (simp add: exponent_text_def)
  moreover have "CHR 0x0A \<notin> set (take k (decimal s))" "CHR 0x0A \<notin> set (drop k (decimal s))" for k s
    using d [of s] by (auto dest: in_set_takeD in_set_dropD)
  moreover have "CHR 0x0A \<noteq> hd (decimal s)" "CHR 0x0A \<notin> set (tl (decimal s))" for s
    using d [of s] by (metis decimal_nonempty(1) list.set_sel)+
  ultimately show ?thesis using d
    by (auto simp: number_text_def number_layout_def Let_def split: option.splits if_splits)
qed

lemma quote_text_no_newline: "CHR 0x0A \<notin> set (quote_text s)"
  using escape_char_no_newline by (auto simp: quote_text_def)

lemma json_text_no_newline: "CHR 0x0A \<notin> set (json_text v)"
proof (induction v)
  case (JArray vs)
  then show ?case using comma_join_set [of "map json_text vs"] by auto
next
  case (JObject ms)
  then have "\<forall>(k, v) \<in> set ms. CHR 0x0A \<notin> set (json_text v)" by (fastforce simp: snds.simps)
  then show ?case using comma_join_set [of "map member_text ms"] quote_text_no_newline by fastforce
qed (simp_all add: number_text_no_newline quote_text_no_newline)

section \<open>Fuel\<close>

declare dropWhile_eq_Nil_conv [simp del]

lemma value_at_mono:
  assumes "value_at e m c t = Some a"
    and "\<And>t y. e t = Some y \<Longrightarrow> e' t = Some y" "\<And>t y. m t = Some y \<Longrightarrow> m' t = Some y"
  shows "value_at e' m' c t = Some a"
  using assms(1) by (auto simp: value_at_def assms(2,3) split: if_splits)

lemma value_step_mono:
  assumes "value_step e m s = Some a"
    and "\<And>t y. e t = Some y \<Longrightarrow> e' t = Some y" "\<And>t y. m t = Some y \<Longrightarrow> m' t = Some y"
  shows "value_step e' m' s = Some a"
  using assms(1) value_at_mono [OF _ assms(2,3)] by (cases "skip_space s") (simp_all add: value_step_def)

lemma element_step_mono:
  assumes "element_step v e s = Some a"
    and "\<And>t y. v t = Some y \<Longrightarrow> v' t = Some y" "\<And>t y. e t = Some y \<Longrightarrow> e' t = Some y"
  shows "element_step v' e' s = Some a"
proof -
  obtain x w c t where s: "v s = Some (x, w)" "skip_space w = c # t"
    using assms(1) by (auto simp: element_step_def split: option.splits list.splits)
  with assms show ?thesis by (auto simp: element_step_def split: if_splits)
qed

lemma member_step_mono:
  assumes "member_step v m s = Some a"
    and "\<And>t y. v t = Some y \<Longrightarrow> v' t = Some y" "\<And>t y. m t = Some y \<Longrightarrow> m' t = Some y"
  shows "member_step v' m' s = Some a"
proof -
  obtain k u x w c t where s: "read_key s = Some (k, u)" "v u = Some (x, w)" "skip_space w = c # t"
    using assms(1) by (auto simp: member_step_def split: option.splits list.splits)
  with assms show ?thesis by (auto simp: member_step_def split: if_splits)
qed

lemma read_more_fuel:
  "(read_value n s = Some a \<longrightarrow> read_value (Suc n) s = Some a) \<and>
   (read_elements n s = Some b \<longrightarrow> read_elements (Suc n) s = Some b) \<and>
   (read_members n s = Some c \<longrightarrow> read_members (Suc n) s = Some c)"
proof (induction n arbitrary: s a b c)
  case (Suc n)
  then have v: "\<And>x y. read_value n x = Some y \<Longrightarrow> read_value (Suc n) x = Some y"
    and e: "\<And>x y. read_elements n x = Some y \<Longrightarrow> read_elements (Suc n) x = Some y"
    and m: "\<And>x y. read_members n x = Some y \<Longrightarrow> read_members (Suc n) x = Some y"
    by blast+
  have "read_value (Suc (Suc n)) s = Some a" if "read_value (Suc n) s = Some a"
    using value_step_mono [of "read_elements n" "read_members n" s a "read_elements (Suc n)" "read_members (Suc n)", OF _ e m] that
    by (simp only: read_value.simps(2))
  moreover have "read_elements (Suc (Suc n)) s = Some b" if "read_elements (Suc n) s = Some b"
    using element_step_mono [of "read_value n" "read_elements n" s b "read_value (Suc n)" "read_elements (Suc n)", OF _ v e] that
    by (simp only: read_elements.simps(2))
  moreover have "read_members (Suc (Suc n)) s = Some c" if "read_members (Suc n) s = Some c"
    using member_step_mono [of "read_value n" "read_members n" s c "read_value (Suc n)" "read_members (Suc n)", OF _ v m] that
    by (simp only: read_members.simps(2))
  ultimately show ?case by blast
qed simp

lemma read_value_mono: "read_value n s = Some a \<Longrightarrow> n \<le> m \<Longrightarrow> read_value m s = Some a"
proof (induction m)
  case (Suc m)
  then show ?case using read_more_fuel [of m s a] by (cases "n = Suc m") auto
qed simp

section \<open>Longer input\<close>

lemma skip_space_append: "skip_space s = c # u \<Longrightarrow> skip_space (s @ t) = c # u @ t"
  by (induction s) (auto split: if_splits)

lemma span_append:
  "dropWhile P s \<noteq> [] \<Longrightarrow> takeWhile P (s @ t) = takeWhile P s \<and> dropWhile P (s @ t) = dropWhile P s @ t"
  by (induction s) auto

lemma read_escape_append: "read_escape s = Some (c, r) \<Longrightarrow> read_escape (s @ t) = Some (c, r @ t)"
  by (auto simp: read_escape_def read_unicode_def split: list.splits if_splits option.splits nat.splits)

lemma read_chars_append: "read_chars s = Some (x, r) \<Longrightarrow> read_chars (s @ t) = Some (x, r @ t)"
proof (induction s arbitrary: x r rule: read_chars.induct)
  case (2 c s)
  consider "c = CHR 0x22" | "c \<noteq> CHR 0x22" "\<not> (of_char c :: nat) < 32" "c = CHR 0x5C"
    | "c \<noteq> CHR 0x22" "\<not> (of_char c :: nat) < 32" "c \<noteq> CHR 0x5C"
    using 2(3) by fastforce
  then show ?case
  proof cases
    case 2: 2
    then obtain y u z where yu: "read_escape s = Some (y, u)" "read_chars u = Some (z, r)" "x = y # z"
      using "2.prems" by (auto split: option.splits)
    then show ?thesis using 2 "2.IH"(1) [OF 2 yu(1) refl] read_escape_append [OF yu(1), of t] by simp
  qed (use 2 in \<open>auto split: option.splits\<close>)
qed simp

lemma read_exponent_append:
  assumes "read_exponent s = Some (x, r)" "r \<noteq> []"
  shows "read_exponent (s @ t) = Some (x, r @ t)"
proof (cases s)
  case (Cons c u)
  show ?thesis
  proof (cases "c = CHR ''e'' \<or> c = CHR ''E''")
    case True
    obtain b v where v: "read_sign u = (b, v)" by fastforce
    have r: "r = dropWhile is_digit v" "takeWhile is_digit v \<noteq> []"
      "x = (if b then - int (undecimal (takeWhile is_digit v)) else int (undecimal (takeWhile is_digit v)))"
      using assms Cons True v by (auto simp: read_exponent_def Let_def split: if_splits)
    have "v \<noteq> []" using r(2) by auto
    then have "read_sign (u @ t) = (b, v @ t)"
      using v by (cases u) (auto simp: read_sign_def split: if_splits)
    then show ?thesis using Cons True r span_append [of is_digit v t] assms(2)
      by (simp add: read_exponent_def)
  qed (use assms Cons in \<open>auto simp: read_exponent_def\<close>)
qed (use assms in \<open>simp add: read_exponent_def\<close>)

lemma read_fraction_append:
  assumes "read_fraction s = Some (x, r)" "r \<noteq> []"
  shows "read_fraction (s @ t) = Some (x, r @ t)"
proof (cases s)
  case (Cons c u)
  then show ?thesis using assms span_append [of is_digit u t]
    by (cases "c = CHR ''.''") (auto simp: read_fraction_def split: if_splits)
qed (use assms in \<open>simp add: read_fraction_def\<close>)

lemma read_unsigned_append:
  assumes "read_unsigned s = Some (q, r)" "r \<noteq> []"
  shows "read_unsigned (s @ t) = Some (q, r @ t)"
proof -
  obtain fp u x where f: "read_fraction (dropWhile is_digit s) = Some (fp, u)"
      "read_exponent u = Some (x, r)" and
      g: "takeWhile is_digit s \<noteq> []" "\<not> (hd (takeWhile is_digit s) = CHR ''0'' \<and> 1 < length (takeWhile is_digit s))"
      "q = of_nat (undecimal (takeWhile is_digit s @ fp)) * power_int 10 (x - int (length fp))"
    using assms(1) by (auto simp: read_unsigned_def Let_def split: if_splits option.splits)
  have u: "u \<noteq> []" using f(2) assms(2) by (auto simp: read_exponent_def)
  then have "dropWhile is_digit s \<noteq> []" using f(1) by (cases "dropWhile is_digit s") (auto simp: read_fraction_def)
  note s = span_append [OF this, of t]
  show ?thesis
    using s read_fraction_append [OF f(1) u, of t] read_exponent_append [OF f(2) assms(2), of t] g
    by (simp add: read_unsigned_def Let_def)
qed

lemma read_number_append:
  "read_number s = Some (q, r) \<Longrightarrow> r \<noteq> [] \<Longrightarrow> read_number (s @ t) = Some (q, r @ t)"
  using read_unsigned_append [of s q r t] read_unsigned_append [of "tl s" "- q" r t]
  by (cases s) (auto simp: read_number_def split: if_splits)

lemma read_literal_append: "read_literal w v s = Some (x, r) \<Longrightarrow> read_literal w v (s @ t) = Some (x, r @ t)"
  by (auto simp: read_literal_def split: if_splits) (metis length_take min.bounded_iff diff_is_0_eq drop_0 nle_le append_Nil2 take_0)+


lemma first_is: "take 1 s = [c] \<longleftrightarrow> (\<exists>t. s = c # t)"
  by (cases s) auto

definition is_number :: "json \<Rightarrow> bool" where
  "is_number v \<longleftrightarrow> (\<exists>q. v = JNumber q)"

text \<open>A reader that ends before the end of its input, or does not end with a number, ignores more input.\<close>

definition extends :: "(string \<Rightarrow> ('a \<times> string) option) \<Rightarrow> (string \<Rightarrow> ('a \<times> string) option) \<Rightarrow> bool" where
  "extends f g \<longleftrightarrow> (\<forall>s x r t. f s = Some (x, r) \<longrightarrow> g (s @ t) = Some (x, r @ t))"

lemma extendsD: "extends f g \<Longrightarrow> f s = Some (x, r) \<Longrightarrow> g (s @ t) = Some (x, r @ t)"
  by (auto simp: extends_def)

lemma flat_value_append:
  "flat_value c s = Some (v, r) \<Longrightarrow> r \<noteq> [] \<or> \<not> is_number v \<Longrightarrow> flat_value c (s @ t) = Some (v, r @ t)"
  using read_chars_append [of s _ r t] read_literal_append [of _ _ "c # s" v r t]
    read_number_append [of "c # s" _ r t]
  by (auto simp: flat_value_def is_number_def split: if_splits)

lemma member_not_closed: "skip_space s = [] \<Longrightarrow> member_step f g s = None"
  by (simp add: member_step_def read_key_def)

lemma value_at_append:
  assumes "value_at e m c s = Some (v, r)" "r \<noteq> [] \<or> \<not> is_number v"
    and e: "extends e e" and m: "extends m m"
    and close: "\<And>u. skip_space u = [] \<Longrightarrow> e u = None \<and> m u = None"
  shows "value_at e m c (s @ t) = Some (v, r @ t)"
proof (cases "skip_space s")
  case Nil
  then show ?thesis using assms(1,2) close [OF Nil] flat_value_append [of c s v r t]
    by (auto simp: value_at_def split: if_splits)
next
  case (Cons d u)
  note sp = skip_space_append [OF Cons, of t]
  show ?thesis
    using assms(1,2) flat_value_append [of c s v r t] extendsD [OF e, of s _ r t] extendsD [OF m, of s _ r t]
    by (auto simp: value_at_def sp Cons split: if_splits)
qed


lemma read_end:
  "skip_space u = [] \<Longrightarrow> read_value n u = None \<and> read_elements n u = None \<and> read_members n u = None"
  by (cases n; cases "n - 1") (simp_all add: value_step_def element_step_def member_not_closed)

definition value_extends :: "(string \<Rightarrow> (json \<times> string) option) \<Rightarrow> bool" where
  "value_extends f \<longleftrightarrow> (\<forall>s v r t. f s = Some (v, r) \<longrightarrow> r \<noteq> [] \<or> \<not> is_number v \<longrightarrow> f (s @ t) = Some (v, r @ t))"

lemma value_extendsD:
  "value_extends f \<Longrightarrow> f s = Some (v, r) \<Longrightarrow> skip_space r = c # u \<Longrightarrow> f (s @ t) = Some (v, r @ t)"
  by (fastforce simp: value_extends_def)

lemma element_step_append:
  assumes "value_extends v" "extends e e"
  shows "extends (element_step v e) (element_step v e)"
  unfolding extends_def
proof (intro allI impI)
  fix s x r t
  assume *: "element_step v e s = Some (x, r)"
  then obtain y w c u where s: "v s = Some (y, w)" "skip_space w = c # u"
    by (auto simp: element_step_def split: option.splits list.splits)
  from value_extendsD [OF assms(1) s, of t] skip_space_append [OF s(2), of t] * s
  show "element_step v e (s @ t) = Some (x, r @ t)"
    using extendsD [OF assms(2), of u _ r t] by (auto simp: element_step_def split: if_splits)
qed

lemma read_key_append: "read_key s = Some (k, r) \<Longrightarrow> read_key (s @ t) = Some (k, r @ t)"
proof -
  assume *: "read_key s = Some (k, r)"
  then obtain u w where s: "skip_space s = CHR 0x22 # u" "read_chars u = Some (k, w)"
      "skip_space w = CHR '':'' # r"
    by (auto simp: read_key_def split: list.splits if_splits option.splits)
  then show ?thesis
    using skip_space_append [OF s(1), of t] read_chars_append [OF s(2), of t] skip_space_append [OF s(3), of t]
    by (simp add: read_key_def)
qed

lemma member_step_append:
  assumes "value_extends v" "extends m m"
  shows "extends (member_step v m) (member_step v m)"
  unfolding extends_def
proof (intro allI impI)
  fix s x r t
  assume *: "member_step v m s = Some (x, r)"
  then obtain k q y w c u where s: "read_key s = Some (k, q)" "v q = Some (y, w)" "skip_space w = c # u"
    by (auto simp: member_step_def split: option.splits list.splits)
  from read_key_append [OF s(1), of t] value_extendsD [OF assms(1) s(2,3), of t]
    skip_space_append [OF s(3), of t] * s
  show "member_step v m (s @ t) = Some (x, r @ t)"
    using extendsD [OF assms(2), of u _ r t] by (auto simp: member_step_def split: if_splits)
qed

lemma value_step_append:
  assumes "extends e e" "extends m m" "\<And>u. skip_space u = [] \<Longrightarrow> e u = None \<and> m u = None"
  shows "value_extends (value_step e m)"
  unfolding value_extends_def
proof (intro allI impI)
  fix s v r t
  assume *: "value_step e m s = Some (v, r)" and r: "r \<noteq> [] \<or> \<not> is_number v"
  then obtain c u where s: "skip_space s = c # u"
    by (cases "skip_space s") (simp_all add: value_step_def)
  with * have "value_at e m c u = Some (v, r)" by (simp add: value_step_def)
  from value_at_append [OF this r assms, of t] s skip_space_append [OF s, of t]
  show "value_step e m (s @ t) = Some (v, r @ t)" by (simp add: value_step_def)
qed

lemma read_append:
  "value_extends (read_value n) \<and> extends (read_elements n) (read_elements n) \<and>
   extends (read_members n) (read_members n)"
proof (induction n)
  case 0
  then show ?case by (simp add: value_extends_def extends_def)
next
  case (Suc n)
  have eq: "read_value (Suc n) = value_step (read_elements n) (read_members n)"
      "read_elements (Suc n) = element_step (read_value n) (read_elements n)"
      "read_members (Suc n) = member_step (read_value n) (read_members n)"
    by (simp_all add: fun_eq_iff)
  show ?case unfolding eq
    using Suc read_end by (intro conjI value_step_append element_step_append member_step_append) blast+
qed

lemma object_value: "read_value n (CHR ''{'' # s) = Some (v, r) \<Longrightarrow> \<not> is_number v"
  by (cases n) (auto simp: value_step_def value_at_def is_space_def is_number_def split: if_splits)

text \<open>No proper beginning of a printed object reads as JSON.\<close>

lemma object_prefix_unparsed:
  assumes ok: "json_ok (JObject ms)" and p: "json_text (JObject ms) = p @ t" "t \<noteq> []"
  shows "json_parse p = None"
proof (rule ccontr)
  assume "json_parse p \<noteq> None"
  then obtain v r where v: "read_value (2 * length p + 2) p = Some (v, r)" "skip_space r = []"
    unfolding json_parse_def by (auto simp del: read_value.simps split: option.splits if_splits)
  have "p \<noteq> []" using v(1) read_end [of p "2 * length p + 2"] by auto
  then obtain u where u: "p = CHR ''{'' # u" using p(1) by (cases p) auto
  have "\<not> is_number v" using v(1) u object_value by blast
  then have "read_value (2 * length p + 2) (p @ t) = Some (v, r @ t)"
    using read_append v(1) unfolding value_extends_def by blast
  then have "read_value (2 * length (p @ t) + 2) (p @ t) = Some (v, r @ t)"
    by (rule read_value_mono) simp
  moreover have "read_value (2 * length (p @ t) + 2) (p @ t) = Some (JObject ms, [])"
    using read_value_text [OF ok, of "[]"] p(1) by (simp del: read_value.simps json_text.simps)
  ultimately show False using p(2) by simp
qed


section \<open>Enough fuel\<close>

definition shrinks :: "(string \<Rightarrow> ('a \<times> string) option) \<Rightarrow> bool" where
  "shrinks f \<longleftrightarrow> (\<forall>s x r. f s = Some (x, r) \<longrightarrow> length r < length s)"

lemma skip_space_shorter: "length (skip_space s) \<le> length s"
  by (simp add: length_dropWhile_le)

lemma skip_space_Cons_shorter: "skip_space s = c # t \<Longrightarrow> length t < length s"
  using skip_space_shorter [of s] by simp

lemma read_chars_shorter: "read_chars s = Some (x, r) \<Longrightarrow> length r < length s"
proof (induction s arbitrary: x r rule: read_chars.induct)
  case (2 c s)
  show ?case
  proof (cases "c = CHR 0x5C")
    case True
    with 2(3) obtain y u z where yu: "read_escape s = Some (y, u)" "read_chars u = Some (z, r)"
      by (auto split: option.splits)
    with 2(1) [OF _ _ True yu(1) refl yu(2)] True read_escape_shorter [OF yu(1)] show ?thesis by simp
  next
    case False
    with 2(2,3) show ?thesis by (fastforce split: if_splits)
  qed
qed simp

lemma read_exponent_shorter: "read_exponent s = Some (x, r) \<Longrightarrow> length r \<le> length s"
  using length_dropWhile_le [of is_digit "snd (read_sign (tl s))"]
  by (auto simp: read_exponent_def read_sign_def Let_def split: list.splits if_splits)

lemma read_fraction_shorter: "read_fraction s = Some (x, r) \<Longrightarrow> length r \<le> length s"
  using length_dropWhile_le [of is_digit "tl s"]
  by (auto simp: read_fraction_def split: list.splits if_splits)

lemma read_unsigned_shorter: "read_unsigned s = Some (q, r) \<Longrightarrow> length r < length s"
proof -
  assume "read_unsigned s = Some (q, r)"
  then obtain fp u x where f: "read_fraction (dropWhile is_digit s) = Some (fp, u)"
      "read_exponent u = Some (x, r)" "0 < length (takeWhile is_digit s)"
    by (auto simp: read_unsigned_def Let_def split: if_splits option.splits)
  have "length (dropWhile is_digit s) + length (takeWhile is_digit s) = length s"
    by (metis add.commute length_append takeWhile_dropWhile_id)
  then show ?thesis
    using read_fraction_shorter [OF f(1)] read_exponent_shorter [OF f(2)] f(3) by linarith
qed

lemma flat_value_shorter: "flat_value c t = Some (v, r) \<Longrightarrow> length r \<le> length t"
  using read_chars_shorter [of t _ r] read_unsigned_shorter [of "c # t" _ r] read_unsigned_shorter [of t _ r]
  by (fastforce simp: flat_value_def read_literal_def read_number_def split: if_splits)

lemma value_step_shrinks:
  assumes "shrinks e" "shrinks m"
  shows "shrinks (value_step e m)"
  unfolding shrinks_def
proof (intro allI impI)
  fix s v r
  assume *: "value_step e m s = Some (v, r)"
  then obtain c u where s: "skip_space s = c # u"
    by (cases "skip_space s") (simp_all add: value_step_def)
  with * have "value_at e m c u = Some (v, r)" by (simp add: value_step_def)
  then have "length r \<le> length u"
    using assms flat_value_shorter [of c u v r] skip_space_shorter [of u]
    by (fastforce simp: value_at_def shrinks_def split: if_splits)
  then show "length r < length s" using skip_space_Cons_shorter [OF s] by simp
qed

lemma element_step_shrinks:
  assumes "shrinks v" "shrinks e"
  shows "shrinks (element_step v e)"
  unfolding shrinks_def
proof (intro allI impI)
  fix s x r
  assume *: "element_step v e s = Some (x, r)"
  then obtain y w c u where s: "v s = Some (y, w)" "skip_space w = c # u"
    by (auto simp: element_step_def split: option.splits list.splits)
  then have "length u < length s"
    using assms(1) skip_space_Cons_shorter [OF s(2)] by (fastforce simp: shrinks_def)
  with s * assms(2) show "length r < length s" by (fastforce simp: element_step_def shrinks_def split: if_splits)
qed

lemma read_key_shorter: "read_key s = Some (k, r) \<Longrightarrow> length r < length s"
  by (auto simp: read_key_def split: list.splits if_splits option.splits
      dest!: skip_space_Cons_shorter read_chars_shorter)

lemma member_step_shrinks:
  assumes "shrinks v" "shrinks m"
  shows "shrinks (member_step v m)"
  unfolding shrinks_def
proof (intro allI impI)
  fix s x r
  assume *: "member_step v m s = Some (x, r)"
  then obtain k q y w c u where s: "read_key s = Some (k, q)" "v q = Some (y, w)" "skip_space w = c # u"
    by (auto simp: member_step_def split: option.splits list.splits)
  then have "length u < length s"
    using assms(1) skip_space_Cons_shorter [OF s(3)] read_key_shorter [OF s(1)] by (fastforce simp: shrinks_def)
  with s * assms(2) show "length r < length s" by (fastforce simp: member_step_def shrinks_def split: if_splits)
qed

lemma read_shrinks: "shrinks (read_value n) \<and> shrinks (read_elements n) \<and> shrinks (read_members n)"
proof (induction n)
  case 0
  then show ?case by (simp add: shrinks_def)
next
  case (Suc n)
  have eq: "read_value (Suc n) = value_step (read_elements n) (read_members n)"
      "read_elements (Suc n) = element_step (read_value n) (read_elements n)"
      "read_members (Suc n) = member_step (read_value n) (read_members n)"
    by (simp_all add: fun_eq_iff)
  show ?case unfolding eq using Suc value_step_shrinks element_step_shrinks member_step_shrinks by blast
qed

lemma value_step_cong:
  assumes "\<And>t. length t < length s \<Longrightarrow> e t = e' t \<and> m t = m' t"
  shows "value_step e m s = value_step e' m' s"
proof (cases "skip_space s")
  case (Cons c t)
  then show ?thesis using assms [OF skip_space_Cons_shorter [OF Cons]]
    by (simp add: value_step_def value_at_def)
qed (simp add: value_step_def)

lemma element_step_cong:
  assumes "v s = v' s" "\<And>t. length t < length s \<Longrightarrow> e t = e' t" "shrinks v"
  shows "element_step v e s = element_step v' e' s"
proof (cases "v s")
  case (Some p)
  obtain y w where p: "p = (y, w)" by fastforce
  with Some assms(3) have "length w < length s" by (simp add: shrinks_def)
  with skip_space_Cons_shorter [of w] assms(2) Some p show ?thesis
    by (cases "skip_space w") (auto simp: element_step_def assms(1) [symmetric])
qed (simp add: element_step_def assms(1) [symmetric])

lemma member_step_cong:
  assumes "\<And>t. length t < length s \<Longrightarrow> v t = v' t \<and> m t = m' t" "shrinks v"
  shows "member_step v m s = member_step v' m' s"
proof (cases "read_key s")
  case (Some p)
  obtain k u where p: "p = (k, u)" by fastforce
  have u: "length u < length s" using read_key_shorter Some p by blast
  then have vu: "v' u = v u" using assms(1) by simp
  show ?thesis
  proof (cases "v u")
    case vp: (Some q)
    obtain y w where q: "q = (y, w)" by fastforce
    with vp assms(2) u have "length w < length s" by (fastforce simp: shrinks_def)
    with skip_space_Cons_shorter [of w] assms(1) Some p vp q vu show ?thesis
      by (cases "skip_space w") (auto simp: member_step_def)
  qed (simp add: member_step_def Some p vu)
qed (simp add: member_step_def)

lemma read_enough:
  "(2 * length s + 1 \<le> n \<longrightarrow> read_value n s = read_value (Suc n) s) \<and>
   (2 * length s + 2 \<le> n \<longrightarrow> read_elements n s = read_elements (Suc n) s \<and>
      read_members n s = read_members (Suc n) s)"
proof (induction n arbitrary: s)
  case (Suc n)
  have "read_value (Suc n) s = read_value (Suc (Suc n)) s" if "2 * length s + 1 \<le> Suc n"
    unfolding read_value.simps(2) using Suc that by (intro value_step_cong) simp
  moreover have "read_elements (Suc n) s = read_elements (Suc (Suc n)) s" if "2 * length s + 2 \<le> Suc n"
    unfolding read_elements.simps(2) using Suc that read_shrinks by (intro element_step_cong) simp_all
  moreover have "read_members (Suc n) s = read_members (Suc (Suc n)) s" if "2 * length s + 2 \<le> Suc n"
    unfolding read_members.simps(2) using Suc that read_shrinks by (intro member_step_cong) simp_all
  ultimately show ?case by blast
qed simp

text \<open>The fuel of \<open>json_parse\<close> is enough: more of it never changes what is read.\<close>

lemma json_parse_fuel: "2 * length s + 2 \<le> n \<Longrightarrow> read_value n s = read_value (2 * length s + 2) s"
proof (induction n)
  case (Suc n)
  then show ?case
    using read_enough [of s n] by (cases "Suc n = 2 * length s + 2") (auto simp del: read_value.simps)
qed simp


declare dropWhile_eq_Nil_conv [simp]

end
