(* ===== verification/Model_Retry.thy ===== *)
theory Model_Retry
  imports Session_Types
begin

text \<open>
  Retried model calls, \<^verbatim>\<open>packages/ai/src/utils/retry.ts\<close>: which failed answers look transient,
  and the loop that repeats a call with exponential backoff. The world the calls act on is the type
  \<open>'w\<close>; the call, the timer and the callbacks are functions on it (a callback the caller left out
  is the identity on the world), and an exception of the call is the left summand of its result.
  Callbacks are taken not to throw.
\<close>

section \<open>Which errors are transient\<close>

text \<open>
  The patterns are joined with \<^verbatim>\<open>|\<close> into one case-insensitive regular expression. They use literal
  characters, \<^verbatim>\<open>.?\<close> and an optional literal only; a dot matches no line terminator.
\<close>

datatype pattern_item = Literal char | OptionalLiteral char | OptionalAny

fun pattern_items :: "string \<Rightarrow> pattern_item list" where
  "pattern_items [] = []"
| "pattern_items [c] = [Literal c]"
| "pattern_items (c # d # cs) =
     (if d = CHR ''?'' then (if c = CHR ''.'' then OptionalAny else OptionalLiteral c) # pattern_items cs
      else Literal c # pattern_items (d # cs))"

definition lower :: "char \<Rightarrow> char" where
  "lower c = (let n = of_char c :: nat in if 65 \<le> n \<and> n \<le> 90 then char_of (n + 32) else c)"

definition line_terminator :: "char \<Rightarrow> bool" where
  "line_terminator c \<longleftrightarrow> c = char_of (10::nat) \<or> c = char_of (13::nat)"

fun matches_here :: "pattern_item list \<Rightarrow> string \<Rightarrow> bool" where
  "matches_here [] s \<longleftrightarrow> True"
| "matches_here (Literal c # ps) s \<longleftrightarrow>
     (case s of [] \<Rightarrow> False | x # xs \<Rightarrow> lower x = lower c \<and> matches_here ps xs)"
| "matches_here (OptionalLiteral c # ps) s \<longleftrightarrow>
     matches_here ps s \<or> (case s of [] \<Rightarrow> False | x # xs \<Rightarrow> lower x = lower c \<and> matches_here ps xs)"
| "matches_here (OptionalAny # ps) s \<longleftrightarrow>
     matches_here ps s \<or> (case s of [] \<Rightarrow> False | x # xs \<Rightarrow> \<not> line_terminator x \<and> matches_here ps xs)"

fun matches_somewhere :: "pattern_item list \<Rightarrow> string \<Rightarrow> bool" where
  "matches_somewhere ps [] \<longleftrightarrow> matches_here ps []"
| "matches_somewhere ps (x # xs) \<longleftrightarrow> matches_here ps (x # xs) \<or> matches_somewhere ps xs"

definition matches_pattern :: "string list \<Rightarrow> string \<Rightarrow> bool" where
  "matches_pattern patterns s \<longleftrightarrow> list_ex (\<lambda>p. matches_somewhere (pattern_items p) s) patterns"

definition NON_RETRYABLE_PROVIDER_LIMIT_ERROR_PATTERN :: "string list" where
  "NON_RETRYABLE_PROVIDER_LIMIT_ERROR_PATTERN =
  [''GoUsageLimitError'', ''FreeUsageLimitError'', ''Monthly usage limit reached'',
   ''available balance'', ''insufficient_quota'', ''out of budget'', ''quota exceeded'', ''billing'']"

definition RETRYABLE_PROVIDER_ERROR_PATTERN :: "string list" where
  "RETRYABLE_PROVIDER_ERROR_PATTERN =
  [''overloaded'', ''rate.?limit'', ''too many requests'', ''429'', ''500'', ''502'', ''503'',
   ''504'', ''524'', ''service.?unavailable'', ''server.?error'', ''internal.?error'',
   ''provider.?returned.?error'', ''exceeded request buffer limit while retrying upstream'',
   ''network.?error'', ''connection.?error'', ''connection.?refused'', ''connection.?lost'',
   ''other side closed'', ''fetch failed'', ''getaddrinfo'', ''ENOTFOUND'', ''EAI_AGAIN'',
   ''upstream.?connect'', ''reset before headers'', ''socket hang up'',
   ''socket connection was closed'', ''timed? out'', ''timeout'', ''terminated'',
   ''websocket.?closed'', ''websocket.?error'', ''ended without'',
   ''stream ended before message_stop'', ''stream ended before a terminal response event'',
   ''http2 request did not get a response'', ''retry delay'', ''you can retry your request'',
   ''try your request again'', ''please retry your request'', ''ResourceExhausted'']"

definition isRetryableAssistantError :: "assistant_message \<Rightarrow> bool" where
  "isRetryableAssistantError message =
     (case am_errorMessage message of
        None \<Rightarrow> False
      | Some errorMessage \<Rightarrow>
          if am_stopReason message \<noteq> StopError \<or> errorMessage = [] then False
          else if matches_pattern NON_RETRYABLE_PROVIDER_LIMIT_ERROR_PATTERN errorMessage then False
          else matches_pattern RETRYABLE_PROVIDER_ERROR_PATTERN errorMessage)"

section \<open>The loop\<close>

record retry_policy =
  pol_enabled :: bool
  pol_maxRetries :: int
  pol_baseDelayMs :: int

record 'w retry_env =
  env_sleep :: "'w \<Rightarrow> int \<Rightarrow> 'w \<times> bool" \<comment> \<open>whether the sleep was aborted\<close>
  env_onRetryScheduled :: "'w \<Rightarrow> int \<Rightarrow> int \<Rightarrow> int \<Rightarrow> string \<Rightarrow> 'w"
  env_onRetryAttemptStart :: "'w \<Rightarrow> 'w"
  env_onRetryFinished :: "'w \<Rightarrow> bool \<Rightarrow> int \<Rightarrow> string option \<Rightarrow> 'w"

definition finish_retry ::
    "'w retry_env \<Rightarrow> 'w \<Rightarrow> bool \<Rightarrow> (int \<times> string) option \<Rightarrow> string option \<Rightarrow> 'w" where
  "finish_retry env w success lastRetry finalError =
     (case lastRetry of None \<Rightarrow> w | Some (attempt, _) \<Rightarrow> env_onRetryFinished env w success attempt finalError)"

definition error_text :: "assistant_message \<Rightarrow> string" where
  "error_text m =
     (case am_errorMessage m of None \<Rightarrow> ''Unknown error'' | Some s \<Rightarrow> if s = [] then ''Unknown error'' else s)"

function retry_loop ::
    "'w retry_env \<Rightarrow> ('w \<Rightarrow> 'w \<times> ('e + assistant_message)) \<Rightarrow> int \<Rightarrow> int \<Rightarrow> int \<Rightarrow>
     (int \<times> string) option \<Rightarrow> 'w \<Rightarrow> 'w \<times> ('e + assistant_message)" where
  "retry_loop env produce maxAttempts baseDelayMs attempt lastRetry w =
     (case produce w of
        (w1, Inl e) \<Rightarrow> (w1, Inl e)
      | (w1, Inr response) \<Rightarrow>
          if am_stopReason response = StopAborted
          then (finish_retry env w1 False lastRetry None, Inr response)
          else if am_stopReason response \<noteq> StopError
          then (finish_retry env w1 True lastRetry None, Inr response)
          else if maxAttempts \<le> attempt \<or> \<not> isRetryableAssistantError response
          then (finish_retry env w1 False lastRetry (am_errorMessage response), Inr response)
          else
            (let attempt' = attempt + 1;
                 delayMs = baseDelayMs * 2 ^ nat (attempt' - 1);
                 w2 = env_onRetryScheduled env w1 attempt' maxAttempts delayMs (error_text response)
             in case env_sleep env w2 delayMs of
                  (w3, True) \<Rightarrow>
                    (env_onRetryFinished env w3 False attempt' (Some (error_text response)),
                     Inr (response\<lparr>am_stopReason := StopAborted, am_errorMessage := None\<rparr>))
                | (w3, False) \<Rightarrow>
                    retry_loop env produce maxAttempts baseDelayMs attempt'
                      (Some (attempt', error_text response)) (env_onRetryAttemptStart env w3)))"
  by pat_completeness auto
termination
  by (relation "measure (\<lambda>(env, produce, maxAttempts, baseDelayMs, attempt, lastRetry, w).
      nat (maxAttempts - attempt))") auto

declare retry_loop.simps [simp del]

definition retryAssistantCall ::
    "'w retry_env \<Rightarrow> ('w \<Rightarrow> 'w \<times> ('e + assistant_message)) \<Rightarrow> retry_policy option \<Rightarrow> 'w \<Rightarrow>
     'w \<times> ('e + assistant_message)" where
  "retryAssistantCall env produce policy w =
     (let maxAttempts = (case policy of None \<Rightarrow> 0 | Some p \<Rightarrow> if pol_enabled p then pol_maxRetries p else 0);
          baseDelayMs = (case policy of None \<Rightarrow> 0 | Some p \<Rightarrow> pol_baseDelayMs p)
      in retry_loop env produce maxAttempts baseDelayMs 0 None w)"

section \<open>What the loop did\<close>

text \<open>
  The same run with a log: every call and every sleep of the loop leaves an event. The log does not
  influence the run.
\<close>

datatype retry_event = Called | Slept int

definition traced_call ::
    "('w \<Rightarrow> 'w \<times> ('e + assistant_message)) \<Rightarrow> retry_event list \<times> 'w \<Rightarrow>
     (retry_event list \<times> 'w) \<times> ('e + assistant_message)" where
  "traced_call produce = (\<lambda>(events, w). case produce w of (w', r) \<Rightarrow> ((events @ [Called], w'), r))"

definition traced_env :: "'w retry_env \<Rightarrow> (retry_event list \<times> 'w) retry_env" where
  "traced_env env =
     \<lparr>env_sleep = (\<lambda>(events, w) d. case env_sleep env w d of (w', aborted) \<Rightarrow> ((events @ [Slept d], w'), aborted)),
      env_onRetryScheduled = (\<lambda>(events, w) a n d msg. (events, env_onRetryScheduled env w a n d msg)),
      env_onRetryAttemptStart = (\<lambda>(events, w). (events, env_onRetryAttemptStart env w)),
      env_onRetryFinished = (\<lambda>(events, w) ok a msg. (events, env_onRetryFinished env w ok a msg))\<rparr>"

text \<open>One call, then \<open>k - a\<close> times a sleep and another call, the sleeps doubling.\<close>

definition retry_schedule :: "int \<Rightarrow> nat \<Rightarrow> nat \<Rightarrow> retry_event list" where
  "retry_schedule b a k = Called # concat (map (\<lambda>j. [Slept (b * 2 ^ j), Called]) [a..<k])"

definition settled :: "int \<Rightarrow> nat \<Rightarrow> 'e + assistant_message \<Rightarrow> bool" where
  "settled n k result =
     (case result of
        Inl _ \<Rightarrow> True
      | Inr m \<Rightarrow> am_stopReason m = StopError \<longrightarrow> n \<le> int k \<or> \<not> isRetryableAssistantError m)"

definition retry_outcome ::
    "int \<Rightarrow> int \<Rightarrow> nat \<Rightarrow> retry_event list \<Rightarrow> 'e + assistant_message \<Rightarrow> bool" where
  "retry_outcome n b a events result \<longleftrightarrow>
     (\<exists>k \<ge> a. (k = a \<or> int k \<le> n) \<and> events = retry_schedule b a k \<and> settled n k result) \<or>
     (\<exists>k \<ge> a. int k < n \<and> events = retry_schedule b a k @ [Slept (b * 2 ^ k)] \<and>
        (\<exists>m. result = Inr m \<and> am_stopReason m = StopAborted \<and> am_errorMessage m = None))"

lemma retry_schedule_step:
  "a < k \<Longrightarrow> retry_schedule b a k = [Called, Slept (b * 2 ^ a)] @ retry_schedule b (Suc a) k"
  by (simp add: retry_schedule_def upt_conv_Cons)

lemma retry_outcome_now: "settled n a result \<Longrightarrow> retry_outcome n b a [Called] result"
  by (auto simp: retry_outcome_def retry_schedule_def)

lemma retry_outcome_later:
  assumes "retry_outcome n b (Suc a) events result" "int a < n"
  shows "retry_outcome n b a ([Called, Slept (b * 2 ^ a)] @ events) result"
proof -
  have step: "a < k \<and> (k = a \<or> int k \<le> n)" if "Suc a \<le> k" "k = Suc a \<or> int k \<le> n" for k
    using that assms(2) by auto
  from assms(1) consider
      (called) k where "Suc a \<le> k" "k = Suc a \<or> int k \<le> n" "events = retry_schedule b (Suc a) k" "settled n k result"
    | (slept) k where "Suc a \<le> k" "int k < n" "events = retry_schedule b (Suc a) k @ [Slept (b * 2 ^ k)]"
        "\<exists>m. result = Inr m \<and> am_stopReason m = StopAborted \<and> am_errorMessage m = None"
    unfolding retry_outcome_def by blast
  then show ?thesis
  proof cases
    case called
    then show ?thesis using step [of k] retry_schedule_step [of a k b]
      unfolding retry_outcome_def by (intro disjI1 exI [of _ k]) simp
  next
    case slept
    then show ?thesis using retry_schedule_step [of a k b]
      unfolding retry_outcome_def by (intro disjI2 exI [of _ k]) simp
  qed
qed

lemma traced_call_simp [simp]:
  "traced_call produce (events, w) = (case produce w of (w', r) \<Rightarrow> ((events @ [Called], w'), r))"
  by (simp add: traced_call_def)

lemma traced_finish [simp]:
  "finish_retry (traced_env env) (events, w) ok lastRetry msg = (events, finish_retry env w ok lastRetry msg)"
  by (simp add: finish_retry_def traced_env_def split: option.splits)

lemma traced_env_simps [simp]:
  "env_onRetryScheduled (traced_env env) (events, w) a n d msg = (events, env_onRetryScheduled env w a n d msg)"
  "env_onRetryAttemptStart (traced_env env) (events, w) = (events, env_onRetryAttemptStart env w)"
  "env_onRetryFinished (traced_env env) (events, w) ok a fin = (events, env_onRetryFinished env w ok a fin)"
  "env_sleep (traced_env env) (events, w) d =
     (case env_sleep env w d of (w', aborted) \<Rightarrow> ((events @ [Slept d], w'), aborted))"
  by (simp_all add: traced_env_def)

lemma retry_loop_traced:
  "\<exists>more. retry_loop (traced_env env) (traced_call produce) n b (int a) lastRetry (events, w) =
       (case retry_loop env produce n b (int a) lastRetry w of (w', r) \<Rightarrow> ((events @ more, w'), r)) \<and>
     retry_outcome n b a more (snd (retry_loop env produce n b (int a) lastRetry w))"
proof (induction "nat (n - int a)" arbitrary: a lastRetry events w rule: less_induct)
  case less
  let ?goal = "\<lambda>more. retry_loop (traced_env env) (traced_call produce) n b (int a) lastRetry (events, w) =
       (case retry_loop env produce n b (int a) lastRetry w of (w', r) \<Rightarrow> ((events @ more, w'), r)) \<and>
     retry_outcome n b a more (snd (retry_loop env produce n b (int a) lastRetry w))"
  note unfold = retry_loop.simps [of "traced_env env" "traced_call produce" n b "int a" lastRetry "(events, w)"]
    retry_loop.simps [of env produce n b "int a" lastRetry w]
  obtain w1 out where out: "produce w = (w1, out)" by fastforce
  show ?case
  proof (cases out)
    case (Inl e)
    then have "?goal [Called]" using out
      by (simp add: unfold retry_outcome_now settled_def)
    then show ?thesis by blast
  next
    case (Inr m)
    show ?thesis
    proof (cases "am_stopReason m = StopError \<and> int a < n \<and> isRetryableAssistantError m")
      case False
      then have "?goal [Called]" using out Inr
        by (auto simp: unfold intro!: retry_outcome_now simp: settled_def)
      then show ?thesis by blast
    next
      case True
      let ?w2 = "env_onRetryScheduled env w1 (int a + 1) n (b * 2 ^ a) (error_text m)"
      obtain w3 aborted where s: "env_sleep env ?w2 (b * 2 ^ a) = (w3, aborted)" by fastforce
      show ?thesis
      proof (cases aborted)
        case True
        then have "?goal [Called, Slept (b * 2 ^ a)]" using out Inr s \<open>am_stopReason m = StopError \<and> _\<close>
          by (simp add: unfold retry_outcome_def)
            (rule disjI2, intro exI [of _ a], simp add: retry_schedule_def)
        then show ?thesis by blast
      next
        case False
        let ?last = "Some (int (Suc a), error_text m)"
        obtain more where more:
          "retry_loop (traced_env env) (traced_call produce) n b (int (Suc a)) ?last
             (events @ [Called, Slept (b * 2 ^ a)], env_onRetryAttemptStart env w3) =
           (case retry_loop env produce n b (int (Suc a)) ?last (env_onRetryAttemptStart env w3) of
              (w', r) \<Rightarrow> (((events @ [Called, Slept (b * 2 ^ a)]) @ more, w'), r))"
          "retry_outcome n b (Suc a) more
             (snd (retry_loop env produce n b (int (Suc a)) ?last (env_onRetryAttemptStart env w3)))"
          using less [of "Suc a" ?last "events @ [Called, Slept (b * 2 ^ a)]" "env_onRetryAttemptStart env w3"] True by fastforce
        have "?goal ([Called, Slept (b * 2 ^ a)] @ more)"
          using out Inr s False True more(1) retry_outcome_later [OF more(2)]
          by (simp add: unfold add.commute split: prod.splits)
        then show ?thesis by blast
      qed
    qed
  qed
qed

lemma called_in_schedule: "a \<le> k \<Longrightarrow> length (filter ((=) Called) (retry_schedule b a k)) = Suc (k - a)"
  by (induction k) (auto simp: retry_schedule_def le_Suc_eq)

lemma retry_outcome_calls:
  "retry_outcome n b 0 events result \<Longrightarrow> length (filter ((=) Called) events) \<le> Suc (nat n)"
  unfolding retry_outcome_def by (auto simp: called_in_schedule)

definition retry_limit :: "retry_policy option \<Rightarrow> int" where
  "retry_limit policy = (case policy of None \<Rightarrow> 0 | Some p \<Rightarrow> if pol_enabled p then pol_maxRetries p else 0)"

definition base_delay :: "retry_policy option \<Rightarrow> int" where
  "base_delay policy = (case policy of None \<Rightarrow> 0 | Some p \<Rightarrow> pol_baseDelayMs p)"

section \<open>Property\<close>

text \<open>
  C34. Retries are bounded and back off. Whatever the calls answer, the loop ends after at most one
  call more than the policy allows retries; between the calls it sleeps the base delay, doubled each
  time, and nothing else. It gives up on an error only when the error is not transient or the retries
  are used up, and a sleep that is aborted ends the run with an aborted answer. The log is that of
  the run itself: the world and the result are those of the loop without a log.
\<close>

theorem retries_bounded_with_backoff:
  assumes "retryAssistantCall (traced_env env) (traced_call produce) policy ([], w) = ((events, w'), result)"
  shows "retryAssistantCall env produce policy w = (w', result) \<and>
    length (filter ((=) Called) events) \<le> Suc (nat (retry_limit policy)) \<and>
    retry_outcome (retry_limit policy) (base_delay policy) 0 events result"
proof -
  obtain more where more:
      "retryAssistantCall (traced_env env) (traced_call produce) policy ([], w) =
         (case retryAssistantCall env produce policy w of (w', r) \<Rightarrow> ((more, w'), r))"
      "retry_outcome (retry_limit policy) (base_delay policy) 0 more (snd (retryAssistantCall env produce policy w))"
    using retry_loop_traced [where a = 0 and n = "retry_limit policy" and b = "base_delay policy"
        and lastRetry = None and events = "[]" and env = env and produce = produce and w = w]
    by (auto simp: retryAssistantCall_def retry_limit_def base_delay_def Let_def)
  with assms show ?thesis by (auto split: prod.splits dest: retry_outcome_calls)
qed

definition demo_answer :: "stop_reason \<Rightarrow> string option \<Rightarrow> assistant_message" where
  "demo_answer reason msg =
     \<lparr>am_content = [], am_api = ''api'', am_provider = ''p'', am_model = ''m'', am_responseModel = None,
      am_responseId = None, am_diagnostics = None,
      am_usage = \<lparr>u_input = 0, u_output = 0, u_cacheRead = 0, u_cacheWrite = 0, u_cacheWrite1h = None,
        u_reasoning = None, u_totalTokens = 0,
        u_cost = \<lparr>cost_input = 0, cost_output = 0, cost_cacheRead = 0, cost_cacheWrite = 0, cost_total = 0\<rparr>\<rparr>,
      am_stopReason = reason, am_deferred = None, am_errorMessage = msg, am_rawStopReason = None,
      am_endTurn = None, am_timestamp = 0\<rparr>"

text \<open>A provider that answers from a list, and callbacks that do nothing.\<close>

definition scripted :: "assistant_message list \<Rightarrow> assistant_message list \<times> (unit + assistant_message)" where
  "scripted ms = (case ms of [] \<Rightarrow> ([], Inl ()) | m # ms' \<Rightarrow> (ms', Inr m))"

definition quiet_env :: "'w retry_env" where
  "quiet_env = \<lparr>env_sleep = (\<lambda>w d. (w, False)), env_onRetryScheduled = (\<lambda>w a n d msg. w),
     env_onRetryAttemptStart = (\<lambda>w. w), env_onRetryFinished = (\<lambda>w ok a msg. w)\<rparr>"

lemma demo_retryable: "isRetryableAssistantError (demo_answer StopError (Some ''Overloaded''))"
  by code_simp

theorem retries_bounded_with_backoff_witness:
  "retryAssistantCall quiet_env scripted (Some \<lparr>pol_enabled = True, pol_maxRetries = 2, pol_baseDelayMs = 100\<rparr>)
     [demo_answer StopError (Some ''Overloaded''), demo_answer StopStop None] =
   ([], Inr (demo_answer StopStop None))"
proof -
  have "retryAssistantCall (traced_env quiet_env) (traced_call scripted)
      (Some \<lparr>pol_enabled = True, pol_maxRetries = 2, pol_baseDelayMs = 100\<rparr>)
      ([], [demo_answer StopError (Some ''Overloaded''), demo_answer StopStop None]) =
    (([Called, Slept 100, Called], []), Inr (demo_answer StopStop None))"
    using demo_retryable
    by (simp add: retryAssistantCall_def retry_loop.simps scripted_def quiet_env_def demo_answer_def finish_retry_def
        traced_env_def)
  from retries_bounded_with_backoff [OF this] show ?thesis by simp
qed

end
