(* ===== verification/Compaction.thy ===== *)
theory Compaction
  imports Session_Context Json_Text Model_Retry "HOL-Library.List_Lexorder"
begin

text \<open>
  Compaction of long sessions, \<^verbatim>\<open>packages/agent/src/harness/compaction/compaction.ts\<close> and
  \<^verbatim>\<open>compaction/utils.ts\<close>: token estimates, the choice of the cut point, the split of a branch
  into what is summarised and what is retained, the prompts for the summaries and the compaction
  that is stored. An array index out of range makes the source throw; that is \<open>None\<close> of the outer
  \<open>option\<close>. Token numbers are integers; the calls of the model act on a world \<open>'w\<close> and are arguments.
\<close>

section \<open>File operations\<close>

text \<open>A JavaScript \<open>Set\<close>: the elements in insertion order, without duplicates.\<close>

definition set_add :: "'a \<Rightarrow> 'a list \<Rightarrow> 'a list" where
  "set_add x xs = (if x \<in> set xs then xs else xs @ [x])"

record file_operations =
  fo_read :: "string list"
  fo_written :: "string list"
  fo_edited :: "string list"

definition createFileOps :: file_operations where
  "createFileOps = \<lparr>fo_read = [], fo_written = [], fo_edited = []\<rparr>"

definition add_tool_call :: "tool_call \<Rightarrow> file_operations \<Rightarrow> file_operations" where
  "add_tool_call call fileOps =
     (case map_get (tc_arguments call) ''path'' of
        Some (JString path) \<Rightarrow>
          if path = [] then fileOps
          else if tc_name call = ''read'' then fileOps\<lparr>fo_read := set_add path (fo_read fileOps)\<rparr>
          else if tc_name call = ''write'' then fileOps\<lparr>fo_written := set_add path (fo_written fileOps)\<rparr>
          else if tc_name call = ''edit'' then fileOps\<lparr>fo_edited := set_add path (fo_edited fileOps)\<rparr>
          else fileOps
      | _ \<Rightarrow> fileOps)"

definition extractFileOpsFromMessage :: "agent_message \<Rightarrow> file_operations \<Rightarrow> file_operations" where
  "extractFileOpsFromMessage message fileOps =
     (case message of
        AssistantMessage m \<Rightarrow> fold add_tool_call (tool_calls_of (am_content m)) fileOps
      | _ \<Rightarrow> fileOps)"

text \<open>\<^verbatim>\<open>sort()\<close> compares strings by their code units.\<close>

definition sort_strings :: "string list \<Rightarrow> string list" where
  "sort_strings xs = sort_by (map (of_char :: char \<Rightarrow> nat)) xs"

definition computeFileLists :: "file_operations \<Rightarrow> string list \<times> string list" where
  "computeFileLists fileOps =
     (let modified = fold set_add (fo_edited fileOps @ fo_written fileOps) []
      in (sort_strings (filter (\<lambda>f. f \<notin> set modified) (fo_read fileOps)), sort_strings modified))"

fun join_with :: "string \<Rightarrow> string list \<Rightarrow> string" where
  "join_with sep [] = []"
| "join_with sep [s] = s"
| "join_with sep (s # t # ss) = s @ sep @ join_with sep (t # ss)"

definition formatFileOperations :: "string list \<Rightarrow> string list \<Rightarrow> string" where
  "formatFileOperations readFiles modifiedFiles =
     (let sections =
        (if readFiles \<noteq> [] then [''<read-files>'' @ nl @ join_with nl readFiles @ nl @ ''</read-files>''] else []) @
        (if modifiedFiles \<noteq> []
         then [''<modified-files>'' @ nl @ join_with nl modifiedFiles @ nl @ ''</modified-files>''] else [])
      in if sections = [] then [] else nl @ nl @ join_with (nl @ nl) sections)"

section \<open>Conversations as text\<close>

definition TOOL_RESULT_MAX_CHARS :: nat where
  "TOOL_RESULT_MAX_CHARS = 2000"

definition safeJsonStringify :: "json \<Rightarrow> string" where
  "safeJsonStringify v = json_text v"

definition truncateForSummary :: "string \<Rightarrow> nat \<Rightarrow> string" where
  "truncateForSummary s maxChars =
     (if length s \<le> maxChars then s
      else take maxChars s @ nl @ nl @ ''[... '' @ decimal (length s - maxChars) @ '' more characters truncated]'')"

fun input_text :: "input_content \<Rightarrow> string option" where
  "input_text (TextInput s _) = Some s"
| "input_text (ImageInput _ _) = None"

fun output_text :: "assistant_content \<Rightarrow> string option" where
  "output_text (TextContent s _) = Some s"
| "output_text (ThinkingContent _ _ _) = None"
| "output_text (ToolCallContent _) = None"

fun output_thinking :: "assistant_content \<Rightarrow> string option" where
  "output_thinking (ThinkingContent s _ _) = Some s"
| "output_thinking (TextContent _ _) = None"
| "output_thinking (ToolCallContent _) = None"

definition contentText :: "message_content \<Rightarrow> string \<Rightarrow> string" where
  "contentText content separator =
     (case content of
        ContentString s \<Rightarrow> s
      | ContentBlocks blocks \<Rightarrow> join_with separator (List.map_filter input_text blocks))"

definition assistantText :: "assistant_content list \<Rightarrow> string" where
  "assistantText content = join_with nl (List.map_filter output_text content)"

definition tool_call_text :: "tool_call \<Rightarrow> string" where
  "tool_call_text call =
     tc_name call @ ''('' @
     join_with '', '' (map (\<lambda>(k, v). k @ ''='' @ safeJsonStringify v) (tc_arguments call)) @ '')''"

definition message_parts :: "agent_message \<Rightarrow> string list" where
  "message_parts msg =
     (case msg of
        UserMessage m \<Rightarrow>
          (let content = contentText (um_content m) [] in if content \<noteq> [] then [''[User]: '' @ content] else [])
      | AssistantMessage m \<Rightarrow>
          (let thinkingParts = List.map_filter output_thinking (am_content m);
               toolCalls = map tool_call_text (tool_calls_of (am_content m))
           in (if thinkingParts \<noteq> [] then [''[Assistant thinking]: '' @ join_with nl thinkingParts] else []) @
              (if list_ex (\<lambda>b. output_text b \<noteq> None) (am_content m)
               then [''[Assistant]: '' @ assistantText (am_content m)] else []) @
              (if toolCalls \<noteq> [] then [''[Assistant tool calls]: '' @ join_with ''; '' toolCalls] else []))
      | ToolResultMessage m \<Rightarrow>
          (let content = contentText (ContentBlocks (tr_content m)) []
           in if content \<noteq> [] then [''[Tool result]: '' @ truncateForSummary content TOOL_RESULT_MAX_CHARS] else [])
      | _ \<Rightarrow> [])"

definition serializeConversation :: "agent_message list \<Rightarrow> string" where
  "serializeConversation messages = join_with (nl @ nl) (concat (map message_parts messages))"

section \<open>Messages of entries\<close>

record compaction_details =
  cd_readFiles :: "string list"
  cd_modifiedFiles :: "string list"

text \<open>
  The file lists in the stored details of an earlier summary. The source casts the elements to
  strings; an element of another type has no place in the model's sets and is left out.
\<close>

definition detail_strings :: "string \<Rightarrow> json option \<Rightarrow> string list" where
  "detail_strings k details =
     (case details of
        Some (JObject props) \<Rightarrow>
          (case map_get props k of
             Some (JArray vs) \<Rightarrow> concat (map (\<lambda>v. case v of JString s \<Rightarrow> [s] | _ \<Rightarrow> []) vs)
           | _ \<Rightarrow> [])
      | _ \<Rightarrow> [])"

definition add_details :: "json option \<Rightarrow> file_operations \<Rightarrow> file_operations" where
  "add_details details fileOps =
     fileOps\<lparr>fo_read := fold set_add (detail_strings ''readFiles'' details) (fo_read fileOps),
       fo_edited := fold set_add (detail_strings ''modifiedFiles'' details) (fo_edited fileOps)\<rparr>"

definition extractFileOperations ::
    "agent_message list \<Rightarrow> entry list \<Rightarrow> nat option \<Rightarrow> file_operations" where
  "extractFileOperations messages entries prevCompactionIndex =
     fold extractFileOpsFromMessage messages
       (case prevCompactionIndex of
          None \<Rightarrow> createFileOps
        | Some i \<Rightarrow>
            (case e_payload (entries ! i) of
               CompactionPayload _ _ _ details _ \<Rightarrow> add_details details createFileOps
             | _ \<Rightarrow> createFileOps))"

definition getMessageFromEntry :: "entry \<Rightarrow> agent_message option" where
  "getMessageFromEntry e =
     (case e_payload e of
        MessagePayload m _ \<Rightarrow> Some m
      | BranchSummaryPayload fromId summary _ _ \<Rightarrow>
          Some (BranchSummaryMessage (createBranchSummaryMessage summary fromId (e_timestamp e)))
      | CompactionPayload summary _ tokensBefore _ _ \<Rightarrow>
          Some (CompactionSummaryMessage (createCompactionSummaryMessage summary tokensBefore (e_timestamp e)))
      | _ \<Rightarrow> None)"

definition getMessageFromEntryForCompaction :: "entry \<Rightarrow> agent_message option" where
  "getMessageFromEntryForCompaction e =
     (if entry_type_of e = TCompaction then None else getMessageFromEntry e)"

section \<open>Token estimates\<close>

record compaction_settings =
  cps_enabled :: bool
  cps_reserveTokens :: int
  cps_keepRecentTokens :: int

definition DEFAULT_COMPACTION_SETTINGS :: compaction_settings where
  "DEFAULT_COMPACTION_SETTINGS =
     \<lparr>cps_enabled = True, cps_reserveTokens = 16384, cps_keepRecentTokens = 20000\<rparr>"

definition combineUsage :: "usage \<Rightarrow> usage \<Rightarrow> usage" where
  "combineUsage a b =
     (let sum_opt = (\<lambda>x y. case (x, y) of (None, None) \<Rightarrow> None
            | _ \<Rightarrow> Some ((case x of None \<Rightarrow> 0 | Some n \<Rightarrow> n) + (case y of None \<Rightarrow> 0 | Some n \<Rightarrow> n)))
      in \<lparr>u_input = u_input a + u_input b, u_output = u_output a + u_output b,
          u_cacheRead = u_cacheRead a + u_cacheRead b, u_cacheWrite = u_cacheWrite a + u_cacheWrite b,
          u_cacheWrite1h = sum_opt (u_cacheWrite1h a) (u_cacheWrite1h b),
          u_reasoning = sum_opt (u_reasoning a) (u_reasoning b),
          u_totalTokens = u_totalTokens a + u_totalTokens b,
          u_cost = \<lparr>cost_input = cost_input (u_cost a) + cost_input (u_cost b),
            cost_output = cost_output (u_cost a) + cost_output (u_cost b),
            cost_cacheRead = cost_cacheRead (u_cost a) + cost_cacheRead (u_cost b),
            cost_cacheWrite = cost_cacheWrite (u_cost a) + cost_cacheWrite (u_cost b),
            cost_total = cost_total (u_cost a) + cost_total (u_cost b)\<rparr>\<rparr>)"

definition calculateContextTokens :: "usage \<Rightarrow> int" where
  "calculateContextTokens u =
     (if u_totalTokens u \<noteq> 0 then u_totalTokens u
      else u_input u + u_output u + u_cacheRead u + u_cacheWrite u)"

definition getAssistantUsage :: "agent_message \<Rightarrow> usage option" where
  "getAssistantUsage msg =
     (case msg of
        AssistantMessage m \<Rightarrow>
          if am_stopReason m \<noteq> StopAborted \<and> am_stopReason m \<noteq> StopError \<and> calculateContextTokens (am_usage m) > 0
          then Some (am_usage m) else None
      | _ \<Rightarrow> None)"

text \<open>The loops from the end, on the reversed list.\<close>

fun last_usage_loop :: "entry list \<Rightarrow> usage option" where
  "last_usage_loop [] = None"
| "last_usage_loop (e # es) =
     (case e_payload e of
        MessagePayload m _ \<Rightarrow>
          (case getAssistantUsage m of Some u \<Rightarrow> Some u | None \<Rightarrow> last_usage_loop es)
      | _ \<Rightarrow> last_usage_loop es)"

definition getLastAssistantUsage :: "entry list \<Rightarrow> usage option" where
  "getLastAssistantUsage entries = last_usage_loop (rev entries)"

fun usage_info_loop :: "agent_message list \<Rightarrow> (usage \<times> nat) option" where
  "usage_info_loop [] = None"
| "usage_info_loop (m # ms) =
     (case getAssistantUsage m of Some u \<Rightarrow> Some (u, length ms) | None \<Rightarrow> usage_info_loop ms)"

definition getLastAssistantUsageInfo :: "agent_message list \<Rightarrow> (usage \<times> nat) option" where
  "getLastAssistantUsageInfo messages = usage_info_loop (rev messages)"

definition ESTIMATED_IMAGE_CHARS :: nat where
  "ESTIMATED_IMAGE_CHARS = 4800"

definition estimateTextAndImageContentChars :: "message_content \<Rightarrow> nat" where
  "estimateTextAndImageContentChars content =
     (case content of
        ContentString s \<Rightarrow> length s
      | ContentBlocks blocks \<Rightarrow>
          sum_list (map (\<lambda>b. case b of TextInput s _ \<Rightarrow> length s | ImageInput _ _ \<Rightarrow> ESTIMATED_IMAGE_CHARS) blocks))"

definition quarter :: "nat \<Rightarrow> nat" where
  "quarter chars = (chars + 3) div 4"

definition block_chars :: "assistant_content \<Rightarrow> nat" where
  "block_chars b =
     (case b of
        TextContent s _ \<Rightarrow> length s
      | ThinkingContent s _ _ \<Rightarrow> length s
      | ToolCallContent call \<Rightarrow> length (tc_name call) + length (safeJsonStringify (JObject (tc_arguments call))))"

definition estimateTokens :: "agent_message \<Rightarrow> nat" where
  "estimateTokens message =
     (case message of
        UserMessage m \<Rightarrow> quarter (estimateTextAndImageContentChars (um_content m))
      | AssistantMessage m \<Rightarrow> quarter (sum_list (map block_chars (am_content m)))
      | CustomMessage m \<Rightarrow> quarter (estimateTextAndImageContentChars (cm_content m))
      | ToolResultMessage m \<Rightarrow> quarter (estimateTextAndImageContentChars (ContentBlocks (tr_content m)))
      | BashExecutionMessage m \<Rightarrow> quarter (length (bx_command m) + length (bx_output m))
      | BranchSummaryMessage m \<Rightarrow> quarter (length (bsm_summary m))
      | CompactionSummaryMessage m \<Rightarrow> quarter (length (csm_summary m)))"

record context_usage_estimate =
  cu_tokens :: int
  cu_usageTokens :: int
  cu_trailingTokens :: int
  cu_lastUsageIndex :: "nat option"

definition tokens_of :: "agent_message list \<Rightarrow> int" where
  "tokens_of messages = int (sum_list (map estimateTokens messages))"

definition estimateContextTokens :: "agent_message list \<Rightarrow> context_usage_estimate" where
  "estimateContextTokens messages =
     (case getLastAssistantUsageInfo messages of
        None \<Rightarrow> \<lparr>cu_tokens = tokens_of messages, cu_usageTokens = 0, cu_trailingTokens = tokens_of messages,
                  cu_lastUsageIndex = None\<rparr>
      | Some (u, index) \<Rightarrow>
          (let usageTokens = calculateContextTokens u; trailingTokens = tokens_of (drop (index + 1) messages)
           in \<lparr>cu_tokens = usageTokens + trailingTokens, cu_usageTokens = usageTokens,
               cu_trailingTokens = trailingTokens, cu_lastUsageIndex = Some index\<rparr>))"

definition shouldCompact :: "int \<Rightarrow> int \<Rightarrow> compaction_settings \<Rightarrow> bool" where
  "shouldCompact contextTokens contextWindow settings =
     (if \<not> cps_enabled settings then False else contextTokens > contextWindow - cps_reserveTokens settings)"

section \<open>The cut point\<close>

definition valid_cut :: "entry \<Rightarrow> bool" where
  "valid_cut e =
     (case e_payload e of
        MessagePayload m _ \<Rightarrow> role_of m \<noteq> RoleToolResult
      | BranchSummaryPayload _ _ _ _ \<Rightarrow> True
      | _ \<Rightarrow> False)"

definition findValidCutPoints :: "entry list \<Rightarrow> nat \<Rightarrow> nat \<Rightarrow> nat list option" where
  "findValidCutPoints entries startIndex endIndex =
     (if startIndex < endIndex \<and> length entries < endIndex then None
      else Some (filter (\<lambda>i. valid_cut (entries ! i)) [startIndex..<endIndex]))"

definition starts_turn :: "entry \<Rightarrow> bool" where
  "starts_turn e =
     (case e_payload e of
        BranchSummaryPayload _ _ _ _ \<Rightarrow> True
      | MessagePayload m _ \<Rightarrow> role_of m = RoleUser \<or> role_of m = RoleBashExecution
      | _ \<Rightarrow> False)"

text \<open>\<open>turn_start_loop\<close> looks at the indices below its last argument, down to \<open>startIndex\<close>; \<open>None\<close> is -1.\<close>

fun turn_start_loop :: "entry list \<Rightarrow> nat \<Rightarrow> nat \<Rightarrow> nat option" where
  "turn_start_loop entries startIndex 0 = None"
| "turn_start_loop entries startIndex (Suc i) =
     (if i < startIndex then None
      else if starts_turn (entries ! i) then Some i
      else turn_start_loop entries startIndex i)"

definition findTurnStartIndex :: "entry list \<Rightarrow> nat \<Rightarrow> nat \<Rightarrow> nat option option" where
  "findTurnStartIndex entries entryIndex startIndex =
     (if startIndex \<le> entryIndex \<and> length entries \<le> entryIndex then None
      else Some (turn_start_loop entries startIndex (Suc entryIndex)))"

record cut_point =
  cp_firstKeptEntryIndex :: nat
  cp_turnStartIndex :: "nat option"
  cp_isSplitTurn :: bool

fun budget_loop :: "entry list \<Rightarrow> nat \<Rightarrow> nat list \<Rightarrow> int \<Rightarrow> nat \<Rightarrow> int \<Rightarrow> nat \<Rightarrow> nat" where
  "budget_loop entries startIndex cutPoints keepRecentTokens 0 accumulated cutIndex = cutIndex"
| "budget_loop entries startIndex cutPoints keepRecentTokens (Suc i) accumulated cutIndex =
     (if i < startIndex then cutIndex
      else (case e_payload (entries ! i) of
              MessagePayload m _ \<Rightarrow>
                (let accumulated' = accumulated + int (estimateTokens m)
                 in if keepRecentTokens \<le> accumulated'
                    then (case find (\<lambda>c. i \<le> c) cutPoints of None \<Rightarrow> cutIndex | Some c \<Rightarrow> c)
                    else budget_loop entries startIndex cutPoints keepRecentTokens i accumulated' cutIndex)
            | _ \<Rightarrow> budget_loop entries startIndex cutPoints keepRecentTokens i accumulated cutIndex))"

fun back_loop :: "entry list \<Rightarrow> nat \<Rightarrow> nat \<Rightarrow> nat" where
  "back_loop entries startIndex 0 = 0"
| "back_loop entries startIndex (Suc i) =
     (if Suc i \<le> startIndex then Suc i
      else if entry_type_of (entries ! i) \<in> {TCompaction, TMessage} then Suc i
      else back_loop entries startIndex i)"

definition findCutPoint :: "entry list \<Rightarrow> nat \<Rightarrow> nat \<Rightarrow> int \<Rightarrow> cut_point option" where
  "findCutPoint entries startIndex endIndex keepRecentTokens =
     (case findValidCutPoints entries startIndex endIndex of
        None \<Rightarrow> None
      | Some [] \<Rightarrow> Some \<lparr>cp_firstKeptEntryIndex = startIndex, cp_turnStartIndex = None, cp_isSplitTurn = False\<rparr>
      | Some (c # cs) \<Rightarrow>
          (let cutIndex = back_loop entries startIndex
                 (budget_loop entries startIndex (c # cs) keepRecentTokens endIndex 0 c);
               isUserMessage = (case e_payload (entries ! cutIndex) of
                 MessagePayload m _ \<Rightarrow> role_of m = RoleUser | _ \<Rightarrow> False)
           in case (if isUserMessage then Some None else findTurnStartIndex entries cutIndex startIndex) of
                None \<Rightarrow> None
              | Some turnStartIndex \<Rightarrow>
                  Some \<lparr>cp_firstKeptEntryIndex = cutIndex, cp_turnStartIndex = turnStartIndex,
                        cp_isSplitTurn = (\<not> isUserMessage \<and> turnStartIndex \<noteq> None)\<rparr>))"

section \<open>Preparation\<close>

record compaction_preparation =
  pr_messagesToSummarize :: "agent_message list"
  pr_turnPrefixMessages :: "agent_message list"
  pr_retainedTail :: "agent_message list"
  pr_isSplitTurn :: bool
  pr_tokensBefore :: int
  pr_previousSummary :: "string option"
  pr_fileOps :: file_operations
  pr_settings :: compaction_settings

fun message_timestamp :: "agent_message \<Rightarrow> int" where
  "message_timestamp (UserMessage m) = um_timestamp m"
| "message_timestamp (AssistantMessage m) = am_timestamp m"
| "message_timestamp (ToolResultMessage m) = tr_timestamp m"
| "message_timestamp (BashExecutionMessage m) = bx_timestamp m"
| "message_timestamp (CustomMessage m) = cm_timestamp m"
| "message_timestamp (BranchSummaryMessage m) = bsm_timestamp m"
| "message_timestamp (CompactionSummaryMessage m) = csm_timestamp m"

fun compaction_index_loop :: "entry list \<Rightarrow> nat \<Rightarrow> nat option" where
  "compaction_index_loop entries 0 = None"
| "compaction_index_loop entries (Suc i) =
     (if entry_type_of (entries ! i) = TCompaction then Some i else compaction_index_loop entries i)"

definition virtual_entry :: "entry \<Rightarrow> nat \<times> agent_message \<Rightarrow> entry" where
  "virtual_entry prev = (\<lambda>(index, message).
     \<lparr>e_id = e_id prev @ '':retained:'' @ decimal index, e_seq = e_seq prev,
      e_parentId = Some (if index = 0 then e_id prev else e_id prev @ '':retained:'' @ decimal (index - 1)),
      e_timestamp = message_timestamp message, e_payload = MessagePayload message False\<rparr>)"

definition compactable_entries :: "entry list \<Rightarrow> entry list \<times> string option" where
  "compactable_entries pathEntries =
     (case compaction_index_loop pathEntries (length pathEntries) of
        None \<Rightarrow> (pathEntries, None)
      | Some i \<Rightarrow>
          (case e_payload (pathEntries ! i) of
             CompactionPayload summary retainedTail _ _ _ \<Rightarrow>
               (map (virtual_entry (pathEntries ! i)) (enumerate 0 retainedTail) @ drop (i + 1) pathEntries, Some summary)
           | _ \<Rightarrow> (pathEntries, None)))"

definition messages_between :: "entry list \<Rightarrow> nat \<Rightarrow> nat \<Rightarrow> agent_message list" where
  "messages_between entries i j =
     List.map_filter getMessageFromEntryForCompaction (drop i (take j entries))"

definition prepareCompaction ::
    "entry list \<Rightarrow> compaction_settings \<Rightarrow> compaction_preparation option option" where
  "prepareCompaction pathEntries settings =
     (if pathEntries = [] \<or> entry_type_of (last pathEntries) = TCompaction then Some None
      else
        (case compactable_entries pathEntries of (entries, previousSummary) \<Rightarrow>
           (let boundaryEnd = length entries;
                tokensBefore = cu_tokens (estimateContextTokens
                  (sc_messages (buildSessionContext pathEntries default_build_options)))
            in case findCutPoint entries 0 boundaryEnd (cps_keepRecentTokens settings) of
                 None \<Rightarrow> None
               | Some cutPoint \<Rightarrow>
                   (let historyEnd = (case cp_turnStartIndex cutPoint of
                          Some t \<Rightarrow> if cp_isSplitTurn cutPoint then t else cp_firstKeptEntryIndex cutPoint
                        | None \<Rightarrow> cp_firstKeptEntryIndex cutPoint);
                        messagesToSummarize = messages_between entries 0 historyEnd;
                        turnPrefixMessages =
                          (if cp_isSplitTurn cutPoint then messages_between entries historyEnd (cp_firstKeptEntryIndex cutPoint) else []);
                        fileOps = extractFileOperations messagesToSummarize pathEntries
                          (compaction_index_loop pathEntries (length pathEntries))
                    in Some (Some
                       \<lparr>pr_messagesToSummarize = messagesToSummarize, pr_turnPrefixMessages = turnPrefixMessages,
                        pr_retainedTail = messages_between entries (cp_firstKeptEntryIndex cutPoint) boundaryEnd,
                        pr_isSplitTurn = cp_isSplitTurn cutPoint, pr_tokensBefore = tokensBefore,
                        pr_previousSummary = previousSummary,
                        pr_fileOps = (if cp_isSplitTurn cutPoint
                          then fold extractFileOpsFromMessage turnPrefixMessages fileOps else fileOps),
                        pr_settings = settings\<rparr>)))))"

section \<open>Summaries\<close>

definition SUMMARIZATION_SYSTEM_PROMPT :: string where
  \<open>SUMMARIZATION_SYSTEM_PROMPT =
     ''You are a context summarization assistant. Your task is to read a conversation between a user and an AI assistant, then produce a structured summary following the exact format specified.'' @
     nl @ nl @
     ''Do NOT continue the conversation. Do NOT respond to any questions in the conversation. ONLY output the structured summary.''\<close>

definition SUMMARIZATION_PROMPT :: string where
  \<open>SUMMARIZATION_PROMPT =
     ''The messages above are a conversation to summarize. Create a structured context checkpoint summary that another LLM will use to continue the work.'' @
     nl @ nl @ ''Use this EXACT format:'' @ nl @ nl @ ''## Goal'' @ nl @
     ''[What is the user trying to accomplish? Can be multiple items if the session covers different tasks.]'' @
     nl @ nl @ ''## Constraints & Preferences'' @ nl @
     ''- [Any constraints, preferences, or requirements mentioned by user]'' @ nl @
     ''- [Or "(none)" if none were mentioned]'' @ nl @ nl @ ''## Progress'' @ nl @ ''### Done'' @ nl @
     ''- [x] [Completed tasks/changes]'' @ nl @ nl @ ''### In Progress'' @ nl @ ''- [ ] [Current work]'' @
     nl @ nl @ ''### Blocked'' @ nl @ ''- [Issues preventing progress, if any]'' @ nl @ nl @
     ''## Key Decisions'' @ nl @ ''- **[Decision]**: [Brief rationale]'' @ nl @ nl @ ''## Next Steps'' @
     nl @ ''1. [Ordered list of what should happen next]'' @ nl @ nl @ ''## Critical Context'' @ nl @
     ''- [Any data, examples, or references needed to continue]'' @ nl @
     ''- [Or "(none)" if not applicable]'' @ nl @ nl @
     ''Keep each section concise. Preserve exact file paths, function names, and error messages.''\<close>

definition UPDATE_SUMMARIZATION_PROMPT :: string where
  \<open>UPDATE_SUMMARIZATION_PROMPT =
     ''The messages above are NEW conversation messages to incorporate into the existing summary provided in <previous-summary> tags.'' @
     nl @ nl @ ''Update the existing structured summary with new information. RULES:'' @ nl @
     ''- PRESERVE all existing information from the previous summary'' @ nl @
     ''- ADD new progress, decisions, and context from the new messages'' @ nl @
     ''- UPDATE the Progress section: move items from "In Progress" to "Done" when completed'' @ nl @
     ''- UPDATE "Next Steps" based on what was accomplished'' @ nl @
     ''- PRESERVE exact file paths, function names, and error messages'' @ nl @
     ''- If something is no longer relevant, you may remove it'' @ nl @ nl @ ''Use this EXACT format:'' @
     nl @ nl @ ''## Goal'' @ nl @ ''[Preserve existing goals, add new ones if the task expanded]'' @ nl @
     nl @ ''## Constraints & Preferences'' @ nl @ ''- [Preserve existing, add new ones discovered]'' @
     nl @ nl @ ''## Progress'' @ nl @ ''### Done'' @ nl @
     ''- [x] [Include previously done items AND newly completed items]'' @ nl @ nl @ ''### In Progress'' @
     nl @ ''- [ ] [Current work - update based on progress]'' @ nl @ nl @ ''### Blocked'' @ nl @
     ''- [Current blockers - remove if resolved]'' @ nl @ nl @ ''## Key Decisions'' @ nl @
     ''- **[Decision]**: [Brief rationale] (preserve all previous, add new)'' @ nl @ nl @
     ''## Next Steps'' @ nl @ ''1. [Update based on current state]'' @ nl @ nl @ ''## Critical Context'' @
     nl @ ''- [Preserve important context, add new if needed]'' @ nl @ nl @
     ''Keep each section concise. Preserve exact file paths, function names, and error messages.''\<close>

definition TURN_PREFIX_SUMMARIZATION_PROMPT :: string where
  \<open>TURN_PREFIX_SUMMARIZATION_PROMPT =
     ''This is the PREFIX of a turn that was too large to keep. The SUFFIX (recent work) is retained.'' @
     nl @ nl @ ''Summarize the prefix to provide context for the retained suffix:'' @ nl @ nl @
     ''## Original Request'' @ nl @ ''[What did the user ask for in this turn?]'' @ nl @ nl @
     ''## Early Progress'' @ nl @ ''- [Key decisions and work done in the prefix]'' @ nl @ nl @
     ''## Context for Suffix'' @ nl @ ''- [Information needed to understand the retained recent work]'' @
     nl @ nl @ ''Be concise. Focus on what's needed to understand the kept suffix.''\<close>

record model_info =
  mi_maxTokens :: int
  mi_reasoning :: bool
  mi_contextWindow :: int

record completion_request =
  cr_systemPrompt :: string
  cr_prompt :: string
  cr_timestamp :: int
  cr_maxTokens :: int
  cr_reasoning :: "string option"

datatype summary_error = SummaryAborted | SummarizationFailed

text \<open>
  The world of a summary: the clock, one request to the provider (\<^verbatim>\<open>models.completeSimple\<close>) and the
  environment of the retries. Each request carries a fresh routing id and no cache, which the
  provider's function may take from its world.
\<close>

record ('w, 'e) model_env =
  me_now :: "'w \<Rightarrow> int"
  me_completeSimple :: "model_info \<Rightarrow> completion_request \<Rightarrow> 'w \<Rightarrow> 'w \<times> ('e + assistant_message)"
  me_retry :: "'w retry_env"

definition completeSimpleWithRetries ::
    "('w, 'e) model_env \<Rightarrow> model_info \<Rightarrow> completion_request \<Rightarrow> retry_policy option \<Rightarrow> 'w \<Rightarrow>
     'w \<times> ('e + assistant_message)" where
  "completeSimpleWithRetries env model request retry w =
     retryAssistantCall (me_retry env) (me_completeSimple env model request) retry w"

definition token_cap :: "int \<Rightarrow> model_info \<Rightarrow> int" where
  "token_cap n model = (if mi_maxTokens model > 0 then min n (mi_maxTokens model) else n)"

definition reasoning_option :: "model_info \<Rightarrow> string option \<Rightarrow> string option" where
  "reasoning_option model thinkingLevel =
     (case thinkingLevel of
        None \<Rightarrow> None
      | Some level \<Rightarrow> if mi_reasoning model \<and> level \<noteq> [] \<and> level \<noteq> ''off'' then Some level else None)"

text \<open>An optional string that is absent or empty counts as false.\<close>

definition given :: "string option \<Rightarrow> string option" where
  "given x = (case x of None \<Rightarrow> None | Some s \<Rightarrow> if s = [] then None else Some s)"

definition conversation_block :: "agent_message list \<Rightarrow> string" where
  "conversation_block messages =
     ''<conversation>'' @ nl @ serializeConversation (convertToLlm messages) @ nl @ ''</conversation>'' @ nl @ nl"

definition summary_prompt :: "agent_message list \<Rightarrow> string option \<Rightarrow> string option \<Rightarrow> string" where
  "summary_prompt messages customInstructions previousSummary =
     conversation_block messages @
     (case given previousSummary of
        None \<Rightarrow> []
      | Some s \<Rightarrow> ''<previous-summary>'' @ nl @ s @ nl @ ''</previous-summary>'' @ nl @ nl) @
     (case given previousSummary of None \<Rightarrow> SUMMARIZATION_PROMPT | Some _ \<Rightarrow> UPDATE_SUMMARIZATION_PROMPT) @
     (case given customInstructions of None \<Rightarrow> [] | Some s \<Rightarrow> nl @ nl @ ''Additional focus: '' @ s)"

definition summary_of :: "assistant_message \<Rightarrow> summary_error + (string \<times> usage)" where
  "summary_of response =
     (if am_stopReason response = StopAborted then Inl SummaryAborted
      else if am_stopReason response = StopError then Inl SummarizationFailed
      else Inr (assistantText (am_content response), am_usage response))"

definition request_summary ::
    "('w, 'e) model_env \<Rightarrow> model_info \<Rightarrow> string \<Rightarrow> int \<Rightarrow> string option \<Rightarrow> retry_policy option \<Rightarrow> 'w \<Rightarrow>
     'w \<times> ('e + (summary_error + (string \<times> usage)))" where
  "request_summary env model prompt maxTokens reasoning retry w =
     (let request = \<lparr>cr_systemPrompt = SUMMARIZATION_SYSTEM_PROMPT, cr_prompt = prompt, cr_timestamp = me_now env w,
            cr_maxTokens = maxTokens, cr_reasoning = reasoning\<rparr>
      in case completeSimpleWithRetries env model request retry w of
           (w', Inl e) \<Rightarrow> (w', Inl e)
         | (w', Inr response) \<Rightarrow> (w', Inr (summary_of response)))"

definition generateSummaryWithUsage ::
    "('w, 'e) model_env \<Rightarrow> agent_message list \<Rightarrow> model_info \<Rightarrow> int \<Rightarrow> string option \<Rightarrow> string option \<Rightarrow>
     string option \<Rightarrow> retry_policy option \<Rightarrow> 'w \<Rightarrow> 'w \<times> ('e + (summary_error + (string \<times> usage)))" where
  "generateSummaryWithUsage env currentMessages model reserveTokens customInstructions previousSummary thinkingLevel retry w =
     request_summary env model (summary_prompt currentMessages customInstructions previousSummary)
       (token_cap (4 * reserveTokens div 5) model) (reasoning_option model thinkingLevel) retry w"

definition generateSummary ::
    "('w, 'e) model_env \<Rightarrow> agent_message list \<Rightarrow> model_info \<Rightarrow> int \<Rightarrow> string option \<Rightarrow> string option \<Rightarrow>
     string option \<Rightarrow> retry_policy option \<Rightarrow> 'w \<Rightarrow> 'w \<times> ('e + (summary_error + string))" where
  "generateSummary env currentMessages model reserveTokens customInstructions previousSummary thinkingLevel retry w =
     (case generateSummaryWithUsage env currentMessages model reserveTokens customInstructions previousSummary
             thinkingLevel retry w of
        (w', Inl e) \<Rightarrow> (w', Inl e)
      | (w', Inr (Inl e)) \<Rightarrow> (w', Inr (Inl e))
      | (w', Inr (Inr (s, _))) \<Rightarrow> (w', Inr (Inr s)))"

definition generateTurnPrefixSummary ::
    "('w, 'e) model_env \<Rightarrow> agent_message list \<Rightarrow> model_info \<Rightarrow> int \<Rightarrow> string option \<Rightarrow> retry_policy option \<Rightarrow> 'w \<Rightarrow>
     'w \<times> ('e + (summary_error + (string \<times> usage)))" where
  "generateTurnPrefixSummary env messages model reserveTokens thinkingLevel retry w =
     request_summary env model (conversation_block messages @ TURN_PREFIX_SUMMARIZATION_PROMPT)
       (token_cap (reserveTokens div 2) model) (reasoning_option model thinkingLevel) retry w"

record compact_result =
  co_summary :: string
  co_tokensBefore :: int
  co_usage :: usage
  co_retainedTail :: "agent_message list"
  co_details :: compaction_details

definition finish_compaction :: "compaction_preparation \<Rightarrow> string \<Rightarrow> usage \<Rightarrow> compact_result" where
  "finish_compaction preparation summary summaryUsage =
     (case computeFileLists (pr_fileOps preparation) of (readFiles, modifiedFiles) \<Rightarrow>
        \<lparr>co_summary = summary @ formatFileOperations readFiles modifiedFiles,
         co_tokensBefore = pr_tokensBefore preparation, co_usage = summaryUsage,
         co_retainedTail = pr_retainedTail preparation,
         co_details = \<lparr>cd_readFiles = readFiles, cd_modifiedFiles = modifiedFiles\<rparr>\<rparr>)"

definition split_summary :: "string \<Rightarrow> string \<Rightarrow> string" where
  "split_summary historyText prefixText =
     historyText @ nl @ nl @ ''---'' @ nl @ nl @ ''**Turn Context (split turn):**'' @ nl @ nl @ prefixText"

definition compact_split ::
    "('w, 'e) model_env \<Rightarrow> compaction_preparation \<Rightarrow> model_info \<Rightarrow> string option \<Rightarrow> retry_policy option \<Rightarrow>
     string \<Rightarrow> usage option \<Rightarrow> 'w \<Rightarrow> 'w \<times> ('e + (summary_error + compact_result))" where
  "compact_split env preparation model thinkingLevel retry historyText historyUsage w =
     (case generateTurnPrefixSummary env (pr_turnPrefixMessages preparation) model
             (cps_reserveTokens (pr_settings preparation)) thinkingLevel retry w of
        (w', Inl e) \<Rightarrow> (w', Inl e)
      | (w', Inr (Inl e)) \<Rightarrow> (w', Inr (Inl e))
      | (w', Inr (Inr (s, u))) \<Rightarrow>
          (w', Inr (Inr (finish_compaction preparation (split_summary historyText s)
             (case historyUsage of None \<Rightarrow> u | Some h \<Rightarrow> combineUsage h u)))))"

definition compact ::
    "('w, 'e) model_env \<Rightarrow> compaction_preparation \<Rightarrow> model_info \<Rightarrow> string option \<Rightarrow> string option \<Rightarrow>
     retry_policy option \<Rightarrow> 'w \<Rightarrow> 'w \<times> ('e + (summary_error + compact_result))" where
  "compact env preparation model customInstructions thinkingLevel retry w =
     (let history = generateSummaryWithUsage env (pr_messagesToSummarize preparation) model
            (cps_reserveTokens (pr_settings preparation)) customInstructions (pr_previousSummary preparation)
            thinkingLevel retry
      in if pr_isSplitTurn preparation \<and> pr_turnPrefixMessages preparation \<noteq> []
         then
           if pr_messagesToSummarize preparation = []
           then compact_split env preparation model thinkingLevel retry ''No prior history.'' None w
           else (case history w of
                   (w', Inl e) \<Rightarrow> (w', Inl e)
                 | (w', Inr (Inl e)) \<Rightarrow> (w', Inr (Inl e))
                 | (w', Inr (Inr (s, u))) \<Rightarrow> compact_split env preparation model thinkingLevel retry s (Some u) w')
         else (case history w of
                 (w', Inl e) \<Rightarrow> (w', Inl e)
               | (w', Inr (Inl e)) \<Rightarrow> (w', Inr (Inl e))
               | (w', Inr (Inr (s, u))) \<Rightarrow> (w', Inr (Inr (finish_compaction preparation s u)))))"

section \<open>Lemmas on the cut point\<close>

lemma budget_loop_in:
  "cutIndex \<in> set cutPoints \<Longrightarrow>
   budget_loop es startIndex cutPoints keep n acc cutIndex \<in> set cutPoints"
  by (induction n arbitrary: acc)
    (auto simp: Let_def find_Some_iff split: entry_payload.splits option.splits)

lemma back_loop_le: "back_loop es startIndex c \<le> c"
  by (induction c) auto

lemma back_loop_ge: "startIndex \<le> c \<Longrightarrow> startIndex \<le> back_loop es startIndex c"
  by (induction c) auto

lemma back_loop_skips:
  "back_loop es startIndex c \<le> i \<Longrightarrow> i < c \<Longrightarrow> entry_type_of (es ! i) \<notin> {TCompaction, TMessage}"
proof (induction c)
  case (Suc c)
  then show ?case by (cases "i = c") (auto split: if_splits)
qed simp

lemma turn_start_loop_bounds:
  "turn_start_loop es startIndex n = Some t \<Longrightarrow> t < n \<and> startIndex \<le> t \<and> starts_turn (es ! t)"
  by (induction n) (auto split: if_splits simp: less_SucI)

lemma findCutPoint_whole:
  obtains cp where "findCutPoint es 0 (length es) keep = Some cp"
    "cp_firstKeptEntryIndex cp \<le> length es"
    "\<And>t. cp_turnStartIndex cp = Some t \<Longrightarrow> t \<le> cp_firstKeptEntryIndex cp"
    "cp_isSplitTurn cp \<Longrightarrow> cp_turnStartIndex cp \<noteq> None"
    "cp_firstKeptEntryIndex cp = 0 \<or>
       (\<exists>c < length es. cp_firstKeptEntryIndex cp \<le> c \<and> valid_cut (es ! c) \<and>
          (\<forall>i. cp_firstKeptEntryIndex cp \<le> i \<and> i < c \<longrightarrow> entry_type_of (es ! i) \<notin> {TCompaction, TMessage}))"
proof (cases "filter (\<lambda>i. valid_cut (es ! i)) [0..<length es]")
  case Nil
  then show ?thesis by (intro that [of "\<lparr>cp_firstKeptEntryIndex = 0, cp_turnStartIndex = None, cp_isSplitTurn = False\<rparr>"])
      (simp_all add: findCutPoint_def findValidCutPoints_def)
next
  case (Cons c cs)
  let ?b = "budget_loop es 0 (c # cs) keep (length es) 0 c"
  let ?k = "back_loop es 0 ?b"
  let ?user = "case e_payload (es ! ?k) of MessagePayload m _ \<Rightarrow> role_of m = RoleUser | _ \<Rightarrow> False"
  let ?t = "if ?user then None else turn_start_loop es 0 (Suc ?k)"
  have "?b \<in> set (filter (\<lambda>i. valid_cut (es ! i)) [0..<length es])"
    unfolding Cons by (rule budget_loop_in) simp
  then have b: "?b < length es" "valid_cut (es ! ?b)" by simp_all
  have k: "?k \<le> ?b" by (rule back_loop_le)
  have found: "findCutPoint es 0 (length es) keep =
      Some \<lparr>cp_firstKeptEntryIndex = ?k, cp_turnStartIndex = ?t, cp_isSplitTurn = (\<not> ?user \<and> ?t \<noteq> None)\<rparr>"
    using k b(1) unfolding findCutPoint_def findValidCutPoints_def findTurnStartIndex_def
    by (simp add: Cons Let_def del: turn_start_loop.simps budget_loop.simps)
  have "t \<le> ?k" if "?t = Some t" for t
    using that turn_start_loop_bounds [of es 0 "Suc ?k" t] by (simp del: turn_start_loop.simps split: if_splits)
  moreover have "\<exists>c < length es. ?k \<le> c \<and> valid_cut (es ! c) \<and>
      (\<forall>i. ?k \<le> i \<and> i < c \<longrightarrow> entry_type_of (es ! i) \<notin> {TCompaction, TMessage})"
    using b k back_loop_skips by blast
  moreover have "?k \<le> length es" using b(1) k by simp
  ultimately show ?thesis
    by (intro that [OF found]) (auto simp del: turn_start_loop.simps budget_loop.simps split: if_splits)
qed

lemma findCutPoint_kept:
  assumes "findValidCutPoints es startIndex n = Some (c # cs)" "findCutPoint es startIndex n keep = Some cp"
  shows "cp_firstKeptEntryIndex cp = back_loop es startIndex (budget_loop es startIndex (c # cs) keep n 0 c)"
proof -
  define k where "k = back_loop es startIndex (budget_loop es startIndex (c # cs) keep n 0 c)"
  show ?thesis using assms(2) unfolding findCutPoint_def assms(1) Let_def k_def [symmetric]
    by (auto simp: k_def [symmetric] Let_def split: option.splits)
qed

lemma messages_between_append:
  assumes "i \<le> j" "j \<le> k"
  shows "messages_between es i j @ messages_between es j k = messages_between es i k"
proof -
  have "drop i (take k es) = drop i (take j es) @ drop j (take k es)"
  proof -
    have "take k es = take j es @ drop j (take k es)"
      using assms(2) append_take_drop_id [of j "take k es"] by (simp add: min_absorb1)
    then have "drop i (take k es) = drop i (take j es @ drop j (take k es))" by simp
    then show ?thesis using assms(1) by (cases "i \<le> length es") simp_all
  qed
  then show ?thesis by (simp add: messages_between_def List.map_filter_def)
qed

lemma messages_between_step:
  assumes "i < j" "j \<le> length es"
  shows "messages_between es i j =
    (case getMessageFromEntryForCompaction (es ! i) of None \<Rightarrow> [] | Some m \<Rightarrow> [m]) @ messages_between es (Suc i) j"
proof -
  have "drop i (take j es) = es ! i # drop (Suc i) (take j es)"
    using assms by (simp add: Cons_nth_drop_Suc [symmetric])
  then show ?thesis by (simp add: messages_between_def List.map_filter_def split: option.splits)
qed

lemma valid_cut_message:
  "valid_cut e \<Longrightarrow> \<exists>m. getMessageFromEntryForCompaction e = Some m \<and> role_of m \<noteq> RoleToolResult"
  by (auto simp: valid_cut_def getMessageFromEntryForCompaction_def getMessageFromEntry_def entry_type_of_def
      split: entry_payload.splits)

lemma skipped_message:
  "entry_type_of e \<notin> {TCompaction, TMessage} \<Longrightarrow> getMessageFromEntryForCompaction e = Some m \<Longrightarrow>
   role_of m \<noteq> RoleToolResult"
  by (auto simp: getMessageFromEntryForCompaction_def getMessageFromEntry_def entry_type_of_def
      split: entry_payload.splits)

lemma first_kept_message:
  assumes "k \<le> c" "c < length es" "valid_cut (es ! c)"
    and "\<forall>i. k \<le> i \<and> i < c \<longrightarrow> entry_type_of (es ! i) \<notin> {TCompaction, TMessage}"
  shows "\<exists>m ms. messages_between es k (length es) = m # ms \<and> role_of m \<noteq> RoleToolResult"
  using assms
proof (induction "c - k" arbitrary: k)
  case 0
  then show ?case using valid_cut_message [of "es ! c"] messages_between_step [of k "length es" es] by auto
next
  case (Suc n)
  then have kc: "k < c" by simp
  obtain m ms where "messages_between es (Suc k) (length es) = m # ms" "role_of m \<noteq> RoleToolResult"
    using Suc.hyps(1) [of "Suc k"] Suc.hyps(2) Suc.prems kc by fastforce
  with kc Suc.prems skipped_message [of "es ! k"] messages_between_step [of k "length es" es]
  show ?case by (cases "getMessageFromEntryForCompaction (es ! k)") auto
qed

section \<open>What a preparation holds\<close>

text \<open>The messages of a branch that no compaction has replaced yet: the tail the newest compaction retained,
  and the messages after it.\<close>

definition not_compaction :: "entry \<Rightarrow> bool" where
  "not_compaction e \<longleftrightarrow> entry_type_of e \<noteq> TCompaction"

fun retained_messages :: "entry_payload \<Rightarrow> agent_message list" where
  "retained_messages (CompactionPayload _ retainedTail _ _ _) = retainedTail"
| "retained_messages _ = []"

definition uncompacted :: "entry list \<Rightarrow> agent_message list" where
  "uncompacted path =
     (case dropWhile not_compaction (rev path) of [] \<Rightarrow> [] | c # _ \<Rightarrow> retained_messages (e_payload c)) @
     List.map_filter getMessageFromEntry (rev (takeWhile not_compaction (rev path)))"

lemma compaction_index_None:
  "compaction_index_loop es n = None \<Longrightarrow> i < n \<Longrightarrow> not_compaction (es ! i)"
  by (induction n) (auto simp: not_compaction_def less_Suc_eq split: if_splits)

lemma compaction_index_Some:
  "compaction_index_loop es n = Some k \<Longrightarrow>
   k < n \<and> \<not> not_compaction (es ! k) \<and> (\<forall>i. k < i \<and> i < n \<longrightarrow> not_compaction (es ! i))"
  by (induction n) (auto simp: not_compaction_def less_Suc_eq split: if_splits)

lemma messages_without_compaction:
  "\<forall>e \<in> set es. not_compaction e \<Longrightarrow>
   List.map_filter getMessageFromEntryForCompaction es = List.map_filter getMessageFromEntry es"
  by (induction es) (simp_all add: List.map_filter_def getMessageFromEntryForCompaction_def not_compaction_def)

lemma virtual_messages:
  "List.map_filter getMessageFromEntryForCompaction (map (virtual_entry prev) (enumerate n ms)) = ms"
  by (induction ms arbitrary: n)
    (simp_all add: virtual_entry_def List.map_filter_def getMessageFromEntryForCompaction_def
      getMessageFromEntry_def entry_type_of_def)

lemma compactable_messages:
  "List.map_filter getMessageFromEntryForCompaction (fst (compactable_entries path)) = uncompacted path"
proof (cases "compaction_index_loop path (length path)")
  case None
  then have all: "\<forall>e \<in> set path. not_compaction e"
    using compaction_index_None by (metis in_set_conv_nth)
  then have split: "dropWhile not_compaction (rev path) = []" "takeWhile not_compaction (rev path) = rev path"
    by (simp_all add: takeWhile_eq_all_conv)
  show ?thesis using None messages_without_compaction [OF all]
    unfolding uncompacted_def split by (simp add: compactable_entries_def)
next
  case (Some i)
  let ?post = "drop (Suc i) path"
  note i = compaction_index_Some [OF Some]
  then have path: "rev path = rev ?post @ path ! i # rev (take i path)"
    by (metis id_take_nth_drop rev.simps(2) rev_append append.assoc append_Cons append_Nil)
  have post: "\<forall>e \<in> set ?post. not_compaction e"
    using i by (auto simp: in_set_conv_nth)
  then have whole: "takeWhile not_compaction (rev ?post @ ys) = rev ?post @ takeWhile not_compaction ys"
      "dropWhile not_compaction (rev ?post @ ys) = dropWhile not_compaction ys" for ys
    by (auto intro!: takeWhile_append2 dropWhile_append2)
  have split: "takeWhile not_compaction (rev path) = rev ?post"
      "dropWhile not_compaction (rev path) = path ! i # rev (take i path)"
    using i unfolding path whole by simp_all
  obtain summary tail before details u where c: "e_payload (path ! i) = CompactionPayload summary tail before details u"
    using i by (cases "e_payload (path ! i)") (auto simp: not_compaction_def entry_type_of_def)
  have "List.map_filter getMessageFromEntryForCompaction (fst (compactable_entries path)) =
      tail @ List.map_filter getMessageFromEntryForCompaction ?post"
    using Some c virtual_messages [of "path ! i" 0 tail]
    by (simp add: compactable_entries_def List.map_filter_def)
  then show ?thesis using split c messages_without_compaction [OF post] by (simp add: uncompacted_def)
qed

lemma prepare_not_applicable:
  "path = [] \<or> entry_type_of (last path) = TCompaction \<Longrightarrow> prepareCompaction path settings = Some None"
  by (auto simp: prepareCompaction_def)

lemma prepare_parts:
  assumes "path \<noteq> []" "entry_type_of (last path) \<noteq> TCompaction"
  obtains p where "prepareCompaction path settings = Some (Some p)"
    "pr_messagesToSummarize p @ pr_turnPrefixMessages p @ pr_retainedTail p = uncompacted path"
    "pr_messagesToSummarize p @ pr_turnPrefixMessages p = [] \<or>
       (\<exists>m ms. pr_retainedTail p = m # ms \<and> role_of m \<noteq> RoleToolResult)"
proof -
  obtain es prev where es: "compactable_entries path = (es, prev)" by fastforce
  obtain cp where cp: "findCutPoint es 0 (length es) (cps_keepRecentTokens settings) = Some cp"
    "cp_firstKeptEntryIndex cp \<le> length es"
    "\<And>t. cp_turnStartIndex cp = Some t \<Longrightarrow> t \<le> cp_firstKeptEntryIndex cp"
    "cp_isSplitTurn cp \<Longrightarrow> cp_turnStartIndex cp \<noteq> None"
    "cp_firstKeptEntryIndex cp = 0 \<or>
       (\<exists>c < length es. cp_firstKeptEntryIndex cp \<le> c \<and> valid_cut (es ! c) \<and>
          (\<forall>i. cp_firstKeptEntryIndex cp \<le> i \<and> i < c \<longrightarrow> entry_type_of (es ! i) \<notin> {TCompaction, TMessage}))"
    using findCutPoint_whole [of es "cps_keepRecentTokens settings"] by blast
  let ?k = "cp_firstKeptEntryIndex cp"
  define h where "h = (case cp_turnStartIndex cp of Some t \<Rightarrow> if cp_isSplitTurn cp then t else ?k | None \<Rightarrow> ?k)"
  have h: "h \<le> ?k" "\<not> cp_isSplitTurn cp \<Longrightarrow> h = ?k"
    using cp(3) by (auto simp: h_def split: option.splits)
  obtain p where p: "prepareCompaction path settings = Some (Some p)"
    "pr_messagesToSummarize p = messages_between es 0 h"
    "pr_turnPrefixMessages p = (if cp_isSplitTurn cp then messages_between es h ?k else [])"
    "pr_retainedTail p = messages_between es ?k (length es)"
    using assms es cp(1) by (simp add: prepareCompaction_def Let_def h_def)
  have prefix: "pr_messagesToSummarize p @ pr_turnPrefixMessages p = messages_between es 0 ?k"
    using p(2,3) h messages_between_append [of 0 h ?k es] by auto
  then have "pr_messagesToSummarize p @ pr_turnPrefixMessages p @ pr_retainedTail p = messages_between es 0 (length es)"
    using messages_between_append [of 0 ?k "length es" es] cp(2) p(4) by (metis append.assoc le0)
  then have "pr_messagesToSummarize p @ pr_turnPrefixMessages p @ pr_retainedTail p = uncompacted path"
    using compactable_messages [of path] es by (simp add: messages_between_def)
  moreover have "pr_messagesToSummarize p @ pr_turnPrefixMessages p = [] \<or>
      (\<exists>m ms. pr_retainedTail p = m # ms \<and> role_of m \<noteq> RoleToolResult)"
  proof (cases "?k = 0")
    case True
    then show ?thesis using prefix by (simp add: messages_between_def List.map_filter_def)
  next
    case False
    then obtain c where c: "c < length es" "?k \<le> c" "valid_cut (es ! c)"
        "\<forall>i. ?k \<le> i \<and> i < c \<longrightarrow> entry_type_of (es ! i) \<notin> {TCompaction, TMessage}"
      using cp(5) by metis
    show ?thesis using first_kept_message [OF c(2,1,3,4)] p(4) by simp
  qed
  ultimately show ?thesis using that p(1) by blast
qed

lemma compact_keeps_tail:
  "compact env p model instructions level retry w = (w', Inr (Inr r)) \<Longrightarrow>
   co_retainedTail r = pr_retainedTail p \<and> co_tokensBefore r = pr_tokensBefore p"
  by (auto simp: compact_def compact_split_def finish_compaction_def Let_def
      split: if_splits prod.splits sum.splits)

lemma budget_lost_in_results:
  assumes "es = front @ results" "n \<le> length results"
    and "\<forall>e \<in> set results. \<exists>m b. e_payload e = MessagePayload (ToolResultMessage m) b"
    and "\<forall>c \<in> set cutPoints. c < length front"
    and "keep \<le> acc + tokens_of (List.map_filter getMessageFromEntry (take n results))" "n = 0 \<Longrightarrow> acc < keep"
  shows "budget_loop es 0 cutPoints keep (length front + n) acc cutIndex = cutIndex"
  using assms(2,5,6)
proof (induction n arbitrary: acc)
  case 0
  then show ?case by (simp add: List.map_filter_def tokens_of_def)
next
  case (Suc n)
  have e: "es ! (length front + n) = results ! n" "results ! n \<in> set results"
    using Suc.prems(1) assms(1) by (simp_all add: nth_append)
  then obtain m b where m: "e_payload (results ! n) = MessagePayload (ToolResultMessage m) b"
    using assms(3) by blast
  have none: "find (\<lambda>c. length front + n \<le> c) cutPoints = None"
    using assms(4) by (auto simp: find_None_iff)
  have "take (Suc n) results = take n results @ [results ! n]"
    using Suc.prems(1) by (simp add: take_Suc_conv_app_nth)
  then have "tokens_of (List.map_filter getMessageFromEntry (take (Suc n) results)) =
      tokens_of (List.map_filter getMessageFromEntry (take n results)) + int (estimateTokens (ToolResultMessage m))"
    using m by (simp add: List.map_filter_def tokens_of_def getMessageFromEntry_def)
  then show ?case using Suc.IH [of "acc + int (estimateTokens (ToolResultMessage m))"] Suc.prems e m none
    by (auto simp: Let_def)
qed

text \<open>
  An entry that only changes the settings, just before a user message, moves the cut back in front of
  it; the cut then does not count as the start of a turn, and the turn before it, which the cut leaves
  whole, is reported as split.
\<close>

lemma setting_before_user_reported_as_split:
  assumes "e_payload u = MessagePayload (UserMessage m) b" "e_payload a = MessagePayload (AssistantMessage n) c"
    and "e_payload x = ModelChangePayload provider modelId" "e_payload v = MessagePayload (UserMessage k) d"
    and "keep \<le> int (estimateTokens (UserMessage k))"
  shows "findCutPoint [u, a, x, v] 0 4 keep =
    Some \<lparr>cp_firstKeptEntryIndex = 2, cp_turnStartIndex = Some 0, cp_isSplitTurn = True\<rparr>"
  using assms
  by (simp add: findCutPoint_def findValidCutPoints_def findTurnStartIndex_def valid_cut_def starts_turn_def
      entry_type_of_def Let_def numeral_eq_Suc)

text \<open>
  A deferred answer is left out of the context of a branch, but a compaction retains it as a message,
  and the retained tail is part of the context as it is.
\<close>

lemma deferred_answer_retained:
  assumes "e_payload e = MessagePayload (AssistantMessage m) b" "am_stopReason m = StopDeferred"
  shows "plain_messages e = []" "getMessageFromEntryForCompaction e = Some (AssistantMessage m)"
  using assms by (simp_all add: plain_messages_def sessionEntryToContextMessages_def
      getMessageFromEntryForCompaction_def getMessageFromEntry_def entry_type_of_def)



lemma back_loop_to_start:
  "\<forall>i < c. entry_type_of (es ! i) \<notin> {TCompaction, TMessage} \<Longrightarrow> back_loop es 0 c = 0"
  by (induction c) auto

lemma first_cut_point:
  assumes "es = before @ e # later" "valid_cut e" "\<forall>x \<in> set before. \<not> valid_cut x"
  shows "\<exists>cs. filter (\<lambda>i. valid_cut (es ! i)) [0..<length es] = length before # cs"
proof -
  have "[0..<length es] = [0..<length before] @ length before # [Suc (length before)..<length es]"
    using assms(1) upt_add_eq_append [of 0 "length before" "length (e # later)"] upt_conv_Cons [of "length before" "length es"] by simp
  moreover have "filter (\<lambda>i. valid_cut (es ! i)) [0..<length before] = []"
    using assms(1,3) by (simp add: filter_empty_conv nth_append)
  moreover have "valid_cut (es ! length before)" using assms(1,2) by simp
  ultimately show ?thesis by simp
qed


section \<open>Properties\<close>

text \<open>
  C35. Compaction keeps the recent messages whole. Every branch that has something after its last
  compaction can be prepared, without an exception; what is summarised, the prefix of a split turn
  and the retained tail are, in this order, exactly the messages not compacted before, none lost and
  none twice. The tail never starts with a tool result whose call was summarised away. The compaction
  generated from the preparation, whatever the model answers, carries exactly that tail and the token
  count of the context before.
\<close>

theorem compaction_keeps_recent_messages:
  assumes "path \<noteq> []" "entry_type_of (last path) \<noteq> TCompaction"
  shows "\<exists>p. prepareCompaction path settings = Some (Some p) \<and>
    pr_messagesToSummarize p @ pr_turnPrefixMessages p @ pr_retainedTail p = uncompacted path \<and>
    (pr_messagesToSummarize p @ pr_turnPrefixMessages p = [] \<or>
       (\<exists>m ms. pr_retainedTail p = m # ms \<and> role_of m \<noteq> RoleToolResult)) \<and>
    (\<forall>w' r. compact env p model instructions level retry w = (w', Inr (Inr r)) \<longrightarrow>
       co_retainedTail r = pr_retainedTail p \<and>
       co_tokensBefore r = cu_tokens (estimateContextTokens (sc_messages (buildSessionContext path default_build_options))))"
proof -
  obtain p where p: "prepareCompaction path settings = Some (Some p)"
    "pr_messagesToSummarize p @ pr_turnPrefixMessages p @ pr_retainedTail p = uncompacted path"
    "pr_messagesToSummarize p @ pr_turnPrefixMessages p = [] \<or>
       (\<exists>m ms. pr_retainedTail p = m # ms \<and> role_of m \<noteq> RoleToolResult)"
    using prepare_parts [OF assms] by blast
  then have "pr_tokensBefore p = cu_tokens (estimateContextTokens (sc_messages (buildSessionContext path default_build_options)))"
    by (auto simp: prepareCompaction_def Let_def split: if_splits prod.splits option.splits)
  with p compact_keeps_tail [of env p model instructions level retry w] show ?thesis by metis
qed

definition demo_message :: "ident \<Rightarrow> agent_message \<Rightarrow> entry" where
  "demo_message i m = \<lparr>e_id = i, e_seq = 1, e_parentId = None, e_timestamp = 0, e_payload = MessagePayload m False\<rparr>"

definition demo_user :: agent_message where
  "demo_user = UserMessage \<lparr>um_content = ContentString ''abcd'', um_timestamp = 0\<rparr>"

definition demo_result :: agent_message where
  "demo_result = ToolResultMessage \<lparr>tr_toolCallId = ''t'', tr_toolName = ''read'', tr_content = [TextInput ''abcd'' None],
     tr_details = None, tr_usage = None, tr_addedToolNames = None, tr_isError = False, tr_timestamp = 0\<rparr>"

definition demo_path :: "entry list" where
  "demo_path = [demo_message ''a'' demo_user, demo_message ''b'' demo_user]"

definition demo_settings :: compaction_settings where
  "demo_settings = \<lparr>cps_enabled = True, cps_reserveTokens = 100, cps_keepRecentTokens = 1\<rparr>"

definition demo_model_env :: "(unit, unit) model_env" where
  "demo_model_env = \<lparr>me_now = (\<lambda>_. 0), me_completeSimple = (\<lambda>_ _ w. (w, Inr (demo_answer StopStop None))),
     me_retry = quiet_env\<rparr>"

lemma demo_compact:
  "\<exists>r. compact demo_model_env p \<lparr>mi_maxTokens = 10, mi_reasoning = False, mi_contextWindow = 100\<rparr> None None None () =
     ((), Inr (Inr r))"
  by (simp add: compact_def compact_split_def generateSummaryWithUsage_def generateTurnPrefixSummary_def
      request_summary_def completeSimpleWithRetries_def retryAssistantCall_def retry_loop.simps demo_model_env_def
      demo_answer_def finish_retry_def summary_of_def Let_def)

theorem compaction_keeps_recent_messages_witness:
  "\<exists>p r. prepareCompaction demo_path demo_settings = Some (Some p) \<and>
    pr_messagesToSummarize p @ pr_turnPrefixMessages p @ pr_retainedTail p = [demo_user, demo_user] \<and>
    compact demo_model_env p \<lparr>mi_maxTokens = 10, mi_reasoning = False, mi_contextWindow = 100\<rparr> None None None () = ((), Inr (Inr r)) \<and>
    co_retainedTail r = pr_retainedTail p"
proof -
  let ?model = "\<lparr>mi_maxTokens = 10, mi_reasoning = False, mi_contextWindow = 100\<rparr>"
  have path: "demo_path \<noteq> []" "entry_type_of (last demo_path) \<noteq> TCompaction"
    by (simp_all add: demo_path_def demo_message_def entry_type_of_def)
  have all: "uncompacted demo_path = [demo_user, demo_user]"
    by (simp add: demo_path_def demo_message_def entry_type_of_def uncompacted_def not_compaction_def
        getMessageFromEntry_def List.map_filter_def)
  from compaction_keeps_recent_messages [OF path, of demo_settings demo_model_env ?model None None None "()"] obtain p where p:
    "prepareCompaction demo_path demo_settings = Some (Some p)"
    "pr_messagesToSummarize p @ pr_turnPrefixMessages p @ pr_retainedTail p = [demo_user, demo_user]"
    "\<forall>w' r. compact demo_model_env p ?model None None None () = (w', Inr (Inr r)) \<longrightarrow> co_retainedTail r = pr_retainedTail p"
    unfolding all by blast
  obtain r where "compact demo_model_env p ?model None None None () = ((), Inr (Inr r))" using demo_compact by blast
  with p show ?thesis by blast
qed

definition demo_setting :: entry where
  "demo_setting = \<lparr>e_id = ''s'', e_seq = 1, e_parentId = None, e_timestamp = 0, e_payload = ModelChangePayload ''p'' ''m''\<rparr>"

text \<open>
  C37. A large tool result at the end defeats compaction. Take the entries that can be compacted (the tail retained
  by the newest compaction, if there is one, and the entries after it) when they begin with settings only, if
  anything, up to the first entry at which the branch may be cut. When the tool results at their end alone reach the
  tokens to keep, no cut point lies behind the place where the budget is used up, and the cut falls back to the
  first one: nothing is summarised and every message not compacted before is retained, so the compaction frees no
  context at all.
\<close>

theorem large_last_result_defeats_compaction:
  assumes "fst (compactable_entries path) = before @ e # front @ results" "entry_type_of (last path) \<noteq> TCompaction"
    and "\<forall>x \<in> set before. \<not> valid_cut x \<and> entry_type_of x \<notin> {TCompaction, TMessage}" "valid_cut e"
    and "results \<noteq> []" "\<forall>x \<in> set results. \<exists>m b. e_payload x = MessagePayload (ToolResultMessage m) b"
    and "cps_keepRecentTokens settings \<le> tokens_of (List.map_filter getMessageFromEntry results)"
  shows "\<exists>p. prepareCompaction path settings = Some (Some p) \<and> pr_messagesToSummarize p = [] \<and>
    pr_turnPrefixMessages p = [] \<and> pr_retainedTail p = uncompacted path"
proof -
  define es where "es = fst (compactable_entries path)"
  have es: "es = before @ e # front @ results" "es = (before @ e # front) @ results" using assms(1) by (simp_all add: es_def)
  obtain cs where cs: "filter (\<lambda>i. valid_cut (es ! i)) [0..<length es] = length before # cs"
    using first_cut_point [OF es(1) assms(4)] assms(3) by blast
  have "c < length (before @ e # front)" if "c \<in> set (length before # cs)" for c
  proof (rule ccontr)
    assume c: "\<not> c < length (before @ e # front)"
    from that have v: "valid_cut (es ! c)" "c < length es" unfolding cs [symmetric] by simp_all
    then have "es ! c \<in> set results" using c unfolding es(2) nth_append by auto
    with assms(6) v(1) show False by (auto simp: valid_cut_def)
  qed
  then have "budget_loop es 0 (length before # cs) (cps_keepRecentTokens settings) (length (before @ e # front) + length results) 0
      (length before) = length before"
    using assms(5-7) es(2) by (intro budget_lost_in_results) auto
  moreover have "length (before @ e # front) + length results = length es" using es(2) by simp
  moreover have "back_loop es 0 (length before) = 0"
    using assms(3) es(1) by (intro back_loop_to_start) (simp add: nth_append)
  moreover have "findValidCutPoints es 0 (length es) = Some (length before # cs)" by (simp add: findValidCutPoints_def cs)
  ultimately obtain cp where cp: "findCutPoint es 0 (length es) (cps_keepRecentTokens settings) = Some cp"
      "cp_firstKeptEntryIndex cp = 0" and "\<And>t. cp_turnStartIndex cp = Some t \<Longrightarrow> t \<le> cp_firstKeptEntryIndex cp"
    using findCutPoint_whole [of es "cps_keepRecentTokens settings"] findCutPoint_kept by metis
  then have turn: "cp_turnStartIndex cp = Some t \<Longrightarrow> t = 0" for t by simp
  have "messages_between es 0 0 = []" "messages_between es 0 (length es) = uncompacted path"
    using compactable_messages [of path] by (simp_all add: messages_between_def List.map_filter_def es_def)
  moreover have "path \<noteq> []" using assms(1) by (auto simp: compactable_entries_def)
  moreover obtain prev where "compactable_entries path = (es, prev)" by (metis es_def prod.collapse)
  ultimately show ?thesis using cp turn assms(2)
    by (cases "cp_turnStartIndex cp") (auto simp: prepareCompaction_def Let_def)
qed

theorem large_last_result_defeats_compaction_witness:
  "\<exists>p. prepareCompaction [demo_setting, demo_message ''a'' demo_user, demo_message ''b'' demo_user, demo_message ''c'' demo_result]
      demo_settings = Some (Some p) \<and>
    pr_messagesToSummarize p = [] \<and> pr_retainedTail p = [demo_user, demo_user, demo_result]"
proof -
  let ?path = "[demo_setting, demo_message ''a'' demo_user, demo_message ''b'' demo_user, demo_message ''c'' demo_result]"
  have entries: "fst (compactable_entries ?path) =
      [demo_setting] @ demo_message ''a'' demo_user # [demo_message ''b'' demo_user] @ [demo_message ''c'' demo_result]"
    by (simp add: compactable_entries_def demo_setting_def demo_message_def entry_type_of_def)
  have "uncompacted ?path = [demo_user, demo_user, demo_result]"
    by (simp add: uncompacted_def not_compaction_def demo_setting_def demo_message_def entry_type_of_def
        getMessageFromEntry_def List.map_filter_def)
  moreover have "cps_keepRecentTokens demo_settings \<le> tokens_of (List.map_filter getMessageFromEntry [demo_message ''c'' demo_result])"
    by (simp add: demo_settings_def tokens_of_def demo_message_def demo_result_def getMessageFromEntry_def List.map_filter_def
        estimateTokens_def quarter_def estimateTextAndImageContentChars_def)
  ultimately show ?thesis using large_last_result_defeats_compaction [OF entries, of demo_settings]
    by (auto simp: demo_setting_def demo_message_def demo_user_def demo_result_def valid_cut_def entry_type_of_def)
qed






end
