(* ===== verification/Session_Json.thy ===== *)
theory Session_Json
  imports Json_Text "HOL-Library.Monad_Syntax"
begin

text \<open>
  The values of the session layer as JavaScript objects: what \<^verbatim>\<open>JSON.stringify\<close> sees of an
  entry, a record or a message (an absent optional field is an absent property), and how an object
  is seen again as a typed value. TypeScript's casts have no effect at run time; an object that has
  not the shape its cast claims has no typed value here (\<open>None\<close>). The lemmas show that every
  value is read back from its object.
\<close>

section \<open>Properties\<close>

type_synonym json_fields = "(string \<times> json) list"

definition opt_field :: "string \<Rightarrow> ('a \<Rightarrow> json) \<Rightarrow> 'a option \<Rightarrow> json_fields" where
  "opt_field k f x = (case x of None \<Rightarrow> [] | Some a \<Rightarrow> [(k, f a)])"

definition req :: "json_fields \<Rightarrow> string \<Rightarrow> (json \<Rightarrow> 'a option) \<Rightarrow> 'a option" where
  "req fs k dec = Option.bind (map_get fs k) dec"

definition opt :: "json_fields \<Rightarrow> string \<Rightarrow> (json \<Rightarrow> 'a option) \<Rightarrow> 'a option option" where
  "opt fs k dec = (case map_get fs k of None \<Rightarrow> Some None | Some j \<Rightarrow> map_option Some (dec j))"

fun object_fields :: "json \<Rightarrow> json_fields option" where
  "object_fields (JObject fs) = Some fs"
| "object_fields _ = None"

fun string_of_json :: "json \<Rightarrow> string option" where
  "string_of_json (JString s) = Some s"
| "string_of_json _ = None"

fun bool_of_json :: "json \<Rightarrow> bool option" where
  "bool_of_json (JBool b) = Some b"
| "bool_of_json _ = None"

fun rat_of_json :: "json \<Rightarrow> rat option" where
  "rat_of_json (JNumber q) = Some q"
| "rat_of_json _ = None"

definition json_int :: "int \<Rightarrow> json" where
  "json_int i = JNumber (of_int i)"

fun int_of_json :: "json \<Rightarrow> int option" where
  "int_of_json (JNumber q) = (if of_int \<lfloor>q\<rfloor> = q then Some \<lfloor>q\<rfloor> else None)"
| "int_of_json _ = None"

definition json_nat :: "nat \<Rightarrow> json" where
  "json_nat n = json_int (int n)"

definition nat_of_json :: "json \<Rightarrow> nat option" where
  "nat_of_json j = Option.bind (int_of_json j) (\<lambda>i. if 0 \<le> i then Some (nat i) else None)"

definition json_list :: "('a \<Rightarrow> json) \<Rightarrow> 'a list \<Rightarrow> json" where
  "json_list f xs = JArray (map f xs)"

fun list_of_json :: "(json \<Rightarrow> 'a option) \<Rightarrow> json \<Rightarrow> 'a list option" where
  "list_of_json dec (JArray vs) = those (map dec vs)"
| "list_of_json dec _ = None"

text \<open>A property of type \<open>string | null\<close>.\<close>

definition json_nullable :: "string option \<Rightarrow> json" where
  "json_nullable x = (case x of None \<Rightarrow> JNull | Some s \<Rightarrow> JString s)"

fun nullable_of_json :: "json \<Rightarrow> string option option" where
  "nullable_of_json JNull = Some None"
| "nullable_of_json (JString s) = Some (Some s)"
| "nullable_of_json _ = None"

lemma map_get_append: "map_get (xs @ ys) k = (case map_get xs k of None \<Rightarrow> map_get ys k | Some v \<Rightarrow> Some v)"
  by (induction xs) (auto split: option.splits)

lemma map_get_opt [simp]: "map_get (opt_field k f x) k' = (if k = k' then map_option f x else None)"
  by (simp add: opt_field_def split: option.splits)

lemma int_json [simp]: "int_of_json (json_int i) = Some i"
  by (simp add: json_int_def)

lemma nat_json [simp]: "nat_of_json (json_nat n) = Some n"
  by (simp add: json_nat_def nat_of_json_def)

lemma nullable_json [simp]: "nullable_of_json (json_nullable x) = Some x"
  by (cases x) (simp_all add: json_nullable_def)

lemma list_json [simp]: "(\<And>x. dec (enc x) = Some x) \<Longrightarrow> list_of_json dec (json_list enc xs) = Some xs"
  by (induction xs) (simp_all add: json_list_def)

lemma req_fields:
  "req [] k dec = None"
  "req ((k', v) # fs) k dec = (if k' = k then dec v else req fs k dec)"
  "k' \<noteq> k \<Longrightarrow> req (opt_field k' f x @ fs) k dec = req fs k dec"
  "k' \<noteq> k \<Longrightarrow> req (opt_field k' f x) k dec = None"
  by (simp_all add: req_def map_get_append)

lemma opt_fields:
  "opt [] k dec = Some None"
  "opt ((k', v) # fs) k dec = (if k' = k then map_option Some (dec v) else opt fs k dec)"
  "k' \<noteq> k \<Longrightarrow> opt (opt_field k' f x @ fs) k dec = opt fs k dec"
  "k' \<noteq> k \<Longrightarrow> opt (opt_field k' f x) k dec = Some None"
  by (simp_all add: opt_def map_get_append)

lemma opt_field_read:
  "(\<And>a. dec (f a) = Some a) \<Longrightarrow> opt fs k dec = Some None \<Longrightarrow> opt (opt_field k f x @ fs) k dec = Some x"
  "(\<And>a. dec (f a) = Some a) \<Longrightarrow> opt (opt_field k f x) k dec = Some x"
  by (cases x; simp add: opt_def map_get_append)+

lemmas json_read = req_fields opt_fields opt_field_read

section \<open>Messages\<close>

definition usage_cost_fields :: "usage_cost \<Rightarrow> json_fields" where
  "usage_cost_fields x =
     [(''input'', JNumber (cost_input x)), (''output'', JNumber (cost_output x)), (''cacheRead'', JNumber (cost_cacheRead x)), (''cacheWrite'', JNumber (cost_cacheWrite x)), (''total'', JNumber (cost_total x))]"

definition json_of_usage_cost :: "usage_cost \<Rightarrow> json" where
  "json_of_usage_cost x = JObject (usage_cost_fields x)"

definition usage_cost_of_json :: "json \<Rightarrow> usage_cost option" where
  "usage_cost_of_json j = do {
     fs \<leftarrow> object_fields j;
     x0 \<leftarrow> req fs ''input'' rat_of_json;
     x1 \<leftarrow> req fs ''output'' rat_of_json;
     x2 \<leftarrow> req fs ''cacheRead'' rat_of_json;
     x3 \<leftarrow> req fs ''cacheWrite'' rat_of_json;
     x4 \<leftarrow> req fs ''total'' rat_of_json;
     Some \<lparr>cost_input = x0, cost_output = x1, cost_cacheRead = x2, cost_cacheWrite = x3, cost_total = x4\<rparr>
   }"

lemma usage_cost_json [simp]: "usage_cost_of_json (json_of_usage_cost x) = Some x"
  by (cases x) (simp add: usage_cost_of_json_def json_of_usage_cost_def usage_cost_fields_def json_read)

definition usage_fields :: "usage \<Rightarrow> json_fields" where
  "usage_fields x =
     [(''input'', json_int (u_input x)), (''output'', json_int (u_output x)), (''cacheRead'', json_int (u_cacheRead x)), (''cacheWrite'', json_int (u_cacheWrite x))] @
     opt_field ''cacheWrite1h'' json_int (u_cacheWrite1h x) @
     opt_field ''reasoning'' json_int (u_reasoning x) @
     [(''totalTokens'', json_int (u_totalTokens x)), (''cost'', json_of_usage_cost (u_cost x))]"

definition json_of_usage :: "usage \<Rightarrow> json" where
  "json_of_usage x = JObject (usage_fields x)"

definition usage_of_json :: "json \<Rightarrow> usage option" where
  "usage_of_json j = do {
     fs \<leftarrow> object_fields j;
     x0 \<leftarrow> req fs ''input'' int_of_json;
     x1 \<leftarrow> req fs ''output'' int_of_json;
     x2 \<leftarrow> req fs ''cacheRead'' int_of_json;
     x3 \<leftarrow> req fs ''cacheWrite'' int_of_json;
     x4 \<leftarrow> opt fs ''cacheWrite1h'' int_of_json;
     x5 \<leftarrow> opt fs ''reasoning'' int_of_json;
     x6 \<leftarrow> req fs ''totalTokens'' int_of_json;
     x7 \<leftarrow> req fs ''cost'' usage_cost_of_json;
     Some \<lparr>u_input = x0, u_output = x1, u_cacheRead = x2, u_cacheWrite = x3, u_cacheWrite1h = x4, u_reasoning = x5, u_totalTokens = x6, u_cost = x7\<rparr>
   }"

lemma usage_json [simp]: "usage_of_json (json_of_usage x) = Some x"
  by (cases x) (simp add: usage_of_json_def json_of_usage_def usage_fields_def json_read)

fun json_of_stop_reason :: "stop_reason \<Rightarrow> json" where
  "json_of_stop_reason StopPending = JString ''pending''"
| "json_of_stop_reason StopStop = JString ''stop''"
| "json_of_stop_reason StopLength = JString ''length''"
| "json_of_stop_reason StopToolUse = JString ''toolUse''"
| "json_of_stop_reason StopError = JString ''error''"
| "json_of_stop_reason StopAborted = JString ''aborted''"
| "json_of_stop_reason StopDeferred = JString ''deferred''"

definition stop_reason_of_json :: "json \<Rightarrow> stop_reason option" where
  "stop_reason_of_json j = do {
     s \<leftarrow> string_of_json j;
     (if s = ''pending'' then Some StopPending
      else if s = ''stop'' then Some StopStop
      else if s = ''length'' then Some StopLength
      else if s = ''toolUse'' then Some StopToolUse
      else if s = ''error'' then Some StopError
      else if s = ''aborted'' then Some StopAborted
      else if s = ''deferred'' then Some StopDeferred
      else None)
   }"

lemma stop_reason_json [simp]: "stop_reason_of_json (json_of_stop_reason x) = Some x"
  by (cases x) (simp_all add: stop_reason_of_json_def)

definition deferred_handle_fields :: "deferred_handle \<Rightarrow> json_fields" where
  "deferred_handle_fields x =
     [(''provider'', JString (dh_provider x)), (''modelId'', JString (dh_modelId x)), (''api'', JString (dh_api x)), (''id'', JString (dh_id x))] @
     opt_field ''expiresAt'' json_int (dh_expiresAt x) @
     opt_field ''pollAfterMs'' json_int (dh_pollAfterMs x) @
     opt_field ''data'' id (dh_data x)"

definition json_of_deferred_handle :: "deferred_handle \<Rightarrow> json" where
  "json_of_deferred_handle x = JObject (deferred_handle_fields x)"

definition deferred_handle_of_json :: "json \<Rightarrow> deferred_handle option" where
  "deferred_handle_of_json j = do {
     fs \<leftarrow> object_fields j;
     x0 \<leftarrow> req fs ''provider'' string_of_json;
     x1 \<leftarrow> req fs ''modelId'' string_of_json;
     x2 \<leftarrow> req fs ''api'' string_of_json;
     x3 \<leftarrow> req fs ''id'' string_of_json;
     x4 \<leftarrow> opt fs ''expiresAt'' int_of_json;
     x5 \<leftarrow> opt fs ''pollAfterMs'' int_of_json;
     x6 \<leftarrow> opt fs ''data'' Some;
     Some \<lparr>dh_provider = x0, dh_modelId = x1, dh_api = x2, dh_id = x3, dh_expiresAt = x4, dh_pollAfterMs = x5, dh_data = x6\<rparr>
   }"

lemma deferred_handle_json [simp]: "deferred_handle_of_json (json_of_deferred_handle x) = Some x"
  by (cases x) (simp add: deferred_handle_of_json_def json_of_deferred_handle_def deferred_handle_fields_def json_read)

definition tool_call_fields :: "tool_call \<Rightarrow> json_fields" where
  "tool_call_fields x =
     [(''id'', JString (tc_id x)), (''name'', JString (tc_name x)), (''arguments'', JObject (tc_arguments x))] @
     opt_field ''thoughtSignature'' JString (tc_thoughtSignature x) @
     opt_field ''namespace'' JString (tc_namespace x)"

definition json_of_tool_call :: "tool_call \<Rightarrow> json" where
  "json_of_tool_call x = JObject (tool_call_fields x)"

definition tool_call_of_json :: "json \<Rightarrow> tool_call option" where
  "tool_call_of_json j = do {
     fs \<leftarrow> object_fields j;
     x0 \<leftarrow> req fs ''id'' string_of_json;
     x1 \<leftarrow> req fs ''name'' string_of_json;
     x2 \<leftarrow> req fs ''arguments'' object_fields;
     x3 \<leftarrow> opt fs ''thoughtSignature'' string_of_json;
     x4 \<leftarrow> opt fs ''namespace'' string_of_json;
     Some \<lparr>tc_id = x0, tc_name = x1, tc_arguments = x2, tc_thoughtSignature = x3, tc_namespace = x4\<rparr>
   }"

lemma tool_call_json [simp]: "tool_call_of_json (json_of_tool_call x) = Some x"
  by (cases x) (simp add: tool_call_of_json_def json_of_tool_call_def tool_call_fields_def json_read)

fun input_content_fields :: "input_content \<Rightarrow> json_fields" where
  "input_content_fields (TextInput x0 x1) =
     [(''type'', JString ''text''), (''text'', JString x0)] @
     opt_field ''textSignature'' JString x1"
| "input_content_fields (ImageInput x0 x1) =
     [(''type'', JString ''image''), (''data'', JString x0), (''mimeType'', JString x1)]"

definition json_of_input_content :: "input_content \<Rightarrow> json" where
  "json_of_input_content x = JObject (input_content_fields x)"

definition input_content_of_fields :: "json_fields \<Rightarrow> input_content option" where
  "input_content_of_fields fs = do {
     s \<leftarrow> req fs ''type'' string_of_json;
     (if s = ''text'' then do {
         x0 \<leftarrow> req fs ''text'' string_of_json;
         x1 \<leftarrow> opt fs ''textSignature'' string_of_json;
         Some (TextInput x0 x1)
       }
      else if s = ''image'' then do {
         x0 \<leftarrow> req fs ''data'' string_of_json;
         x1 \<leftarrow> req fs ''mimeType'' string_of_json;
         Some (ImageInput x0 x1)
       }
      else None)
   }"

definition input_content_of_json :: "json \<Rightarrow> input_content option" where
  "input_content_of_json j = Option.bind (object_fields j) input_content_of_fields"

lemma input_content_fields_read [simp]: "input_content_of_fields (input_content_fields x) = Some x"
  by (cases x) (simp_all add: input_content_of_fields_def  json_read)

lemma input_content_json [simp]: "input_content_of_json (json_of_input_content x) = Some x"
  by (simp add: input_content_of_json_def json_of_input_content_def)

fun assistant_content_fields :: "assistant_content \<Rightarrow> json_fields" where
  "assistant_content_fields (TextContent x0 x1) =
     [(''type'', JString ''text''), (''text'', JString x0)] @
     opt_field ''textSignature'' JString x1"
| "assistant_content_fields (ThinkingContent x0 x1 x2) =
     [(''type'', JString ''thinking''), (''thinking'', JString x0)] @
     opt_field ''thinkingSignature'' JString x1 @
     opt_field ''redacted'' JBool x2"
| "assistant_content_fields (ToolCallContent x) = (''type'', JString ''toolCall'') # tool_call_fields x"

definition json_of_assistant_content :: "assistant_content \<Rightarrow> json" where
  "json_of_assistant_content x = JObject (assistant_content_fields x)"

definition assistant_content_of_fields :: "json_fields \<Rightarrow> assistant_content option" where
  "assistant_content_of_fields fs = do {
     s \<leftarrow> req fs ''type'' string_of_json;
     (if s = ''text'' then do {
         x0 \<leftarrow> req fs ''text'' string_of_json;
         x1 \<leftarrow> opt fs ''textSignature'' string_of_json;
         Some (TextContent x0 x1)
       }
      else if s = ''thinking'' then do {
         x0 \<leftarrow> req fs ''thinking'' string_of_json;
         x1 \<leftarrow> opt fs ''thinkingSignature'' string_of_json;
         x2 \<leftarrow> opt fs ''redacted'' bool_of_json;
         Some (ThinkingContent x0 x1 x2)
       }
      else if s = ''toolCall'' then map_option ToolCallContent (tool_call_of_json (JObject fs))
      else None)
   }"

definition assistant_content_of_json :: "json \<Rightarrow> assistant_content option" where
  "assistant_content_of_json j = Option.bind (object_fields j) assistant_content_of_fields"

lemma assistant_content_fields_read [simp]: "assistant_content_of_fields (assistant_content_fields x) = Some x"
  by (cases x) (simp_all add: assistant_content_of_fields_def tool_call_of_json_def tool_call_fields_def json_read)

lemma assistant_content_json [simp]: "assistant_content_of_json (json_of_assistant_content x) = Some x"
  by (simp add: assistant_content_of_json_def json_of_assistant_content_def)

fun json_of_message_content :: "message_content \<Rightarrow> json" where
  "json_of_message_content (ContentString s) = JString s"
| "json_of_message_content (ContentBlocks bs) = json_list json_of_input_content bs"

definition message_content_of_json :: "json \<Rightarrow> message_content option" where
  "message_content_of_json j =
     (case string_of_json j of
        Some s \<Rightarrow> Some (ContentString s)
      | None \<Rightarrow> map_option ContentBlocks (list_of_json input_content_of_json j))"

lemma message_content_json [simp]: "message_content_of_json (json_of_message_content x) = Some x"
proof (cases x)
  case (ContentBlocks bs)
  have "string_of_json (json_list f bs) = None" for f :: "input_content \<Rightarrow> json"
    by (simp add: json_list_def)
  with ContentBlocks show ?thesis by (simp add: message_content_of_json_def)
qed (simp add: message_content_of_json_def)

definition user_message_fields :: "user_message \<Rightarrow> json_fields" where
  "user_message_fields x =
     [(''content'', json_of_message_content (um_content x)), (''timestamp'', json_int (um_timestamp x))]"

definition json_of_user_message :: "user_message \<Rightarrow> json" where
  "json_of_user_message x = JObject (user_message_fields x)"

definition user_message_of_json :: "json \<Rightarrow> user_message option" where
  "user_message_of_json j = do {
     fs \<leftarrow> object_fields j;
     x0 \<leftarrow> req fs ''content'' message_content_of_json;
     x1 \<leftarrow> req fs ''timestamp'' int_of_json;
     Some \<lparr>um_content = x0, um_timestamp = x1\<rparr>
   }"

lemma user_message_json [simp]: "user_message_of_json (json_of_user_message x) = Some x"
  by (cases x) (simp add: user_message_of_json_def json_of_user_message_def user_message_fields_def json_read)

definition assistant_message_fields :: "assistant_message \<Rightarrow> json_fields" where
  "assistant_message_fields x =
     [(''content'', json_list json_of_assistant_content (am_content x)), (''api'', JString (am_api x)), (''provider'', JString (am_provider x)), (''model'', JString (am_model x))] @
     opt_field ''responseModel'' JString (am_responseModel x) @
     opt_field ''responseId'' JString (am_responseId x) @
     opt_field ''diagnostics'' (json_list id) (am_diagnostics x) @
     [(''usage'', json_of_usage (am_usage x)), (''stopReason'', json_of_stop_reason (am_stopReason x))] @
     opt_field ''deferred'' json_of_deferred_handle (am_deferred x) @
     opt_field ''errorMessage'' JString (am_errorMessage x) @
     opt_field ''rawStopReason'' JString (am_rawStopReason x) @
     opt_field ''endTurn'' JBool (am_endTurn x) @
     [(''timestamp'', json_int (am_timestamp x))]"

definition json_of_assistant_message :: "assistant_message \<Rightarrow> json" where
  "json_of_assistant_message x = JObject (assistant_message_fields x)"

definition assistant_message_of_json :: "json \<Rightarrow> assistant_message option" where
  "assistant_message_of_json j = do {
     fs \<leftarrow> object_fields j;
     x0 \<leftarrow> req fs ''content'' (list_of_json assistant_content_of_json);
     x1 \<leftarrow> req fs ''api'' string_of_json;
     x2 \<leftarrow> req fs ''provider'' string_of_json;
     x3 \<leftarrow> req fs ''model'' string_of_json;
     x4 \<leftarrow> opt fs ''responseModel'' string_of_json;
     x5 \<leftarrow> opt fs ''responseId'' string_of_json;
     x6 \<leftarrow> opt fs ''diagnostics'' (list_of_json Some);
     x7 \<leftarrow> req fs ''usage'' usage_of_json;
     x8 \<leftarrow> req fs ''stopReason'' stop_reason_of_json;
     x9 \<leftarrow> opt fs ''deferred'' deferred_handle_of_json;
     x10 \<leftarrow> opt fs ''errorMessage'' string_of_json;
     x11 \<leftarrow> opt fs ''rawStopReason'' string_of_json;
     x12 \<leftarrow> opt fs ''endTurn'' bool_of_json;
     x13 \<leftarrow> req fs ''timestamp'' int_of_json;
     Some \<lparr>am_content = x0, am_api = x1, am_provider = x2, am_model = x3, am_responseModel = x4, am_responseId = x5, am_diagnostics = x6, am_usage = x7, am_stopReason = x8, am_deferred = x9, am_errorMessage = x10, am_rawStopReason = x11, am_endTurn = x12, am_timestamp = x13\<rparr>
   }"

lemma assistant_message_json [simp]: "assistant_message_of_json (json_of_assistant_message x) = Some x"
  by (cases x) (simp add: assistant_message_of_json_def json_of_assistant_message_def assistant_message_fields_def json_read)

definition tool_result_message_fields :: "tool_result_message \<Rightarrow> json_fields" where
  "tool_result_message_fields x =
     [(''toolCallId'', JString (tr_toolCallId x)), (''toolName'', JString (tr_toolName x)), (''content'', json_list json_of_input_content (tr_content x))] @
     opt_field ''details'' id (tr_details x) @
     opt_field ''usage'' json_of_usage (tr_usage x) @
     opt_field ''addedToolNames'' (json_list JString) (tr_addedToolNames x) @
     [(''isError'', JBool (tr_isError x)), (''timestamp'', json_int (tr_timestamp x))]"

definition json_of_tool_result_message :: "tool_result_message \<Rightarrow> json" where
  "json_of_tool_result_message x = JObject (tool_result_message_fields x)"

definition tool_result_message_of_json :: "json \<Rightarrow> tool_result_message option" where
  "tool_result_message_of_json j = do {
     fs \<leftarrow> object_fields j;
     x0 \<leftarrow> req fs ''toolCallId'' string_of_json;
     x1 \<leftarrow> req fs ''toolName'' string_of_json;
     x2 \<leftarrow> req fs ''content'' (list_of_json input_content_of_json);
     x3 \<leftarrow> opt fs ''details'' Some;
     x4 \<leftarrow> opt fs ''usage'' usage_of_json;
     x5 \<leftarrow> opt fs ''addedToolNames'' (list_of_json string_of_json);
     x6 \<leftarrow> req fs ''isError'' bool_of_json;
     x7 \<leftarrow> req fs ''timestamp'' int_of_json;
     Some \<lparr>tr_toolCallId = x0, tr_toolName = x1, tr_content = x2, tr_details = x3, tr_usage = x4, tr_addedToolNames = x5, tr_isError = x6, tr_timestamp = x7\<rparr>
   }"

lemma tool_result_message_json [simp]: "tool_result_message_of_json (json_of_tool_result_message x) = Some x"
  by (cases x) (simp add: tool_result_message_of_json_def json_of_tool_result_message_def tool_result_message_fields_def json_read)

definition bash_execution_message_fields :: "bash_execution_message \<Rightarrow> json_fields" where
  "bash_execution_message_fields x =
     [(''command'', JString (bx_command x)), (''output'', JString (bx_output x))] @
     opt_field ''exitCode'' json_int (bx_exitCode x) @
     [(''cancelled'', JBool (bx_cancelled x)), (''truncated'', JBool (bx_truncated x))] @
     opt_field ''fullOutputPath'' JString (bx_fullOutputPath x) @
     [(''timestamp'', json_int (bx_timestamp x))] @
     opt_field ''excludeFromContext'' JBool (bx_excludeFromContext x)"

definition json_of_bash_execution_message :: "bash_execution_message \<Rightarrow> json" where
  "json_of_bash_execution_message x = JObject (bash_execution_message_fields x)"

definition bash_execution_message_of_json :: "json \<Rightarrow> bash_execution_message option" where
  "bash_execution_message_of_json j = do {
     fs \<leftarrow> object_fields j;
     x0 \<leftarrow> req fs ''command'' string_of_json;
     x1 \<leftarrow> req fs ''output'' string_of_json;
     x2 \<leftarrow> opt fs ''exitCode'' int_of_json;
     x3 \<leftarrow> req fs ''cancelled'' bool_of_json;
     x4 \<leftarrow> req fs ''truncated'' bool_of_json;
     x5 \<leftarrow> opt fs ''fullOutputPath'' string_of_json;
     x6 \<leftarrow> req fs ''timestamp'' int_of_json;
     x7 \<leftarrow> opt fs ''excludeFromContext'' bool_of_json;
     Some \<lparr>bx_command = x0, bx_output = x1, bx_exitCode = x2, bx_cancelled = x3, bx_truncated = x4, bx_fullOutputPath = x5, bx_timestamp = x6, bx_excludeFromContext = x7\<rparr>
   }"

lemma bash_execution_message_json [simp]: "bash_execution_message_of_json (json_of_bash_execution_message x) = Some x"
  by (cases x) (simp add: bash_execution_message_of_json_def json_of_bash_execution_message_def bash_execution_message_fields_def json_read)

definition custom_message_fields :: "custom_message \<Rightarrow> json_fields" where
  "custom_message_fields x =
     [(''customType'', JString (cm_customType x)), (''content'', json_of_message_content (cm_content x)), (''display'', JBool (cm_display x))] @
     opt_field ''details'' id (cm_details x) @
     [(''timestamp'', json_int (cm_timestamp x))]"

definition json_of_custom_message :: "custom_message \<Rightarrow> json" where
  "json_of_custom_message x = JObject (custom_message_fields x)"

definition custom_message_of_json :: "json \<Rightarrow> custom_message option" where
  "custom_message_of_json j = do {
     fs \<leftarrow> object_fields j;
     x0 \<leftarrow> req fs ''customType'' string_of_json;
     x1 \<leftarrow> req fs ''content'' message_content_of_json;
     x2 \<leftarrow> req fs ''display'' bool_of_json;
     x3 \<leftarrow> opt fs ''details'' Some;
     x4 \<leftarrow> req fs ''timestamp'' int_of_json;
     Some \<lparr>cm_customType = x0, cm_content = x1, cm_display = x2, cm_details = x3, cm_timestamp = x4\<rparr>
   }"

lemma custom_message_json [simp]: "custom_message_of_json (json_of_custom_message x) = Some x"
  by (cases x) (simp add: custom_message_of_json_def json_of_custom_message_def custom_message_fields_def json_read)

definition branch_summary_message_fields :: "branch_summary_message \<Rightarrow> json_fields" where
  "branch_summary_message_fields x =
     [(''summary'', JString (bsm_summary x)), (''fromId'', JString (bsm_fromId x)), (''timestamp'', json_int (bsm_timestamp x))]"

definition json_of_branch_summary_message :: "branch_summary_message \<Rightarrow> json" where
  "json_of_branch_summary_message x = JObject (branch_summary_message_fields x)"

definition branch_summary_message_of_json :: "json \<Rightarrow> branch_summary_message option" where
  "branch_summary_message_of_json j = do {
     fs \<leftarrow> object_fields j;
     x0 \<leftarrow> req fs ''summary'' string_of_json;
     x1 \<leftarrow> req fs ''fromId'' string_of_json;
     x2 \<leftarrow> req fs ''timestamp'' int_of_json;
     Some \<lparr>bsm_summary = x0, bsm_fromId = x1, bsm_timestamp = x2\<rparr>
   }"

lemma branch_summary_message_json [simp]: "branch_summary_message_of_json (json_of_branch_summary_message x) = Some x"
  by (cases x) (simp add: branch_summary_message_of_json_def json_of_branch_summary_message_def branch_summary_message_fields_def json_read)

definition compaction_summary_message_fields :: "compaction_summary_message \<Rightarrow> json_fields" where
  "compaction_summary_message_fields x =
     [(''summary'', JString (csm_summary x)), (''tokensBefore'', json_int (csm_tokensBefore x)), (''timestamp'', json_int (csm_timestamp x))]"

definition json_of_compaction_summary_message :: "compaction_summary_message \<Rightarrow> json" where
  "json_of_compaction_summary_message x = JObject (compaction_summary_message_fields x)"

definition compaction_summary_message_of_json :: "json \<Rightarrow> compaction_summary_message option" where
  "compaction_summary_message_of_json j = do {
     fs \<leftarrow> object_fields j;
     x0 \<leftarrow> req fs ''summary'' string_of_json;
     x1 \<leftarrow> req fs ''tokensBefore'' int_of_json;
     x2 \<leftarrow> req fs ''timestamp'' int_of_json;
     Some \<lparr>csm_summary = x0, csm_tokensBefore = x1, csm_timestamp = x2\<rparr>
   }"

lemma compaction_summary_message_json [simp]: "compaction_summary_message_of_json (json_of_compaction_summary_message x) = Some x"
  by (cases x) (simp add: compaction_summary_message_of_json_def json_of_compaction_summary_message_def compaction_summary_message_fields_def json_read)

fun agent_message_fields :: "agent_message \<Rightarrow> json_fields" where
  "agent_message_fields (UserMessage x) = (''role'', JString ''user'') # user_message_fields x"
| "agent_message_fields (AssistantMessage x) = (''role'', JString ''assistant'') # assistant_message_fields x"
| "agent_message_fields (ToolResultMessage x) = (''role'', JString ''toolResult'') # tool_result_message_fields x"
| "agent_message_fields (BashExecutionMessage x) = (''role'', JString ''bashExecution'') # bash_execution_message_fields x"
| "agent_message_fields (CustomMessage x) = (''role'', JString ''custom'') # custom_message_fields x"
| "agent_message_fields (BranchSummaryMessage x) = (''role'', JString ''branchSummary'') # branch_summary_message_fields x"
| "agent_message_fields (CompactionSummaryMessage x) = (''role'', JString ''compactionSummary'') # compaction_summary_message_fields x"

definition json_of_agent_message :: "agent_message \<Rightarrow> json" where
  "json_of_agent_message x = JObject (agent_message_fields x)"

definition agent_message_of_fields :: "json_fields \<Rightarrow> agent_message option" where
  "agent_message_of_fields fs = do {
     s \<leftarrow> req fs ''role'' string_of_json;
     (if s = ''user'' then map_option UserMessage (user_message_of_json (JObject fs))
      else if s = ''assistant'' then map_option AssistantMessage (assistant_message_of_json (JObject fs))
      else if s = ''toolResult'' then map_option ToolResultMessage (tool_result_message_of_json (JObject fs))
      else if s = ''bashExecution'' then map_option BashExecutionMessage (bash_execution_message_of_json (JObject fs))
      else if s = ''custom'' then map_option CustomMessage (custom_message_of_json (JObject fs))
      else if s = ''branchSummary'' then map_option BranchSummaryMessage (branch_summary_message_of_json (JObject fs))
      else if s = ''compactionSummary'' then map_option CompactionSummaryMessage (compaction_summary_message_of_json (JObject fs))
      else None)
   }"

definition agent_message_of_json :: "json \<Rightarrow> agent_message option" where
  "agent_message_of_json j = Option.bind (object_fields j) agent_message_of_fields"

lemma agent_message_fields_read [simp]: "agent_message_of_fields (agent_message_fields x) = Some x"
  by (cases x) (simp_all add: agent_message_of_fields_def user_message_of_json_def user_message_fields_def assistant_message_of_json_def assistant_message_fields_def tool_result_message_of_json_def tool_result_message_fields_def bash_execution_message_of_json_def bash_execution_message_fields_def custom_message_of_json_def custom_message_fields_def branch_summary_message_of_json_def branch_summary_message_fields_def compaction_summary_message_of_json_def compaction_summary_message_fields_def json_read)

lemma agent_message_json [simp]: "agent_message_of_json (json_of_agent_message x) = Some x"
  by (simp add: agent_message_of_json_def json_of_agent_message_def)

section \<open>Entries\<close>

text \<open>\<open>terminate?: true\<close> is present or absent.\<close>

definition terminate_field :: "bool \<Rightarrow> json_fields" where
  "terminate_field b = (if b then [(''terminate'', JBool True)] else [])"

lemma map_get_terminate [simp]:
  "map_get (terminate_field b) k = (if b \<and> k = ''terminate'' then Some (JBool True) else None)"
  by (simp add: terminate_field_def)

fun entry_payload_fields :: "entry_payload \<Rightarrow> json_fields" where
  "entry_payload_fields (MessagePayload x0 x1) =
     [(''type'', JString ''message''), (''message'', json_of_agent_message x0)] @
     terminate_field x1"
| "entry_payload_fields (ModelChangePayload x0 x1) =
     [(''type'', JString ''model_change''), (''provider'', JString x0), (''modelId'', JString x1)]"
| "entry_payload_fields (ThinkingLevelPayload x0) =
     [(''type'', JString ''thinking_level_change''), (''thinkingLevel'', JString x0)]"
| "entry_payload_fields (ActiveToolsPayload x0) =
     [(''type'', JString ''active_tools_change''), (''activeToolNames'', json_list JString x0)]"
| "entry_payload_fields (CompactionPayload x0 x1 x2 x3 x4) =
     [(''type'', JString ''compaction''), (''summary'', JString x0), (''retainedTail'', json_list json_of_agent_message x1), (''tokensBefore'', json_int x2)] @
     opt_field ''details'' id x3 @
     opt_field ''usage'' json_of_usage x4"
| "entry_payload_fields (BranchSummaryPayload x0 x1 x2 x3) =
     [(''type'', JString ''branch_summary''), (''fromId'', JString x0), (''summary'', JString x1)] @
     opt_field ''details'' id x2 @
     opt_field ''usage'' json_of_usage x3"
| "entry_payload_fields (CustomPayload x0 x1) =
     [(''type'', JString ''custom''), (''customType'', JString x0)] @
     opt_field ''data'' id x1"

definition json_of_entry_payload :: "entry_payload \<Rightarrow> json" where
  "json_of_entry_payload x = JObject (entry_payload_fields x)"

definition entry_payload_of_fields :: "json_fields \<Rightarrow> entry_payload option" where
  "entry_payload_of_fields fs = do {
     s \<leftarrow> req fs ''type'' string_of_json;
     (if s = ''message'' then do {
         x0 \<leftarrow> req fs ''message'' agent_message_of_json;
         Some (MessagePayload x0 (map_get fs ''terminate'' = Some (JBool True)))
       }
      else if s = ''model_change'' then do {
         x0 \<leftarrow> req fs ''provider'' string_of_json;
         x1 \<leftarrow> req fs ''modelId'' string_of_json;
         Some (ModelChangePayload x0 x1)
       }
      else if s = ''thinking_level_change'' then do {
         x0 \<leftarrow> req fs ''thinkingLevel'' string_of_json;
         Some (ThinkingLevelPayload x0)
       }
      else if s = ''active_tools_change'' then do {
         x0 \<leftarrow> req fs ''activeToolNames'' (list_of_json string_of_json);
         Some (ActiveToolsPayload x0)
       }
      else if s = ''compaction'' then do {
         x0 \<leftarrow> req fs ''summary'' string_of_json;
         x1 \<leftarrow> req fs ''retainedTail'' (list_of_json agent_message_of_json);
         x2 \<leftarrow> req fs ''tokensBefore'' int_of_json;
         x3 \<leftarrow> opt fs ''details'' Some;
         x4 \<leftarrow> opt fs ''usage'' usage_of_json;
         Some (CompactionPayload x0 x1 x2 x3 x4)
       }
      else if s = ''branch_summary'' then do {
         x0 \<leftarrow> req fs ''fromId'' string_of_json;
         x1 \<leftarrow> req fs ''summary'' string_of_json;
         x2 \<leftarrow> opt fs ''details'' Some;
         x3 \<leftarrow> opt fs ''usage'' usage_of_json;
         Some (BranchSummaryPayload x0 x1 x2 x3)
       }
      else if s = ''custom'' then do {
         x0 \<leftarrow> req fs ''customType'' string_of_json;
         x1 \<leftarrow> opt fs ''data'' Some;
         Some (CustomPayload x0 x1)
       }
      else None)
   }"

definition entry_payload_of_json :: "json \<Rightarrow> entry_payload option" where
  "entry_payload_of_json j = Option.bind (object_fields j) entry_payload_of_fields"

lemma entry_payload_fields_read [simp]: "entry_payload_of_fields (entry_payload_fields x) = Some x"
  by (cases x) (simp_all add: entry_payload_of_fields_def  json_read)

lemma entry_payload_json [simp]: "entry_payload_of_json (json_of_entry_payload x) = Some x"
  by (simp add: entry_payload_of_json_def json_of_entry_payload_def)


definition entry_fields :: "entry \<Rightarrow> json_fields" where
  "entry_fields e = [(''id'', JString (e_id e)), (''seq'', json_nat (e_seq e)),
     (''parentId'', json_nullable (e_parentId e)), (''timestamp'', json_int (e_timestamp e))] @
     entry_payload_fields (e_payload e)"

definition entry_of_fields :: "json_fields \<Rightarrow> entry option" where
  "entry_of_fields fs = do {
     i \<leftarrow> req fs ''id'' string_of_json;
     n \<leftarrow> req fs ''seq'' nat_of_json;
     p \<leftarrow> req fs ''parentId'' nullable_of_json;
     t \<leftarrow> req fs ''timestamp'' int_of_json;
     b \<leftarrow> entry_payload_of_fields fs;
     Some \<lparr>e_id = i, e_seq = n, e_parentId = p, e_timestamp = t, e_payload = b\<rparr>
   }"

definition json_of_provisioned_entry :: "provisioned_entry \<Rightarrow> json" where
  "json_of_provisioned_entry p = JObject ((''id'', JString (p_id p)) # entry_payload_fields (p_payload p))"

definition provisioned_entry_of_json :: "json \<Rightarrow> provisioned_entry option" where
  "provisioned_entry_of_json j = do {
     fs \<leftarrow> object_fields j;
     i \<leftarrow> req fs ''id'' string_of_json;
     b \<leftarrow> entry_payload_of_fields fs;
     Some \<lparr>p_id = i, p_payload = b\<rparr>
   }"

text \<open>The readers of a payload look only at the properties of the payload.\<close>

definition payload_keys :: "string list" where
  "payload_keys = [''type'', ''message'', ''terminate'', ''provider'', ''modelId'', ''thinkingLevel'',
     ''activeToolNames'', ''summary'', ''retainedTail'', ''tokensBefore'', ''details'', ''usage'',
     ''fromId'', ''customType'', ''data'']"

lemma payload_frame:
  assumes "\<And>k. k \<in> set payload_keys \<Longrightarrow> map_get fs k = map_get gs k"
  shows "entry_payload_of_fields fs = entry_payload_of_fields gs"
  using assms by (simp add: entry_payload_of_fields_def payload_keys_def req_def opt_def cong: if_cong)

lemma payload_after_base:
  assumes "\<And>k. k \<in> set payload_keys \<Longrightarrow> map_get fs k = None"
  shows "entry_payload_of_fields (fs @ entry_payload_fields p) = Some p"
proof -
  have "entry_payload_of_fields (fs @ entry_payload_fields p) = entry_payload_of_fields (entry_payload_fields p)"
    using assms by (intro payload_frame) (simp add: map_get_append)
  then show ?thesis by simp
qed

lemma entry_fields_read [simp]: "entry_of_fields (entry_fields e) = Some e"
proof -
  let ?base = "[(''id'', JString (e_id e)), (''seq'', json_nat (e_seq e)),
     (''parentId'', json_nullable (e_parentId e)), (''timestamp'', json_int (e_timestamp e))]"
  have "entry_payload_of_fields (?base @ entry_payload_fields (e_payload e)) = Some (e_payload e)"
    by (rule payload_after_base) (auto simp: payload_keys_def)
  then show ?thesis by (cases e) (simp add: entry_of_fields_def entry_fields_def json_read)
qed

lemma provisioned_entry_json [simp]: "provisioned_entry_of_json (json_of_provisioned_entry p) = Some p"
proof -
  have "entry_payload_of_fields ([(''id'', JString (p_id p))] @ entry_payload_fields (p_payload p)) = Some (p_payload p)"
    by (rule payload_after_base) (auto simp: payload_keys_def)
  then show ?thesis
    by (cases p) (simp add: provisioned_entry_of_json_def json_of_provisioned_entry_def json_read)
qed

section \<open>Lane records\<close>

definition run_intent_fields :: "run_intent \<Rightarrow> json_fields" where
  "run_intent_fields x =
     [(''originalPrompt'', json_list json_of_agent_message (ri_originalPrompt x)), (''initialMessages'', json_list json_of_provisioned_entry (ri_initialMessages x))] @
     opt_field ''systemPromptOverride'' JString (ri_systemPromptOverride x) @
     opt_field ''resumeData'' JObject (ri_resumeData x)"

definition json_of_run_intent :: "run_intent \<Rightarrow> json" where
  "json_of_run_intent x = JObject (run_intent_fields x)"

definition run_intent_of_json :: "json \<Rightarrow> run_intent option" where
  "run_intent_of_json j = do {
     fs \<leftarrow> object_fields j;
     x0 \<leftarrow> req fs ''originalPrompt'' (list_of_json agent_message_of_json);
     x1 \<leftarrow> req fs ''initialMessages'' (list_of_json provisioned_entry_of_json);
     x2 \<leftarrow> opt fs ''systemPromptOverride'' string_of_json;
     x3 \<leftarrow> opt fs ''resumeData'' object_fields;
     Some \<lparr>ri_originalPrompt = x0, ri_initialMessages = x1, ri_systemPromptOverride = x2, ri_resumeData = x3\<rparr>
   }"

lemma run_intent_json [simp]: "run_intent_of_json (json_of_run_intent x) = Some x"
  by (cases x) (simp add: run_intent_of_json_def json_of_run_intent_def run_intent_fields_def json_read)

definition compaction_intent_fields :: "compaction_intent \<Rightarrow> json_fields" where
  "compaction_intent_fields x =
     opt_field ''customInstructions'' JString (ci_customInstructions x) @
     [(''resultEntryId'', JString (ci_resultEntryId x))]"

definition json_of_compaction_intent :: "compaction_intent \<Rightarrow> json" where
  "json_of_compaction_intent x = JObject (compaction_intent_fields x)"

definition compaction_intent_of_json :: "json \<Rightarrow> compaction_intent option" where
  "compaction_intent_of_json j = do {
     fs \<leftarrow> object_fields j;
     x0 \<leftarrow> opt fs ''customInstructions'' string_of_json;
     x1 \<leftarrow> req fs ''resultEntryId'' string_of_json;
     Some \<lparr>ci_customInstructions = x0, ci_resultEntryId = x1\<rparr>
   }"

lemma compaction_intent_json [simp]: "compaction_intent_of_json (json_of_compaction_intent x) = Some x"
  by (cases x) (simp add: compaction_intent_of_json_def json_of_compaction_intent_def compaction_intent_fields_def json_read)

definition navigation_intent_fields :: "navigation_intent \<Rightarrow> json_fields" where
  "navigation_intent_fields x =
     [(''targetId'', json_nullable (ni_targetId x)), (''summarize'', JBool (ni_summarize x))] @
     opt_field ''customInstructions'' JString (ni_customInstructions x) @
     opt_field ''label'' JString (ni_label x) @
     opt_field ''summaryEntryId'' JString (ni_summaryEntryId x)"

definition json_of_navigation_intent :: "navigation_intent \<Rightarrow> json" where
  "json_of_navigation_intent x = JObject (navigation_intent_fields x)"

definition navigation_intent_of_json :: "json \<Rightarrow> navigation_intent option" where
  "navigation_intent_of_json j = do {
     fs \<leftarrow> object_fields j;
     x0 \<leftarrow> req fs ''targetId'' nullable_of_json;
     x1 \<leftarrow> req fs ''summarize'' bool_of_json;
     x2 \<leftarrow> opt fs ''customInstructions'' string_of_json;
     x3 \<leftarrow> opt fs ''label'' string_of_json;
     x4 \<leftarrow> opt fs ''summaryEntryId'' string_of_json;
     Some \<lparr>ni_targetId = x0, ni_summarize = x1, ni_customInstructions = x2, ni_label = x3, ni_summaryEntryId = x4\<rparr>
   }"

lemma navigation_intent_json [simp]: "navigation_intent_of_json (json_of_navigation_intent x) = Some x"
  by (cases x) (simp add: navigation_intent_of_json_def json_of_navigation_intent_def navigation_intent_fields_def json_read)

fun operation_intent_fields :: "operation_intent \<Rightarrow> json_fields" where
  "operation_intent_fields (RunIntent x) = (''kind'', JString ''run'') # run_intent_fields x"
| "operation_intent_fields (CompactionIntent x) = (''kind'', JString ''compaction'') # compaction_intent_fields x"
| "operation_intent_fields (NavigationIntent x) = (''kind'', JString ''navigation'') # navigation_intent_fields x"

definition json_of_operation_intent :: "operation_intent \<Rightarrow> json" where
  "json_of_operation_intent x = JObject (operation_intent_fields x)"

definition operation_intent_of_fields :: "json_fields \<Rightarrow> operation_intent option" where
  "operation_intent_of_fields fs = do {
     s \<leftarrow> req fs ''kind'' string_of_json;
     (if s = ''run'' then map_option RunIntent (run_intent_of_json (JObject fs))
      else if s = ''compaction'' then map_option CompactionIntent (compaction_intent_of_json (JObject fs))
      else if s = ''navigation'' then map_option NavigationIntent (navigation_intent_of_json (JObject fs))
      else None)
   }"

definition operation_intent_of_json :: "json \<Rightarrow> operation_intent option" where
  "operation_intent_of_json j = Option.bind (object_fields j) operation_intent_of_fields"

lemma operation_intent_fields_read [simp]: "operation_intent_of_fields (operation_intent_fields x) = Some x"
  by (cases x) (simp_all add: operation_intent_of_fields_def run_intent_of_json_def run_intent_fields_def compaction_intent_of_json_def compaction_intent_fields_def navigation_intent_of_json_def navigation_intent_fields_def json_read)

lemma operation_intent_json [simp]: "operation_intent_of_json (json_of_operation_intent x) = Some x"
  by (simp add: operation_intent_of_json_def json_of_operation_intent_def)

fun json_of_operation_outcome :: "operation_outcome \<Rightarrow> json" where
  "json_of_operation_outcome Completed = JString ''completed''"
| "json_of_operation_outcome Aborted = JString ''aborted''"
| "json_of_operation_outcome Failed = JString ''failed''"
| "json_of_operation_outcome Declined = JString ''declined''"

definition operation_outcome_of_json :: "json \<Rightarrow> operation_outcome option" where
  "operation_outcome_of_json j = do {
     s \<leftarrow> string_of_json j;
     (if s = ''completed'' then Some Completed
      else if s = ''aborted'' then Some Aborted
      else if s = ''failed'' then Some Failed
      else if s = ''declined'' then Some Declined
      else None)
   }"

lemma operation_outcome_json [simp]: "operation_outcome_of_json (json_of_operation_outcome x) = Some x"
  by (cases x) (simp_all add: operation_outcome_of_json_def)

fun json_of_step_kind :: "step_kind \<Rightarrow> json" where
  "json_of_step_kind StepAssistant = JString ''assistant''"
| "json_of_step_kind StepCompaction = JString ''compaction''"
| "json_of_step_kind StepBranchSummary = JString ''branch_summary''"

definition step_kind_of_json :: "json \<Rightarrow> step_kind option" where
  "step_kind_of_json j = do {
     s \<leftarrow> string_of_json j;
     (if s = ''assistant'' then Some StepAssistant
      else if s = ''compaction'' then Some StepCompaction
      else if s = ''branch_summary'' then Some StepBranchSummary
      else None)
   }"

lemma step_kind_json [simp]: "step_kind_of_json (json_of_step_kind x) = Some x"
  by (cases x) (simp_all add: step_kind_of_json_def)

fun json_of_compaction_reason :: "compaction_reason \<Rightarrow> json" where
  "json_of_compaction_reason ReasonManual = JString ''manual''"
| "json_of_compaction_reason ReasonThreshold = JString ''threshold''"
| "json_of_compaction_reason ReasonOverflow = JString ''overflow''"

definition compaction_reason_of_json :: "json \<Rightarrow> compaction_reason option" where
  "compaction_reason_of_json j = do {
     s \<leftarrow> string_of_json j;
     (if s = ''manual'' then Some ReasonManual
      else if s = ''threshold'' then Some ReasonThreshold
      else if s = ''overflow'' then Some ReasonOverflow
      else None)
   }"

lemma compaction_reason_json [simp]: "compaction_reason_of_json (json_of_compaction_reason x) = Some x"
  by (cases x) (simp_all add: compaction_reason_of_json_def)

fun json_of_replay_policy :: "replay_policy \<Rightarrow> json" where
  "json_of_replay_policy ReplayNever = JString ''never''"
| "json_of_replay_policy ReplaySafe = JString ''safe''"

definition replay_policy_of_json :: "json \<Rightarrow> replay_policy option" where
  "replay_policy_of_json j = do {
     s \<leftarrow> string_of_json j;
     (if s = ''never'' then Some ReplayNever
      else if s = ''safe'' then Some ReplaySafe
      else None)
   }"

lemma replay_policy_json [simp]: "replay_policy_of_json (json_of_replay_policy x) = Some x"
  by (cases x) (simp_all add: replay_policy_of_json_def)

fun json_of_queue_name :: "queue_name \<Rightarrow> json" where
  "json_of_queue_name QSteer = JString ''steer''"
| "json_of_queue_name QFollowUp = JString ''followUp''"
| "json_of_queue_name QNextRun = JString ''nextRun''"

definition queue_name_of_json :: "json \<Rightarrow> queue_name option" where
  "queue_name_of_json j = do {
     s \<leftarrow> string_of_json j;
     (if s = ''steer'' then Some QSteer
      else if s = ''followUp'' then Some QFollowUp
      else if s = ''nextRun'' then Some QNextRun
      else None)
   }"

lemma queue_name_json [simp]: "queue_name_of_json (json_of_queue_name x) = Some x"
  by (cases x) (simp_all add: queue_name_of_json_def)

fun json_of_generation_cause :: "generation_cause \<Rightarrow> json" where
  "json_of_generation_cause CauseAssistant = JString ''assistant''"
| "json_of_generation_cause CauseCompaction = JString ''compaction''"
| "json_of_generation_cause CauseBranchSummary = JString ''branch_summary''"
| "json_of_generation_cause CauseDeferredFetch = JString ''deferred_fetch''"

definition generation_cause_of_json :: "json \<Rightarrow> generation_cause option" where
  "generation_cause_of_json j = do {
     s \<leftarrow> string_of_json j;
     (if s = ''assistant'' then Some CauseAssistant
      else if s = ''compaction'' then Some CauseCompaction
      else if s = ''branch_summary'' then Some CauseBranchSummary
      else if s = ''deferred_fetch'' then Some CauseDeferredFetch
      else None)
   }"

lemma generation_cause_json [simp]: "generation_cause_of_json (json_of_generation_cause x) = Some x"
  by (cases x) (simp_all add: generation_cause_of_json_def)

definition tool_start_fields :: "tool_start \<Rightarrow> json_fields" where
  "tool_start_fields x =
     [(''runId'', JString (ts_runId x)), (''assistantEntryId'', JString (ts_assistantEntryId x)), (''toolIndex'', json_nat (ts_toolIndex x)), (''toolCallId'', JString (ts_toolCallId x)), (''toolName'', JString (ts_toolName x)), (''effectiveArgs'', JObject (ts_effectiveArgs x)), (''resultEntryId'', JString (ts_resultEntryId x)), (''replay'', json_of_replay_policy (ts_replay x))]"

definition json_of_tool_start :: "tool_start \<Rightarrow> json" where
  "json_of_tool_start x = JObject (tool_start_fields x)"

definition tool_start_of_json :: "json \<Rightarrow> tool_start option" where
  "tool_start_of_json j = do {
     fs \<leftarrow> object_fields j;
     x0 \<leftarrow> req fs ''runId'' string_of_json;
     x1 \<leftarrow> req fs ''assistantEntryId'' string_of_json;
     x2 \<leftarrow> req fs ''toolIndex'' nat_of_json;
     x3 \<leftarrow> req fs ''toolCallId'' string_of_json;
     x4 \<leftarrow> req fs ''toolName'' string_of_json;
     x5 \<leftarrow> req fs ''effectiveArgs'' object_fields;
     x6 \<leftarrow> req fs ''resultEntryId'' string_of_json;
     x7 \<leftarrow> req fs ''replay'' replay_policy_of_json;
     Some \<lparr>ts_runId = x0, ts_assistantEntryId = x1, ts_toolIndex = x2, ts_toolCallId = x3, ts_toolName = x4, ts_effectiveArgs = x5, ts_resultEntryId = x6, ts_replay = x7\<rparr>
   }"

lemma tool_start_json [simp]: "tool_start_of_json (json_of_tool_start x) = Some x"
  by (cases x) (simp add: tool_start_of_json_def json_of_tool_start_def tool_start_fields_def json_read)

definition step_attempt_fields :: "step_attempt \<Rightarrow> json_fields" where
  "step_attempt_fields x =
     [(''runId'', JString (sa_runId x)), (''step'', json_of_step_kind (sa_step x)), (''attempt'', json_nat (sa_attempt x)), (''resultEntryId'', JString (sa_resultEntryId x))] @
     opt_field ''compactionReason'' json_of_compaction_reason (sa_compactionReason x)"

definition json_of_step_attempt :: "step_attempt \<Rightarrow> json" where
  "json_of_step_attempt x = JObject (step_attempt_fields x)"

definition step_attempt_of_json :: "json \<Rightarrow> step_attempt option" where
  "step_attempt_of_json j = do {
     fs \<leftarrow> object_fields j;
     x0 \<leftarrow> req fs ''runId'' string_of_json;
     x1 \<leftarrow> req fs ''step'' step_kind_of_json;
     x2 \<leftarrow> req fs ''attempt'' nat_of_json;
     x3 \<leftarrow> req fs ''resultEntryId'' string_of_json;
     x4 \<leftarrow> opt fs ''compactionReason'' compaction_reason_of_json;
     Some \<lparr>sa_runId = x0, sa_step = x1, sa_attempt = x2, sa_resultEntryId = x3, sa_compactionReason = x4\<rparr>
   }"

lemma step_attempt_json [simp]: "step_attempt_of_json (json_of_step_attempt x) = Some x"
  by (cases x) (simp add: step_attempt_of_json_def json_of_step_attempt_def step_attempt_fields_def json_read)

definition json_of_operation_error :: "string \<times> string \<Rightarrow> json" where
  "json_of_operation_error x = JObject [(''code'', JString (fst x)), (''message'', JString (snd x))]"

definition operation_error_of_json :: "json \<Rightarrow> (string \<times> string) option" where
  "operation_error_of_json j = do {
     fs \<leftarrow> object_fields j;
     c \<leftarrow> req fs ''code'' string_of_json;
     m \<leftarrow> req fs ''message'' string_of_json;
     Some (c, m)
   }"

lemma operation_error_json [simp]: "operation_error_of_json (json_of_operation_error x) = Some x"
  by (cases x) (simp add: operation_error_of_json_def json_of_operation_error_def json_read)

fun usage_cause_fields :: "usage_cause \<Rightarrow> json_fields" where
  "usage_cause_fields (GenerationUsage c r e n s) = [(''cause'', json_of_generation_cause c),
     (''runId'', JString r), (''entryId'', JString e), (''attempt'', json_nat n),
     (''stopReason'', json_of_stop_reason s)]"
| "usage_cause_fields (ToolUsage r e t) = [(''cause'', JString ''tool''), (''runId'', JString r),
     (''entryId'', JString e), (''toolCallId'', JString t)]"
| "usage_cause_fields (HookUsage r e) = [(''cause'', JString ''hook''), (''runId'', JString r),
     (''entryId'', JString e)]"
| "usage_cause_fields (AdjustmentUsage r e d) = [(''cause'', JString ''adjustment'')] @
     opt_field ''runId'' JString r @ opt_field ''entryId'' JString e @ opt_field ''details'' id d"

definition usage_cause_of_fields :: "json_fields \<Rightarrow> usage_cause option" where
  "usage_cause_of_fields fs = do {
     s \<leftarrow> req fs ''cause'' string_of_json;
     (if s = ''tool'' then do {
         r \<leftarrow> req fs ''runId'' string_of_json;
         e \<leftarrow> req fs ''entryId'' string_of_json;
         t \<leftarrow> req fs ''toolCallId'' string_of_json;
         Some (ToolUsage r e t)
       }
      else if s = ''hook'' then do {
         r \<leftarrow> req fs ''runId'' string_of_json;
         e \<leftarrow> req fs ''entryId'' string_of_json;
         Some (HookUsage r e)
       }
      else if s = ''adjustment'' then do {
         r \<leftarrow> opt fs ''runId'' string_of_json;
         e \<leftarrow> opt fs ''entryId'' string_of_json;
         d \<leftarrow> opt fs ''details'' Some;
         Some (AdjustmentUsage r e d)
       }
      else do {
         c \<leftarrow> req fs ''cause'' generation_cause_of_json;
         r \<leftarrow> req fs ''runId'' string_of_json;
         e \<leftarrow> req fs ''entryId'' string_of_json;
         n \<leftarrow> req fs ''attempt'' nat_of_json;
         q \<leftarrow> req fs ''stopReason'' stop_reason_of_json;
         Some (GenerationUsage c r e n q)
       })
   }"

fun record_body_fields :: "record_body \<Rightarrow> json_fields" where
  "record_body_fields (OperationStarted src i) = [(''type'', JString ''operation_started''),
     (''sourceLeafId'', json_nullable src), (''intent'', json_of_operation_intent i)]"
| "record_body_fields (AbortRequested r) = [(''type'', JString ''abort_requested''), (''runId'', JString r)]"
| "record_body_fields (OperationFinished r out err) = [(''type'', JString ''operation_finished''),
     (''runId'', JString r), (''outcome'', json_of_operation_outcome out)] @
     opt_field ''error'' json_of_operation_error err"
| "record_body_fields (StepAttempt a) = (''type'', JString ''step_attempt'') # step_attempt_fields a"
| "record_body_fields (ToolStarted t) = (''type'', JString ''tool_started'') # tool_start_fields t"
| "record_body_fields (QueueEnqueued name r p) = [(''type'', JString ''queue_enqueued''),
     (''queue'', json_of_queue_name name)] @ opt_field ''runId'' JString r @
     [(''target'', json_of_provisioned_entry p)]"
| "record_body_fields (QueueCancelled r e) = [(''type'', JString ''queue_cancelled'')] @
     opt_field ''runId'' JString r @ [(''entryId'', JString e)]"
| "record_body_fields (WriteDeferred r p) = [(''type'', JString ''write_deferred''), (''runId'', JString r),
     (''target'', json_of_provisioned_entry p)]"
| "record_body_fields (UsageRecord u c) =
     [(''type'', JString ''usage''), (''usage'', json_of_usage u)] @ usage_cause_fields c"

definition record_body_of_fields :: "json_fields \<Rightarrow> record_body option" where
  "record_body_of_fields fs = do {
     s \<leftarrow> req fs ''type'' string_of_json;
     (if s = ''operation_started'' then do {
         src \<leftarrow> req fs ''sourceLeafId'' nullable_of_json;
         i \<leftarrow> req fs ''intent'' operation_intent_of_json;
         Some (OperationStarted src i)
       }
      else if s = ''abort_requested'' then map_option AbortRequested (req fs ''runId'' string_of_json)
      else if s = ''operation_finished'' then do {
         r \<leftarrow> req fs ''runId'' string_of_json;
         out \<leftarrow> req fs ''outcome'' operation_outcome_of_json;
         err \<leftarrow> opt fs ''error'' operation_error_of_json;
         Some (OperationFinished r out err)
       }
      else if s = ''step_attempt'' then map_option StepAttempt (step_attempt_of_json (JObject fs))
      else if s = ''tool_started'' then map_option ToolStarted (tool_start_of_json (JObject fs))
      else if s = ''queue_enqueued'' then do {
         name \<leftarrow> req fs ''queue'' queue_name_of_json;
         r \<leftarrow> opt fs ''runId'' string_of_json;
         p \<leftarrow> req fs ''target'' provisioned_entry_of_json;
         Some (QueueEnqueued name r p)
       }
      else if s = ''queue_cancelled'' then do {
         r \<leftarrow> opt fs ''runId'' string_of_json;
         e \<leftarrow> req fs ''entryId'' string_of_json;
         Some (QueueCancelled r e)
       }
      else if s = ''write_deferred'' then do {
         r \<leftarrow> req fs ''runId'' string_of_json;
         p \<leftarrow> req fs ''target'' provisioned_entry_of_json;
         Some (WriteDeferred r p)
       }
      else if s = ''usage'' then do {
         u \<leftarrow> req fs ''usage'' usage_of_json;
         c \<leftarrow> usage_cause_of_fields fs;
         Some (UsageRecord u c)
       }
      else None)
   }"

definition record_fields :: "lane_record \<Rightarrow> json_fields" where
  "record_fields r = [(''id'', JString (r_id r)), (''seq'', json_nat (r_seq r)),
     (''lane'', JString (r_lane r)), (''timestamp'', json_int (r_timestamp r))] @ record_body_fields (r_body r)"

definition record_of_fields :: "json_fields \<Rightarrow> lane_record option" where
  "record_of_fields fs = do {
     i \<leftarrow> req fs ''id'' string_of_json;
     n \<leftarrow> req fs ''seq'' nat_of_json;
     l \<leftarrow> req fs ''lane'' string_of_json;
     t \<leftarrow> req fs ''timestamp'' int_of_json;
     b \<leftarrow> record_body_of_fields fs;
     Some \<lparr>r_id = i, r_seq = n, r_lane = l, r_timestamp = t, r_body = b\<rparr>
   }"

lemma usage_cause_frame:
  assumes "\<And>k. k \<in> {''cause'', ''runId'', ''entryId'', ''toolCallId'', ''details'', ''attempt'', ''stopReason''} \<Longrightarrow>
    map_get fs k = map_get gs k"
  shows "usage_cause_of_fields fs = usage_cause_of_fields gs"
  using assms by (simp add: usage_cause_of_fields_def req_def opt_def cong: if_cong)

lemma generation_cause_text:
  "\<exists>s. json_of_generation_cause c = JString s \<and> s \<noteq> ''tool'' \<and> s \<noteq> ''hook'' \<and> s \<noteq> ''adjustment''"
  by (cases c) simp_all

lemma usage_cause_read: "usage_cause_of_fields (usage_cause_fields c) = Some c"
proof (cases c)
  case (GenerationUsage g r e n s)
  obtain t where t: "json_of_generation_cause g = JString t" "t \<noteq> ''tool''" "t \<noteq> ''hook''" "t \<noteq> ''adjustment''"
    using generation_cause_text by blast
  have "generation_cause_of_json (JString t) = Some g" using t(1) generation_cause_json [of g] by simp
  then show ?thesis using GenerationUsage t by (simp add: usage_cause_of_fields_def json_read)
qed (simp_all add: usage_cause_of_fields_def json_read)

lemma record_fields_read [simp]: "record_of_fields (record_fields r) = Some r"
proof -
  let ?base = "[(''id'', JString (r_id r)), (''seq'', json_nat (r_seq r)),
     (''lane'', JString (r_lane r)), (''timestamp'', json_int (r_timestamp r))]"
  have "record_body_of_fields (?base @ record_body_fields b) = Some b" for b
  proof (cases b)
    case (UsageRecord u c)
    have "usage_cause_of_fields (?base @ record_body_fields b) = usage_cause_of_fields (usage_cause_fields c)"
      using UsageRecord by (intro usage_cause_frame) (auto simp: map_get_append)
    then show ?thesis using UsageRecord usage_cause_read [of c] by (simp add: record_body_of_fields_def json_read)
  qed (simp_all add: record_body_of_fields_def step_attempt_of_json_def step_attempt_fields_def
      tool_start_of_json_def tool_start_fields_def json_read)
  then show ?thesis by (cases r) (simp add: record_of_fields_def record_fields_def json_read)
qed

end
