(* ===== verification/Jsonl_Codec.thy ===== *)
theory Jsonl_Codec
  imports Session_Json Session_State
begin

text \<open>
  The lines of a session file, \<^verbatim>\<open>packages/agent/src/harness/session/jsonl/codec.ts\<close>: the header
  and the mutations as JSON objects, one per line. The decoders check some properties and cast the
  object; an object that passes the checks without having the shape of its type is the outcome
  \<open>Unshaped\<close> of the model, which the program does not notice. Decoding a line inverts encoding it.
\<close>

section \<open>Decoding\<close>

datatype decode_error = SyntaxError | SchemaError | Unshaped

record jsonl_header =
  jh_id :: ident
  jh_createdAt :: int
  jh_cwd :: string
  jh_parentSessionId :: "ident option"
  jh_legacyParentSessionPath :: "string option"
  jh_metadata :: "json_fields option"

record jsonl_metadata = session_metadata +
  jm_cwd :: string
  jm_path :: string
  jm_modifiedAt :: rat
  jm_sourceFormat :: nat
  jm_legacyParentSessionPath :: "string option"
  jm_metadata :: "json_fields option"

definition entry_types :: "string list" where
  "entry_types = [''message'', ''model_change'', ''thinking_level_change'', ''active_tools_change'',
     ''compaction'', ''branch_summary'', ''custom'']"

definition record_types :: "string list" where
  "record_types = [''operation_started'', ''abort_requested'', ''operation_finished'', ''step_attempt'',
     ''tool_started'', ''queue_enqueued'', ''queue_cancelled'', ''write_deferred'', ''usage'']"

definition operation_kinds :: "string list" where
  "operation_kinds = [''run'', ''compaction'', ''navigation'']"

definition max_safe_integer :: int where
  "max_safe_integer = 9007199254740991"

fun parse_object_value :: "json \<Rightarrow> decode_error + json_fields" where
  "parse_object_value (JObject fs) = Inr fs"
| "parse_object_value _ = Inl SchemaError"

definition parseObject :: "string \<Rightarrow> decode_error + json_fields" where
  "parseObject line = (case json_parse line of None \<Rightarrow> Inl SyntaxError | Some v \<Rightarrow> parse_object_value v)"

fun requireString :: "json option \<Rightarrow> decode_error + string" where
  "requireString (Some (JString s)) = Inr s"
| "requireString _ = Inl SchemaError"

text \<open>\<^verbatim>\<open>Number.isSafeInteger\<close>.\<close>

fun safe_integer_of :: "json option \<Rightarrow> int option" where
  "safe_integer_of (Some (JNumber q)) =
     (if of_int \<lfloor>q\<rfloor> = q \<and> \<bar>\<lfloor>q\<rfloor>\<bar> \<le> max_safe_integer then Some \<lfloor>q\<rfloor> else None)"
| "safe_integer_of _ = None"

definition requireSequence :: "json option \<Rightarrow> decode_error + nat" where
  "requireSequence v =
     (case safe_integer_of v of
        None \<Rightarrow> Inl SchemaError
      | Some i \<Rightarrow> if i \<le> 0 then Inl SchemaError else Inr (nat i))"

definition requireTimestamp :: "json option \<Rightarrow> decode_error + int" where
  "requireTimestamp v =
     (case safe_integer_of v of
        None \<Rightarrow> Inl SchemaError
      | Some i \<Rightarrow> if i < 0 then Inl SchemaError else Inr i)"

fun requireNullableId :: "json option \<Rightarrow> decode_error + ident option" where
  "requireNullableId (Some JNull) = Inr None"
| "requireNullableId (Some (JString s)) = Inr (Some s)"
| "requireNullableId _ = Inl SchemaError"

text \<open>A property that may be absent and otherwise has to be a string.\<close>

fun optional_string :: "json option \<Rightarrow> decode_error + string option" where
  "optional_string None = Inr None"
| "optional_string (Some (JString s)) = Inr (Some s)"
| "optional_string _ = Inl SchemaError"

fun optional_object :: "json option \<Rightarrow> decode_error + json_fields option" where
  "optional_object None = Inr None"
| "optional_object (Some (JObject fs)) = Inr (Some fs)"
| "optional_object _ = Inl SchemaError"

definition decode_header_fields :: "json_fields \<Rightarrow> decode_error + jsonl_header" where
  "decode_header_fields fs =
     (if map_get fs ''kind'' \<noteq> Some (JString ''header'') then Inl SchemaError
      else if map_get fs ''version'' \<noteq> Some (JNumber 4) then Inl SchemaError
      else case optional_string (map_get fs ''parentSessionId'') of
        Inl e \<Rightarrow> Inl e
      | Inr parentSessionId \<Rightarrow>
     (case optional_string (map_get fs ''legacyParentSessionPath'') of
        Inl e \<Rightarrow> Inl e
      | Inr legacyParentSessionPath \<Rightarrow>
      if parentSessionId \<noteq> None \<and> legacyParentSessionPath \<noteq> None then Inl SchemaError
      else (case optional_object (map_get fs ''metadata'') of
        Inl e \<Rightarrow> Inl e
      | Inr metadata \<Rightarrow>
     (case requireString (map_get fs ''id'') of
        Inl e \<Rightarrow> Inl e
      | Inr i \<Rightarrow>
     (case requireTimestamp (map_get fs ''createdAt'') of
        Inl e \<Rightarrow> Inl e
      | Inr createdAt \<Rightarrow>
     (case requireString (map_get fs ''cwd'') of
        Inl e \<Rightarrow> Inl e
      | Inr cwd \<Rightarrow> Inr \<lparr>jh_id = i, jh_createdAt = createdAt, jh_cwd = cwd,
          jh_parentSessionId = parentSessionId, jh_legacyParentSessionPath = legacyParentSessionPath,
          jh_metadata = metadata\<rparr>))))))"

definition parseHeader :: "string \<Rightarrow> decode_error + jsonl_header" where
  "parseHeader line = (case parseObject line of Inl e \<Rightarrow> Inl e | Inr fs \<Rightarrow> decode_header_fields fs)"

definition header_fields :: "jsonl_header \<Rightarrow> json_fields" where
  "header_fields h = [(''kind'', JString ''header''), (''version'', JNumber 4), (''id'', JString (jh_id h)),
     (''createdAt'', json_int (jh_createdAt h)), (''cwd'', JString (jh_cwd h))] @
     opt_field ''parentSessionId'' JString (jh_parentSessionId h) @
     opt_field ''legacyParentSessionPath'' JString (jh_legacyParentSessionPath h) @
     opt_field ''metadata'' JObject (jh_metadata h)"

definition encodeHeader :: "jsonl_header \<Rightarrow> string" where
  "encodeHeader h = json_text (JObject (header_fields h)) @ [CHR 0x0A]"

definition metadataFromHeader :: "jsonl_header \<Rightarrow> string \<Rightarrow> rat \<Rightarrow> jsonl_metadata" where
  "metadataFromHeader h path modifiedAt =
     \<lparr>sm_id = jh_id h, sm_createdAt = jh_createdAt h, sm_parentSessionId = jh_parentSessionId h,
       jm_cwd = jh_cwd h, jm_path = path, jm_modifiedAt = modifiedAt, jm_sourceFormat = 4,
       jm_legacyParentSessionPath = jh_legacyParentSessionPath h, jm_metadata = jh_metadata h\<rparr>"

definition without_keys :: "string list \<Rightarrow> json_fields \<Rightarrow> json_fields" where
  "without_keys ks fs = filter (\<lambda>(k, v). k \<notin> set ks) fs"

definition parseEntryMutation :: "json_fields \<Rightarrow> nat \<Rightarrow> decode_error + session_mutation" where
  "parseEntryMutation fs seq =
     (case optional_string (map_get fs ''lane'') of
        Inl e \<Rightarrow> Inl e
      | Inr lane \<Rightarrow>
     (case requireString (map_get fs ''id'') of
        Inl e \<Rightarrow> Inl e
      | Inr i \<Rightarrow>
     (case requireString (map_get fs ''type'') of
        Inl e \<Rightarrow> Inl e
      | Inr ty \<Rightarrow>
      if ty \<notin> set entry_types then Inl SchemaError
      else (case requireNullableId (map_get fs ''parentId'') of
        Inl e \<Rightarrow> Inl e
      | Inr parentId \<Rightarrow>
     (case requireTimestamp (map_get fs ''timestamp'') of
        Inl e \<Rightarrow> Inl e
      | Inr timestamp \<Rightarrow>
     (case (if ty = ''custom'' then requireString (map_get fs ''customType'') else Inr []) of
        Inl e \<Rightarrow> Inl e
      | Inr _ \<Rightarrow>
     (case entry_payload_of_fields (without_keys [''kind'', ''lane''] fs) of
        None \<Rightarrow> Inl Unshaped
      | Some payload \<Rightarrow>
          Inr (EntryMutation lane \<lparr>e_id = i, e_seq = seq, e_parentId = parentId,
            e_timestamp = timestamp, e_payload = payload\<rparr>))))))))"

definition check_operation_kind :: "json option \<Rightarrow> decode_error + unit" where
  "check_operation_kind intent =
     (case optional_object intent of
        Inl e \<Rightarrow> Inl e
      | Inr None \<Rightarrow> Inl SchemaError
      | Inr (Some i) \<Rightarrow>
          (case requireString (map_get i ''kind'') of
             Inl e \<Rightarrow> Inl e
           | Inr k \<Rightarrow> if k \<in> set operation_kinds then Inr () else Inl SchemaError))"

definition parseRecordMutation :: "json_fields \<Rightarrow> nat \<Rightarrow> decode_error + session_mutation" where
  "parseRecordMutation fs seq =
     (case requireString (map_get fs ''id'') of
        Inl e \<Rightarrow> Inl e
      | Inr i \<Rightarrow>
     (case requireString (map_get fs ''lane'') of
        Inl e \<Rightarrow> Inl e
      | Inr lane \<Rightarrow>
     (case requireString (map_get fs ''type'') of
        Inl e \<Rightarrow> Inl e
      | Inr ty \<Rightarrow>
      if ty \<notin> set record_types then Inl SchemaError
      else (case requireTimestamp (map_get fs ''timestamp'') of
        Inl e \<Rightarrow> Inl e
      | Inr timestamp \<Rightarrow>
     (case (if ty = ''operation_started'' then check_operation_kind (map_get fs ''intent'') else Inr ()) of
        Inl e \<Rightarrow> Inl e
      | Inr _ \<Rightarrow>
     (case (if ty = ''operation_finished'' then requireString (map_get fs ''runId'') else Inr []) of
        Inl e \<Rightarrow> Inl e
      | Inr _ \<Rightarrow>
     (case record_body_of_fields (without_keys [''kind''] fs) of
        None \<Rightarrow> Inl Unshaped
      | Some body \<Rightarrow>
          Inr (RecordMutation \<lparr>r_id = i, r_seq = seq, r_lane = lane, r_timestamp = timestamp,
            r_body = body\<rparr>))))))))"

definition parseLaneMutation :: "json_fields \<Rightarrow> nat \<Rightarrow> decode_error + session_mutation" where
  "parseLaneMutation fs seq =
     (case requireString (map_get fs ''lane'') of
        Inl e \<Rightarrow> Inl e
      | Inr lane \<Rightarrow>
     (case requireNullableId (map_get fs ''leafId'') of
        Inl e \<Rightarrow> Inl e
      | Inr leafId \<Rightarrow> Inr (LaneMutation seq lane leafId)))"

definition parseFactMutation :: "json_fields \<Rightarrow> nat \<Rightarrow> decode_error + session_mutation" where
  "parseFactMutation fs seq =
     (if map_get fs ''fact'' = Some (JString ''name'') then
        (case optional_string (map_get fs ''name'') of
           Inl e \<Rightarrow> Inl e
         | Inr name \<Rightarrow> Inr (NameMutation seq name))
      else if map_get fs ''fact'' = Some (JString ''label'') then
        (case optional_string (map_get fs ''label'') of
           Inl e \<Rightarrow> Inl e
         | Inr label \<Rightarrow>
             (case requireString (map_get fs ''targetId'') of
                Inl e \<Rightarrow> Inl e
              | Inr targetId \<Rightarrow> Inr (LabelMutation seq targetId label)))
      else Inl SchemaError)"

definition decode_mutation_fields :: "json_fields \<Rightarrow> decode_error + session_mutation" where
  "decode_mutation_fields fs =
     (case requireSequence (map_get fs ''seq'') of
        Inl e \<Rightarrow> Inl e
      | Inr seq \<Rightarrow>
          if map_get fs ''kind'' = Some (JString ''entry'') then parseEntryMutation fs seq
          else if map_get fs ''kind'' = Some (JString ''record'') then parseRecordMutation fs seq
          else if map_get fs ''kind'' = Some (JString ''lane'') then parseLaneMutation fs seq
          else if map_get fs ''kind'' = Some (JString ''fact'') then parseFactMutation fs seq
          else Inl SchemaError)"

definition parseMutation :: "string \<Rightarrow> decode_error + session_mutation" where
  "parseMutation line = (case parseObject line of Inl e \<Rightarrow> Inl e | Inr fs \<Rightarrow> decode_mutation_fields fs)"

section \<open>Encoding\<close>

fun mutation_fields :: "session_mutation \<Rightarrow> json_fields" where
  "mutation_fields (EntryMutation lane e) =
     [(''kind'', JString ''entry'')] @ opt_field ''lane'' JString lane @ entry_fields e"
| "mutation_fields (RecordMutation r) = [(''kind'', JString ''record'')] @ record_fields r"
| "mutation_fields (LaneMutation n lane leafId) =
     [(''kind'', JString ''lane''), (''seq'', json_nat n), (''lane'', JString lane),
      (''leafId'', json_nullable leafId)]"
| "mutation_fields (NameMutation n name) =
     [(''kind'', JString ''fact''), (''seq'', json_nat n), (''fact'', JString ''name'')] @
     opt_field ''name'' JString name"
| "mutation_fields (LabelMutation n i label) =
     [(''kind'', JString ''fact''), (''seq'', json_nat n), (''fact'', JString ''label''),
      (''targetId'', JString i)] @ opt_field ''label'' JString label"

definition mutation_text :: "session_mutation \<Rightarrow> string" where
  "mutation_text m = json_text (JObject (mutation_fields m))"

definition encodeMutation :: "session_mutation \<Rightarrow> string" where
  "encodeMutation m = mutation_text m @ [CHR 0x0A]"

section \<open>Lines read back\<close>

fun mutation_timestamp :: "session_mutation \<Rightarrow> int" where
  "mutation_timestamp (EntryMutation _ e) = e_timestamp e"
| "mutation_timestamp (RecordMutation r) = r_timestamp r"
| "mutation_timestamp _ = 0"

text \<open>
  What a line can hold: numbers of the program, objects with distinct keys, a sequence number and a
  timestamp that are safe integers.
\<close>

definition storable :: "session_mutation \<Rightarrow> bool" where
  "storable m \<longleftrightarrow> json_ok (JObject (mutation_fields m)) \<and> 0 < mutation_seq m \<and>
     int (mutation_seq m) \<le> max_safe_integer \<and>
     0 \<le> mutation_timestamp m \<and> mutation_timestamp m \<le> max_safe_integer"

definition storable_header :: "jsonl_header \<Rightarrow> bool" where
  "storable_header h \<longleftrightarrow> json_ok (JObject (header_fields h)) \<and> 0 \<le> jh_createdAt h \<and>
     jh_createdAt h \<le> max_safe_integer \<and>
     (jh_parentSessionId h = None \<or> jh_legacyParentSessionPath h = None)"

lemma require_simps [simp]:
  "0 < n \<Longrightarrow> int n \<le> max_safe_integer \<Longrightarrow> requireSequence (Some (json_nat n)) = Inr n"
  "0 \<le> i \<Longrightarrow> i \<le> max_safe_integer \<Longrightarrow> requireTimestamp (Some (json_int i)) = Inr i"
  "requireNullableId (Some (json_nullable x)) = Inr x"
  "optional_string (map_option JString x) = Inr x"
  "optional_object (map_option JObject y) = Inr y"
  by (cases x; cases y; simp add: requireSequence_def requireTimestamp_def json_nat_def json_int_def
      json_nullable_def)+

lemma parseObject_text: "json_ok (JObject fs) \<Longrightarrow> parseObject (json_text (JObject fs)) = Inr fs"
  by (simp add: parseObject_def json_parse_text del: json_text.simps)

lemma parseHeader_encoded:
  assumes "storable_header h"
  shows "parseHeader (json_text (JObject (header_fields h))) = Inr h"
proof -
  have ok: "json_ok (JObject (header_fields h))" "0 \<le> jh_createdAt h" "jh_createdAt h \<le> max_safe_integer"
      "jh_parentSessionId h = None \<or> jh_legacyParentSessionPath h = None"
    using assms by (simp_all add: storable_header_def)
  have "map_get (header_fields h) ''parentSessionId'' = map_option JString (jh_parentSessionId h)"
      "map_get (header_fields h) ''legacyParentSessionPath'' = map_option JString (jh_legacyParentSessionPath h)"
      "map_get (header_fields h) ''metadata'' = map_option JObject (jh_metadata h)"
    by (simp_all add: header_fields_def map_get_append split: option.splits)
  moreover have "map_get (header_fields h) ''kind'' = Some (JString ''header'')"
      "map_get (header_fields h) ''version'' = Some (JNumber 4)"
      "map_get (header_fields h) ''id'' = Some (JString (jh_id h))"
      "map_get (header_fields h) ''createdAt'' = Some (json_int (jh_createdAt h))"
      "map_get (header_fields h) ''cwd'' = Some (JString (jh_cwd h))"
    by (simp_all add: header_fields_def)
  ultimately have "decode_header_fields (header_fields h) = Inr h"
    using ok(2-4) by (cases h) (auto simp: decode_header_fields_def)
  then show ?thesis using ok(1) by (simp add: parseHeader_def parseObject_text del: json_text.simps)
qed

lemma map_get_without: "map_get (without_keys ks fs) k = (if k \<in> set ks then None else map_get fs k)"
  by (induction fs) (auto simp: without_keys_def split: if_splits)

lemma payload_type_field:
  "\<exists>ty. map_get (entry_payload_fields p) ''type'' = Some (JString ty) \<and> ty \<in> set entry_types \<and>
     (ty = ''custom'' \<longrightarrow> (\<exists>c. map_get (entry_payload_fields p) ''customType'' = Some (JString c)))"
  by (cases p) (simp_all add: entry_types_def)

lemma parse_entry_encoded:
  assumes "0 \<le> e_timestamp e" "e_timestamp e \<le> max_safe_integer"
  shows "parseEntryMutation (mutation_fields (EntryMutation lane e)) (e_seq e) = Inr (EntryMutation lane e)"
proof -
  let ?fs = "mutation_fields (EntryMutation lane e)"
  obtain ty where ty: "map_get (entry_payload_fields (e_payload e)) ''type'' = Some (JString ty)"
      "ty \<in> set entry_types"
      "ty = ''custom'' \<Longrightarrow> \<exists>c. map_get (entry_payload_fields (e_payload e)) ''customType'' = Some (JString c)"
    using payload_type_field by blast
  have base: "map_get ?fs ''id'' = Some (JString (e_id e))"
      "map_get ?fs ''parentId'' = Some (json_nullable (e_parentId e))"
      "map_get ?fs ''timestamp'' = Some (json_int (e_timestamp e))"
      "map_get ?fs ''type'' = Some (JString ty)"
      "map_get ?fs ''customType'' = map_get (entry_payload_fields (e_payload e)) ''customType''"
    using ty(1) by (auto simp: entry_fields_def map_get_append split: option.splits)
  have lane: "map_get ?fs ''lane'' = map_option JString lane"
    by (cases "e_payload e"; cases lane) (simp_all add: entry_fields_def map_get_append terminate_field_def)
  have "entry_payload_of_fields (without_keys [''kind'', ''lane''] ?fs) =
      entry_payload_of_fields (entry_payload_fields (e_payload e))"
    by (rule payload_frame)
      (auto simp: payload_keys_def map_get_without entry_fields_def map_get_append split: option.splits)
  then show ?thesis using base lane ty assms
    by (cases e) (auto simp: parseEntryMutation_def)
qed


lemma body_type_field:
  "\<exists>ty. map_get (record_body_fields b) ''type'' = Some (JString ty) \<and> ty \<in> set record_types \<and>
     (ty = ''operation_started'' \<longrightarrow> check_operation_kind (map_get (record_body_fields b) ''intent'') = Inr ()) \<and>
     (ty = ''operation_finished'' \<longrightarrow> (\<exists>r. map_get (record_body_fields b) ''runId'' = Some (JString r)))"
proof (cases b)
  case (OperationStarted src i)
  have "\<exists>fs k. json_of_operation_intent i = JObject fs \<and> map_get fs ''kind'' = Some (JString k) \<and> k \<in> set operation_kinds"
    by (cases i) (simp_all add: json_of_operation_intent_def operation_kinds_def)
  then show ?thesis using OperationStarted
    by (auto simp: record_types_def check_operation_kind_def)
qed (simp_all add: record_types_def)

lemma body_frame:
  assumes "\<And>k. k \<noteq> ''kind'' \<Longrightarrow> map_get fs k = map_get gs k"
  shows "record_body_of_fields fs = record_body_of_fields gs"
proof -
  have "usage_cause_of_fields fs = usage_cause_of_fields gs" by (rule usage_cause_frame) (auto intro: assms)
  then show ?thesis
    using assms by (simp add: record_body_of_fields_def req_def opt_def step_attempt_of_json_def tool_start_of_json_def
      cong: if_cong)
qed

lemma parse_record_encoded:
  assumes "0 \<le> r_timestamp r" "r_timestamp r \<le> max_safe_integer"
  shows "parseRecordMutation (mutation_fields (RecordMutation r)) (r_seq r) = Inr (RecordMutation r)"
proof -
  let ?fs = "mutation_fields (RecordMutation r)" and ?b = "record_body_fields (r_body r)"
  obtain ty where ty: "map_get ?b ''type'' = Some (JString ty)" "ty \<in> set record_types"
      "ty = ''operation_started'' \<Longrightarrow> check_operation_kind (map_get ?b ''intent'') = Inr ()"
      "ty = ''operation_finished'' \<Longrightarrow> \<exists>i. map_get ?b ''runId'' = Some (JString i)"
    using body_type_field by blast
  have base: "map_get ?fs ''id'' = Some (JString (r_id r))" "map_get ?fs ''lane'' = Some (JString (r_lane r))"
      "map_get ?fs ''timestamp'' = Some (json_int (r_timestamp r))" "map_get ?fs ''type'' = Some (JString ty)"
      "map_get ?fs ''intent'' = map_get ?b ''intent''" "map_get ?fs ''runId'' = map_get ?b ''runId''"
    using ty(1) by (simp_all add: record_fields_def)
  have "record_body_of_fields (without_keys [''kind''] ?fs) = record_body_of_fields (record_fields r)"
    by (rule body_frame) (simp add: map_get_without)
  then have "record_body_of_fields (without_keys [''kind''] ?fs) = Some (r_body r)"
    using record_fields_read [of r] by (auto simp: record_of_fields_def bind_eq_Some_conv)
  then show ?thesis using base ty assms by (cases r) (auto simp: parseRecordMutation_def)
qed

lemma decode_encoded:
  assumes "0 < mutation_seq m" "int (mutation_seq m) \<le> max_safe_integer"
    and "0 \<le> mutation_timestamp m" "mutation_timestamp m \<le> max_safe_integer"
  shows "decode_mutation_fields (mutation_fields m) = Inr m"
proof (cases m)
  case (EntryMutation lane e)
  have "map_get (mutation_fields m) ''seq'' = Some (json_nat (e_seq e))"
      "map_get (mutation_fields m) ''kind'' = Some (JString ''entry'')"
    using EntryMutation by (simp_all add: entry_fields_def map_get_append)
  then show ?thesis using EntryMutation assms parse_entry_encoded [of e lane]
    by (simp add: decode_mutation_fields_def del: mutation_fields.simps)
next
  case (RecordMutation r)
  have "map_get (mutation_fields m) ''seq'' = Some (json_nat (r_seq r))"
      "map_get (mutation_fields m) ''kind'' = Some (JString ''record'')"
    using RecordMutation by (simp_all add: record_fields_def)
  then show ?thesis using RecordMutation assms parse_record_encoded [of r]
    by (simp add: decode_mutation_fields_def del: mutation_fields.simps)
next
  case (LaneMutation n lane leafId)
  then show ?thesis using assms by (simp add: decode_mutation_fields_def parseLaneMutation_def)
next
  case (NameMutation n name)
  then show ?thesis using assms by (simp add: decode_mutation_fields_def parseFactMutation_def)
next
  case (LabelMutation n i label)
  then show ?thesis using assms by (simp add: decode_mutation_fields_def parseFactMutation_def)
qed

lemma parseMutation_text: "storable m \<Longrightarrow> parseMutation (mutation_text m) = Inr m"
  using decode_encoded [of m]
  by (simp add: parseMutation_def mutation_text_def storable_def parseObject_text del: json_text.simps)

lemma mutation_text_no_newline: "CHR 0x0A \<notin> set (mutation_text m)"
  by (simp only: mutation_text_def json_text_no_newline not_False_eq_True)

lemma mutation_text_nonempty: "mutation_text m \<noteq> []"
  by (simp add: mutation_text_def)

text \<open>A torn line is a syntax error.\<close>

lemma torn_line:
  assumes "storable m" "mutation_text m = p @ t" "t \<noteq> []"
  shows "parseMutation p = Inl SyntaxError"
  using object_prefix_unparsed [of "mutation_fields m" p t] assms
  by (simp add: parseMutation_def parseObject_def mutation_text_def storable_def del: json_text.simps json_ok.simps)

lemma doubled_brace: "parseMutation (CHR ''{'' # mutation_text m) = Inl SyntaxError"
proof -
  have "\<exists>t. mutation_text m = CHR ''{'' # t" by (simp add: mutation_text_def)
  then obtain t where t: "mutation_text m = CHR ''{'' # t" by blast
  have "read_members n (CHR ''{'' # t) = None" for n
    by (cases n) (simp_all add: member_step_def read_key_def is_space_def)
  then have "read_value n (CHR ''{'' # CHR ''{'' # t) = None" for n
    by (cases n) (simp_all add: value_step_def value_at_def is_space_def)
  then show ?thesis using t by (simp add: parseMutation_def parseObject_def json_parse_def del: read_value.simps)
qed

end
