(* ===== verification/Jsonl_Storage.thy ===== *)
theory Jsonl_Storage
  imports Jsonl_Codec Session_Memory
begin

text \<open>
  The session file, \<^verbatim>\<open>packages/agent/src/harness/session/jsonl/storage.ts\<close>: a header line
  and one line per mutation. A write validates, appends its line and only then changes the state in
  memory; loading replays the lines, drops a torn last line by publishing the valid prefix
  atomically, and ends an unterminated last line. The file system is a parameter: a record of
  operations on an abstract state, as the interface \<^verbatim>\<open>FileSystem\<close> of
  \<^verbatim>\<open>harness/types.ts\<close> has them; what its documentation promises is the predicate \<open>file_laws\<close>.
  The queue \<open>enqueue\<close> runs the writes of one storage one after the other, which is the order in
  which they are composed here. Storage over any file system keeps the contract \<open>session_storage\<close>.
\<close>

section \<open>The file system\<close>

type_synonym path = string

datatype file_error = FileAborted | FileNotFound | PermissionDenied | NotDirectory | IsDirectory
  | FileInvalid | NotSupported | FileUnknown

datatype file_kind = RegularFile | Directory | Symlink

record file_info =
  fi_name :: string
  fi_path :: path
  fi_kind :: file_kind
  fi_size :: nat
  fi_mtimeMs :: rat

record 'f file_ops =
  fo_absolutePath :: "'f \<Rightarrow> path \<Rightarrow> file_error + path"
  fo_joinPath :: "'f \<Rightarrow> path list \<Rightarrow> file_error + path"
  fo_readTextFile :: "'f \<Rightarrow> path \<Rightarrow> file_error + string"
  fo_readTextLines :: "'f \<Rightarrow> path \<Rightarrow> nat \<Rightarrow> file_error + string list"
  fo_writeFile :: "'f \<Rightarrow> path \<Rightarrow> string \<Rightarrow> 'f \<times> (file_error + unit)"
  fo_appendFile :: "'f \<Rightarrow> path \<Rightarrow> string \<Rightarrow> 'f \<times> (file_error + unit)"
  fo_renameFile :: "'f \<Rightarrow> path \<Rightarrow> path \<Rightarrow> 'f \<times> (file_error + unit)"
  fo_fileInfo :: "'f \<Rightarrow> path \<Rightarrow> file_error + file_info"
  fo_listDir :: "'f \<Rightarrow> path \<Rightarrow> file_error + file_info list"
  fo_exists :: "'f \<Rightarrow> path \<Rightarrow> file_error + bool"
  fo_createDir :: "'f \<Rightarrow> path \<Rightarrow> 'f \<times> (file_error + unit)"
  fo_remove :: "'f \<Rightarrow> path \<Rightarrow> 'f \<times> (file_error + unit)"

definition fileResult :: "file_error + 'a \<Rightarrow> session_error + 'a" where
  "fileResult r =
     (case r of Inl e \<Rightarrow> Inl (if e = FileNotFound then NotFound else StorageError) | Inr v \<Rightarrow> Inr v)"

definition publishFileAtomically ::
    "'f file_ops \<Rightarrow> 'f \<Rightarrow> path \<Rightarrow> ('f \<Rightarrow> path \<Rightarrow> 'f \<times> (session_error + unit)) \<Rightarrow>
     'f \<times> (session_error + unit)" where
  "publishFileAtomically ops f destinationPath populate =
     (let tempPath = destinationPath @ ''.tmp''
      in case populate f tempPath of
           (f1, Inl e) \<Rightarrow> (fst (fo_remove ops f1 tempPath), Inl e)
         | (f1, Inr _) \<Rightarrow>
             (case fo_renameFile ops f1 tempPath destinationPath of (f2, r) \<Rightarrow>
                (case fileResult r of
                   Inl e \<Rightarrow> (fst (fo_remove ops f2 tempPath), Inl e)
                 | Inr _ \<Rightarrow> (f2, Inr ()))))"

section \<open>Storage\<close>

record jsonl_storage =
  jl_metadata :: jsonl_metadata
  jl_state :: session_state

definition new_jsonl_storage :: "jsonl_metadata \<Rightarrow> jsonl_storage" where
  "new_jsonl_storage metadata = \<lparr>jl_metadata = metadata, jl_state = new_session_state\<rparr>"

abbreviation storage_path :: "jsonl_storage \<Rightarrow> path" where
  "storage_path st \<equiv> jm_path (jl_metadata st)"

definition jsonl_create ::
    "'f file_ops \<Rightarrow> 'f \<Rightarrow> path \<Rightarrow> jsonl_header \<Rightarrow> 'f \<times> (session_error + jsonl_storage)" where
  "jsonl_create ops f path header =
     (case fo_writeFile ops f path (encodeHeader header) of (f1, r) \<Rightarrow>
        (case fileResult r of
           Inl e \<Rightarrow> (f1, Inl e)
         | Inr _ \<Rightarrow>
             (case fileResult (fo_fileInfo ops f1 path) of
                Inl e \<Rightarrow> (f1, Inl e)
              | Inr fileInfo \<Rightarrow>
                  (f1, Inr (new_jsonl_storage (metadataFromHeader header path (fi_mtimeMs fileInfo)))))))"

text \<open>\<^verbatim>\<open>content.split("\n")\<close>, and the lines without an empty last one.\<close>

fun split_lines :: "string \<Rightarrow> string list" where
  "split_lines [] = [[]]"
| "split_lines (c # s) =
     (if c = CHR 0x0A then [] # split_lines s
      else (case split_lines s of [] \<Rightarrow> [[c]] | l # ls \<Rightarrow> (c # l) # ls))"

definition physical_lines :: "string \<Rightarrow> string list" where
  "physical_lines content =
     (let ls = split_lines content in if last ls = [] then butlast ls else ls)"

fun join_lines :: "string list \<Rightarrow> string" where
  "join_lines [] = []"
| "join_lines [l] = l"
| "join_lines (l # m # ls) = l @ CHR 0x0A # join_lines (m # ls)"

datatype load_error = LoadFailed session_error | LineNotShaped

datatype load_progress = AllLoaded session_state | TornTail session_state | LoadStopped load_error

fun load_lines :: "session_state \<Rightarrow> string list \<Rightarrow> load_progress" where
  "load_lines s [] = AllLoaded s"
| "load_lines s (line # ls) =
     (case parseMutation line of
        Inl e \<Rightarrow>
          if ls = [] \<and> e = SyntaxError then TornTail s
          else if e = Unshaped then LoadStopped LineNotShaped
          else LoadStopped (LoadFailed InvalidEntry)
      | Inr m \<Rightarrow>
          (case applyMutation s m of
             Inl e \<Rightarrow> LoadStopped (LoadFailed e)
           | Inr s' \<Rightarrow> load_lines s' ls))"

definition stage_file ::
    "'f file_ops \<Rightarrow> string \<Rightarrow> 'f \<Rightarrow> path \<Rightarrow> 'f \<times> (session_error + unit)" where
  "stage_file ops content f tempPath =
     (case fo_writeFile ops f tempPath content of (f1, r) \<Rightarrow> (f1, fileResult r))"

definition load_result :: "session_error + unit \<Rightarrow> jsonl_storage \<Rightarrow> load_error + jsonl_storage" where
  "load_result r storage = (case r of Inl e \<Rightarrow> Inl (LoadFailed e) | Inr _ \<Rightarrow> Inr storage)"

definition jsonl_load :: "'f file_ops \<Rightarrow> 'f \<Rightarrow> path \<Rightarrow> 'f \<times> (load_error + jsonl_storage)" where
  "jsonl_load ops f path =
     (case fileResult (fo_readTextFile ops f path) of
        Inl e \<Rightarrow> (f, Inl (LoadFailed e))
      | Inr content \<Rightarrow>
          (let lines = physical_lines content
           in if lines = [] \<or> hd lines = [] then (f, Inl (LoadFailed InvalidEntry))
              else (case parseHeader (hd lines) of
                Inl _ \<Rightarrow> (f, Inl (LoadFailed InvalidEntry))
              | Inr header \<Rightarrow>
                  (case fileResult (fo_fileInfo ops f path) of
                     Inl e \<Rightarrow> (f, Inl (LoadFailed e))
                   | Inr fileInfo \<Rightarrow>
                       (let storage = new_jsonl_storage (metadataFromHeader header path (fi_mtimeMs fileInfo))
                        in case load_lines (jl_state storage) (tl lines) of
                             LoadStopped e \<Rightarrow> (f, Inl e)
                           | TornTail s \<Rightarrow>
                               (case publishFileAtomically ops f path
                                   (stage_file ops (join_lines (butlast lines) @ [CHR 0x0A])) of (f1, r) \<Rightarrow>
                                  (f1, load_result r (storage\<lparr>jl_state := s\<rparr>)))
                           | AllLoaded s \<Rightarrow>
                               if last content = CHR 0x0A then (f, Inr (storage\<lparr>jl_state := s\<rparr>))
                               else (case fo_appendFile ops f path [CHR 0x0A] of (f1, r) \<Rightarrow>
                                  (f1, load_result (fileResult r) (storage\<lparr>jl_state := s\<rparr>))))))))"

text \<open>\<open>appendMutation\<close> followed by \<open>applyMutation\<close>: the line is on disk before the state changes.\<close>

type_synonym 'f jsonl = "'f \<times> jsonl_storage"

definition appendMutation ::
    "'f file_ops \<Rightarrow> 'f \<Rightarrow> jsonl_storage \<Rightarrow> session_mutation \<Rightarrow> 'f \<times> (session_error + unit)" where
  "appendMutation ops f st m =
     (case fo_appendFile ops f (storage_path st) (encodeMutation m) of (f1, r) \<Rightarrow> (f1, fileResult r))"

definition append_and_apply ::
    "'f file_ops \<Rightarrow> 'f jsonl \<Rightarrow> session_mutation \<Rightarrow> 'f jsonl \<times> (session_error + unit)" where
  "append_and_apply ops s m =
     (case s of (f, st) \<Rightarrow>
        (case appendMutation ops f st m of
           (f1, Inl e) \<Rightarrow> ((f1, st), Inl e)
         | (f1, Inr _) \<Rightarrow>
             (case applyMutation (jl_state st) m of
                Inl e \<Rightarrow> ((f1, st), Inl e)
              | Inr t \<Rightarrow> ((f1, st\<lparr>jl_state := t\<rparr>), Inr ()))))"

definition jsonl_createLane ::
    "'f file_ops \<Rightarrow> 'f jsonl \<Rightarrow> lane_name \<Rightarrow> ident option \<Rightarrow> 'f jsonl \<times> (session_error + unit)" where
  "jsonl_createLane ops s lane leaf =
     (let state = jl_state (snd s)
      in case validateNewLane state lane of
           Inl e \<Rightarrow> (s, Inl e)
         | Inr _ \<Rightarrow>
             (case validateTarget state leaf of
                Inl e \<Rightarrow> (s, Inl e)
              | Inr _ \<Rightarrow> append_and_apply ops s (LaneMutation (nextSequence state) lane leaf)))"

definition jsonl_moveLane ::
    "'f file_ops \<Rightarrow> 'f jsonl \<Rightarrow> lane_name \<Rightarrow> ident option \<Rightarrow> 'f jsonl \<times> (session_error + unit)" where
  "jsonl_moveLane ops s lane dest =
     (let state = jl_state (snd s)
      in case requireLane state lane of
           Inl e \<Rightarrow> (s, Inl e)
         | Inr _ \<Rightarrow>
             (case validateTarget state dest of
                Inl e \<Rightarrow> (s, Inl e)
              | Inr _ \<Rightarrow> append_and_apply ops s (LaneMutation (nextSequence state) lane dest)))"

definition jsonl_appendEntry ::
    "'f file_ops \<Rightarrow> 'f jsonl \<Rightarrow> provisioned_entry \<Rightarrow> lane_name \<Rightarrow> int \<Rightarrow> 'f jsonl \<times> (session_error + entry)" where
  "jsonl_appendEntry ops s newEntry lane now =
     (let state = jl_state (snd s)
      in case requireLane state lane of
           Inl e \<Rightarrow> (s, Inl e)
         | Inr parentId \<Rightarrow>
             (case validateUnusedId state (p_id newEntry) of
                Inl e \<Rightarrow> (s, Inl e)
              | Inr _ \<Rightarrow>
                  (let entry = \<lparr>e_id = p_id newEntry, e_seq = nextSequence state, e_parentId = parentId,
                         e_timestamp = now, e_payload = p_payload newEntry\<rparr>
                   in case append_and_apply ops s (EntryMutation (Some lane) entry) of
                        (s', Inl e) \<Rightarrow> (s', Inl e)
                      | (s', Inr _) \<Rightarrow> (s', Inr entry))))"

definition jsonl_appendRecord ::
    "'f file_ops \<Rightarrow> 'f jsonl \<Rightarrow> new_record \<Rightarrow> int \<Rightarrow> 'f jsonl \<times> (session_error + lane_record)" where
  "jsonl_appendRecord ops s newRecord now =
     (let state = jl_state (snd s)
      in case requireLane state (nr_lane newRecord) of
           Inl e \<Rightarrow> (s, Inl e)
         | Inr _ \<Rightarrow>
             (case validateUnusedId state (nr_id newRecord) of
                Inl e \<Rightarrow> (s, Inl e)
              | Inr _ \<Rightarrow>
                  (case findOpenOperations state (nr_lane newRecord) (Some (JsInt 1)) of
                     Inl e \<Rightarrow> (s, Inl e)
                   | Inr openOps \<Rightarrow>
                       if is_operation_start (nr_body newRecord) \<and> openOps \<noteq> [] then (s, Inl StorageError)
                       else
                         (let record = \<lparr>r_id = nr_id newRecord, r_seq = nextSequence state,
                                r_lane = nr_lane newRecord, r_timestamp = now, r_body = nr_body newRecord\<rparr>
                          in case append_and_apply ops s (RecordMutation record) of
                               (s', Inl e) \<Rightarrow> (s', Inl e)
                             | (s', Inr _) \<Rightarrow> (s', Inr record)))))"

definition jsonl_setName ::
    "'f file_ops \<Rightarrow> 'f jsonl \<Rightarrow> string option \<Rightarrow> 'f jsonl \<times> (session_error + unit)" where
  "jsonl_setName ops s name = append_and_apply ops s (NameMutation (nextSequence (jl_state (snd s))) name)"

definition jsonl_setLabel ::
    "'f file_ops \<Rightarrow> 'f jsonl \<Rightarrow> ident \<Rightarrow> string option \<Rightarrow> 'f jsonl \<times> (session_error + unit)" where
  "jsonl_setLabel ops s i label =
     (let state = jl_state (snd s)
      in case validateTarget state (Some i) of
           Inl e \<Rightarrow> (s, Inl e)
         | Inr _ \<Rightarrow> append_and_apply ops s (LabelMutation (nextSequence state) i label))"

fun fork_loop ::
    "'f file_ops \<Rightarrow> 'f jsonl \<Rightarrow> session_mutation list \<Rightarrow> 'f \<times> (session_error + unit)" where
  "fork_loop ops s [] = (fst s, Inr ())"
| "fork_loop ops s (m # ms) =
     (case append_and_apply ops s m of
        (s', Inl e) \<Rightarrow> (fst s', Inl e)
      | (s', Inr _) \<Rightarrow> fork_loop ops s' ms)"

definition populate_fork ::
    "'f file_ops \<Rightarrow> jsonl_header \<Rightarrow> session_mutation list \<Rightarrow> 'f \<Rightarrow> path \<Rightarrow> 'f \<times> (session_error + unit)" where
  "populate_fork ops header ms f tempPath =
     (case jsonl_create ops f tempPath header of
        (f1, Inl e) \<Rightarrow> (f1, Inl e)
      | (f1, Inr target) \<Rightarrow> fork_loop ops (f1, target) ms)"

definition jsonl_fork ::
    "'f file_ops \<Rightarrow> 'f jsonl \<Rightarrow> path \<Rightarrow> jsonl_header \<Rightarrow> fork_options \<Rightarrow>
     'f \<times> (load_error + jsonl_storage)" where
  "jsonl_fork ops s path header opts =
     (case createForkMutations (jl_state (snd s)) opts of
        Inl e \<Rightarrow> (fst s, Inl (LoadFailed e))
      | Inr ms \<Rightarrow>
          (case publishFileAtomically ops (fst s) path (populate_fork ops header ms) of
             (f1, Inl e) \<Rightarrow> (f1, Inl (LoadFailed e))
           | (f1, Inr _) \<Rightarrow> jsonl_load ops f1 path))"

section \<open>Writes as steps\<close>

definition done_of :: "'s \<times> (session_error + 'a) \<Rightarrow> session_error + 's" where
  "done_of r = (case r of (s, Inl e) \<Rightarrow> Inl e | (s, Inr _) \<Rightarrow> Inr s)"

fun jsonl_store :: "'f file_ops \<Rightarrow> 'f jsonl \<Rightarrow> storage_write \<Rightarrow> session_error + 'f jsonl" where
  "jsonl_store ops s (CreateLane lane leaf) = done_of (jsonl_createLane ops s lane leaf)"
| "jsonl_store ops s (MoveLane lane dest) = done_of (jsonl_moveLane ops s lane dest)"
| "jsonl_store ops s (AppendEntry e lane now) = done_of (jsonl_appendEntry ops s e lane now)"
| "jsonl_store ops s (AppendRecord r now) = done_of (jsonl_appendRecord ops s r now)"
| "jsonl_store ops s (SetName name) = done_of (jsonl_setName ops s name)"
| "jsonl_store ops s (SetLabel i label) = done_of (jsonl_setLabel ops s i label)"

definition jsonl_view :: "'f jsonl \<Rightarrow> session_state" where
  "jsonl_view s = jl_state (snd s)"

lemma append_and_apply_done:
  "done_of (append_and_apply ops s m) = Inr s' \<longleftrightarrow>
     (\<exists>t. applyMutation (jsonl_view s) m = Inr t \<and> snd s' = (snd s)\<lparr>jl_state := t\<rparr> \<and>
        appendMutation ops (fst s) (snd s) m = (fst s', Inr ()))"
  by (cases s; cases s') (auto simp: done_of_def append_and_apply_def jsonl_view_def split: prod.splits sum.splits)

lemma done_of_map: "done_of (case p of (s', Inl e) \<Rightarrow> (s', Inl e) | (s', Inr _) \<Rightarrow> (s', Inr x)) = done_of p"
  by (cases p) (simp add: done_of_def split: sum.splits)

lemma done_of_Inl [simp]: "done_of (s, Inl e) = Inl e"
  by (simp add: done_of_def)

text \<open>An accepted write appended the expected line and applied the expected mutation.\<close>

lemma jsonl_store_expected:
  assumes "jsonl_store ops s w = Inr s'"
  shows "done_of (append_and_apply ops s (expected_mutation (jsonl_view s) w)) = Inr s'"
proof (cases w)
  case (AppendEntry p lane now)
  then show ?thesis using assms
    by (auto simp: jsonl_appendEntry_def Let_def jsonl_view_def done_of_map requireLane_def split: sum.splits option.splits)
next
  case (AppendRecord r now)
  then show ?thesis using assms
    by (auto simp: jsonl_appendRecord_def Let_def jsonl_view_def done_of_map split: sum.splits if_splits)
qed (use assms in \<open>auto simp: jsonl_createLane_def jsonl_moveLane_def jsonl_setName_def jsonl_setLabel_def
    Let_def jsonl_view_def split: sum.splits\<close>)

section \<open>The storage contract\<close>

lemma jsonl_start_needs_idle:
  assumes "wf_state (jsonl_view s)" "jsonl_store ops s (AppendRecord r now) = Inr s'"
    "is_operation_start (nr_body r)"
  shows "open_operations (nr_lane r) (ss_records (jsonl_view s)) = []"
proof (rule idle_lane [OF assms(1)])
  show "findOpenOperations (jsonl_view s) (nr_lane r) (Some (JsInt 1)) = Inr []"
    using assms(2,3)
    by (auto simp: jsonl_appendRecord_def Let_def jsonl_view_def findOpenOperations_first
        split: sum.splits if_splits)
qed

interpretation jsonl: session_storage jsonl_view "jsonl_store ops" for ops :: "'f file_ops"
proof (unfold_locales, goal_cases)
  case (1 s w s')
  from jsonl_store_expected [OF 1] show ?case
    by (auto simp: append_and_apply_done jsonl_view_def)
next
  case (2 s r now s')
  then show ?case by (rule jsonl_start_needs_idle)
qed

section \<open>What the file system promises\<close>

text \<open>
  \<open>content f p\<close> is the text of the file at \<open>p\<close>. A successful operation does what its
  documentation says; an operation on a file never touches another one, a failed append leaves some
  beginning of its text, and a rename is atomic: it has happened or it has not.
\<close>

definition appended :: "string option \<Rightarrow> string \<Rightarrow> string option" where
  "appended old t = Some ((case old of None \<Rightarrow> [] | Some c \<Rightarrow> c) @ t)"

definition file_laws :: "'f file_ops \<Rightarrow> ('f \<Rightarrow> path \<Rightarrow> string option) \<Rightarrow> bool" where
  "file_laws ops content \<longleftrightarrow>
     (\<forall>f p c. fo_readTextFile ops f p = Inr c \<longrightarrow> content f p = Some c) \<and>
     (\<forall>f p t f' r. fo_writeFile ops f p t = (f', r) \<longrightarrow>
        (\<forall>q. q \<noteq> p \<longrightarrow> content f' q = content f q) \<and> (r = Inr () \<longrightarrow> content f' p = Some t)) \<and>
     (\<forall>f p t f' r. fo_appendFile ops f p t = (f', r) \<longrightarrow>
        (\<forall>q. q \<noteq> p \<longrightarrow> content f' q = content f q) \<and>
        (r = Inr () \<longrightarrow> content f' p = appended (content f p) t) \<and>
        (content f' p = content f p \<or> (\<exists>k. content f' p = appended (content f p) (take k t)))) \<and>
     (\<forall>f p q f' r. fo_renameFile ops f p q = (f', r) \<longrightarrow>
        content f' = (if r = Inr () then (content f)(q := content f p, p := None) else content f)) \<and>
     (\<forall>f p f' r. fo_remove ops f p = (f', r) \<longrightarrow> (\<forall>q. q \<noteq> p \<longrightarrow> content f' q = content f q))"

lemma laws_read: "file_laws ops content \<Longrightarrow> fo_readTextFile ops f p = Inr c \<Longrightarrow> content f p = Some c"
  by (simp add: file_laws_def)

lemma laws_write:
  assumes "file_laws ops content" "fo_writeFile ops f p t = (f', r)"
  shows "q \<noteq> p \<Longrightarrow> content f' q = content f q" "r = Inr () \<Longrightarrow> content f' p = Some t"
  using assms by (auto simp: file_laws_def)

lemma laws_append:
  assumes "file_laws ops content" "fo_appendFile ops f p t = (f', r)"
  shows "q \<noteq> p \<Longrightarrow> content f' q = content f q" "r = Inr () \<Longrightarrow> content f' p = appended (content f p) t"
    "content f' p = content f p \<or> (\<exists>k. content f' p = appended (content f p) (take k t))"
  using assms unfolding file_laws_def by blast+

lemma laws_rename:
  assumes "file_laws ops content" "fo_renameFile ops f p q = (f', r)"
  shows "content f' = (if r = Inr () then (content f)(q := content f p, p := None) else content f)"
  using assms unfolding file_laws_def by blast

lemma laws_remove:
  assumes "file_laws ops content" "q \<noteq> p"
  shows "content (fst (fo_remove ops f p)) q = content f q"
  using assms unfolding file_laws_def by (metis prod.collapse)

section \<open>Lines of a file\<close>

definition file_text :: "jsonl_header \<Rightarrow> session_mutation list \<Rightarrow> string" where
  "file_text h ms = encodeHeader h @ concat (map encodeMutation ms)"

lemma split_lines_nonempty: "split_lines s \<noteq> []"
  by (induction s) (auto split: list.splits)

lemma split_lines_line: "CHR 0x0A \<notin> set l \<Longrightarrow> split_lines (l @ CHR 0x0A # s) = l # split_lines s"
  by (induction l) auto

lemma split_lines_end: "CHR 0x0A \<notin> set l \<Longrightarrow> split_lines l = [l]"
  by (induction l) auto

abbreviation header_text :: "jsonl_header \<Rightarrow> string" where
  "header_text h \<equiv> json_text (JObject (header_fields h))"

lemma split_mutations:
  "split_lines (concat (map encodeMutation ms) @ s) = map mutation_text ms @ split_lines s"
  by (induction ms) (simp_all add: encodeMutation_def split_lines_line mutation_text_no_newline)

lemma split_file: "split_lines (file_text h ms @ s) = header_text h # map mutation_text ms @ split_lines s"
  using json_text_no_newline [of "JObject (header_fields h)"]
  by (simp add: file_text_def encodeHeader_def split_lines_line split_mutations del: json_text.simps)

lemma physical_lines_file: "physical_lines (file_text h ms) = header_text h # map mutation_text ms"
  using split_file [of h ms "[]"] by (simp add: physical_lines_def Let_def butlast_append del: json_text.simps)

lemma physical_lines_torn:
  "p \<noteq> [] \<Longrightarrow> CHR 0x0A \<notin> set p \<Longrightarrow>
     physical_lines (file_text h ms @ p) = header_text h # map mutation_text ms @ [p]"
  using split_file [of h ms p] by (simp add: physical_lines_def Let_def split_lines_end del: json_text.simps)

lemma join_file: "join_lines (header_text h # map mutation_text ms) @ [CHR 0x0A] = file_text h ms"
proof -
  have "join_lines (l # map mutation_text ms) @ [CHR 0x0A] = l @ CHR 0x0A # concat (map encodeMutation ms)" for l
    by (induction ms arbitrary: l) (simp_all add: encodeMutation_def)
  then show ?thesis by (simp add: file_text_def encodeHeader_def del: json_text.simps)
qed

lemma file_text_last: "last (file_text h ms) = CHR 0x0A" "file_text h ms \<noteq> []"
  by (cases ms rule: rev_cases) (simp_all add: file_text_def encodeHeader_def encodeMutation_def)

lemma load_lines_replay:
  assumes "\<forall>m \<in> set ms. storable m" "for_each applyMutation s ms = Inr s'"
  shows "load_lines s (map mutation_text ms @ rest) = load_lines s' rest"
  using assms
proof (induction ms arbitrary: s)
  case (Cons m ms)
  then obtain t where "applyMutation s m = Inr t" "for_each applyMutation t ms = Inr s'"
    by (auto split: sum.splits)
  then show ?case using Cons by (simp add: parseMutation_text)
qed simp

text \<open>Loading a file whose lines are a header, replayable mutations and perhaps a torn line.\<close>

definition loaded_storage :: "jsonl_header \<Rightarrow> path \<Rightarrow> file_info \<Rightarrow> session_state \<Rightarrow> jsonl_storage" where
  "loaded_storage h path info s =
     \<lparr>jl_metadata = metadataFromHeader h path (fi_mtimeMs info), jl_state = s\<rparr>"

lemma header_text_nonempty: "header_text h \<noteq> []"
  by simp

lemma load_complete:
  assumes "fo_readTextFile ops f path = Inr (file_text h ms)" "fo_fileInfo ops f path = Inr info"
    and "storable_header h" "\<forall>m \<in> set ms. storable m" "for_each applyMutation new_session_state ms = Inr s"
  shows "jsonl_load ops f path = (f, Inr (loaded_storage h path info s))"
  using assms load_lines_replay [OF assms(4,5), of "[]"]
  by (simp add: jsonl_load_def fileResult_def physical_lines_file Let_def parseHeader_encoded
      new_jsonl_storage_def loaded_storage_def file_text_last header_text_nonempty del: json_text.simps)

section \<open>Writes reach the file\<close>

text \<open>The writes whose data a line can hold; ids, names, lanes and labels are strings and always fit.\<close>

fun write_ok :: "storage_write \<Rightarrow> bool" where
  "write_ok (AppendEntry p lane now) \<longleftrightarrow>
     json_ok (JObject (entry_payload_fields (p_payload p))) \<and> 0 \<le> now \<and> now \<le> max_safe_integer"
| "write_ok (AppendRecord r now) \<longleftrightarrow>
     json_ok (JObject (record_body_fields (nr_body r))) \<and> 0 \<le> now \<and> now \<le> max_safe_integer"
| "write_ok _ \<longleftrightarrow> True"

lemma json_ok_int [simp]: "json_ok (json_int i)"
proof -
  have "\<bar>of_int i\<bar> = Fract \<bar>i\<bar> 1" by (simp add: Fract_of_int_eq)
  then have "quotient_of \<bar>of_int i\<bar> = (\<bar>i\<bar>, 1)" by (simp add: quotient_of_Fract normalize_def)
  then show ?thesis by (simp add: json_int_def decimal_form_def decimal_scale.simps)
qed

lemma json_ok_nat [simp]: "json_ok (json_nat n)"
  by (simp add: json_nat_def)

lemma json_ok_nullable [simp]: "json_ok (json_nullable x)"
  by (simp add: json_nullable_def split: option.splits)

lemma json_ok_append:
  "json_ok (JObject (xs @ ys)) \<longleftrightarrow>
     json_ok (JObject xs) \<and> json_ok (JObject ys) \<and> fst ` set xs \<inter> fst ` set ys = {}"
  by auto

lemma opt_field_keys [simp]: "fst ` set (opt_field k f x) = (if x = None then {} else {k})"
  by (cases x) (simp_all add: opt_field_def)

lemma json_ok_opt_string [simp]: "json_ok (JObject (opt_field k JString x))"
  by (simp add: opt_field_def split: option.splits)

lemma payload_field_names:
  "fst ` set (entry_payload_fields p) \<inter> {''kind'', ''lane'', ''id'', ''seq'', ''parentId'', ''timestamp''} = {}"
  by (cases p) (auto simp: terminate_field_def opt_field_def split: option.splits if_splits)

lemma body_field_names:
  "fst ` set (record_body_fields b) \<inter> {''kind'', ''lane'', ''id'', ''seq'', ''timestamp''} = {}"
proof (cases b)
  case (UsageRecord u c)
  then show ?thesis by (cases c) (auto simp: opt_field_def split: option.splits)
qed (auto simp: step_attempt_fields_def tool_start_fields_def opt_field_def split: option.splits)

lemma json_ok_entry_line:
  assumes "json_ok (JObject (entry_payload_fields (e_payload e)))"
  shows "json_ok (JObject (mutation_fields (EntryMutation lane e)))"
proof -
  have "json_ok (JObject (((''kind'', JString ''entry'') # opt_field ''lane'' JString lane @
      [(''id'', JString (e_id e)), (''seq'', json_nat (e_seq e)),
       (''parentId'', json_nullable (e_parentId e)), (''timestamp'', json_int (e_timestamp e))]) @
      entry_payload_fields (e_payload e)))"
    unfolding json_ok_append using assms payload_field_names [of "e_payload e"]
    by (cases lane) (auto simp: opt_field_def)
  then show ?thesis by (simp only: mutation_fields.simps entry_fields_def append_assoc append_Cons append_Nil)
qed

lemma json_ok_record_line:
  assumes "json_ok (JObject (record_body_fields (r_body r)))"
  shows "json_ok (JObject (mutation_fields (RecordMutation r)))"
proof -
  have "json_ok (JObject ([(''kind'', JString ''record''), (''id'', JString (r_id r)),
      (''seq'', json_nat (r_seq r)), (''lane'', JString (r_lane r)),
      (''timestamp'', json_int (r_timestamp r))] @ record_body_fields (r_body r)))"
    unfolding json_ok_append using assms body_field_names [of "r_body r"] by auto
  then show ?thesis by (simp only: mutation_fields.simps record_fields_def append_assoc append_Cons append_Nil)
qed

lemma storable_expected:
  assumes "write_ok w" "int (nextSequence s) \<le> max_safe_integer"
  shows "storable (expected_mutation s w)"
proof -
  have n: "0 < nextSequence s" by (simp add: nextSequence_def)
  have m: "0 \<le> max_safe_integer" by (simp add: max_safe_integer_def)
  show ?thesis
  proof (cases w)
    case (AppendEntry p lane now)
    then show ?thesis using assms n m unfolding storable_def
      by (intro conjI) (simp_all add: json_ok_entry_line del: mutation_fields.simps json_ok.simps)
  next
    case (AppendRecord r now)
    then show ?thesis using assms n m unfolding storable_def
      by (intro conjI) (simp_all add: json_ok_record_line del: mutation_fields.simps json_ok.simps)
  qed (use assms n m in \<open>auto simp: storable_def opt_field_def split: option.splits\<close>)
qed

lemma applyMutation_sequence: "applyMutation s m = Inr s' \<Longrightarrow> ss_sequence s' = Suc (ss_sequence s)"
  by (cases m) (auto simp: applyMutation_def split: if_splits)

text \<open>The file of a storage: a header and the mutations that lead to the state in memory.\<close>

definition file_matches ::
    "('f \<Rightarrow> path \<Rightarrow> string option) \<Rightarrow> jsonl_header \<Rightarrow> 'f jsonl \<Rightarrow> session_mutation list \<Rightarrow> bool" where
  "file_matches content h s ms \<longleftrightarrow>
     content (fst s) (storage_path (snd s)) = Some (file_text h ms) \<and> (\<forall>m \<in> set ms. storable m) \<and>
     for_each applyMutation new_session_state ms = Inr (jsonl_view s)"

lemma append_matches:
  assumes laws: "file_laws ops content" and inv: "file_matches content h s ms"
    and m: "storable m" "done_of (append_and_apply ops s m) = Inr s'"
  shows "file_matches content h s' (ms @ [m]) \<and>
    jl_metadata (snd s') = jl_metadata (snd s) \<and> applyMutation (jsonl_view s) m = Inr (jsonl_view s')"
proof -
  from m(2) obtain t where t: "applyMutation (jsonl_view s) m = Inr t" "snd s' = (snd s)\<lparr>jl_state := t\<rparr>"
      "appendMutation ops (fst s) (snd s) m = (fst s', Inr ())"
    unfolding append_and_apply_done by blast
  obtain r where r: "fo_appendFile ops (fst s) (storage_path (snd s)) (encodeMutation m) = (fst s', r)" "r = Inr ()"
    using t(3) by (auto simp: appendMutation_def fileResult_def split: prod.splits sum.splits)
  have "content (fst s') (storage_path (snd s)) = Some (file_text h (ms @ [m]))"
    using laws_append(2) [OF laws r] inv by (simp add: file_matches_def appended_def file_text_def)
  then show ?thesis using inv m(1) t(1,2)
    by (auto simp: file_matches_def jsonl_view_def for_each_append split: sum.splits)
qed

lemma create_matches:
  assumes "file_laws ops content" "jsonl_create ops f path h = (f', Inr st)"
  shows "file_matches content h (f', st) [] \<and>
    (\<exists>info. fo_fileInfo ops f' path = Inr info \<and> st = loaded_storage h path info new_session_state)"
proof -
  obtain info where c: "fo_writeFile ops f path (encodeHeader h) = (f', Inr ())" "fo_fileInfo ops f' path = Inr info"
      "st = new_jsonl_storage (metadataFromHeader h path (fi_mtimeMs info))"
    using assms(2) by (auto simp: jsonl_create_def fileResult_def split: prod.splits sum.splits if_splits)
  then show ?thesis using laws_write(2) [OF assms(1) c(1)]
    by (simp add: file_matches_def file_text_def jsonl_view_def new_jsonl_storage_def loaded_storage_def
        metadataFromHeader_def)
qed

lemma writes_match:
  assumes laws: "file_laws ops content"
  shows "file_matches content h s ms \<Longrightarrow> \<forall>w \<in> set ws. write_ok w \<Longrightarrow>
    int (ss_sequence (jsonl_view s) + length ws) \<le> max_safe_integer \<Longrightarrow>
    for_each (jsonl_store ops) s ws = Inr s' \<Longrightarrow>
    \<exists>ms'. file_matches content h s' (ms @ ms') \<and> jl_metadata (snd s') = jl_metadata (snd s)"
proof (induction ws arbitrary: s ms)
  case Nil
  then show ?case by (auto intro: exI [of _ "[]"])
next
  case (Cons w ws)
  then obtain u where u: "jsonl_store ops s w = Inr u" "for_each (jsonl_store ops) u ws = Inr s'"
    by (auto split: sum.splits)
  let ?m = "expected_mutation (jsonl_view s) w"
  have "storable ?m" using Cons.prems(2,3) by (intro storable_expected) (simp_all add: nextSequence_def)
  from append_matches [OF laws Cons.prems(1) this jsonl_store_expected [OF u(1)]]
  have step: "file_matches content h u (ms @ [?m])" "jl_metadata (snd u) = jl_metadata (snd s)"
      "applyMutation (jsonl_view s) ?m = Inr (jsonl_view u)" by blast+
  have "ss_sequence (jsonl_view u) = Suc (ss_sequence (jsonl_view s))"
    using step(3) by (rule applyMutation_sequence)
  then obtain ms' where "file_matches content h s' ((ms @ [?m]) @ ms') \<and> jl_metadata (snd s') = jl_metadata (snd u)"
    using Cons.IH [OF step(1) _ _ u(2)] Cons.prems(2,3) by auto
  then show ?case using step(2) by (intro exI [of _ "?m # ms'"]) simp
qed

section \<open>Repairing a torn tail\<close>

lemma fileResult_cases:
  "fileResult r = Inr v \<longleftrightarrow> r = Inr v" "fileResult r = Inl e \<Longrightarrow> e \<in> {NotFound, StorageError}"
  by (auto simp: fileResult_def split: sum.splits if_splits)

lemma publish_outcome:
  assumes laws: "file_laws ops content"
    and p: "publishFileAtomically ops f path (stage_file ops t) = (f', r)"
  shows "r = Inr () \<and> content f' path = Some t \<or>
    (\<exists>e. r = Inl e \<and> e \<in> {NotFound, StorageError} \<and> content f' path = content f path)"
proof -
  let ?tmp = "path @ ''.tmp''"
  obtain f1 r1 where w: "fo_writeFile ops f ?tmp t = (f1, r1)" by fastforce
  obtain f2 r2 where n: "fo_renameFile ops f1 ?tmp path = (f2, r2)" by fastforce
  have keep: "content f1 path = content f path" using laws_write(1) [OF laws w] by simp
  have rm: "content (fst (fo_remove ops g ?tmp)) path = content g path" for g
    using laws_remove [OF laws, of path ?tmp] by simp
  show ?thesis
  proof (cases "fileResult r1")
    case (Inl e)
    then have "f' = fst (fo_remove ops f1 ?tmp)" "r = Inl e"
      using p w by (simp_all add: publishFileAtomically_def stage_file_def Let_def)
    then show ?thesis using rm [of f1] keep fileResult_cases(2) [OF Inl] by simp
  next
    case Inr1: (Inr u)
    then have r1: "r1 = Inr ()" by (simp add: fileResult_cases(1))
    show ?thesis
    proof (cases "fileResult r2")
      case (Inl e)
      then have f': "f' = fst (fo_remove ops f2 ?tmp)" "r = Inl e"
        using p w n r1 Inr1 by (simp_all add: publishFileAtomically_def stage_file_def Let_def)
      have "r2 \<noteq> Inr ()" using Inl by (auto simp: fileResult_def)
      then have "content f2 = content f1" using laws_rename [OF laws n] by simp
      then show ?thesis using f' rm [of f2] keep fileResult_cases(2) [OF Inl] by simp
    next
      case (Inr v)
      then have r2: "r2 = Inr ()" by (simp add: fileResult_cases(1))
      have "f' = f2" "r = Inr ()"
        using p w n Inr1 Inr by (simp_all add: publishFileAtomically_def stage_file_def Let_def)
      then show ?thesis using laws_rename [OF laws n] r2 laws_write(2) [OF laws w r1] by simp
    qed
  qed
qed

lemma last_torn: "p \<noteq> [] \<Longrightarrow> CHR 0x0A \<notin> set p \<Longrightarrow> last (t @ p) \<noteq> CHR 0x0A"
  by (metis last_appendR last_in_set)

lemma load_unterminated:
  assumes laws: "file_laws ops content"
    and disk: "fo_readTextFile ops f path = Inr (file_text h ms @ mutation_text m)" "fo_fileInfo ops f path = Inr info"
    and ok: "storable_header h" "\<forall>m \<in> set (ms @ [m]). storable m"
      "for_each applyMutation new_session_state (ms @ [m]) = Inr s'"
    and load: "jsonl_load ops f path = (f', r)"
  shows "r = Inr (loaded_storage h path info s') \<and> content f' path = Some (file_text h (ms @ [m])) \<or>
    (\<exists>e. r = Inl (LoadFailed e) \<and> e \<in> {NotFound, StorageError} \<and>
       (content f' path = content f path \<or> content f' path = Some (file_text h (ms @ [m]))))"
proof -
  have c: "content f path = Some (file_text h ms @ mutation_text m)" using laws_read [OF laws disk(1)] .
  obtain f1 r1 where a: "fo_appendFile ops f path [CHR 0x0A] = (f1, r1)" by fastforce
  have lines: "physical_lines (file_text h ms @ mutation_text m) = header_text h # map mutation_text (ms @ [m])"
    using physical_lines_torn [OF mutation_text_nonempty mutation_text_no_newline] by simp
  have "load_lines new_session_state (map mutation_text (ms @ [m]) @ []) = load_lines s' []"
    by (rule load_lines_replay [OF ok(2,3)])
  then have res: "f' = f1" "r = load_result (fileResult r1) (loaded_storage h path info s')"
    using load disk a ok(1) last_torn [OF mutation_text_nonempty [of m] mutation_text_no_newline, of "file_text h ms"]
    by (simp_all add: jsonl_load_def fileResult_def lines Let_def parseHeader_encoded
        new_jsonl_storage_def loaded_storage_def header_text_nonempty del: json_text.simps)
  have whole: "appended (content f path) [CHR 0x0A] = Some (file_text h (ms @ [m]))"
    using c by (simp add: appended_def file_text_def encodeMutation_def)
  show ?thesis
  proof (cases "fileResult r1")
    case (Inr u)
    then have "r1 = Inr ()" by (simp add: fileResult_cases(1))
    then show ?thesis using res laws_append(2) [OF laws a] whole by (simp add: load_result_def fileResult_def)
  next
    case (Inl e)
    have "content f1 path = content f path \<or> content f1 path = Some (file_text h (ms @ [m]))"
    proof -
      consider "content f1 path = content f path" | k where "content f1 path = appended (content f path) (take k [CHR 0x0A])"
        using laws_append(3) [OF laws a] by blast
      then show ?thesis
      proof cases
        case (2 k)
        then show ?thesis using whole c by (cases k) (simp_all add: appended_def)
      qed simp
    qed
    then show ?thesis using res Inl fileResult_cases(2) [OF Inl] by (auto simp: load_result_def)
  qed
qed

lemma physical_lines_terminated:
  "p \<noteq> [] \<Longrightarrow> CHR 0x0A \<notin> set p \<Longrightarrow>
     physical_lines (file_text h ms @ p @ [CHR 0x0A]) = header_text h # map mutation_text ms @ [p]"
  using split_file [of h ms "p @ [CHR 0x0A]"] split_lines_line [of p "[]"]
  by (simp add: physical_lines_def Let_def butlast_append del: json_text.simps)

lemma load_torn_repair:
  assumes disk: "fo_readTextFile ops f path = Inr c" "fo_fileInfo ops f path = Inr info"
    and c: "c = file_text h ms @ p \<or> c = file_text h ms @ p @ [CHR 0x0A]"
    and p: "parseMutation p = Inl SyntaxError" "p \<noteq> []" "CHR 0x0A \<notin> set p"
    and ok: "storable_header h" "\<forall>m \<in> set ms. storable m" "for_each applyMutation new_session_state ms = Inr s"
    and pub: "publishFileAtomically ops f path (stage_file ops (file_text h ms)) = (f1, r1)"
  shows "jsonl_load ops f path = (f1, load_result r1 (loaded_storage h path info s))"
proof -
  have lines: "physical_lines c = header_text h # map mutation_text ms @ [p]"
    using c physical_lines_torn [OF p(2,3)] physical_lines_terminated [OF p(2,3)] by auto
  have "load_lines new_session_state (map mutation_text ms @ [p]) = load_lines s [p]"
    by (rule load_lines_replay [OF ok(2,3)])
  then have torn: "load_lines new_session_state (map mutation_text ms @ [p]) = TornTail s" using p(1) by simp
  have prefix: "join_lines (butlast (header_text h # map mutation_text ms @ [p])) @ [CHR 0x0A] = file_text h ms"
    using join_file [of h ms] by (simp add: butlast_append del: json_text.simps)
  show ?thesis
    using disk ok(1) torn pub prefix
    by (simp add: jsonl_load_def fileResult_def lines Let_def parseHeader_encoded
        new_jsonl_storage_def loaded_storage_def header_text_nonempty del: json_text.simps)
qed

lemma load_torn:
  assumes laws: "file_laws ops content"
    and disk: "fo_readTextFile ops f path = Inr c" "fo_fileInfo ops f path = Inr info"
    and c: "c = file_text h ms @ p \<or> c = file_text h ms @ p @ [CHR 0x0A]"
    and p: "parseMutation p = Inl SyntaxError" "p \<noteq> []" "CHR 0x0A \<notin> set p"
    and ok: "storable_header h" "\<forall>m \<in> set ms. storable m" "for_each applyMutation new_session_state ms = Inr s"
    and load: "jsonl_load ops f path = (f', r)"
  shows "r = Inr (loaded_storage h path info s) \<and> content f' path = Some (file_text h ms) \<or>
    (\<exists>e. r = Inl (LoadFailed e) \<and> e \<in> {NotFound, StorageError} \<and> content f' path = content f path)"
proof -
  obtain f1 r1 where pub: "publishFileAtomically ops f path (stage_file ops (file_text h ms)) = (f1, r1)" by fastforce
  from load_torn_repair [OF disk c p ok pub] load
  have "f' = f1" "r = load_result r1 (loaded_storage h path info s)" by simp_all
  then show ?thesis using publish_outcome [OF laws pub] by (auto simp: load_result_def)
qed

section \<open>A file system in memory\<close>

text \<open>
  An instance of the parameter: files by path, and optionally one append that is torn after its
  first character, as on a full disk.
\<close>

record disk =
  dk_files :: "(path, string) js_map"
  dk_torn :: "nat option" \<comment> \<open>the number of appends before the one that is torn\<close>

definition disk_content :: "disk \<Rightarrow> path \<Rightarrow> string option" where
  "disk_content d p = map_get (dk_files d) p"

definition disk_put :: "disk \<Rightarrow> path \<Rightarrow> string \<Rightarrow> disk" where
  "disk_put d p t = d\<lparr>dk_files := map_set (dk_files d) p t\<rparr>"

definition disk_old :: "disk \<Rightarrow> path \<Rightarrow> string" where
  "disk_old d p = (case disk_content d p of None \<Rightarrow> [] | Some c \<Rightarrow> c)"

definition disk_append :: "disk \<Rightarrow> path \<Rightarrow> string \<Rightarrow> disk \<times> (file_error + unit)" where
  "disk_append d p t =
     (case dk_torn d of
        None \<Rightarrow> (disk_put d p (disk_old d p @ t), Inr ())
      | Some 0 \<Rightarrow> ((disk_put d p (disk_old d p @ take 1 t))\<lparr>dk_torn := None\<rparr>, Inl FileUnknown)
      | Some (Suc n) \<Rightarrow> ((disk_put d p (disk_old d p @ t))\<lparr>dk_torn := Some n\<rparr>, Inr ()))"

definition disk_info :: "path \<Rightarrow> string \<Rightarrow> file_info" where
  "disk_info p c = \<lparr>fi_name = rev (takeWhile (\<lambda>x. x \<noteq> CHR ''/'') (rev p)), fi_path = p,
     fi_kind = RegularFile, fi_size = length c, fi_mtimeMs = 0\<rparr>"

definition disk_ops :: "disk file_ops" where
  "disk_ops = \<lparr>fo_absolutePath = (\<lambda>d p. Inr p),
     fo_joinPath = (\<lambda>d ps. Inr (concat (map (\<lambda>p. CHR ''/'' # p) ps))),
     fo_readTextFile = (\<lambda>d p. case disk_content d p of None \<Rightarrow> Inl FileNotFound | Some c \<Rightarrow> Inr c),
     fo_readTextLines = (\<lambda>d p n. case disk_content d p of
        None \<Rightarrow> Inl FileNotFound | Some c \<Rightarrow> Inr (take n (physical_lines c))),
     fo_writeFile = (\<lambda>d p t. (disk_put d p t, Inr ())),
     fo_appendFile = disk_append,
     fo_renameFile = (\<lambda>d p q. case disk_content d p of
        None \<Rightarrow> (d, Inl FileNotFound)
      | Some c \<Rightarrow> (let e = disk_put d q c in e\<lparr>dk_files := map_remove (dk_files e) p\<rparr>, Inr ())),
     fo_fileInfo = (\<lambda>d p. case disk_content d p of None \<Rightarrow> Inl FileNotFound | Some c \<Rightarrow> Inr (disk_info p c)),
     fo_listDir = (\<lambda>d p. Inr [disk_info q c. (q, c) \<leftarrow> dk_files d, take (Suc (length p)) q = p @ ''/'']),
     fo_exists = (\<lambda>d p. Inr (\<exists>(q, c) \<in> set (dk_files d). take (length p) q = p)),
     fo_createDir = (\<lambda>d p. (d, Inr ())),
     fo_remove = (\<lambda>d p. (d\<lparr>dk_files := map_remove (dk_files d) p\<rparr>, Inr ()))\<rparr>"

lemma disk_put_content [simp]: "disk_content (disk_put d p t) q = (if q = p then Some t else disk_content d q)"
  by (simp add: disk_content_def disk_put_def)

lemma disk_torn_content [simp]: "disk_content (d\<lparr>dk_torn := n\<rparr>) q = disk_content d q"
  by (simp add: disk_content_def)

lemma disk_append_content:
  assumes "disk_append d p t = (d', r)"
  shows "q \<noteq> p \<Longrightarrow> disk_content d' q = disk_content d q"
    "r = Inr () \<Longrightarrow> disk_content d' p = appended (disk_content d p) t"
    "\<exists>k. disk_content d' p = appended (disk_content d p) (take k t)"
proof -
  show "q \<noteq> p \<Longrightarrow> disk_content d' q = disk_content d q"
      "r = Inr () \<Longrightarrow> disk_content d' p = appended (disk_content d p) t"
    using assms by (auto simp: disk_append_def disk_old_def appended_def split: option.splits nat.splits)
  have "disk_content d' p = appended (disk_content d p) (take (if r = Inr () then length t else 1) t)"
    using assms by (auto simp: disk_append_def disk_old_def appended_def split: option.splits nat.splits)
  then show "\<exists>k. disk_content d' p = appended (disk_content d p) (take k t)" by blast
qed

lemma disk_laws: "file_laws disk_ops disk_content"
  unfolding file_laws_def
proof (intro conjI allI impI, goal_cases)
  case (4 f p t f' r q)
  then show ?case using disk_append_content(1) by (simp add: disk_ops_def)
next
  case (5 f p t f' r)
  then show ?case using disk_append_content(2) by (simp add: disk_ops_def)
next
  case (6 f p t f' r)
  then show ?case using disk_append_content(3) by (simp add: disk_ops_def)
next
  case (7 f p q f' r)
  then show ?case
    by (auto simp: disk_ops_def disk_content_def disk_put_def fun_eq_iff Let_def split: option.splits)
qed (auto simp: disk_ops_def disk_content_def disk_put_def split: option.splits)

section \<open>A session on that disk\<close>

definition demo_jsonl_header :: jsonl_header where
  "demo_jsonl_header = \<lparr>jh_id = ''s1'', jh_createdAt = 1, jh_cwd = ''/w'', jh_parentSessionId = None,
     jh_legacyParentSessionPath = None, jh_metadata = None\<rparr>"

definition demo_disk :: "nat option \<Rightarrow> disk" where
  "demo_disk torn = \<lparr>dk_files = [], dk_torn = torn\<rparr>"

definition demo_jsonl_write :: storage_write where
  "demo_jsonl_write = AppendEntry \<lparr>p_id = ''a'', p_payload = CustomPayload ''t'' (Some (json_int 2))\<rparr> ''main'' 5"

definition demo_created :: "nat option \<Rightarrow> disk jsonl" where
  "demo_created torn =
     (disk_put (demo_disk torn) ''f'' (encodeHeader demo_jsonl_header),
      new_jsonl_storage (metadataFromHeader demo_jsonl_header ''f'' 0))"

lemma demo_create: "jsonl_create disk_ops (demo_disk torn) ''f'' demo_jsonl_header =
    (fst (demo_created torn), Inr (snd (demo_created torn)))"
  by (simp add: jsonl_create_def disk_ops_def fileResult_def demo_created_def disk_info_def)

lemma demo_header_storable: "storable_header demo_jsonl_header"
  using json_ok_int [of 4] json_ok_int [of 1]
  by (simp add: storable_header_def demo_jsonl_header_def header_fields_def opt_field_def
      max_safe_integer_def json_int_def)

lemma demo_write_ok: "write_ok demo_jsonl_write"
  by (simp add: demo_jsonl_write_def opt_field_def max_safe_integer_def)

lemma demo_store:
  assumes "\<And>t. fo_appendFile ops f ''f'' t = (g t, Inr ())" "st = snd (demo_created torn)"
  shows "\<exists>f' st'. jsonl_store ops (f, st) demo_jsonl_write = Inr (f', st') \<and> (\<exists>t. f' = g t) \<and>
    storage_path st' = ''f'' \<and> length (ss_entries (jl_state st')) = 1"
  using assms
  by (auto simp: demo_jsonl_write_def jsonl_appendEntry_def demo_created_def new_jsonl_storage_def
      append_and_apply_def appendMutation_def fileResult_def done_of_def requireLane_def validateUnusedId_def
      new_session_state_def main_lane_def metadataFromHeader_def applyMutation_def nextSequence_def Let_def)

definition demo_name :: session_mutation where
  "demo_name = NameMutation 1 (Some ''n'')"

lemma demo_name_storable: "storable demo_name"
  by (simp add: storable_def demo_name_def opt_field_def max_safe_integer_def)

definition demo_torn_disk :: disk where
  "demo_torn_disk = \<lparr>dk_files = [(''f'', file_text demo_jsonl_header [] @ ''{'')], dk_torn = None\<rparr>"

lemma disk_publish: "snd (publishFileAtomically disk_ops d p (stage_file disk_ops t)) = Inr ()"
  by (simp add: publishFileAtomically_def stage_file_def disk_ops_def fileResult_def Let_def)

lemma brace_torn: "parseMutation ''{'' = Inl SyntaxError"
  by (simp add: parseMutation_def parseObject_def json_parse_def value_step_def value_at_def is_space_def
      member_not_closed eval_nat_numeral)

lemma disk_torn_loads:
  assumes "fo_readTextFile disk_ops d p = Inr c" "fo_fileInfo disk_ops d p = Inr info"
    and "c = file_text h ms @ q \<or> c = file_text h ms @ q @ [CHR 0x0A]"
    and "parseMutation q = Inl SyntaxError" "q \<noteq> []" "CHR 0x0A \<notin> set q"
    and "storable_header h" "\<forall>m \<in> set ms. storable m" "for_each applyMutation new_session_state ms = Inr s"
  shows "\<exists>d' st. jsonl_load disk_ops d p = (d', Inr st)"
proof -
  obtain f1 where "publishFileAtomically disk_ops d p (stage_file disk_ops (file_text h ms)) = (f1, Inr ())"
    using disk_publish [of d p "file_text h ms"] by (metis prod.collapse)
  from load_torn_repair [OF assms this] show ?thesis by (simp add: load_result_def)
qed

section \<open>Properties\<close>

text \<open>
  C30. A session survives a restart. After a file was created and any sequence of writes was
  acknowledged, loading the file returns, without touching it, the storage that was in memory:
  the same entries, records, lanes, open operations, name, labels, statistics and log, and the same
  metadata but for the modification time, which is read from the file system.
\<close>

theorem reload_restores_session:
  assumes laws: "file_laws ops content" and header: "storable_header h"
    and create: "jsonl_create ops f path h = (f1, Inr st1)"
    and writes: "for_each (jsonl_store ops) (f1, st1) ws = Inr (f2, st2)"
    and data: "\<forall>w \<in> set ws. write_ok w" "int (length ws) \<le> max_safe_integer"
    and readable: "fo_readTextFile ops f2 path = Inr c" "fo_fileInfo ops f2 path = Inr info"
  shows "jsonl_load ops f2 path =
    (f2, Inr \<lparr>jl_metadata = (jl_metadata st2)\<lparr>jm_modifiedAt := fi_mtimeMs info\<rparr>, jl_state = jl_state st2\<rparr>)"
proof -
  obtain i1 where st1: "file_matches content h (f1, st1) []" "st1 = loaded_storage h path i1 new_session_state"
    using create_matches [OF laws create] by blast
  have "int (ss_sequence (jsonl_view (f1, st1)) + length ws) \<le> max_safe_integer"
    using data(2) st1(2) by (simp add: jsonl_view_def loaded_storage_def new_session_state_def)
  then obtain ms where ms: "file_matches content h (f2, st2) ms" "jl_metadata st2 = jl_metadata st1"
    using writes_match [OF laws st1(1) data(1) _ writes] by auto
  have meta: "jl_metadata st2 = metadataFromHeader h path (fi_mtimeMs i1)"
    using ms(2) st1(2) by (simp add: loaded_storage_def)
  have "content f2 path = Some (file_text h ms)" "\<forall>m \<in> set ms. storable m"
      "for_each applyMutation new_session_state ms = Inr (jl_state st2)"
    using ms(1) meta by (auto simp: file_matches_def jsonl_view_def metadataFromHeader_def)
  then have "jsonl_load ops f2 path = (f2, Inr (loaded_storage h path info (jl_state st2)))"
    using readable laws_read [OF laws readable(1)] header by (intro load_complete) simp_all
  then show ?thesis using meta by (simp add: loaded_storage_def metadataFromHeader_def)
qed

theorem reload_restores_session_witness:
  "\<exists>f2 st2. for_each (jsonl_store disk_ops) (demo_created None) [demo_jsonl_write] = Inr (f2, st2) \<and>
     length (ss_entries (jl_state st2)) = 1 \<and>
     (\<exists>meta. jsonl_load disk_ops f2 ''f'' = (f2, Inr \<lparr>jl_metadata = meta, jl_state = jl_state st2\<rparr>))"
proof -
  let ?f1 = "fst (demo_created None)" and ?st1 = "snd (demo_created None)"
  have append: "fo_appendFile disk_ops ?f1 ''f'' t = (disk_put ?f1 ''f'' (disk_old ?f1 ''f'' @ t), Inr ())" for t
    by (simp add: disk_ops_def disk_append_def demo_created_def demo_disk_def disk_put_def)
  obtain f2 st2 t where w: "jsonl_store disk_ops (?f1, ?st1) demo_jsonl_write = Inr (f2, st2)"
      "f2 = disk_put ?f1 ''f'' (disk_old ?f1 ''f'' @ t)" "length (ss_entries (jl_state st2)) = 1"
    using demo_store [where ops = disk_ops, OF append refl] by blast
  have read: "fo_readTextFile disk_ops f2 ''f'' = Inr (disk_old ?f1 ''f'' @ t)"
      "fo_fileInfo disk_ops f2 ''f'' = Inr (disk_info ''f'' (disk_old ?f1 ''f'' @ t))"
    using w(2) by (simp_all add: disk_ops_def)
  have run: "for_each (jsonl_store disk_ops) (?f1, ?st1) [demo_jsonl_write] = Inr (f2, st2)" using w(1) by simp
  have "jsonl_load disk_ops f2 ''f'' = (f2, Inr \<lparr>jl_metadata = (jl_metadata st2)\<lparr>jm_modifiedAt :=
      fi_mtimeMs (disk_info ''f'' (disk_old ?f1 ''f'' @ t))\<rparr>, jl_state = jl_state st2\<rparr>)"
    by (rule reload_restores_session [OF disk_laws demo_header_storable demo_create run _ _ read])
      (simp_all add: demo_write_ok max_safe_integer_def)
  then show ?thesis using run w(3) by (intro exI [of _ f2] exI [of _ st2]) simp
qed

text \<open>
  C31. A crash in the middle of an append loses at most the write that was not acknowledged. When
  only a beginning \<open>p\<close> of the line of a mutation reached the file, loading either fails because the
  repair failed, and then the file still holds everything, or it returns the state of the complete
  lines and leaves a file of exactly these lines. The mutation is among them when its whole line, at
  most without the line break, was written.
\<close>

theorem torn_append_recovers:
  assumes "file_laws ops content" "storable_header h" "\<forall>x \<in> set ms. storable x" "storable m"
    and "for_each applyMutation new_session_state ms = Inr s" "applyMutation s m = Inr s'"
    and "encodeMutation m = p @ lost"
    and "fo_readTextFile ops f path = Inr (file_text h ms @ p)" "fo_fileInfo ops f path = Inr info"
    and "jsonl_load ops f path = (f', r)"
  shows "case r of
      Inr st \<Rightarrow>
        if length lost \<le> 1
        then st = loaded_storage h path info s' \<and> content f' path = Some (file_text h (ms @ [m]))
        else st = loaded_storage h path info s \<and> content f' path = Some (file_text h ms)
    | Inl e \<Rightarrow> e \<in> {LoadFailed NotFound, LoadFailed StorageError} \<and>
        (content f' path = Some (file_text h ms @ p) \<or>
         length lost \<le> 1 \<and> content f' path = Some (file_text h (ms @ [m])))"
proof -
  have c: "content f path = Some (file_text h ms @ p)" using laws_read [OF assms(1,8)] .
  have run: "for_each applyMutation new_session_state (ms @ [m]) = Inr s'"
    using assms(5,6) by (simp add: for_each_append)
  have all: "\<forall>x \<in> set (ms @ [m]). storable x" using assms(3,4) by simp
  consider (whole) "lost = []" "p = encodeMutation m" | (line) "lost = [CHR 0x0A]" "p = mutation_text m"
    | (none) "1 < length lost" "p = []"
    | (torn) t where "1 < length lost" "p \<noteq> []" "mutation_text m = p @ t" "t \<noteq> []"
  proof (cases lost rule: rev_cases)
    case (snoc t c)
    then have t: "mutation_text m = p @ t" "c = CHR 0x0A"
      using assms(7) by (auto simp: encodeMutation_def)
    show ?thesis
    proof (cases "t = []")
      case False
      then show ?thesis using none torn t snoc by (cases "p = []") auto
    qed (use line t snoc in auto)
  qed (use whole assms(7) in simp)
  then show ?thesis
  proof cases
    case whole
    then have "fo_readTextFile ops f path = Inr (file_text h (ms @ [m]))"
      using assms(8) by (simp add: file_text_def)
    from load_complete [OF this assms(9,2) all run] whole assms(10) c show ?thesis
      by (auto simp: file_text_def)
  next
    case line
    from load_unterminated [OF assms(1) assms(8) [unfolded line(2)] assms(9,2) all run assms(10)] line c
    show ?thesis by auto
  next
    case none
    from load_complete [OF _ assms(9,2,3,5)] none assms(8,10) c show ?thesis by auto
  next
    case torn
    have "CHR 0x0A \<notin> set p" using mutation_text_no_newline [of m] torn(3) by simp
    from load_torn [OF assms(1,8,9) disjI1 [OF refl] torn_line [OF assms(4) torn(3,4)] torn(2) this assms(2,3,5,10)] torn(1) c
    show ?thesis by (auto simp: not_le)
  qed
qed

theorem torn_append_recovers_witness:
  "\<exists>s'. applyMutation new_session_state demo_name = Inr s' \<and>
     (case snd (jsonl_load disk_ops demo_torn_disk ''f'') of
        Inr st \<Rightarrow> jl_state st = new_session_state \<and>
          disk_content (fst (jsonl_load disk_ops demo_torn_disk ''f'')) ''f'' = Some (file_text demo_jsonl_header [])
      | Inl e \<Rightarrow> False)"
proof -
  obtain s' where s': "applyMutation new_session_state demo_name = Inr s'"
    by (simp add: demo_name_def applyMutation_def new_session_state_def)
  obtain lost where lost: "encodeMutation demo_name = ''{'' @ lost" "1 < length lost"
    by (simp add: encodeMutation_def mutation_text_def demo_name_def quote_text_def)
  obtain f' r where load: "jsonl_load disk_ops demo_torn_disk ''f'' = (f', r)" by fastforce
  have read: "fo_readTextFile disk_ops demo_torn_disk ''f'' = Inr (file_text demo_jsonl_header [] @ ''{'')"
      "fo_fileInfo disk_ops demo_torn_disk ''f'' = Inr (disk_info ''f'' (file_text demo_jsonl_header [] @ ''{''))"
    by (simp_all add: disk_ops_def demo_torn_disk_def disk_content_def)
  have "\<exists>st. r = Inr st"
    using disk_torn_loads [OF read _ brace_torn, of demo_jsonl_header "[]" new_session_state] load
      demo_header_storable by auto
  moreover have "case r of
      Inr st \<Rightarrow>
        if length lost \<le> 1
        then st = loaded_storage demo_jsonl_header ''f''
            (disk_info ''f'' (file_text demo_jsonl_header [] @ ''{'')) s' \<and>
          disk_content f' ''f'' = Some (file_text demo_jsonl_header ([] @ [demo_name]))
        else st = loaded_storage demo_jsonl_header ''f''
            (disk_info ''f'' (file_text demo_jsonl_header [] @ ''{'')) new_session_state \<and>
          disk_content f' ''f'' = Some (file_text demo_jsonl_header [])
    | Inl e \<Rightarrow> e \<in> {LoadFailed NotFound, LoadFailed StorageError} \<and>
        (disk_content f' ''f'' = Some (file_text demo_jsonl_header [] @ ''{'') \<or>
         length lost \<le> 1 \<and> disk_content f' ''f'' = Some (file_text demo_jsonl_header ([] @ [demo_name])))"
    by (rule torn_append_recovers [OF disk_laws demo_header_storable _ demo_name_storable _ s' lost(1) read load])
      simp_all
  ultimately show ?thesis using s' lost(2) load by (auto simp: loaded_storage_def)
qed

text \<open>
  C32. A failed append is not undone, and it takes the next write with it. When an append fails
  after its first character, the caller is told; the next write is appended to the torn line and
  acknowledged. Loading the file then drops that line as a torn tail: the state is the one before
  the acknowledged write, although the session in memory has it.
\<close>

theorem acknowledged_write_lost:
  assumes laws: "file_laws ops content" and header: "storable_header h"
    and create: "jsonl_create ops f path h = (f1, Inr st1)"
    and writes: "for_each (jsonl_store ops) (f1, st1) ws = Inr (f2, st2)"
    and data: "\<forall>w \<in> set ws. write_ok w" "int (length ws) \<le> max_safe_integer"
    and failed: "appendMutation ops f2 st2 m = (f3, Inl e)" "content f3 path = appended (content f2 path) ''{''"
    and acknowledged: "jsonl_store ops (f3, st2) w = Inr (f4, st4)"
    and readable: "fo_readTextFile ops f4 path = Inr c" "fo_fileInfo ops f4 path = Inr info"
    and loaded: "jsonl_load ops f4 path = (f5, Inr st5)"
  shows "jl_state st5 = jl_state st2 \<and> jl_state st4 \<noteq> jl_state st2 \<and> content f5 path = content f2 path"
proof -
  obtain i1 where st1: "file_matches content h (f1, st1) []" "st1 = loaded_storage h path i1 new_session_state"
    using create_matches [OF laws create] by blast
  have "int (ss_sequence (jsonl_view (f1, st1)) + length ws) \<le> max_safe_integer"
    using data(2) st1(2) by (simp add: jsonl_view_def loaded_storage_def new_session_state_def)
  then obtain ms where ms: "file_matches content h (f2, st2) ms" "jl_metadata st2 = jl_metadata st1"
    using writes_match [OF laws st1(1) data(1) _ writes] by auto
  have path: "storage_path st2 = path" using ms(2) st1(2) by (simp add: loaded_storage_def metadataFromHeader_def)
  have run: "content f2 path = Some (file_text h ms)" "\<forall>m \<in> set ms. storable m"
      "for_each applyMutation new_session_state ms = Inr (jl_state st2)"
    using ms(1) path by (auto simp: file_matches_def jsonl_view_def)
  let ?x = "expected_mutation (jl_state st2) w"
  obtain t where t: "applyMutation (jl_state st2) ?x = Inr t" "jl_state st4 = t"
      "appendMutation ops f3 st2 ?x = (f4, Inr ())"
    using jsonl_store_expected [OF acknowledged] by (auto simp: append_and_apply_done jsonl_view_def)
  obtain q where q: "fo_appendFile ops f3 path (encodeMutation ?x) = (f4, q)" "q = Inr ()"
    using t(3) path by (auto simp: appendMutation_def fileResult_def split: prod.splits sum.splits)
  have "content f4 path = Some (file_text h ms @ CHR ''{'' # encodeMutation ?x)"
    using laws_append(2) [OF laws q] failed(2) run(1) by (simp add: appended_def)
  moreover have "content f4 path = Some c" using laws_read [OF laws readable(1)] .
  ultimately have c: "c = file_text h ms @ CHR ''{'' # mutation_text ?x @ [CHR 0x0A]"
    by (simp add: encodeMutation_def)
  have different: "t \<noteq> jl_state st2" using applyMutation_sequence [OF t(1)] by auto
  have torn: "CHR ''{'' # mutation_text ?x \<noteq> []" "CHR 0x0A \<notin> set (CHR ''{'' # mutation_text ?x)"
    using mutation_text_no_newline [of ?x] by simp_all
  have "c = file_text h ms @ (CHR ''{'' # mutation_text ?x) @ [CHR 0x0A]" using c by simp
  from load_torn [OF laws readable disjI2 [OF this] doubled_brace torn header run(2,3) loaded]
  show ?thesis using t(2) different run(1) by (auto simp: loaded_storage_def)
qed

theorem acknowledged_write_lost_witness:
  "\<exists>f3 f4 st4 f5 st5. appendMutation disk_ops (fst (demo_created (Some 0))) (snd (demo_created (Some 0))) demo_name =
       (f3, Inl StorageError) \<and>
     jsonl_store disk_ops (f3, snd (demo_created (Some 0))) demo_jsonl_write = Inr (f4, st4) \<and>
     jsonl_load disk_ops f4 ''f'' = (f5, Inr st5) \<and>
     jl_state st5 = jl_state (snd (demo_created (Some 0))) \<and> jl_state st4 \<noteq> jl_state st5"
proof -
  let ?f2 = "fst (demo_created (Some 0))" and ?st2 = "snd (demo_created (Some 0))"
  define f3 where "f3 = (disk_put ?f2 ''f'' (disk_old ?f2 ''f'' @ take 1 (encodeMutation demo_name)))\<lparr>dk_torn := None\<rparr>"
  have one: "take 1 (encodeMutation demo_name) = ''{''" by (simp add: encodeMutation_def mutation_text_def)
  have old: "disk_content ?f2 ''f'' = Some (file_text demo_jsonl_header [])" "disk_old ?f2 ''f'' = file_text demo_jsonl_header []"
    by (simp_all add: demo_created_def file_text_def disk_old_def)
  have failed: "appendMutation disk_ops ?f2 ?st2 demo_name = (f3, Inl StorageError)"
    by (simp add: appendMutation_def disk_ops_def disk_append_def demo_created_def demo_disk_def disk_put_def
        new_jsonl_storage_def metadataFromHeader_def fileResult_def f3_def)
  have torn: "disk_content f3 ''f'' = appended (disk_content ?f2 ''f'') ''{''"
    using one old by (simp add: f3_def appended_def)
  have append: "fo_appendFile disk_ops f3 ''f'' t = (disk_put f3 ''f'' (disk_old f3 ''f'' @ t), Inr ())" for t
    by (simp add: disk_ops_def disk_append_def f3_def)
  obtain f4 st4 where w: "jsonl_store disk_ops (f3, ?st2) demo_jsonl_write = Inr (f4, st4)"
    using demo_store [where ops = disk_ops, OF append refl] by blast
  have u: "appendMutation disk_ops f3 ?st2 (expected_mutation (jl_state ?st2) demo_jsonl_write) = (f4, Inr ())"
    using jsonl_store_expected [OF w] by (auto simp: append_and_apply_done jsonl_view_def)
  let ?x = "expected_mutation (jl_state ?st2) demo_jsonl_write"
  have "f4 = disk_put f3 ''f'' (disk_old f3 ''f'' @ encodeMutation ?x)"
    using u append by (auto simp: appendMutation_def demo_created_def new_jsonl_storage_def metadataFromHeader_def)
  then have c4: "disk_content f4 ''f'' = Some (file_text demo_jsonl_header [] @ (CHR ''{'' # mutation_text ?x) @ [CHR 0x0A])"
    using torn old by (simp add: disk_old_def appended_def encodeMutation_def)
  have read: "fo_readTextFile disk_ops f4 ''f'' = Inr (file_text demo_jsonl_header [] @ (CHR ''{'' # mutation_text ?x) @ [CHR 0x0A])"
      "fo_fileInfo disk_ops f4 ''f'' = Inr (disk_info ''f'' (file_text demo_jsonl_header [] @ (CHR ''{'' # mutation_text ?x) @ [CHR 0x0A]))"
    using c4 by (simp_all add: disk_ops_def)
  obtain f5 st5 where load: "jsonl_load disk_ops f4 ''f'' = (f5, Inr st5)"
    using disk_torn_loads [OF read disjI2 [OF refl] doubled_brace _ _ demo_header_storable, of new_session_state]
      mutation_text_no_newline [of ?x] by auto
  have "jl_state st5 = jl_state ?st2 \<and> jl_state st4 \<noteq> jl_state ?st2 \<and> disk_content f5 ''f'' = disk_content ?f2 ''f''"
    by (rule acknowledged_write_lost [OF disk_laws demo_header_storable demo_create _ _ _ failed torn w read load, where ws = "[]"])
      (simp_all add: max_safe_integer_def)
  then show ?thesis using failed w load
    by (intro exI [of _ f3] exI [of _ f4] exI [of _ st4] exI [of _ f5] exI [of _ st5]) simp
qed

end
