(* ===== verification/Payload_Check.thy ===== *)
theory Payload_Check
  imports Session_Types
begin

text \<open>
  The check of durable payloads, \<open>assertJsonSerializable\<close> in
  \<^verbatim>\<open>packages/agent/src/harness/session/session.ts\<close>. JavaScript values are primitives or
  references into a heap; an object has its prototype, the number of its symbol keys and its own
  properties in order, each a data property or an accessor. The stack-driven loop of the code is a
  partial function (a heap may be cyclic); it is shown to return on every closed heap, and to
  accept exactly the values that read as a finite JSON document.
\<close>

section \<open>Values and heaps\<close>

datatype heap_value = HUndefined | HNull | HBool bool | HNumber "rat option" \<comment> \<open>\<open>None\<close>: not finite\<close>
  | HString string | HBigInt int | HSymbol | HFunction | HRef nat

datatype prop_content = DataProp heap_value | AccessorProp

record js_property =
  jp_name :: string
  jp_enumerable :: bool
  jp_content :: prop_content

datatype js_prototype = ArrayPrototype | ObjectPrototype | NullPrototype | OtherPrototype

text \<open>The own property \<open>length\<close> of an array is the field \<open>jo_length\<close>; it is not repeated in \<open>jo_props\<close>.\<close>

record js_object =
  jo_isArray :: bool
  jo_prototype :: js_prototype
  jo_symbols :: nat
  jo_length :: nat
  jo_props :: "js_property list"

type_synonym js_heap = "js_object list"

datatype payload_fault = NonFiniteNumber | UnsupportedType | Cycle | NonStandardArray
  | ArrayProperties | SparseArray | ArrayAccessor | NonPlainObject | SymbolKey | NonEnumerable | Accessor

datatype validation_frame = ValueFrame heap_value | ExitFrame nat

section \<open>The check\<close>

definition own_property :: "js_object \<Rightarrow> string \<Rightarrow> js_property option" where
  "own_property obj name = find (\<lambda>p. jp_name p = name) (jo_props obj)"

definition own_names_count :: "js_object \<Rightarrow> nat" where
  "own_names_count obj = length (jo_props obj) + (if jo_isArray obj then 1 else 0)"

fun array_values :: "js_object \<Rightarrow> nat \<Rightarrow> heap_value list \<Rightarrow> payload_fault + heap_value list" where
  "array_values obj 0 pushed = Inr pushed"
| "array_values obj (Suc index) pushed =
     (case own_property obj (decimal index) of
        None \<Rightarrow> Inl SparseArray
      | Some p \<Rightarrow>
          (case jp_content p of
             AccessorProp \<Rightarrow> Inl ArrayAccessor
           | DataProp v \<Rightarrow> array_values obj index (v # pushed)))"

fun key_values :: "js_property list \<Rightarrow> heap_value list \<Rightarrow> payload_fault + heap_value list" where
  "key_values [] pushed = Inr pushed"
| "key_values (p # ps) pushed =
     (case jp_content p of
        AccessorProp \<Rightarrow> Inl Accessor
      | DataProp v \<Rightarrow> key_values ps (v # pushed))"

text \<open>
  The values an object pushes on the stack, the last one pushed first in the list. Both loops of
  the code run from the last index down.
\<close>

definition visit_object :: "js_object \<Rightarrow> payload_fault + heap_value list" where
  "visit_object obj =
     (if jo_isArray obj then
        (if jo_prototype obj \<noteq> ArrayPrototype then Inl NonStandardArray
         else if jo_symbols obj > 0 \<or> own_names_count obj \<noteq> jo_length obj + 1 then Inl ArrayProperties
         else array_values obj (jo_length obj) [])
      else if jo_prototype obj \<noteq> ObjectPrototype \<and> jo_prototype obj \<noteq> NullPrototype then Inl NonPlainObject
      else if jo_symbols obj > 0 then Inl SymbolKey
      else let keys = filter jp_enumerable (jo_props obj)
           in if own_names_count obj \<noteq> length keys then Inl NonEnumerable
              else key_values (rev keys) [])"

partial_function (option) json_loop ::
    "js_heap \<Rightarrow> nat list \<Rightarrow> validation_frame list \<Rightarrow> (payload_fault + unit) option" where
  "json_loop h active stack =
     (case stack of
        [] \<Rightarrow> Some (Inr ())
      | ExitFrame a # rest \<Rightarrow> json_loop h (removeAll a active) rest
      | ValueFrame v # rest \<Rightarrow>
          (case v of
             HNull \<Rightarrow> json_loop h active rest
           | HString _ \<Rightarrow> json_loop h active rest
           | HBool _ \<Rightarrow> json_loop h active rest
           | HNumber n \<Rightarrow> if n = None then Some (Inl NonFiniteNumber) else json_loop h active rest
           | HRef a \<Rightarrow>
               if a \<in> set active then Some (Inl Cycle)
               else (case visit_object (h ! a) of
                       Inl fault \<Rightarrow> Some (Inl fault)
                     | Inr vs \<Rightarrow> json_loop h (a # active) (map ValueFrame vs @ ExitFrame a # rest))
           | _ \<Rightarrow> Some (Inl UnsupportedType)))"

definition assertJsonSerializable :: "js_heap \<Rightarrow> heap_value \<Rightarrow> (payload_fault + unit) option" where
  "assertJsonSerializable h v = json_loop h [] [ValueFrame v]"

section \<open>What the check decides\<close>

text \<open>
  A value reads as a JSON document: the specification. An array has its index properties and
  nothing else, an object only enumerable data properties.
\<close>

definition array_elements :: "js_object \<Rightarrow> heap_value list \<Rightarrow> bool" where
  "array_elements obj vs \<longleftrightarrow>
     jo_isArray obj \<and> jo_prototype obj = ArrayPrototype \<and> jo_symbols obj = 0 \<and>
     length (jo_props obj) = jo_length obj \<and> length vs = jo_length obj \<and>
     (\<forall>i < jo_length obj. map_option jp_content (own_property obj (decimal i)) = Some (DataProp (vs ! i)))"

definition object_members :: "js_object \<Rightarrow> (string \<times> heap_value) list \<Rightarrow> bool" where
  "object_members obj kvs \<longleftrightarrow>
     \<not> jo_isArray obj \<and> jo_prototype obj \<in> {ObjectPrototype, NullPrototype} \<and> jo_symbols obj = 0 \<and>
     map (\<lambda>p. (jp_name p, jp_enumerable p, jp_content p)) (jo_props obj) =
       map (\<lambda>(k, v). (k, True, DataProp v)) kvs"

inductive reads_as :: "js_heap \<Rightarrow> heap_value \<Rightarrow> json \<Rightarrow> bool" for h :: js_heap where
  null: "reads_as h HNull JNull"
| bool: "reads_as h (HBool b) (JBool b)"
| number: "reads_as h (HNumber (Some q)) (JNumber q)"
| str: "reads_as h (HString s) (JString s)"
| array: "a < length h \<Longrightarrow> array_elements (h ! a) vs \<Longrightarrow> list_all2 (reads_as h) vs js \<Longrightarrow>
    reads_as h (HRef a) (JArray js)"
| object: "a < length h \<Longrightarrow> object_members (h ! a) kvs \<Longrightarrow> list_all2 (reads_as h) (map snd kvs) js \<Longrightarrow>
    reads_as h (HRef a) (JObject (zip (map fst kvs) js))"

inductive_cases reads_as_elims:
  "reads_as h HUndefined j" "reads_as h HNull j" "reads_as h (HBool b) j" "reads_as h (HNumber n) j"
  "reads_as h (HString s) j" "reads_as h (HBigInt i) j" "reads_as h HSymbol j"
  "reads_as h HFunction j" "reads_as h (HRef a) j"

definition readable :: "js_heap \<Rightarrow> heap_value \<Rightarrow> bool" where
  "readable h v \<longleftrightarrow> (\<exists>j. reads_as h v j)"

fun value_in_heap :: "js_heap \<Rightarrow> heap_value \<Rightarrow> bool" where
  "value_in_heap h (HRef a) \<longleftrightarrow> a < length h"
| "value_in_heap h _ \<longleftrightarrow> True"

definition property_in_heap :: "js_heap \<Rightarrow> js_property \<Rightarrow> bool" where
  "property_in_heap h p \<longleftrightarrow> (case jp_content p of DataProp v \<Rightarrow> value_in_heap h v | AccessorProp \<Rightarrow> True)"

definition closed_heap :: "js_heap \<Rightarrow> bool" where
  "closed_heap h \<longleftrightarrow> (\<forall>obj \<in> set h. \<forall>p \<in> set (jo_props obj). property_in_heap h p)"

section \<open>Lemmas\<close>

lemma array_values_spec:
  "array_values obj n pushed = Inr vs \<longleftrightarrow>
     (\<exists>us. vs = us @ pushed \<and> length us = n \<and>
       (\<forall>i < n. map_option jp_content (own_property obj (decimal i)) = Some (DataProp (us ! i))))"
proof (induction n arbitrary: pushed)
  case 0
  then show ?case by auto
next
  case (Suc n)
  show ?case
  proof (cases "\<exists>v. map_option jp_content (own_property obj (decimal n)) = Some (DataProp v)")
    case True
    then obtain p v where p: "own_property obj (decimal n) = Some p" "jp_content p = DataProp v" by auto
    have "array_values obj (Suc n) pushed = Inr vs \<longleftrightarrow> (\<exists>us. vs = us @ v # pushed \<and> length us = n \<and>
        (\<forall>i < n. map_option jp_content (own_property obj (decimal i)) = Some (DataProp (us ! i))))"
      using p Suc by simp
    also have "\<dots> \<longleftrightarrow> (\<exists>us. vs = us @ pushed \<and> length us = Suc n \<and>
        (\<forall>i < Suc n. map_option jp_content (own_property obj (decimal i)) = Some (DataProp (us ! i))))"
      (is "?L \<longleftrightarrow> ?R")
    proof
      assume ?L
      then obtain us where "vs = us @ v # pushed" "length us = n"
        "\<forall>i < n. map_option jp_content (own_property obj (decimal i)) = Some (DataProp (us ! i))" by blast
      then show ?R using p by (intro exI [of _ "us @ [v]"]) (auto simp: nth_append less_Suc_eq)
    next
      assume ?R
      then obtain us where us: "vs = us @ pushed" "length us = Suc n"
        "\<forall>i < Suc n. map_option jp_content (own_property obj (decimal i)) = Some (DataProp (us ! i))" by blast
      then have "us ! n = v" using p by auto
      then have "us = take n us @ [v]" using us(2) by (metis lessI order_refl take_Suc_conv_app_nth take_all)
      moreover have "\<forall>i < n. us ! i = take n us ! i" by simp
      ultimately show ?L using us by (intro exI [of _ "take n us"]) auto
    qed
    finally show ?thesis .
  next
    case False
    then have "array_values obj (Suc n) pushed \<noteq> Inr vs"
      by (auto split: option.splits prop_content.splits)
    with False show ?thesis by fastforce
  qed
qed

lemma key_values_spec:
  "key_values ps pushed = Inr vs \<longleftrightarrow> (\<exists>us. vs = rev us @ pushed \<and> map jp_content ps = map DataProp us)"
proof (induction ps arbitrary: pushed)
  case (Cons p ps)
  show ?case
  proof (cases "jp_content p")
    case (DataProp v)
    then have "key_values (p # ps) pushed = Inr vs \<longleftrightarrow>
        (\<exists>us. vs = rev us @ v # pushed \<and> map jp_content ps = map DataProp us)"
      using Cons [of "v # pushed"] by simp
    also have "\<dots> \<longleftrightarrow> (\<exists>us. vs = rev (v # us) @ pushed \<and> map jp_content (p # ps) = map DataProp (v # us))"
      using DataProp by simp
    also have "\<dots> \<longleftrightarrow> (\<exists>us. vs = rev us @ pushed \<and> map jp_content (p # ps) = map DataProp us)"
      using DataProp by (metis (no_types, lifting) list.simps(9) map_eq_Cons_D prop_content.inject)
    finally show ?thesis .
  qed auto
qed auto


lemma visit_object_array:
  "jo_isArray obj \<Longrightarrow> visit_object obj = Inr vs \<longleftrightarrow> array_elements obj vs"
  using array_values_spec [of obj "jo_length obj" "[]" vs]
  by (auto simp: visit_object_def array_elements_def own_names_count_def)

lemma filter_length_all: "length xs = length (filter P xs) \<longleftrightarrow> (\<forall>x \<in> set xs. P x)"
  by (metis filter_True filter_id_conv length_filter_less less_irrefl)

lemma visit_object_members:
  assumes "\<not> jo_isArray obj"
  shows "visit_object obj = Inr vs \<longleftrightarrow> (\<exists>kvs. object_members obj kvs \<and> vs = map snd kvs)" (is "?L \<longleftrightarrow> ?R")
proof
  assume ?L
  then have plain: "jo_prototype obj \<in> {ObjectPrototype, NullPrototype}" "jo_symbols obj = 0"
    and enum: "\<forall>p \<in> set (jo_props obj). jp_enumerable p"
    and kv: "key_values (rev (jo_props obj)) [] = Inr vs"
    using assms filter_length_all [of "jo_props obj" jp_enumerable]
    by (auto simp: visit_object_def own_names_count_def Let_def split: if_splits)
  from kv obtain us where us: "vs = rev us" "map jp_content (rev (jo_props obj)) = map DataProp us"
    using key_values_spec by auto
  then have data: "map jp_content (jo_props obj) = map DataProp vs"
    by (metis rev_map rev_rev_ident)
  then have len: "length vs = length (jo_props obj)" by (metis length_map)
  let ?kvs = "zip (map jp_name (jo_props obj)) vs"
  have "map (\<lambda>p. (jp_name p, jp_enumerable p, jp_content p)) (jo_props obj) =
      map (\<lambda>(k, v). (k, True, DataProp v)) ?kvs"
    using enum data len by (auto simp: list_eq_iff_nth_eq)
  moreover have "vs = map snd ?kvs" using len by simp
  ultimately show ?R using plain assms unfolding object_members_def by blast
next
  assume ?R
  then obtain kvs where kvs: "object_members obj kvs" "vs = map snd kvs" by blast
  then have shape: "map (\<lambda>p. (jp_name p, jp_enumerable p, jp_content p)) (jo_props obj) =
      map (\<lambda>(k, v). (k, True, DataProp v)) kvs" by (simp add: object_members_def)
  have "map jp_enumerable (jo_props obj) = map (\<lambda>_. True) kvs"
    using arg_cong [OF shape, of "map (fst \<circ> snd)"] by (simp add: comp_def case_prod_unfold)
  then have enum: "\<forall>p \<in> set (jo_props obj). jp_enumerable p"
    by (metis (no_types, lifting) imageE image_eqI list.set_map)
  have "map jp_content (jo_props obj) = map DataProp vs"
    using arg_cong [OF shape, of "map (snd \<circ> snd)"] kvs(2) by (simp add: comp_def case_prod_unfold)
  then have "key_values (rev (jo_props obj)) [] = Inr vs"
    unfolding key_values_spec by (intro exI [of _ "rev vs"]) (simp flip: rev_map)
  then show ?L
    using kvs(1) assms enum filter_length_all [of "jo_props obj" jp_enumerable]
    by (auto simp: visit_object_def own_names_count_def object_members_def Let_def)
qed


text \<open>What an object pushes is what its reading needs.\<close>

definition object_values :: "js_heap \<Rightarrow> nat \<Rightarrow> heap_value list \<Rightarrow> bool" where
  "object_values h a vs \<longleftrightarrow> a < length h \<and> visit_object (h ! a) = Inr vs"

fun json_leaf :: "heap_value \<Rightarrow> bool" where
  "json_leaf HNull \<longleftrightarrow> True"
| "json_leaf (HBool _) \<longleftrightarrow> True"
| "json_leaf (HNumber n) \<longleftrightarrow> n \<noteq> None"
| "json_leaf (HString _) \<longleftrightarrow> True"
| "json_leaf _ \<longleftrightarrow> False"

lemma leaf_readable: "json_leaf v \<Longrightarrow> readable h v"
  by (cases v) (auto simp: readable_def intro: reads_as.intros)

lemma readable_object:
  assumes "object_values h a vs" "\<forall>v \<in> set vs. readable h v"
  shows "readable h (HRef a)"
proof -
  have "\<exists>js. list_all2 (reads_as h) vs js"
    using assms(2)
  proof (induction vs)
    case Nil
    then show ?case by (intro exI [of _ "[]"]) simp
  next
    case (Cons v vs)
    then show ?case by (auto simp: readable_def list_all2_Cons1)
  qed
  then obtain js where js: "list_all2 (reads_as h) vs js" by blast
  show ?thesis
  proof (cases "jo_isArray (h ! a)")
    case True
    then show ?thesis
      using assms(1) js visit_object_array reads_as.array unfolding object_values_def readable_def by blast
  next
    case False
    with assms(1) obtain kvs where kvs: "object_members (h ! a) kvs" "vs = map snd kvs"
      using visit_object_members by (auto simp: object_values_def)
    have "a < length h" using assms(1) by (simp add: object_values_def)
    from reads_as.object [OF this kvs(1)] js kvs(2) show ?thesis by (auto simp: readable_def)
  qed
qed

lemma readable_induct [consumes 1, case_names leaf object]:
  assumes "readable h v"
    and leaf: "\<And>v. json_leaf v \<Longrightarrow> P v"
    and object: "\<And>a vs. object_values h a vs \<Longrightarrow> \<forall>v \<in> set vs. readable h v \<and> P v \<Longrightarrow> P (HRef a)"
  shows "P v"
proof -
  from assms(1) obtain j where "reads_as h v j" by (auto simp: readable_def)
  then show ?thesis
  proof (induction rule: reads_as.induct)
    case (array a vs js)
    from array(3) have "\<forall>v \<in> set vs. readable h v \<and> P v"
      unfolding list_all2_conv_all_nth readable_def by (metis in_set_conv_nth)
    moreover have "object_values h a vs"
      using array(1,2) visit_object_array by (auto simp: object_values_def array_elements_def)
    ultimately show ?case by (rule object [rotated])
  next
    case (object a kvs js)
    from object(3) have "\<forall>v \<in> set (map snd kvs). readable h v \<and> P v"
      unfolding list_all2_conv_all_nth readable_def by (metis in_set_conv_nth)
    moreover have "object_values h a (map snd kvs)"
      using object(1,2) visit_object_members [of "h ! a"] by (auto simp: object_values_def object_members_def)
    ultimately show ?case by (rule assms(3) [rotated])
  qed (simp_all add: leaf)
qed

definition holds :: "js_heap \<Rightarrow> heap_value \<Rightarrow> heap_value \<Rightarrow> bool" where
  "holds h v u \<longleftrightarrow> (\<exists>a vs. v = HRef a \<and> object_values h a vs \<and> u \<in> set vs)"

lemma readable_acyclic: "readable h v \<Longrightarrow> \<not> (holds h)\<^sup>+\<^sup>+ v v"
proof (induction rule: readable_induct)
  case (leaf v)
  then show ?case by (auto simp: holds_def dest: tranclpD)
next
  case (object a vs)
  show ?case
  proof
    assume "(holds h)\<^sup>+\<^sup>+ (HRef a) (HRef a)"
    then obtain u where u: "holds h (HRef a) u" "(holds h)\<^sup>*\<^sup>* u (HRef a)" by (blast dest: tranclpD)
    then have "u \<in> set vs" using object(1) by (auto simp: holds_def object_values_def)
    moreover have "(holds h)\<^sup>+\<^sup>+ u u" using u by (rule rtranclp_into_tranclp1 [rotated])
    ultimately show False using object(2) by blast
  qed
qed

section \<open>The loop\<close>

lemma json_loop_exit [simp]: "json_loop h active (ExitFrame a # rest) = json_loop h (removeAll a active) rest"
  by (simp add: json_loop.simps)

lemma json_loop_nil [simp]: "json_loop h active [] = Some (Inr ())"
  by (simp add: json_loop.simps)

lemma json_loop_leaf: "json_leaf v \<Longrightarrow> json_loop h active (ValueFrame v # rest) = json_loop h active rest"
  by (cases v) (auto simp: json_loop.simps [of _ _ "_ # _"])

lemma json_loop_other:
  "\<not> json_leaf v \<Longrightarrow> (\<forall>a. v \<noteq> HRef a) \<Longrightarrow> \<exists>fault. json_loop h active (ValueFrame v # rest) = Some (Inl fault)"
  by (cases v) (simp_all add: json_loop.simps [of _ _ "_ # _"])

lemma json_loop_ref:
  "json_loop h active (ValueFrame (HRef a) # rest) =
     (if a \<in> set active then Some (Inl Cycle)
      else (case visit_object (h ! a) of
              Inl fault \<Rightarrow> Some (Inl fault)
            | Inr vs \<Rightarrow> json_loop h (a # active) (map ValueFrame vs @ ExitFrame a # rest)))"
  by (simp add: json_loop.simps [of _ _ "_ # _"])

text \<open>A readable value that reaches no active object is popped without a trace.\<close>

lemma json_loop_readable:
  "readable h v \<Longrightarrow> \<forall>a \<in> set active. \<not> (holds h)\<^sup>*\<^sup>* v (HRef a) \<Longrightarrow>
   json_loop h active (ValueFrame v # rest) = json_loop h active rest"
proof (induction arbitrary: active rest rule: readable_induct)
  case (leaf v)
  then show ?case by (simp add: json_loop_leaf)
next
  case (object a vs)
  have fresh: "a \<notin> set active" using object.prems by blast
  have ok: "\<forall>b \<in> set (a # active). \<not> (holds h)\<^sup>*\<^sup>* u (HRef b)" if u: "u \<in> set vs" for u
  proof -
    have edge: "holds h (HRef a) u" using u object(1) by (auto simp: holds_def)
    have "\<not> (holds h)\<^sup>*\<^sup>* u (HRef a)"
    proof
      assume "(holds h)\<^sup>*\<^sup>* u (HRef a)"
      with edge have "(holds h)\<^sup>+\<^sup>+ (HRef a) (HRef a)" by (rule rtranclp_into_tranclp2)
      moreover have "readable h (HRef a)" using object(1,2) readable_object by blast
      ultimately show False using readable_acyclic by blast
    qed
    moreover have "\<not> (holds h)\<^sup>*\<^sup>* u (HRef b)" if "b \<in> set active" for b
      using object.prems that edge by (blast intro: converse_rtranclp_into_rtranclp)
    ultimately show ?thesis by simp
  qed
  have "json_loop h (a # active) (map ValueFrame us @ tail) = json_loop h (a # active) tail"
    if "set us \<subseteq> set vs" for us tail
    using that
  proof (induction us)
    case (Cons u us)
    then show ?case using object(2) ok by simp
  qed simp
  then show ?case
    using object(1) fresh by (simp add: json_loop_ref object_values_def)
qed


lemma visited_in_heap:
  assumes "closed_heap h" "a < length h" "visit_object (h ! a) = Inr vs" "v \<in> set vs"
  shows "value_in_heap h v"
proof -
  have "\<exists>p \<in> set (jo_props (h ! a)). jp_content p = DataProp v"
  proof (cases "jo_isArray (h ! a)")
    case True
    then have el: "array_elements (h ! a) vs" using assms(3) visit_object_array by blast
    from assms(4) obtain i where i: "i < length vs" "vs ! i = v" by (auto simp: in_set_conv_nth)
    with el have "map_option jp_content (own_property (h ! a) (decimal i)) = Some (DataProp v)"
      by (auto simp: array_elements_def)
    then show ?thesis by (auto simp: own_property_def find_Some_iff)
  next
    case False
    with assms(3) obtain kvs where kvs: "object_members (h ! a) kvs" "vs = map snd kvs"
      using visit_object_members by blast
    from kvs(2) assms(4) obtain k where "(k, v) \<in> set kvs" by auto
    then have "(k, True, DataProp v) \<in> set (map (\<lambda>p. (jp_name p, jp_enumerable p, jp_content p)) (jo_props (h ! a)))"
      using kvs(1) by (force simp: object_members_def)
    then show ?thesis by auto
  qed
  then show ?thesis
    using assms(1,2) by (force simp: closed_heap_def property_in_heap_def)
qed

text \<open>
  On a closed heap the loop always returns: each object that is entered is added to the active
  ones, of which there are at most as many as the heap has objects.
\<close>

lemma json_loop_decides:
  assumes "closed_heap h"
  shows "value_in_heap h v \<Longrightarrow> distinct active \<Longrightarrow> set active \<subseteq> {..<length h} \<Longrightarrow>
    (readable h v \<and> json_loop h active (ValueFrame v # rest) = json_loop h active rest) \<or>
    (\<exists>fault. json_loop h active (ValueFrame v # rest) = Some (Inl fault))"
proof (induction "length h - length active" arbitrary: v active rest rule: less_induct)
  case less
  show ?case
  proof (cases "\<exists>a. v = HRef a")
    case False
    then show ?thesis using json_loop_leaf json_loop_other leaf_readable by blast
  next
    case True
    then obtain a where v: "v = HRef a" and a: "a < length h" using less.prems(1) by auto
    show ?thesis
    proof (cases "a \<in> set active \<or> (\<exists>fault. visit_object (h ! a) = Inl fault)")
      case True
      then show ?thesis using v by (auto simp: json_loop_ref)
    next
      case False
      then obtain vs where vs: "visit_object (h ! a) = Inr vs" and new: "a \<notin> set active"
        by (cases "visit_object (h ! a)") auto
      have act: "distinct (a # active)" "set (a # active) \<subseteq> {..<length h}" using less.prems new a by auto
      then have "card (set (a # active)) \<le> card {..<length h}" by (intro card_mono) auto
      then have "length (a # active) \<le> length h" using distinct_card [OF act(1)] by simp
      then have smaller: "length h - length (a # active) < length h - length active" by simp
      have all: "(\<forall>u \<in> set us. readable h u) \<and>
            json_loop h (a # active) (map ValueFrame us @ tail) = json_loop h (a # active) tail \<or>
          (\<exists>fault. json_loop h (a # active) (map ValueFrame us @ tail) = Some (Inl fault))"
        if "set us \<subseteq> set vs" for us tail
        using that
      proof (induction us)
        case (Cons u us)
        have "value_in_heap h u" using visited_in_heap [OF assms a vs] Cons.prems by simp
        from less.hyps [OF smaller this act, of "map ValueFrame us @ tail"] Cons show ?case by auto
      qed simp
      have "readable h (HRef a)" if "\<forall>u \<in> set vs. readable h u"
        using readable_object [of h a vs] vs a that by (simp add: object_values_def)
      with all [of vs "ExitFrame a # rest"] show ?thesis
        using v vs new by (auto simp: json_loop_ref)
    qed
  qed
qed


lemma payload_check:
  assumes "closed_heap h" "value_in_heap h v"
  shows "if readable h v then assertJsonSerializable h v = Some (Inr ())
    else \<exists>fault. assertJsonSerializable h v = Some (Inl fault)"
  using json_loop_readable [of h v "[]" "[]"] json_loop_decides [OF assms, of "[]" "[]"]
  by (auto simp: assertJsonSerializable_def)

definition demo_heap :: js_heap where
  "demo_heap =
     [\<lparr>jo_isArray = False, jo_prototype = ObjectPrototype, jo_symbols = 0, jo_length = 0,
       jo_props = [\<lparr>jp_name = ''a'', jp_enumerable = True, jp_content = DataProp (HRef 1)\<rparr>,
                   \<lparr>jp_name = ''b'', jp_enumerable = True, jp_content = DataProp (HRef 1)\<rparr>]\<rparr>,
      \<lparr>jo_isArray = True, jo_prototype = ArrayPrototype, jo_symbols = 0, jo_length = 1,
       jo_props = [\<lparr>jp_name = ''0'', jp_enumerable = True, jp_content = DataProp (HNumber (Some 7))\<rparr>]\<rparr>,
      \<lparr>jo_isArray = False, jo_prototype = NullPrototype, jo_symbols = 0, jo_length = 0,
       jo_props = [\<lparr>jp_name = ''self'', jp_enumerable = True, jp_content = DataProp (HRef 2)\<rparr>]\<rparr>]"

lemma demo_heap_closed: "closed_heap demo_heap"
  by (simp add: closed_heap_def property_in_heap_def demo_heap_def)

lemma demo_heap_shared: "assertJsonSerializable demo_heap (HRef 0) = Some (Inr ())"
proof -
  have zero: "decimal 0 = ''0''" by code_simp
  show ?thesis
    by (simp add: assertJsonSerializable_def json_loop_ref json_loop_leaf demo_heap_def visit_object_def
        own_names_count_def own_property_def zero)
qed

lemma demo_heap_readable: "readable demo_heap (HRef 0)"
  using payload_check [OF demo_heap_closed, of "HRef 0"] demo_heap_shared
  by (auto simp: demo_heap_def split: if_splits)

section \<open>Properties\<close>

text \<open>
  C27. The payload check always returns on a heap without dangling references, cyclic or not, and
  decides whether the value is a JSON document: it accepts exactly the values that read as a
  finite JSON value (sharing is allowed, cycles are not), and otherwise reports a fault.
\<close>

theorem payload_check_decides_json:
  assumes "closed_heap h" "value_in_heap h v"
  shows "(\<exists>j. reads_as h v j) \<and> assertJsonSerializable h v = Some (Inr ()) \<or>
    \<not> (\<exists>j. reads_as h v j) \<and> (\<exists>fault. assertJsonSerializable h v = Some (Inl fault))"
  using payload_check [OF assms] unfolding readable_def by (auto split: if_splits)

theorem payload_check_decides_json_witness:
  "closed_heap demo_heap \<and>
   (\<exists>j. reads_as demo_heap (HRef 0) j) \<and> assertJsonSerializable demo_heap (HRef 2) = Some (Inl Cycle) \<and>
   \<not> (\<exists>j. reads_as demo_heap (HRef 2) j)"
proof -
  have cyclic: "assertJsonSerializable demo_heap (HRef 2) = Some (Inl Cycle)"
    by (simp add: assertJsonSerializable_def json_loop_ref demo_heap_def visit_object_def own_names_count_def)
  show ?thesis
    using demo_heap_shared cyclic payload_check_decides_json [OF demo_heap_closed, of "HRef 0"]
      payload_check_decides_json [OF demo_heap_closed, of "HRef 2"] demo_heap_closed
    by (simp add: demo_heap_def)
qed

end
