(* ===== verification/Session_Tree.thy ===== *)
theory Session_Tree
  imports Session_Memory Payload_Check
begin

text \<open>
  The session facade (\<^verbatim>\<open>packages/agent/src/harness/session/session.ts\<close>, class \<open>Session\<close>) over
  any storage. The interface \<open>SessionStorage\<close> is the record \<open>storage_ops\<close> of its operations on
  a storage state; \<open>memory_ops\<close> are those of the in-memory storage. A value given by the caller is
  a heap value together with its typed reading: the check looks at the heap, the storage keeps the
  reading. \<open>idGenerator.next()\<close> and \<open>Date.now()\<close> are the arguments \<open>nextId\<close> and \<open>now\<close>. The result
  \<open>None\<close> of a commit would mean that the payload check does not return.
\<close>

section \<open>The storage interface\<close>

type_synonym 'a outcome = "session_error + 'a"

record 's storage_ops =
  so_getMetadata :: "'s \<Rightarrow> session_metadata"
  so_getLanes :: "'s \<Rightarrow> (lane_name \<times> ident option) list"
  so_createLane :: "'s \<Rightarrow> lane_name \<Rightarrow> ident option \<Rightarrow> 's outcome"
  so_moveLane :: "'s \<Rightarrow> lane_name \<Rightarrow> ident option \<Rightarrow> 's outcome"
  so_appendEntry :: "'s \<Rightarrow> provisioned_entry \<Rightarrow> lane_name \<Rightarrow> int \<Rightarrow> ('s \<times> entry) outcome"
  so_appendRecord :: "'s \<Rightarrow> new_record \<Rightarrow> int \<Rightarrow> ('s \<times> lane_record) outcome"
  so_getEntry :: "'s \<Rightarrow> ident \<Rightarrow> entry option"
  so_findEntries :: "'s \<Rightarrow> entry_query \<Rightarrow> entry list outcome"
  so_findEntriesOnBranch :: "'s \<Rightarrow> branch_query \<Rightarrow> entry list outcome"
  so_findRecords :: "'s \<Rightarrow> record_query \<Rightarrow> lane_record list outcome"
  so_findOpenOperations :: "'s \<Rightarrow> lane_name \<Rightarrow> js_number option \<Rightarrow> operation_started_record list outcome"
  so_getLog :: "'s \<Rightarrow> log_options \<Rightarrow> log_item list outcome"
  so_getName :: "'s \<Rightarrow> string option"
  so_setName :: "'s \<Rightarrow> string option \<Rightarrow> 's outcome"
  so_getLabel :: "'s \<Rightarrow> ident \<Rightarrow> string option"
  so_setLabel :: "'s \<Rightarrow> ident \<Rightarrow> string option \<Rightarrow> 's outcome"
  so_getStats :: "'s \<Rightarrow> session_stats"

definition memory_ops :: "memory_storage storage_ops" where
  "memory_ops = \<lparr>so_getMetadata = ms_metadata, so_getLanes = (\<lambda>st. getLanes (ms_state st)),
     so_createLane = mem_createLane, so_moveLane = mem_moveLane,
     so_appendEntry = mem_appendEntry, so_appendRecord = mem_appendRecord,
     so_getEntry = (\<lambda>st. getEntry (ms_state st)), so_findEntries = (\<lambda>st. findEntries (ms_state st)),
     so_findEntriesOnBranch = (\<lambda>st. findEntriesOnBranch (ms_state st)),
     so_findRecords = (\<lambda>st. findRecords (ms_state st)),
     so_findOpenOperations = (\<lambda>st. findOpenOperations (ms_state st)),
     so_getLog = (\<lambda>st. getLog (ms_state st)), so_getName = (\<lambda>st. ss_name (ms_state st)),
     so_setName = mem_setName, so_getLabel = (\<lambda>st. getLabel (ms_state st)),
     so_setLabel = mem_setLabel, so_getStats = (\<lambda>st. ss_stats (ms_state st))\<rparr>"

section \<open>Queries\<close>

definition check_limit :: "js_number option \<Rightarrow> unit outcome" where
  "check_limit lmt =
     (case lmt of None \<Rightarrow> Inr () | Some JsNotInt \<Rightarrow> Inl InvalidQuery
      | Some (JsInt n) \<Rightarrow> if n \<le> 0 then Inl InvalidQuery else Inr ())"

definition check_cursor :: "js_number option \<Rightarrow> unit outcome" where
  "check_cursor afterSeq =
     (case afterSeq of None \<Rightarrow> Inr () | Some JsNotInt \<Rightarrow> Inl InvalidQuery
      | Some (JsInt n) \<Rightarrow> if n < 0 then Inl InvalidQuery else Inr ())"

definition getLeafIdForLane :: "'s storage_ops \<Rightarrow> 's \<Rightarrow> lane_name \<Rightarrow> ident option outcome" where
  "getLeafIdForLane ops st lane =
     (case find (\<lambda>pointer. fst pointer = lane) (so_getLanes ops st) of
        None \<Rightarrow> Inl InvalidLane | Some pointer \<Rightarrow> Inr (snd pointer))"

text \<open>\<open>resultLimit\<close> defaults to the limit of the query; an equal limit leaves the query as it is.\<close>

definition result_limit :: "'z entry_query_scheme \<Rightarrow> js_number option \<Rightarrow> js_number option" where
  "result_limit query resultLimit = (case resultLimit of None \<Rightarrow> q_limit query | Some n \<Rightarrow> Some n)"

definition queryEntries ::
    "'s storage_ops \<Rightarrow> 's \<Rightarrow> entry_query \<Rightarrow> js_number option \<Rightarrow> entry list outcome" where
  "queryEntries ops st query resultLimit =
     (case check_limit (q_limit query) of
        Inl e \<Rightarrow> Inl e
      | Inr _ \<Rightarrow>
          (case check_cursor (q_cursor query) of
             Inl e \<Rightarrow> Inl e
           | Inr _ \<Rightarrow> so_findEntries ops st (query\<lparr>q_limit := result_limit query resultLimit\<rparr>)))"

record branch_request = entry_query +
  br_start :: "ident option"
  br_stopAtType :: "entry_type option"
  br_stopAtId :: "ident option"

definition queryBranchEntries ::
    "'s storage_ops \<Rightarrow> 's \<Rightarrow> lane_name \<Rightarrow> branch_request \<Rightarrow> js_number option \<Rightarrow> entry list outcome" where
  "queryBranchEntries ops st defaultLane query resultLimit =
     (case check_limit (q_limit query) of
        Inl e \<Rightarrow> Inl e
      | Inr _ \<Rightarrow>
          (case check_cursor (q_cursor query) of
             Inl e \<Rightarrow> Inl e
           | Inr _ \<Rightarrow>
               (case (case br_start query of
                        Some start \<Rightarrow> Inr (Some start) | None \<Rightarrow> getLeafIdForLane ops st defaultLane) of
                  Inl e \<Rightarrow> Inl e
                | Inr None \<Rightarrow> Inr []
                | Inr (Some start) \<Rightarrow>
                    so_findEntriesOnBranch ops st
                      \<lparr>q_type = q_type query, q_customType = q_customType query, q_order = q_order query,
                       q_limit = result_limit query resultLimit, q_cursor = q_cursor query,
                       q_start = start, q_stopAtType = br_stopAtType query,
                       q_stopAtId = br_stopAtId query\<rparr>)))"

definition queryRecords :: "'s storage_ops \<Rightarrow> 's \<Rightarrow> record_query \<Rightarrow> lane_record list outcome" where
  "queryRecords ops st query =
     (case check_limit (rq_limit query) of
        Inl e \<Rightarrow> Inl e
      | Inr _ \<Rightarrow>
          (case check_cursor (rq_afterSeq query) of
             Inl e \<Rightarrow> Inl e
           | Inr _ \<Rightarrow>
               if rq_operationKind query \<noteq> None \<and> rq_type query \<noteq> Some ROperationStarted then Inl InvalidQuery
               else so_findRecords ops st query))"

definition queryLog :: "'s storage_ops \<Rightarrow> 's \<Rightarrow> log_options \<Rightarrow> log_item list outcome" where
  "queryLog ops st opts =
     (case check_limit (lo_limit opts) of
        Inl e \<Rightarrow> Inl e
      | Inr _ \<Rightarrow>
          (case check_cursor (lo_afterSeq opts) of Inl e \<Rightarrow> Inl e | Inr _ \<Rightarrow> so_getLog ops st opts))"

definition session_findOpenOperations ::
    "'s storage_ops \<Rightarrow> 's \<Rightarrow> lane_name \<Rightarrow> js_number option \<Rightarrow> operation_started_record list outcome" where
  "session_findOpenOperations ops st lane lmt =
     (case check_limit lmt of Inl e \<Rightarrow> Inl e | Inr _ \<Rightarrow> so_findOpenOperations ops st lane lmt)"

section \<open>Commits\<close>

definition alloc :: "js_heap \<Rightarrow> (string \<times> heap_value) list \<Rightarrow> js_heap \<times> heap_value" where
  "alloc h members =
     (h @ [\<lparr>jo_isArray = False, jo_prototype = ObjectPrototype, jo_symbols = 0, jo_length = 0,
        jo_props = map (\<lambda>(k, v). \<lparr>jp_name = k, jp_enumerable = True, jp_content = DataProp v\<rparr>) members\<rparr>],
      HRef (length h))"

definition commitEntry ::
    "'s storage_ops \<Rightarrow> 's \<Rightarrow> js_heap \<Rightarrow> heap_value \<Rightarrow> provisioned_entry \<Rightarrow> lane_name \<Rightarrow> int \<Rightarrow>
     ('s \<times> entry) outcome option" where
  "commitEntry ops st h v entry lane now =
     (case assertJsonSerializable h v of
        None \<Rightarrow> None
      | Some (Inl _) \<Rightarrow> Some (Inl InvalidPayload)
      | Some (Inr _) \<Rightarrow> Some (so_appendEntry ops st entry lane now))"

definition commitRecord ::
    "'s storage_ops \<Rightarrow> 's \<Rightarrow> js_heap \<Rightarrow> heap_value \<Rightarrow> new_record \<Rightarrow> int \<Rightarrow>
     ('s \<times> lane_record) outcome option" where
  "commitRecord ops st h v record now =
     (case assertJsonSerializable h v of
        None \<Rightarrow> None
      | Some (Inl _) \<Rightarrow> Some (Inl InvalidPayload)
      | Some (Inr _) \<Rightarrow> Some (so_appendRecord ops st record now))"

definition entry_id_of :: "('s \<times> entry) outcome \<Rightarrow> ('s \<times> ident) outcome" where
  "entry_id_of r = (case r of Inl e \<Rightarrow> Inl e | Inr (st, entry) \<Rightarrow> Inr (st, e_id entry))"

definition appendMessageToLane ::
    "'s storage_ops \<Rightarrow> 's \<Rightarrow> lane_name \<Rightarrow> js_heap \<Rightarrow> heap_value \<Rightarrow> agent_message \<Rightarrow> ident \<Rightarrow> int \<Rightarrow>
     ('s \<times> ident) outcome option" where
  "appendMessageToLane ops st lane h messageValue message nextId now =
     (case alloc h [(''type'', HString ''message''), (''id'', HString nextId), (''message'', messageValue)] of
        (h', v) \<Rightarrow>
          map_option entry_id_of
            (commitEntry ops st h' v \<lparr>p_id = nextId, p_payload = MessagePayload message False\<rparr> lane now))"

definition appendCustomEntryToLane ::
    "'s storage_ops \<Rightarrow> 's \<Rightarrow> lane_name \<Rightarrow> js_heap \<Rightarrow> string \<Rightarrow> heap_value \<Rightarrow> json \<Rightarrow> ident \<Rightarrow> int \<Rightarrow>
     ('s \<times> ident) outcome option" where
  "appendCustomEntryToLane ops st lane h customType dataValue data nextId now =
     (case alloc h
        ([(''type'', HString ''custom''), (''id'', HString nextId), (''customType'', HString customType)] @
         (if dataValue = HUndefined then [] else [(''data'', dataValue)])) of
        (h', v) \<Rightarrow>
          map_option entry_id_of
            (commitEntry ops st h' v
               \<lparr>p_id = nextId, p_payload = CustomPayload customType (if dataValue = HUndefined then None else Some data)\<rparr>
               lane now))"

text \<open>The remaining writes of the session are those of its storage.\<close>

definition session_createLane :: "'s storage_ops \<Rightarrow> 's \<Rightarrow> lane_name \<Rightarrow> ident option \<Rightarrow> 's outcome" where
  "session_createLane ops st lane leaf = so_createLane ops st lane leaf"

definition session_moveLane :: "'s storage_ops \<Rightarrow> 's \<Rightarrow> lane_name \<Rightarrow> ident option \<Rightarrow> 's outcome" where
  "session_moveLane ops st lane dest = so_moveLane ops st lane dest"

definition session_setName :: "'s storage_ops \<Rightarrow> 's \<Rightarrow> string option \<Rightarrow> 's outcome" where
  "session_setName ops st name = so_setName ops st name"

definition session_setLabel :: "'s storage_ops \<Rightarrow> 's \<Rightarrow> ident \<Rightarrow> string option \<Rightarrow> 's outcome" where
  "session_setLabel ops st targetId label = so_setLabel ops st targetId label"

section \<open>Views\<close>

text \<open>
  A view of the session tree is the session itself for the lane \<open>main\<close> and an object bound to the
  lane otherwise; both have the same operations.
\<close>

datatype session_tree = SessionSelf | LaneView lane_name

definition session_view :: "lane_name \<Rightarrow> session_tree" where
  "session_view lane = (if lane = main_lane then SessionSelf else LaneView lane)"

fun tree_lane :: "session_tree \<Rightarrow> lane_name" where
  "tree_lane SessionSelf = main_lane"
| "tree_lane (LaneView lane) = lane"

definition tree_getLeafId :: "'s storage_ops \<Rightarrow> 's \<Rightarrow> session_tree \<Rightarrow> ident option outcome" where
  "tree_getLeafId ops st t = getLeafIdForLane ops st (tree_lane t)"

definition first_of :: "'a list outcome \<Rightarrow> 'a option outcome" where
  "first_of r = (case r of Inl e \<Rightarrow> Inl e | Inr [] \<Rightarrow> Inr None | Inr (x # _) \<Rightarrow> Inr (Some x))"

definition tree_findEntries :: "'s storage_ops \<Rightarrow> 's \<Rightarrow> entry_query \<Rightarrow> entry list outcome" where
  "tree_findEntries ops st query = queryEntries ops st query None"

definition tree_findEntry :: "'s storage_ops \<Rightarrow> 's \<Rightarrow> entry_query \<Rightarrow> entry option outcome" where
  "tree_findEntry ops st query = first_of (queryEntries ops st query (Some (JsInt 1)))"

definition tree_findEntriesOnBranch ::
    "'s storage_ops \<Rightarrow> 's \<Rightarrow> session_tree \<Rightarrow> branch_request \<Rightarrow> entry list outcome" where
  "tree_findEntriesOnBranch ops st t query = queryBranchEntries ops st (tree_lane t) query None"

definition tree_findEntryOnBranch ::
    "'s storage_ops \<Rightarrow> 's \<Rightarrow> session_tree \<Rightarrow> branch_request \<Rightarrow> entry option outcome" where
  "tree_findEntryOnBranch ops st t query =
     first_of (queryBranchEntries ops st (tree_lane t) query (Some (JsInt 1)))"

definition tree_appendMessage ::
    "'s storage_ops \<Rightarrow> 's \<Rightarrow> session_tree \<Rightarrow> js_heap \<Rightarrow> heap_value \<Rightarrow> agent_message \<Rightarrow> ident \<Rightarrow> int \<Rightarrow>
     ('s \<times> ident) outcome option" where
  "tree_appendMessage ops st t = appendMessageToLane ops st (tree_lane t)"

definition tree_appendCustomEntry ::
    "'s storage_ops \<Rightarrow> 's \<Rightarrow> session_tree \<Rightarrow> js_heap \<Rightarrow> string \<Rightarrow> heap_value \<Rightarrow> json \<Rightarrow> ident \<Rightarrow> int \<Rightarrow>
     ('s \<times> ident) outcome option" where
  "tree_appendCustomEntry ops st t = appendCustomEntryToLane ops st (tree_lane t)"

definition default_branch_request :: branch_request where
  "default_branch_request = \<lparr>q_type = None, q_customType = None, q_order = None, q_limit = None,
     q_cursor = None, br_start = None, br_stopAtType = None, br_stopAtId = None\<rparr>"

section \<open>The check of an allocated entry\<close>

lemma readable_ref:
  "readable h (HRef a) \<longleftrightarrow> (\<exists>vs. object_values h a vs \<and> (\<forall>v \<in> set vs. readable h v))"
proof
  have "v = HRef a \<longrightarrow> (\<exists>vs. object_values h a vs \<and> (\<forall>v \<in> set vs. readable h v))" if "readable h v" for v
    using that by (induction rule: readable_induct) (auto elim: json_leaf.elims)
  then show "readable h (HRef a) \<Longrightarrow> \<exists>vs. object_values h a vs \<and> (\<forall>v \<in> set vs. readable h v)" by blast
qed (blast intro: readable_object)

lemma object_values_extend: "a < length h \<Longrightarrow> object_values (h @ objs) a vs \<longleftrightarrow> object_values h a vs"
  by (simp add: object_values_def nth_append)

lemma readable_extend:
  assumes "closed_heap h"
  shows "value_in_heap h v \<Longrightarrow> readable (h @ objs) v \<longleftrightarrow> readable h v"
proof
  assume "readable (h @ objs) v" "value_in_heap h v"
  then show "readable h v"
  proof (induction rule: readable_induct)
    case (object a vs)
    then have a: "a < length h" "object_values h a vs" by (simp_all add: object_values_extend)
    then have "\<forall>v \<in> set vs. value_in_heap h v" using visited_in_heap [OF assms] by (auto simp: object_values_def)
    with object(2) a(2) show ?case using readable_object by blast
  qed (rule leaf_readable)
next
  assume "readable h v"
  then show "readable (h @ objs) v"
  proof (induction rule: readable_induct)
    case (object a vs)
    then have "object_values (h @ objs) a vs" by (simp add: object_values_def nth_append)
    with object(2) show ?case using readable_object by blast
  qed (rule leaf_readable)
qed

lemma key_values_data:
  "key_values (map (\<lambda>(k, v). \<lparr>jp_name = k, jp_enumerable = True, jp_content = DataProp v\<rparr>) kvs) pushed =
     Inr (rev (map snd kvs) @ pushed)"
  by (induction kvs arbitrary: pushed) auto

lemma alloc_values:
  assumes "alloc h members = (h', v)"
  shows "v = HRef (length h)" "object_values h' (length h) (map snd members)"
proof -
  show "v = HRef (length h)" using assms by (simp add: alloc_def)
  have "filter jp_enumerable (map (\<lambda>(k, v). \<lparr>jp_name = k, jp_enumerable = True, jp_content = DataProp v\<rparr>) members) =
      map (\<lambda>(k, v). \<lparr>jp_name = k, jp_enumerable = True, jp_content = DataProp v\<rparr>) members"
    by (rule filter_True) auto
  then show "object_values h' (length h) (map snd members)"
    using assms key_values_data [of "rev members" "[]"]
    by (auto simp: alloc_def object_values_def visit_object_def own_names_count_def Let_def rev_map)
qed

lemma payload_check_alloc:
  assumes closed: "closed_heap h" and members: "\<forall>v \<in> set (map snd members). value_in_heap h v"
    and new: "alloc h members = (h', v)"
  shows "if \<forall>v \<in> set (map snd members). readable h v then assertJsonSerializable h' v = Some (Inr ())
    else \<exists>fault. assertJsonSerializable h' v = Some (Inl fault)"
proof -
  obtain obj where h': "h' = h @ [obj]"
    "jo_props obj = map (\<lambda>(k, v). \<lparr>jp_name = k, jp_enumerable = True, jp_content = DataProp v\<rparr>) members"
    using new by (auto simp: alloc_def)
  have grow: "value_in_heap h' u" if "value_in_heap h u" for u
    using that h'(1) by (cases u) auto
  have "closed_heap h'"
    unfolding closed_heap_def h'(1)
  proof (intro ballI)
    fix ob p
    assume ob: "ob \<in> set (h @ [obj])" "p \<in> set (jo_props ob)"
    show "property_in_heap (h @ [obj]) p"
    proof (cases "ob \<in> set h")
      case True
      then show ?thesis
        using closed ob(2) grow h'(1) by (auto simp: closed_heap_def property_in_heap_def split: prop_content.splits)
    next
      case False
      then show ?thesis
        using ob members grow h' by (auto simp: property_in_heap_def)
    qed
  qed
  moreover have "value_in_heap h' v" using alloc_values(1) [OF new] h'(1) by simp
  ultimately have decides: "if readable h' v then assertJsonSerializable h' v = Some (Inr ())
      else \<exists>fault. assertJsonSerializable h' v = Some (Inl fault)"
    by (rule payload_check)
  have "readable h' v \<longleftrightarrow> (\<forall>u \<in> set (map snd members). readable h' u)"
    using alloc_values [OF new] readable_ref by (auto simp: object_values_def)
  also have "\<dots> \<longleftrightarrow> (\<forall>u \<in> set (map snd members). readable h u)"
    unfolding h'(1) by (rule ball_cong [OF refl]) (use members readable_extend [OF closed] in blast)
  finally show ?thesis using decides by simp
qed

section \<open>Clients of a storage\<close>

definition lane_branch :: "session_state \<Rightarrow> lane_name \<Rightarrow> entry list" where
  "lane_branch s lane =
     (case map_get (ss_lanes s) lane of Some (Some leaf) \<Rightarrow> branch_of s leaf | _ \<Rightarrow> [])"

lemma find_map_get: "find (\<lambda>p. fst p = k) m = map_option (Pair k) (map_get m k)"
  by (induction m) (auto simp: map_get_def)


lemma default_request_all:
  "matchesEntryQuery e \<lparr>q_type = None, q_customType = None, q_order = None, q_limit = l, q_cursor = None,
     q_start = i, q_stopAtType = None, q_stopAtId = None\<rparr>"
  by (simp add: matchesEntryQuery_def)

lemma upto_bound_none: "\<forall>x \<in> set xs. \<not> P x \<Longrightarrow> upto_bound P xs = xs"
  by (induction xs) auto

lemma default_branch_query:
  assumes "wf_state s" "i \<in> e_id ` set (ss_entries s)" "limit_ok l"
  shows "findEntriesOnBranch s \<lparr>q_type = None, q_customType = None, q_order = None, q_limit = l, q_cursor = None,
     q_start = i, q_stopAtType = None, q_stopAtId = None\<rparr> = Inr (limited l (branch_of s i))"
  using assms findEntriesOnBranch_spec [of s "\<lparr>q_type = None, q_customType = None, q_order = None, q_limit = l,
     q_cursor = None, q_start = i, q_stopAtType = None, q_stopAtId = None\<rparr>"]
  by (simp add: validate_page_def limit_ok_def assertValidCursor_def default_request_all upto_bound_none at_bound_def)

lemma entry_mutation_effect:
  assumes "applyMutation s (EntryMutation (Some lane) e) = Inr s'"
  shows "map_get (ss_lanes s) lane = Some (e_parentId e)" "ss_entries s' = ss_entries s @ [e]"
    "ss_lanes s' = map_set (ss_lanes s) lane (Some (e_id e))"
  using assms by (auto simp: applyMutation_def split: if_splits option.splits)

locale storage_client = session_storage view store
  for view :: "'s \<Rightarrow> session_state" and store :: "'s \<Rightarrow> storage_write \<Rightarrow> session_error + 's" +
  fixes ops :: "'s storage_ops"
  assumes reads_lanes: "so_getLanes ops st = getLanes (view st)"
    and reads_entries: "so_findEntries ops st q = findEntries (view st) q"
    and reads_branch: "so_findEntriesOnBranch ops st bq = findEntriesOnBranch (view st) bq"
    and append_needs_lane: "map_get (ss_lanes (view st)) lane = None \<Longrightarrow>
      so_appendEntry ops st p lane now = Inl InvalidLane"
    and append_needs_fresh: "map_get (ss_lanes (view st)) lane = Some leaf \<Longrightarrow>
      p_id p \<in> ss_usedIds (view st) \<Longrightarrow> so_appendEntry ops st p lane now = Inl AlreadyExists"
    and append_stores: "so_appendEntry ops st p lane now = Inr (st', e) \<Longrightarrow>
      store st (AppendEntry p lane now) = Inr st' \<and>
      expected_mutation (view st) (AppendEntry p lane now) = EntryMutation (Some lane) e"
begin

lemma leaf_of_lane:
  "getLeafIdForLane ops st lane =
     (case map_get (ss_lanes (view st)) lane of None \<Rightarrow> Inl InvalidLane | Some leaf \<Rightarrow> Inr leaf)"
  by (simp add: getLeafIdForLane_def reads_lanes getLanes_def find_map_get split: option.splits)

lemma default_query_reads_branch:
  assumes "wf_state (view st)" "map_get (ss_lanes (view st)) lane = Some leaf" "limit_ok l"
  shows "queryBranchEntries ops st lane default_branch_request l = Inr (limited l (lane_branch (view st) lane))"
proof (cases leaf)
  case None
  then show ?thesis
    using assms by (simp add: queryBranchEntries_def default_branch_request_def check_limit_def check_cursor_def
        leaf_of_lane lane_branch_def limited_def split: option.splits js_number.splits)
next
  case (Some i)
  have "i \<in> e_id ` set (ss_entries (view st))"
    using assms Some by (force simp: wf_state_def wf_lanes_def)
  from default_branch_query [OF assms(1) this assms(3)] show ?thesis
    using assms Some
    by (cases l) (simp_all add: queryBranchEntries_def default_branch_request_def check_limit_def
        check_cursor_def leaf_of_lane lane_branch_def reads_branch result_limit_def)
qed

lemma append_extends_branch:
  assumes wf: "wf_state (view st)" and app: "so_appendEntry ops st p lane now = Inr (st', e)"
  shows "wf_state (view st')" "e_id e = p_id p" "e_payload e = p_payload p"
    "map_get (ss_lanes (view st')) lane = Some (Some (p_id p))"
    "lane_branch (view st') lane = e # lane_branch (view st) lane"
proof -
  from append_stores [OF app] have w: "store st (AppendEntry p lane now) = Inr st'"
    and e: "EntryMutation (Some lane) e = expected_mutation (view st) (AppendEntry p lane now)" by simp_all
  have step: "applyMutation (view st) (EntryMutation (Some lane) e) = Inr (view st')"
    using store_applies [OF w] e by simp
  show wf': "wf_state (view st')" using applyMutation_wf [OF wf step] .
  show ids: "e_id e = p_id p" "e_payload e = p_payload p" using e by simp_all
  note lane = entry_mutation_effect(1) [OF step] and es = entry_mutation_effect(2) [OF step]
    and lanes = entry_mutation_effect(3) [OF step]
  show "map_get (ss_lanes (view st')) lane = Some (Some (p_id p))" using lanes ids by simp
  have "branch_of (view st') (e_id e) =
      e # (case e_parentId e of None \<Rightarrow> [] | Some i \<Rightarrow> branch_of (view st) i)"
    using wf wf' es by (intro branch_of_append) (simp_all add: wf_state_def)
  then show "lane_branch (view st') lane = e # lane_branch (view st) lane"
    using lane lanes by (simp add: lane_branch_def split: option.splits)
qed

lemma append_then_read:
  assumes wf: "wf_state (view st)" and app: "so_appendEntry ops st p lane now = Inr (st', e)"
    and t: "tree_lane t = lane"
  shows "tree_getLeafId ops st' t = Inr (Some (p_id p))"
    and "tree_findEntryOnBranch ops st' t default_branch_request = Inr (Some e)"
    and "tree_findEntriesOnBranch ops st' t default_branch_request = Inr (e # lane_branch (view st) lane)"
proof -
  note ext = append_extends_branch [OF wf app]
  show "tree_getLeafId ops st' t = Inr (Some (p_id p))"
    using ext(4) t by (simp add: tree_getLeafId_def leaf_of_lane)
  show "tree_findEntryOnBranch ops st' t default_branch_request = Inr (Some e)"
    using default_query_reads_branch [OF ext(1,4), of "Some (JsInt 1)"] ext(5) t
    by (simp add: tree_findEntryOnBranch_def first_of_def limit_ok_def assertValidLimit_def limited_def)
  show "tree_findEntriesOnBranch ops st' t default_branch_request = Inr (e # lane_branch (view st) lane)"
    using default_query_reads_branch [OF ext(1,4), of None] ext(5) t
    by (simp add: tree_findEntriesOnBranch_def limit_ok_def assertValidLimit_def limited_def)
qed

end

interpretation memory_client: storage_client ms_state mem_write memory_ops
proof (unfold_locales, goal_cases)
  case (4 st lane p now)
  then show ?case by (simp add: memory_ops_def mem_appendEntry_def requireLane_def)
next
  case (5 st lane leaf p now)
  then show ?case by (simp add: memory_ops_def mem_appendEntry_def requireLane_def validateUnusedId_def)
next
  case (6 st p lane now st' e)
  then show ?case
    by (auto simp: memory_ops_def mem_appendEntry_def requireLane_def Let_def split: sum.splits option.splits)
qed (simp_all add: memory_ops_def)

section \<open>Properties\<close>

text \<open>
  Appending a message through a view of the session, on every branch. A message that is not a
  JSON document is refused before storage is asked; an unknown lane and a used id are refused by
  storage; otherwise the append returns the new id, the leaf of the view is that id, the newest
  entry on the branch carries the message, and the branch is the previous branch with that entry
  in front.
\<close>

lemma append_message_then_read:
  assumes "memory_reachable st" "closed_heap h" "value_in_heap h messageValue"
  shows "if \<not> (\<exists>j. reads_as h messageValue j)
    then tree_appendMessage memory_ops st t h messageValue message i now = Some (Inl InvalidPayload)
    else if map_get (ss_lanes (ms_state st)) (tree_lane t) = None
    then tree_appendMessage memory_ops st t h messageValue message i now = Some (Inl InvalidLane)
    else if i \<in> ss_usedIds (ms_state st)
    then tree_appendMessage memory_ops st t h messageValue message i now = Some (Inl AlreadyExists)
    else \<exists>st' e es. tree_appendMessage memory_ops st t h messageValue message i now = Some (Inr (st', i)) \<and>
      e_id e = i \<and> e_payload e = MessagePayload message False \<and>
      tree_getLeafId memory_ops st' t = Inr (Some i) \<and>
      tree_findEntryOnBranch memory_ops st' t default_branch_request = Inr (Some e) \<and>
      tree_findEntriesOnBranch memory_ops st t default_branch_request = Inr es \<and>
      tree_findEntriesOnBranch memory_ops st' t default_branch_request = Inr (e # es)"
proof -
  let ?members = "[(''type'', HString ''message''), (''id'', HString i), (''message'', messageValue)]"
  let ?p = "\<lparr>p_id = i, p_payload = MessagePayload message False\<rparr>"
  obtain h' v where new: "alloc h ?members = (h', v)" by fastforce
  have wf: "wf_state (ms_state st)" using memory_reachable_wf [OF assms(1)] .
  have app: "tree_appendMessage memory_ops st t h messageValue message i now =
      map_option entry_id_of (commitEntry memory_ops st h' v ?p (tree_lane t) now)"
    by (simp add: tree_appendMessage_def appendMessageToLane_def new)
  have check: "if readable h messageValue then assertJsonSerializable h' v = Some (Inr ())
      else \<exists>fault. assertJsonSerializable h' v = Some (Inl fault)"
    using payload_check_alloc [OF assms(2) _ new] assms(3) leaf_readable by simp
  show ?thesis
  proof (cases "readable h messageValue")
    case False
    then show ?thesis using check app by (auto simp: commitEntry_def entry_id_of_def readable_def)
  next
    case ok: True
    then have store: "tree_appendMessage memory_ops st t h messageValue message i now =
        Some (entry_id_of (mem_appendEntry st ?p (tree_lane t) now))"
      using check app by (simp add: commitEntry_def memory_ops_def)
    show ?thesis
    proof (cases "map_get (ss_lanes (ms_state st)) (tree_lane t) = None \<or> i \<in> ss_usedIds (ms_state st)")
      case True
      then show ?thesis
        using ok store memory_client.append_needs_lane [of st "tree_lane t" ?p now]
          memory_client.append_needs_fresh [of st "tree_lane t" _ ?p now]
        by (auto simp: readable_def entry_id_of_def memory_ops_def)
    next
      case False
      then obtain leaf where leaf: "map_get (ss_lanes (ms_state st)) (tree_lane t) = Some leaf" by auto
      obtain st' e where st': "mem_appendEntry st ?p (tree_lane t) now = Inr (st', e)"
        using mem_appendEntry_ok [OF wf leaf, of ?p now] False by (auto simp: Let_def)
      have op: "so_appendEntry memory_ops st ?p (tree_lane t) now = Inr (st', e)"
        using st' by (simp add: memory_ops_def)
      have old: "tree_findEntriesOnBranch memory_ops st t default_branch_request =
          Inr (lane_branch (ms_state st) (tree_lane t))"
        using memory_client.default_query_reads_branch [OF wf leaf, of None]
        by (simp add: tree_findEntriesOnBranch_def limit_ok_def assertValidLimit_def limited_def)
      have "tree_appendMessage memory_ops st t h messageValue message i now = Some (Inr (st', i))"
        using store st' memory_client.append_extends_branch(2) [OF wf op] by (simp add: entry_id_of_def)
      then show ?thesis
        using ok False old memory_client.append_then_read [OF wf op refl] memory_client.append_extends_branch(2,3) [OF wf op]
        by (auto simp: readable_def)
    qed
  qed
qed

lemma append_message_then_read_witness:
  "\<exists>st' e. tree_appendMessage memory_ops demo_storage (session_view ''main'') demo_heap (HRef 0)
      (UserMessage \<lparr>um_content = ContentString ''hi'', um_timestamp = 0\<rparr>) ''b'' 9 = Some (Inr (st', ''b'')) \<and>
    tree_findEntryOnBranch memory_ops st' (session_view ''main'') default_branch_request = Inr (Some e)"
proof -
  have main: "tree_lane (session_view ''main'') = ''main''" by (simp add: session_view_def main_lane_def)
  have "value_in_heap demo_heap (HRef 0)" by (simp add: demo_heap_def)
  from append_message_then_read [OF demo_storage_reachable demo_heap_closed this, of "session_view ''main''"
      "UserMessage \<lparr>um_content = ContentString ''hi'', um_timestamp = 0\<rparr>" "''b''" 9]
  show ?thesis
    using demo_heap_readable unfolding readable_def main demo_storage_parts by auto
qed

end
