(* ===== verification/Jsonl_Repo.thy ===== *)
theory Jsonl_Repo
  imports Jsonl_Storage Session_Tree
begin

text \<open>
  The repository of session files, \<^verbatim>\<open>packages/agent/src/harness/session/jsonl/repo.ts\<close>:
  naming of directories and files, listing by header, opening with a check of the id, and creation
  and fork under a claim that keeps two concurrent calls of one process from publishing the same
  \<open>(cwd, id)\<close>. \<^verbatim>\<open>Date.now\<close> and \<^verbatim>\<open>uuidv7\<close> are arguments; the metadata of a new session is
  given as the object on the heap that is checked and as the JSON value it reads as.
\<close>

section \<open>Names\<close>

definition is_alphanumeric :: "char \<Rightarrow> bool" where
  "is_alphanumeric c \<longleftrightarrow>
     (let n = of_char c :: nat in 48 \<le> n \<and> n \<le> 57 \<or> 65 \<le> n \<and> n \<le> 90 \<or> 97 \<le> n \<and> n \<le> 122)"

text \<open>\<^verbatim>\<open>/^[A-Za-z0-9](?:[A-Za-z0-9._-]*[A-Za-z0-9])?$/\<close>.\<close>

definition validateSessionId :: "ident \<Rightarrow> session_error + unit" where
  "validateSessionId i =
     (if i \<noteq> [] \<and> is_alphanumeric (hd i) \<and> is_alphanumeric (last i) \<and>
         (\<forall>c \<in> set i. is_alphanumeric c \<or> c = CHR ''.'' \<or> c = CHR ''_'' \<or> c = CHR ''-'')
      then Inr () else Inl InvalidPayload)"

definition is_separator :: "char \<Rightarrow> bool" where
  "is_separator c \<longleftrightarrow> c = CHR ''/'' \<or> c = CHR 0x5C"

definition jsonlSessionDirectoryName :: "string \<Rightarrow> string" where
  "jsonlSessionDirectoryName cwd =
     (let rest = (if cwd \<noteq> [] \<and> is_separator (hd cwd) then tl cwd else cwd)
      in ''--'' @ map (\<lambda>c. if is_separator c \<or> c = CHR '':'' then CHR ''-'' else c) rest @ ''--'')"

text \<open>\<^verbatim>\<open>Date.prototype.toISOString\<close>: the proleptic Gregorian date of a day count and the time of day.\<close>

definition civil_date :: "int \<Rightarrow> int \<times> int \<times> int" where
  "civil_date days =
     (let z = days + 719468;
          era = z div 146097;
          doe = z mod 146097;
          yoe = (doe - doe div 1460 + doe div 36524 - doe div 146096) div 365;
          doy = doe - (365 * yoe + yoe div 4 - yoe div 100);
          mp = (5 * doy + 2) div 153;
          d = doy - (153 * mp + 2) div 5 + 1;
          m = (if mp < 10 then mp + 3 else mp - 9)
      in (yoe + era * 400 + (if m \<le> 2 then 1 else 0), m, d))"

definition padded :: "nat \<Rightarrow> int \<Rightarrow> string" where
  "padded k n = (let ds = decimal (nat n) in replicate (k - length ds) CHR ''0'' @ ds)"

definition year_text :: "int \<Rightarrow> string" where
  "year_text y =
     (if 0 \<le> y \<and> y \<le> 9999 then padded 4 y
      else (if y < 0 then CHR ''-'' else CHR ''+'') # padded 6 \<bar>y\<bar>)"

definition toISOString :: "int \<Rightarrow> string" where
  "toISOString ms =
     (case civil_date (ms div 86400000) of (y, m, d) \<Rightarrow>
        let t = ms mod 86400000
        in year_text y @ ''-'' @ padded 2 m @ ''-'' @ padded 2 d @ ''T'' @
           padded 2 (t div 3600000) @ '':'' @ padded 2 (t div 60000 mod 60) @ '':'' @
           padded 2 (t div 1000 mod 60) @ ''.'' @ padded 3 (t mod 1000) @ ''Z'')"

definition sessionFileName :: "int \<Rightarrow> ident \<Rightarrow> string" where
  "sessionFileName createdAt i =
     map (\<lambda>c. if c = CHR '':'' \<or> c = CHR ''.'' then CHR ''-'' else c) (toISOString createdAt) @
     ''_'' @ i @ ''.jsonl''"

section \<open>Listing and opening\<close>

definition ends_with :: "string \<Rightarrow> string \<Rightarrow> bool" where
  "ends_with s suffix \<longleftrightarrow> length suffix \<le> length s \<and> drop (length s - length suffix) s = suffix"

definition jsonlSessionsRoot :: "'f file_ops \<Rightarrow> 'f \<Rightarrow> path \<Rightarrow> session_error + path" where
  "jsonlSessionsRoot ops f sessionsRoot = fileResult (fo_absolutePath ops f sessionsRoot)"

definition jsonlSessionDirectory :: "'f file_ops \<Rightarrow> 'f \<Rightarrow> path \<Rightarrow> string \<Rightarrow> session_error + path" where
  "jsonlSessionDirectory ops f sessionsRoot cwd =
     fileResult (fo_joinPath ops f [sessionsRoot, jsonlSessionDirectoryName cwd])"

definition jsonlSessionDirectories ::
    "'f file_ops \<Rightarrow> 'f \<Rightarrow> path \<Rightarrow> string option \<Rightarrow> session_error + path list" where
  "jsonlSessionDirectories ops f sessionsRootInput cwd =
     (case jsonlSessionsRoot ops f sessionsRootInput of
        Inl e \<Rightarrow> Inl e
      | Inr sessionsRoot \<Rightarrow>
          (case cwd of
             Some c \<Rightarrow>
               (case fileResult (fo_absolutePath ops f c) of
                  Inl e \<Rightarrow> Inl e
                | Inr resolvedCwd \<Rightarrow>
                    (case jsonlSessionDirectory ops f sessionsRoot resolvedCwd of
                       Inl e \<Rightarrow> Inl e
                     | Inr directory \<Rightarrow>
                         (case fileResult (fo_exists ops f directory) of
                            Inl e \<Rightarrow> Inl e
                          | Inr b \<Rightarrow> Inr (if b then [directory] else []))))
           | None \<Rightarrow>
               (case fileResult (fo_exists ops f sessionsRoot) of
                  Inl e \<Rightarrow> Inl e
                | Inr b \<Rightarrow>
                    if \<not> b then Inr []
                    else (case fileResult (fo_listDir ops f sessionsRoot) of
                            Inl e \<Rightarrow> Inl e
                          | Inr entries \<Rightarrow>
                              Inr (map fi_path
                                (filter (\<lambda>e. fi_kind e = Directory \<or> fi_kind e = Symlink) entries))))))"

fun list_files :: "'f file_ops \<Rightarrow> 'f \<Rightarrow> file_info list \<Rightarrow> session_error + jsonl_metadata list" where
  "list_files ops f [] = Inr []"
| "list_files ops f (info # infos) =
     (case fileResult (fo_readTextLines ops f (fi_path info) 1) of
        Inl e \<Rightarrow> Inl e
      | Inr firstLines \<Rightarrow>
          (case list_files ops f infos of
             Inl e \<Rightarrow> Inl e
           | Inr rest \<Rightarrow>
               (case firstLines of
                  [] \<Rightarrow> Inr rest
                | firstLine # _ \<Rightarrow>
                    if firstLine = [] then Inr rest
                    else (case parseHeader firstLine of
                            Inl _ \<Rightarrow> Inr rest
                          | Inr header \<Rightarrow>
                              Inr (metadataFromHeader header (fi_path info) (fi_mtimeMs info) # rest)))))"

fun list_directories :: "'f file_ops \<Rightarrow> 'f \<Rightarrow> path list \<Rightarrow> session_error + jsonl_metadata list" where
  "list_directories ops f [] = Inr []"
| "list_directories ops f (directory # ds) =
     (case fileResult (fo_listDir ops f directory) of
        Inl e \<Rightarrow> Inl e
      | Inr infos \<Rightarrow>
          (case list_files ops f
              (filter (\<lambda>e. fi_kind e \<noteq> Directory \<and> ends_with (fi_name e) ''.jsonl'') infos) of
             Inl e \<Rightarrow> Inl e
           | Inr found \<Rightarrow>
               (case list_directories ops f ds of Inl e \<Rightarrow> Inl e | Inr rest \<Rightarrow> Inr (found @ rest))))"

definition listJsonlSessionMetadata ::
    "'f file_ops \<Rightarrow> 'f \<Rightarrow> path \<Rightarrow> string option \<Rightarrow> session_error + jsonl_metadata list" where
  "listJsonlSessionMetadata ops f sessionsRootInput cwd =
     (case jsonlSessionDirectories ops f sessionsRootInput cwd of
        Inl e \<Rightarrow> Inl e
      | Inr directories \<Rightarrow>
          (case list_directories ops f directories of
             Inl e \<Rightarrow> Inl e
           | Inr metadata \<Rightarrow> Inr (sort_by (\<lambda>m. - jm_modifiedAt m) metadata)))"

definition loadJsonlSessionStorage ::
    "'f file_ops \<Rightarrow> 'f \<Rightarrow> jsonl_metadata \<Rightarrow> 'f \<times> (load_error + jsonl_storage)" where
  "loadJsonlSessionStorage ops f metadata =
     (case fileResult (fo_exists ops f (jm_path metadata)) of
        Inl e \<Rightarrow> (f, Inl (LoadFailed e))
      | Inr b \<Rightarrow>
          if \<not> b then (f, Inl (LoadFailed NotFound))
          else (case jsonl_load ops f (jm_path metadata) of
                  (f1, Inl e) \<Rightarrow> (f1, Inl e)
                | (f1, Inr storage) \<Rightarrow>
                    (f1, if sm_id (jl_metadata storage) \<noteq> sm_id metadata then Inl (LoadFailed InvalidEntry)
                         else Inr storage)))"

section \<open>The repository\<close>

record jsonl_repo =
  jr_sessionsRootInput :: path
  jr_activeCreateDestinations :: "string set"
  jr_rootPromise :: "(session_error + path) option"

record jsonl_create_options =
  jc_id :: "ident option"
  jc_parentSessionId :: "ident option"
  jc_cwd :: string
  jc_heap :: js_heap
  jc_metadataValue :: heap_value \<comment> \<open>\<open>HUndefined\<close>: no metadata\<close>
  jc_metadata :: json_fields

definition repo_root :: "'f file_ops \<Rightarrow> 'f \<Rightarrow> jsonl_repo \<Rightarrow> jsonl_repo \<times> (session_error + path)" where
  "repo_root ops f repo =
     (case jr_rootPromise repo of
        Some r \<Rightarrow> (repo, r)
      | None \<Rightarrow>
          (let r = fileResult (fo_absolutePath ops f (jr_sessionsRootInput repo))
           in (repo\<lparr>jr_rootPromise := Some r\<rparr>, r)))"

definition sessionDirectory ::
    "'f file_ops \<Rightarrow> 'f \<Rightarrow> jsonl_repo \<Rightarrow> string \<Rightarrow> jsonl_repo \<times> (session_error + path)" where
  "sessionDirectory ops f repo cwd =
     (case repo_root ops f repo of
        (repo', Inl e) \<Rightarrow> (repo', Inl e)
      | (repo', Inr rootPath) \<Rightarrow>
          (repo', fileResult (fo_joinPath ops f [rootPath, jsonlSessionDirectoryName cwd])))"

definition sessionIdExists ::
    "'f file_ops \<Rightarrow> 'f \<Rightarrow> jsonl_repo \<Rightarrow> ident \<Rightarrow> string \<Rightarrow> jsonl_repo \<times> (session_error + bool)" where
  "sessionIdExists ops f repo i cwd =
     (let suffix = ''_'' @ i @ ''.jsonl''
      in case sessionDirectory ops f repo cwd of
           (repo', Inl e) \<Rightarrow> (repo', Inl e)
         | (repo', Inr directory) \<Rightarrow>
             (repo', case fileResult (fo_exists ops f directory) of
                Inl e \<Rightarrow> Inl e
              | Inr b \<Rightarrow>
                  if \<not> b then Inr False
                  else (case fileResult (fo_listDir ops f directory) of
                          Inl e \<Rightarrow> Inl e
                        | Inr files \<Rightarrow>
                            Inr (\<exists>e \<in> set files. fi_kind e \<noteq> Directory \<and> ends_with (fi_name e) suffix))))"

definition resolveCreateDestination ::
    "'f file_ops \<Rightarrow> 'f \<Rightarrow> jsonl_create_options \<Rightarrow> ident \<Rightarrow> session_error + (ident \<times> string)" where
  "resolveCreateDestination ops f opts uuid =
     (let i = (case jc_id opts of Some i \<Rightarrow> i | None \<Rightarrow> uuid)
      in case validateSessionId i of
           Inl e \<Rightarrow> Inl e
         | Inr _ \<Rightarrow>
             (case fileResult (fo_absolutePath ops f (jc_cwd opts)) of
                Inl e \<Rightarrow> Inl e
              | Inr cwd \<Rightarrow> Inr (i, cwd)))"

definition destination_key :: "ident \<times> string \<Rightarrow> string" where
  "destination_key destination = snd destination @ CHR 0x00 # fst destination"

definition claimCreateDestination ::
    "jsonl_repo \<Rightarrow> 'f \<Rightarrow> ident \<times> string \<Rightarrow> ('f \<Rightarrow> jsonl_repo \<Rightarrow> 'f \<times> jsonl_repo \<times> (load_error + 'a)) \<Rightarrow>
     'f \<times> jsonl_repo \<times> (load_error + 'a)" where
  "claimCreateDestination repo f destination operation =
     (let key = destination_key destination
      in if key \<in> jr_activeCreateDestinations repo then (f, repo, Inl (LoadFailed AlreadyExists))
         else (case operation f
                 (repo\<lparr>jr_activeCreateDestinations := insert key (jr_activeCreateDestinations repo)\<rparr>) of
                 (f1, repo1, r) \<Rightarrow>
                   (f1, repo1\<lparr>jr_activeCreateDestinations := jr_activeCreateDestinations repo1 - {key}\<rparr>, r)))"

definition prepareCreate ::
    "'f file_ops \<Rightarrow> 'f \<Rightarrow> jsonl_repo \<Rightarrow> ident \<times> string \<Rightarrow> jsonl_create_options \<Rightarrow> int \<Rightarrow>
     'f \<times> jsonl_repo \<times> (session_error + (jsonl_header \<times> path))" where
  "prepareCreate ops f repo destination opts now =
     (case destination of (i, cwd) \<Rightarrow>
     (case sessionIdExists ops f repo i cwd of
        (repo1, Inl e) \<Rightarrow> (f, repo1, Inl e)
      | (repo1, Inr True) \<Rightarrow> (f, repo1, Inl AlreadyExists)
      | (repo1, Inr False) \<Rightarrow>
          (case sessionDirectory ops f repo1 cwd of
             (repo2, Inl e) \<Rightarrow> (f, repo2, Inl e)
           | (repo2, Inr directory) \<Rightarrow>
               (case fileResult (fo_joinPath ops f [directory, sessionFileName now i]) of
                  Inl e \<Rightarrow> (f, repo2, Inl e)
                | Inr path \<Rightarrow>
                    if jc_metadataValue opts \<noteq> HUndefined \<and>
                       assertJsonSerializable (jc_heap opts) (jc_metadataValue opts) \<noteq> Some (Inr ())
                    then (f, repo2, Inl InvalidPayload)
                    else
                      (let header = \<lparr>jh_id = i, jh_createdAt = now, jh_cwd = cwd,
                             jh_parentSessionId = jc_parentSessionId opts, jh_legacyParentSessionPath = None,
                             jh_metadata = (if jc_metadataValue opts = HUndefined then None
                                            else Some (jc_metadata opts))\<rparr>
                       in case fo_createDir ops f directory of (f1, r) \<Rightarrow>
                            (case fileResult r of
                               Inl e \<Rightarrow> (f1, repo2, Inl e)
                             | Inr _ \<Rightarrow> (f1, repo2, Inr (header, path))))))))"

definition jsonl_repo_create ::
    "'f file_ops \<Rightarrow> 'f \<Rightarrow> jsonl_repo \<Rightarrow> jsonl_create_options \<Rightarrow> ident \<Rightarrow> int \<Rightarrow>
     'f \<times> jsonl_repo \<times> (load_error + jsonl_storage)" where
  "jsonl_repo_create ops f repo opts uuid now =
     (case resolveCreateDestination ops f opts uuid of
        Inl e \<Rightarrow> (f, repo, Inl (LoadFailed e))
      | Inr destination \<Rightarrow>
          claimCreateDestination repo f destination (\<lambda>f repo.
            (case prepareCreate ops f repo destination opts now of
               (f1, repo1, Inl e) \<Rightarrow> (f1, repo1, Inl (LoadFailed e))
             | (f1, repo1, Inr (header, path)) \<Rightarrow>
                 (case jsonl_create ops f1 path header of
                    (f2, Inl e) \<Rightarrow> (f2, repo1, Inl (LoadFailed e))
                  | (f2, Inr storage) \<Rightarrow> (f2, repo1, Inr storage)))))"

definition jsonl_repo_open ::
    "'f file_ops \<Rightarrow> 'f \<Rightarrow> jsonl_metadata \<Rightarrow> 'f \<times> (load_error + jsonl_storage)" where
  "jsonl_repo_open ops f metadata = loadJsonlSessionStorage ops f metadata"

definition jsonl_repo_list ::
    "'f file_ops \<Rightarrow> 'f \<Rightarrow> jsonl_repo \<Rightarrow> string option \<Rightarrow> session_error + jsonl_metadata list" where
  "jsonl_repo_list ops f repo cwd = listJsonlSessionMetadata ops f (jr_sessionsRootInput repo) cwd"

definition jsonl_repo_delete :: "'f file_ops \<Rightarrow> 'f \<Rightarrow> jsonl_metadata \<Rightarrow> 'f \<times> (session_error + unit)" where
  "jsonl_repo_delete ops f metadata =
     (case fo_remove ops f (jm_path metadata) of (f1, r) \<Rightarrow> (f1, fileResult r))"

definition jsonl_repo_fork ::
    "'f file_ops \<Rightarrow> 'f \<Rightarrow> jsonl_repo \<Rightarrow> jsonl_metadata \<Rightarrow> jsonl_create_options \<Rightarrow> fork_options \<Rightarrow> ident \<Rightarrow> int \<Rightarrow>
     'f \<times> jsonl_repo \<times> (load_error + jsonl_storage)" where
  "jsonl_repo_fork ops f repo source opts fork uuid now =
     (case loadJsonlSessionStorage ops f source of
        (f1, Inl e) \<Rightarrow> (f1, repo, Inl e)
      | (f1, Inr sourceStorage) \<Rightarrow>
          (let createOptions = opts\<lparr>jc_parentSessionId :=
                 (case jc_parentSessionId opts of Some p \<Rightarrow> Some p | None \<Rightarrow> Some (sm_id source))\<rparr>
           in case resolveCreateDestination ops f1 createOptions uuid of
                Inl e \<Rightarrow> (f1, repo, Inl (LoadFailed e))
              | Inr destination \<Rightarrow>
                  claimCreateDestination repo f1 destination (\<lambda>f repo.
                    (case prepareCreate ops f repo destination createOptions now of
                       (f2, repo1, Inl e) \<Rightarrow> (f2, repo1, Inl (LoadFailed e))
                     | (f2, repo1, Inr (header, path)) \<Rightarrow>
                         (case jsonl_fork ops (f2, sourceStorage) path header fork of
                            (f3, r) \<Rightarrow> (f3, repo1, r))))))"

section \<open>The session file behind the session interface\<close>

definition with_state :: "'s \<times> (session_error + 'a) \<Rightarrow> ('s \<times> 'a) outcome" where
  "with_state r = (case r of (s, Inl e) \<Rightarrow> Inl e | (s, Inr x) \<Rightarrow> Inr (s, x))"

definition jsonl_ops :: "'f file_ops \<Rightarrow> 'f jsonl storage_ops" where
  "jsonl_ops ops = \<lparr>so_getMetadata = (\<lambda>s. session_metadata.truncate (jl_metadata (snd s))),
     so_getLanes = (\<lambda>s. getLanes (jsonl_view s)),
     so_createLane = (\<lambda>s lane leaf. done_of (jsonl_createLane ops s lane leaf)),
     so_moveLane = (\<lambda>s lane dest. done_of (jsonl_moveLane ops s lane dest)),
     so_appendEntry = (\<lambda>s p lane now. with_state (jsonl_appendEntry ops s p lane now)),
     so_appendRecord = (\<lambda>s r now. with_state (jsonl_appendRecord ops s r now)),
     so_getEntry = (\<lambda>s. getEntry (jsonl_view s)), so_findEntries = (\<lambda>s. findEntries (jsonl_view s)),
     so_findEntriesOnBranch = (\<lambda>s. findEntriesOnBranch (jsonl_view s)),
     so_findRecords = (\<lambda>s. findRecords (jsonl_view s)),
     so_findOpenOperations = (\<lambda>s. findOpenOperations (jsonl_view s)),
     so_getLog = (\<lambda>s. getLog (jsonl_view s)), so_getName = (\<lambda>s. ss_name (jsonl_view s)),
     so_setName = (\<lambda>s name. done_of (jsonl_setName ops s name)),
     so_getLabel = (\<lambda>s. getLabel (jsonl_view s)),
     so_setLabel = (\<lambda>s i label. done_of (jsonl_setLabel ops s i label)),
     so_getStats = (\<lambda>s. ss_stats (jsonl_view s))\<rparr>"

lemma append_entry_result:
  assumes "with_state (jsonl_appendEntry ops s p lane now) = Inr (s', e)"
  shows "done_of (jsonl_appendEntry ops s p lane now) = Inr s'"
    "EntryMutation (Some lane) e = expected_mutation (jsonl_view s) (AppendEntry p lane now)"
  using assms
  by (auto simp: with_state_def done_of_def jsonl_appendEntry_def jsonl_view_def requireLane_def Let_def
      split: sum.splits prod.splits option.splits)

interpretation jsonl_client: storage_client jsonl_view "jsonl_store ops" "jsonl_ops ops" for ops :: "'f file_ops"
proof (unfold_locales, goal_cases)
  case (4 s lane p now)
  then show ?case
    by (simp add: jsonl_ops_def with_state_def jsonl_appendEntry_def jsonl_view_def requireLane_def)
next
  case (5 s lane leaf p now)
  then show ?case
    by (simp add: jsonl_ops_def with_state_def jsonl_appendEntry_def jsonl_view_def requireLane_def validateUnusedId_def)
next
  case (6 s p lane now s' e)
  then show ?case using append_entry_result [of ops s p lane now s' e] by (simp add: jsonl_ops_def)
qed (simp_all add: jsonl_ops_def)

section \<open>Claims\<close>

text \<open>A claim is released whatever the operation does, and a claimed destination is refused.\<close>

lemma claim_released:
  assumes "claimCreateDestination repo f destination operation = (f', repo', r)"
    and "\<And>g q g' q' r'. operation g q = (g', q', r') \<Longrightarrow>
      jr_activeCreateDestinations q' = jr_activeCreateDestinations q"
  shows "jr_activeCreateDestinations repo' = jr_activeCreateDestinations repo"
  using assms by (auto simp: claimCreateDestination_def Let_def split: if_splits prod.splits)

lemma claimed_refused:
  "destination_key destination \<in> jr_activeCreateDestinations repo \<Longrightarrow>
     claimCreateDestination repo f destination operation = (f, repo, Inl (LoadFailed AlreadyExists))"
  by (simp add: claimCreateDestination_def Let_def)

lemma ends_with_append [simp]: "ends_with (x @ y) y"
  by (simp add: ends_with_def)

lemma file_name_suffix: "ends_with (sessionFileName t (x @ ''_'' @ i)) (''_'' @ i @ ''.jsonl'')"
proof -
  have "\<exists>z. sessionFileName t (x @ ''_'' @ i) = z @ (''_'' @ i @ ''.jsonl'')"
    by (simp add: sessionFileName_def)
  then obtain z where "sessionFileName t (x @ ''_'' @ i) = z @ (''_'' @ i @ ''.jsonl'')" by blast
  then show ?thesis by (simp only: ends_with_append)
qed

lemma suffix_exists:
  assumes "sessionDirectory ops f repo cwd = (repo', Inr directory)"
    and "fo_exists ops f directory = Inr True" "fo_listDir ops f directory = Inr files"
    and "info \<in> set files" "fi_kind info \<noteq> Directory" "fi_name info = sessionFileName t (x @ ''_'' @ i)"
  shows "sessionIdExists ops f repo i cwd = (repo', Inr True)"
proof -
  have "ends_with (fi_name info) (''_'' @ i @ ''.jsonl'')" using file_name_suffix assms(6) by (simp only:)
  then have "\<exists>e \<in> set files. fi_kind e \<noteq> Directory \<and> ends_with (fi_name e) (''_'' @ i @ ''.jsonl'')"
    using assms(4,5) by blast
  then show ?thesis using assms(1-3) by (simp add: sessionIdExists_def Let_def fileResult_def)
qed

section \<open>Property\<close>

text \<open>
  Whether an id is taken is decided by the end of the file names, and ids may contain an
  underscore: while a session with the id \<open>x_i\<close> has its file in the directory of the working
  directory, creating a session with the valid id \<open>i\<close> is refused as already existing, although
  no session has that id. The file system and the set of claims are left as they were.
\<close>

lemma free_id_refused_for_suffix:
  assumes "jc_id opts = Some i" "validateSessionId i = Inr ()"
    and "fo_absolutePath ops f (jc_cwd opts) = Inr cwd"
    and "destination_key (i, cwd) \<notin> jr_activeCreateDestinations repo"
    and "jr_rootPromise repo = Some (Inr rootPath)"
    and "fo_joinPath ops f [rootPath, jsonlSessionDirectoryName cwd] = Inr directory"
    and "fo_exists ops f directory = Inr True" "fo_listDir ops f directory = Inr files"
    and "info \<in> set files" "fi_kind info \<noteq> Directory" "fi_name info = sessionFileName t (x @ ''_'' @ i)"
  shows "jsonl_repo_create ops f repo opts uuid now = (f, repo, Inl (LoadFailed AlreadyExists))"
proof -
  let ?repo = "repo\<lparr>jr_activeCreateDestinations := insert (destination_key (i, cwd)) (jr_activeCreateDestinations repo)\<rparr>"
  have "sessionDirectory ops f ?repo cwd = (?repo, Inr directory)"
    using assms(5,6) by (simp add: sessionDirectory_def repo_root_def fileResult_def)
  from suffix_exists [OF this assms(7-11)]
  have "prepareCreate ops f ?repo (i, cwd) opts now = (f, ?repo, Inl AlreadyExists)"
    by (simp add: prepareCreate_def)
  moreover have "insert (destination_key (i, cwd)) (jr_activeCreateDestinations repo) - {destination_key (i, cwd)} =
      jr_activeCreateDestinations repo"
    using assms(4) by blast
  ultimately show ?thesis using assms(1-4)
    by (simp add: jsonl_repo_create_def resolveCreateDestination_def fileResult_def claimCreateDestination_def Let_def)
qed

definition demo_repo :: jsonl_repo where
  "demo_repo = \<lparr>jr_sessionsRootInput = ''r'', jr_activeCreateDestinations = {}, jr_rootPromise = Some (Inr ''r'')\<rparr>"

definition demo_create_options :: jsonl_create_options where
  "demo_create_options = \<lparr>jc_id = Some ''b'', jc_parentSessionId = None, jc_cwd = ''w'', jc_heap = [],
     jc_metadataValue = HUndefined, jc_metadata = []\<rparr>"

definition demo_repo_disk :: disk where
  "demo_repo_disk = \<lparr>dk_files = [(''/r/--w--/'' @ sessionFileName 0 ''a_b'', [])], dk_torn = None\<rparr>"

lemma demo_file_name: "sessionFileName 0 ''a_b'' = ''1970-01-01T00-00-00-000Z_a_b.jsonl''"
  by code_simp

lemma free_id_refused_for_suffix_witness:
  "jsonl_repo_create disk_ops demo_repo_disk demo_repo demo_create_options ''u'' 5 =
     (demo_repo_disk, demo_repo, Inl (LoadFailed AlreadyExists)) \<and> validateSessionId ''a_b'' = Inr ()"
proof
  let ?info = "disk_info (''/r/--w--/'' @ sessionFileName 0 (''a'' @ ''_'' @ ''b'')) []"
  show "jsonl_repo_create disk_ops demo_repo_disk demo_repo demo_create_options ''u'' 5 =
     (demo_repo_disk, demo_repo, Inl (LoadFailed AlreadyExists))"
    by (rule free_id_refused_for_suffix [where i = "''b''" and x = "''a''" and t = 0 and cwd = "''w''" and
        rootPath = "''r''" and directory = "''/r/--w--''" and files = "[?info]" and info = ?info])
      (simp_all add: demo_create_options_def demo_repo_def disk_ops_def demo_repo_disk_def disk_info_def
        demo_file_name validateSessionId_def is_alphanumeric_def jsonlSessionDirectoryName_def is_separator_def)
  show "validateSessionId ''a_b'' = Inr ()"
    by (simp add: validateSessionId_def is_alphanumeric_def)
qed

end
