(* ===== verification/Branch_Summary.thy ===== *)
theory Branch_Summary
  imports Compaction Jsonl_Repo
begin

text \<open>
  Summaries of abandoned branches, \<^verbatim>\<open>packages/agent/src/harness/compaction/branch-summarization.ts\<close>:
  which entries are left behind when a session moves to another entry, which of their messages fit the
  token budget, and the summary that is stored. The session is any storage through its operations; an
  id that is absent or empty is false in the source's conditions.
\<close>

section \<open>Entries that are left behind\<close>

definition from_entry :: "ident \<Rightarrow> branch_request" where
  "from_entry start = default_branch_request\<lparr>br_start := Some start\<rparr>"

text \<open>The walk from the old leaf; it follows parents, and a cycle of parents would keep it going (\<open>None\<close>).\<close>

partial_function (option) collect_loop ::
    "'s storage_ops \<Rightarrow> 's \<Rightarrow> ident option \<Rightarrow> ident option \<Rightarrow> entry list \<Rightarrow> entry list outcome option" where
  "collect_loop ops st commonAncestorId current entries =
     (case given current of
        None \<Rightarrow> Some (Inr entries)
      | Some i \<Rightarrow>
          if current = commonAncestorId then Some (Inr entries)
          else (case so_getEntry ops st i of
                  None \<Rightarrow> Some (Inl InvalidEntry)
                | Some e \<Rightarrow> collect_loop ops st commonAncestorId (e_parentId e) (entries @ [e])))"

definition collectEntriesForBranchSummary ::
    "'s storage_ops \<Rightarrow> 's \<Rightarrow> ident option \<Rightarrow> ident \<Rightarrow> (entry list \<times> ident option) outcome option" where
  "collectEntriesForBranchSummary ops st oldLeafId targetId =
     (case given oldLeafId of
        None \<Rightarrow> Some (Inr ([], None))
      | Some oldLeaf \<Rightarrow>
          (case queryBranchEntries ops st main_lane (from_entry oldLeaf) None of
             Inl e \<Rightarrow> Some (Inl e)
           | Inr oldEntries \<Rightarrow>
               (let oldPath = set (map e_id oldEntries)
                in case queryBranchEntries ops st main_lane (from_entry targetId) None of
                     Inl e \<Rightarrow> Some (Inl e)
                   | Inr targetPath \<Rightarrow>
                       (let commonAncestorId = map_option e_id (find (\<lambda>e. e_id e \<in> oldPath) targetPath)
                        in case collect_loop ops st commonAncestorId (Some oldLeaf) [] of
                             None \<Rightarrow> None
                           | Some (Inl e) \<Rightarrow> Some (Inl e)
                           | Some (Inr entries) \<Rightarrow> Some (Inr (rev entries, commonAncestorId))))))"

section \<open>Messages within the budget\<close>

record branch_preparation =
  bp_messages :: "agent_message list"
  bp_fileOps :: file_operations
  bp_totalTokens :: int

definition branch_message :: "entry \<Rightarrow> agent_message option" where
  "branch_message e =
     (case e_payload e of
        MessagePayload m _ \<Rightarrow> if role_of m = RoleToolResult then None else Some m
      | BranchSummaryPayload fromId summary _ _ \<Rightarrow>
          Some (BranchSummaryMessage (createBranchSummaryMessage summary fromId (e_timestamp e)))
      | CompactionPayload summary _ tokensBefore _ _ \<Rightarrow>
          Some (CompactionSummaryMessage (createCompactionSummaryMessage summary tokensBefore (e_timestamp e)))
      | _ \<Rightarrow> None)"

definition earlier_details :: "entry list \<Rightarrow> file_operations \<Rightarrow> file_operations" where
  "earlier_details entries fileOps =
     fold (\<lambda>e ops. case e_payload e of BranchSummaryPayload _ _ details _ \<Rightarrow> add_details details ops | _ \<Rightarrow> ops)
       entries fileOps"

text \<open>The loop over the entries from the last one back, on the reversed list.\<close>

fun branch_loop :: "int \<Rightarrow> entry list \<Rightarrow> branch_preparation \<Rightarrow> branch_preparation" where
  "branch_loop tokenBudget [] p = p"
| "branch_loop tokenBudget (e # es) p =
     (case branch_message e of
        None \<Rightarrow> branch_loop tokenBudget es p
      | Some message \<Rightarrow>
          (let p1 = p\<lparr>bp_fileOps := extractFileOpsFromMessage message (bp_fileOps p)\<rparr>;
               tokens = int (estimateTokens message);
               added = p1\<lparr>bp_messages := message # bp_messages p1, bp_totalTokens := bp_totalTokens p1 + tokens\<rparr>
           in if 0 < tokenBudget \<and> tokenBudget < bp_totalTokens p + tokens
              then (if entry_type_of e \<in> {TCompaction, TBranchSummary} \<and> 10 * bp_totalTokens p < 9 * tokenBudget
                    then added else p1)
              else branch_loop tokenBudget es added))"

definition prepareBranchEntries :: "entry list \<Rightarrow> int \<Rightarrow> branch_preparation" where
  "prepareBranchEntries entries tokenBudget =
     branch_loop tokenBudget (rev entries)
       \<lparr>bp_messages = [], bp_fileOps = earlier_details entries createFileOps, bp_totalTokens = 0\<rparr>"

section \<open>The summary\<close>

definition BRANCH_SUMMARY_PREAMBLE :: string where
  \<open>BRANCH_SUMMARY_PREAMBLE =
     ''The user explored a different conversation branch before returning here.'' @ nl @
     ''Summary of that exploration:'' @ nl @ nl\<close>

definition BRANCH_SUMMARY_PROMPT :: string where
  \<open>BRANCH_SUMMARY_PROMPT =
     ''Create a structured summary of this conversation branch for context when returning later.'' @ nl @
     nl @ ''Use this EXACT format:'' @ nl @ nl @ ''## Goal'' @ nl @
     ''[What was the user trying to accomplish in this branch?]'' @ nl @ nl @
     ''## Constraints & Preferences'' @ nl @
     ''- [Any constraints, preferences, or requirements mentioned]'' @ nl @
     ''- [Or "(none)" if none were mentioned]'' @ nl @ nl @ ''## Progress'' @ nl @ ''### Done'' @ nl @
     ''- [x] [Completed tasks/changes]'' @ nl @ nl @ ''### In Progress'' @ nl @
     ''- [ ] [Work that was started but not finished]'' @ nl @ nl @ ''### Blocked'' @ nl @
     ''- [Issues preventing progress, if any]'' @ nl @ nl @ ''## Key Decisions'' @ nl @
     ''- **[Decision]**: [Brief rationale]'' @ nl @ nl @ ''## Next Steps'' @ nl @
     ''1. [What should happen next to continue this work]'' @ nl @ nl @
     ''Keep each section concise. Preserve exact file paths, function names, and error messages.''\<close>

record branch_summary_options =
  bo_customInstructions :: "string option"
  bo_replaceInstructions :: bool
  bo_reserveTokens :: "int option"

record branch_summary_result =
  bs_summary :: string
  bs_usage :: "usage option"
  bs_readFiles :: "string list"
  bs_modifiedFiles :: "string list"

definition branch_instructions :: "branch_summary_options \<Rightarrow> string" where
  "branch_instructions opts =
     (case given (bo_customInstructions opts) of
        None \<Rightarrow> BRANCH_SUMMARY_PROMPT
      | Some custom \<Rightarrow>
          if bo_replaceInstructions opts then custom
          else BRANCH_SUMMARY_PROMPT @ nl @ nl @ ''Additional focus: '' @ custom)"

definition generateBranchSummary ::
    "('w, 'e) model_env \<Rightarrow> entry list \<Rightarrow> model_info \<Rightarrow> branch_summary_options \<Rightarrow> retry_policy option \<Rightarrow> 'w \<Rightarrow>
     'w \<times> ('e + (summary_error + branch_summary_result))" where
  "generateBranchSummary env entries model opts retry w =
     (let reserveTokens = (case bo_reserveTokens opts of None \<Rightarrow> 16384 | Some n \<Rightarrow> n);
          contextWindow = (if mi_contextWindow model = 0 then 128000 else mi_contextWindow model);
          prepared = prepareBranchEntries entries (contextWindow - reserveTokens)
      in if bp_messages prepared = []
         then (w, Inr (Inr \<lparr>bs_summary = ''No content to summarize'', bs_usage = None, bs_readFiles = [],
                 bs_modifiedFiles = []\<rparr>))
         else (case request_summary env model (conversation_block (bp_messages prepared) @ branch_instructions opts)
                      2048 None retry w of
                 (w', Inl e) \<Rightarrow> (w', Inl e)
               | (w', Inr (Inl e)) \<Rightarrow> (w', Inr (Inl e))
               | (w', Inr (Inr (s, u))) \<Rightarrow>
                   (case computeFileLists (bp_fileOps prepared) of (readFiles, modifiedFiles) \<Rightarrow>
                      (w', Inr (Inr \<lparr>bs_summary = BRANCH_SUMMARY_PREAMBLE @ s @ formatFileOperations readFiles modifiedFiles,
                         bs_usage = Some u, bs_readFiles = readFiles, bs_modifiedFiles = modifiedFiles\<rparr>)))))"

section \<open>Branches that meet\<close>

lemma root_path_suffix: "root_path (xs @ y # ys) \<Longrightarrow> root_path (y # ys)"
proof (induction xs)
  case (Cons x xs)
  then show ?case by (cases "xs @ y # ys") auto
qed simp

lemma entry_of_id:
  assumes "wf_tree s" "a \<in> set (ss_entries s)" "b \<in> set (ss_entries s)" "e_id a = e_id b"
  shows "a = b"
  using assms getEntry_wf [OF assms(1)] by (metis option.inject)

lemma branch_suffix:
  assumes wf: "wf_tree s" and i: "i \<in> e_id ` set (ss_entries s)" and b: "branch_of s i = xs @ y # ys"
  shows "branch_of s (e_id y) = y # ys"
proof -
  note bi = walkToRoot_branch [OF wf i]
  have y: "y \<in> set (ss_entries s)" using bi(3) b by auto
  then have yi: "e_id y \<in> e_id ` set (ss_entries s)" by blast
  note branch_y = walkToRoot_branch [OF wf yi]
  note inj = entry_of_id [OF wf]
  have "hd (branch_of s (e_id y)) = y"
    using branch_y(2,3,5) y inj by (cases "branch_of s (e_id y)") auto
  moreover have "root_path (y # ys)" using bi(2) b root_path_suffix by metis
  moreover have "\<forall>a \<in> set (branch_of s (e_id y)). \<forall>b \<in> set (y # ys). e_id a = e_id b \<longrightarrow> a = b"
    using inj branch_y(3) bi(3) b by (metis Un_iff set_append subsetD)
  ultimately show ?thesis using root_path_unique [OF branch_y(2), of "y # ys"] by simp
qed

text \<open>Where two branches first meet, seen from the target, everything older is shared and nothing newer.\<close>

lemma branches_meet:
  assumes wf: "wf_tree s" and i: "i \<in> e_id ` set (ss_entries s)" and j: "j \<in> e_id ` set (ss_entries s)"
    and meet: "find (\<lambda>e. e_id e \<in> e_id ` set (branch_of s i)) (branch_of s j) = Some a"
  obtains xs ys where "branch_of s i = xs @ a # ys" "\<forall>x \<in> set xs. x \<notin> set (branch_of s j)"
    "set (a # ys) \<subseteq> set (branch_of s j)"
proof -
  note inj = entry_of_id [OF wf]
  obtain us vs where j': "branch_of s j = us @ a # vs" and new: "\<forall>x \<in> set us. e_id x \<notin> e_id ` set (branch_of s i)"
    and a: "e_id a \<in> e_id ` set (branch_of s i)"
    using meet by (auto simp: find_Some_iff2 find_Some_iff) (metis id_take_nth_drop in_set_conv_nth length_take
        min_less_iff_conj nth_take)
  have "a \<in> set (ss_entries s)" using walkToRoot_branch(3) [OF wf j] j' by auto
  with a inj walkToRoot_branch(3) [OF wf i] have "a \<in> set (branch_of s i)" by blast
  then obtain xs ys where i': "branch_of s i = xs @ a # ys" by (meson split_list)
  have tail: "a # ys = a # vs" using branch_suffix [OF wf i i'] branch_suffix [OF wf j j'] by simp
  have "x \<notin> set (branch_of s j)" if x: "x \<in> set xs" for x
  proof
    assume "x \<in> set (branch_of s j)"
    moreover have "x \<notin> set us" using new x i' by auto
    ultimately have "x \<in> set (a # ys)" using j' tail by auto
    moreover have "distinct (branch_of s i)" using branch_of_distinct [OF wf i] by (simp add: distinct_map)
    ultimately show False using i' x by auto
  qed
  with i' j' tail that show ?thesis by auto
qed

lemma find_none_disjoint:
  assumes "find (\<lambda>e. e_id e \<in> e_id ` set bs) cs = None" "x \<in> set bs"
  shows "x \<notin> set cs"
  using assms by (auto simp: find_None_iff)

section \<open>Readers of branches\<close>

locale branch_reader = storage_client view store ops
  for view :: "'s \<Rightarrow> session_state" and store :: "'s \<Rightarrow> storage_write \<Rightarrow> session_error + 's" and ops :: "'s storage_ops" +
  assumes reads_entry: "so_getEntry ops st i = getEntry (view st) i"
begin

lemma from_entry_branch:
  assumes "wf_state (view st)" "i \<in> e_id ` set (ss_entries (view st))"
  shows "queryBranchEntries ops st lane (from_entry i) None = Inr (branch_of (view st) i)"
  using default_branch_query [OF assms, of None]
  by (simp add: queryBranchEntries_def from_entry_def default_branch_request_def check_limit_def check_cursor_def
      reads_branch result_limit_def limit_ok_def assertValidLimit_def limited_def)

lemma collect_path:
  assumes wf: "wf_tree (view st)" and ids: "\<forall>e \<in> set (ss_entries (view st)). e_id e \<noteq> []"
    and path: "root_path path" "set path \<subseteq> set (ss_entries (view st))"
    and split: "path = xs @ ys" "\<forall>x \<in> set xs. Some (e_id x) \<noteq> common"
      "ys = [] \<or> (\<exists>a zs. ys = a # zs \<and> common = Some (e_id a))"
  shows "collect_loop ops st common (Some (e_id (hd path))) acc = Some (Inr (acc @ xs))"
  using path split
proof (induction xs arbitrary: path acc)
  case Nil
  then obtain a zs where "ys = a # zs" "common = Some (e_id a)" "path = ys" by (cases path) auto
  moreover have "e_id a \<noteq> []" using calculation Nil.prems(2) ids by auto
  ultimately show ?case by (subst collect_loop.simps) (simp add: given_def)
next
  case (Cons x xs)
  then have path: "path = x # xs @ ys" by simp
  have x: "x \<in> set (ss_entries (view st))" using Cons.prems(2) path by auto
  have "so_getEntry ops st (e_id x) = Some x" using x wf by (simp add: reads_entry getEntry_wf)
  moreover have "given (Some (e_id x)) = Some (e_id x)" using ids x by (simp add: given_def)
  ultimately have step: "collect_loop ops st common (Some (e_id (hd path))) acc =
      collect_loop ops st common (e_parentId x) (acc @ [x])"
    using path Cons.prems(4) by (subst collect_loop.simps) simp
  show ?case
  proof (cases "xs @ ys")
    case Nil
    then have "e_parentId x = None" using Cons.prems(1) path by simp
    then show ?thesis unfolding step using Nil by (subst collect_loop.simps) (simp add: given_def)
  next
    case (Cons b bs)
    then have parent: "e_parentId x = Some (e_id b)" "root_path (xs @ ys)" using Cons.prems(1) path by simp_all
    have "collect_loop ops st common (Some (e_id (hd (xs @ ys)))) (acc @ [x]) = Some (Inr ((acc @ [x]) @ xs))"
      by (rule Cons.IH) (use Cons.prems parent path in auto)
    then show ?thesis unfolding step using parent(1) Cons by simp
  qed
qed

lemma collects_abandoned:
  assumes wf: "wf_state (view st)" and ids: "\<forall>e \<in> set (ss_entries (view st)). e_id e \<noteq> []"
    and i: "i \<in> e_id ` set (ss_entries (view st))" and j: "j \<in> e_id ` set (ss_entries (view st))"
  shows "collectEntriesForBranchSummary ops st (Some i) j =
    Some (Inr (rev (filter (\<lambda>e. e \<notin> set (branch_of (view st) j)) (branch_of (view st) i)),
      map_option e_id (find (\<lambda>e. e \<in> set (branch_of (view st) i)) (branch_of (view st) j))))"
proof -
  let ?bi = "branch_of (view st) i" and ?bj = "branch_of (view st) j"
  have tree: "wf_tree (view st)" using wf by (simp add: wf_state_def)
  note bi = walkToRoot_branch [OF tree i] and bj = walkToRoot_branch [OF tree j]
  have "e_id x \<in> e_id ` set ?bi \<longleftrightarrow> x \<in> set ?bi" if "x \<in> set ?bj" for x
    using that bi(3) bj(3) entry_of_id [OF tree, of x] by blast
  then have mem: "find (\<lambda>e. e_id e \<in> e_id ` set ?bi) ?bj = find (\<lambda>e. e \<in> set ?bi) ?bj"
    by (intro find_cong refl)
  let ?common = "map_option e_id (find (\<lambda>e. e_id e \<in> e_id ` set ?bi) ?bj)"
  have "\<exists>xs ys. ?bi = xs @ ys \<and> xs = filter (\<lambda>e. e \<notin> set ?bj) ?bi \<and> (\<forall>x \<in> set xs. Some (e_id x) \<noteq> ?common) \<and>
      (ys = [] \<or> (\<exists>a zs. ys = a # zs \<and> ?common = Some (e_id a)))"
  proof (cases "find (\<lambda>e. e_id e \<in> e_id ` set ?bi) ?bj")
    case None
    then have "filter (\<lambda>e. e \<notin> set ?bj) ?bi = ?bi" using find_none_disjoint [OF None] by (simp add: filter_id_conv)
    with None show ?thesis by (intro exI [of _ ?bi] exI [of _ "[]"]) simp
  next
    case (Some a)
    from branches_meet [OF tree i j Some] obtain xs ys where x: "?bi = xs @ a # ys"
      "\<forall>x \<in> set xs. x \<notin> set ?bj" "set (a # ys) \<subseteq> set ?bj" .
    then have "filter (\<lambda>e. e \<notin> set ?bj) (xs @ a # ys) = xs"
      by (auto simp: filter_id_conv filter_empty_conv)
    moreover have "\<forall>x \<in> set xs. e_id x \<noteq> e_id a"
      using branch_of_distinct [OF tree i] x(1) by (auto simp: image_iff)
    ultimately show ?thesis using x(1) Some by (intro exI [of _ xs] exI [of _ "a # ys"]) simp
  qed
  then obtain xs ys where x: "?bi = xs @ ys" "xs = filter (\<lambda>e. e \<notin> set ?bj) ?bi"
      "\<forall>x \<in> set xs. Some (e_id x) \<noteq> ?common" "ys = [] \<or> (\<exists>a zs. ys = a # zs \<and> ?common = Some (e_id a))" by blast
  have "collect_loop ops st ?common (Some i) [] = Some (Inr xs)"
    using collect_path [OF tree ids bi(2,3) x(1,3,4), of "[]"] bi(5) by simp
  moreover have "i \<noteq> []" using i ids by auto
  ultimately show ?thesis using x(2) from_entry_branch [OF wf i] from_entry_branch [OF wf j] mem
    by (simp add: collectEntriesForBranchSummary_def given_def Let_def)
qed

end

interpretation memory_branches: branch_reader ms_state mem_write memory_ops
  by unfold_locales (simp add: memory_ops_def)

interpretation jsonl_branches: branch_reader jsonl_view "jsonl_store ops" "jsonl_ops ops" for ops :: "'f file_ops"
  by unfold_locales (simp add: jsonl_ops_def)

section \<open>Messages that fit\<close>

text \<open>
  The messages selected for a summary are the last messages of the branch, and their tokens stay
  within the budget, but for one summary that may exceed it.
\<close>

lemma branch_loop_suffix:
  "\<exists>k. bp_messages (branch_loop B (rev es) p) = drop k (List.map_filter branch_message es) @ bp_messages p \<and>
     bp_totalTokens (branch_loop B (rev es) p) - bp_totalTokens p =
       tokens_of (drop k (List.map_filter branch_message es))"
proof (induction es arbitrary: p rule: rev_induct)
  case Nil
  then show ?case by (simp add: List.map_filter_def tokens_of_def)
next
  case (snoc e es)
  let ?all = "List.map_filter branch_message (es @ [e])"
  show ?case
  proof (cases "branch_message e")
    case None
    then have "?all = List.map_filter branch_message es" by (simp add: List.map_filter_def)
    then show ?thesis using snoc [of p] None by simp
  next
    case (Some m)
    then have all: "?all = List.map_filter branch_message es @ [m]" by (simp add: List.map_filter_def)
    let ?n = "length (List.map_filter branch_message es)"
    define p1 where "p1 = p\<lparr>bp_fileOps := extractFileOpsFromMessage m (bp_fileOps p)\<rparr>"
    define p2 where "p2 = p1\<lparr>bp_messages := m # bp_messages p1,
      bp_totalTokens := bp_totalTokens p1 + int (estimateTokens m)\<rparr>"
    have parts: "bp_messages p1 = bp_messages p" "bp_totalTokens p1 = bp_totalTokens p"
      "bp_messages p2 = m # bp_messages p" "bp_totalTokens p2 = bp_totalTokens p + int (estimateTokens m)"
      by (simp_all add: p1_def p2_def)
    have "branch_loop B (rev (es @ [e])) p \<in> {p1, p2, branch_loop B (rev es) p2}"
      using Some by (simp add: Let_def p1_def p2_def)
    then consider "branch_loop B (rev (es @ [e])) p = p1" | "branch_loop B (rev (es @ [e])) p = p2"
      | "branch_loop B (rev (es @ [e])) p = branch_loop B (rev es) p2" by blast
    then show ?thesis
    proof cases
      case 1
      then show ?thesis unfolding all by (intro exI [of _ "Suc ?n"]) (simp add: parts tokens_of_def)
    next
      case 2
      then show ?thesis unfolding all by (intro exI [of _ ?n]) (simp add: parts tokens_of_def)
    next
      case 3
      obtain k where k: "bp_messages (branch_loop B (rev es) p2) =
          drop k (List.map_filter branch_message es) @ bp_messages p2"
        "bp_totalTokens (branch_loop B (rev es) p2) - bp_totalTokens p2 =
          tokens_of (drop k (List.map_filter branch_message es))"
        using snoc by blast
      show ?thesis unfolding all 3
        by (intro exI [of _ "min k ?n"]) (use k in \<open>auto simp: parts tokens_of_def min_def\<close>)
    qed
  qed
qed

lemma branch_messages_suffix:
  "\<exists>k. bp_messages (prepareBranchEntries es B) = drop k (List.map_filter branch_message es)"
  "bp_totalTokens (prepareBranchEntries es B) = tokens_of (bp_messages (prepareBranchEntries es B))"
  using branch_loop_suffix [of B es "\<lparr>bp_messages = [], bp_fileOps = earlier_details es createFileOps, bp_totalTokens = 0\<rparr>"]
  by (auto simp: prepareBranchEntries_def)

section \<open>Property\<close>

text \<open>
  C38. What a branch summary covers. Moving from one entry of a session to another, the entries
  collected for the summary are exactly those on the branch that is left which are not on the branch
  that is entered, oldest first, and the common ancestor is the first entry of the entered branch,
  from its end, that both share. The walk ends and no entry is missing, in every reachable session
  whose entries have ids that are not empty.
\<close>

theorem branch_summary_covers_abandoned:
  assumes "memory_reachable st" "\<forall>e \<in> set (ss_entries (ms_state st)). e_id e \<noteq> []"
    and "getEntry (ms_state st) oldLeaf = Some a" "getEntry (ms_state st) target = Some b"
  shows "collectEntriesForBranchSummary memory_ops st (Some oldLeaf) target =
    Some (Inr (rev (filter (\<lambda>e. e \<notin> set (branch_of (ms_state st) target)) (branch_of (ms_state st) oldLeaf)),
      map_option e_id (find (\<lambda>e. e \<in> set (branch_of (ms_state st) oldLeaf)) (branch_of (ms_state st) target))))"
proof -
  have wf: "wf_state (ms_state st)" using memory_reachable_wf [OF assms(1)] .
  then have "oldLeaf \<in> e_id ` set (ss_entries (ms_state st))" "target \<in> e_id ` set (ss_entries (ms_state st))"
    using assms(3,4) by (force simp: wf_state_def getEntry_wf)+
  from memory_branches.collects_abandoned [OF wf assms(2) this] show ?thesis .
qed

definition demo_tree_writes :: "storage_write list" where
  "demo_tree_writes = [AppendEntry \<lparr>p_id = ''a'', p_payload = demo_payload\<rparr> main_lane 7,
     AppendEntry \<lparr>p_id = ''b'', p_payload = demo_payload\<rparr> main_lane 8,
     MoveLane main_lane (Some ''a''),
     AppendEntry \<lparr>p_id = ''c'', p_payload = demo_payload\<rparr> main_lane 9]"

definition demo_tree :: memory_storage where
  "demo_tree = (case for_each mem_write (new_memory_storage demo_metadata) demo_tree_writes of
     Inl _ \<Rightarrow> new_memory_storage demo_metadata | Inr st \<Rightarrow> st)"

lemma demo_tree_reachable: "memory_reachable demo_tree"
proof -
  have "for_each mem_write (new_memory_storage demo_metadata) demo_tree_writes = Inr demo_tree"
    by (simp add: demo_tree_def demo_tree_writes_def mem_eval)
  then show ?thesis unfolding memory_reachable_def by blast
qed

definition demo_node :: "ident \<Rightarrow> nat \<Rightarrow> ident option \<Rightarrow> int \<Rightarrow> entry" where
  "demo_node i n parent time = \<lparr>e_id = i, e_seq = n, e_parentId = parent, e_timestamp = time, e_payload = demo_payload\<rparr>"

lemma demo_tree_entries:
  "ss_entries (ms_state demo_tree) =
     [demo_node ''a'' 1 None 7, demo_node ''b'' 2 (Some ''a'') 8, demo_node ''c'' 4 (Some ''a'') 9]"
  "map_get (ss_entriesById (ms_state demo_tree)) i =
     map_get [(''a'', demo_node ''a'' 1 None 7), (''b'', demo_node ''b'' 2 (Some ''a'') 8),
       (''c'', demo_node ''c'' 4 (Some ''a'') 9)] i"
  by (simp_all add: demo_tree_def demo_tree_writes_def demo_node_def mem_eval)

lemma demo_branches:
  "branch_of (ms_state demo_tree) ''b'' = [demo_node ''b'' 2 (Some ''a'') 8, demo_node ''a'' 1 None 7]"
  "branch_of (ms_state demo_tree) ''c'' = [demo_node ''c'' 4 (Some ''a'') 9, demo_node ''a'' 1 None 7]"
  by (simp_all add: branch_of_def walkToRoot_def demo_tree_entries walk_loop.simps demo_node_def)

theorem branch_summary_covers_abandoned_witness:
  "collectEntriesForBranchSummary memory_ops demo_tree (Some ''b'') ''c'' =
     Some (Inr ([demo_node ''b'' 2 (Some ''a'') 8], Some ''a''))"
proof -
  have ids: "\<forall>e \<in> set (ss_entries (ms_state demo_tree)). e_id e \<noteq> []"
    by (simp add: demo_tree_entries demo_node_def)
  have nodes: "getEntry (ms_state demo_tree) ''b'' = Some (demo_node ''b'' 2 (Some ''a'') 8)"
    "getEntry (ms_state demo_tree) ''c'' = Some (demo_node ''c'' 4 (Some ''a'') 9)"
    by (simp_all add: getEntry_def demo_tree_entries)
  have "demo_node ''b'' 2 (Some ''a'') 8 \<noteq> demo_node ''c'' 4 (Some ''a'') 9"
    "demo_node ''a'' 1 None 7 \<noteq> demo_node ''b'' 2 (Some ''a'') 8"
    "demo_node ''a'' 1 None 7 \<noteq> demo_node ''c'' 4 (Some ''a'') 9" "e_id (demo_node ''a'' 1 None 7) = ''a''"
    by (simp_all add: demo_node_def)
  with branch_summary_covers_abandoned [OF demo_tree_reachable ids nodes] show ?thesis
    unfolding demo_branches by auto
qed

end
