(* ===== verification/Framing.thy ===== *)
theory Framing
  imports Js_String
begin

text \<open>
  Length-prefixed framing (\<^verbatim>\<open>packages/protocol/src/framing.ts\<close>): \<open>encodeFrame\<close>,
  \<open>assertCompleteFrame\<close> and the incremental \<open>FrameDecoder\<close>. Bytes are \<open>8 word\<close>; a
  \<open>Uint8Array\<close> is a byte list. The decoder keeps its payload in preallocated blocks; the field
  \<open>currentPayloadBlock\<close>, a reference into \<open>payloadBlocks\<close>, is the index of the block. A method
  that may throw after changing the decoder returns the decoder beside the error.
  The arguments are byte arrays, so the \<open>instanceof\<close> checks have no branch here.
\<close>

unbundle bit_operations_syntax

section \<open>Frames\<close>

definition FRAME_HEADER_LENGTH :: nat where
  "FRAME_HEADER_LENGTH = 4"

definition MAX_UINT32 :: nat where
  "MAX_UINT32 = 4294967295"

definition PAYLOAD_BLOCK_SIZE :: nat where
  "PAYLOAD_BLOCK_SIZE = 64 * 1024"

definition DEFAULT_MAX_FRAME_LENGTH :: nat where
  "DEFAULT_MAX_FRAME_LENGTH = 16 * 1024 * 1024"

definition MAX_SAFE_INTEGER :: int where
  "MAX_SAFE_INTEGER = 2 ^ 53 - 1"

datatype frame_error = LimitRange | PayloadRange | DecoderEnded | DecoderFailed | FrameTooLong
  | IncompletePrefix | NotOnePayload | TruncatedFrame

definition resolveMaxFrameLength :: "js_number option \<Rightarrow> frame_error + nat" where
  "resolveMaxFrameLength maxFrameLength =
     (case maxFrameLength of
        None \<Rightarrow> Inr DEFAULT_MAX_FRAME_LENGTH
      | Some JsNotInt \<Rightarrow> Inl LimitRange
      | Some (JsInt v) \<Rightarrow>
          if MAX_SAFE_INTEGER < \<bar>v\<bar> \<or> v < 0 \<or> int MAX_UINT32 < v then Inl LimitRange else Inr (nat v))"

text \<open>A number stored into a \<open>Uint8Array\<close> after \<^verbatim>\<open>>>>\<close>: 32-bit shift, low eight bits.\<close>

definition shifted_byte :: "nat \<Rightarrow> nat \<Rightarrow> byte" where
  "shifted_byte n k = ucast (drop_bit k (word_of_nat n :: 32 word))"

definition length_prefix :: "nat \<Rightarrow> bytes" where
  "length_prefix n = [shifted_byte n 24, shifted_byte n 16, shifted_byte n 8, shifted_byte n 0]"

definition encodeFrame :: "bytes \<Rightarrow> frame_error + bytes" where
  "encodeFrame payload =
     (if MAX_UINT32 < length payload then Inl PayloadRange
      else Inr (length_prefix (length payload) @ payload))"

definition prefix_value :: "bytes \<Rightarrow> nat" where
  "prefix_value h = unat (h ! 0) * 0x1000000 + unat (h ! 1) * 0x10000 + unat (h ! 2) * 0x100 + unat (h ! 3)"

definition assertCompleteFrame :: "bytes \<Rightarrow> js_number option \<Rightarrow> frame_error + unit" where
  "assertCompleteFrame frame maxFrameLength =
     (if length frame < FRAME_HEADER_LENGTH then Inl IncompletePrefix
      else
        (let len = prefix_value frame
         in case resolveMaxFrameLength maxFrameLength of
              Inl e \<Rightarrow> Inl e
            | Inr limit \<Rightarrow>
                if limit < len then Inl FrameTooLong
                else if length frame \<noteq> FRAME_HEADER_LENGTH + len then Inl NotOnePayload
                else Inr ()))"

section \<open>The decoder\<close>

datatype decoder_state = DOpen | DEnded | DFailed

record frame_decoder =
  fd_header :: bytes
  fd_headerLength :: nat
  fd_maxFrameLength :: nat
  fd_payloadBlocks :: "bytes list"
  fd_currentPayloadBlock :: "nat option"
  fd_currentPayloadBlockLength :: nat
  fd_expectedPayloadLength :: "nat option"
  fd_payloadLength :: nat
  fd_state :: decoder_state

definition new_frame_decoder :: "js_number option \<Rightarrow> frame_error + frame_decoder" where
  "new_frame_decoder maxFrameLength =
     (case resolveMaxFrameLength maxFrameLength of
        Inl e \<Rightarrow> Inl e
      | Inr limit \<Rightarrow> Inr \<lparr>fd_header = [0, 0, 0, 0], fd_headerLength = 0, fd_maxFrameLength = limit,
          fd_payloadBlocks = [], fd_currentPayloadBlock = None, fd_currentPayloadBlockLength = 0,
          fd_expectedPayloadLength = None, fd_payloadLength = 0, fd_state = DOpen\<rparr>)"

text \<open>\<^verbatim>\<open>array.set(source, offset)\<close>, within bounds.\<close>

definition array_set :: "bytes \<Rightarrow> bytes \<Rightarrow> nat \<Rightarrow> bytes" where
  "array_set arr src off = take off arr @ src @ drop (off + length src) arr"

definition clear_payload :: "frame_decoder \<Rightarrow> frame_decoder" where
  "clear_payload d = d\<lparr>fd_payloadBlocks := [], fd_currentPayloadBlock := None,
     fd_currentPayloadBlockLength := 0, fd_payloadLength := 0\<rparr>"

definition fail_decoder :: "frame_decoder \<Rightarrow> frame_decoder" where
  "fail_decoder d = (clear_payload d)\<lparr>fd_state := DFailed, fd_headerLength := 0,
     fd_expectedPayloadLength := None\<rparr>"

text \<open>The header part of one round of the loop: the decoder, the rest of the chunk, the header read.\<close>

definition take_header :: "frame_decoder \<Rightarrow> bytes \<Rightarrow> frame_decoder \<times> bytes" where
  "take_header d rest =
     (let headerBytes = min (FRAME_HEADER_LENGTH - fd_headerLength d) (length rest)
      in (d\<lparr>fd_header := array_set (fd_header d) (take headerBytes rest) (fd_headerLength d),
            fd_headerLength := fd_headerLength d + headerBytes\<rparr>, drop headerBytes rest))"

definition ensure_block :: "frame_decoder \<Rightarrow> nat \<Rightarrow> frame_decoder \<times> nat" where
  "ensure_block d expected =
     (case fd_currentPayloadBlock d of
        Some b \<Rightarrow>
          if fd_currentPayloadBlockLength d = length (fd_payloadBlocks d ! b)
          then (d\<lparr>fd_payloadBlocks := fd_payloadBlocks d @
                   [replicate (min PAYLOAD_BLOCK_SIZE (expected - fd_payloadLength d)) 0],
                  fd_currentPayloadBlock := Some (length (fd_payloadBlocks d)),
                  fd_currentPayloadBlockLength := 0\<rparr>, length (fd_payloadBlocks d))
          else (d, b)
      | None \<Rightarrow>
          (d\<lparr>fd_payloadBlocks := fd_payloadBlocks d @
               [replicate (min PAYLOAD_BLOCK_SIZE (expected - fd_payloadLength d)) 0],
             fd_currentPayloadBlock := Some (length (fd_payloadBlocks d)),
             fd_currentPayloadBlockLength := 0\<rparr>, length (fd_payloadBlocks d)))"

definition fill_block :: "frame_decoder \<Rightarrow> nat \<Rightarrow> bytes \<Rightarrow> frame_decoder \<times> bytes" where
  "fill_block d expected rest =
     (case ensure_block d expected of (d', b) \<Rightarrow>
        (let block = fd_payloadBlocks d' ! b;
             payloadBytes = min (length block - fd_currentPayloadBlockLength d') (length rest)
         in (d'\<lparr>fd_payloadBlocks := (fd_payloadBlocks d')
                  [b := array_set block (take payloadBytes rest) (fd_currentPayloadBlockLength d')],
                fd_currentPayloadBlockLength := fd_currentPayloadBlockLength d' + payloadBytes,
                fd_payloadLength := fd_payloadLength d' + payloadBytes\<rparr>, drop payloadBytes rest)))"

partial_function (option) fill_payload ::
    "frame_decoder \<Rightarrow> nat \<Rightarrow> bytes \<Rightarrow> (frame_decoder \<times> bytes) option" where
  "fill_payload d expected rest =
     (if rest \<noteq> [] \<and> fd_payloadLength d < expected
      then (case fill_block d expected rest of (d', rest') \<Rightarrow> fill_payload d' expected rest')
      else Some (d, rest))"

fun join_blocks :: "bytes \<Rightarrow> nat \<Rightarrow> bytes list \<Rightarrow> bytes" where
  "join_blocks payload off [] = payload"
| "join_blocks payload off (b # bs) = join_blocks (array_set payload b off) (off + length b) bs"

definition completed_payload :: "frame_decoder \<Rightarrow> nat \<Rightarrow> bytes" where
  "completed_payload d expected =
     (if length (fd_payloadBlocks d) = 1 then fd_payloadBlocks d ! 0
      else join_blocks (replicate expected 0) 0 (fd_payloadBlocks d))"

text \<open>
  One round of the loop of \<open>push\<close> on the non-empty rest of the chunk: \<open>Inl\<close> when it throws,
  \<open>Inr\<close> with the decoder, the rest of the chunk and the frames collected so far.
\<close>

definition finish_payload :: "frame_decoder \<Rightarrow> nat \<Rightarrow> bytes list \<Rightarrow> frame_decoder \<times> bytes list" where
  "finish_payload d expected frames =
     (if fd_payloadLength d = expected
      then ((clear_payload d)\<lparr>fd_expectedPayloadLength := None\<rparr>, frames @ [completed_payload d expected])
      else (d, frames))"

definition read_payload ::
    "frame_decoder \<Rightarrow> nat \<Rightarrow> bytes \<Rightarrow> bytes list \<Rightarrow>
     ((frame_decoder \<times> frame_error) + (frame_decoder \<times> bytes \<times> bytes list)) option" where
  "read_payload d expected rest frames =
     Option.bind (fill_payload d expected rest) (\<lambda>(d1, rest1).
       case finish_payload d1 expected frames of (d2, frames') \<Rightarrow> Some (Inr (d2, rest1, frames')))"

definition push_round ::
    "frame_decoder \<Rightarrow> bytes \<Rightarrow> bytes list \<Rightarrow>
     ((frame_decoder \<times> frame_error) + (frame_decoder \<times> bytes \<times> bytes list)) option" where
  "push_round d rest frames =
     (case fd_expectedPayloadLength d of
        Some expected \<Rightarrow> read_payload d expected rest frames
      | None \<Rightarrow>
          (case take_header d rest of (d1, rest1) \<Rightarrow>
             if fd_headerLength d1 < FRAME_HEADER_LENGTH then Some (Inr (d1, rest1, frames))
             else
               (let frameLength = prefix_value (fd_header d1); d2 = d1\<lparr>fd_headerLength := 0\<rparr>
                in if fd_maxFrameLength d2 < frameLength then Some (Inl (fail_decoder d2, FrameTooLong))
                   else if frameLength = 0 then Some (Inr (d2, rest1, frames @ [[]]))
                   else read_payload (clear_payload (d2\<lparr>fd_expectedPayloadLength := Some frameLength\<rparr>))
                          frameLength rest1 frames)))"

partial_function (option) push_loop ::
    "frame_decoder \<Rightarrow> bytes \<Rightarrow> bytes list \<Rightarrow> (frame_decoder \<times> (frame_error + bytes list)) option" where
  "push_loop d rest frames =
     (if rest = [] then Some (d, Inr frames)
      else Option.bind (push_round d rest frames) (\<lambda>r.
        case r of
          Inl (d', e) \<Rightarrow> Some (d', Inl e)
        | Inr (d', rest', frames') \<Rightarrow> push_loop d' rest' frames'))"

definition push :: "frame_decoder \<Rightarrow> bytes \<Rightarrow> (frame_decoder \<times> (frame_error + bytes list)) option" where
  "push d chunk =
     (case fd_state d of
        DEnded \<Rightarrow> Some (d, Inl DecoderEnded)
      | DFailed \<Rightarrow> Some (d, Inl DecoderFailed)
      | DOpen \<Rightarrow> push_loop d chunk [])"

definition end_decoder :: "frame_decoder \<Rightarrow> frame_decoder \<times> (frame_error + unit)" where
  "end_decoder d =
     (case fd_state d of
        DEnded \<Rightarrow> (d, Inl DecoderEnded)
      | DFailed \<Rightarrow> (d, Inl DecoderFailed)
      | DOpen \<Rightarrow>
          if fd_headerLength d \<noteq> 0 \<or> fd_expectedPayloadLength d \<noteq> None
          then (fail_decoder d, Inl TruncatedFrame)
          else (d\<lparr>fd_state := DEnded\<rparr>, Inr ()))"

text \<open>A stream of chunks pushed one after the other, up to the first error.\<close>

fun push_all :: "frame_decoder \<Rightarrow> bytes list \<Rightarrow> (frame_decoder \<times> (frame_error + bytes list)) option" where
  "push_all d [] = Some (d, Inr [])"
| "push_all d (c # cs) =
     (case push d c of
        None \<Rightarrow> None
      | Some (d', Inl e) \<Rightarrow> Some (d', Inl e)
      | Some (d', Inr frames) \<Rightarrow>
          (case push_all d' cs of
             None \<Rightarrow> None
           | Some (d'', Inl e) \<Rightarrow> Some (d'', Inl e)
           | Some (d'', Inr frames') \<Rightarrow> Some (d'', Inr (frames @ frames'))))"

section \<open>Specification of a byte stream\<close>

text \<open>
  \<open>split_frames limit bytes\<close>: the complete frames at the front of a byte sequence and what remains
  after them; \<open>None\<close> when a header announces more than the limit.
\<close>

function split_frames :: "nat \<Rightarrow> bytes \<Rightarrow> bytes list \<times> bytes option" where
  "split_frames limit bs =
     (if length bs < 4 then ([], Some bs)
      else
        (let n = prefix_value bs
         in if limit < n then ([], None)
            else if length bs < 4 + n then ([], Some bs)
            else (case split_frames limit (drop (4 + n) bs) of
                    (frames, rest) \<Rightarrow> (take n (drop 4 bs) # frames, rest))))"
  by pat_completeness auto
termination by (relation "measure (length \<circ> snd)") auto

declare split_frames.simps [simp del]

definition received_payload :: "frame_decoder \<Rightarrow> bytes" where
  "received_payload d = take (fd_payloadLength d) (concat (fd_payloadBlocks d))"

text \<open>The bytes the decoder holds that do not form a frame yet.\<close>

definition pending :: "frame_decoder \<Rightarrow> bytes" where
  "pending d =
     (case fd_expectedPayloadLength d of
        None \<Rightarrow> take (fd_headerLength d) (fd_header d)
      | Some _ \<Rightarrow> fd_header d @ received_payload d)"

definition blocks_ok :: "frame_decoder \<Rightarrow> nat \<Rightarrow> bool" where
  "blocks_ok d expected \<longleftrightarrow>
     (case fd_currentPayloadBlock d of
        None \<Rightarrow> fd_payloadBlocks d = [] \<and> fd_payloadLength d = 0
      | Some b \<Rightarrow>
          fd_payloadBlocks d \<noteq> [] \<and> b = length (fd_payloadBlocks d) - 1 \<and>
          fd_currentPayloadBlockLength d \<le> length (last (fd_payloadBlocks d)) \<and>
          fd_payloadLength d = length (concat (butlast (fd_payloadBlocks d))) + fd_currentPayloadBlockLength d \<and>
          length (concat (fd_payloadBlocks d)) \<le> expected)"

definition decoder_ok :: "frame_decoder \<Rightarrow> bool" where
  "decoder_ok d \<longleftrightarrow> fd_state d = DOpen \<and> length (fd_header d) = 4 \<and>
     (case fd_expectedPayloadLength d of
        None \<Rightarrow> fd_headerLength d < 4 \<and> fd_payloadBlocks d = []
      | Some n \<Rightarrow> fd_headerLength d = 0 \<and> n = prefix_value (fd_header d) \<and> 0 < n \<and>
          n \<le> fd_maxFrameLength d \<and> fd_payloadLength d < n \<and> blocks_ok d n)"

section \<open>The decoder implements the specification\<close>

lemma unat_shifted_byte:
  assumes "n \<le> MAX_UINT32"
  shows "unat (shifted_byte n k) = (n div 2 ^ k) mod 256"
proof -
  have "take_bit 32 n = n" using assms by (simp add: MAX_UINT32_def take_bit_eq_mod)
  then have "unat (drop_bit k (word_of_nat n :: 32 word)) = n div 2 ^ k"
    by (subst unat_drop_bit_eq) (simp add: unsigned_of_nat drop_bit_eq_div)
  then show ?thesis
    unfolding shifted_byte_def unsigned_ucast_eq by (simp add: take_bit_eq_mod)
qed

lemma prefix_value_append: "4 \<le> length h \<Longrightarrow> prefix_value (h @ xs) = prefix_value h"
  by (auto simp: prefix_value_def nth_append)

lemma length_length_prefix [simp]: "length (length_prefix n) = 4"
  by (simp add: length_prefix_def)

lemma prefix_value_length_prefix:
  assumes "n \<le> MAX_UINT32"
  shows "prefix_value (length_prefix n) = n"
proof -
  have "n div 256 div 256 div 256 < 256" using assms by (simp add: MAX_UINT32_def)
  moreover have "n div 16777216 = n div 256 div 256 div 256" "n div 65536 = n div 256 div 256"
    by (simp_all flip: div_mult2_eq)
  moreover have "n div 256 div 256 div 256 * 16777216 + n div 256 div 256 mod 256 * 65536 +
      n div 256 mod 256 * 256 + n mod 256 = n"
    using div_mult_mod_eq [of n 256] div_mult_mod_eq [of "n div 256" 256]
      div_mult_mod_eq [of "n div 256 div 256" 256] by linarith
  ultimately show ?thesis
    using assms by (simp add: prefix_value_def length_prefix_def unat_shifted_byte)
qed

lemma blocks_ok_cases:
  assumes "blocks_ok d n"
  obtains (empty) "fd_currentPayloadBlock d = None" "fd_payloadBlocks d = []" "fd_payloadLength d = 0"
      "received_payload d = []"
    | (block) bs blk where "fd_currentPayloadBlock d = Some (length bs)" "fd_payloadBlocks d = bs @ [blk]"
      "fd_currentPayloadBlockLength d \<le> length blk"
      "fd_payloadLength d = length (concat bs) + fd_currentPayloadBlockLength d"
      "length (concat bs) + length blk \<le> n"
      "received_payload d = concat bs @ take (fd_currentPayloadBlockLength d) blk"
proof (cases "fd_currentPayloadBlock d")
  case None
  then show ?thesis using assms empty by (auto simp: blocks_ok_def received_payload_def)
next
  case (Some b)
  then obtain bs blk where "fd_payloadBlocks d = bs @ [blk]"
    using assms by (cases "fd_payloadBlocks d" rule: rev_cases) (auto simp: blocks_ok_def)
  then show ?thesis
    using assms Some block [of bs blk] by (auto simp: blocks_ok_def received_payload_def)
qed

lemma ensure_block_spec:
  assumes ok: "blocks_ok d n" and more: "fd_payloadLength d < n"
  obtains bs blk c where
    "ensure_block d n = (d\<lparr>fd_payloadBlocks := bs @ [blk], fd_currentPayloadBlock := Some (length bs),
       fd_currentPayloadBlockLength := c\<rparr>, length bs)"
    "c < length blk" "fd_payloadLength d = length (concat bs) + c"
    "length (concat bs) + length blk \<le> n" "received_payload d = concat bs @ take c blk"
  using ok
proof (cases rule: blocks_ok_cases)
  case empty
  let ?blk = "replicate (min PAYLOAD_BLOCK_SIZE n) 0"
  show ?thesis
    by (rule that [where bs = "[]" and blk = ?blk and c = 0])
      (use empty more in \<open>simp_all add: ensure_block_def PAYLOAD_BLOCK_SIZE_def\<close>)
next
  case (block bs blk)
  show ?thesis
  proof (cases "fd_currentPayloadBlockLength d = length blk")
    case True
    let ?blk = "replicate (min PAYLOAD_BLOCK_SIZE (n - fd_payloadLength d)) 0"
    show ?thesis
      by (rule that [where bs = "bs @ [blk]" and blk = ?blk and c = 0])
        (use block True more in \<open>simp_all add: ensure_block_def PAYLOAD_BLOCK_SIZE_def\<close>)
  next
    case False
    have "d = d\<lparr>fd_payloadBlocks := bs @ [blk], fd_currentPayloadBlock := Some (length bs),
        fd_currentPayloadBlockLength := fd_currentPayloadBlockLength d\<rparr>"
      using block by simp
    then show ?thesis
      by (intro that [where bs = bs and blk = blk and c = "fd_currentPayloadBlockLength d"])
        (use block False in \<open>simp_all add: ensure_block_def\<close>)
  qed
qed

definition same_frame :: "frame_decoder \<Rightarrow> frame_decoder \<Rightarrow> bool" where
  "same_frame d d' \<longleftrightarrow> fd_header d' = fd_header d \<and> fd_headerLength d' = fd_headerLength d \<and>
     fd_maxFrameLength d' = fd_maxFrameLength d \<and>
     fd_expectedPayloadLength d' = fd_expectedPayloadLength d \<and> fd_state d' = fd_state d"

lemma fill_block_spec:
  assumes ok: "blocks_ok d n" and more: "fd_payloadLength d < n" and rest: "rest \<noteq> []"
  obtains d' k where "fill_block d n rest = (d', drop k rest)" "0 < k" "k \<le> length rest"
    "fd_payloadLength d' = fd_payloadLength d + k" "fd_payloadLength d' \<le> n" "blocks_ok d' n"
    "received_payload d' = received_payload d @ take k rest" "same_frame d d'"
proof -
  obtain bs blk c where e:
    "ensure_block d n = (d\<lparr>fd_payloadBlocks := bs @ [blk], fd_currentPayloadBlock := Some (length bs),
       fd_currentPayloadBlockLength := c\<rparr>, length bs)"
    "c < length blk" "fd_payloadLength d = length (concat bs) + c"
    "length (concat bs) + length blk \<le> n" "received_payload d = concat bs @ take c blk"
    using ensure_block_spec [OF ok more] by blast
  define k where "k = min (length blk - c) (length rest)"
  have k: "0 < k" "k \<le> length rest" "c + k \<le> length blk" using e(2) rest by (auto simp: k_def)
  define blk' where "blk' = array_set blk (take k rest) c"
  have blk': "length blk' = length blk" "take (c + k) blk' = take c blk @ take k rest"
    using k e(2) by (auto simp: blk'_def array_set_def)
  let ?d = "d\<lparr>fd_payloadBlocks := bs @ [blk'], fd_currentPayloadBlock := Some (length bs),
      fd_currentPayloadBlockLength := c + k, fd_payloadLength := fd_payloadLength d + k\<rparr>"
  have "fill_block d n rest = (?d, drop k rest)"
    by (simp add: fill_block_def e(1) k_def [symmetric] blk'_def Let_def)
  then show ?thesis
    by (rule that [of ?d k])
      (use k blk' e in \<open>simp_all add: blocks_ok_def received_payload_def same_frame_def\<close>)
qed

lemma fill_payload_spec:
  assumes "blocks_ok d n" "fd_payloadLength d \<le> n"
  shows "\<exists>d' k. fill_payload d n rest = Some (d', drop k rest) \<and> k = min (n - fd_payloadLength d) (length rest) \<and>
    fd_payloadLength d' = fd_payloadLength d + k \<and> blocks_ok d' n \<and>
    received_payload d' = received_payload d @ take k rest \<and> same_frame d d'"
  using assms
proof (induction "length rest" arbitrary: d rest rule: less_induct)
  case less
  show ?case
  proof (cases "rest \<noteq> [] \<and> fd_payloadLength d < n")
    case False
    then show ?thesis
      using less.prems by (subst fill_payload.simps) (auto simp: same_frame_def)
  next
    case True
    obtain d1 k where d1: "fill_block d n rest = (d1, drop k rest)" "0 < k" "k \<le> length rest"
      "fd_payloadLength d1 = fd_payloadLength d + k" "fd_payloadLength d1 \<le> n" "blocks_ok d1 n"
      "received_payload d1 = received_payload d @ take k rest" "same_frame d d1"
      using fill_block_spec [OF less.prems(1)] True by blast
    have "length (drop k rest) < length rest" using d1(2,3) by simp
    then obtain d2 k' where d2: "fill_payload d1 n (drop k rest) = Some (d2, drop k' (drop k rest))"
      "k' = min (n - fd_payloadLength d1) (length (drop k rest))"
      "fd_payloadLength d2 = fd_payloadLength d1 + k'" "blocks_ok d2 n"
      "received_payload d2 = received_payload d1 @ take k' (drop k rest)" "same_frame d1 d2"
      using less.hyps [OF _ d1(6,5)] by blast
    have "fill_payload d n rest = Some (d2, drop (k' + k) rest)"
      using True d1(1) d2(1) by (subst fill_payload.simps) simp
    moreover have "k' + k = min (n - fd_payloadLength d) (length rest)"
      using d2(2) d1(3,4,5) by simp
    moreover have "take k rest @ take k' (drop k rest) = take (k' + k) rest"
      by (metis add.commute take_add)
    ultimately show ?thesis
      using d1 d2 by (intro exI [of _ d2] exI [of _ "k' + k"]) (auto simp: same_frame_def)
  qed
qed

lemma join_blocks_concat:
  "off + length (concat bs) \<le> length p \<Longrightarrow>
     join_blocks p off bs = take off p @ concat bs @ drop (off + length (concat bs)) p"
proof (induction bs arbitrary: p off)
  case Nil
  then show ?case by simp
next
  case (Cons b bs)
  then show ?case by (simp add: array_set_def add.assoc) (simp add: add.commute add.left_commute)
qed

lemma completed_payload_received:
  assumes "blocks_ok d n" "fd_payloadLength d = n" "0 < n"
  shows "completed_payload d n = received_payload d \<and> length (received_payload d) = n"
  using assms(1)
proof (cases rule: blocks_ok_cases)
  case empty
  then show ?thesis using assms by simp
next
  case (block bs blk)
  then have full: "fd_currentPayloadBlockLength d = length blk" "length (concat bs) + length blk = n"
    using assms(2) by simp_all
  then show ?thesis
    using block join_blocks_concat [of 0 "bs @ [blk]" "replicate n 0"]
    by (auto simp: completed_payload_def)
qed

definition prepend_frames :: "bytes list \<Rightarrow> bytes list \<times> bytes option \<Rightarrow> bytes list \<times> bytes option" where
  "prepend_frames fs r = (fs @ fst r, snd r)"

lemma prepend_frames_simps [simp]:
  "prepend_frames [] r = r"
  "prepend_frames fs (prepend_frames gs r) = prepend_frames (fs @ gs) r"
  "fst (prepend_frames fs r) = fs @ fst r" "snd (prepend_frames fs r) = snd r"
  by (simp_all add: prepend_frames_def)

lemma split_frames_short: "length bs < 4 \<Longrightarrow> split_frames limit bs = ([], Some bs)"
  by (simp add: split_frames.simps)

lemma split_frames_too_long:
  "4 \<le> length h \<Longrightarrow> limit < prefix_value h \<Longrightarrow> split_frames limit (h @ xs) = ([], None)"
  by (simp add: split_frames.simps [of limit "h @ xs"] prefix_value_append)

lemma split_frames_header:
  assumes "length h = 4" "prefix_value h = n" "n \<le> limit"
  shows "split_frames limit (h @ xs) =
    (if length xs < n then ([], Some (h @ xs))
     else prepend_frames [take n xs] (split_frames limit (drop n xs)))"
  using assms
  by (subst split_frames.simps) (simp add: prefix_value_append Let_def prepend_frames_def case_prod_beta)

lemma split_frames_pending:
  assumes "decoder_ok d"
  shows "split_frames (fd_maxFrameLength d) (pending d) = ([], Some (pending d))"
proof (cases "fd_expectedPayloadLength d")
  case None
  then show ?thesis using assms by (simp add: decoder_ok_def pending_def split_frames_short)
next
  case (Some n)
  then have "length (received_payload d) < n" using assms by (auto simp: decoder_ok_def received_payload_def)
  then show ?thesis
    using assms Some split_frames_header [of "fd_header d" n "fd_maxFrameLength d" "received_payload d"]
    by (simp add: decoder_ok_def pending_def)
qed

text \<open>What one round leaves for the rest of the stream.\<close>

definition round_ok ::
    "frame_decoder \<Rightarrow> bytes \<Rightarrow> bytes list \<Rightarrow>
     (frame_decoder \<times> frame_error) + (frame_decoder \<times> bytes \<times> bytes list) \<Rightarrow> bool" where
  "round_ok d rest frames result \<longleftrightarrow>
     (case result of
        Inl (d', e) \<Rightarrow> e = FrameTooLong \<and> fd_state d' = DFailed \<and>
          split_frames (fd_maxFrameLength d) (pending d @ rest) = ([], None)
      | Inr (d', rest', frames') \<Rightarrow> \<exists>fs. frames' = frames @ fs \<and> decoder_ok d' \<and>
          fd_maxFrameLength d' = fd_maxFrameLength d \<and> length rest' \<le> length rest \<and>
          split_frames (fd_maxFrameLength d) (pending d @ rest) =
            prepend_frames fs (split_frames (fd_maxFrameLength d) (pending d' @ rest')))"

lemma read_payload_spec:
  assumes ok: "decoder_ok d" and n: "fd_expectedPayloadLength d = Some n"
  shows "\<exists>d' rest' frames'. read_payload d n rest frames = Some (Inr (d', rest', frames')) \<and>
    round_ok d rest frames (Inr (d', rest', frames')) \<and> (rest \<noteq> [] \<longrightarrow> length rest' < length rest)"
proof -
  have inv: "length (fd_header d) = 4" "prefix_value (fd_header d) = n" "n \<le> fd_maxFrameLength d"
    "0 < n" "fd_payloadLength d < n" "blocks_ok d n" "fd_headerLength d = 0" "fd_state d = DOpen"
    using ok n by (auto simp: decoder_ok_def)
  obtain d1 k where d1: "fill_payload d n rest = Some (d1, drop k rest)"
    "k = min (n - fd_payloadLength d) (length rest)" "fd_payloadLength d1 = fd_payloadLength d + k"
    "blocks_ok d1 n" "received_payload d1 = received_payload d @ take k rest" "same_frame d d1"
    using fill_payload_spec [OF inv(6) less_imp_le [OF inv(5)], of rest] by blast
  have len: "length (received_payload d) = fd_payloadLength d"
    using inv(6) by (cases rule: blocks_ok_cases) simp_all
  have split: "split_frames (fd_maxFrameLength d) (pending d @ rest) =
      (if length (received_payload d @ rest) < n then ([], Some (pending d @ rest))
       else prepend_frames [take n (received_payload d @ rest)]
         (split_frames (fd_maxFrameLength d) (drop n (received_payload d @ rest))))"
    using split_frames_header [OF inv(1-3)] n by (simp add: pending_def)
  show ?thesis
  proof (cases "fd_payloadLength d1 = n")
    case False
    then have k: "k = length rest" "fd_payloadLength d + length rest < n" using d1(2,3) inv(5) by auto
    have "decoder_ok d1" "pending d1 = pending d @ rest"
      using d1 inv n False k by (simp_all add: decoder_ok_def same_frame_def pending_def)
    then have "round_ok d rest frames (Inr (d1, [], frames))"
      using d1(6) split_frames_pending [of d1] by (simp add: round_ok_def same_frame_def)
    then show ?thesis
      using d1(1) False k by (simp add: read_payload_def finish_payload_def)
  next
    case True
    let ?d = "(clear_payload d1)\<lparr>fd_expectedPayloadLength := None\<rparr>"
    let ?frame = "completed_payload d1 n"
    have frame: "?frame = received_payload d @ take k rest" "length ?frame = n"
      using completed_payload_received [OF d1(4) True inv(4)] d1(5) by simp_all
    have k: "fd_payloadLength d + k = n" "k \<le> length rest" "0 < k" using True d1(2,3) inv(5) by simp_all
    have ok': "decoder_ok ?d" "pending ?d = []"
      using d1(6) inv by (simp_all add: decoder_ok_def clear_payload_def same_frame_def pending_def)
    have "round_ok d rest frames (Inr (?d, drop k rest, frames @ [?frame]))"
      using split ok' d1(6) k len frame
      by (auto simp: round_ok_def same_frame_def clear_payload_def)
    then show ?thesis
      using d1(1) True k by (auto simp: read_payload_def finish_payload_def)
  qed
qed


lemma take_header_spec:
  assumes "decoder_ok d" "fd_expectedPayloadLength d = None" "rest \<noteq> []"
    and "take_header d rest = (d1, rest1)"
  shows "length rest1 < length rest \<and> fd_payloadBlocks d1 = []" "same_frame (d\<lparr>fd_header := fd_header d1, fd_headerLength := fd_headerLength d1\<rparr>) d1"
    "length (fd_header d1) = 4" "fd_headerLength d1 \<le> 4"
    "pending d @ rest = take (fd_headerLength d1) (fd_header d1) @ rest1"
    "fd_headerLength d1 < 4 \<Longrightarrow> rest1 = []"
proof -
  let ?h = "fd_headerLength d"
  have h: "?h < 4" "length (fd_header d) = 4" "fd_payloadBlocks d = []" using assms(1,2) by (simp_all add: decoder_ok_def)
  define k where "k = min (4 - ?h) (length rest)"
  have k: "0 < k" "k \<le> length rest" "?h + k \<le> 4" using h assms(3) by (auto simp: k_def)
  have d1: "d1 = d\<lparr>fd_header := array_set (fd_header d) (take k rest) ?h, fd_headerLength := ?h + k\<rparr>"
    "rest1 = drop k rest"
    using assms(4) by (auto simp: take_header_def FRAME_HEADER_LENGTH_def k_def Let_def)
  show "length rest1 < length rest \<and> fd_payloadBlocks d1 = []" "fd_headerLength d1 \<le> 4"
    using d1 k h(3) by simp_all
  show "same_frame (d\<lparr>fd_header := fd_header d1, fd_headerLength := fd_headerLength d1\<rparr>) d1"
    using d1 by (simp add: same_frame_def)
  show "length (fd_header d1) = 4" using d1 h k by (simp add: array_set_def)
  show "pending d @ rest = take (fd_headerLength d1) (fd_header d1) @ rest1"
    using d1 h k assms(2) by (simp add: pending_def array_set_def)
  show "fd_headerLength d1 < 4 \<Longrightarrow> rest1 = []" using d1 by (simp add: k_def min_def split: if_splits)
qed

lemma push_round_spec:
  assumes ok: "decoder_ok d" and rest: "rest \<noteq> []"
  shows "\<exists>result. push_round d rest frames = Some result \<and> round_ok d rest frames result \<and>
    (\<forall>d' rest' frames'. result = Inr (d', rest', frames') \<longrightarrow> length rest' < length rest)"
proof (cases "fd_expectedPayloadLength d")
  case (Some n)
  then show ?thesis
    using read_payload_spec [OF ok Some, of rest frames] rest by (auto simp: push_round_def)
next
  case None
  obtain d1 rest1 where t: "take_header d rest = (d1, rest1)" by fastforce
  note h = take_header_spec [OF ok None rest t]
  have open1: "fd_expectedPayloadLength d1 = None" "fd_maxFrameLength d1 = fd_maxFrameLength d"
    "fd_state d1 = DOpen"
    using h(2) None ok by (simp_all add: same_frame_def decoder_ok_def)
  show ?thesis
  proof (cases "fd_headerLength d1 < 4")
    case True
    have "round_ok d rest frames (Inr (d1, [], frames))"
      using True h open1 by (simp add: round_ok_def decoder_ok_def pending_def)
    then show ?thesis
      using t None True h(1,6) by (simp add: push_round_def FRAME_HEADER_LENGTH_def)
  next
    case False
    then have full: "fd_headerLength d1 = 4" using h(4) by simp
    have bytes: "pending d @ rest = fd_header d1 @ rest1" using h(3,5) full by simp
    let ?n = "prefix_value (fd_header d1)" and ?d2 = "d1\<lparr>fd_headerLength := 0\<rparr>"
    consider (long) "fd_maxFrameLength d < ?n" | (zero) "?n = 0" | (payload) "?n \<le> fd_maxFrameLength d" "0 < ?n"
      by linarith
    then show ?thesis
    proof cases
      case long
      have "round_ok d rest frames (Inl (fail_decoder ?d2, FrameTooLong))"
        using bytes split_frames_too_long [of "fd_header d1" "fd_maxFrameLength d" rest1] long h(3)
        by (simp add: round_ok_def fail_decoder_def)
      then show ?thesis
        using t None full long open1 by (simp add: push_round_def FRAME_HEADER_LENGTH_def Let_def)
    next
      case zero
      have "round_ok d rest frames (Inr (?d2, rest1, frames @ [[]]))"
        using bytes split_frames_header [of "fd_header d1" 0 "fd_maxFrameLength d" rest1] zero h(1,3) open1
        by (simp add: round_ok_def decoder_ok_def pending_def)
      then show ?thesis
        using t None full zero open1 h(1) by (simp add: push_round_def FRAME_HEADER_LENGTH_def Let_def)
    next
      case payload
      let ?d3 = "clear_payload (?d2\<lparr>fd_expectedPayloadLength := Some ?n\<rparr>)"
      have ok3: "decoder_ok ?d3" "fd_expectedPayloadLength ?d3 = Some ?n" "pending ?d3 = fd_header d1"
        "fd_maxFrameLength ?d3 = fd_maxFrameLength d"
        using payload h(3) open1
        by (simp_all add: decoder_ok_def clear_payload_def blocks_ok_def pending_def received_payload_def)
      obtain d' rest' frames' where r: "read_payload ?d3 ?n rest1 frames = Some (Inr (d', rest', frames'))"
        "round_ok ?d3 rest1 frames (Inr (d', rest', frames'))"
        using read_payload_spec [OF ok3(1,2)] by blast
      have "round_ok d rest frames (Inr (d', rest', frames'))" "length rest' < length rest"
        using r(2) ok3 bytes h(1) by (auto simp: round_ok_def)
      then show ?thesis
        using t None full payload open1 r(1) by (simp add: push_round_def FRAME_HEADER_LENGTH_def Let_def)
    qed
  qed
qed

text \<open>The outcome that the specification of the byte stream asks for.\<close>

definition push_outcome ::
    "frame_decoder \<Rightarrow> bytes \<Rightarrow> bytes list \<Rightarrow> frame_decoder \<Rightarrow> frame_error + bytes list \<Rightarrow> bool" where
  "push_outcome d input frames d' result \<longleftrightarrow>
     (case split_frames (fd_maxFrameLength d) (pending d @ input) of
        (_, None) \<Rightarrow> result = Inl FrameTooLong \<and> fd_state d' = DFailed
      | (fs, Some rest) \<Rightarrow> result = Inr (frames @ fs) \<and> decoder_ok d' \<and> pending d' = rest \<and>
          fd_maxFrameLength d' = fd_maxFrameLength d)"

lemma push_loop_spec:
  assumes "decoder_ok d"
  shows "\<exists>d' result. push_loop d rest frames = Some (d', result) \<and> push_outcome d rest frames d' result"
  using assms
proof (induction "length rest" arbitrary: d rest frames rule: less_induct)
  case less
  show ?case
  proof (cases "rest = []")
    case True
    then show ?thesis
      using less.prems split_frames_pending [OF less.prems]
      by (subst push_loop.simps) (simp add: push_outcome_def)
  next
    case False
    obtain result where r: "push_round d rest frames = Some result" "round_ok d rest frames result"
      "\<forall>d' rest' frames'. result = Inr (d', rest', frames') \<longrightarrow> length rest' < length rest"
      using push_round_spec [OF less.prems False] by blast
    show ?thesis
    proof (cases result)
      case (Inl p)
      then show ?thesis
        using r False by (subst push_loop.simps) (auto simp: round_ok_def push_outcome_def)
    next
      case (Inr p)
      obtain d1 rest1 frames1 where p: "p = (d1, rest1, frames1)" by (cases p) auto
      obtain fs where fs: "frames1 = frames @ fs" "decoder_ok d1" "fd_maxFrameLength d1 = fd_maxFrameLength d"
        "split_frames (fd_maxFrameLength d) (pending d @ rest) =
           prepend_frames fs (split_frames (fd_maxFrameLength d) (pending d1 @ rest1))"
        using r(2) Inr p by (auto simp: round_ok_def)
      obtain d' res where d': "push_loop d1 rest1 frames1 = Some (d', res)" "push_outcome d1 rest1 frames1 d' res"
      proof -
        have "length rest1 < length rest" using r(3) Inr p by blast
        from less.hyps [OF this fs(2), of frames1] show ?thesis using that by blast
      qed
      have "push_loop d rest frames = Some (d', res)"
        using False r(1) Inr p d'(1) by (subst push_loop.simps) simp
      moreover have "push_outcome d rest frames d' res"
        using d'(2) fs by (auto simp: push_outcome_def prepend_frames_def split: prod.splits option.splits)
      ultimately show ?thesis by blast
    qed
  qed
qed

lemma push_spec:
  assumes "decoder_ok d"
  shows "\<exists>d' result. push d chunk = Some (d', result) \<and> push_outcome d chunk [] d' result"
  using push_loop_spec [OF assms] assms by (simp add: push_def decoder_ok_def)

lemma split_frames_append:
  "split_frames limit (a @ b) =
     (case split_frames limit a of
        (fs, None) \<Rightarrow> (fs, None)
      | (fs, Some rest) \<Rightarrow> prepend_frames fs (split_frames limit (rest @ b)))"
proof (induction "length a" arbitrary: a rule: less_induct)
  case less
  show ?case
  proof (cases "length a < 4")
    case True
    then show ?thesis by (simp add: split_frames_short)
  next
    case False
    define h where "h = take 4 a"
    define xs where "xs = drop 4 a"
    have a: "a = h @ xs" "length h = 4" using False by (simp_all add: h_def xs_def)
    let ?n = "prefix_value h"
    show ?thesis
    proof (cases "?n \<le> limit")
      case False
      then show ?thesis using a split_frames_too_long [of h limit] by simp
    next
      case True
      note sf = split_frames_header [OF a(2) refl True]
      show ?thesis
      proof (cases "length xs < ?n")
        case True
        then show ?thesis using a sf [of xs] by simp
      next
        case long: False
        have "length (drop ?n xs) < length a" using a by simp
        note ih = less.hyps [OF this]
        show ?thesis
          using a long sf [of xs] sf [of "xs @ b"] ih
          by (simp add: prepend_frames_def split: prod.splits option.splits)
      qed
    qed
  qed
qed

lemma push_all_spec:
  assumes "decoder_ok d"
  shows "\<exists>d' result. push_all d cs = Some (d', result) \<and> push_outcome d (concat cs) [] d' result"
  using assms
proof (induction cs arbitrary: d)
  case Nil
  then show ?case by (simp add: push_outcome_def split_frames_pending)
next
  case (Cons c cs)
  obtain d1 r1 where d1: "push d c = Some (d1, r1)" "push_outcome d c [] d1 r1"
    using push_spec [OF Cons.prems] by blast
  have app: "split_frames (fd_maxFrameLength d) (pending d @ concat (c # cs)) =
      (case split_frames (fd_maxFrameLength d) (pending d @ c) of
         (fs, None) \<Rightarrow> (fs, None)
       | (fs, Some rest) \<Rightarrow> prepend_frames fs (split_frames (fd_maxFrameLength d) (rest @ concat cs)))"
    using split_frames_append [of "fd_maxFrameLength d" "pending d @ c" "concat cs"] by simp
  show ?case
  proof (cases "snd (split_frames (fd_maxFrameLength d) (pending d @ c))")
    case None
    then show ?thesis
      using d1 app by (auto simp: push_outcome_def split: prod.splits option.splits)
  next
    case (Some rest)
    then obtain fs where fs: "split_frames (fd_maxFrameLength d) (pending d @ c) = (fs, Some rest)"
      by (metis prod.collapse)
    then have r1: "r1 = Inr fs" "decoder_ok d1" "pending d1 = rest" "fd_maxFrameLength d1 = fd_maxFrameLength d"
      using d1(2) by (simp_all add: push_outcome_def)
    obtain d2 r2 where d2: "push_all d1 cs = Some (d2, r2)" "push_outcome d1 (concat cs) [] d2 r2"
      using Cons.IH [OF r1(2)] by blast
    then show ?thesis
      using d1(1) r1 app fs
      by (auto simp: push_outcome_def prepend_frames_def split: prod.splits option.splits)
  qed
qed

lemma new_frame_decoder_ok:
  assumes "new_frame_decoder limit = Inr d"
  shows "decoder_ok d" "pending d = []" "resolveMaxFrameLength limit = Inr (fd_maxFrameLength d)"
  using assms by (auto simp: new_frame_decoder_def decoder_ok_def pending_def split: sum.splits)

lemma encodeFrame_ok:
  assumes "encodeFrame payload = Inr frame"
  shows "frame = length_prefix (length payload) @ payload" "length payload \<le> MAX_UINT32"
  using assms by (auto simp: encodeFrame_def split: if_splits)

lemma split_frames_encoded:
  assumes "list_all2 (\<lambda>p f. encodeFrame p = Inr f) payloads frames"
    and "\<forall>p \<in> set payloads. length p \<le> limit"
  shows "split_frames limit (concat frames) = (payloads, Some [])"
  using assms
proof (induction rule: list_all2_induct)
  case Nil
  then show ?case by (simp add: split_frames_short)
next
  case (Cons p ps f fs)
  have "split_frames limit (concat fs) = (ps, Some [])" using Cons by simp
  moreover have "prefix_value (length_prefix (length p)) = length p"
    using prefix_value_length_prefix [OF encodeFrame_ok(2) [OF Cons(1)]] .
  ultimately show ?case
    using split_frames_header [of "length_prefix (length p)" "length p" limit "p @ concat fs"]
      encodeFrame_ok(1) [OF Cons(1)] Cons.prems
    by (simp add: prepend_frames_def)
qed

lemma buffered_bound:
  assumes "decoder_ok d"
  shows "length (concat (fd_payloadBlocks d)) \<le> fd_maxFrameLength d"
proof (cases "fd_expectedPayloadLength d")
  case None
  then show ?thesis using assms by (simp add: decoder_ok_def)
next
  case (Some n)
  then have "blocks_ok d n" "n \<le> fd_maxFrameLength d" using assms by (auto simp: decoder_ok_def)
  then show ?thesis by (cases rule: blocks_ok_cases) simp_all
qed

lemma end_decoder_ok:
  assumes "decoder_ok d"
  shows "end_decoder d = (if pending d = [] then (d\<lparr>fd_state := DEnded\<rparr>, Inr ())
    else (fail_decoder d, Inl TruncatedFrame))"
  using assms by (auto simp: decoder_ok_def end_decoder_def pending_def split: option.splits)

section \<open>Properties\<close>

text \<open>
  C22. Feeding a fresh decoder any chunks always returns (no chunking makes the loops run
  forever) and computes exactly the specified split of the concatenated bytes: the complete
  frames, with the unfinished tail kept for later, or a failure when a header exceeds the limit.
  The decoder never buffers more payload than the configured limit.
\<close>

theorem decoder_refines_stream_split:
  assumes "new_frame_decoder limit = Inr d"
  shows "\<exists>d' result. push_all d chunks = Some (d', result) \<and>
    (case split_frames (fd_maxFrameLength d) (concat chunks) of
       (_, None) \<Rightarrow> result = Inl FrameTooLong \<and> fd_state d' = DFailed
     | (frames, Some rest) \<Rightarrow> result = Inr frames \<and> fd_state d' = DOpen \<and> pending d' = rest \<and>
         length (concat (fd_payloadBlocks d')) \<le> fd_maxFrameLength d)"
proof -
  note d = new_frame_decoder_ok [OF assms]
  obtain d' result where r: "push_all d chunks = Some (d', result)" "push_outcome d (concat chunks) [] d' result"
    using push_all_spec [OF d(1)] by blast
  show ?thesis
    using r d(2) buffered_bound [of d']
    by (intro exI [of _ d'] exI [of _ result])
      (auto simp: push_outcome_def decoder_ok_def split: prod.splits option.splits)
qed

definition demo_decoder :: frame_decoder where
  "demo_decoder = (case new_frame_decoder (Some (JsInt 5)) of Inr d \<Rightarrow> d)"

lemma demo_decoder_new: "new_frame_decoder (Some (JsInt 5)) = Inr demo_decoder"
  by (simp add: demo_decoder_def new_frame_decoder_def resolveMaxFrameLength_def MAX_UINT32_def
      MAX_SAFE_INTEGER_def)

lemma demo_decoder_limit: "fd_maxFrameLength demo_decoder = 5"
  using new_frame_decoder_ok(3) [OF demo_decoder_new]
  by (simp add: resolveMaxFrameLength_def MAX_UINT32_def MAX_SAFE_INTEGER_def)

theorem decoder_refines_stream_split_witness:
  "\<exists>d'. push_all demo_decoder [[0, 0], [0, 6]] = Some (d', Inl FrameTooLong) \<and> fd_state d' = DFailed"
proof -
  have "split_frames 5 [0, 0, 0, 6] = ([], None)"
    by (simp add: split_frames.simps prefix_value_def)
  then show ?thesis
    using decoder_refines_stream_split [OF demo_decoder_new, of "[[0, 0], [0, 6]]"] demo_decoder_limit
    by auto
qed

text \<open>
  The boundaries of the chunks do not matter: two chunkings of the same bytes deliver the
  same frames in the same order or the same error.
\<close>

lemma chunk_boundaries_do_not_matter:
  assumes "new_frame_decoder limit = Inr d" and "concat chunks = concat chunks'"
  shows "\<exists>d1 d2 result. push_all d chunks = Some (d1, result) \<and> push_all d chunks' = Some (d2, result) \<and>
    fd_state d1 = fd_state d2 \<and> (fd_state d1 = DOpen \<longrightarrow> pending d1 = pending d2)"
proof -
  note d = new_frame_decoder_ok [OF assms(1)]
  obtain d1 r1 where r1: "push_all d chunks = Some (d1, r1)" "push_outcome d (concat chunks) [] d1 r1"
    using push_all_spec [OF d(1)] by blast
  obtain d2 r2 where r2: "push_all d chunks' = Some (d2, r2)" "push_outcome d (concat chunks') [] d2 r2"
    using push_all_spec [OF d(1)] by blast
  show ?thesis
    using r1 r2 assms(2)
    by (auto simp: push_outcome_def decoder_ok_def split: prod.splits option.splits)
qed

lemma chunk_boundaries_do_not_matter_witness:
  "\<exists>d1 d2 result. push_all demo_decoder [[0, 0, 0], [1, 7]] = Some (d1, result) \<and>
     push_all demo_decoder [[0], [], [0, 0, 1, 7]] = Some (d2, result) \<and>
     fd_state d1 = fd_state d2 \<and> (fd_state d1 = DOpen \<longrightarrow> pending d1 = pending d2)"
  by (rule chunk_boundaries_do_not_matter [OF demo_decoder_new]) simp

text \<open>
  Round trip: payloads within the limit, framed with \<open>encodeFrame\<close>, concatenated and cut into
  chunks in any way, come back unchanged and in order, and the stream then ends cleanly. Each
  frame also passes \<open>assertCompleteFrame\<close>.
\<close>

lemma framed_payloads_round_trip:
  assumes "new_frame_decoder limit = Inr d"
    and "list_all2 (\<lambda>p f. encodeFrame p = Inr f) payloads frames"
    and "\<forall>p \<in> set payloads. length p \<le> fd_maxFrameLength d"
    and "concat chunks = concat frames"
  shows "\<exists>d'. push_all d chunks = Some (d', Inr payloads) \<and>
    end_decoder d' = (d'\<lparr>fd_state := DEnded\<rparr>, Inr ()) \<and>
    (\<forall>f \<in> set frames. assertCompleteFrame f limit = Inr ())"
proof -
  note d = new_frame_decoder_ok [OF assms(1)]
  have split: "split_frames (fd_maxFrameLength d) (pending d @ concat chunks) = (payloads, Some [])"
    using split_frames_encoded [OF assms(2,3)] assms(4) d(2) by simp
  obtain d' where d': "push_all d chunks = Some (d', Inr payloads)" "decoder_ok d'" "pending d' = []"
    using push_all_spec [OF d(1), of chunks] split by (auto simp: push_outcome_def)
  have "assertCompleteFrame f limit = Inr ()" if mem: "f \<in> set frames" for f
  proof -
    obtain i where "i < length frames" "frames ! i = f" using mem by (auto simp: in_set_conv_nth)
    then have p: "payloads ! i \<in> set payloads" "encodeFrame (payloads ! i) = Inr f"
      using assms(2) by (auto simp: list_all2_conv_all_nth)
    have "prefix_value f = length (payloads ! i)"
      using encodeFrame_ok [OF p(2)] prefix_value_length_prefix prefix_value_append by simp
    then show ?thesis
      using encodeFrame_ok(1) [OF p(2)] d(3) assms(3) p(1)
      by (auto simp: assertCompleteFrame_def FRAME_HEADER_LENGTH_def Let_def)
  qed
  then show ?thesis using d' end_decoder_ok [OF d'(2)] by auto
qed

lemma framed_payloads_round_trip_witness:
  "\<exists>d'. push_all demo_decoder [[0, 0, 0], [2, 7], [9, 0], [0, 0, 0]] = Some (d', Inr [[7, 9], []])"
proof -
  have "list_all2 (\<lambda>p f. encodeFrame p = Inr f) [[7, 9], []] [[0, 0, 0, 2, 7, 9], [0, 0, 0, 0]]"
    by (simp add: encodeFrame_def MAX_UINT32_def length_prefix_def shifted_byte_def)
  from framed_payloads_round_trip [OF demo_decoder_new this, of "[[0, 0, 0], [2, 7], [9, 0], [0, 0, 0]]"]
  show ?thesis using demo_decoder_limit by (simp del: push_all.simps) blast
qed

text \<open>
  Closing the stream: \<open>end\<close> succeeds exactly when no partial frame is buffered and fails
  with a truncation error otherwise; a decoder that has ended or failed refuses every further
  \<open>push\<close> and \<open>end\<close> and does not change.
\<close>

lemma decoder_lifecycle:
  assumes "new_frame_decoder limit = Inr d" and "push_all d chunks = Some (d', Inr frames)"
    and "end_decoder d' = (d'', result)"
  shows "(result = Inr () \<longleftrightarrow> pending d' = []) \<and> (result = Inr () \<or> result = Inl TruncatedFrame) \<and>
    (\<exists>e. push d'' chunk = Some (d'', Inl e) \<and> end_decoder d'' = (d'', Inl e) \<and>
       (result = Inr () \<longrightarrow> e = DecoderEnded) \<and> (result \<noteq> Inr () \<longrightarrow> e = DecoderFailed))"
proof -
  have "decoder_ok d'"
    using push_all_spec [OF new_frame_decoder_ok(1) [OF assms(1)], of chunks] assms(2)
    by (auto simp: push_outcome_def split: prod.splits option.splits)
  from end_decoder_ok [OF this] assms(3) show ?thesis
    by (auto simp: push_def end_decoder_def fail_decoder_def split: if_splits)
qed

lemma decoder_lifecycle_witness:
  "\<exists>d' d''. push_all demo_decoder [] = Some (d', Inr []) \<and> end_decoder d' = (d'', Inr ()) \<and>
     push d'' [1] = Some (d'', Inl DecoderEnded)"
proof -
  have p: "push_all demo_decoder [] = Some (demo_decoder, Inr [])" by simp
  have e: "end_decoder demo_decoder = (demo_decoder\<lparr>fd_state := DEnded\<rparr>, Inr ())"
    using end_decoder_ok new_frame_decoder_ok [OF demo_decoder_new] by simp
  from decoder_lifecycle [OF demo_decoder_new p e, of "[1]"] p e show ?thesis by auto
qed

end
