(* ===== verification/Cbor.thy ===== *)
theory Cbor
  imports Framing
begin

text \<open>
  The strict CBOR subset of the protocol (\<^verbatim>\<open>packages/protocol/src/cbor/options.ts\<close>,
  \<^verbatim>\<open>encoder.ts\<close>, \<^verbatim>\<open>decoder.ts\<close>). JavaScript values are the datatype \<open>js_value\<close>; numbers
  are integers, or the bit pattern of an IEEE 754 double that is not an integer (or is negative
  zero); an object is the list of its enumerable string-keyed properties in enumeration order.
  Values are finite trees: the encoder's cycle check needs a cyclic object and never fires here.
  The writer keeps the buffer, offset and growth policy of \<open>CborWriter\<close>; the reader's
  offset is the list of bytes not read yet. Each \<open>CborError\<close> message is a constructor of
  \<open>cbor_error\<close>.
\<close>

section \<open>Values\<close>

datatype number = IntNumber int | FloatNumber "64 word"

datatype js_value = VNull | VUndefined | VBoolean bool | VNumber number | VString js_string
  | VBytes bytes
  | VArray "js_value option list" \<comment> \<open>\<open>None\<close> is a hole\<close>
  | VObject bool "(js_string \<times> js_value) list" \<comment> \<open>whether it has an enumerable symbol key\<close>
  | VUnsupported

text \<open>The number a double denotes: an integer when it is one, except negative zero.\<close>

definition double_exponent :: "64 word \<Rightarrow> nat" where
  "double_exponent w = unat w div 2 ^ 52 mod 2 ^ 11"

definition double_fraction :: "64 word \<Rightarrow> nat" where
  "double_fraction w = unat w mod 2 ^ 52"

definition double_negative :: "64 word \<Rightarrow> bool" where
  "double_negative w \<longleftrightarrow> 2 ^ 63 \<le> unat w"

definition double_finite :: "64 word \<Rightarrow> bool" where
  "double_finite w \<longleftrightarrow> double_exponent w \<noteq> 2047"

text \<open>The magnitude of an integer-valued double; \<open>None\<close> when it is not an integer.\<close>

definition double_magnitude :: "64 word \<Rightarrow> nat option" where
  "double_magnitude w =
     (let e = double_exponent w; f = double_fraction w; m = 2 ^ 52 + f
      in if e = 0 then (if f = 0 then Some 0 else None)
         else if 1075 \<le> e then Some (m * 2 ^ (e - 1075))
         else if e < 1023 then None
         else if m mod 2 ^ (1075 - e) = 0 then Some (m div 2 ^ (1075 - e)) else None)"

definition number_of_double :: "64 word \<Rightarrow> number" where
  "number_of_double w =
     (case double_magnitude w of
        None \<Rightarrow> FloatNumber w
      | Some n \<Rightarrow> if double_negative w \<and> n = 0 then FloatNumber w
                  else IntNumber (if double_negative w then - int n else int n))"

definition safe_integer :: "int \<Rightarrow> bool" where
  "safe_integer i \<longleftrightarrow> \<bar>i\<bar> \<le> MAX_SAFE_INTEGER"

section \<open>Options\<close>

datatype cbor_error = LimitOutOfRange | ByteLengthExceeded | DepthExceeded | NumberNotFinite
  | IntegerNotSafe | TextTooLong | TextNotScalar | BytesTooLong | ArrayTooLong | ArrayHole
  | MapKeyNotString | MapTooLong | UnsupportedType | TrailingData | InvalidUtf8 | DuplicateKey
  | TagsUnsupported | BreakUnsupported | SimpleUnsupported | IndefiniteLength | LengthExceeded
  | MalformedInformation | TruncatedPayload

record cbor_options =
  opt_maxByteLength :: "js_number option"
  opt_maxContainerLength :: "js_number option"
  opt_maxDepth :: "js_number option"

record resolved_options =
  maxByteLength :: nat
  maxContainerLength :: nat
  maxDepth :: nat

definition UINT32_BASE :: nat where
  "UINT32_BASE = 0x100000000"

definition resolveLimit :: "js_number option \<Rightarrow> nat \<Rightarrow> nat \<Rightarrow> cbor_error + nat" where
  "resolveLimit v dflt maximum =
     (case v of
        None \<Rightarrow> if maximum < dflt then Inl LimitOutOfRange else Inr dflt
      | Some JsNotInt \<Rightarrow> Inl LimitOutOfRange
      | Some (JsInt i) \<Rightarrow>
          if \<not> safe_integer i \<or> i < 0 \<or> int maximum < i then Inl LimitOutOfRange else Inr (nat i))"

definition resolveOptions :: "cbor_options \<Rightarrow> cbor_error + resolved_options" where
  "resolveOptions opts =
     (case resolveLimit (opt_maxByteLength opts) (16 * 1024 * 1024) MAX_UINT32 of
        Inl e \<Rightarrow> Inl e
      | Inr byteLength \<Rightarrow>
          (case resolveLimit (opt_maxContainerLength opts) 1000000 MAX_UINT32 of
             Inl e \<Rightarrow> Inl e
           | Inr containerLength \<Rightarrow>
               (case resolveLimit (opt_maxDepth opts) 64 512 of
                  Inl e \<Rightarrow> Inl e
                | Inr depth \<Rightarrow> Inr \<lparr>maxByteLength = byteLength,
                    maxContainerLength = containerLength, maxDepth = depth\<rparr>)))"

section \<open>The writer\<close>

record cbor_writer =
  w_buffer :: bytes
  w_offset :: nat
  w_maxByteLength :: nat

definition new_cbor_writer :: "nat \<Rightarrow> cbor_writer" where
  "new_cbor_writer limit = \<lparr>w_buffer = replicate (min 256 limit) 0, w_offset = 0, w_maxByteLength = limit\<rparr>"

text \<open>
  The capacity loop; it is entered only with \<open>required\<close> at most the limit, which the guard repeats
  so that the recursion is total.
\<close>

function grow_capacity :: "nat \<Rightarrow> nat \<Rightarrow> nat \<Rightarrow> nat" where
  "grow_capacity limit required capacity =
     (if capacity < required \<and> required \<le> limit
      then grow_capacity limit required (min limit (max required (capacity * 2)))
      else capacity)"
  by pat_completeness auto
termination by (relation "measure (\<lambda>(limit, required, capacity). required - capacity)") auto

declare grow_capacity.simps [simp del]

definition ensureCapacity :: "cbor_writer \<Rightarrow> nat \<Rightarrow> cbor_error + cbor_writer" where
  "ensureCapacity w additionalBytes =
     (let required = w_offset w + additionalBytes
      in if w_maxByteLength w < required then Inl ByteLengthExceeded
         else if required \<le> length (w_buffer w) then Inr w
         else let capacity = grow_capacity (w_maxByteLength w) required (max 1 (length (w_buffer w)))
              in Inr (w\<lparr>w_buffer := array_set (replicate capacity 0) (w_buffer w) 0\<rparr>))"

definition store_bytes :: "cbor_writer \<Rightarrow> bytes \<Rightarrow> cbor_error + cbor_writer" where
  "store_bytes w bs =
     (case ensureCapacity w (length bs) of
        Inl e \<Rightarrow> Inl e
      | Inr w' \<Rightarrow> Inr (w'\<lparr>w_buffer := array_set (w_buffer w') bs (w_offset w'),
                           w_offset := w_offset w' + length bs\<rparr>))"

definition writeByte :: "cbor_writer \<Rightarrow> nat \<Rightarrow> cbor_error + cbor_writer" where
  "writeByte w n = store_bytes w [byte_of n]"

definition writeBytes :: "cbor_writer \<Rightarrow> bytes \<Rightarrow> cbor_error + cbor_writer" where
  "writeBytes w bs = store_bytes w bs"

definition writeUint16 :: "cbor_writer \<Rightarrow> nat \<Rightarrow> cbor_error + cbor_writer" where
  "writeUint16 w n = store_bytes w [shifted_byte n 8, shifted_byte n 0]"

definition writeUint32 :: "cbor_writer \<Rightarrow> nat \<Rightarrow> cbor_error + cbor_writer" where
  "writeUint32 w n = store_bytes w (length_prefix n)"

definition writeUint64 :: "cbor_writer \<Rightarrow> nat \<Rightarrow> cbor_error + cbor_writer" where
  "writeUint64 w n =
     (let high = n div UINT32_BASE; low = n - high * UINT32_BASE
      in case writeUint32 w high of Inl e \<Rightarrow> Inl e | Inr w' \<Rightarrow> writeUint32 w' low)"

definition double_bytes :: "64 word \<Rightarrow> bytes" where
  "double_bytes w = map (\<lambda>k. byte_of (unat w div 2 ^ (8 * k) mod 256)) [7, 6, 5, 4, 3, 2, 1, 0]"

definition writeFloat64 :: "cbor_writer \<Rightarrow> 64 word \<Rightarrow> cbor_error + cbor_writer" where
  "writeFloat64 w v = store_bytes w (byte_of 0xFB # double_bytes v)"

definition finish_writer :: "cbor_writer \<Rightarrow> bytes" where
  "finish_writer w = take (w_offset w) (w_buffer w)"

section \<open>The encoder\<close>

definition writeArgument :: "cbor_writer \<Rightarrow> nat \<Rightarrow> nat \<Rightarrow> cbor_error + cbor_writer" where
  "writeArgument w majorType v =
     (let prefix = majorType * 32
      in if v < 24 then writeByte w (prefix + v)
         else if v \<le> 0xFF
         then (case writeByte w (prefix + 24) of Inl e \<Rightarrow> Inl e | Inr w' \<Rightarrow> writeByte w' v)
         else if v \<le> 0xFFFF
         then (case writeByte w (prefix + 25) of Inl e \<Rightarrow> Inl e | Inr w' \<Rightarrow> writeUint16 w' v)
         else if v \<le> MAX_UINT32
         then (case writeByte w (prefix + 26) of Inl e \<Rightarrow> Inl e | Inr w' \<Rightarrow> writeUint32 w' v)
         else (case writeByte w (prefix + 27) of Inl e \<Rightarrow> Inl e | Inr w' \<Rightarrow> writeUint64 w' v))"

definition encodeText :: "cbor_writer \<Rightarrow> js_string \<Rightarrow> resolved_options \<Rightarrow> cbor_error + cbor_writer" where
  "encodeText w s opts =
     (let bs = utf8_encode s
      in if maxByteLength opts < length bs then Inl TextTooLong
         else if text_decode bs \<noteq> Some s then Inl TextNotScalar
         else (case writeArgument w 3 (length bs) of Inl e \<Rightarrow> Inl e | Inr w' \<Rightarrow> writeBytes w' bs))"

definition encodeNumber :: "cbor_writer \<Rightarrow> number \<Rightarrow> cbor_error + cbor_writer" where
  "encodeNumber w n =
     (case n of
        IntNumber i \<Rightarrow>
          if \<not> safe_integer i then Inl IntegerNotSafe
          else if 0 \<le> i then writeArgument w 0 (nat i) else writeArgument w 1 (nat (- 1 - i))
      | FloatNumber f \<Rightarrow> if \<not> double_finite f then Inl NumberNotFinite else writeFloat64 w f)"

definition defined_entries :: "(js_string \<times> js_value) list \<Rightarrow> (js_string \<times> js_value) list" where
  "defined_entries entries = filter (\<lambda>(_, v). v \<noteq> VUndefined) entries"

fun encodeValue :: "resolved_options \<Rightarrow> nat \<Rightarrow> js_value \<Rightarrow> cbor_writer \<Rightarrow> cbor_error + cbor_writer"
  and encodeElements ::
    "resolved_options \<Rightarrow> nat \<Rightarrow> js_value option list \<Rightarrow> cbor_writer \<Rightarrow> cbor_error + cbor_writer"
  and encodeEntries ::
    "resolved_options \<Rightarrow> nat \<Rightarrow> (js_string \<times> js_value) list \<Rightarrow> cbor_writer \<Rightarrow> cbor_error + cbor_writer" where
  "encodeValue opts depth v w =
     (if maxDepth opts < depth then Inl DepthExceeded
      else
        (case v of
           VNull \<Rightarrow> writeByte w 0xF6
         | VBoolean b \<Rightarrow> writeByte w (if b then 0xF5 else 0xF4)
         | VNumber n \<Rightarrow> encodeNumber w n
         | VString s \<Rightarrow> encodeText w s opts
         | VBytes bs \<Rightarrow>
             if maxByteLength opts < length bs then Inl BytesTooLong
             else (case writeArgument w 2 (length bs) of Inl e \<Rightarrow> Inl e | Inr w' \<Rightarrow> writeBytes w' bs)
         | VArray vs \<Rightarrow>
             if maxContainerLength opts < length vs then Inl ArrayTooLong
             else (case writeArgument w 4 (length vs) of
                     Inl e \<Rightarrow> Inl e | Inr w' \<Rightarrow> encodeElements opts (depth + 1) vs w')
         | VObject symbols entries \<Rightarrow>
             if symbols then Inl MapKeyNotString
             else if maxContainerLength opts < length (defined_entries entries) then Inl MapTooLong
             else (case writeArgument w 5 (length (defined_entries entries)) of
                     Inl e \<Rightarrow> Inl e | Inr w' \<Rightarrow> encodeEntries opts (depth + 1) entries w')
         | VUndefined \<Rightarrow> Inl UnsupportedType
         | VUnsupported \<Rightarrow> Inl UnsupportedType))"
| "encodeElements opts depth [] w = Inr w"
| "encodeElements opts depth (x # xs) w =
     (case x of
        None \<Rightarrow> Inl ArrayHole
      | Some v \<Rightarrow>
          if v = VUndefined then Inl ArrayHole
          else (case encodeValue opts depth v w of
                  Inl e \<Rightarrow> Inl e | Inr w' \<Rightarrow> encodeElements opts depth xs w'))"
| "encodeEntries opts depth [] w = Inr w"
| "encodeEntries opts depth ((k, v) # xs) w =
     (if v = VUndefined then encodeEntries opts depth xs w
      else (case encodeText w k opts of
              Inl e \<Rightarrow> Inl e
            | Inr w' \<Rightarrow>
                (case encodeValue opts depth v w' of
                   Inl e \<Rightarrow> Inl e | Inr w'' \<Rightarrow> encodeEntries opts depth xs w'')))"

definition encodeCbor :: "js_value \<Rightarrow> cbor_options \<Rightarrow> cbor_error + bytes" where
  "encodeCbor v opts =
     (case resolveOptions opts of
        Inl e \<Rightarrow> Inl e
      | Inr resolved \<Rightarrow>
          (case encodeValue resolved 0 v (new_cbor_writer (maxByteLength resolved)) of
             Inl e \<Rightarrow> Inl e | Inr w \<Rightarrow> Inr (finish_writer w)))"

section \<open>The decoder\<close>

definition readByte :: "bytes \<Rightarrow> cbor_error + (nat \<times> bytes)" where
  "readByte bs = (case bs of [] \<Rightarrow> Inl TruncatedPayload | b # rest \<Rightarrow> Inr (unat b, rest))"

definition readBytes :: "nat \<Rightarrow> bytes \<Rightarrow> cbor_error + (bytes \<times> bytes)" where
  "readBytes n bs = (if length bs < n then Inl TruncatedPayload else Inr (take n bs, drop n bs))"

definition readUint32 :: "bytes \<Rightarrow> cbor_error + (nat \<times> bytes)" where
  "readUint32 bs = (case readBytes 4 bs of Inl e \<Rightarrow> Inl e | Inr (h, rest) \<Rightarrow> Inr (prefix_value h, rest))"

definition readArgument :: "nat \<Rightarrow> bytes \<Rightarrow> cbor_error + (nat \<times> bytes)" where
  "readArgument info bs =
     (if info < 24 then Inr (info, bs)
      else if info = 24 then readByte bs
      else if info = 25
      then (case readBytes 2 bs of
              Inl e \<Rightarrow> Inl e | Inr (h, rest) \<Rightarrow> Inr (unat (h ! 0) * 0x100 + unat (h ! 1), rest))
      else if info = 26 then readUint32 bs
      else if info = 27
      then (case readUint32 bs of
              Inl e \<Rightarrow> Inl e
            | Inr (high, rest) \<Rightarrow>
                (case readUint32 rest of
                   Inl e \<Rightarrow> Inl e
                 | Inr (low, rest') \<Rightarrow>
                     if 0x1FFFFF < high then Inl IntegerNotSafe
                     else Inr (high * UINT32_BASE + low, rest')))
      else if info = 31 then Inl IndefiniteLength
      else Inl MalformedInformation)"

definition readLength :: "nat \<Rightarrow> nat \<Rightarrow> bytes \<Rightarrow> cbor_error + (nat \<times> bytes)" where
  "readLength info limit bs =
     (if info = 31 then Inl IndefiniteLength
      else (case readArgument info bs of
              Inl e \<Rightarrow> Inl e
            | Inr (n, rest) \<Rightarrow> if limit < n then Inl LengthExceeded else Inr (n, rest)))"

definition double_of_bytes :: "bytes \<Rightarrow> 64 word" where
  "double_of_bytes bs = word_of_nat (foldl (\<lambda>a b. a * 256 + unat b) 0 bs)"

definition readSimple :: "nat \<Rightarrow> bytes \<Rightarrow> cbor_error + (js_value \<times> bytes)" where
  "readSimple info bs =
     (if info = 20 then Inr (VBoolean False, bs)
      else if info = 21 then Inr (VBoolean True, bs)
      else if info = 22 then Inr (VNull, bs)
      else if info = 27
      then (case readBytes 8 bs of
              Inl e \<Rightarrow> Inl e
            | Inr (h, rest) \<Rightarrow>
                (let w = double_of_bytes h
                 in if \<not> double_finite w then Inl NumberNotFinite
                    else (case number_of_double w of
                            IntNumber i \<Rightarrow> if \<not> safe_integer i then Inl IntegerNotSafe
                                            else Inr (VNumber (IntNumber i), rest)
                          | FloatNumber f \<Rightarrow> Inr (VNumber (FloatNumber f), rest))))
      else if info = 31 then Inl BreakUnsupported
      else Inl SimpleUnsupported)"

text \<open>
  Properties of an object enumerate in the order in which they were defined, except that array
  indices (canonical decimals below 2^32 - 1) come first, in ascending order.
\<close>

definition array_index :: "js_string \<Rightarrow> nat option" where
  "array_index k =
     (if k = [] \<or> \<not> list_all (\<lambda>u. 48 \<le> unat u \<and> unat u \<le> 57) k \<or> (k ! 0 = 48 \<and> length k \<noteq> 1)
      then None
      else let n = foldl (\<lambda>a u. a * 10 + (unat u - 48)) 0 k in if n < MAX_UINT32 then Some n else None)"

definition enumeration_order :: "(js_string \<times> js_value) list \<Rightarrow> (js_string \<times> js_value) list" where
  "enumeration_order entries =
     sort_by (\<lambda>(k, _). the (array_index k)) (filter (\<lambda>(k, _). array_index k \<noteq> None) entries) @
     filter (\<lambda>(k, _). array_index k = None) entries"

function (sequential)
    readItem :: "resolved_options \<Rightarrow> nat \<Rightarrow> bytes \<Rightarrow> cbor_error + (js_value \<times> bytes)"
  and readElements ::
    "resolved_options \<Rightarrow> nat \<Rightarrow> nat \<Rightarrow> bytes \<Rightarrow> cbor_error + (js_value option list \<times> bytes)"
  and readEntries ::
    "resolved_options \<Rightarrow> nat \<Rightarrow> nat \<Rightarrow> js_string set \<Rightarrow> bytes \<Rightarrow>
     cbor_error + ((js_string \<times> js_value) list \<times> bytes)" where
  "readItem opts depth bs =
     (if maxDepth opts < depth then Inl DepthExceeded
      else
        (case readByte bs of
           Inl e \<Rightarrow> Inl e
         | Inr (initial, rest) \<Rightarrow>
             (let majorType = initial div 32; info = initial mod 32
              in if majorType = 0
                 then (case readArgument info rest of
                         Inl e \<Rightarrow> Inl e | Inr (n, rest') \<Rightarrow> Inr (VNumber (IntNumber (int n)), rest'))
                 else if majorType = 1
                 then (case readArgument info rest of
                         Inl e \<Rightarrow> Inl e
                       | Inr (n, rest') \<Rightarrow>
                           if \<not> safe_integer (- 1 - int n) then Inl IntegerNotSafe
                           else Inr (VNumber (IntNumber (- 1 - int n)), rest'))
                 else if majorType = 2
                 then (case readLength info (maxByteLength opts) rest of
                         Inl e \<Rightarrow> Inl e
                       | Inr (n, rest') \<Rightarrow>
                           (case readBytes n rest' of
                              Inl e \<Rightarrow> Inl e | Inr (b, rest'') \<Rightarrow> Inr (VBytes b, rest'')))
                 else if majorType = 3
                 then (case readLength info (maxByteLength opts) rest of
                         Inl e \<Rightarrow> Inl e
                       | Inr (n, rest') \<Rightarrow>
                           (case readBytes n rest' of
                              Inl e \<Rightarrow> Inl e
                            | Inr (b, rest'') \<Rightarrow>
                                (case text_decode b of
                                   None \<Rightarrow> Inl InvalidUtf8 | Some s \<Rightarrow> Inr (VString s, rest''))))
                 else if majorType = 4
                 then (case readLength info (maxContainerLength opts) rest of
                         Inl e \<Rightarrow> Inl e
                       | Inr (n, rest') \<Rightarrow>
                           (case readElements opts (depth + 1) n rest' of
                              Inl e \<Rightarrow> Inl e | Inr (vs, rest'') \<Rightarrow> Inr (VArray vs, rest'')))
                 else if majorType = 5
                 then (case readLength info (maxContainerLength opts) rest of
                         Inl e \<Rightarrow> Inl e
                       | Inr (n, rest') \<Rightarrow>
                           (case readEntries opts (depth + 1) n {} rest' of
                              Inl e \<Rightarrow> Inl e
                            | Inr (entries, rest'') \<Rightarrow> Inr (VObject False (enumeration_order entries), rest'')))
                 else if majorType = 6 then Inl TagsUnsupported
                 else readSimple info rest)))"
| "readElements opts depth 0 bs = Inr ([], bs)"
| "readElements opts depth (Suc n) bs =
     (case readItem opts depth bs of
        Inl e \<Rightarrow> Inl e
      | Inr (v, rest) \<Rightarrow>
          (case readElements opts depth n rest of
             Inl e \<Rightarrow> Inl e | Inr (vs, rest') \<Rightarrow> Inr (Some v # vs, rest')))"
| "readEntries opts depth 0 keys bs = Inr ([], bs)"
| "readEntries opts depth (Suc n) keys bs =
     (case readItem opts depth bs of
        Inl e \<Rightarrow> Inl e
      | Inr (VString key, rest) \<Rightarrow>
          if key \<in> keys then Inl DuplicateKey
          else (case readItem opts depth rest of
                  Inl e \<Rightarrow> Inl e
                | Inr (v, rest') \<Rightarrow>
                    (case readEntries opts depth n (insert key keys) rest' of
                       Inl e \<Rightarrow> Inl e | Inr (entries, rest'') \<Rightarrow> Inr ((key, v) # entries, rest'')))
      | Inr _ \<Rightarrow> Inl MapKeyNotString)"
  by pat_completeness auto
termination
  by (relation "measures [\<lambda>s. case s of
        Inl (opts, depth, _) \<Rightarrow> maxDepth opts + 1 - depth
      | Inr (Inl (opts, depth, _, _)) \<Rightarrow> maxDepth opts + 1 - depth
      | Inr (Inr (opts, depth, _, _, _)) \<Rightarrow> maxDepth opts + 1 - depth,
      \<lambda>s. case s of Inl _ \<Rightarrow> 0 | Inr (Inl (_, _, n, _)) \<Rightarrow> Suc n | Inr (Inr (_, _, n, _, _)) \<Rightarrow> Suc n]")
    auto

declare readItem.simps [simp del]

definition decodeCbor :: "bytes \<Rightarrow> cbor_options \<Rightarrow> cbor_error + js_value" where
  "decodeCbor bs opts =
     (case resolveOptions opts of
        Inl e \<Rightarrow> Inl e
      | Inr resolved \<Rightarrow>
          if maxByteLength resolved < length bs then Inl ByteLengthExceeded
          else (case readItem resolved 0 bs of
                  Inl e \<Rightarrow> Inl e
                | Inr (v, rest) \<Rightarrow> if rest \<noteq> [] then Inl TrailingData else Inr v))"

section \<open>The writer appends within its limit\<close>

definition wf_writer :: "cbor_writer \<Rightarrow> bool" where
  "wf_writer w \<longleftrightarrow> w_offset w \<le> length (w_buffer w) \<and> length (w_buffer w) \<le> w_maxByteLength w"

definition appends :: "cbor_writer \<Rightarrow> bytes \<Rightarrow> cbor_writer \<Rightarrow> bool" where
  "appends w bs w' \<longleftrightarrow> wf_writer w' \<and> finish_writer w' = finish_writer w @ bs \<and>
     w_maxByteLength w' = w_maxByteLength w"

lemma appends_trans: "appends w xs w' \<Longrightarrow> appends w' ys w'' \<Longrightarrow> appends w (xs @ ys) w''"
  by (simp add: appends_def)

lemma appends_wf: "appends w xs w' \<Longrightarrow> wf_writer w'"
  by (simp add: appends_def)

lemma grow_capacity_enough:
  assumes "required \<le> limit" "capacity \<le> limit \<or> required \<le> capacity"
  shows "required \<le> grow_capacity limit required capacity \<and>
    capacity \<le> grow_capacity limit required capacity \<and>
    (capacity \<le> limit \<longrightarrow> grow_capacity limit required capacity \<le> limit)"
proof (cases "capacity < required")
  case True
  let ?c = "min limit (max required (capacity * 2))"
  have "\<not> ?c < required" using assms(1) by simp
  then have "grow_capacity limit required ?c = ?c" by (subst grow_capacity.simps) (simp only: if_False simp_thms)
  then have "grow_capacity limit required capacity = ?c"
    using True assms(1) by (subst grow_capacity.simps) simp
  then show ?thesis using True assms by simp
next
  case False
  then have "grow_capacity limit required capacity = capacity" by (subst grow_capacity.simps) simp
  then show ?thesis using False by simp
qed

lemma ensureCapacity_spec:
  assumes wf: "wf_writer w" and r: "ensureCapacity w n = Inr w'"
  shows "wf_writer w' \<and> w_offset w' + n \<le> length (w_buffer w') \<and> finish_writer w' = finish_writer w \<and>
    w_offset w' = w_offset w \<and> w_maxByteLength w' = w_maxByteLength w"
proof (cases "w_offset w + n \<le> length (w_buffer w)")
  case True
  then show ?thesis using assms by (auto simp: ensureCapacity_def Let_def split: if_splits)
next
  case False
  let ?required = "w_offset w + n" and ?start = "max 1 (length (w_buffer w))"
  let ?c = "grow_capacity (w_maxByteLength w) ?required ?start"
  have le: "?required \<le> w_maxByteLength w"
    and w': "w' = w\<lparr>w_buffer := array_set (replicate ?c 0) (w_buffer w) 0\<rparr>"
    using r False by (auto simp: ensureCapacity_def Let_def split: if_splits)
  have c: "?required \<le> ?c" "length (w_buffer w) \<le> ?c" "?c \<le> w_maxByteLength w"
    using grow_capacity_enough [OF le, of ?start] wf le False by (auto simp: wf_writer_def)
  then show ?thesis
    using w' wf by (simp add: wf_writer_def finish_writer_def array_set_def)
qed

lemma store_bytes_appends:
  assumes wf: "wf_writer w" and r: "store_bytes w bs = Inr w'"
  shows "appends w bs w'"
proof -
  obtain u where u: "ensureCapacity w (length bs) = Inr u"
    "w' = u\<lparr>w_buffer := array_set (w_buffer u) bs (w_offset u), w_offset := w_offset u + length bs\<rparr>"
    using r by (auto simp: store_bytes_def split: sum.splits)
  from ensureCapacity_spec [OF wf u(1)] u(2) show ?thesis
    by (auto simp: appends_def wf_writer_def finish_writer_def array_set_def)
qed

lemma store_bytes_fails:
  "store_bytes w bs = Inl e \<longleftrightarrow> e = ByteLengthExceeded \<and> w_maxByteLength w < w_offset w + length bs"
  by (auto simp: store_bytes_def ensureCapacity_def Let_def)

lemma new_cbor_writer_wf: "wf_writer (new_cbor_writer limit)" "finish_writer (new_cbor_writer limit) = []"
  "w_maxByteLength (new_cbor_writer limit) = limit"
  by (simp_all add: new_cbor_writer_def wf_writer_def finish_writer_def)

section \<open>Arguments round trip\<close>

definition argument_bytes :: "nat \<Rightarrow> nat \<Rightarrow> bytes" where
  "argument_bytes m v =
     (if v < 24 then [byte_of (m * 32 + v)]
      else if v \<le> 0xFF then [byte_of (m * 32 + 24), byte_of v]
      else if v \<le> 0xFFFF then [byte_of (m * 32 + 25), shifted_byte v 8, shifted_byte v 0]
      else if v \<le> MAX_UINT32 then byte_of (m * 32 + 26) # length_prefix v
      else byte_of (m * 32 + 27) # length_prefix (v div UINT32_BASE) @
        length_prefix (v - v div UINT32_BASE * UINT32_BASE))"

lemmas write_defs = writeByte_def writeBytes_def writeUint16_def writeUint32_def writeUint64_def

lemma writeArgument_appends:
  assumes "wf_writer w" "writeArgument w m v = Inr w'"
  shows "appends w (argument_bytes m v) w'"
proof -
  have two: "appends w (xs @ ys) w'"
    if "store_bytes w xs = Inr u" "store_bytes u ys = Inr w'" for xs ys u
    using store_bytes_appends [OF assms(1) that(1)] store_bytes_appends [OF _ that(2)]
    by (meson appends_trans appends_wf)
  have three: "appends w (xs @ ys @ zs) w'"
    if "store_bytes w xs = Inr u" "store_bytes u ys = Inr u'" "store_bytes u' zs = Inr w'" for xs ys zs u u'
    using store_bytes_appends [OF assms(1) that(1)] store_bytes_appends [OF _ that(2)]
      store_bytes_appends [OF _ that(3)]
    by (meson appends_trans appends_wf)
  show ?thesis
    using assms(2) store_bytes_appends [OF assms(1)]
    by (auto simp: writeArgument_def argument_bytes_def write_defs Let_def
        split: if_splits sum.splits dest: two three)
qed

lemma unat_head: "m < 8 \<Longrightarrow> i < 32 \<Longrightarrow> unat (byte_of (m * 32 + i)) = m * 32 + i"
  by (rule unat_byte) linarith

lemma readUint32_prefix:
  assumes "v \<le> MAX_UINT32"
  shows "readUint32 (length_prefix v @ rest) = Inr (v, rest)"
  using prefix_value_length_prefix [OF assms] by (simp add: readUint32_def readBytes_def)

lemma readArgument_bytes:
  assumes "m < 8" "int v \<le> MAX_SAFE_INTEGER"
  obtains info bs where "argument_bytes m v = byte_of (m * 32 + info) # bs" "info < 28"
    "\<And>rest. readArgument info (bs @ rest) = Inr (v, rest)"
proof -
  consider "v < 24" | "24 \<le> v" "v \<le> 0xFF" | "0xFF < v" "v \<le> 0xFFFF" | "0xFFFF < v" "v \<le> MAX_UINT32"
    | "MAX_UINT32 < v" by linarith
  then show ?thesis
  proof cases
    case 1
    then show ?thesis using that [of v "[]"] by (simp add: argument_bytes_def readArgument_def)
  next
    case 2
    then show ?thesis
      using that [of 24 "[byte_of v]"]
      by (simp add: argument_bytes_def readArgument_def readByte_def unat_byte)
  next
    case 3
    have v: "v \<le> MAX_UINT32" "v div 256 < 256" using 3 by (simp_all add: MAX_UINT32_def)
    then show ?thesis
      using 3 that [of 25 "[shifted_byte v 8, shifted_byte v 0]"]
      by (simp add: argument_bytes_def readArgument_def readBytes_def unat_shifted_byte)
  next
    case 4
    then show ?thesis
      using that [of 26 "length_prefix v"] readUint32_prefix [OF 4(2)]
      by (simp add: argument_bytes_def readArgument_def)
  next
    case 5
    define h l where "h = v div UINT32_BASE" and "l = v - v div UINT32_BASE * UINT32_BASE"
    have l: "l = v mod UINT32_BASE" by (simp add: l_def minus_div_mult_eq_mod)
    have le: "h \<le> 0x1FFFFF" "h \<le> MAX_UINT32" "l \<le> MAX_UINT32"
      using assms(2) mod_less_divisor [of UINT32_BASE v]
      by (auto simp: h_def l MAX_SAFE_INTEGER_def UINT32_BASE_def MAX_UINT32_def)
    have hl: "h * UINT32_BASE + l = v" by (simp add: h_def l)
    have "argument_bytes m v = byte_of (m * 32 + 27) # length_prefix h @ length_prefix l"
      using 5 by (simp add: argument_bytes_def h_def l_def MAX_UINT32_def)
    then show ?thesis
      using that [of 27 "length_prefix h @ length_prefix l"] readUint32_prefix le hl
      by (simp add: readArgument_def)
  qed
qed

lemma double_bytes_inverse: "double_of_bytes (double_bytes w) = w"
proof -
  define n where "n = unat w"
  have lt: "n < 2 ^ 64" using unsigned_less [of w] by (simp add: n_def)
  have step: "n div (k * 256) * 256 + n div k mod 256 = n div k" for k
    by (simp add: div_mult2_eq)
  have top: "n div 72057594037927936 mod 256 = n div 72057594037927936" using lt by simp
  have "foldl (\<lambda>a b. a * 256 + unat b) 0 (double_bytes w) =
      72057594037927936 * (n div 72057594037927936 mod 256) + 281474976710656 * (n div 281474976710656 mod 256) +
      1099511627776 * (n div 1099511627776 mod 256) + 4294967296 * (n div 4294967296 mod 256) +
      16777216 * (n div 16777216 mod 256) + 65536 * (n div 65536 mod 256) +
      n div 256 mod 256 * 256 + n mod 256"
    by (simp add: double_bytes_def unat_byte n_def [symmetric])
  also have "\<dots> = n"
    using step [of 281474976710656, simplified] step [of 1099511627776, simplified]
      step [of 4294967296, simplified] step [of 16777216, simplified] step [of 65536, simplified]
      step [of 256, simplified] div_mult_mod_eq [of n 256] top by linarith
  finally have "foldl (\<lambda>a b. a * 256 + unat b) 0 (double_bytes w) = n" .
  then show ?thesis by (simp add: double_of_bytes_def n_def)
qed

section \<open>Values round trip\<close>

text \<open>What a value looks like after the trip: properties that are \<open>undefined\<close> are gone.\<close>

fun transmitted :: "js_value \<Rightarrow> js_value" where
  "transmitted (VArray vs) = VArray (map (map_option transmitted) vs)"
| "transmitted (VObject symbols entries) =
     VObject symbols (defined_entries (map (\<lambda>(k, v). (k, transmitted v)) entries))"
| "transmitted v = v"

text \<open>
  Values as JavaScript has them: a number is represented once, keys are unique and listed in
  enumeration order.
\<close>

fun wf_value :: "js_value \<Rightarrow> bool" where
  "wf_value (VNumber (FloatNumber f)) \<longleftrightarrow> number_of_double f = FloatNumber f"
| "wf_value (VArray vs) \<longleftrightarrow> (\<forall>x \<in> set vs. case x of None \<Rightarrow> True | Some v \<Rightarrow> wf_value v)"
| "wf_value (VObject symbols entries) \<longleftrightarrow>
     distinct (map fst entries) \<and> enumeration_order entries = entries \<and>
     (\<forall>(k, v) \<in> set entries. wf_value v)"
| "wf_value v \<longleftrightarrow> True"

lemma transmitted_undefined [simp]: "transmitted v = VUndefined \<longleftrightarrow> v = VUndefined"
  by (cases v) auto

lemma map_insort_key:
  "(\<And>y. key' (g y) = key y) \<Longrightarrow> map g (insort_key key x xs) = insort_key key' (g x) (map g xs)"
  by (induction xs) auto

lemma map_sort_by:
  assumes "\<And>y. key' (g y) = key y"
  shows "map g (sort_by key xs) = sort_by key' (map g xs)"
  by (induction xs) (simp_all add: sort_by_def map_insort_key [where key = key and key' = key' and g = g] assms)

lemma enumeration_order_map:
  "enumeration_order (map (\<lambda>(k, v). (k, f v)) entries) =
     map (\<lambda>(k, v). (k, f v)) (enumeration_order entries)"
proof -
  let ?g = "\<lambda>(k, v). (k, f v)"
  have c: "(\<lambda>x. P (fst x)) \<circ> ?g = (\<lambda>x. P (fst x))" for P :: "js_string \<Rightarrow> bool" by (auto simp: fun_eq_iff)
  have "map ?g (sort_by (\<lambda>x. the (array_index (fst x))) xs) =
      sort_by (\<lambda>x. the (array_index (fst x))) (map ?g xs)" for xs
    by (rule map_sort_by) auto
  then show ?thesis
    using c [of "\<lambda>k. array_index k \<noteq> None"] c [of "\<lambda>k. array_index k = None"]
    by (simp add: enumeration_order_def case_prod_beta' filter_map)
qed

lemma enumeration_order_filter:
  "enumeration_order (filter P entries) = filter P (enumeration_order entries)"
  by (simp add: enumeration_order_def sort_by_def filter_sort conj_commute)

lemma defined_entries_map:
  "defined_entries (map (\<lambda>(k, v). (k, transmitted v)) entries) =
     map (\<lambda>(k, v). (k, transmitted v)) (defined_entries entries)"
  by (induction entries) (auto simp: defined_entries_def)

lemma enumeration_order_transmitted:
  assumes "enumeration_order entries = entries"
  shows "enumeration_order (defined_entries (map (\<lambda>(k, v). (k, transmitted v)) entries)) =
    defined_entries (map (\<lambda>(k, v). (k, transmitted v)) entries)"
  unfolding defined_entries_map enumeration_order_map
  by (simp add: defined_entries_def enumeration_order_filter assms)

definition limits_ok :: "resolved_options \<Rightarrow> bool" where
  "limits_ok opts \<longleftrightarrow> maxByteLength opts \<le> MAX_UINT32 \<and> maxContainerLength opts \<le> MAX_UINT32"

lemma limit_safe: "n \<le> MAX_UINT32 \<Longrightarrow> int n \<le> MAX_SAFE_INTEGER"
  by (simp add: MAX_UINT32_def MAX_SAFE_INTEGER_def)

lemma argument_head:
  assumes "m < 8" "int v \<le> MAX_SAFE_INTEGER"
  shows "\<exists>info bs. argument_bytes m v = byte_of (m * 32 + info) # bs \<and> info < 28 \<and>
    (\<forall>rest. readArgument info (bs @ rest) = Inr (v, rest))"
  using readArgument_bytes [OF assms] by metis

lemma readByte_head:
  assumes "m < 8" "int v \<le> MAX_SAFE_INTEGER"
  shows "\<exists>initial tail. readByte (argument_bytes m v @ rest) = Inr (initial, tail) \<and>
    initial div 32 = m \<and> readArgument (initial mod 32) tail = Inr (v, rest) \<and>
    (\<forall>limit. v \<le> limit \<longrightarrow> readLength (initial mod 32) limit tail = Inr (v, rest))"
proof -
  obtain info bs where a: "argument_bytes m v = byte_of (m * 32 + info) # bs" "info < 28"
    "\<forall>rest. readArgument info (bs @ rest) = Inr (v, rest)"
    using argument_head [OF assms] by blast
  then show ?thesis
    using unat_head [OF assms(1), of info]
    by (intro exI [of _ "m * 32 + info"] exI [of _ "bs @ rest"]) (auto simp: readByte_def readLength_def)
qed

lemma readLength_head:
  assumes "m < 8" "v \<le> limit" "limit \<le> MAX_UINT32"
  shows "\<exists>initial tail. readByte (argument_bytes m v @ rest) = Inr (initial, tail) \<and>
    initial div 32 = m \<and> readLength (initial mod 32) limit tail = Inr (v, rest)"
  using readByte_head [OF assms(1), of v rest] assms(2,3) limit_safe [of v] by auto

lemma readItem_number:
  assumes "depth \<le> maxDepth opts" "int v \<le> MAX_SAFE_INTEGER"
  shows "readItem opts depth (argument_bytes 0 v @ rest) = Inr (VNumber (IntNumber (int v)), rest)"
  using readByte_head [of 0 v rest] assms by (subst readItem.simps) (auto simp: Let_def)

lemma readItem_negative:
  assumes "depth \<le> maxDepth opts" "safe_integer (- 1 - int v)"
  shows "readItem opts depth (argument_bytes 1 v @ rest) = Inr (VNumber (IntNumber (- 1 - int v)), rest)"
  using readByte_head [of 1 v rest] assms
  by (subst readItem.simps) (auto simp: Let_def safe_integer_def)

lemma readItem_bytes:
  assumes "depth \<le> maxDepth opts" "limits_ok opts" "length b \<le> maxByteLength opts"
  shows "readItem opts depth (argument_bytes 2 (length b) @ b @ rest) = Inr (VBytes b, rest)"
  using readLength_head [of 2 "length b" "maxByteLength opts" "b @ rest"] assms
  by (subst readItem.simps) (auto simp: Let_def readBytes_def limits_ok_def)

lemma readItem_text:
  assumes "depth \<le> maxDepth opts" "limits_ok opts" "length b \<le> maxByteLength opts" "text_decode b = Some s"
  shows "readItem opts depth (argument_bytes 3 (length b) @ b @ rest) = Inr (VString s, rest)"
  using readLength_head [of 3 "length b" "maxByteLength opts" "b @ rest"] assms
  by (subst readItem.simps) (auto simp: Let_def readBytes_def limits_ok_def)

lemma readItem_array:
  assumes "depth \<le> maxDepth opts" "limits_ok opts" "n \<le> maxContainerLength opts"
    and "readElements opts (depth + 1) n rest = Inr (vs, rest')"
  shows "readItem opts depth (argument_bytes 4 n @ rest) = Inr (VArray vs, rest')"
  using readLength_head [of 4 "n" "maxContainerLength opts" "rest"] assms
  by (subst readItem.simps) (auto simp: Let_def readBytes_def limits_ok_def)

lemma readItem_object:
  assumes "depth \<le> maxDepth opts" "limits_ok opts" "n \<le> maxContainerLength opts"
    and "readEntries opts (depth + 1) n {} rest = Inr (entries, rest')"
  shows "readItem opts depth (argument_bytes 5 n @ rest) = Inr (VObject False (enumeration_order entries), rest')"
  using readLength_head [of 5 "n" "maxContainerLength opts" "rest"] assms
  by (subst readItem.simps) (auto simp: Let_def readBytes_def limits_ok_def)

lemma readItem_float:
  assumes "depth \<le> maxDepth opts" "double_finite f" "number_of_double f = FloatNumber f"
  shows "readItem opts depth (byte_of 0xFB # double_bytes f @ rest) = Inr (VNumber (FloatNumber f), rest)"
proof -
  have "length (double_bytes f) = 8" by (simp add: double_bytes_def)
  then show ?thesis
    using assms by (subst readItem.simps)
      (simp add: readByte_def unat_byte Let_def readSimple_def readBytes_def double_bytes_inverse)
qed

lemma readItem_simple:
  assumes "depth \<le> maxDepth opts"
  shows "readItem opts depth (byte_of 0xF6 # rest) = Inr (VNull, rest)"
    "readItem opts depth (byte_of (if b then 0xF5 else 0xF4) # rest) = Inr (VBoolean b, rest)"
  using assms by (subst readItem.simps; simp add: readByte_def unat_byte Let_def readSimple_def)+

text \<open>What a successful encoding step wrote, and that reading it back gives the value.\<close>

definition encodes :: "cbor_writer \<Rightarrow> cbor_writer \<Rightarrow> (bytes \<Rightarrow> bool) \<Rightarrow> bool" where
  "encodes w w' reads \<longleftrightarrow> (\<exists>bs. appends w bs w' \<and> reads bs)"

lemma encodeText_spec:
  assumes "encodeText w s opts = Inr w'" "wf_writer w" "limits_ok opts"
  shows "encodes w w' (\<lambda>bs. \<forall>depth rest. depth \<le> maxDepth opts \<longrightarrow>
    readItem opts depth (bs @ rest) = Inr (VString s, rest))"
proof -
  let ?b = "utf8_encode s"
  have c: "length ?b \<le> maxByteLength opts" "text_decode ?b = Some s"
    using assms(1) by (auto simp: encodeText_def Let_def split: if_splits)
  obtain u where u: "writeArgument w 3 (length ?b) = Inr u" "store_bytes u ?b = Inr w'"
    using assms(1) c by (auto simp: encodeText_def Let_def writeBytes_def split: sum.splits)
  note a = writeArgument_appends [OF assms(2) u(1)]
  have "appends w (argument_bytes 3 (length ?b) @ ?b) w'"
    using appends_trans [OF a store_bytes_appends [OF appends_wf [OF a] u(2)]] .
  then show ?thesis
    unfolding encodes_def using readItem_text [OF _ assms(3) c] by auto
qed

lemma encodeNumber_spec:
  assumes "encodeNumber w n = Inr w'" "wf_writer w" "wf_value (VNumber n)" "depth \<le> maxDepth opts"
  shows "encodes w w' (\<lambda>bs. \<forall>rest. readItem opts depth (bs @ rest) = Inr (VNumber n, rest))"
proof (cases n)
  case (FloatNumber f)
  then have "store_bytes w (byte_of 0xFB # double_bytes f) = Inr w'" "double_finite f"
    "number_of_double f = FloatNumber f"
    using assms(1,3) by (auto simp: encodeNumber_def writeFloat64_def split: if_splits)
  then show ?thesis
    using store_bytes_appends [OF assms(2)] readItem_float [OF assms(4)] FloatNumber
    unfolding encodes_def by fastforce
next
  case (IntNumber i)
  then have safe: "safe_integer i" using assms(1) by (auto simp: encodeNumber_def split: if_splits)
  show ?thesis
  proof (cases "0 \<le> i")
    case True
    then have "writeArgument w 0 (nat i) = Inr w'" using assms(1) IntNumber safe by (simp add: encodeNumber_def)
    from writeArgument_appends [OF assms(2) this] show ?thesis
      using readItem_number [OF assms(4), of "nat i"] IntNumber True safe
      unfolding encodes_def by (auto simp: safe_integer_def)
  next
    case False
    then have w: "writeArgument w 1 (nat (- 1 - i)) = Inr w'"
      using assms(1) IntNumber safe by (simp add: encodeNumber_def)
    have "int (nat (- 1 - i)) = - 1 - i" using False by simp
    then show ?thesis
      using readItem_negative [OF assms(4), of "nat (- 1 - i)"] IntNumber safe
        writeArgument_appends [OF assms(2) w]
      unfolding encodes_def by auto
  qed
qed

lemma appends_then:
  assumes "appends w xs u" "encodes u w' reads"
  shows "encodes w w' (\<lambda>bs. \<exists>ys. bs = xs @ ys \<and> reads ys)"
  using assms appends_trans unfolding encodes_def by blast

lemma encode_spec:
  shows "limits_ok opts \<Longrightarrow> encodeValue opts depth v w = Inr w' \<Longrightarrow> wf_writer w \<Longrightarrow> wf_value v \<Longrightarrow>
      depth \<le> maxDepth opts \<and>
      encodes w w' (\<lambda>bs. \<forall>rest. readItem opts depth (bs @ rest) = Inr (transmitted v, rest))"
    and "limits_ok opts \<Longrightarrow> encodeElements opts depth vs w = Inr w' \<Longrightarrow> wf_writer w \<Longrightarrow>
      \<forall>x \<in> set vs. (case x of None \<Rightarrow> True | Some v \<Rightarrow> wf_value v) \<Longrightarrow>
      encodes w w' (\<lambda>bs. \<forall>rest. readElements opts depth (length vs) (bs @ rest) =
        Inr (map (map_option transmitted) vs, rest))"
    and "limits_ok opts \<Longrightarrow> encodeEntries opts depth entries w = Inr w' \<Longrightarrow> wf_writer w \<Longrightarrow>
      distinct (map fst entries) \<Longrightarrow> \<forall>(k, v) \<in> set entries. wf_value v \<Longrightarrow>
      encodes w w' (\<lambda>bs. \<forall>keys rest. keys \<inter> fst ` set entries = {} \<longrightarrow>
        readEntries opts depth (length (defined_entries entries)) keys (bs @ rest) =
        Inr (defined_entries (map (\<lambda>(k, v). (k, transmitted v)) entries), rest))"
proof (induction opts depth v w and opts depth vs w and opts depth entries w
    arbitrary: w' and w' and w' rule: encodeValue_encodeElements_encodeEntries.induct)
  case (1 opts depth v w w')
  have d: "depth \<le> maxDepth opts" using 1(4) by (auto split: if_splits)
  show ?case
  proof (cases v)
    case VNull
    then have "store_bytes w [byte_of 0xF6] = Inr w'" using 1(4) d by (simp add: writeByte_def)
    from store_bytes_appends [OF 1(5) this] show ?thesis
      using VNull d readItem_simple(1) unfolding encodes_def by fastforce
  next
    case (VBoolean b)
    then have "store_bytes w [byte_of (if b then 0xF5 else 0xF4)] = Inr w'"
      using 1(4) d by (simp add: writeByte_def)
    from store_bytes_appends [OF 1(5) this] show ?thesis
      using VBoolean d readItem_simple(2) unfolding encodes_def by fastforce
  next
    case (VNumber n)
    then show ?thesis using 1 d encodeNumber_spec [of w n w'] by auto
  next
    case (VString s)
    then have "encodeText w s opts = Inr w'" using 1(4) d by simp
    from encodeText_spec [OF this 1(5,3)] show ?thesis using VString d unfolding encodes_def by auto
  next
    case (VBytes b)
    then obtain u where u: "writeArgument w 2 (length b) = Inr u" "store_bytes u b = Inr w'"
      "length b \<le> maxByteLength opts"
      using 1(4) d by (auto simp: writeBytes_def split: if_splits sum.splits)
    note a = writeArgument_appends [OF 1(5) u(1)]
    have "appends w (argument_bytes 2 (length b) @ b) w'"
      using appends_trans [OF a store_bytes_appends [OF appends_wf [OF a] u(2)]] .
    then show ?thesis
      using VBytes d readItem_bytes [OF d 1(3) u(3)] unfolding encodes_def by auto
  next
    case (VArray vs)
    then obtain u where u: "writeArgument w 4 (length vs) = Inr u"
      "encodeElements opts (depth + 1) vs u = Inr w'" "length vs \<le> maxContainerLength opts"
      using 1(4) d by (auto split: if_splits sum.splits)
    note a = writeArgument_appends [OF 1(5) u(1)]
    have "encodes u w' (\<lambda>bs. \<forall>rest. readElements opts (depth + 1) (length vs) (bs @ rest) =
        Inr (map (map_option transmitted) vs, rest))"
      using 1(1) [of vs u w'] d VArray u 1(3,6) appends_wf [OF a] by simp
    from appends_then [OF a this] show ?thesis
      using VArray d readItem_array [OF d 1(3) u(3)] unfolding encodes_def by auto
  next
    case (VObject symbols entries)
    then obtain u where u: "writeArgument w 5 (length (defined_entries entries)) = Inr u"
      "encodeEntries opts (depth + 1) entries u = Inr w'"
      "length (defined_entries entries) \<le> maxContainerLength opts" "\<not> symbols"
      using 1(4) d by (auto split: if_splits sum.splits)
    note a = writeArgument_appends [OF 1(5) u(1)]
    have wf: "distinct (map fst entries)" "\<forall>(k, v) \<in> set entries. wf_value v"
      "enumeration_order entries = entries"
      using 1(6) VObject by simp_all
    have "encodes u w' (\<lambda>bs. \<forall>keys rest. keys \<inter> fst ` set entries = {} \<longrightarrow>
        readEntries opts (depth + 1) (length (defined_entries entries)) keys (bs @ rest) =
        Inr (defined_entries (map (\<lambda>(k, v). (k, transmitted v)) entries), rest))"
      using 1(2) [of symbols entries u w'] d VObject u wf 1(3) appends_wf [OF a] by simp
    then obtain bs where bs: "appends u bs w'" "\<forall>rest. readEntries opts (depth + 1)
        (length (defined_entries entries)) {} (bs @ rest) =
        Inr (defined_entries (map (\<lambda>(k, v). (k, transmitted v)) entries), rest)"
      unfolding encodes_def by blast
    have "readItem opts depth ((argument_bytes 5 (length (defined_entries entries)) @ bs) @ rest) =
        Inr (transmitted v, rest)" for rest
      using readItem_object [OF d 1(3) u(3), of "bs @ rest"] bs(2) VObject u(4)
        enumeration_order_transmitted [OF wf(3)] by simp
    then show ?thesis using appends_trans [OF a bs(1)] d unfolding encodes_def by blast
  qed (use 1(4) d in simp_all)
next
  case (2 opts depth w w')
  then show ?case unfolding encodes_def appends_def by auto
next
  case (3 opts depth x xs w w')
  obtain v u where v: "x = Some v" "v \<noteq> VUndefined" "encodeValue opts depth v w = Inr u"
    "encodeElements opts depth xs u = Inr w'"
    using 3(4) by (auto split: option.splits if_splits sum.splits)
  obtain bs where bs: "appends w bs u" "\<forall>rest. readItem opts depth (bs @ rest) = Inr (transmitted v, rest)"
    using 3(1) [OF v(1,2) 3(3) v(3) 3(5)] 3(6) v(1) unfolding encodes_def by auto
  have "encodes u w' (\<lambda>bs. \<forall>rest. readElements opts depth (length xs) (bs @ rest) =
      Inr (map (map_option transmitted) xs, rest))"
    using 3(2) [OF v(1,2,3) 3(3) v(4) appends_wf [OF bs(1)]] 3(6) by simp
  from appends_then [OF bs(1) this] show ?case
    using bs(2) v(1) unfolding encodes_def by fastforce
next
  case (4 opts depth w w')
  then show ?case unfolding encodes_def appends_def by (auto simp: defined_entries_def)
next
  case (5 opts depth k v xs w w')
  show ?case
  proof (cases "v = VUndefined")
    case True
    have e: "encodeEntries opts depth xs w = Inr w'" "distinct (map fst xs)" "\<forall>(k, v) \<in> set xs. wf_value v"
      using 5(5,7,8) True by simp_all
    obtain bs where bs: "appends w bs w'" "\<forall>keys rest. keys \<inter> fst ` set xs = {} \<longrightarrow>
        readEntries opts depth (length (defined_entries xs)) keys (bs @ rest) =
        Inr (defined_entries (map (\<lambda>(k, v). (k, transmitted v)) xs), rest)"
      using 5(1) [OF True 5(4) e(1) 5(6) e(2,3)] unfolding encodes_def by blast
    have "defined_entries ((k, v) # xs) = defined_entries xs"
      "defined_entries (map (\<lambda>(k, v). (k, transmitted v)) ((k, v) # xs)) =
         defined_entries (map (\<lambda>(k, v). (k, transmitted v)) xs)"
      using True by (simp_all add: defined_entries_def)
    then show ?thesis
      unfolding encodes_def using bs by (intro exI [of _ bs]) (simp add: disjoint_iff)
  next
    case False
    obtain u u' where u: "encodeText w k opts = Inr u" "encodeValue opts depth v u = Inr u'"
      "encodeEntries opts depth xs u' = Inr w'"
      using 5(5) False by (auto split: sum.splits)
    obtain ks where ks: "appends w ks u" "\<forall>depth rest. depth \<le> maxDepth opts \<longrightarrow>
        readItem opts depth (ks @ rest) = Inr (VString k, rest)"
      using encodeText_spec [OF u(1) 5(6,4)] unfolding encodes_def by blast
    obtain bs where bs: "appends u bs u'" "depth \<le> maxDepth opts"
      "\<forall>rest. readItem opts depth (bs @ rest) = Inr (transmitted v, rest)"
      using 5(2) [OF False u(1) 5(4) u(2) appends_wf [OF ks(1)]] 5(8) unfolding encodes_def by auto
    obtain es where es: "appends u' es w'" "\<forall>keys rest. keys \<inter> fst ` set xs = {} \<longrightarrow>
        readEntries opts depth (length (defined_entries xs)) keys (es @ rest) =
        Inr (defined_entries (map (\<lambda>(k, v). (k, transmitted v)) xs), rest)"
      using 5(3) [OF False u(1,2) 5(4) u(3) appends_wf [OF bs(1)]] 5(7,8) unfolding encodes_def by auto
    have "appends w (ks @ bs @ es) w'" using ks(1) bs(1) es(1) appends_trans by blast
    moreover have "readEntries opts depth (length (defined_entries ((k, v) # xs))) keys ((ks @ bs @ es) @ rest) =
        Inr (defined_entries (map (\<lambda>(k, v). (k, transmitted v)) ((k, v) # xs)), rest)"
      if "keys \<inter> fst ` set ((k, v) # xs) = {}" for keys rest
      using that ks(2) bs(2,3) es(2) 5(7) False by (auto simp: defined_entries_def)
    ultimately show ?thesis unfolding encodes_def by blast
  qed
qed

section \<open>Decoded values are within the limits\<close>

fun fits :: "resolved_options \<Rightarrow> nat \<Rightarrow> js_value \<Rightarrow> bool" where
  "fits opts depth (VNumber (IntNumber i)) \<longleftrightarrow> depth \<le> maxDepth opts \<and> safe_integer i"
| "fits opts depth (VNumber (FloatNumber f)) \<longleftrightarrow> depth \<le> maxDepth opts \<and> double_finite f"
| "fits opts depth (VBytes b) \<longleftrightarrow> depth \<le> maxDepth opts \<and> length b \<le> maxByteLength opts"
| "fits opts depth (VArray vs) \<longleftrightarrow> depth \<le> maxDepth opts \<and> length vs \<le> maxContainerLength opts \<and>
     (\<forall>x \<in> set vs. case x of None \<Rightarrow> False | Some v \<Rightarrow> fits opts (depth + 1) v)"
| "fits opts depth (VObject symbols entries) \<longleftrightarrow> depth \<le> maxDepth opts \<and> \<not> symbols \<and>
     length entries \<le> maxContainerLength opts \<and> (\<forall>(k, v) \<in> set entries. fits opts (depth + 1) v)"
| "fits opts depth VUndefined \<longleftrightarrow> False"
| "fits opts depth VUnsupported \<longleftrightarrow> False"
| "fits opts depth v \<longleftrightarrow> depth \<le> maxDepth opts"

lemma partition_sort_idem:
  fixes f :: "'a \<Rightarrow> nat"
  defines "order \<equiv> \<lambda>P xs. sort_by f (filter P xs) @ filter (\<lambda>x. \<not> P x) xs"
  shows "order P (order P xs) = order P xs"
proof -
  have "filter P (sort_by f (filter P xs)) = sort_by f (filter P xs)"
    "filter (\<lambda>x. \<not> P x) (sort_by f (filter P xs)) = []"
    by (simp_all add: sort_by_def filter_sort filter_empty_conv)
  moreover have "sort_by f (sort_by f (filter P xs)) = sort_by f (filter P xs)"
    by (simp add: sort_by_def sort_key_id_if_sorted)
  ultimately show ?thesis by (simp add: order_def filter_empty_conv)
qed

lemma enumeration_order_idem: "enumeration_order (enumeration_order es) = enumeration_order es"
  using partition_sort_idem [of "\<lambda>x. the (array_index (fst x))" "\<lambda>x. array_index (fst x) \<noteq> None" es]
  by (simp add: enumeration_order_def case_prod_beta')

lemma set_enumeration_order [simp]: "set (enumeration_order es) = set es"
  by (auto simp: enumeration_order_def)

lemma length_enumeration_order [simp]: "length (enumeration_order es) = length es"
  using sum_length_filter_compl [of "\<lambda>x. array_index (fst x) \<noteq> None" es]
  by (simp add: enumeration_order_def case_prod_beta')

lemma mset_enumeration_order: "mset (enumeration_order es) = mset es"
  using multiset_partition [of "mset es" "\<lambda>x. array_index (fst x) \<noteq> None"]
  by (simp add: enumeration_order_def case_prod_beta' sort_by_def)

lemma distinct_enumeration_order: "distinct (map fst es) \<Longrightarrow> distinct (map fst (enumeration_order es))"
  using mset_enumeration_order [of es] by (metis mset_map mset_eq_imp_distinct_iff)

lemma unat_less_power_byte: "unat (x :: byte) < 256"
  using unsigned_less [of x, where 'a = nat] by simp

lemma readArgument_safe:
  assumes "readArgument info bs = Inr (n, rest)"
  shows "int n \<le> MAX_SAFE_INTEGER"
proof -
  have b: "unat (x :: byte) \<le> 255" for x using unat_less_power_byte [of x] by simp
  have p: "prefix_value h \<le> MAX_UINT32" for h
    using b [of "h ! 0"] b [of "h ! 1"] b [of "h ! 2"] b [of "h ! 3"]
    by (simp add: prefix_value_def MAX_UINT32_def)
  have r: "readUint32 xs = Inr (m, ys) \<Longrightarrow> m \<le> MAX_UINT32" for xs m ys
    using p by (auto simp: readUint32_def split: sum.splits)
  consider "info < 24" | "info = 24" | "info = 25" | "info = 26" | "info = 27"
    using assms by (auto simp: readArgument_def split: if_splits)
  then show ?thesis
  proof cases
    case 1
    then show ?thesis using assms by (simp add: readArgument_def MAX_SAFE_INTEGER_def)
  next
    case 2
    then obtain x where "n = unat (x :: byte)"
      using assms by (auto simp: readArgument_def readByte_def split: list.splits)
    then show ?thesis using b [of x] limit_safe [of n] by (simp add: MAX_UINT32_def)
  next
    case 3
    then obtain h :: bytes where "n = unat (h ! 0) * 0x100 + unat (h ! 1)"
      using assms by (auto simp: readArgument_def split: sum.splits)
    then show ?thesis using b [of "h ! 0"] b [of "h ! 1"] limit_safe [of n]
      by (simp add: MAX_UINT32_def)
  next
    case 4
    then show ?thesis using assms r by (simp add: readArgument_def limit_safe)
  next
    case 5
    then obtain h l where "n = h * UINT32_BASE + l" "h \<le> 0x1FFFFF" "l \<le> MAX_UINT32"
      using assms r by (auto simp: readArgument_def split: sum.splits if_splits)
    then show ?thesis by (simp add: MAX_SAFE_INTEGER_def UINT32_BASE_def MAX_UINT32_def)
  qed
qed

lemma number_of_double_cases:
  "(\<exists>i. number_of_double w = IntNumber i) \<or> number_of_double w = FloatNumber w"
  by (auto simp: number_of_double_def split: option.splits)

lemma readSimple_ok:
  assumes "readSimple info bs = Inr (v, rest)" "depth \<le> maxDepth opts"
  shows "fits opts depth v \<and> wf_value v"
proof (cases "info = 27")
  case True
  then obtain h where "double_finite (double_of_bytes h)" "v = VNumber (number_of_double (double_of_bytes h))"
    "\<forall>i. number_of_double (double_of_bytes h) = IntNumber i \<longrightarrow> safe_integer i"
    using assms(1) by (auto simp: readSimple_def Let_def split: if_splits sum.splits number.splits)
  then show ?thesis using number_of_double_cases [of "double_of_bytes h"] assms(2) by auto
next
  case False
  then show ?thesis using assms by (auto simp: readSimple_def split: if_splits)
qed

lemma read_within:
  shows "readItem opts depth bs = Inr (v, rest) \<Longrightarrow> fits opts depth v \<and> wf_value v"
    and "readElements opts depth n bs = Inr (vs, rest') \<Longrightarrow>
      length vs = n \<and> (\<forall>x \<in> set vs. \<exists>v. x = Some v \<and> fits opts depth v \<and> wf_value v)"
    and "readEntries opts depth n keys bs = Inr (entries, rest'') \<Longrightarrow>
      length entries = n \<and> distinct (map fst entries) \<and> keys \<inter> fst ` set entries = {} \<and>
      (\<forall>(k, v) \<in> set entries. fits opts depth v \<and> wf_value v)"
proof (induction opts depth bs and opts depth n bs and opts depth n keys bs
    arbitrary: v rest and vs rest' and entries rest'' rule: readItem_readElements_readEntries.induct)
  case (1 opts depth bs v rest)
  have d: "depth \<le> maxDepth opts" using 1(3) by (auto simp: readItem.simps split: if_splits)
  obtain initial tail where b: "readByte bs = Inr (initial, tail)"
    using 1(3) d by (auto simp: readItem.simps split: sum.splits)
  define m info where "m = initial div 32" and "info = initial mod 32"
  have len: "n \<le> limit" if "readLength info limit tail = Inr (n, r)" for n limit r
    using that by (auto simp: readLength_def split: if_splits sum.splits)
  consider "m = 0" | "m = 1" | "m = 2" | "m = 3" | "m = 4" | "m = 5" | "6 \<le> m" by linarith
  then show ?case
  proof cases
    case 1
    then show ?thesis
      using \<open>readItem opts depth bs = Inr (v, rest)\<close> d b readArgument_safe
      by (auto simp: readItem.simps [of opts depth bs] m_def info_def Let_def safe_integer_def split: sum.splits)
  next
    case 2
    then show ?thesis
      using \<open>readItem opts depth bs = Inr (v, rest)\<close> d b
      by (auto simp: readItem.simps [of opts depth bs] m_def info_def Let_def split: sum.splits if_splits)
  next
    case 3
    then show ?thesis
      using \<open>readItem opts depth bs = Inr (v, rest)\<close> d b len
      by (auto simp: readItem.simps [of opts depth bs] m_def info_def Let_def readBytes_def
          split: sum.splits if_splits)
  next
    case 4
    then show ?thesis
      using \<open>readItem opts depth bs = Inr (v, rest)\<close> d b
      by (auto simp: readItem.simps [of opts depth bs] m_def Let_def split: sum.splits option.splits)
  next
    case 5
    then obtain n r vs where e: "readLength info (maxContainerLength opts) tail = Inr (n, r)"
      "readElements opts (depth + 1) n r = Inr (vs, rest)" "v = VArray vs"
      using \<open>readItem opts depth bs = Inr (v, rest)\<close> d b
      by (auto simp: readItem.simps [of opts depth bs] m_def info_def Let_def split: sum.splits)
    have "length vs = n \<and> (\<forall>x \<in> set vs. \<exists>v. x = Some v \<and> fits opts (depth + 1) v \<and> wf_value v)"
      by (rule 1(1)) (use d b 5 e in \<open>simp_all add: m_def info_def\<close>)
    then show ?thesis using e d len by fastforce
  next
    case 6
    then obtain n r es where e: "readLength info (maxContainerLength opts) tail = Inr (n, r)"
      "readEntries opts (depth + 1) n {} r = Inr (es, rest)" "v = VObject False (enumeration_order es)"
      using \<open>readItem opts depth bs = Inr (v, rest)\<close> d b
      by (auto simp: readItem.simps [of opts depth bs] m_def info_def Let_def split: sum.splits)
    have "length es = n \<and> distinct (map fst es) \<and> {} \<inter> fst ` set es = {} \<and>
        (\<forall>(k, v) \<in> set es. fits opts (depth + 1) v \<and> wf_value v)"
      by (rule 1(2)) (use d b 6 e in \<open>simp_all add: m_def info_def\<close>)
    then show ?thesis
      using e d len distinct_enumeration_order [of es] enumeration_order_idem [of es] by auto
  next
    case 7
    then have "readSimple info tail = Inr (v, rest)"
      using \<open>readItem opts depth bs = Inr (v, rest)\<close> d b
      by (auto simp: readItem.simps [of opts depth bs] m_def info_def Let_def split: if_splits)
    then show ?thesis using readSimple_ok d by blast
  qed
next
  case (3 opts depth n bs vs rest')
  obtain v r ws where e: "readItem opts depth bs = Inr (v, r)" "readElements opts depth n r = Inr (ws, rest')"
    "vs = Some v # ws"
    using 3(3) by (auto split: sum.splits)
  show ?case using 3(1) [OF e(1)] 3(2) [OF e(1) refl e(2)] e(3) by auto
next
  case (5 opts depth n keys bs entries rest'')
  obtain k r v r' es where e: "readItem opts depth bs = Inr (VString k, r)" "k \<notin> keys"
    "readItem opts depth r = Inr (v, r')" "readEntries opts depth n (insert k keys) r' = Inr (es, rest'')"
    "entries = (k, v) # es"
    using 5(4) by (auto split: sum.splits js_value.splits if_splits)
  have v: "fits opts depth v \<and> wf_value v" by (rule 5(2)) (use e in simp_all)
  have es: "length es = n \<and> distinct (map fst es) \<and> insert k keys \<inter> fst ` set es = {} \<and>
      (\<forall>(k, v) \<in> set es. fits opts depth v \<and> wf_value v)"
    by (rule 5(3)) (use e in simp_all)
  then show ?case using v e(2,5) by auto
qed simp_all

lemma resolveOptions_limits: "resolveOptions opts = Inr resolved \<Longrightarrow> limits_ok resolved"
  by (auto simp: resolveOptions_def resolveLimit_def limits_ok_def MAX_UINT32_def
      split: sum.splits option.splits js_number.splits if_splits)

lemma cbor_decode_encoded:
  assumes "encodeCbor v opts = Inr bs" and "wf_value v"
  shows "decodeCbor bs opts = Inr (transmitted v) \<and>
    (\<exists>resolved. resolveOptions opts = Inr resolved \<and> length bs \<le> maxByteLength resolved)"
proof -
  obtain r w where r: "resolveOptions opts = Inr r" "bs = finish_writer w"
    "encodeValue r 0 v (new_cbor_writer (maxByteLength r)) = Inr w"
    using assms(1) by (auto simp: encodeCbor_def split: sum.splits)
  note w0 = new_cbor_writer_wf [of "maxByteLength r"]
  obtain ys where ys: "appends (new_cbor_writer (maxByteLength r)) ys w"
    "\<forall>rest. readItem r 0 (ys @ rest) = Inr (transmitted v, rest)"
    using encode_spec(1) [OF resolveOptions_limits [OF r(1)] r(3) w0(1) assms(2)]
    unfolding encodes_def by blast
  then have "bs = ys" "length bs \<le> maxByteLength r"
    using r(2) w0 by (auto simp: appends_def wf_writer_def finish_writer_def)
  then show ?thesis
    using r(1) ys(2) [rule_format, of "[]"] by (simp add: decodeCbor_def)
qed

section \<open>Properties\<close>

text \<open>
  C23. Round trip: whatever \<open>encodeCbor\<close> accepts, \<open>decodeCbor\<close> under the same options accepts,
  and it returns the value that was encoded, without the properties that were \<open>undefined\<close>. The
  encoding never exceeds the configured byte limit.
\<close>

theorem cbor_round_trip:
  assumes "encodeCbor v opts = Inr bs" and "wf_value v"
  shows "decodeCbor bs opts = Inr (transmitted v) \<and>
    (\<exists>resolved. resolveOptions opts = Inr resolved \<and> length bs \<le> maxByteLength resolved)"
  by (rule cbor_decode_encoded [OF assms])

definition demo_cbor_options :: cbor_options where
  "demo_cbor_options = \<lparr>opt_maxByteLength = Some (JsInt 6), opt_maxContainerLength = Some (JsInt 8),
     opt_maxDepth = Some (JsInt 4)\<rparr>"

definition demo_cbor_value :: js_value where
  "demo_cbor_value = VArray [Some (VNumber (IntNumber (- 5))), Some (VObject False [([97], VUndefined)])]"

lemma demo_cbor_resolved:
  "resolveOptions demo_cbor_options = Inr \<lparr>maxByteLength = 6, maxContainerLength = 8, maxDepth = 4\<rparr>"
  by (simp add: resolveOptions_def demo_cbor_options_def resolveLimit_def safe_integer_def
      MAX_SAFE_INTEGER_def MAX_UINT32_def)

theorem cbor_round_trip_witness:
  "encodeCbor demo_cbor_value demo_cbor_options = Inr [0x82, 0x24, 0xA0] \<and>
   decodeCbor [0x82, 0x24, 0xA0] demo_cbor_options =
     Inr (VArray [Some (VNumber (IntNumber (- 5))), Some (VObject False [])])"
proof -
  have e: "encodeCbor demo_cbor_value demo_cbor_options = Inr [0x82, 0x24, 0xA0]"
    by (simp add: encodeCbor_def demo_cbor_resolved demo_cbor_value_def new_cbor_writer_def
        encodeNumber_def writeArgument_def writeByte_def store_bytes_def ensureCapacity_def
        defined_entries_def safe_integer_def MAX_SAFE_INTEGER_def byte_of_def array_set_def
        finish_writer_def Let_def)
  have "wf_value demo_cbor_value"
    by (simp add: demo_cbor_value_def enumeration_order_def array_index_def)
  from cbor_round_trip [OF e this] e show ?thesis
    by (simp add: demo_cbor_value_def defined_entries_def)
qed

text \<open>
  C24. Untrusted input: a payload that \<open>decodeCbor\<close> accepts is a well-formed value within the
  configured limits: nesting depth, container and byte-string lengths, safe integers, finite
  numbers, unique keys, no holes.
\<close>

theorem decoded_values_respect_limits:
  assumes "decodeCbor bs opts = Inr v" and "resolveOptions opts = Inr resolved"
  shows "fits resolved 0 v \<and> wf_value v"
  using assms read_within(1) by (auto simp: decodeCbor_def split: sum.splits if_splits)

theorem decoded_values_respect_limits_witness:
  "decodeCbor [0x81, 0x20] demo_cbor_options = Inr (VArray [Some (VNumber (IntNumber (- 1)))]) \<and>
   fits \<lparr>maxByteLength = 6, maxContainerLength = 8, maxDepth = 4\<rparr> 0 (VArray [Some (VNumber (IntNumber (- 1)))])"
proof -
  have d: "decodeCbor [0x81, 0x20] demo_cbor_options = Inr (VArray [Some (VNumber (IntNumber (- 1)))])"
    by (simp add: decodeCbor_def demo_cbor_resolved readItem.simps readByte_def readLength_def
        readArgument_def safe_integer_def MAX_SAFE_INTEGER_def Let_def)
  show ?thesis using decoded_values_respect_limits [OF d demo_cbor_resolved] d by blast
qed

end
