(* ===== verification/Protocol_Codec.thy ===== *)
theory Protocol_Codec
  imports Cbor
begin

text \<open>
  Protocol messages, \<^verbatim>\<open>packages/protocol/src/codec.ts\<close>: a message is checked, encoded as CBOR and
  framed; the decoder takes the frames of a byte stream, decodes and checks each, and fails for good
  at the first error. The schema check \<^verbatim>\<open>Check\<close> of the package \<^verbatim>\<open>typebox\<close> is the parameter
  \<open>check\<close>, one for client and one for server messages. Values are those of the CBOR codec; an object
  without the standard prototype, which the check refuses, is the value \<open>VUnsupported\<close> here.
\<close>

section \<open>Messages\<close>

datatype protocol_error = InvalidMessage | EncodingFailed | MessageDecoderFailed | InvalidFrame | InvalidFraming

fun isProtocolValue :: "bool \<Rightarrow> js_value \<Rightarrow> bool" where
  "isProtocolValue optionalProperty VUndefined \<longleftrightarrow> optionalProperty"
| "isProtocolValue _ VNull \<longleftrightarrow> True"
| "isProtocolValue _ (VBoolean _) \<longleftrightarrow> True"
| "isProtocolValue _ (VNumber _) \<longleftrightarrow> True"
| "isProtocolValue _ (VString _) \<longleftrightarrow> True"
| "isProtocolValue _ (VArray vs) \<longleftrightarrow>
     (\<forall>x \<in> set vs. case x of None \<Rightarrow> True | Some v \<Rightarrow> isProtocolValue False v)"
| "isProtocolValue _ (VObject symbols entries) \<longleftrightarrow> (\<forall>(k, v) \<in> set entries. isProtocolValue True v)"
| "isProtocolValue _ (VBytes _) \<longleftrightarrow> False"
| "isProtocolValue _ VUnsupported \<longleftrightarrow> False"

definition parse_message :: "(js_value \<Rightarrow> bool) \<Rightarrow> js_value \<Rightarrow> protocol_error + js_value" where
  "parse_message check v = (if \<not> isProtocolValue False v \<or> \<not> check v then Inl InvalidMessage else Inr v)"

definition frame_limit :: "js_number option \<Rightarrow> js_number" where
  "frame_limit maxFrameLength =
     (case maxFrameLength of Some n \<Rightarrow> n | None \<Rightarrow> JsInt (int DEFAULT_MAX_FRAME_LENGTH))"

definition byte_limit :: "js_number \<Rightarrow> cbor_options" where
  "byte_limit n = \<lparr>opt_maxByteLength = Some n, opt_maxContainerLength = None, opt_maxDepth = None\<rparr>"

definition encodeProtocolMessage ::
    "(js_value \<Rightarrow> bool) \<Rightarrow> js_value \<Rightarrow> js_number option \<Rightarrow> protocol_error + bytes" where
  "encodeProtocolMessage check v maxFrameLength =
     (case parse_message check v of
        Inl e \<Rightarrow> Inl e
      | Inr validated \<Rightarrow>
          (let limit = frame_limit maxFrameLength
           in case encodeCbor validated (byte_limit limit) of
                Inl _ \<Rightarrow> Inl EncodingFailed
              | Inr payload \<Rightarrow>
                  (case encodeFrame payload of
                     Inl _ \<Rightarrow> Inl EncodingFailed
                   | Inr frame \<Rightarrow>
                       (case assertCompleteFrame frame (Some limit) of
                          Inl _ \<Rightarrow> Inl EncodingFailed
                        | Inr _ \<Rightarrow> Inr frame))))"

section \<open>The decoder\<close>

record message_decoder =
  md_failed :: bool
  md_frames :: frame_decoder
  md_maxFrameLength :: js_number

definition new_message_decoder :: "js_number option \<Rightarrow> frame_error + message_decoder" where
  "new_message_decoder maxFrameLength =
     (case new_frame_decoder maxFrameLength of
        Inl e \<Rightarrow> Inl e
      | Inr d \<Rightarrow> Inr \<lparr>md_failed = False, md_frames = d, md_maxFrameLength = frame_limit maxFrameLength\<rparr>)"

fun parse_frames :: "(js_value \<Rightarrow> bool) \<Rightarrow> js_number \<Rightarrow> bytes list \<Rightarrow> protocol_error + js_value list" where
  "parse_frames check limit [] = Inr []"
| "parse_frames check limit (frame # frames) =
     (case decodeCbor frame (byte_limit limit) of
        Inl _ \<Rightarrow> Inl InvalidFrame
      | Inr v \<Rightarrow>
          (case parse_message check v of
             Inl e \<Rightarrow> Inl e
           | Inr m \<Rightarrow>
               (case parse_frames check limit frames of Inl e \<Rightarrow> Inl e | Inr ms \<Rightarrow> Inr (m # ms))))"

definition push_messages ::
    "(js_value \<Rightarrow> bool) \<Rightarrow> message_decoder \<Rightarrow> bytes \<Rightarrow>
     (message_decoder \<times> (protocol_error + js_value list)) option" where
  "push_messages check d chunk =
     (if md_failed d then Some (d, Inl MessageDecoderFailed)
      else (case push (md_frames d) chunk of
              None \<Rightarrow> None
            | Some (fd, Inl _) \<Rightarrow> Some (d\<lparr>md_frames := fd, md_failed := True\<rparr>, Inl InvalidFrame)
            | Some (fd, Inr frames) \<Rightarrow>
                (case parse_frames check (md_maxFrameLength d) frames of
                   Inl e \<Rightarrow> Some (d\<lparr>md_frames := fd, md_failed := True\<rparr>, Inl e)
                 | Inr ms \<Rightarrow> Some (d\<lparr>md_frames := fd\<rparr>, Inr ms))))"

definition end_messages :: "message_decoder \<Rightarrow> message_decoder \<times> (protocol_error + unit)" where
  "end_messages d =
     (if md_failed d then (d, Inl MessageDecoderFailed)
      else (case end_decoder (md_frames d) of
              (fd, Inl _) \<Rightarrow> (d\<lparr>md_frames := fd, md_failed := True\<rparr>, Inl InvalidFraming)
            | (fd, Inr _) \<Rightarrow> (d\<lparr>md_frames := fd\<rparr>, Inr ())))"

definition PROTOCOL_VERSION :: int where
  "PROTOCOL_VERSION = 1"

definition isSupportedProtocolVersion :: "js_number \<Rightarrow> bool" where
  "isSupportedProtocolVersion version =
     (case version of JsNotInt \<Rightarrow> False | JsInt n \<Rightarrow> n = PROTOCOL_VERSION)"

text \<open>A stream of chunks pushed one after the other, up to the first error.\<close>

fun push_all_messages ::
    "(js_value \<Rightarrow> bool) \<Rightarrow> message_decoder \<Rightarrow> bytes list \<Rightarrow>
     (message_decoder \<times> (protocol_error + js_value list)) option" where
  "push_all_messages check d [] = Some (d, Inr [])"
| "push_all_messages check d (c # cs) =
     (case push_messages check d c of
        None \<Rightarrow> None
      | Some (d', Inl e) \<Rightarrow> Some (d', Inl e)
      | Some (d', Inr ms) \<Rightarrow>
          (case push_all_messages check d' cs of
             None \<Rightarrow> None
           | Some (d'', Inl e) \<Rightarrow> Some (d'', Inl e)
           | Some (d'', Inr ms') \<Rightarrow> Some (d'', Inr (ms @ ms'))))"

section \<open>Streams of messages\<close>

lemma parse_frames_append:
  "parse_frames check limit (xs @ ys) =
     (case parse_frames check limit xs of
        Inl e \<Rightarrow> Inl e
      | Inr ms \<Rightarrow> (case parse_frames check limit ys of Inl e \<Rightarrow> Inl e | Inr ms' \<Rightarrow> Inr (ms @ ms')))"
  by (induction xs) (auto split: sum.splits)

lemma push_all_parses:
  assumes "push_all (md_frames d) cs = Some (fd, Inr frames)" "\<not> md_failed d"
    and "parse_frames check (md_maxFrameLength d) frames = Inr ms"
  shows "push_all_messages check d cs = Some (d\<lparr>md_frames := fd\<rparr>, Inr ms)"
  using assms
proof (induction cs arbitrary: d frames ms)
  case (Cons c cs)
  obtain d1 f1 f2 where p: "push (md_frames d) c = Some (d1, Inr f1)" "push_all d1 cs = Some (fd, Inr f2)"
      "frames = f1 @ f2"
    using Cons.prems(1) by (auto split: option.splits prod.splits sum.splits)
  obtain m1 m2 where m: "parse_frames check (md_maxFrameLength d) f1 = Inr m1"
      "parse_frames check (md_maxFrameLength d) f2 = Inr m2" "ms = m1 @ m2"
    using Cons.prems(3) p(3) by (auto simp: parse_frames_append split: sum.splits)
  have "push_messages check d c = Some (d\<lparr>md_frames := d1\<rparr>, Inr m1)"
    using p(1) m(1) Cons.prems(2) by (simp add: push_messages_def)
  moreover have "push_all_messages check (d\<lparr>md_frames := d1\<rparr>) cs = Some (d\<lparr>md_frames := fd\<rparr>, Inr m2)"
    using Cons.IH [of "d\<lparr>md_frames := d1\<rparr>" f2 m2] p(2) m(2) Cons.prems(2) by simp
  ultimately show ?case using m(3) by simp
qed simp

lemma transmitted_protocol_value: "isProtocolValue b v \<Longrightarrow> isProtocolValue b (transmitted v)"
proof (induction v arbitrary: b)
  case (VArray vs)
  have "isProtocolValue False (transmitted v)" if "Some v \<in> set vs" for v
    using VArray.IH [of "Some v" v False] VArray.prems that by fastforce
  then show ?case by (auto split: option.splits)
next
  case (VObject symbols entries)
  have "isProtocolValue True (transmitted v)" if "(k, v) \<in> set entries" for k v
    using VObject.IH [of "(k, v)" v True] VObject.prems that by fastforce
  then show ?case by (auto simp: defined_entries_def)
qed simp_all

lemma encoded_frame:
  assumes "encodeProtocolMessage check v limit = Inr frame" "wf_value v"
    and "check v \<Longrightarrow> check (transmitted v)"
  obtains payload where "encodeFrame payload = Inr frame"
    "parse_frames check (frame_limit limit) (payload # fs) =
      (case parse_frames check (frame_limit limit) fs of Inl e \<Rightarrow> Inl e | Inr ms \<Rightarrow> Inr (transmitted v # ms))"
    "\<exists>n. resolveMaxFrameLength (Some (frame_limit limit)) = Inr n \<and> length payload \<le> n"
proof -
  obtain payload where p: "isProtocolValue False v" "check v" "encodeCbor v (byte_limit (frame_limit limit)) = Inr payload"
      "encodeFrame payload = Inr frame" "assertCompleteFrame frame (Some (frame_limit limit)) = Inr ()"
    using assms(1) by (auto simp: encodeProtocolMessage_def parse_message_def Let_def split: sum.splits if_splits)
  have "decodeCbor payload (byte_limit (frame_limit limit)) = Inr (transmitted v)"
    using cbor_decode_encoded [OF p(3) assms(2)] by blast
  then have parse: "parse_frames check (frame_limit limit) (payload # fs) =
      (case parse_frames check (frame_limit limit) fs of Inl e \<Rightarrow> Inl e | Inr ms \<Rightarrow> Inr (transmitted v # ms))"
    using assms(3) p(1,2) transmitted_protocol_value by (simp add: parse_message_def)
  have "prefix_value frame = length payload"
    using encodeFrame_ok [OF p(4)] prefix_value_length_prefix prefix_value_append by simp
  then have "\<exists>n. resolveMaxFrameLength (Some (frame_limit limit)) = Inr n \<and> length payload \<le> n"
    using p(5) by (auto simp: assertCompleteFrame_def Let_def split: if_splits sum.splits)
  with p(4) parse that show ?thesis by blast
qed

lemma frame_limit_resolves: "resolveMaxFrameLength (Some (frame_limit limit)) = resolveMaxFrameLength limit"
  by (cases limit) (simp_all add: resolveMaxFrameLength_def frame_limit_def DEFAULT_MAX_FRAME_LENGTH_def
      MAX_SAFE_INTEGER_def MAX_UINT32_def)

lemma encoded_frames:
  assumes "list_all2 (\<lambda>v f. encodeProtocolMessage check v limit = Inr f) vs frames"
    and "\<forall>v \<in> set vs. wf_value v" and schema: "\<And>v. check v \<Longrightarrow> check (transmitted v)"
    and limit: "resolveMaxFrameLength limit = Inr n"
  shows "\<exists>payloads. list_all2 (\<lambda>p f. encodeFrame p = Inr f) payloads frames \<and>
    (\<forall>p \<in> set payloads. length p \<le> n) \<and>
    parse_frames check (frame_limit limit) payloads = Inr (map transmitted vs)"
  using assms(1,2)
proof (induction rule: list_all2_induct)
  case Nil
  then show ?case by (intro exI [of _ "[]"]) simp
next
  case (Cons v vs f fs)
  then obtain ps where ps: "list_all2 (\<lambda>p f. encodeFrame p = Inr f) ps fs" "\<forall>p \<in> set ps. length p \<le> n"
      "parse_frames check (frame_limit limit) ps = Inr (map transmitted vs)" by auto
  have "wf_value v" using Cons.prems by simp
  from encoded_frame [OF Cons(1) this schema, of ps] obtain p where "encodeFrame p = Inr f"
      "parse_frames check (frame_limit limit) (p # ps) = Inr (transmitted v # map transmitted vs)" "length p \<le> n"
    using ps(3) limit by (auto simp: frame_limit_resolves)
  with ps show ?case by (intro exI [of _ "p # ps"]) simp
qed

section \<open>Property\<close>

text \<open>
  C33. Messages cross the wire. Messages that one side encodes, concatenated and cut into chunks in
  any way, come out of the decoder of the other side in order and complete, each as it was sent
  without its undefined properties, and the stream then ends cleanly. The schema is assumed not to
  distinguish an undefined property from an absent one.
\<close>

theorem protocol_messages_round_trip:
  assumes "new_message_decoder limit = Inr d"
    and "list_all2 (\<lambda>v f. encodeProtocolMessage check v limit = Inr f) messages frames"
    and "\<forall>v \<in> set messages. wf_value v"
    and schema: "\<And>v. check v \<Longrightarrow> check (transmitted v)"
    and "concat chunks = concat frames"
  shows "\<exists>d'. push_all_messages check d chunks = Some (d', Inr (map transmitted messages)) \<and>
    snd (end_messages d') = Inr ()"
proof -
  obtain fd where fd: "new_frame_decoder limit = Inr fd"
      "d = \<lparr>md_failed = False, md_frames = fd, md_maxFrameLength = frame_limit limit\<rparr>"
    using assms(1) by (auto simp: new_message_decoder_def split: sum.splits)
  note fd_ok = new_frame_decoder_ok [OF fd(1)]
  obtain payloads where p: "list_all2 (\<lambda>p f. encodeFrame p = Inr f) payloads frames"
      "\<forall>p \<in> set payloads. length p \<le> fd_maxFrameLength fd"
      "parse_frames check (frame_limit limit) payloads = Inr (map transmitted messages)"
    using encoded_frames [OF assms(2,3) schema fd_ok(3)] by blast
  have "split_frames (fd_maxFrameLength fd) (pending fd @ concat chunks) = (payloads, Some [])"
    using split_frames_encoded [OF p(1,2)] assms(5) fd_ok(2) by simp
  then obtain fd' where fd': "push_all fd chunks = Some (fd', Inr payloads)" "decoder_ok fd'" "pending fd' = []"
    using push_all_spec [OF fd_ok(1), of chunks] by (auto simp: push_outcome_def)
  have "push_all_messages check d chunks = Some (d\<lparr>md_frames := fd'\<rparr>, Inr (map transmitted messages))"
    by (rule push_all_parses) (use fd'(1) fd(2) p(3) in simp_all)
  moreover have "snd (end_messages (d\<lparr>md_frames := fd'\<rparr>)) = Inr ()"
    using end_decoder_ok [OF fd'(2)] fd'(3) fd(2) by (simp add: end_messages_def)
  ultimately show ?thesis by blast
qed

lemma demo_message: "encodeProtocolMessage (\<lambda>v. True) VNull (Some (JsInt 4)) = Inr [0, 0, 0, 1, 0xF6]"
  by (simp add: encodeProtocolMessage_def parse_message_def frame_limit_def byte_limit_def encodeCbor_def
      resolveOptions_def resolveLimit_def safe_integer_def MAX_SAFE_INTEGER_def MAX_UINT32_def
      new_cbor_writer_def writeByte_def store_bytes_def ensureCapacity_def array_set_def finish_writer_def
      byte_of_def encodeFrame_def length_prefix_def shifted_byte_def assertCompleteFrame_def
      FRAME_HEADER_LENGTH_def prefix_value_def resolveMaxFrameLength_def Let_def)

theorem protocol_messages_round_trip_witness:
  "\<exists>d d'. new_message_decoder (Some (JsInt 4)) = Inr d \<and>
     push_all_messages (\<lambda>v. True) d [[0, 0], [0, 1, 0xF6, 0], [0, 0, 1], [0xF6]] = Some (d', Inr [VNull, VNull])"
proof -
  obtain d where d: "new_message_decoder (Some (JsInt 4)) = Inr d"
    by (simp add: new_message_decoder_def new_frame_decoder_def resolveMaxFrameLength_def MAX_SAFE_INTEGER_def
        MAX_UINT32_def)
  have "list_all2 (\<lambda>v f. encodeProtocolMessage (\<lambda>v. True) v (Some (JsInt 4)) = Inr f)
      [VNull, VNull] [[0, 0, 0, 1, 0xF6], [0, 0, 0, 1, 0xF6]]"
    using demo_message by simp
  from protocol_messages_round_trip [OF d this, of "[[0, 0], [0, 1, 0xF6, 0], [0, 0, 1], [0xF6]]"] d
  show ?thesis by (simp del: push_all_messages.simps) blast
qed

end
