(* ===== verification/Agent_Loop.thy ===== *)
theory Agent_Loop
  imports Session_Types
begin

text \<open>
  The agent loop, \<^verbatim>\<open>packages/agent/src/agent-loop.ts\<close>: turns of one model answer and the tool calls in
  it, with steering and follow-up messages between them, until there is nothing left to do. Everything
  outside the loop (the provider's stream, tools, hooks, queues, the abort signal, the clock, the sink
  of events) acts on a world of type \<open>'w\<close> and is an argument; \<open>le_stream\<close> stands for the call of
  \<^verbatim>\<open>getApiKey\<close> and the call of the stream function right after it. The hooks whose errors the loop
  catches have a result with a left summand; an error the loop does not catch ends the run, which \<open>Agent_Facade\<close>
  models as a world on which nothing acts any more. The log of emitted events is part of the state. A tool
  runs in steps, each an update or its end; tools of a parallel batch take their steps in an order the
  scheduler of the world picks, the last step of a call together with \<^verbatim>\<open>afterToolCall\<close> and the
  announcement of its end. A stream, a tool or a run that does not end is \<open>None\<close>.
\<close>

section \<open>Data\<close>

type_synonym tool_args = "(string \<times> json) list"

datatype tool_execution_mode = SequentialMode | ParallelMode

record agent_tool_result =
  ar_content :: "input_content list option" \<comment> \<open>untyped tools may leave it out\<close>
  ar_details :: "json option"
  ar_usage :: "usage option"
  ar_addedToolNames :: "string list option"
  ar_terminate :: "bool option"

datatype agent_event = AgentStart
  | AgentEnd "agent_message list"
  | TurnStart
  | TurnEnd assistant_message "tool_result_message list"
  | MessageStart agent_message
  | MessageUpdate assistant_message
  | MessageEnd agent_message
  | ToolExecutionStart ident string tool_args
  | ToolExecutionUpdate ident string tool_args agent_tool_result
  | ToolExecutionEnd ident string agent_tool_result bool

datatype tool_progress = ToolUpdated agent_tool_result | ToolReturned agent_tool_result | ToolThrew string

record 'w agent_tool =
  at_name :: string
  at_executionMode :: "tool_execution_mode option"
  at_prepareArguments :: "(tool_args \<Rightarrow> string + tool_args) option"
  at_validate :: "tool_args \<Rightarrow> string + tool_args"
  at_execute :: "'w \<Rightarrow> ident \<Rightarrow> tool_args \<Rightarrow> 'w \<times> tool_progress"

record 'w agent_context =
  cx_systemPrompt :: string
  cx_messages :: "agent_message list"
  cx_tools :: "'w agent_tool list option"

record agent_config =
  ag_model :: string
  ag_reasoning :: "string option"
  ag_toolExecution :: "tool_execution_mode option"

record before_result =
  bf_block :: bool
  bf_reason :: "string option"
  bf_terminate :: bool

record after_result =
  af_content :: "input_content list option"
  af_details :: "json option"
  af_isError :: "bool option"
  af_usage :: "usage option"
  af_terminate :: "bool option"

record 'w turn_update =
  tu_context :: "'w agent_context option"
  tu_model :: "string option"
  tu_thinkingLevel :: "string option"

datatype stream_event = StreamStart assistant_message | StreamPart assistant_message | StreamEnd

record 'w loop_env =
  le_emit :: "'w \<Rightarrow> agent_event \<Rightarrow> 'w"
  le_aborted :: "'w \<Rightarrow> bool"
  le_now :: "'w \<Rightarrow> int"
  le_getSteeringMessages :: "'w \<Rightarrow> 'w \<times> agent_message list"
  le_getFollowUpMessages :: "'w \<Rightarrow> 'w \<times> agent_message list"
  le_transformContext :: "('w \<Rightarrow> agent_message list \<Rightarrow> 'w \<times> agent_message list) option"
  le_convertToLlm :: "'w \<Rightarrow> agent_message list \<Rightarrow> 'w \<times> agent_message list"
  le_stream :: "'w \<Rightarrow> agent_config \<Rightarrow> string \<Rightarrow> agent_message list \<Rightarrow> 'w agent_tool list option \<Rightarrow> 'w"
  le_next :: "'w \<Rightarrow> 'w \<times> stream_event option"
  le_result :: "'w \<Rightarrow> 'w \<times> assistant_message"
  le_beforeToolCall :: "('w \<Rightarrow> assistant_message \<Rightarrow> tool_call \<Rightarrow> tool_args \<Rightarrow> 'w agent_context \<Rightarrow>
     'w \<times> (string + before_result option)) option"
  le_afterToolCall :: "('w \<Rightarrow> assistant_message \<Rightarrow> tool_call \<Rightarrow> tool_args \<Rightarrow> agent_tool_result \<Rightarrow> bool \<Rightarrow>
     'w agent_context \<Rightarrow> 'w \<times> (string + after_result option)) option"
  le_prepareNextTurn :: "'w \<Rightarrow> assistant_message \<Rightarrow> tool_result_message list \<Rightarrow> 'w agent_context \<Rightarrow>
     agent_message list \<Rightarrow> 'w \<times> 'w turn_update option"
  le_shouldStopAfterTurn :: "'w \<Rightarrow> assistant_message \<Rightarrow> tool_result_message list \<Rightarrow> 'w agent_context \<Rightarrow>
     agent_message list \<Rightarrow> 'w \<times> bool"
  le_pick :: "'w \<Rightarrow> nat list \<Rightarrow> 'w \<times> nat"

record 'w loop_state =
  lp_events :: "agent_event list"
  lp_world :: 'w

definition emit :: "'w loop_env \<Rightarrow> agent_event \<Rightarrow> 'w loop_state \<Rightarrow> 'w loop_state" where
  "emit env e s = s\<lparr>lp_events := lp_events s @ [e], lp_world := le_emit env (lp_world s) e\<rparr>"

section \<open>The answer of the model\<close>

definition finish_response ::
    "'w loop_env \<Rightarrow> bool \<Rightarrow> agent_message list \<Rightarrow> 'w loop_state \<Rightarrow>
     agent_message list \<times> assistant_message \<times> 'w loop_state" where
  "finish_response env addedPartial messages s =
     (case le_result env (lp_world s) of (w, final) \<Rightarrow>
        (let s1 = s\<lparr>lp_world := w\<rparr>; m = AssistantMessage final
         in if addedPartial then (butlast messages @ [m], final, emit env (MessageEnd m) s1)
            else (messages @ [m], final, emit env (MessageEnd m) (emit env (MessageStart m) s1))))"

partial_function (option) stream_loop ::
    "'w loop_env \<Rightarrow> assistant_message option \<Rightarrow> bool \<Rightarrow> agent_message list \<Rightarrow> 'w loop_state \<Rightarrow>
     (agent_message list \<times> assistant_message \<times> 'w loop_state) option" where
  "stream_loop env partialMessage addedPartial messages s =
     (case le_next env (lp_world s) of
        (w, None) \<Rightarrow> Some (finish_response env addedPartial messages (s\<lparr>lp_world := w\<rparr>))
      | (w, Some (StreamStart p)) \<Rightarrow>
          stream_loop env (Some p) True (messages @ [AssistantMessage p])
            (emit env (MessageStart (AssistantMessage p)) (s\<lparr>lp_world := w\<rparr>))
      | (w, Some (StreamPart p)) \<Rightarrow>
          (case partialMessage of
             None \<Rightarrow> stream_loop env None addedPartial messages (s\<lparr>lp_world := w\<rparr>)
           | Some _ \<Rightarrow>
               stream_loop env (Some p) addedPartial (butlast messages @ [AssistantMessage p])
                 (emit env (MessageUpdate p) (s\<lparr>lp_world := w\<rparr>)))
      | (w, Some StreamEnd) \<Rightarrow> Some (finish_response env addedPartial messages (s\<lparr>lp_world := w\<rparr>)))"

definition streamAssistantResponse ::
    "'w loop_env \<Rightarrow> agent_config \<Rightarrow> 'w agent_context \<Rightarrow> 'w loop_state \<Rightarrow>
     ('w agent_context \<times> assistant_message \<times> 'w loop_state) option" where
  "streamAssistantResponse env config context s =
     (case (case le_transformContext env of
              None \<Rightarrow> (lp_world s, cx_messages context) | Some f \<Rightarrow> f (lp_world s) (cx_messages context)) of
        (w1, messages) \<Rightarrow>
          (case le_convertToLlm env w1 messages of
             (w2, llmMessages) \<Rightarrow>
               (let w3 = le_stream env w2 config (cx_systemPrompt context) llmMessages (cx_tools context)
                in case stream_loop env None False (cx_messages context) (s\<lparr>lp_world := w3\<rparr>) of
                     None \<Rightarrow> None
                   | Some (messages', final, s') \<Rightarrow> Some (context\<lparr>cx_messages := messages'\<rparr>, final, s'))))"

section \<open>Tool calls\<close>

record finalized_call =
  fz_toolCall :: tool_call
  fz_result :: agent_tool_result
  fz_isError :: bool

record 'w prepared_call =
  pc_toolCall :: tool_call
  pc_tool :: "'w agent_tool"
  pc_args :: tool_args

record executed_batch =
  eb_messages :: "tool_result_message list"
  eb_terminate :: bool

definition createErrorToolResult :: "string \<Rightarrow> agent_tool_result" where
  "createErrorToolResult message = \<lparr>ar_content = Some [TextInput message None], ar_details = Some (JObject []),
     ar_usage = None, ar_addedToolNames = None, ar_terminate = None\<rparr>"

definition shouldTerminateToolBatch :: "finalized_call list \<Rightarrow> bool" where
  "shouldTerminateToolBatch calls \<longleftrightarrow> calls \<noteq> [] \<and> (\<forall>c \<in> set calls. ar_terminate (fz_result c) = Some True)"

definition emitToolExecutionStart :: "'w loop_env \<Rightarrow> tool_call \<Rightarrow> 'w loop_state \<Rightarrow> 'w loop_state" where
  "emitToolExecutionStart env call = emit env (ToolExecutionStart (tc_id call) (tc_name call) (tc_arguments call))"

definition emitToolExecutionEnd :: "'w loop_env \<Rightarrow> finalized_call \<Rightarrow> 'w loop_state \<Rightarrow> 'w loop_state" where
  "emitToolExecutionEnd env f =
     emit env (ToolExecutionEnd (tc_id (fz_toolCall f)) (tc_name (fz_toolCall f)) (fz_result f) (fz_isError f))"

definition createToolResultMessage :: "int \<Rightarrow> finalized_call \<Rightarrow> tool_result_message" where
  "createToolResultMessage now f =
     \<lparr>tr_toolCallId = tc_id (fz_toolCall f), tr_toolName = tc_name (fz_toolCall f),
      tr_content = (case ar_content (fz_result f) of None \<Rightarrow> [] | Some c \<Rightarrow> c),
      tr_details = ar_details (fz_result f), tr_usage = ar_usage (fz_result f),
      tr_addedToolNames = (case ar_addedToolNames (fz_result f) of
        None \<Rightarrow> None | Some names \<Rightarrow> if names = [] then None else Some names),
      tr_isError = fz_isError f, tr_timestamp = now\<rparr>"

definition emitToolResultMessage ::
    "'w loop_env \<Rightarrow> tool_result_message \<Rightarrow> 'w loop_state \<Rightarrow> 'w loop_state" where
  "emitToolResultMessage env m s =
     emit env (MessageEnd (ToolResultMessage m)) (emit env (MessageStart (ToolResultMessage m)) s)"

definition publish_result ::
    "'w loop_env \<Rightarrow> finalized_call \<Rightarrow> 'w loop_state \<Rightarrow> tool_result_message \<times> 'w loop_state" where
  "publish_result env f s =
     (let m = createToolResultMessage (le_now env (lp_world s)) f in (m, emitToolResultMessage env m s))"

definition truncated_call :: "tool_call \<Rightarrow> finalized_call" where
  "truncated_call call =
     \<lparr>fz_toolCall = call, fz_result = createErrorToolResult (''Tool call '' @ [char_of (34::nat)] @ tc_name call @
        [char_of (34::nat)] @ '' was not executed: the response hit the output token limit, so its arguments may be truncated. Re-issue the tool call with complete arguments.''),
      fz_isError = True\<rparr>"

fun fail_calls ::
    "'w loop_env \<Rightarrow> tool_call list \<Rightarrow> 'w loop_state \<Rightarrow> tool_result_message list \<times> 'w loop_state" where
  "fail_calls env [] s = ([], s)"
| "fail_calls env (call # calls) s =
     (let f = truncated_call call
      in case publish_result env f (emitToolExecutionEnd env f (emitToolExecutionStart env call s)) of
           (m, s1) \<Rightarrow> (case fail_calls env calls s1 of (ms, s2) \<Rightarrow> (m # ms, s2)))"

definition failToolCallsFromTruncatedMessage ::
    "'w loop_env \<Rightarrow> tool_call list \<Rightarrow> 'w loop_state \<Rightarrow> executed_batch \<times> 'w loop_state" where
  "failToolCallsFromTruncatedMessage env calls s =
     (case fail_calls env calls s of (ms, s') \<Rightarrow> (\<lparr>eb_messages = ms, eb_terminate = False\<rparr>, s'))"

definition immediate_error :: "tool_call \<Rightarrow> string \<Rightarrow> finalized_call" where
  "immediate_error call msg = \<lparr>fz_toolCall = call, fz_result = createErrorToolResult msg, fz_isError = True\<rparr>"

definition find_tool :: "'w agent_context \<Rightarrow> string \<Rightarrow> 'w agent_tool option" where
  "find_tool context n =
     (case cx_tools context of None \<Rightarrow> None | Some tools \<Rightarrow> find (\<lambda>t. at_name t = n) tools)"

definition prepareToolCallArguments :: "'w agent_tool \<Rightarrow> tool_call \<Rightarrow> string + tool_call" where
  "prepareToolCallArguments tool call =
     (case at_prepareArguments tool of
        None \<Rightarrow> Inr call
      | Some f \<Rightarrow>
          (case f (tc_arguments call) of Inl e \<Rightarrow> Inl e | Inr args \<Rightarrow> Inr (call\<lparr>tc_arguments := args\<rparr>)))"

definition prepareToolCall ::
    "'w loop_env \<Rightarrow> 'w agent_context \<Rightarrow> assistant_message \<Rightarrow> tool_call \<Rightarrow> 'w loop_state \<Rightarrow>
     (finalized_call + 'w prepared_call) \<times> 'w loop_state" where
  "prepareToolCall env context assistant call s =
     (case find_tool context (tc_name call) of
        None \<Rightarrow> (Inl (immediate_error call (''Tool '' @ tc_name call @ '' not found'')), s)
      | Some tool \<Rightarrow>
          (case (case prepareToolCallArguments tool call of Inl e \<Rightarrow> Inl e | Inr c \<Rightarrow> at_validate tool (tc_arguments c)) of
             Inl e \<Rightarrow> (Inl (immediate_error call e), s)
           | Inr args \<Rightarrow>
               (let ready = (\<lambda>s'. if le_aborted env (lp_world s') then (Inl (immediate_error call ''Operation aborted''), s')
                      else (Inr \<lparr>pc_toolCall = call, pc_tool = tool, pc_args = args\<rparr>, s'))
                in case le_beforeToolCall env of
                     None \<Rightarrow> ready s
                   | Some hook \<Rightarrow>
                       (case hook (lp_world s) assistant call args context of
                          (w, Inl e) \<Rightarrow> (Inl (immediate_error call e), s\<lparr>lp_world := w\<rparr>)
                        | (w, Inr decision) \<Rightarrow>
                            if le_aborted env w then (Inl (immediate_error call ''Operation aborted''), s\<lparr>lp_world := w\<rparr>)
                            else (case decision of
                                    None \<Rightarrow> ready (s\<lparr>lp_world := w\<rparr>)
                                  | Some b \<Rightarrow>
                                      if bf_block b
                                      then (let f = immediate_error call (case bf_reason b of
                                                  None \<Rightarrow> ''Tool execution was blocked''
                                                | Some r \<Rightarrow> if r = [] then ''Tool execution was blocked'' else r)
                                            in (Inl (if bf_terminate b
                                                     then f\<lparr>fz_result := (fz_result f)\<lparr>ar_terminate := Some True\<rparr>\<rparr> else f),
                                                s\<lparr>lp_world := w\<rparr>))
                                      else ready (s\<lparr>lp_world := w\<rparr>))))))"

definition tool_step ::
    "'w loop_env \<Rightarrow> 'w prepared_call \<Rightarrow> 'w loop_state \<Rightarrow> (agent_tool_result \<times> bool) option \<times> 'w loop_state" where
  "tool_step env p s =
     (let call = pc_toolCall p
      in case at_execute (pc_tool p) (lp_world s) (tc_id call) (pc_args p) of
           (w, ToolUpdated r) \<Rightarrow>
             (None, emit env (ToolExecutionUpdate (tc_id call) (tc_name call) (tc_arguments call) r) (s\<lparr>lp_world := w\<rparr>))
         | (w, ToolReturned r) \<Rightarrow> (Some (r, False), s\<lparr>lp_world := w\<rparr>)
         | (w, ToolThrew e) \<Rightarrow> (Some (createErrorToolResult e, True), s\<lparr>lp_world := w\<rparr>))"

partial_function (option) executePreparedToolCall ::
    "'w loop_env \<Rightarrow> 'w prepared_call \<Rightarrow> 'w loop_state \<Rightarrow> ((agent_tool_result \<times> bool) \<times> 'w loop_state) option" where
  "executePreparedToolCall env p s =
     (case tool_step env p s of
        (Some out, s') \<Rightarrow> Some (out, s')
      | (None, s') \<Rightarrow> executePreparedToolCall env p s')"

definition or_else :: "'a option \<Rightarrow> 'a option \<Rightarrow> 'a option" where
  "or_else x y = (case x of None \<Rightarrow> y | Some a \<Rightarrow> Some a)"

definition override_result :: "after_result \<Rightarrow> agent_tool_result \<Rightarrow> agent_tool_result" where
  "override_result a r = r\<lparr>ar_content := or_else (af_content a) (ar_content r),
     ar_details := or_else (if af_details a = Some JNull then None else af_details a) (ar_details r), ar_usage := or_else (af_usage a) (ar_usage r),
     ar_terminate := or_else (af_terminate a) (ar_terminate r)\<rparr>"

definition finalizeExecutedToolCall ::
    "'w loop_env \<Rightarrow> 'w agent_context \<Rightarrow> assistant_message \<Rightarrow> 'w prepared_call \<Rightarrow> agent_tool_result \<times> bool \<Rightarrow>
     'w loop_state \<Rightarrow> finalized_call \<times> 'w loop_state" where
  "finalizeExecutedToolCall env context assistant p executed s =
     (case executed of (result, isError) \<Rightarrow>
        (let done = (\<lambda>r e. \<lparr>fz_toolCall = pc_toolCall p, fz_result = r, fz_isError = e\<rparr>)
         in case le_afterToolCall env of
              None \<Rightarrow> (done result isError, s)
            | Some hook \<Rightarrow>
                (case hook (lp_world s) assistant (pc_toolCall p) (pc_args p) result isError context of
                   (w, Inl e) \<Rightarrow> (done (createErrorToolResult e) True, s\<lparr>lp_world := w\<rparr>)
                 | (w, Inr None) \<Rightarrow> (done result isError, s\<lparr>lp_world := w\<rparr>)
                 | (w, Inr (Some a)) \<Rightarrow>
                     (done (override_result a result) (case af_isError a of None \<Rightarrow> isError | Some b \<Rightarrow> b),
                      s\<lparr>lp_world := w\<rparr>))))"

fun sequential_calls ::
    "'w loop_env \<Rightarrow> 'w agent_context \<Rightarrow> assistant_message \<Rightarrow> tool_call list \<Rightarrow> 'w loop_state \<Rightarrow>
     ((finalized_call \<times> tool_result_message) list \<times> 'w loop_state) option" where
  "sequential_calls env context assistant [] s = Some ([], s)"
| "sequential_calls env context assistant (call # calls) s =
     (case (case prepareToolCall env context assistant call (emitToolExecutionStart env call s) of
              (Inl f, s1) \<Rightarrow> Some (f, s1)
            | (Inr p, s1) \<Rightarrow>
                (case executePreparedToolCall env p s1 of
                   None \<Rightarrow> None
                 | Some (out, s2) \<Rightarrow> Some (finalizeExecutedToolCall env context assistant p out s2))) of
        None \<Rightarrow> None
      | Some (f, s3) \<Rightarrow>
          (case publish_result env f (emitToolExecutionEnd env f s3) of
             (m, s4) \<Rightarrow>
               if le_aborted env (lp_world s4) then Some ([(f, m)], s4)
               else (case sequential_calls env context assistant calls s4 of
                       None \<Rightarrow> None | Some (rest, s5) \<Rightarrow> Some ((f, m) # rest, s5))))"

definition executeToolCallsSequential ::
    "'w loop_env \<Rightarrow> 'w agent_context \<Rightarrow> assistant_message \<Rightarrow> tool_call list \<Rightarrow> 'w loop_state \<Rightarrow>
     (executed_batch \<times> 'w loop_state) option" where
  "executeToolCallsSequential env context assistant calls s =
     (case sequential_calls env context assistant calls s of
        None \<Rightarrow> None
      | Some (done, s') \<Rightarrow>
          Some (\<lparr>eb_messages = map snd done, eb_terminate = shouldTerminateToolBatch (map fst done)\<rparr>, s'))"

fun prepare_calls ::
    "'w loop_env \<Rightarrow> 'w agent_context \<Rightarrow> assistant_message \<Rightarrow> tool_call list \<Rightarrow> 'w loop_state \<Rightarrow>
     (finalized_call + 'w prepared_call) list \<times> 'w loop_state" where
  "prepare_calls env context assistant [] s = ([], s)"
| "prepare_calls env context assistant (call # calls) s =
     (case prepareToolCall env context assistant call (emitToolExecutionStart env call s) of
        (entry, s1) \<Rightarrow>
          (let s2 = (case entry of Inl f \<Rightarrow> emitToolExecutionEnd env f s1 | Inr _ \<Rightarrow> s1)
           in if le_aborted env (lp_world s2) then ([entry], s2)
              else (case prepare_calls env context assistant calls s2 of (rest, s3) \<Rightarrow> (entry # rest, s3))))"

definition running :: "('a + 'b) list \<Rightarrow> nat list" where
  "running entries = filter (\<lambda>i. case entries ! i of Inl _ \<Rightarrow> False | Inr _ \<Rightarrow> True) [0..<length entries]"

text \<open>One step of the parallel batch: the call that is picked makes progress; when it ends, it is finalized.\<close>

definition parallel_step ::
    "'w loop_env \<Rightarrow> 'w agent_context \<Rightarrow> assistant_message \<Rightarrow> (finalized_call + 'w prepared_call) list \<Rightarrow>
     'w loop_state \<Rightarrow> (finalized_call + 'w prepared_call) list \<times> 'w loop_state" where
  "parallel_step env context assistant entries s =
     (case le_pick env (lp_world s) (running entries) of
        (w, choice) \<Rightarrow>
          (let i = (if choice \<in> set (running entries) then choice else hd (running entries))
           in case entries ! i of
                Inl _ \<Rightarrow> (entries, s\<lparr>lp_world := w\<rparr>)
              | Inr p \<Rightarrow>
                  (case tool_step env p (s\<lparr>lp_world := w\<rparr>) of
                     (None, s1) \<Rightarrow> (entries, s1)
                   | (Some out, s1) \<Rightarrow>
                       (case finalizeExecutedToolCall env context assistant p out s1 of
                          (f, s2) \<Rightarrow> (entries[i := Inl f], emitToolExecutionEnd env f s2)))))"

partial_function (option) parallel_loop ::
    "'w loop_env \<Rightarrow> 'w agent_context \<Rightarrow> assistant_message \<Rightarrow> (finalized_call + 'w prepared_call) list \<Rightarrow>
     'w loop_state \<Rightarrow> (finalized_call list \<times> 'w loop_state) option" where
  "parallel_loop env context assistant entries s =
     (if running entries = [] then Some (map projl entries, s)
      else (case parallel_step env context assistant entries s of
              (entries', s') \<Rightarrow> parallel_loop env context assistant entries' s'))"

fun publish_results ::
    "'w loop_env \<Rightarrow> finalized_call list \<Rightarrow> 'w loop_state \<Rightarrow> tool_result_message list \<times> 'w loop_state" where
  "publish_results env [] s = ([], s)"
| "publish_results env (f # fs) s =
     (case publish_result env f s of
        (m, s1) \<Rightarrow> (case publish_results env fs s1 of (ms, s2) \<Rightarrow> (m # ms, s2)))"

definition executeToolCallsParallel ::
    "'w loop_env \<Rightarrow> 'w agent_context \<Rightarrow> assistant_message \<Rightarrow> tool_call list \<Rightarrow> 'w loop_state \<Rightarrow>
     (executed_batch \<times> 'w loop_state) option" where
  "executeToolCallsParallel env context assistant calls s =
     (case prepare_calls env context assistant calls s of
        (entries, s1) \<Rightarrow>
          (case parallel_loop env context assistant entries s1 of
             None \<Rightarrow> None
           | Some (finalized, s2) \<Rightarrow>
               (case publish_results env finalized s2 of
                  (ms, s3) \<Rightarrow>
                    Some (\<lparr>eb_messages = ms, eb_terminate = shouldTerminateToolBatch finalized\<rparr>, s3))))"

definition executeToolCalls ::
    "'w loop_env \<Rightarrow> agent_config \<Rightarrow> 'w agent_context \<Rightarrow> assistant_message \<Rightarrow> 'w loop_state \<Rightarrow>
     (executed_batch \<times> 'w loop_state) option" where
  "executeToolCalls env config context assistant s =
     (let calls = tool_calls_of (am_content assistant);
          hasSequential = list_ex (\<lambda>c. case find_tool context (tc_name c) of
            None \<Rightarrow> False | Some t \<Rightarrow> at_executionMode t = Some SequentialMode) calls
      in if ag_toolExecution config = Some SequentialMode \<or> hasSequential
         then executeToolCallsSequential env context assistant calls s
         else executeToolCallsParallel env context assistant calls s)"

section \<open>Turns\<close>

record 'w loop =
  lo_context :: "'w agent_context"
  lo_config :: agent_config
  lo_newMessages :: "agent_message list"
  lo_firstTurn :: bool
  lo_pending :: "agent_message list"
  lo_hasMore :: bool
  lo_state :: "'w loop_state"

definition emit_message :: "'w loop_env \<Rightarrow> agent_message \<Rightarrow> 'w loop_state \<Rightarrow> 'w loop_state" where
  "emit_message env m s = emit env (MessageEnd m) (emit env (MessageStart m) s)"

definition inject_pending :: "'w loop_env \<Rightarrow> 'w loop \<Rightarrow> 'w loop" where
  "inject_pending env l =
     l\<lparr>lo_state := fold (emit_message env) (lo_pending l) (lo_state l),
       lo_context := (lo_context l)\<lparr>cx_messages := cx_messages (lo_context l) @ lo_pending l\<rparr>,
       lo_newMessages := lo_newMessages l @ lo_pending l, lo_pending := []\<rparr>"

definition start_turn :: "'w loop_env \<Rightarrow> 'w loop \<Rightarrow> 'w loop" where
  "start_turn env l =
     (if lo_firstTurn l then l\<lparr>lo_firstTurn := False\<rparr> else l\<lparr>lo_state := emit env TurnStart (lo_state l)\<rparr>)"

definition update_config :: "'w turn_update \<Rightarrow> agent_config \<Rightarrow> agent_config" where
  "update_config u c =
     c\<lparr>ag_model := (case tu_model u of None \<Rightarrow> ag_model c | Some m \<Rightarrow> m),
       ag_reasoning := (case tu_thinkingLevel u of
         None \<Rightarrow> ag_reasoning c | Some level \<Rightarrow> if level = ''off'' then None else Some level)\<rparr>"

text \<open>\<open>Inl\<close> the loop that goes on, \<open>Inr\<close> the new messages and the state of a run that has ended.\<close>

definition after_turn ::
    "'w loop_env \<Rightarrow> assistant_message \<Rightarrow> tool_result_message list \<Rightarrow> 'w loop \<Rightarrow>
     'w loop + (agent_message list \<times> 'w loop_state)" where
  "after_turn env message toolResults l =
     (let s1 = emit env (TurnEnd message toolResults) (lo_state l)
      in case le_prepareNextTurn env (lp_world s1) message toolResults (lo_context l) (lo_newMessages l) of
           (w2, update) \<Rightarrow>
             (let context = (case update of None \<Rightarrow> lo_context l
                    | Some u \<Rightarrow> (case tu_context u of None \<Rightarrow> lo_context l | Some c \<Rightarrow> c));
                  config = (case update of None \<Rightarrow> lo_config l | Some u \<Rightarrow> update_config u (lo_config l))
              in case le_shouldStopAfterTurn env w2 message toolResults context (lo_newMessages l) of
                   (w3, True) \<Rightarrow>
                     Inr (lo_newMessages l, emit env (AgentEnd (lo_newMessages l)) (s1\<lparr>lp_world := w3\<rparr>))
                 | (w3, False) \<Rightarrow>
                     (case le_getSteeringMessages env w3 of
                        (w4, pending) \<Rightarrow>
                          Inl (l\<lparr>lo_context := context, lo_config := config, lo_pending := pending,
                                 lo_state := s1\<lparr>lp_world := w4\<rparr>\<rparr>))))"

definition run_tools ::
    "'w loop_env \<Rightarrow> assistant_message \<Rightarrow> 'w loop \<Rightarrow> (tool_result_message list \<times> 'w loop) option" where
  "run_tools env message l =
     (let calls = tool_calls_of (am_content message)
      in if calls = [] then Some ([], l\<lparr>lo_hasMore := False\<rparr>)
         else (case (if am_stopReason message = StopLength
                     then Some (failToolCallsFromTruncatedMessage env calls (lo_state l))
                     else executeToolCalls env (lo_config l) (lo_context l) message (lo_state l)) of
                 None \<Rightarrow> None
               | Some (batch, s) \<Rightarrow>
                   (let results = map ToolResultMessage (eb_messages batch)
                    in Some (eb_messages batch,
                         l\<lparr>lo_hasMore := \<not> eb_terminate batch, lo_state := s,
                           lo_context := (lo_context l)\<lparr>cx_messages := cx_messages (lo_context l) @ results\<rparr>,
                           lo_newMessages := lo_newMessages l @ results\<rparr>))))"

definition turn ::
    "'w loop_env \<Rightarrow> 'w loop \<Rightarrow> ('w loop + (agent_message list \<times> 'w loop_state)) option" where
  "turn env l0 =
     (let l1 = inject_pending env (start_turn env l0)
      in case streamAssistantResponse env (lo_config l1) (lo_context l1) (lo_state l1) of
           None \<Rightarrow> None
         | Some (context, message, s) \<Rightarrow>
             (let l2 = l1\<lparr>lo_context := context, lo_state := s,
                    lo_newMessages := lo_newMessages l1 @ [AssistantMessage message]\<rparr>
              in if am_stopReason message = StopError \<or> am_stopReason message = StopAborted
                 then Some (Inr (lo_newMessages l2,
                        emit env (AgentEnd (lo_newMessages l2)) (emit env (TurnEnd message []) s)))
                 else (case run_tools env message l2 of
                         None \<Rightarrow> None
                       | Some (toolResults, l3) \<Rightarrow> Some (after_turn env message toolResults l3))))"

text \<open>Both loops in one: another turn while there is work, then the follow-up messages, then the end.\<close>

partial_function (option) run_loop ::
    "'w loop_env \<Rightarrow> 'w loop \<Rightarrow> (agent_message list \<times> 'w loop_state) option" where
  "run_loop env l =
     (if lo_hasMore l \<or> lo_pending l \<noteq> []
      then (case turn env l of
              None \<Rightarrow> None
            | Some (Inr result) \<Rightarrow> Some result
            | Some (Inl l') \<Rightarrow> run_loop env l')
      else (case le_getFollowUpMessages env (lp_world (lo_state l)) of
              (w, followUps) \<Rightarrow>
                (let s = (lo_state l)\<lparr>lp_world := w\<rparr>
                 in if followUps \<noteq> []
                    then run_loop env (l\<lparr>lo_pending := followUps, lo_hasMore := True, lo_state := s\<rparr>)
                    else Some (lo_newMessages l, emit env (AgentEnd (lo_newMessages l)) s))))"

definition runLoop ::
    "'w loop_env \<Rightarrow> 'w agent_context \<Rightarrow> agent_message list \<Rightarrow> agent_config \<Rightarrow> 'w loop_state \<Rightarrow>
     (agent_message list \<times> 'w loop_state) option" where
  "runLoop env context newMessages config s =
     (case le_getSteeringMessages env (lp_world s) of
        (w, pending) \<Rightarrow>
          run_loop env \<lparr>lo_context = context, lo_config = config, lo_newMessages = newMessages, lo_firstTurn = True,
            lo_pending = pending, lo_hasMore = True, lo_state = s\<lparr>lp_world := w\<rparr>\<rparr>)"

definition runAgentLoop ::
    "'w loop_env \<Rightarrow> agent_message list \<Rightarrow> 'w agent_context \<Rightarrow> agent_config \<Rightarrow> 'w loop_state \<Rightarrow>
     (agent_message list \<times> 'w loop_state) option" where
  "runAgentLoop env prompts context config s =
     runLoop env (context\<lparr>cx_messages := cx_messages context @ prompts\<rparr>) prompts config
       (fold (emit_message env) prompts (emit env TurnStart (emit env AgentStart s)))"

datatype continue_error = NoMessages | LastMessageFromAssistant

definition runAgentLoopContinue ::
    "'w loop_env \<Rightarrow> 'w agent_context \<Rightarrow> agent_config \<Rightarrow> 'w loop_state \<Rightarrow>
     continue_error + (agent_message list \<times> 'w loop_state) option" where
  "runAgentLoopContinue env context config s =
     (if cx_messages context = [] then Inl NoMessages
      else if role_of (last (cx_messages context)) = RoleAssistant then Inl LastMessageFromAssistant
      else Inr (runLoop env context [] config (emit env TurnStart (emit env AgentStart s))))"

section \<open>What a run emits\<close>

text \<open>
  The shape of a run: it starts and ends once, and everything happens within turns that do not overlap.
  \<open>ended\<close> are the messages whose end was announced.
\<close>

datatype run_phase = BeforeRun | BetweenTurns | InTurn | AfterRun

fun within_turn :: "agent_event \<Rightarrow> bool" where
  "within_turn AgentStart \<longleftrightarrow> False"
| "within_turn (AgentEnd _) \<longleftrightarrow> False"
| "within_turn TurnStart \<longleftrightarrow> False"
| "within_turn (TurnEnd _ _) \<longleftrightarrow> False"
| "within_turn _ \<longleftrightarrow> True"

fun phase_step :: "run_phase \<Rightarrow> agent_event \<Rightarrow> run_phase option" where
  "phase_step BeforeRun e = (if e = AgentStart then Some BetweenTurns else None)"
| "phase_step BetweenTurns TurnStart = Some InTurn"
| "phase_step BetweenTurns (AgentEnd _) = Some AfterRun"
| "phase_step BetweenTurns _ = None"
| "phase_step InTurn (TurnEnd _ _) = Some BetweenTurns"
| "phase_step InTurn e = (if within_turn e then Some InTurn else None)"
| "phase_step AfterRun _ = None"

fun run_phases :: "run_phase \<Rightarrow> agent_event list \<Rightarrow> run_phase option" where
  "run_phases p [] = Some p"
| "run_phases p (e # es) = (case phase_step p e of None \<Rightarrow> None | Some q \<Rightarrow> run_phases q es)"

fun ended_message :: "agent_event \<Rightarrow> agent_message option" where
  "ended_message (MessageEnd m) = Some m"
| "ended_message _ = None"

definition ended :: "agent_event list \<Rightarrow> agent_message list" where
  "ended es = List.map_filter ended_message es"

text \<open>The results of a turn answer its calls in order; calls go unanswered only after an abort.\<close>

definition answers :: "'w loop_env \<Rightarrow> tool_call list \<Rightarrow> tool_result_message list \<Rightarrow> bool" where
  "answers env calls results \<longleftrightarrow>
     (\<exists>k \<le> length calls. map tr_toolCallId results = map tc_id (take k calls) \<and>
        (k < length calls \<longrightarrow> (\<exists>w. le_aborted env w)))"

definition turn_answered :: "'w loop_env \<Rightarrow> assistant_message \<Rightarrow> tool_result_message list \<Rightarrow> bool" where
  "turn_answered env message results \<longleftrightarrow>
     (if am_stopReason message \<in> {StopError, StopAborted} then results = []
      else answers env (tool_calls_of (am_content message)) results \<and>
        (am_stopReason message = StopLength \<longrightarrow>
           length results = length (tool_calls_of (am_content message)) \<and> (\<forall>r \<in> set results. tr_isError r)))"

definition turns_answered :: "'w loop_env \<Rightarrow> agent_event list \<Rightarrow> bool" where
  "turns_answered env es \<longleftrightarrow> (\<forall>m rs. TurnEnd m rs \<in> set es \<longrightarrow> turn_answered env m rs)"

section \<open>Lemmas on emission\<close>

lemma run_phases_append:
  "run_phases p (xs @ ys) = (case run_phases p xs of None \<Rightarrow> None | Some q \<Rightarrow> run_phases q ys)"
  by (induction xs arbitrary: p) (auto split: option.splits)

lemma run_phases_within: "\<forall>e \<in> set es. within_turn e \<Longrightarrow> run_phases InTurn es = Some InTurn"
proof (induction es)
  case (Cons e es)
  then show ?case by (cases e) simp_all
qed simp

lemma ended_simps [simp]:
  "ended [] = []" "ended (xs @ ys) = ended xs @ ended ys"
  "ended (e # es) = (case ended_message e of None \<Rightarrow> ended es | Some m \<Rightarrow> m # ended es)"
  by (simp_all add: ended_def List.map_filter_def split: option.splits)

definition adds :: "'w loop_state \<Rightarrow> 'w loop_state \<Rightarrow> agent_message list \<Rightarrow> bool" where
  "adds s s' ms \<longleftrightarrow>
     (\<exists>more. lp_events s' = lp_events s @ more \<and> (\<forall>e \<in> set more. within_turn e) \<and> ended more = ms)"

lemma adds_trans [trans]: "adds s t ms \<Longrightarrow> adds t u ns \<Longrightarrow> adds s u (ms @ ns)"
  unfolding adds_def by fastforce

lemma adds_nothing [simp, intro]: "adds s s []"
  by (simp add: adds_def)

lemma adds_world [simp]: "adds s (t\<lparr>lp_world := w\<rparr>) ms = adds s t ms" "adds (s\<lparr>lp_world := w\<rparr>) t ms = adds s t ms"
  by (simp_all add: adds_def)

lemma adds_emit: "adds s t ms \<Longrightarrow> within_turn e \<Longrightarrow> adds s (emit env e t) (ms @ ended [e])"
  unfolding adds_def by (fastforce simp: emit_def)

lemma adds_emit_quiet:
  "adds s t ms \<Longrightarrow> within_turn e \<Longrightarrow> ended_message e = None \<Longrightarrow> adds s (emit env e t) ms"
  using adds_emit [of s t ms e env] by simp

lemma adds_message: "adds s t ms \<Longrightarrow> adds s (emit_message env m t) (ms @ [m])"
  using adds_emit [of s "emit env (MessageStart m) t" ms "MessageEnd m" env]
    adds_emit_quiet [of s t ms "MessageStart m" env] by (simp add: emit_message_def)

lemma adds_messages: "adds s t ms \<Longrightarrow> adds s (fold (emit_message env) ns t) (ms @ ns)"
proof (induction ns arbitrary: t ms)
  case (Cons n ns)
  from Cons.IH [OF adds_message [OF Cons.prems]] show ?case by simp
qed simp

lemma adds_tool_events:
  "adds s t ms \<Longrightarrow> adds s (emitToolExecutionStart env call t) ms"
  "adds s t ms \<Longrightarrow> adds s (emitToolExecutionEnd env f t) ms"
  by (simp_all add: emitToolExecutionStart_def emitToolExecutionEnd_def adds_emit_quiet)

lemma publish_result_adds:
  assumes "publish_result env f s = (m, s')"
  shows "adds s s' [ToolResultMessage m]" "tr_toolCallId m = tc_id (fz_toolCall f)" "tr_isError m = fz_isError f"
  using assms adds_message [of s s "[]" env "ToolResultMessage m"]
  by (auto simp: publish_result_def emitToolResultMessage_def emit_message_def createToolResultMessage_def Let_def)

lemma adds_before:
  "adds (emit env e s) t ms \<Longrightarrow> within_turn e \<Longrightarrow> ended_message e = None \<Longrightarrow> adds s t ms"
  using adds_trans [OF adds_emit_quiet [OF adds_nothing, of e s env], of t ms] by simp

lemma finish_response_adds:
  "finish_response env added messages s = (messages', final, s') \<Longrightarrow> adds s s' [AssistantMessage final]"
  using adds_message [of s s "[]" env "AssistantMessage final"] adds_emit [of s s "[]" "MessageEnd (AssistantMessage final)" env]
  by (auto simp: finish_response_def emit_message_def Let_def adds_def emit_def split: prod.splits if_splits)

lemma stream_loop_adds:
  "stream_loop env p added messages s = Some r \<Longrightarrow> adds s (snd (snd r)) [AssistantMessage (fst (snd r))]"
proof (erule stream_loop.raw_induct [rotated], goal_cases)
  case (1 loop env p added messages s r)
  note IH = 1(1)
  show ?case using 1(2) finish_response_adds [of env added messages "s\<lparr>lp_world := _\<rparr>" "fst r" "fst (snd r)" "snd (snd r)"]
    by (auto dest!: IH dest: adds_before split: prod.splits option.splits stream_event.splits)
qed

lemma response_adds:
  assumes "streamAssistantResponse env config context s = Some (context', final, s')"
  shows "adds s s' [AssistantMessage final]"
proof -
  obtain w messages' where "stream_loop env None False (cx_messages context) (s\<lparr>lp_world := w\<rparr>) = Some (messages', final, s')"
    using assms by (auto simp: streamAssistantResponse_def Let_def split: prod.splits option.splits)
  from stream_loop_adds [OF this] show ?thesis by simp
qed

lemma tool_step_adds: "tool_step env p s = (out, s') \<Longrightarrow> adds s s' []"
  by (auto simp: tool_step_def Let_def intro!: adds_emit_quiet split: prod.splits tool_progress.splits)

lemma execute_adds: "executePreparedToolCall env p s = Some r \<Longrightarrow> adds s (snd r) []"
proof (erule executePreparedToolCall.raw_induct [rotated], goal_cases)
  case (1 execute env p s r)
  obtain out s1 where "tool_step env p s = (out, s1)" by fastforce
  with 1(2) show ?case
    using tool_step_adds [of env p s out s1] adds_trans [of s s1 "[]" "snd r" "[]"] 1(1) [of env p s1 r]
    by (auto split: option.splits)
qed

lemma finalize_adds:
  "finalizeExecutedToolCall env context assistant p out s = (f, s') \<Longrightarrow> adds s s' [] \<and> fz_toolCall f = pc_toolCall p"
  by (auto simp: finalizeExecutedToolCall_def Let_def split: prod.splits option.splits sum.splits)

definition call_of :: "finalized_call + 'w prepared_call \<Rightarrow> tool_call" where
  "call_of entry = (case entry of Inl f \<Rightarrow> fz_toolCall f | Inr p \<Rightarrow> pc_toolCall p)"

lemma prepare_adds:
  "prepareToolCall env context assistant call s = (entry, s') \<Longrightarrow> adds s s' [] \<and> call_of entry = call"
  by (auto simp: prepareToolCall_def immediate_error_def call_of_def Let_def
      split: prod.splits option.splits sum.splits if_splits)

lemma fail_calls_adds:
  "fail_calls env calls s = (ms, s') \<Longrightarrow> adds s s' (map ToolResultMessage ms) \<and>
   map tr_toolCallId ms = map tc_id calls \<and> (\<forall>m \<in> set ms. tr_isError m)"
proof (induction calls arbitrary: s ms)
  case (Cons call calls)
  let ?f = "truncated_call call"
  obtain m s1 where m: "publish_result env ?f (emitToolExecutionEnd env ?f (emitToolExecutionStart env call s)) = (m, s1)"
    by fastforce
  obtain ms1 where r: "fail_calls env calls s1 = (ms1, s')" "ms = m # ms1"
    using Cons.prems m by (auto simp: Let_def split: prod.splits)
  have "adds s (emitToolExecutionEnd env ?f (emitToolExecutionStart env call s)) []"
    by (intro adds_tool_events adds_nothing)
  from adds_trans [OF adds_trans [OF this publish_result_adds(1) [OF m]], of s'] Cons.IH [OF r(1)]
    publish_result_adds(2,3) [OF m] r(2)
  show ?case by (auto simp: truncated_call_def)
qed simp

section \<open>Lemmas on batches\<close>

text \<open>A list of calls that was handled up to some call; it stops early only after an abort.\<close>

definition handled :: "'w loop_env \<Rightarrow> tool_call list \<Rightarrow> tool_call list \<Rightarrow> bool" where
  "handled env calls cs \<longleftrightarrow>
     (\<exists>k \<le> length calls. cs = take k calls \<and> (k < length calls \<longrightarrow> (\<exists>w. le_aborted env w)))"

lemma handled_Nil: "handled env [] []"
  by (simp add: handled_def)

lemma handled_stop: "le_aborted env w \<Longrightarrow> handled env (call # calls) [call]"
  unfolding handled_def by (intro exI [of _ 1]) auto

lemma handled_Cons: "handled env calls cs \<Longrightarrow> handled env (call # calls) (call # cs)"
proof -
  assume "handled env calls cs"
  then obtain k where "k \<le> length calls" "cs = take k calls" "k < length calls \<longrightarrow> (\<exists>w. le_aborted env w)"
    unfolding handled_def by blast
  then show ?thesis unfolding handled_def by (intro exI [of _ "Suc k"]) simp
qed

lemma handled_answers:
  "handled env calls cs \<Longrightarrow> map tr_toolCallId ms = map tc_id cs \<Longrightarrow> answers env calls ms"
  by (auto simp: handled_def answers_def)

definition handle_call ::
    "'w loop_env \<Rightarrow> 'w agent_context \<Rightarrow> assistant_message \<Rightarrow> tool_call \<Rightarrow> 'w loop_state \<Rightarrow>
     (finalized_call \<times> 'w loop_state) option" where
  "handle_call env context assistant call s =
     (case prepareToolCall env context assistant call (emitToolExecutionStart env call s) of
        (Inl f, s1) \<Rightarrow> Some (f, s1)
      | (Inr p, s1) \<Rightarrow>
          (case executePreparedToolCall env p s1 of
             None \<Rightarrow> None
           | Some (out, s2) \<Rightarrow> Some (finalizeExecutedToolCall env context assistant p out s2)))"

lemma handle_call_adds:
  assumes "handle_call env context assistant call s = Some (f, s')"
  shows "adds s s' [] \<and> fz_toolCall f = call"
proof -
  obtain entry s1 where e: "prepareToolCall env context assistant call (emitToolExecutionStart env call s) = (entry, s1)"
    by fastforce
  have start: "adds s s1 []"
    using adds_trans [OF adds_tool_events(1) [OF adds_nothing], of env call s s1 "[]"] prepare_adds [OF e] by simp
  show ?thesis
  proof (cases entry)
    case (Inl f')
    then show ?thesis using assms e start prepare_adds [OF e] by (simp add: handle_call_def call_of_def)
  next
    case (Inr p)
    then obtain out s2 where x: "executePreparedToolCall env p s1 = Some (out, s2)"
        "finalizeExecutedToolCall env context assistant p out s2 = (f, s')"
      using assms e by (auto simp: handle_call_def split: option.splits)
    from adds_trans [OF start, of s2 "[]"] execute_adds [OF x(1)] have "adds s s2 []" by simp
    from adds_trans [OF this, of s' "[]"] finalize_adds [OF x(2)] prepare_adds [OF e] Inr
    show ?thesis by (simp add: call_of_def)
  qed
qed

lemma sequential_calls_step:
  "sequential_calls env context assistant (call # calls) s =
     (case handle_call env context assistant call s of
        None \<Rightarrow> None
      | Some (f, s3) \<Rightarrow>
          (case publish_result env f (emitToolExecutionEnd env f s3) of
             (m, s4) \<Rightarrow>
               if le_aborted env (lp_world s4) then Some ([(f, m)], s4)
               else (case sequential_calls env context assistant calls s4 of
                       None \<Rightarrow> None | Some (rest, s5) \<Rightarrow> Some ((f, m) # rest, s5))))"
  by (simp add: handle_call_def)

lemma sequential_adds:
  "sequential_calls env context assistant calls s = Some (ds, s') \<Longrightarrow>
   adds s s' (map ToolResultMessage (map snd ds)) \<and> handled env calls (map (fz_toolCall \<circ> fst) ds) \<and>
   map (tr_toolCallId \<circ> snd) ds = map (tc_id \<circ> fz_toolCall \<circ> fst) ds"
proof (induction calls arbitrary: s ds)
  case Nil
  then show ?case by (simp add: handled_Nil)
next
  case (Cons call calls)
  obtain f s3 where f: "handle_call env context assistant call s = Some (f, s3)"
    using Cons.prems unfolding sequential_calls_step by (auto split: option.splits)
  obtain m s4 where m: "publish_result env f (emitToolExecutionEnd env f s3) = (m, s4)" by fastforce
  note fc = handle_call_adds [OF f] and pm = publish_result_adds [OF m]
  have "adds s (emitToolExecutionEnd env f s3) []" using fc adds_tool_events(2) by blast
  from adds_trans [OF this pm(1)] have one: "adds s s4 [ToolResultMessage m]" by simp
  show ?case
  proof (cases "le_aborted env (lp_world s4)")
    case True
    then have "ds = [(f, m)]" "s' = s4" using Cons.prems f m unfolding sequential_calls_step by simp_all
    then show ?thesis using one pm(2) fc handled_stop [OF True, of call calls] by simp
  next
    case False
    then obtain rest where rest: "sequential_calls env context assistant calls s4 = Some (rest, s')" "ds = (f, m) # rest"
      using Cons.prems f m unfolding sequential_calls_step by (auto split: option.splits)
    note IH = Cons.IH [OF rest(1)]
    from adds_trans [OF one, of s' "map ToolResultMessage (map snd rest)"] IH
    show ?thesis using rest(2) pm(2) fc handled_Cons [of env calls _ call] by simp
  qed
qed

lemma prepare_calls_adds:
  "prepare_calls env context assistant calls s = (entries, s') \<Longrightarrow>
   adds s s' [] \<and> handled env calls (map call_of entries)"
proof (induction calls arbitrary: s entries)
  case Nil
  then show ?case by (auto simp: handled_Nil)
next
  case (Cons call calls)
  obtain entry s1 where e: "prepareToolCall env context assistant call (emitToolExecutionStart env call s) = (entry, s1)"
    by fastforce
  have "adds s s1 []"
    using adds_trans [OF adds_tool_events(1) [OF adds_nothing], of env call s s1 "[]"] prepare_adds [OF e] by simp
  define s2 where "s2 = (case entry of Inl f \<Rightarrow> emitToolExecutionEnd env f s1 | Inr _ \<Rightarrow> s1)"
  have s2: "adds s s2 []" using \<open>adds s s1 []\<close> adds_tool_events(2) by (auto simp: s2_def split: sum.splits)
  show ?case
  proof (cases "le_aborted env (lp_world s2)")
    case True
    then have "entries = [entry]" "s' = s2" using Cons.prems e by (simp_all add: s2_def Let_def)
    then show ?thesis using s2 prepare_adds [OF e] handled_stop [OF True] by simp
  next
    case False
    then obtain rest where rest: "prepare_calls env context assistant calls s2 = (rest, s')" "entries = entry # rest"
      using Cons.prems e by (auto simp: s2_def Let_def split: prod.splits)
    from adds_trans [OF s2, of s' "[]"] Cons.IH [OF rest(1)] show ?thesis
      using rest(2) prepare_adds [OF e] handled_Cons [of env calls "map call_of rest" call] by simp
  qed
qed

lemma parallel_step_adds:
  assumes "parallel_step env context assistant entries s = (entries', s')"
  shows "adds s s' [] \<and> map call_of entries' = map call_of entries"
proof -
  obtain w choice where w: "le_pick env (lp_world s) (running entries) = (w, choice)" by fastforce
  define i where "i = (if choice \<in> set (running entries) then choice else hd (running entries))"
  show ?thesis
  proof (cases "entries ! i")
    case (Inl f)
    then show ?thesis using assms w by (auto simp: parallel_step_def i_def Let_def)
  next
    case (Inr p)
    obtain out s1 where step: "tool_step env p (s\<lparr>lp_world := w\<rparr>) = (out, s1)" by fastforce
    then have s1: "adds s s1 []" using tool_step_adds by fastforce
    show ?thesis
    proof (cases out)
      case None
      then show ?thesis using assms w Inr step s1 by (simp add: parallel_step_def i_def [symmetric] Let_def)
    next
      case (Some r)
      obtain f s2 where f: "finalizeExecutedToolCall env context assistant p r s1 = (f, s2)" by fastforce
      note fin = finalize_adds [OF f]
      have "map call_of (entries[i := Inl f]) = map call_of entries"
      proof (rule nth_equalityI)
        fix j assume "j < length (map call_of (entries[i := Inl f]))"
        then show "map call_of (entries[i := Inl f]) ! j = map call_of entries ! j"
          using fin Inr by (cases "j = i") (simp_all add: call_of_def)
      qed simp
      moreover have "adds s (emitToolExecutionEnd env f s2) []"
        using adds_trans [OF s1, of s2 "[]"] fin adds_tool_events(2) by simp
      ultimately show ?thesis using assms w Inr step Some f
        by (auto simp: parallel_step_def i_def [symmetric] Let_def)
    qed
  qed
qed

lemma call_of_finished:
  assumes "running entries = []"
  shows "map fz_toolCall (map projl entries) = map call_of entries"
proof (rule nth_equalityI)
  fix i assume "i < length (map fz_toolCall (map projl entries))"
  then have i: "i < length entries" by simp
  then have "i \<notin> set (running entries)" using assms by simp
  then obtain f where "entries ! i = Inl f" using i by (auto simp: running_def split: sum.splits)
  then show "map fz_toolCall (map projl entries) ! i = map call_of entries ! i" using i by (simp add: call_of_def)
qed simp

lemma parallel_loop_adds:
  "parallel_loop env context assistant entries s = Some r \<Longrightarrow>
   adds s (snd r) [] \<and> map fz_toolCall (fst r) = map call_of entries"
proof (erule parallel_loop.raw_induct [rotated], goal_cases)
  case (1 loop env ctx assistant entries s r)
  obtain entries' s' where step: "parallel_step env ctx assistant entries s = (entries', s')" by fastforce
  show ?case
  proof (cases "running entries = []")
    case True
    then show ?thesis using 1(2) call_of_finished [OF True] by auto
  next
    case False
    then have "loop env ctx assistant entries' s' = Some r" using 1(2) step by simp
    from 1(1) [OF this] parallel_step_adds [OF step] adds_trans [of s s' "[]" "snd r" "[]"] show ?thesis by simp
  qed
qed

lemma publish_results_adds:
  "publish_results env fs s = (ms, s') \<Longrightarrow> adds s s' (map ToolResultMessage ms) \<and>
   map tr_toolCallId ms = map (tc_id \<circ> fz_toolCall) fs"
proof (induction fs arbitrary: s ms)
  case (Cons f fs)
  obtain m s1 where m: "publish_result env f s = (m, s1)" by fastforce
  obtain ms1 where r: "publish_results env fs s1 = (ms1, s')" "ms = m # ms1"
    using Cons.prems m by (auto split: prod.splits)
  from adds_trans [OF publish_result_adds(1) [OF m], of s'] Cons.IH [OF r(1)] publish_result_adds(2) [OF m] r(2)
  show ?case by simp
qed simp

lemma execute_batch_adds:
  assumes "executeToolCalls env config context assistant s = Some (batch, s')"
  shows "adds s s' (map ToolResultMessage (eb_messages batch)) \<and>
    answers env (tool_calls_of (am_content assistant)) (eb_messages batch)"
proof -
  let ?calls = "tool_calls_of (am_content assistant)"
  from assms consider
      (sequential) "executeToolCallsSequential env context assistant ?calls s = Some (batch, s')"
    | (parallel) "executeToolCallsParallel env context assistant ?calls s = Some (batch, s')"
    by (auto simp: executeToolCalls_def Let_def split: if_splits)
  then show ?thesis
  proof cases
    case sequential
    then obtain ds where d: "sequential_calls env context assistant ?calls s = Some (ds, s')"
        "eb_messages batch = map snd ds"
      by (auto simp: executeToolCallsSequential_def split: option.splits)
    from sequential_adds [OF d(1)] show ?thesis
      using d(2) handled_answers [of env ?calls "map (fz_toolCall \<circ> fst) ds"] by simp
  next
    case parallel
    obtain entries s1 where e: "prepare_calls env context assistant ?calls s = (entries, s1)" by fastforce
    then obtain fs s2 where fs: "parallel_loop env context assistant entries s1 = Some (fs, s2)"
        "publish_results env fs s2 = (eb_messages batch, s')"
      using parallel by (auto simp: executeToolCallsParallel_def split: option.splits prod.splits)
    note p = prepare_calls_adds [OF e] and l = parallel_loop_adds [OF fs(1)] and r = publish_results_adds [OF fs(2)]
    have "adds s s2 []" using adds_trans [of s s1 "[]" s2 "[]"] p l by simp
    from adds_trans [OF this, of s'] r p l show ?thesis
      using handled_answers [of env ?calls "map call_of entries" "eb_messages batch"] by (simp flip: map_map)
  qed
qed

section \<open>Lemmas on runs\<close>

text \<open>
  The events of a run after its first turn was opened, \<open>earlier\<close> the events before that and \<open>base\<close> the messages they
  announced: for a loop between two turns, within a turn, and for a run that has ended.
\<close>

definition run_so_far :: "'w loop_env \<Rightarrow> agent_event list \<Rightarrow> agent_message list \<Rightarrow> 'w loop \<Rightarrow> bool" where
  "run_so_far env earlier base l \<longleftrightarrow>
     (\<exists>es. lp_events (lo_state l) = earlier @ es \<and>
        run_phases InTurn es = Some (if lo_firstTurn l then InTurn else BetweenTurns) \<and>
        base @ ended es = lo_newMessages l \<and> turns_answered env es)"

definition run_complete ::
    "'w loop_env \<Rightarrow> agent_event list \<Rightarrow> agent_message list \<Rightarrow> agent_message list \<Rightarrow> 'w loop_state \<Rightarrow> bool" where
  "run_complete env earlier base new s \<longleftrightarrow>
     (\<exists>es. lp_events s = earlier @ es @ [AgentEnd new] \<and> run_phases InTurn es = Some BetweenTurns \<and>
        base @ ended es = new \<and> turns_answered env es)"

definition in_turn ::
    "'w loop_env \<Rightarrow> agent_event list \<Rightarrow> agent_message list \<Rightarrow> agent_message list \<Rightarrow> 'w loop_state \<Rightarrow> bool" where
  "in_turn env earlier base new s \<longleftrightarrow>
     (\<exists>es. lp_events s = earlier @ es \<and> run_phases InTurn es = Some InTurn \<and> base @ ended es = new \<and> turns_answered env es)"

lemma in_turn_world [simp]: "in_turn env earlier base new (s\<lparr>lp_world := w\<rparr>) = in_turn env earlier base new s"
  by (simp add: in_turn_def)

lemma turns_answered_within: "\<forall>e \<in> set es. within_turn e \<Longrightarrow> turns_answered env es"
  by (force simp: turns_answered_def)

lemma turns_answered_append: "turns_answered env (xs @ ys) \<longleftrightarrow> turns_answered env xs \<and> turns_answered env ys"
  by (auto simp: turns_answered_def)

lemma in_turn_adds:
  assumes "in_turn env earlier base new s" "adds s s' ms"
  shows "in_turn env earlier base (new @ ms) s'"
proof -
  obtain es where es: "lp_events s = earlier @ es" "run_phases InTurn es = Some InTurn" "base @ ended es = new"
      "turns_answered env es"
    using assms(1) unfolding in_turn_def by blast
  obtain more where more: "lp_events s' = lp_events s @ more" "\<forall>e \<in> set more. within_turn e" "ended more = ms"
    using assms(2) unfolding adds_def by blast
  show ?thesis unfolding in_turn_def
    using es more run_phases_within [OF more(2)] turns_answered_within [OF more(2)]
    by (intro exI [of _ "es @ more"]) (simp add: run_phases_append turns_answered_append)
qed

lemma turn_starts:
  assumes "run_so_far env earlier base l"
  shows "in_turn env earlier base (lo_newMessages l) (lo_state (start_turn env l))"
    "lo_newMessages (start_turn env l) = lo_newMessages l" "lo_pending (start_turn env l) = lo_pending l"
    "\<not> lo_firstTurn (start_turn env l)"
proof -
  obtain es where es: "lp_events (lo_state l) = earlier @ es"
      "run_phases InTurn es = Some (if lo_firstTurn l then InTurn else BetweenTurns)"
      "base @ ended es = lo_newMessages l" "turns_answered env es"
    using assms unfolding run_so_far_def by blast
  show "in_turn env earlier base (lo_newMessages l) (lo_state (start_turn env l))"
  proof (cases "lo_firstTurn l")
    case True
    then show ?thesis using es by (auto simp: start_turn_def in_turn_def)
  next
    case False
    then show ?thesis using es unfolding in_turn_def
      by (intro exI [of _ "es @ [TurnStart]"])
        (auto simp: start_turn_def emit_def run_phases_append turns_answered_def)
  qed
qed (simp_all add: start_turn_def)

lemma turn_ends:
  assumes "in_turn env earlier base new s" "turn_answered env m rs"
  obtains es where "lp_events (emit env (TurnEnd m rs) s) = earlier @ es" "run_phases InTurn es = Some BetweenTurns"
    "base @ ended es = new" "turns_answered env es"
proof -
  obtain es where es: "lp_events s = earlier @ es" "run_phases InTurn es = Some InTurn" "base @ ended es = new"
      "turns_answered env es"
    using assms(1) unfolding in_turn_def by blast
  show ?thesis
    by (rule that [of "es @ [TurnEnd m rs]"])
      (use es assms(2) in \<open>auto simp: emit_def run_phases_append turns_answered_def\<close>)
qed

lemma run_ends:
  assumes "lp_events s = earlier @ es" "run_phases InTurn es = Some BetweenTurns" "base @ ended es = new"
    "turns_answered env es"
  shows "run_complete env earlier base new (emit env (AgentEnd new) s)"
  unfolding run_complete_def using assms by (intro exI [of _ es]) (simp add: emit_def)

lemma run_tools_adds:
  assumes "run_tools env m l = Some (rs, l')" "in_turn env earlier base (lo_newMessages l) (lo_state l)"
    and "am_stopReason m \<notin> {StopError, StopAborted}"
  shows "in_turn env earlier base (lo_newMessages l') (lo_state l')" "turn_answered env m rs"
    "lo_firstTurn l' = lo_firstTurn l"
proof -
  let ?calls = "tool_calls_of (am_content m)"
  have "in_turn env earlier base (lo_newMessages l') (lo_state l') \<and> turn_answered env m rs \<and> lo_firstTurn l' = lo_firstTurn l"
  proof (cases "?calls = []")
    case True
    then show ?thesis using assms by (auto simp: run_tools_def turn_answered_def answers_def)
  next
    case False
    then obtain batch s where b: "(if am_stopReason m = StopLength then Some (failToolCallsFromTruncatedMessage env ?calls (lo_state l))
          else executeToolCalls env (lo_config l) (lo_context l) m (lo_state l)) = Some (batch, s)"
        "rs = eb_messages batch" "lo_state l' = s"
        "lo_newMessages l' = lo_newMessages l @ map ToolResultMessage (eb_messages batch)" "lo_firstTurn l' = lo_firstTurn l"
      using assms(1) by (auto simp: run_tools_def Let_def split: option.splits prod.splits)
    have "adds (lo_state l) s (map ToolResultMessage rs) \<and> turn_answered env m rs"
    proof (cases "am_stopReason m = StopLength")
      case True
      then have "fail_calls env ?calls (lo_state l) = (rs, s)"
        using b by (auto simp: failToolCallsFromTruncatedMessage_def split: prod.splits)
      from fail_calls_adds [OF this] show ?thesis using True
        by (auto simp: turn_answered_def answers_def dest: map_eq_imp_length_eq intro!: exI [of _ "length ?calls"])
    next
      case False
      then have "executeToolCalls env (lo_config l) (lo_context l) m (lo_state l) = Some (batch, s)" using b by simp
      from execute_batch_adds [OF this] show ?thesis using b(2) False assms(3) by (simp add: turn_answered_def)
    qed
    then show ?thesis using in_turn_adds [OF assms(2)] b by simp
  qed
  then show "in_turn env earlier base (lo_newMessages l') (lo_state l')" "turn_answered env m rs"
    "lo_firstTurn l' = lo_firstTurn l" by simp_all
qed

lemma after_turn_keeps:
  assumes "in_turn env earlier base (lo_newMessages l) (lo_state l)" "turn_answered env m rs" "\<not> lo_firstTurn l"
  shows "case after_turn env m rs l of Inl l' \<Rightarrow> run_so_far env earlier base l' \<and> \<not> lo_firstTurn l' | Inr (new, s) \<Rightarrow> run_complete env earlier base new s"
proof -
  obtain es where es: "lp_events (emit env (TurnEnd m rs) (lo_state l)) = earlier @ es"
      "run_phases InTurn es = Some BetweenTurns" "base @ ended es = lo_newMessages l" "turns_answered env es"
    using turn_ends [OF assms(1,2)] .
  have "run_complete env earlier base (lo_newMessages l)
      (emit env (AgentEnd (lo_newMessages l)) ((emit env (TurnEnd m rs) (lo_state l))\<lparr>lp_world := w\<rparr>))" for w
    using es by (intro run_ends) simp_all
  with es assms(3) show ?thesis
    by (auto simp: after_turn_def Let_def run_so_far_def split: prod.splits bool.splits)
qed

lemma turn_keeps:
  assumes "run_so_far env earlier base l" "turn env l = Some out"
  shows "case out of Inl l' \<Rightarrow> run_so_far env earlier base l' \<and> \<not> lo_firstTurn l' | Inr (new, s) \<Rightarrow> run_complete env earlier base new s"
proof -
  define l1 where "l1 = inject_pending env (start_turn env l)"
  note st = turn_starts [OF assms(1)]
  have l1: "in_turn env earlier base (lo_newMessages l1) (lo_state l1)" "\<not> lo_firstTurn l1"
    using in_turn_adds [OF st(1) adds_messages [OF adds_nothing]] st
    by (simp_all add: l1_def inject_pending_def)
  obtain ctx m s where r: "streamAssistantResponse env (lo_config l1) (lo_context l1) (lo_state l1) = Some (ctx, m, s)"
    using assms(2) by (auto simp: turn_def l1_def [symmetric] Let_def split: option.splits)
  define l2 where "l2 = l1\<lparr>lo_context := ctx, lo_state := s, lo_newMessages := lo_newMessages l1 @ [AssistantMessage m]\<rparr>"
  have l2: "in_turn env earlier base (lo_newMessages l2) (lo_state l2)" "\<not> lo_firstTurn l2"
    using in_turn_adds [OF l1(1) response_adds [OF r]] l1(2) by (simp_all add: l2_def)
  show ?thesis
  proof (cases "am_stopReason m = StopError \<or> am_stopReason m = StopAborted")
    case True
    then have out: "out = Inr (lo_newMessages l2, emit env (AgentEnd (lo_newMessages l2)) (emit env (TurnEnd m []) (lo_state l2)))"
      using assms(2) r by (simp add: turn_def l1_def [symmetric] l2_def Let_def)
    have "turn_answered env m []" using True by (auto simp: turn_answered_def)
    from turn_ends [OF l2(1) this] obtain es where "lp_events (emit env (TurnEnd m []) (lo_state l2)) = earlier @ es"
      "run_phases InTurn es = Some BetweenTurns" "base @ ended es = lo_newMessages l2" "turns_answered env es" .
    from run_ends [OF this] show ?thesis using out by simp
  next
    case False
    then obtain rs l3 where tools: "run_tools env m l2 = Some (rs, l3)" "out = after_turn env m rs l3"
      using assms(2) r by (auto simp: turn_def l1_def [symmetric] l2_def Let_def split: option.splits)
    have "am_stopReason m \<notin> {StopError, StopAborted}" using False by simp
    note k = run_tools_adds [OF tools(1) l2(1) this]
    from after_turn_keeps [OF k(1,2)] k(3) l2(2) tools(2) show ?thesis by simp
  qed
qed

lemma run_loop_completes:
  "run_loop env l = Some r \<Longrightarrow> run_so_far env earlier base l \<longrightarrow> (lo_firstTurn l \<longrightarrow> lo_hasMore l) \<longrightarrow>
     run_complete env earlier base (fst r) (snd r)"
proof (erule run_loop.raw_induct [rotated], goal_cases)
  case (1 loop env l r)
  show ?case
  proof (intro impI)
    assume l: "run_so_far env earlier base l" "lo_firstTurn l \<longrightarrow> lo_hasMore l"
    show "run_complete env earlier base (fst r) (snd r)"
    proof (cases "lo_hasMore l \<or> lo_pending l \<noteq> []")
      case True
      then obtain out where out: "turn env l = Some out" using 1(2) by (auto split: option.splits)
      show ?thesis
      proof (cases out)
        case (Inl l')
        then have "loop env l' = Some r" using 1(2) True out by simp
        from 1(1) [OF this] turn_keeps [OF l(1) out] Inl show ?thesis by simp
      next
        case (Inr r')
        then show ?thesis using 1(2) True out turn_keeps [OF l(1) out] by (auto split: prod.splits)
      qed
    next
      case False
      obtain w followUps where f: "le_getFollowUpMessages env (lp_world (lo_state l)) = (w, followUps)" by fastforce
      obtain es where es: "lp_events (lo_state l) = earlier @ es" "run_phases InTurn es = Some BetweenTurns"
          "base @ ended es = lo_newMessages l" "turns_answered env es"
        using l False unfolding run_so_far_def by auto
      show ?thesis
      proof (cases "followUps = []")
        case True
        then have "r = (lo_newMessages l, emit env (AgentEnd (lo_newMessages l)) ((lo_state l)\<lparr>lp_world := w\<rparr>))"
          using 1(2) False f by simp
        then show ?thesis using run_ends [of "(lo_state l)\<lparr>lp_world := w\<rparr>"] es by simp
      next
        case more: False
        let ?l = "l\<lparr>lo_pending := followUps, lo_hasMore := True, lo_state := (lo_state l)\<lparr>lp_world := w\<rparr>\<rparr>"
        have "loop env ?l = Some r" using 1(2) False f more by simp
        moreover have "run_so_far env earlier base ?l" using l(1) by (simp add: run_so_far_def)
        ultimately show ?thesis using 1(1) [of env ?l r] by simp
      qed
    qed
  qed
qed

lemma runLoop_completes:
  assumes "runLoop env ctx base config s = Some (new, s')"
  shows "run_complete env (lp_events s) base new s'"
proof -
  obtain l where l: "run_loop env l = Some (new, s')" "run_so_far env (lp_events s) base l" "lo_hasMore l"
    using assms by (auto simp: runLoop_def run_so_far_def turns_answered_def split: prod.splits)
  from run_loop_completes [OF l(1)] l(2,3) show ?thesis by simp
qed

lemma emit_message_events: "lp_events (emit_message env m s) = lp_events s @ [MessageStart m, MessageEnd m]"
  by (simp add: emit_message_def emit_def)

lemma emit_messages_events:
  "lp_events (fold (emit_message env) ms s) = lp_events s @ concat (map (\<lambda>m. [MessageStart m, MessageEnd m]) ms)"
  by (induction ms arbitrary: s) (simp_all add: emit_message_events)

lemma announced_messages:
  "ended (concat (map (\<lambda>m. [MessageStart m, MessageEnd m]) ms)) = ms"
  "run_phases InTurn (concat (map (\<lambda>m. [MessageStart m, MessageEnd m]) ms)) = Some InTurn"
  "turns_answered env (concat (map (\<lambda>m. [MessageStart m, MessageEnd m]) ms))"
  by (induction ms) (auto simp: turns_answered_def)

lemma run_events:
  assumes "runAgentLoop env prompts ctx config s = Some (new, s')"
  shows "\<exists>es. lp_events s' = lp_events s @ es @ [AgentEnd new] \<and>
    run_phases BeforeRun (es @ [AgentEnd new]) = Some AfterRun \<and> ended es = new \<and>
    take (length prompts) new = prompts \<and> turns_answered env es"
proof -
  let ?ann = "concat (map (\<lambda>m. [MessageStart m, MessageEnd m]) prompts)"
  let ?s = "fold (emit_message env) prompts (emit env TurnStart (emit env AgentStart s))"
  have start: "lp_events ?s = lp_events s @ [AgentStart, TurnStart] @ ?ann"
    by (simp add: emit_messages_events emit_def)
  obtain es where es: "lp_events s' = lp_events ?s @ es @ [AgentEnd new]" "run_phases InTurn es = Some BetweenTurns"
      "prompts @ ended es = new" "turns_answered env es"
    using runLoop_completes [of env _ prompts config ?s new s'] assms unfolding runAgentLoop_def run_complete_def by auto
  show ?thesis
    using es start announced_messages(1,2) [where ms = prompts] announced_messages(3) [where env = env and ms = prompts]
    by (intro exI [of _ "[AgentStart, TurnStart] @ ?ann @ es"])
      (auto simp: run_phases_append turns_answered_append turns_answered_def)
qed

text \<open>Each turn adds at least the model's answer.\<close>

lemma turn_grows:
  assumes "turn env l = Some out"
  shows "case out of Inl l' \<Rightarrow> length (lo_newMessages l) < length (lo_newMessages l')
    | Inr (new, s) \<Rightarrow> length (lo_newMessages l) < length new"
proof -
  have tools: "length (lo_newMessages l1) \<le> length (lo_newMessages l2)" if "run_tools env m l1 = Some (rs, l2)" for m l1 rs l2
    using that by (auto simp: run_tools_def Let_def split: if_splits option.splits prod.splits)
  have after: "after_turn env m rs l1 = Inl l2 \<Longrightarrow> lo_newMessages l2 = lo_newMessages l1"
    "after_turn env m rs l1 = Inr (new, s) \<Longrightarrow> new = lo_newMessages l1" for m rs l1 l2 new s
    by (auto simp: after_turn_def Let_def split: prod.splits bool.splits)
  show ?thesis using assms
    by (auto simp: turn_def Let_def inject_pending_def start_turn_def dest!: tools dest: after
        split: option.splits if_splits sum.splits prod.splits)
qed

lemma run_loop_grows:
  "run_loop env l = Some r \<Longrightarrow> length (lo_newMessages l) + (if lo_hasMore l then 1 else 0) \<le> length (fst r)"
proof (erule run_loop.raw_induct [rotated], goal_cases)
  case (1 loop env l r)
  show ?case
  proof (cases "lo_hasMore l \<or> lo_pending l \<noteq> []")
    case True
    then obtain out where out: "turn env l = Some out" using 1(2) by (auto split: option.splits)
    from turn_grows [OF out] 1(1) [of env _ r] 1(2) True out show ?thesis
      by (fastforce split: sum.splits prod.splits if_splits)
  next
    case False
    with 1(1) [of env _ r] 1(2) show ?thesis by (fastforce simp: Let_def split: prod.splits if_splits)
  qed
qed

lemma runLoop_answers: "runLoop env ctx base config s = Some (new, s') \<Longrightarrow> length base < length new"
  by (auto simp: runLoop_def dest!: run_loop_grows split: prod.splits)

section \<open>Properties\<close>

text \<open>
  C5. A run announces what it returns. Whatever the model, the tools, the hooks and the scheduler do,
  when a run returns, its events form one run: it starts once, its turns follow each other without
  overlap, everything else happens within a turn, and the last event ends the run with the returned
  messages. The messages whose end was announced, in the order of their announcement, are exactly the
  returned messages, which begin with the prompts.
\<close>

theorem run_announces_what_it_returns:
  assumes "runAgentLoop env prompts ctx config s = Some (new, s')"
  shows "\<exists>es. lp_events s' = lp_events s @ es @ [AgentEnd new] \<and>
    run_phases BeforeRun (es @ [AgentEnd new]) = Some AfterRun \<and> ended es = new \<and>
    take (length prompts) new = prompts"
  using run_events [OF assms] by blast

text \<open>
  C6. Every tool call is answered, in order. In each turn of a run a failed or aborted answer of the model
  gets no tool results, even when it holds tool calls. Otherwise the results carry the ids of the tool
  calls of the answer, in the order of the calls, whether the calls ran one after the other or in parallel
  and in whatever order they finished; results are missing, at the end of the list, only when the run can
  be aborted. An answer that was cut off by the token limit gets an error for every one of its calls, also
  in a run that can be aborted.
\<close>

theorem tool_calls_answered_in_order:
  assumes "runAgentLoop env prompts ctx config s = Some (new, s')"
    and "lp_events s' = lp_events s @ es" "TurnEnd m rs \<in> set es"
    and "calls = tool_calls_of (am_content m)"
  shows "if am_stopReason m \<in> {StopError, StopAborted} then rs = []
    else map tr_toolCallId rs = map tc_id (take (length rs) calls) \<and> length rs \<le> length calls \<and>
      ((\<forall>w. \<not> le_aborted env w) \<longrightarrow> length rs = length calls) \<and>
      (am_stopReason m = StopLength \<longrightarrow> length rs = length calls \<and> (\<forall>r \<in> set rs. tr_isError r))"
proof -
  have answered: "turn_answered env m rs"
    using run_events [OF assms(1)] assms(2,3) by (auto simp: turns_answered_def)
  show ?thesis
  proof (cases "am_stopReason m \<in> {StopError, StopAborted}")
    case False
    with answered assms(4) obtain k where k: "k \<le> length calls" "map tr_toolCallId rs = map tc_id (take k calls)"
        "k < length calls \<longrightarrow> (\<exists>w. le_aborted env w)"
        "am_stopReason m = StopLength \<longrightarrow> length rs = length calls \<and> (\<forall>r \<in> set rs. tr_isError r)"
      unfolding turn_answered_def answers_def by auto
    have "length rs = k" using arg_cong [OF k(2), of length] k(1) by simp
    with k False show ?thesis by auto
  qed (use answered in \<open>simp add: turn_answered_def\<close>)
qed

definition demo_call :: tool_call where
  "demo_call = \<lparr>tc_id = ''t1'', tc_name = ''echo'', tc_arguments = [], tc_thoughtSignature = None, tc_namespace = None\<rparr>"

definition demo_reply :: "assistant_content list \<Rightarrow> stop_reason \<Rightarrow> assistant_message" where
  "demo_reply content reason =
     \<lparr>am_content = content, am_api = ''api'', am_provider = ''p'', am_model = ''m'', am_responseModel = None,
      am_responseId = None, am_diagnostics = None,
      am_usage = \<lparr>u_input = 0, u_output = 0, u_cacheRead = 0, u_cacheWrite = 0, u_cacheWrite1h = None,
        u_reasoning = None, u_totalTokens = 0,
        u_cost = \<lparr>cost_input = 0, cost_output = 0, cost_cacheRead = 0, cost_cacheWrite = 0, cost_total = 0\<rparr>\<rparr>,
      am_stopReason = reason, am_deferred = None, am_errorMessage = None, am_rawStopReason = None,
      am_endTurn = None, am_timestamp = 0\<rparr>"

text \<open>A world that is the list of the answers still to come, and a tool that returns at once.\<close>

definition demo_output :: agent_tool_result where
  "demo_output = \<lparr>ar_content = Some [TextInput ''ok'' None], ar_details = None, ar_usage = None,
     ar_addedToolNames = None, ar_terminate = None\<rparr>"

definition demo_tool :: "assistant_message list agent_tool" where
  "demo_tool = \<lparr>at_name = ''echo'', at_executionMode = None, at_prepareArguments = None, at_validate = Inr,
     at_execute = (\<lambda>w i args. (w, ToolReturned demo_output))\<rparr>"

definition demo_env :: "assistant_message list loop_env" where
  "demo_env = \<lparr>le_emit = (\<lambda>w e. w), le_aborted = (\<lambda>w. False), le_now = (\<lambda>w. 0),
     le_getSteeringMessages = (\<lambda>w. (w, [])), le_getFollowUpMessages = (\<lambda>w. (w, [])),
     le_transformContext = None, le_convertToLlm = (\<lambda>w ms. (w, ms)), le_stream = (\<lambda>w c p ms ts. w),
     le_next = (\<lambda>w. (w, None)), le_result = (\<lambda>w. (tl w, hd w)), le_beforeToolCall = None, le_afterToolCall = None,
     le_prepareNextTurn = (\<lambda>w m rs c new. (w, None)), le_shouldStopAfterTurn = (\<lambda>w m rs c new. (w, False)),
     le_pick = (\<lambda>w is. (w, hd is))\<rparr>"

definition demo_prompt :: agent_message where
  "demo_prompt = UserMessage \<lparr>um_content = ContentString ''hi'', um_timestamp = 0\<rparr>"

definition demo_context :: "assistant_message list agent_context" where
  "demo_context = \<lparr>cx_systemPrompt = [], cx_messages = [], cx_tools = Some [demo_tool]\<rparr>"

definition demo_config :: agent_config where
  "demo_config = \<lparr>ag_model = ''m'', ag_reasoning = None, ag_toolExecution = None\<rparr>"

definition demo_world :: "assistant_message list loop_state" where
  "demo_world = \<lparr>lp_events = [], lp_world = [demo_reply [ToolCallContent demo_call] StopToolUse, demo_reply [] StopStop]\<rparr>"

definition demo_answered :: tool_result_message where
  "demo_answered = createToolResultMessage 0 \<lparr>fz_toolCall = demo_call, fz_result = demo_output, fz_isError = False\<rparr>"

definition demo_events :: "agent_event list" where
  "demo_events =
     [AgentStart, TurnStart, MessageStart demo_prompt, MessageEnd demo_prompt,
      MessageStart (AssistantMessage (demo_reply [ToolCallContent demo_call] StopToolUse)),
      MessageEnd (AssistantMessage (demo_reply [ToolCallContent demo_call] StopToolUse)),
      ToolExecutionStart ''t1'' ''echo'' [], ToolExecutionEnd ''t1'' ''echo'' demo_output False,
      MessageStart (ToolResultMessage demo_answered), MessageEnd (ToolResultMessage demo_answered),
      TurnEnd (demo_reply [ToolCallContent demo_call] StopToolUse) [demo_answered],
      TurnStart, MessageStart (AssistantMessage (demo_reply [] StopStop)),
      MessageEnd (AssistantMessage (demo_reply [] StopStop)), TurnEnd (demo_reply [] StopStop) []]"

definition demo_new :: "agent_message list" where
  "demo_new = [demo_prompt, AssistantMessage (demo_reply [ToolCallContent demo_call] StopToolUse),
     ToolResultMessage demo_answered, AssistantMessage (demo_reply [] StopStop)]"

lemma demo_fields:
  "le_emit demo_env w e = w" "le_aborted demo_env w = False" "le_now demo_env w = 0"
  "le_getSteeringMessages demo_env w = (w, [])" "le_getFollowUpMessages demo_env w = (w, [])"
  "le_transformContext demo_env = None" "le_convertToLlm demo_env w ms = (w, ms)" "le_stream demo_env w c p ms ts = w"
  "le_next demo_env w = (w, None)" "le_result demo_env w = (tl w, hd w)" "le_beforeToolCall demo_env = None"
  "le_afterToolCall demo_env = None" "le_prepareNextTurn demo_env w m rs cx new = (w, None)"
  "le_shouldStopAfterTurn demo_env w m rs cx new = (w, False)" "le_pick demo_env w is = (w, hd is)"
  "at_name demo_tool = ''echo''" "at_executionMode demo_tool = None" "at_prepareArguments demo_tool = None"
  "at_validate demo_tool args = Inr args" "at_execute demo_tool v i args = (v, ToolReturned demo_output)"
  "tc_id demo_call = ''t1''" "tc_name demo_call = ''echo''" "tc_arguments demo_call = []"
  "am_content (demo_reply content reason) = content" "am_stopReason (demo_reply content reason) = reason"
  "ag_toolExecution demo_config = None" "ar_terminate demo_output = None"
  by (simp_all add: demo_env_def demo_tool_def demo_call_def demo_reply_def demo_config_def demo_output_def)

lemma demo_stream: "stream_loop demo_env None False ctx s = Some (finish_response demo_env False ctx s)"
  by (subst stream_loop.simps) (simp add: demo_fields)

lemma demo_response:
  "streamAssistantResponse demo_env config ctx s =
     Some (ctx\<lparr>cx_messages := cx_messages ctx @ [AssistantMessage (hd (lp_world s))]\<rparr>, hd (lp_world s),
       \<lparr>lp_events = lp_events s @ [MessageStart (AssistantMessage (hd (lp_world s))), MessageEnd (AssistantMessage (hd (lp_world s)))],
        lp_world = tl (lp_world s)\<rparr>)"
  by (cases s) (simp add: streamAssistantResponse_def Let_def demo_stream finish_response_def emit_def demo_fields)

lemma demo_prepared:
  assumes "cx_tools ctx = Some [demo_tool]"
  shows "prepare_calls demo_env ctx m [demo_call] s =
    ([Inr \<lparr>pc_toolCall = demo_call, pc_tool = demo_tool, pc_args = []\<rparr>], emitToolExecutionStart demo_env demo_call s)"
  using assms by (simp add: prepareToolCall_def find_tool_def prepareToolCallArguments_def demo_fields Let_def)

lemma demo_parallel:
  "parallel_loop demo_env ctx m [Inr \<lparr>pc_toolCall = demo_call, pc_tool = demo_tool, pc_args = []\<rparr>] s =
     Some ([\<lparr>fz_toolCall = demo_call, fz_result = demo_output, fz_isError = False\<rparr>],
       emitToolExecutionEnd demo_env \<lparr>fz_toolCall = demo_call, fz_result = demo_output, fz_isError = False\<rparr> s)"
  by (subst parallel_loop.simps, simp add: running_def parallel_step_def tool_step_def finalizeExecutedToolCall_def
      demo_fields Let_def, subst parallel_loop.simps, simp add: running_def)

lemma demo_batch:
  assumes "cx_tools ctx = Some [demo_tool]"
  shows "executeToolCalls demo_env demo_config ctx (demo_reply [ToolCallContent demo_call] StopToolUse) s =
    Some (\<lparr>eb_messages = [demo_answered], eb_terminate = False\<rparr>,
      \<lparr>lp_events = lp_events s @ [ToolExecutionStart ''t1'' ''echo'' [], ToolExecutionEnd ''t1'' ''echo'' demo_output False,
        MessageStart (ToolResultMessage demo_answered), MessageEnd (ToolResultMessage demo_answered)], lp_world = lp_world s\<rparr>)"
  using assms demo_prepared [OF assms] demo_parallel
  by (cases s) (simp add: executeToolCalls_def executeToolCallsParallel_def find_tool_def publish_result_def
      emitToolResultMessage_def emitToolExecutionStart_def emitToolExecutionEnd_def emit_def shouldTerminateToolBatch_def
      demo_answered_def demo_fields Let_def del: prepare_calls.simps)

lemma demo_run:
  "runAgentLoop demo_env [demo_prompt] demo_context demo_config demo_world =
     Some (demo_new, \<lparr>lp_events = demo_events @ [AgentEnd demo_new], lp_world = []\<rparr>)"
  unfolding runAgentLoop_def runLoop_def
  apply (subst run_loop.simps)
  apply (simp add: demo_fields demo_context_def demo_world_def turn_def start_turn_def inject_pending_def demo_response run_tools_def demo_batch after_turn_def emit_def emit_message_def Let_def)
  apply (subst run_loop.simps)
  apply (simp add: demo_fields turn_def start_turn_def inject_pending_def demo_response run_tools_def after_turn_def emit_def Let_def)
  apply (subst run_loop.simps)
  apply (simp add: demo_fields emit_def demo_new_def demo_events_def)
  done

theorem run_announces_what_it_returns_witness:
  "run_phases BeforeRun (demo_events @ [AgentEnd demo_new]) = Some AfterRun \<and> ended demo_events = demo_new"
  using run_announces_what_it_returns [OF demo_run] by (simp add: demo_world_def del: ended_simps)

theorem tool_calls_answered_in_order_witness:
  "map tr_toolCallId [demo_answered] = [''t1'']"
proof -
  have turn: "TurnEnd (demo_reply [ToolCallContent demo_call] StopToolUse) [demo_answered] \<in> set (demo_events @ [AgentEnd demo_new])"
    by (simp add: demo_events_def)
  have calls: "[demo_call] = tool_calls_of (am_content (demo_reply [ToolCallContent demo_call] StopToolUse))"
    "am_stopReason (demo_reply [ToolCallContent demo_call] StopToolUse) \<notin> {StopError, StopAborted}"
    by (simp_all add: demo_reply_def)
  from tool_calls_answered_in_order [OF demo_run _ turn calls(1)] calls(2)
  have "map tr_toolCallId [demo_answered] = map tc_id (take 1 [demo_call])" by (simp add: demo_world_def)
  then show ?thesis by (simp add: demo_call_def)
qed

end
