(* ===== verification/Agent_Facade.thy ===== *)
theory Agent_Facade
  imports Agent_Loop "HOL-Library.Sublist"
begin

text \<open>
  The agent, \<^verbatim>\<open>packages/agent/src/agent.ts\<close>: a transcript, queues of steering and follow-up messages, and at
  most one run of the agent loop at a time. The agent is part of the world of the loop, since tools, hooks and
  listeners may call it while it runs; what lies outside (\<open>'x\<close>) and the hooks given to the constructor are
  arguments. The stream function, the hooks and the listeners may throw. An error the loop does not catch is
  recorded in the world, and from then on nothing acts on the world: the loop comes to its end without effect,
  which stands for the rejection of the loop's promise at that point, and the life cycle of the run reports the
  error. Calls of a parallel batch that are still running then go no further, while the code lets them run on
  unobserved. The listeners do not change during a run.
\<close>

section \<open>Queues\<close>

datatype queue_mode = QueueAll | OneAtATime

record pending_queue =
  pq_messages :: "agent_message list"
  pq_mode :: queue_mode


definition enqueue :: "agent_message \<Rightarrow> pending_queue \<Rightarrow> pending_queue" where
  "enqueue m q = q\<lparr>pq_messages := pq_messages q @ [m]\<rparr>"


definition drain :: "pending_queue \<Rightarrow> agent_message list \<times> pending_queue" where
  "drain q =
     (if pq_mode q = QueueAll then (pq_messages q, q\<lparr>pq_messages := []\<rparr>)
      else (case pq_messages q of
              [] \<Rightarrow> ([], q)
            | m # rest \<Rightarrow> ([m], q\<lparr>pq_messages := rest\<rparr>)))"

definition clear :: "pending_queue \<Rightarrow> pending_queue" where
  "clear q = q\<lparr>pq_messages := []\<rparr>"

section \<open>State\<close>

record agent_model =
  ml_id :: string
  ml_api :: string
  ml_provider :: string

record agent =
  ac_systemPrompt :: string
  ac_model :: agent_model
  ac_thinkingLevel :: string
  ac_messages :: "agent_message list"
  ac_isStreaming :: bool
  ac_streamingMessage :: "agent_message option"
  ac_pendingToolCalls :: "ident list" \<comment> \<open>a set\<close>
  ac_errorMessage :: "string option"
  ac_steeringQueue :: pending_queue
  ac_followUpQueue :: pending_queue
  ac_activeRun :: "bool option" \<comment> \<open>whether the run's signal is aborted\<close>
  ac_skipInitialSteeringPoll :: bool \<comment> \<open>of the configuration of the run\<close>

record 'x agent_world =
  wd_agent :: agent
  wd_outer :: 'x
  wd_thrown :: "string option" \<comment> \<open>of the run: the error it ends with\<close>
  wd_rejected :: "(ident \<times> string) list" \<comment> \<open>of the run: failed announcements of updates, by tool call\<close>

text \<open>What may throw returns the error or its result, beside the world it leaves behind.\<close>

type_synonym ('x, 'a) attempt = "'x agent_world \<times> (string + 'a)"

record 'x agent_hooks =
  ah_tools :: "'x agent_world agent_tool list"
  ah_toolExecution :: "tool_execution_mode option"
  ah_listeners :: "('x agent_world \<Rightarrow> agent_event \<Rightarrow> ('x, unit) attempt) list" \<comment> \<open>in the order of their subscription\<close>
  ah_now :: "'x agent_world \<Rightarrow> int"
  ah_convertToLlm :: "('x agent_world \<Rightarrow> agent_message list \<Rightarrow> ('x, agent_message list) attempt) option"
  ah_transformContext :: "('x agent_world \<Rightarrow> agent_message list \<Rightarrow> ('x, agent_message list) attempt) option"
  ah_stream :: "'x agent_world \<Rightarrow> agent_config \<Rightarrow> string \<Rightarrow> agent_message list \<Rightarrow> 'x agent_world agent_tool list option \<Rightarrow>
     ('x, unit) attempt"
  ah_next :: "'x agent_world \<Rightarrow> ('x, stream_event option) attempt"
  ah_result :: "'x agent_world \<Rightarrow> ('x, assistant_message) attempt"
  ah_beforeToolCall :: "('x agent_world \<Rightarrow> assistant_message \<Rightarrow> tool_call \<Rightarrow> tool_args \<Rightarrow> 'x agent_world agent_context \<Rightarrow>
     'x agent_world \<times> (string + before_result option)) option"
  ah_afterToolCall :: "('x agent_world \<Rightarrow> assistant_message \<Rightarrow> tool_call \<Rightarrow> tool_args \<Rightarrow> agent_tool_result \<Rightarrow> bool \<Rightarrow>
     'x agent_world agent_context \<Rightarrow> 'x agent_world \<times> (string + after_result option)) option"
  ah_shouldStopAfterTurn :: "('x agent_world \<Rightarrow> assistant_message \<Rightarrow> tool_result_message list \<Rightarrow> 'x agent_world agent_context \<Rightarrow>
     agent_message list \<Rightarrow> ('x, bool) attempt) option"
  ah_prepareNextTurn :: "('x agent_world \<Rightarrow> ('x, 'x agent_world turn_update option) attempt) option"
  ah_prepareNextTurnWithContext :: "('x agent_world \<Rightarrow> assistant_message \<Rightarrow> tool_result_message list \<Rightarrow> 'x agent_world agent_context \<Rightarrow>
     agent_message list \<Rightarrow> ('x, 'x agent_world turn_update option) attempt) option"
  ah_pick :: "'x agent_world \<Rightarrow> nat list \<Rightarrow> 'x agent_world \<times> nat"

definition defaultConvertToLlm :: "agent_message list \<Rightarrow> agent_message list" where
  "defaultConvertToLlm = filter (\<lambda>m. role_of m = RoleUser \<or> role_of m = RoleAssistant \<or> role_of m = RoleToolResult)"

definition EMPTY_USAGE :: usage where
  "EMPTY_USAGE = \<lparr>u_input = 0, u_output = 0, u_cacheRead = 0, u_cacheWrite = 0, u_cacheWrite1h = None, u_reasoning = None,
     u_totalTokens = 0, u_cost = \<lparr>cost_input = 0, cost_output = 0, cost_cacheRead = 0, cost_cacheWrite = 0, cost_total = 0\<rparr>\<rparr>"



abbreviation on_agent :: "(agent \<Rightarrow> agent) \<Rightarrow> 'x agent_world \<Rightarrow> 'x agent_world" where
  "on_agent f w \<equiv> w\<lparr>wd_agent := f (wd_agent w)\<rparr>"

section \<open>Requests to the agent\<close>

definition steer :: "agent_message \<Rightarrow> agent \<Rightarrow> agent" where
  "steer m a = a\<lparr>ac_steeringQueue := enqueue m (ac_steeringQueue a)\<rparr>"

definition followUp :: "agent_message \<Rightarrow> agent \<Rightarrow> agent" where
  "followUp m a = a\<lparr>ac_followUpQueue := enqueue m (ac_followUpQueue a)\<rparr>"

definition set_steeringMode :: "queue_mode \<Rightarrow> agent \<Rightarrow> agent" where
  "set_steeringMode mode a = a\<lparr>ac_steeringQueue := (ac_steeringQueue a)\<lparr>pq_mode := mode\<rparr>\<rparr>"

definition set_followUpMode :: "queue_mode \<Rightarrow> agent \<Rightarrow> agent" where
  "set_followUpMode mode a = a\<lparr>ac_followUpQueue := (ac_followUpQueue a)\<lparr>pq_mode := mode\<rparr>\<rparr>"

definition clearSteeringQueue :: "agent \<Rightarrow> agent" where
  "clearSteeringQueue a = a\<lparr>ac_steeringQueue := clear (ac_steeringQueue a)\<rparr>"

definition clearFollowUpQueue :: "agent \<Rightarrow> agent" where
  "clearFollowUpQueue a = a\<lparr>ac_followUpQueue := clear (ac_followUpQueue a)\<rparr>"

definition clearAllQueues :: "agent \<Rightarrow> agent" where
  "clearAllQueues a = clearFollowUpQueue (clearSteeringQueue a)"


definition abort :: "agent \<Rightarrow> agent" where
  "abort a = a\<lparr>ac_activeRun := map_option (\<lambda>_. True) (ac_activeRun a)\<rparr>"

datatype agent_error = AlreadyProcessing | NoMessagesToContinue | CannotContinueFromAssistant | Thrown string

definition reset :: "agent \<Rightarrow> agent_error + agent" where
  "reset a =
     (if ac_activeRun a \<noteq> None then Inl AlreadyProcessing
      else Inr (clearSteeringQueue (clearFollowUpQueue (a\<lparr>ac_messages := [], ac_isStreaming := False, ac_streamingMessage := None,
             ac_pendingToolCalls := [], ac_errorMessage := None\<rparr>))))"

section \<open>Events\<close>

definition reduce_event :: "agent_event \<Rightarrow> agent \<Rightarrow> agent" where
  "reduce_event e a =
     (case e of
        MessageStart m \<Rightarrow> a\<lparr>ac_streamingMessage := Some m\<rparr>
      | MessageUpdate m \<Rightarrow> a\<lparr>ac_streamingMessage := Some (AssistantMessage m)\<rparr>
      | MessageEnd m \<Rightarrow> a\<lparr>ac_streamingMessage := None, ac_messages := ac_messages a @ [m]\<rparr>
      | ToolExecutionStart i _ _ \<Rightarrow>
          a\<lparr>ac_pendingToolCalls := (if i \<in> set (ac_pendingToolCalls a) then ac_pendingToolCalls a else ac_pendingToolCalls a @ [i])\<rparr>
      | ToolExecutionEnd i _ _ _ \<Rightarrow> a\<lparr>ac_pendingToolCalls := removeAll i (ac_pendingToolCalls a)\<rparr>
      | TurnEnd m _ \<Rightarrow>
          (case am_errorMessage m of
             None \<Rightarrow> a
           | Some err \<Rightarrow> if err = [] then a else a\<lparr>ac_errorMessage := Some err\<rparr>)
      | AgentEnd _ \<Rightarrow> a\<lparr>ac_streamingMessage := None\<rparr>
      | _ \<Rightarrow> a)"

fun notify :: "('x agent_world \<Rightarrow> agent_event \<Rightarrow> ('x, unit) attempt) list \<Rightarrow> agent_event \<Rightarrow> 'x agent_world \<Rightarrow> ('x, unit) attempt" where
  "notify [] e w = (w, Inr ())"
| "notify (listener # listeners) e w =
     (case listener w e of (w1, Inl err) \<Rightarrow> (w1, Inl err) | (w1, Inr _) \<Rightarrow> notify listeners e w1)"

definition processEvents :: "'x agent_hooks \<Rightarrow> agent_event \<Rightarrow> 'x agent_world \<Rightarrow> ('x, unit) attempt" where
  "processEvents hooks e w =
     (let w1 = on_agent (reduce_event e) w
      in if ac_activeRun (wd_agent w1) = None then (w1, Inl ''Agent listener invoked outside active run'')
         else notify (ah_listeners hooks) e w1)"

fun processAll :: "'x agent_hooks \<Rightarrow> agent_event list \<Rightarrow> 'x agent_world \<Rightarrow> ('x, unit) attempt" where
  "processAll hooks [] w = (w, Inr ())"
| "processAll hooks (e # es) w =
     (case processEvents hooks e w of (w1, Inl err) \<Rightarrow> (w1, Inl err) | (w1, Inr _) \<Rightarrow> processAll hooks es w1)"

section \<open>Errors that end a run\<close>

definition throw :: "string \<Rightarrow> 'x agent_world \<Rightarrow> 'x agent_world" where
  "throw err w = w\<lparr>wd_thrown := Some err\<rparr>"

definition unthrown :: "'x agent_world \<Rightarrow> 'x agent_world" where
  "unthrown w = w\<lparr>wd_thrown := None, wd_rejected := []\<rparr>"

definition attempted :: "('x agent_world \<Rightarrow> ('x, 'a) attempt) \<Rightarrow> 'a \<Rightarrow> 'x agent_world \<Rightarrow> 'x agent_world \<times> 'a" where
  "attempted f otherwise w =
     (if wd_thrown w \<noteq> None then (w, otherwise)
      else (case f w of (w1, Inl err) \<Rightarrow> (throw err w1, otherwise) | (w1, Inr x) \<Rightarrow> (w1, x)))"

definition unless_thrown :: "('x agent_world \<Rightarrow> 'x agent_world \<times> 'a) \<Rightarrow> 'a \<Rightarrow> 'x agent_world \<Rightarrow> 'x agent_world \<times> 'a" where
  "unless_thrown f otherwise w = (if wd_thrown w \<noteq> None then (w, otherwise) else f w)"

text \<open>
  The announcement of an update of a tool is awaited when the tool has ended; until then a listener that threw
  there does not stop the run.
\<close>

definition loop_emit :: "'x agent_hooks \<Rightarrow> 'x agent_world \<Rightarrow> agent_event \<Rightarrow> 'x agent_world" where
  "loop_emit hooks w e =
     (case e of
        ToolExecutionUpdate i _ _ _ \<Rightarrow>
          fst (unless_thrown (\<lambda>w. case processEvents hooks e w of
             (w1, Inl err) \<Rightarrow> (w1\<lparr>wd_rejected := wd_rejected w1 @ [(i, err)]\<rparr>, ())
           | (w1, Inr _) \<Rightarrow> (w1, ())) () w)
      | _ \<Rightarrow> fst (attempted (processEvents hooks e) () w))"

definition await_updates :: "ident \<Rightarrow> 'x agent_world \<Rightarrow> 'x agent_world" where
  "await_updates i w = (case find (\<lambda>(j, err). j = i) (wd_rejected w) of None \<Rightarrow> w | Some (_, err) \<Rightarrow> throw err w)"

definition run_tool :: "'x agent_world agent_tool \<Rightarrow> 'x agent_world \<Rightarrow> ident \<Rightarrow> tool_args \<Rightarrow> 'x agent_world \<times> tool_progress" where
  "run_tool t w i args =
     unless_thrown (\<lambda>w. case at_execute t w i args of
         (w1, ToolUpdated r) \<Rightarrow> (w1, ToolUpdated r)
       | (w1, outcome) \<Rightarrow> (await_updates i w1, outcome)) (ToolThrew []) w"

definition loop_tool :: "'x agent_world agent_tool \<Rightarrow> 'x agent_world agent_tool" where
  "loop_tool t = t\<lparr>at_execute := run_tool t\<rparr>"

definition loop_context :: "'x agent_world agent_context \<Rightarrow> 'x agent_world agent_context" where
  "loop_context context = context\<lparr>cx_tools := map_option (map loop_tool) (cx_tools context)\<rparr>"

definition loop_update :: "'x agent_world turn_update \<Rightarrow> 'x agent_world turn_update" where
  "loop_update u = u\<lparr>tu_context := map_option loop_context (tu_context u)\<rparr>"

section \<open>Runs\<close>

definition getSteeringMessages :: "'x agent_world \<Rightarrow> 'x agent_world \<times> agent_message list" where
  "getSteeringMessages w =
     (let a = wd_agent w
      in if ac_skipInitialSteeringPoll a then (w\<lparr>wd_agent := a\<lparr>ac_skipInitialSteeringPoll := False\<rparr>\<rparr>, [])
         else (case drain (ac_steeringQueue a) of (ms, q) \<Rightarrow> (w\<lparr>wd_agent := a\<lparr>ac_steeringQueue := q\<rparr>\<rparr>, ms)))"

definition getFollowUpMessages :: "'x agent_world \<Rightarrow> 'x agent_world \<times> agent_message list" where
  "getFollowUpMessages w =
     (let a = wd_agent w
      in case drain (ac_followUpQueue a) of (ms, q) \<Rightarrow> (w\<lparr>wd_agent := a\<lparr>ac_followUpQueue := q\<rparr>\<rparr>, ms))"

text \<open>
  The environment of the loop. The answer given in place of a result after an error is a failed one without
  tool calls, so the loop then ends with the turn it is in.
\<close>

definition no_answer :: assistant_message where
  "no_answer =
     \<lparr>am_content = [], am_api = [], am_provider = [], am_model = [], am_responseModel = None, am_responseId = None,
      am_diagnostics = None, am_usage = EMPTY_USAGE, am_stopReason = StopError, am_deferred = None,
      am_errorMessage = None, am_rawStopReason = None, am_endTurn = None, am_timestamp = 0\<rparr>"

definition createLoopConfig :: "'x agent_hooks \<Rightarrow> 'x agent_world loop_env" where
  "createLoopConfig hooks =
     \<lparr>le_emit = loop_emit hooks,
      le_aborted = (\<lambda>w. ac_activeRun (wd_agent w) = Some True),
      le_now = ah_now hooks,
      le_getSteeringMessages = unless_thrown getSteeringMessages [],
      le_getFollowUpMessages = unless_thrown getFollowUpMessages [],
      le_transformContext = map_option (\<lambda>f w ms. attempted (\<lambda>w. f w ms) ms w) (ah_transformContext hooks),
      le_convertToLlm = (case ah_convertToLlm hooks of
          None \<Rightarrow> (\<lambda>w ms. (w, defaultConvertToLlm ms)) | Some f \<Rightarrow> (\<lambda>w ms. attempted (\<lambda>w. f w ms) ms w)),
      le_stream = (\<lambda>w config systemPrompt ms tools. fst (attempted (\<lambda>w. ah_stream hooks w config systemPrompt ms tools) () w)),
      le_next = attempted (ah_next hooks) None,
      le_result = attempted (ah_result hooks) no_answer,
      le_beforeToolCall = map_option (\<lambda>f w m call args context. unless_thrown (\<lambda>w. f w m call args context) (Inl []) w)
        (ah_beforeToolCall hooks),
      le_afterToolCall = map_option (\<lambda>f w m call args r isError context.
        unless_thrown (\<lambda>w. f w m call args r isError context) (Inl []) w) (ah_afterToolCall hooks),
      le_prepareNextTurn = (\<lambda>w m rs context new.
        case attempted (\<lambda>w. case ah_prepareNextTurnWithContext hooks of
                 Some f \<Rightarrow> f w m rs context new
               | None \<Rightarrow> (case ah_prepareNextTurn hooks of Some f \<Rightarrow> f w | None \<Rightarrow> (w, Inr None))) None w of
          (w1, update) \<Rightarrow> (w1, map_option loop_update update)),
      le_shouldStopAfterTurn = (\<lambda>w m rs context new.
        attempted (\<lambda>w. case ah_shouldStopAfterTurn hooks of
            Some f \<Rightarrow> f w m rs context new | None \<Rightarrow> (w, Inr False)) True w),
      le_pick = (\<lambda>w choices. unless_thrown (\<lambda>w. ah_pick hooks w choices) 0 w)\<rparr>"

definition loop_options :: "'x agent_hooks \<Rightarrow> agent \<Rightarrow> agent_config" where
  "loop_options hooks a = \<lparr>ag_model = ml_id (ac_model a),
     ag_reasoning = (if ac_thinkingLevel a = ''off'' then None else Some (ac_thinkingLevel a)),
     ag_toolExecution = Some (case ah_toolExecution hooks of None \<Rightarrow> ParallelMode | Some mode \<Rightarrow> mode)\<rparr>"

definition createContextSnapshot :: "'x agent_hooks \<Rightarrow> agent \<Rightarrow> 'x agent_world agent_context" where
  "createContextSnapshot hooks a = \<lparr>cx_systemPrompt = ac_systemPrompt a, cx_messages = ac_messages a, cx_tools = Some (ah_tools hooks)\<rparr>"

definition failure_message :: "'x agent_hooks \<Rightarrow> string \<Rightarrow> bool \<Rightarrow> 'x agent_world \<Rightarrow> assistant_message" where
  "failure_message hooks err aborted w =
     \<lparr>am_content = [TextContent [] None], am_api = ml_api (ac_model (wd_agent w)), am_provider = ml_provider (ac_model (wd_agent w)),
      am_model = ml_id (ac_model (wd_agent w)), am_responseModel = None, am_responseId = None, am_diagnostics = None,
      am_usage = EMPTY_USAGE, am_stopReason = (if aborted then StopAborted else StopError), am_deferred = None,
      am_errorMessage = Some err, am_rawStopReason = None, am_endTurn = None, am_timestamp = ah_now hooks w\<rparr>"

definition handleRunFailure :: "'x agent_hooks \<Rightarrow> string \<Rightarrow> bool \<Rightarrow> 'x agent_world \<Rightarrow> ('x, unit) attempt" where
  "handleRunFailure hooks err aborted w =
     (let m = failure_message hooks err aborted w
      in processAll hooks
           [MessageStart (AssistantMessage m), MessageEnd (AssistantMessage m), TurnEnd m [], AgentEnd [AssistantMessage m]] w)"

definition finishRun :: "agent \<Rightarrow> agent" where
  "finishRun a = a\<lparr>ac_isStreaming := False, ac_streamingMessage := None, ac_pendingToolCalls := [], ac_activeRun := None\<rparr>"

definition begin_run :: "agent \<Rightarrow> agent" where
  "begin_run a = a\<lparr>ac_activeRun := Some False, ac_isStreaming := True, ac_streamingMessage := None, ac_errorMessage := None\<rparr>"

text \<open>The executor returns the error it throws, if any, with the world it leaves behind.\<close>

definition runWithLifecycle ::
    "'x agent_hooks \<Rightarrow> ('x agent_world \<Rightarrow> (string option \<times> 'x agent_world) option) \<Rightarrow> 'x agent_world \<Rightarrow>
     (agent_error option \<times> 'x agent_world) option" where
  "runWithLifecycle hooks executor w =
     (if ac_activeRun (wd_agent w) \<noteq> None then Some (Some AlreadyProcessing, w)
      else (case executor (on_agent begin_run w) of
              None \<Rightarrow> None
            | Some (None, w1) \<Rightarrow> Some (None, on_agent finishRun w1)
            | Some (Some err, w1) \<Rightarrow>
                (case handleRunFailure hooks err (ac_activeRun (wd_agent w1) = Some True) w1 of
                   (w2, Inl e) \<Rightarrow> Some (Some (Thrown e), on_agent finishRun w2)
                 | (w2, Inr _) \<Rightarrow> Some (None, on_agent finishRun w2))))"

definition with_poll :: "bool \<Rightarrow> 'x agent_world \<Rightarrow> 'x agent_world" where
  "with_poll skip w = on_agent (\<lambda>a. a\<lparr>ac_skipInitialSteeringPoll := skip\<rparr>) w"

definition prompt_loop ::
    "'x agent_hooks \<Rightarrow> agent_message list \<Rightarrow> bool \<Rightarrow> 'x agent_world \<Rightarrow> (agent_message list \<times> 'x agent_world loop_state) option" where
  "prompt_loop hooks messages skip w =
     runAgentLoop (createLoopConfig hooks) messages (loop_context (createContextSnapshot hooks (wd_agent w)))
       (loop_options hooks (wd_agent w)) \<lparr>lp_events = [], lp_world = unthrown (with_poll skip w)\<rparr>"

definition loop_outcome :: "agent_message list \<times> 'x agent_world loop_state \<Rightarrow> string option \<times> 'x agent_world" where
  "loop_outcome result = (case result of (_, s) \<Rightarrow> (wd_thrown (lp_world s), unthrown (lp_world s)))"

definition runPromptMessages ::
    "'x agent_hooks \<Rightarrow> agent_message list \<Rightarrow> bool \<Rightarrow> 'x agent_world \<Rightarrow> (agent_error option \<times> 'x agent_world) option" where
  "runPromptMessages hooks messages skip =
     runWithLifecycle hooks (\<lambda>w. map_option loop_outcome (prompt_loop hooks messages skip w))"

definition continue_text :: "continue_error \<Rightarrow> string" where
  "continue_text e = (case e of NoMessages \<Rightarrow> ''Cannot continue: no messages in context''
     | LastMessageFromAssistant \<Rightarrow> ''Cannot continue from message role: assistant'')"

definition continue_loop ::
    "'x agent_hooks \<Rightarrow> 'x agent_world \<Rightarrow> continue_error + (agent_message list \<times> 'x agent_world loop_state) option" where
  "continue_loop hooks w =
     runAgentLoopContinue (createLoopConfig hooks) (loop_context (createContextSnapshot hooks (wd_agent w)))
       (loop_options hooks (wd_agent w)) \<lparr>lp_events = [], lp_world = unthrown (with_poll False w)\<rparr>"

definition runContinuation :: "'x agent_hooks \<Rightarrow> 'x agent_world \<Rightarrow> (agent_error option \<times> 'x agent_world) option" where
  "runContinuation hooks =
     runWithLifecycle hooks (\<lambda>w. case continue_loop hooks w of
       Inl e \<Rightarrow> Some (Some (continue_text e), with_poll False w)
     | Inr result \<Rightarrow> map_option loop_outcome result)"

datatype prompt_input = PromptText string "input_content list" | PromptMessage agent_message | PromptMessages "agent_message list"

definition normalizePromptInput :: "prompt_input \<Rightarrow> int \<Rightarrow> agent_message list" where
  "normalizePromptInput input now =
     (case input of
        PromptMessages ms \<Rightarrow> ms
      | PromptMessage m \<Rightarrow> [m]
      | PromptText text images \<Rightarrow>
          [UserMessage \<lparr>um_content = ContentBlocks (TextInput text None # images), um_timestamp = now\<rparr>])"

definition prompt :: "'x agent_hooks \<Rightarrow> prompt_input \<Rightarrow> 'x agent_world \<Rightarrow> (agent_error option \<times> 'x agent_world) option" where
  "prompt hooks input w =
     (if ac_activeRun (wd_agent w) \<noteq> None then Some (Some AlreadyProcessing, w)
      else runPromptMessages hooks (normalizePromptInput input (ah_now hooks w)) False w)"

definition continue :: "'x agent_hooks \<Rightarrow> 'x agent_world \<Rightarrow> (agent_error option \<times> 'x agent_world) option" where
  "continue hooks w =
     (let a = wd_agent w
      in if ac_activeRun a \<noteq> None then Some (Some AlreadyProcessing, w)
         else if ac_messages a = [] then Some (Some NoMessagesToContinue, w)
         else if role_of (last (ac_messages a)) = RoleAssistant
         then (case drain (ac_steeringQueue a) of (steering, q) \<Rightarrow>
                 if steering \<noteq> [] then runPromptMessages hooks steering True (w\<lparr>wd_agent := a\<lparr>ac_steeringQueue := q\<rparr>\<rparr>)
                 else (case drain (ac_followUpQueue a) of (followUps, q') \<Rightarrow>
                         if followUps \<noteq> [] then runPromptMessages hooks followUps False (w\<lparr>wd_agent := a\<lparr>ac_followUpQueue := q'\<rparr>\<rparr>)
                         else Some (Some CannotContinueFromAssistant, w)))
         else runContinuation hooks w)"

section \<open>What a run does to its world\<close>



section \<open>Hooks that leave the transcript alone\<close>

text \<open>
  The agent owns its transcript: the code around a run neither assigns it nor ends the run. It may queue
  messages, abort, change the outer world, or throw.
\<close>

definition hands_off :: "'x agent_world \<Rightarrow> 'x agent_world \<Rightarrow> bool" where
  "hands_off w w' \<longleftrightarrow> ac_messages (wd_agent w') = ac_messages (wd_agent w) \<and>
     (ac_activeRun (wd_agent w') = None \<longleftrightarrow> ac_activeRun (wd_agent w) = None)"





lemma hands_off_refl [simp]: "hands_off w w"
  by (simp add: hands_off_def)


lemma hands_off_run [simp]:
  "hands_off w (throw err w') = hands_off w w'" "hands_off w (w'\<lparr>wd_rejected := rs\<rparr>) = hands_off w w'"
  "hands_off w (await_updates i w') = hands_off w w'"
  by (simp_all add: hands_off_def throw_def await_updates_def split: option.splits)

lemma queueing_hands_off:
  "hands_off w (on_agent (steer m) w)" "hands_off w (on_agent (followUp m) w)" "hands_off w (on_agent abort w)"
  "hands_off w (on_agent clearAllQueues w)" "hands_off w (on_agent (set_steeringMode mode) w)"
  "hands_off w (on_agent (set_followUpMode mode) w)"
  by (simp_all add: hands_off_def steer_def followUp_def abort_def clearAllQueues_def clearFollowUpQueue_def
      clearSteeringQueue_def set_steeringMode_def set_followUpMode_def)




















section \<open>Runs of the agent\<close>

definition idle :: "agent \<Rightarrow> bool" where
  "idle a \<longleftrightarrow> ac_activeRun a = None \<and> \<not> ac_isStreaming a \<and> ac_streamingMessage a = None \<and> ac_pendingToolCalls a = []"


lemma idle_finishRun [simp]: "idle (finishRun a)" "ac_messages (finishRun a) = ac_messages a"
  by (simp_all add: idle_def finishRun_def)

lemma unthrown_agent [simp]: "wd_agent (unthrown w) = wd_agent w" "wd_thrown (unthrown w) = None"
  by (simp_all add: unthrown_def)

















lemma nested_calls_refused:
  assumes "ac_activeRun (wd_agent w) \<noteq> None"
  shows "prompt hooks input w = Some (Some AlreadyProcessing, w)" "continue hooks w = Some (Some AlreadyProcessing, w)"
    "reset (wd_agent w) = Inl AlreadyProcessing"
  using assms by (auto simp: prompt_def continue_def reset_def Let_def)

section \<open>Properties\<close>




section \<open>An agent with one answer to give\<close>




























end
