(* ===== verification/Server.thy ===== *)
theory Server
  imports Protocol_Codec Session_Types
begin

text \<open>
  The server, \<^verbatim>\<open>packages/server/src\<close>: connections and their handshake (\<^verbatim>\<open>server.ts\<close>), live sessions shared by
  connections (\<^verbatim>\<open>sessions.ts\<close>) and broadcast server snapshots (\<^verbatim>\<open>snapshots.ts\<close>). The code between two
  awaits is one step; what waits is a task with its program point, and the tasks whose promise has
  settled may go on in any order. The service, the runtimes of the sessions, the transports and the
  timer are the environment: it returns from calls with a value or an error, delivers messages and
  events, and changes the phase of a runtime. What the server does to the outside is logged.
\<close>

section \<open>Protocol data\<close>

datatype session_phase = PhaseIdle | PhaseTurn | PhaseCompaction | PhaseBranchSummary | PhaseRetry

record session_snapshot =
  sn_id :: ident
  sn_name :: "string option"
  sn_cwd :: string
  sn_createdAt :: int
  sn_updatedAt :: int
  sn_phase :: session_phase
  sn_attached :: bool
  sn_locked :: bool
  sn_revision :: nat
  sn_content :: json \<comment> \<open>model, thinking level, transcript and queue, which the server passes on\<close>

record protocol_metadata =
  md_id :: ident
  md_createdAt :: int
  md_updatedAt :: "int option"
  md_parentSessionId :: "ident option"
  md_sessionName :: "string option"
  md_cwd :: "string option"

record server_snapshot =
  vs_revision :: nat
  vs_sessions :: "protocol_metadata list"
  vs_models :: "json list"

record session_options =
  so_cwd :: "string option"
  so_name :: "string option"
  so_model :: "json option"
  so_thinkingLevel :: "string option"

datatype runtime_op = PromptOp string | SteerOp string | AbortOp | SetModelOp json | SetThinkingOp string

datatype command = ListCommand
  | CreateCommand session_options
  | AttachCommand ident
  | DetachCommand ident
  | RuntimeCommand ident runtime_op

datatype command_result = ListResult "protocol_metadata list"
  | CreateResult session_snapshot
  | AttachResult session_snapshot
  | DetachResult ident
  | RuntimeResult runtime_op session_snapshot

datatype error_code = VersionMismatch | Busy | SessionLocked | NotFound | InvalidRequest | NotImplemented | InternalError

datatype thrown = PiError error_code | InvalidMessage | OtherThrown

datatype client_message = Hello js_number | Request ident command

datatype server_message = ServerHello server_snapshot
  | HelloError error_code
  | ResponseOk ident command_result
  | ResponseError ident error_code
  | ServerSnapshotEvent server_snapshot
  | SessionSnapshotEvent session_snapshot
  | SessionProgressEvent ident json
  | SessionRemovedEvent ident

definition toProtocolError :: "thrown \<Rightarrow> error_code" where
  "toProtocolError e = (case e of PiError code \<Rightarrow> code | InvalidMessage \<Rightarrow> InvalidRequest | OtherThrown \<Rightarrow> InternalError)"

section \<open>State\<close>

datatype stage = AwaitingHello | Handshaking | Ready | Closing | Closed

record connection =
  cn_stage :: stage
  cn_disconnected :: bool
  cn_handshakeComplete :: bool
  cn_handshake :: bool \<comment> \<open>the promise of the handshake has settled\<close>
  cn_timer :: bool
  cn_sessionIds :: "ident list"
  cn_closed :: bool \<comment> \<open>the transport is closed\<close>
  cn_closeCalled :: bool

datatype disposal = DisposePending | DisposeDone | DisposeFailed thrown

record live_session =
  lv_id :: ident
  lv_connections :: "nat list"
  lv_subscribed :: bool
  lv_operationCount :: int
  lv_ready :: bool
  lv_terminal :: bool
  lv_disposing :: "disposal option"
  lv_phase :: session_phase \<comment> \<open>the phase of the runtime\<close>

datatype open_promise = OpenPending | OpenResolved nat | OpenRejected thrown

datatype observation = Requested nat ident
  | Sent nat server_message
  | CloseCalled nat "server_message option"
  | Started nat runtime_op
  | Disposed nat

record client_request =
  rq_conn :: nat
  rq_id :: ident
  rq_command :: command

datatype listing_for = ListFor client_request
  | BroadcastFor nat nat "nat list" "json list"
  | HelloFor nat nat bool \<comment> \<open>connection, revision, whether hello was sent before\<close>

datatype snapshot_for = ForSession client_request | ForOperation client_request | ForDetach client_request ident | ForEvent

datatype send_for = PlainSend | HelloSend nat | RefreshSend

datatype dispose_wait = NoWait | WaitOnly | Starter

text \<open>The program points at which tasks wait: of a request, of a session being opened, of data on its way
  to a request, an event or a snapshot, of a connection, and of the server itself.\<close>

datatype request_point = Queued
  | WaitDisposing ident "session_options option" nat
  | WaitOpening ident nat bool
  | Acquired nat
  | AttachRefused nat dispose_wait
  | Attached nat
  | Operating nat
  | OperationFailed nat thrown
  | Detaching ident nat dispose_wait
  | Respond "thrown + command_result"

datatype opening_point = OpeningRuntime ident "session_options option"
  | OpeningAborted
  | OpeningSnapshot ident nat
  | OpeningFailed thrown

datatype data_point = Listing listing_for
  | ListingLive listing_for "protocol_metadata list" "nat list"
  | Snapping snapshot_for nat
  | Normalized snapshot_for nat session_snapshot
  | Broadcasted snapshot_for nat session_snapshot

datatype transport_point = Disconnecting bool "nat list"
  | Sending send_for
  | SendFailed send_for
  | FailClosing
  | HelloModels nat bool "protocol_metadata list"

datatype server_point = Disposing nat
  | Terminating nat "nat list"
  | TerminatingDisconnects nat
  | BroadcastWaiting nat
  | BroadcastModels nat nat "nat list"
  | BroadcastSend nat server_snapshot "nat list"
  | ClosingListeners
  | ClosingConnections "nat list"
  | ClosingDisconnects
  | ClosingOpenings "nat list"

datatype point = Serve client_request request_point
  | OpenSession nat opening_point
  | Carry data_point
  | Transport nat transport_point
  | Background server_point

record server =
  sv_closing :: bool
  sv_encodable :: "server_message \<Rightarrow> bool" \<comment> \<open>what encodeServerMessage accepts\<close>
  sv_uuid :: "nat \<Rightarrow> ident" \<comment> \<open>randomUUID\<close>
  sv_connections :: "nat list"
  sv_conns :: "nat \<Rightarrow> connection option"
  sv_liveSessions :: "(ident, nat) js_map"
  sv_lives :: "nat \<Rightarrow> live_session option"
  sv_openingSessions :: "(ident, nat) js_map"
  sv_openings :: "nat \<Rightarrow> open_promise option"
  sv_revision :: nat
  sv_broadcasts :: nat
  sv_broadcastsDone :: nat
  sv_tasks :: "(nat \<times> point) list"
  sv_next :: nat
  sv_log :: "observation list"

definition new_server :: "(server_message \<Rightarrow> bool) \<Rightarrow> (nat \<Rightarrow> ident) \<Rightarrow> server" where
  "new_server encodable uuid = \<lparr>sv_closing = False, sv_encodable = encodable, sv_uuid = uuid, sv_connections = [], sv_conns = (\<lambda>_. None),
     sv_liveSessions = [], sv_lives = (\<lambda>_. None), sv_openingSessions = [], sv_openings = (\<lambda>_. None),
     sv_revision = 0, sv_broadcasts = 0, sv_broadcastsDone = 0, sv_tasks = [], sv_next = 0, sv_log = []\<rparr>"

definition spawn :: "point \<Rightarrow> server \<Rightarrow> server" where
  "spawn p s = s\<lparr>sv_tasks := sv_tasks s @ [(sv_next s, p)], sv_next := Suc (sv_next s)\<rparr>"

definition observe :: "observation \<Rightarrow> server \<Rightarrow> server" where
  "observe e s = s\<lparr>sv_log := sv_log s @ [e]\<rparr>"

definition set_conn :: "nat \<Rightarrow> (connection \<Rightarrow> connection) \<Rightarrow> server \<Rightarrow> server" where
  "set_conn c f s = s\<lparr>sv_conns := (sv_conns s)(c := map_option f (sv_conns s c))\<rparr>"

definition set_live :: "nat \<Rightarrow> (live_session \<Rightarrow> live_session) \<Rightarrow> server \<Rightarrow> server" where
  "set_live r f s = s\<lparr>sv_lives := (sv_lives s)(r := map_option f (sv_lives s r))\<rparr>"

definition settle_opening :: "nat \<Rightarrow> open_promise \<Rightarrow> server \<Rightarrow> server" where
  "settle_opening p result s = s\<lparr>sv_openings := (sv_openings s)(p \<mapsto> result)\<rparr>"

definition add_new :: "'a \<Rightarrow> 'a list \<Rightarrow> 'a list" where
  "add_new x xs = (if x \<in> set xs then xs else xs @ [x])"

definition closing_transport :: "nat \<Rightarrow> server_message option \<Rightarrow> server \<Rightarrow> server" where
  "closing_transport c final s = observe (CloseCalled c final) (set_conn c (\<lambda>n. n\<lparr>cn_closeCalled := True\<rparr>) s)"

section \<open>Snapshots, disposal and messages\<close>

definition broadcast :: "server \<Rightarrow> server" where
  "broadcast s = spawn (Background (BroadcastWaiting (sv_broadcasts s))) (s\<lparr>sv_broadcasts := Suc (sv_broadcasts s)\<rparr>)"

definition must_stay :: "server \<Rightarrow> live_session \<Rightarrow> bool" where
  "must_stay s live \<longleftrightarrow> sv_closing s \<or> \<not> lv_ready live \<or> lv_disposing live \<noteq> None \<or> lv_connections live \<noteq> [] \<or>
     0 < lv_operationCount live \<or> (\<not> lv_terminal live \<and> lv_phase live \<noteq> PhaseIdle)"

definition maybeDispose :: "nat \<Rightarrow> server \<Rightarrow> dispose_wait \<times> server" where
  "maybeDispose r s =
     (case sv_lives s r of
        None \<Rightarrow> (NoWait, s)
      | Some live \<Rightarrow>
          if must_stay s live then (if lv_disposing live = None then NoWait else WaitOnly, s)
          else (Starter, observe (Disposed r)
                  (set_live r (\<lambda>l. l\<lparr>lv_subscribed := False, lv_disposing := Some DisposePending\<rparr>) s)))"

definition scheduleMaybeDispose :: "nat \<Rightarrow> server \<Rightarrow> server" where
  "scheduleMaybeDispose r s =
     (case maybeDispose r s of (w, s') \<Rightarrow> if w = Starter then spawn (Background (Disposing r)) s' else s')"

text \<open>Whether the promise a caller of \<open>maybeDispose\<close> awaits has settled, and the error it then throws.\<close>

definition dispose_settled :: "server \<Rightarrow> nat \<Rightarrow> dispose_wait \<Rightarrow> bool" where
  "dispose_settled s r w \<longleftrightarrow> w = NoWait \<or>
     (case sv_lives s r of None \<Rightarrow> True | Some live \<Rightarrow> lv_disposing live \<noteq> Some DisposePending)"

definition dispose_error :: "server \<Rightarrow> nat \<Rightarrow> dispose_wait \<Rightarrow> thrown option" where
  "dispose_error s r w =
     (if w = NoWait then None
      else (case sv_lives s r of
              None \<Rightarrow> None
            | Some live \<Rightarrow> (case lv_disposing live of Some (DisposeFailed e) \<Rightarrow> Some e | _ \<Rightarrow> None)))"

definition after_dispose :: "nat \<Rightarrow> dispose_wait \<Rightarrow> server \<Rightarrow> server" where
  "after_dispose r w s =
     (if w = Starter \<and> dispose_error s r w = None \<and> \<not> sv_closing s then broadcast s else s)"

fun dispose_each :: "nat list \<Rightarrow> server \<Rightarrow> nat list \<times> server" where
  "dispose_each [] s = ([], s)"
| "dispose_each (r # rs) s =
     (case maybeDispose r s of
        (w, s1) \<Rightarrow>
          (case dispose_each rs (if w = Starter then spawn (Background (Disposing r)) s1 else s1) of
             (ws, s2) \<Rightarrow> (if w = NoWait then ws else r # ws, s2)))"

definition disconnect :: "nat \<Rightarrow> server \<Rightarrow> server" where
  "disconnect c s =
     (case sv_conns s c of
        None \<Rightarrow> s
      | Some cn \<Rightarrow>
          if cn_disconnected cn then s
          else
            (let rs = List.map_filter (map_get (sv_liveSessions s)) (cn_sessionIds cn);
                 s1 = set_conn c (\<lambda>n. n\<lparr>cn_disconnected := True, cn_stage := Closed, cn_timer := False, cn_sessionIds := []\<rparr>)
                        (s\<lparr>sv_connections := removeAll c (sv_connections s)\<rparr>);
                 s2 = fold (\<lambda>r. set_live r (\<lambda>l. l\<lparr>lv_connections := removeAll c (lv_connections l)\<rparr>)) rs s1
             in case dispose_each rs s2 of
                  (waiting, s3) \<Rightarrow> spawn (Transport c (Disconnecting (cn_handshakeComplete cn) waiting)) s3))"

definition finish_handshake :: "nat \<Rightarrow> server \<Rightarrow> server" where
  "finish_handshake c = set_conn c (\<lambda>n. n\<lparr>cn_handshake := True\<rparr>)"

definition sendMessage :: "send_for \<Rightarrow> nat \<Rightarrow> server_message \<Rightarrow> server \<Rightarrow> server" where
  "sendMessage k c m s =
     (case sv_conns s c of
        None \<Rightarrow> s
      | Some cn \<Rightarrow>
          if cn_disconnected cn \<or> cn_closed cn then (if k = PlainSend then s else finish_handshake c s)
          else if sv_encodable s m then spawn (Transport c (Sending k)) (observe (Sent c m) s)
          else spawn (Transport c (SendFailed k)) (closing_transport c None s))"

definition failProtocol :: "nat \<Rightarrow> error_code \<Rightarrow> server \<Rightarrow> server" where
  "failProtocol c code s =
     (case sv_conns s c of
        None \<Rightarrow> s
      | Some cn \<Rightarrow>
          if cn_disconnected cn \<or> cn_stage cn = Closing \<or> cn_stage cn = Closed then s
          else spawn (Transport c FailClosing)
                 (closing_transport c (if sv_encodable s (HelloError code) then Some (HelloError code) else None)
                    (set_conn c (\<lambda>n. n\<lparr>cn_stage := Closing, cn_timer := False\<rparr>) s)))"

definition toMetadata :: "session_snapshot \<Rightarrow> protocol_metadata" where
  "toMetadata sn = \<lparr>md_id = sn_id sn, md_createdAt = sn_createdAt sn, md_updatedAt = Some (sn_updatedAt sn),
     md_parentSessionId = None, md_sessionName = sn_name sn, md_cwd = Some (sn_cwd sn)\<rparr>"

fun merge_stored ::
    "protocol_metadata list \<Rightarrow> (ident, session_snapshot) js_map \<Rightarrow> protocol_metadata list \<times> (ident, session_snapshot) js_map" where
  "merge_stored [] liveById = ([], liveById)"
| "merge_stored (item # stored) liveById =
     (case map_get liveById (md_id item) of
        None \<Rightarrow> (case merge_stored stored liveById of (ms, rest) \<Rightarrow> (item # ms, rest))
      | Some sn \<Rightarrow>
          (case merge_stored stored (map_remove liveById (md_id item)) of
             (ms, rest) \<Rightarrow> ((toMetadata sn)\<lparr>md_parentSessionId := md_parentSessionId item\<rparr> # ms, rest)))"

definition merge_metadata :: "protocol_metadata list \<Rightarrow> (ident \<times> session_snapshot) list \<Rightarrow> protocol_metadata list" where
  "merge_metadata stored snapshots =
     (case merge_stored stored (fold (\<lambda>(i, sn) m. map_set m i sn) snapshots []) of
        (ms, rest) \<Rightarrow> ms @ map toMetadata (map_values rest))"


definition broadcast_finished :: "server \<Rightarrow> server" where
  "broadcast_finished s = s\<lparr>sv_broadcastsDone := Suc (sv_broadcastsDone s)\<rparr>"

definition list_failed :: "listing_for \<Rightarrow> thrown \<Rightarrow> server \<Rightarrow> server" where
  "list_failed k e s =
     (case k of
        ListFor rq \<Rightarrow> spawn (Serve rq (Respond (Inl e))) s
      | BroadcastFor n revision cs models \<Rightarrow> broadcast_finished s
      | HelloFor c revision refresh \<Rightarrow> finish_handshake c (failProtocol c (toProtocolError e) s))"

definition list_done :: "listing_for \<Rightarrow> protocol_metadata list \<Rightarrow> server \<Rightarrow> server" where
  "list_done k sessions s =
     (case k of
        ListFor rq \<Rightarrow> spawn (Serve rq (Respond (Inr (ListResult sessions)))) s
      | BroadcastFor n revision cs models \<Rightarrow>
          spawn (Background (BroadcastSend n \<lparr>vs_revision = revision, vs_sessions = sessions, vs_models = models\<rparr> cs)) s
      | HelloFor c revision refresh \<Rightarrow> spawn (Transport c (HelloModels revision refresh sessions)) s)"

text \<open>The identifier check of \<open>normalizedSnapshot\<close>, which also runs for every listed live session.\<close>

definition same_ids :: "server \<Rightarrow> nat list \<Rightarrow> session_snapshot list \<Rightarrow> bool" where
  "same_ids s rs snapshots \<longleftrightarrow>
     list_all2 (\<lambda>r sn. case sv_lives s r of None \<Rightarrow> True | Some live \<Rightarrow> sn_id sn = lv_id live) rs snapshots"

section \<open>Commands\<close>

definition acquire :: "client_request \<Rightarrow> ident \<Rightarrow> session_options option \<Rightarrow> server \<Rightarrow> server" where
  "acquire rq sid options s =
     (case map_get (sv_liveSessions s) sid of
        Some r \<Rightarrow>
          (case sv_lives s r of
             None \<Rightarrow> spawn (Serve rq (Respond (Inl OtherThrown))) s
           | Some live \<Rightarrow>
               if lv_terminal live then spawn (Serve rq (Respond (Inl (PiError SessionLocked)))) s
               else if lv_disposing live \<noteq> None then spawn (Serve rq (WaitDisposing sid options r)) s
               else spawn (Serve rq (Acquired r)) s)
      | None \<Rightarrow>
          (case map_get (sv_openingSessions s) sid of
             Some p \<Rightarrow> spawn (Serve rq (WaitOpening sid p False)) s
           | None \<Rightarrow>
               (let p = sv_next s
                in spawn (Serve rq (WaitOpening sid p True)) (spawn (OpenSession p (OpeningRuntime sid options))
                     (settle_opening p OpenPending
                        (s\<lparr>sv_openingSessions := map_set (sv_openingSessions s) sid p\<rparr>))))))"

definition attach :: "client_request \<Rightarrow> nat \<Rightarrow> server \<Rightarrow> server" where
  "attach rq r s =
     (case (sv_conns s (rq_conn rq), sv_lives s r) of
        (Some cn, Some live) \<Rightarrow>
          if cn_disconnected cn \<or> cn_stage cn \<noteq> Ready \<or> cn_closed cn
          then (case maybeDispose r s of (w, s') \<Rightarrow> spawn (Serve rq (AttachRefused r w)) s')
          else spawn (Serve rq (Attached r))
                 (set_live r (\<lambda>l. l\<lparr>lv_connections := add_new (rq_conn rq) (lv_connections l)\<rparr>)
                    (set_conn (rq_conn rq) (\<lambda>n. n\<lparr>cn_sessionIds := add_new (lv_id live) (cn_sessionIds n)\<rparr>) s))
      | _ \<Rightarrow> spawn (Serve rq (Respond (Inl OtherThrown))) s)"

definition requireAttached :: "nat \<Rightarrow> ident \<Rightarrow> server \<Rightarrow> thrown + nat" where
  "requireAttached c sid s =
     (case sv_conns s c of
        None \<Rightarrow> Inl (PiError InvalidRequest)
      | Some cn \<Rightarrow>
          if sid \<notin> set (cn_sessionIds cn) then Inl (PiError InvalidRequest)
          else (case map_get (sv_liveSessions s) sid of
                  None \<Rightarrow> Inl (PiError NotFound)
                | Some r \<Rightarrow>
                    (case sv_lives s r of
                       None \<Rightarrow> Inl (PiError NotFound)
                     | Some live \<Rightarrow>
                         if lv_terminal live \<or> lv_disposing live \<noteq> None then Inl (PiError NotFound) else Inr r)))"

definition runOperation :: "client_request \<Rightarrow> nat \<Rightarrow> runtime_op \<Rightarrow> server \<Rightarrow> server" where
  "runOperation rq r op s =
     spawn (Serve rq (Operating r)) (observe (Started r op)
       (set_live r (\<lambda>l. l\<lparr>lv_operationCount := lv_operationCount l + 1\<rparr>) s))"

definition detach :: "client_request \<Rightarrow> ident \<Rightarrow> server \<Rightarrow> server" where
  "detach rq sid s =
     (let c = rq_conn rq; finished = (\<lambda>s. spawn (Serve rq (Respond (Inr (DetachResult sid)))) s)
      in case sv_conns s c of
           None \<Rightarrow> finished s
         | Some cn \<Rightarrow>
             if sid \<notin> set (cn_sessionIds cn) then finished s
             else
               (let s1 = set_conn c (\<lambda>n. n\<lparr>cn_sessionIds := removeAll sid (cn_sessionIds n)\<rparr>) s
                in case map_get (sv_liveSessions s) sid of
                     None \<Rightarrow> finished (broadcast s1)
                   | Some r \<Rightarrow>
                       (let s2 = set_live r (\<lambda>l. l\<lparr>lv_connections := removeAll c (lv_connections l)\<rparr>) s1
                        in case sv_lives s2 r of
                             Some live \<Rightarrow>
                               if lv_connections live \<noteq> [] \<and> \<not> lv_terminal live \<and> lv_disposing live = None
                               then spawn (Carry (Snapping (ForDetach rq sid) r)) s2
                               else (case maybeDispose r s2 of (w, s3) \<Rightarrow> spawn (Serve rq (Detaching sid r w)) s3)
                           | None \<Rightarrow> spawn (Serve rq (Detaching sid r NoWait)) s2)))"

definition executeCommand :: "client_request \<Rightarrow> server \<Rightarrow> server" where
  "executeCommand rq s =
     (case rq_command rq of
        ListCommand \<Rightarrow> spawn (Carry (Listing (ListFor rq))) s
      | CreateCommand options \<Rightarrow> acquire rq (sv_uuid s (sv_next s)) (Some options) s
      | AttachCommand sid \<Rightarrow> acquire rq sid None s
      | DetachCommand sid \<Rightarrow> detach rq sid s
      | RuntimeCommand sid op \<Rightarrow>
          (case requireAttached (rq_conn rq) sid s of
             Inl e \<Rightarrow> spawn (Serve rq (Respond (Inl e))) s
           | Inr r \<Rightarrow> runOperation rq r op s))"

text \<open>The \<open>finally\<close> block of \<open>runOperation\<close>.\<close>

definition end_operation :: "nat \<Rightarrow> server \<Rightarrow> server" where
  "end_operation r s =
     scheduleMaybeDispose r (set_live r (\<lambda>l. l\<lparr>lv_operationCount := lv_operationCount l - 1\<rparr>) s)"

definition snapshot_failed :: "snapshot_for \<Rightarrow> nat \<Rightarrow> thrown \<Rightarrow> server \<Rightarrow> server" where
  "snapshot_failed k r e s =
     (case k of
        ForSession rq \<Rightarrow> spawn (Serve rq (Respond (Inl e))) s
      | ForOperation rq \<Rightarrow> spawn (Serve rq (OperationFailed r e)) s
      | ForDetach rq sid \<Rightarrow> spawn (Serve rq (Respond (Inl e))) s
      | ForEvent \<Rightarrow> s)"

definition forConnection :: "server \<Rightarrow> nat \<Rightarrow> session_snapshot \<Rightarrow> session_snapshot" where
  "forConnection s c sn = sn\<lparr>sn_attached :=
     (case sv_conns s c of None \<Rightarrow> False | Some cn \<Rightarrow> sn_id sn \<in> set (cn_sessionIds cn))\<rparr>"

definition command_session :: "command \<Rightarrow> session_snapshot \<Rightarrow> command_result" where
  "command_session cmd sn =
     (case cmd of
        CreateCommand _ \<Rightarrow> CreateResult sn
      | RuntimeCommand _ op \<Rightarrow> RuntimeResult op sn
      | _ \<Rightarrow> AttachResult sn)"

definition after_broadcast :: "snapshot_for \<Rightarrow> nat \<Rightarrow> session_snapshot \<Rightarrow> server \<Rightarrow> server" where
  "after_broadcast k r sn s =
     (case k of
        ForSession rq \<Rightarrow>
          spawn (Serve rq (Respond (Inr (command_session (rq_command rq) (forConnection s (rq_conn rq) sn))))) (broadcast s)
      | ForOperation rq \<Rightarrow>
          spawn (Serve rq (Respond (Inr (command_session (rq_command rq) (forConnection s (rq_conn rq) sn))))) (end_operation r s)
      | ForDetach rq sid \<Rightarrow> (case maybeDispose r s of (w, s') \<Rightarrow> spawn (Serve rq (Detaching sid r w)) s')
      | ForEvent \<Rightarrow> s)"

definition respond :: "client_request \<Rightarrow> thrown + command_result \<Rightarrow> server \<Rightarrow> server" where
  "respond rq result =
     sendMessage PlainSend (rq_conn rq)
       (case result of Inl e \<Rightarrow> ResponseError (rq_id rq) (toProtocolError e) | Inr v \<Rightarrow> ResponseOk (rq_id rq) v)"

section \<open>Messages of a client\<close>

definition finishHandshake :: "nat \<Rightarrow> js_number \<Rightarrow> server \<Rightarrow> server" where
  "finishHandshake c version s =
     (if isSupportedProtocolVersion version then spawn (Carry (Listing (HelloFor c (sv_revision s) False))) s
      else finish_handshake c (failProtocol c VersionMismatch s))"

definition dispatchMessage :: "nat \<Rightarrow> client_message \<Rightarrow> server \<Rightarrow> server" where
  "dispatchMessage c m s =
     (case sv_conns s c of
        None \<Rightarrow> s
      | Some cn \<Rightarrow>
          if cn_stage cn = AwaitingHello
          then (case m of
                  Hello version \<Rightarrow> finishHandshake c version (set_conn c (\<lambda>n. n\<lparr>cn_stage := Handshaking\<rparr>) s)
                | Request _ _ \<Rightarrow> failProtocol c InvalidRequest s)
          else (case m of
                  Hello _ \<Rightarrow> failProtocol c InvalidRequest s
                | Request i cmd \<Rightarrow>
                    (let rq = \<lparr>rq_conn = c, rq_id = i, rq_command = cmd\<rparr>
                     in if cn_stage cn = Ready then executeCommand rq (observe (Requested c i) s)
                        else if cn_stage cn = Handshaking then spawn (Serve rq Queued) (observe (Requested c i) s)
                        else s)))"

definition isTerminalConnection :: "connection \<Rightarrow> bool" where
  "isTerminalConnection cn \<longleftrightarrow> cn_disconnected cn \<or> cn_stage cn = Closing \<or> cn_stage cn = Closed"

fun dispatch_all :: "nat \<Rightarrow> client_message list \<Rightarrow> server \<Rightarrow> server" where
  "dispatch_all c [] s = s"
| "dispatch_all c (m # ms) s =
     (case sv_conns s c of
        None \<Rightarrow> s
      | Some cn \<Rightarrow> if isTerminalConnection cn then s else dispatch_all c ms (dispatchMessage c m s))"

text \<open>\<open>Inl\<close>: the decoder threw.\<close>

definition receive :: "nat \<Rightarrow> thrown + client_message list \<Rightarrow> server \<Rightarrow> server" where
  "receive c decoded s =
     (case sv_conns s c of
        None \<Rightarrow> s
      | Some cn \<Rightarrow>
          if isTerminalConnection cn then s
          else (case decoded of
                  Inl e \<Rightarrow> failProtocol c (toProtocolError e) s
                | Inr ms \<Rightarrow> dispatch_all c ms s))"

definition accept :: "server \<Rightarrow> server" where
  "accept s =
     (let c = sv_next s
      in if sv_closing s then observe (CloseCalled c None) (s\<lparr>sv_next := Suc c\<rparr>)
         else s\<lparr>sv_next := Suc c, sv_connections := sv_connections s @ [c],
                sv_conns := (sv_conns s)(c \<mapsto> \<lparr>cn_stage = AwaitingHello, cn_disconnected = False,
                  cn_handshakeComplete = False, cn_handshake = False, cn_timer = True, cn_sessionIds = [],
                  cn_closed = False, cn_closeCalled = False\<rparr>)\<rparr>)"

section \<open>Events of a runtime\<close>

datatype runtime_event = SnapshotChanged | Progress json | RuntimeError thrown

definition send_each :: "server_message \<Rightarrow> nat list \<Rightarrow> server \<Rightarrow> server" where
  "send_each m cs = fold (\<lambda>c. sendMessage PlainSend c m) cs"

definition terminate :: "nat \<Rightarrow> server \<Rightarrow> server" where
  "terminate r s =
     (case sv_lives s r of
        None \<Rightarrow> s
      | Some live \<Rightarrow>
          if lv_terminal live then s
          else spawn (Background (Terminating r (lv_connections live)))
                 (fold (\<lambda>c. closing_transport c None) (lv_connections live)
                    (set_live r (\<lambda>l. l\<lparr>lv_terminal := True, lv_subscribed := False\<rparr>) s)))"

definition handleRuntimeEvent :: "nat \<Rightarrow> runtime_event \<Rightarrow> server \<Rightarrow> server" where
  "handleRuntimeEvent r e s =
     (case sv_lives s r of
        None \<Rightarrow> s
      | Some live \<Rightarrow>
          (case e of
             RuntimeError _ \<Rightarrow> terminate r s
           | Progress p \<Rightarrow>
               scheduleMaybeDispose r (send_each (SessionProgressEvent (lv_id live) p) (lv_connections live) s)
           | SnapshotChanged \<Rightarrow> scheduleMaybeDispose r (spawn (Carry (Snapping ForEvent r)) s)))"


section \<open>Steps\<close>

text \<open>What an awaited promise settles with.\<close>

datatype reply = Go
  | Fail thrown
  | GotRuntime
  | GotSnapshot session_snapshot
  | GotSnapshots "session_snapshot list"
  | GotStored "protocol_metadata list"
  | GotModels "json list"
  | SubscribeFails session_snapshot thrown

definition opening_failed :: "nat \<Rightarrow> nat \<Rightarrow> thrown \<Rightarrow> server \<Rightarrow> server" where
  "opening_failed p r e s = spawn (OpenSession p (OpeningFailed e)) (observe (Disposed r) s)"

definition register_live :: "nat \<Rightarrow> ident \<Rightarrow> nat \<Rightarrow> server \<Rightarrow> server" where
  "register_live p sid r s =
     settle_opening p (OpenResolved r)
       (s\<lparr>sv_liveSessions := map_set (sv_liveSessions s) sid r,
          sv_lives := (sv_lives s)(r \<mapsto> \<lparr>lv_id = sid, lv_connections = [], lv_subscribed = True, lv_operationCount = 0,
            lv_ready = True, lv_terminal = False, lv_disposing = None, lv_phase = PhaseIdle\<rparr>)\<rparr>)"

definition normalized :: "live_session \<Rightarrow> session_snapshot \<Rightarrow> session_snapshot" where
  "normalized live sn = sn\<lparr>sn_phase := lv_phase live, sn_attached := (lv_connections live \<noteq> []), sn_locked := True\<rparr>"

definition resume_hello :: "nat \<Rightarrow> nat \<Rightarrow> bool \<Rightarrow> server_snapshot \<Rightarrow> server \<Rightarrow> server" where
  "resume_hello c revision refresh snapshot s =
     (case sv_conns s c of
        None \<Rightarrow> s
      | Some cn \<Rightarrow>
          if refresh then sendMessage RefreshSend c (ServerSnapshotEvent snapshot) s
          else if sv_closing s \<or> cn_disconnected cn \<or> cn_stage cn \<noteq> Handshaking \<or> cn_closed cn
          then finish_handshake c s
          else sendMessage (HelloSend revision) c (ServerHello snapshot) s)"

definition sent :: "send_for \<Rightarrow> nat \<Rightarrow> server \<Rightarrow> server" where
  "sent k c s =
     (case k of
        PlainSend \<Rightarrow> s
      | RefreshSend \<Rightarrow> finish_handshake c s
      | HelloSend revision \<Rightarrow>
          (case sv_conns s c of
             None \<Rightarrow> s
           | Some cn \<Rightarrow>
               if \<not> cn_disconnected cn \<and> cn_stage cn = Handshaking
               then
                 (let s1 = set_conn c (\<lambda>n. n\<lparr>cn_handshakeComplete := True, cn_stage := Ready, cn_timer := False\<rparr>) s
                  in if revision \<noteq> sv_revision s then spawn (Carry (Listing (HelloFor c (sv_revision s) True))) s1
                     else finish_handshake c s1)
               else finish_handshake c s))"

definition performBroadcast :: "nat \<Rightarrow> server \<Rightarrow> server" where
  "performBroadcast n s =
     (let cs = filter (\<lambda>c. case sv_conns s c of None \<Rightarrow> False
            | Some cn \<Rightarrow> cn_stage cn = Ready \<and> \<not> cn_disconnected cn) (sv_connections s)
      in if cs = [] \<or> sv_closing s then broadcast_finished s
         else spawn (Background (BroadcastModels n (Suc (sv_revision s)) cs)) (s\<lparr>sv_revision := Suc (sv_revision s)\<rparr>))"

definition not_disposing :: "server \<Rightarrow> nat list" where
  "not_disposing s = filter (\<lambda>r. case sv_lives s r of None \<Rightarrow> False | Some live \<Rightarrow> lv_disposing live = None)
     (map_values (sv_liveSessions s))"

definition close_sessions :: "server \<Rightarrow> server" where
  "close_sessions s =
     (let rs = not_disposing s
      in fold (\<lambda>r s. observe (Disposed r) (set_live r (\<lambda>l. l\<lparr>lv_subscribed := False\<rparr>) s)) rs
           (s\<lparr>sv_liveSessions := []\<rparr>))"

definition close_connections :: "server \<Rightarrow> server" where
  "close_connections s =
     (let cs = sv_connections s
      in spawn (Background (ClosingConnections cs))
           (fold (\<lambda>c. closing_transport c None) cs
              (fold (\<lambda>c. set_conn c (\<lambda>n. n\<lparr>cn_stage := Closing, cn_timer := False\<rparr>)) cs s)))"

text \<open>A task goes on from its point; \<open>None\<close> when what it awaits has not settled, or not in this way.\<close>

definition on_go :: "reply \<Rightarrow> bool \<Rightarrow> server \<Rightarrow> server option" where
  "on_go reply settled s = (if reply = Go \<and> settled then Some s else None)"

definition on_settled :: "reply \<Rightarrow> server \<Rightarrow> (thrown \<Rightarrow> server) \<Rightarrow> server option" where
  "on_settled reply s failed = (case reply of Go \<Rightarrow> Some s | Fail e \<Rightarrow> Some (failed e) | _ \<Rightarrow> None)"

definition resume_queued :: "client_request \<Rightarrow> server \<Rightarrow> server" where
  "resume_queued rq s =
     (case sv_conns s (rq_conn rq) of
        None \<Rightarrow> s
      | Some cn \<Rightarrow> if cn_stage cn = Ready \<and> \<not> cn_disconnected cn then executeCommand rq s else s)"

definition handshake_settled :: "server \<Rightarrow> nat \<Rightarrow> bool" where
  "handshake_settled s c \<longleftrightarrow> (case sv_conns s c of None \<Rightarrow> False | Some cn \<Rightarrow> cn_handshake cn)"

definition after_opening :: "client_request \<Rightarrow> ident \<Rightarrow> nat \<Rightarrow> bool \<Rightarrow> server \<Rightarrow> server" where
  "after_opening rq sid p creator s =
     (let s1 = (if creator \<and> map_get (sv_openingSessions s) sid = Some p
                then s\<lparr>sv_openingSessions := map_remove (sv_openingSessions s) sid\<rparr> else s)
      in case sv_openings s p of
           Some (OpenResolved r) \<Rightarrow> spawn (Serve rq (Acquired r)) s1
         | Some (OpenRejected e) \<Rightarrow> spawn (Serve rq (Respond (Inl e))) s1
         | _ \<Rightarrow> s)"

definition opening_settled :: "server \<Rightarrow> nat \<Rightarrow> bool" where
  "opening_settled s p \<longleftrightarrow> sv_openings s p \<noteq> None \<and> sv_openings s p \<noteq> Some OpenPending"

definition resume_request :: "client_request \<Rightarrow> request_point \<Rightarrow> reply \<Rightarrow> server \<Rightarrow> server option" where
  "resume_request rq q reply s =
     (case q of
        Queued \<Rightarrow> on_go reply (handshake_settled s (rq_conn rq)) (resume_queued rq s)
      | WaitDisposing sid options r \<Rightarrow>
          on_go reply (dispose_settled s r WaitOnly)
            (case dispose_error s r WaitOnly of
               None \<Rightarrow> acquire rq sid options s | Some e \<Rightarrow> spawn (Serve rq (Respond (Inl e))) s)
      | WaitOpening sid p creator \<Rightarrow> on_go reply (opening_settled s p) (after_opening rq sid p creator s)
      | Acquired r \<Rightarrow> on_go reply True (attach rq r s)
      | AttachRefused r w \<Rightarrow>
          on_go reply (dispose_settled s r w)
            (spawn (Serve rq (Respond (Inl (case dispose_error s r w of None \<Rightarrow> PiError InvalidRequest | Some e \<Rightarrow> e))))
               (after_dispose r w s))
      | Attached r \<Rightarrow> on_go reply True (spawn (Carry (Snapping (ForSession rq) r)) s)
      | Operating r \<Rightarrow>
          on_settled reply (spawn (Carry (Snapping (ForOperation rq) r)) s)
            (\<lambda>e. spawn (Serve rq (Respond (Inl e))) (end_operation r s))
      | OperationFailed r e \<Rightarrow> on_go reply True (spawn (Serve rq (Respond (Inl e))) (end_operation r s))
      | Detaching sid r w \<Rightarrow>
          on_go reply (dispose_settled s r w)
            (case dispose_error s r w of
               None \<Rightarrow> spawn (Serve rq (Respond (Inr (DetachResult sid)))) (broadcast (after_dispose r w s))
             | Some e \<Rightarrow> spawn (Serve rq (Respond (Inl e))) s)
      | Respond result \<Rightarrow> on_go reply True (respond rq result s))"

definition runtime_acquired :: "nat \<Rightarrow> ident \<Rightarrow> server \<Rightarrow> server" where
  "runtime_acquired p sid s =
     (let r = sv_next s; s1 = s\<lparr>sv_next := Suc r\<rparr>
      in if sv_closing s then spawn (OpenSession p OpeningAborted) (observe (Disposed r) s1)
         else spawn (OpenSession p (OpeningSnapshot sid r)) s1)"

definition resume_opening :: "nat \<Rightarrow> opening_point \<Rightarrow> reply \<Rightarrow> server \<Rightarrow> server option" where
  "resume_opening p q reply s =
     (case q of
        OpeningRuntime sid options \<Rightarrow>
          (case reply of
             GotRuntime \<Rightarrow> Some (runtime_acquired p sid s)
           | Fail e \<Rightarrow> Some (settle_opening p (OpenRejected e) s)
           | _ \<Rightarrow> None)
      | OpeningAborted \<Rightarrow>
          on_settled reply (settle_opening p (OpenRejected OtherThrown) s) (\<lambda>e. settle_opening p (OpenRejected e) s)
      | OpeningSnapshot sid r \<Rightarrow>
          (case reply of
             GotSnapshot sn \<Rightarrow>
               Some (if sn_id sn = sid then register_live p sid r s else opening_failed p r (PiError InvalidRequest) s)
           | SubscribeFails sn e \<Rightarrow>
               Some (opening_failed p r (if sn_id sn = sid then e else PiError InvalidRequest) s)
           | Fail e \<Rightarrow> Some (opening_failed p r e s)
           | _ \<Rightarrow> None)
      | OpeningFailed e \<Rightarrow>
          on_settled reply (settle_opening p (OpenRejected e) s) (\<lambda>_. settle_opening p (OpenRejected e) s))"

definition listed :: "server \<Rightarrow> protocol_metadata list \<Rightarrow> nat list \<Rightarrow> session_snapshot list \<Rightarrow> protocol_metadata list" where
  "listed s stored rs sns =
     merge_metadata stored (List.map_filter (\<lambda>(r, sn).
       map_option (\<lambda>live. (lv_id live, normalized live sn)) (sv_lives s r)) (zip rs sns))"

definition broadcast_snapshot :: "snapshot_for \<Rightarrow> nat \<Rightarrow> session_snapshot \<Rightarrow> server \<Rightarrow> server" where
  "broadcast_snapshot k r sn s =
     (let cs = (case sv_lives s r of None \<Rightarrow> [] | Some live \<Rightarrow> lv_connections live);
          s1 = send_each (SessionSnapshotEvent sn) cs s
      in if k = ForEvent then s1 else spawn (Carry (Broadcasted k r sn)) s1)"

definition snapshot_arrived :: "snapshot_for \<Rightarrow> nat \<Rightarrow> session_snapshot \<Rightarrow> server \<Rightarrow> server" where
  "snapshot_arrived k r sn s =
     (case sv_lives s r of
        None \<Rightarrow> snapshot_failed k r OtherThrown s
      | Some live \<Rightarrow>
          if sn_id sn = lv_id live then spawn (Carry (Normalized k r (normalized live sn))) s
          else snapshot_failed k r (PiError InvalidRequest) s)"

definition resume_data :: "data_point \<Rightarrow> reply \<Rightarrow> server \<Rightarrow> server option" where
  "resume_data q reply s =
     (case q of
        Listing k \<Rightarrow>
          (case reply of
             GotStored stored \<Rightarrow> Some (spawn (Carry (ListingLive k stored (not_disposing s))) s)
           | Fail e \<Rightarrow> Some (list_failed k e s)
           | _ \<Rightarrow> None)
      | ListingLive k stored rs \<Rightarrow>
          (case reply of
             GotSnapshots sns \<Rightarrow>
               if length sns \<noteq> length rs then None
               else Some (if same_ids s rs sns then list_done k (listed s stored rs sns) s
                          else list_failed k (PiError InvalidRequest) s)
           | Fail e \<Rightarrow> Some (list_failed k e s)
           | _ \<Rightarrow> None)
      | Snapping k r \<Rightarrow>
          (case reply of
             GotSnapshot sn \<Rightarrow> Some (snapshot_arrived k r sn s)
           | Fail e \<Rightarrow> Some (snapshot_failed k r e s)
           | _ \<Rightarrow> None)
      | Normalized k r sn \<Rightarrow> on_go reply True (broadcast_snapshot k r sn s)
      | Broadcasted k r sn \<Rightarrow> on_go reply True (after_broadcast k r sn s))"

definition resume_transport :: "nat \<Rightarrow> transport_point \<Rightarrow> reply \<Rightarrow> server \<Rightarrow> server option" where
  "resume_transport c q reply s =
     (case q of
        Disconnecting announced rs \<Rightarrow>
          on_go reply (\<forall>r \<in> set rs. dispose_settled s r WaitOnly)
            (if \<not> sv_closing s \<and> announced then broadcast s else s)
      | Sending k \<Rightarrow>
          on_settled reply (sent k c s) (\<lambda>e. spawn (Transport c (SendFailed k)) (closing_transport c None s))
      | SendFailed k \<Rightarrow>
          on_go reply True (if k = PlainSend then disconnect c s else finish_handshake c (disconnect c s))
      | FailClosing \<Rightarrow> on_go reply True (disconnect c s)
      | HelloModels revision refresh sessions \<Rightarrow>
          (case reply of
             GotModels models \<Rightarrow>
               Some (resume_hello c revision refresh
                 \<lparr>vs_revision = revision, vs_sessions = sessions, vs_models = models\<rparr> s)
           | Fail e \<Rightarrow> Some (list_failed (HelloFor c revision refresh) e s)
           | _ \<Rightarrow> None))"

definition send_next :: "nat \<Rightarrow> server_snapshot \<Rightarrow> nat list \<Rightarrow> server \<Rightarrow> server" where
  "send_next n snapshot cs s =
     (case cs of
        [] \<Rightarrow> broadcast_finished s
      | c # rest \<Rightarrow>
          spawn (Background (BroadcastSend n snapshot rest)) (sendMessage PlainSend c (ServerSnapshotEvent snapshot) s))"

definition resume_server :: "server_point \<Rightarrow> reply \<Rightarrow> server \<Rightarrow> server option" where
  "resume_server q reply s =
     (case q of
        Disposing r \<Rightarrow> on_go reply (dispose_settled s r Starter) (after_dispose r Starter s)
      | Terminating r cs \<Rightarrow>
          on_go reply True (spawn (Background (TerminatingDisconnects r)) (fold disconnect cs s))
      | TerminatingDisconnects r \<Rightarrow> on_go reply True (scheduleMaybeDispose r s)
      | BroadcastWaiting n \<Rightarrow> on_go reply (sv_broadcastsDone s = n) (performBroadcast n s)
      | BroadcastModels n revision cs \<Rightarrow>
          (case reply of
             GotModels models \<Rightarrow> Some (spawn (Carry (Listing (BroadcastFor n revision cs models))) s)
           | Fail e \<Rightarrow> Some (broadcast_finished s)
           | _ \<Rightarrow> None)
      | BroadcastSend n snapshot cs \<Rightarrow> on_go reply True (send_next n snapshot cs s)
      | ClosingListeners \<Rightarrow> on_go reply True (close_connections s)
      | ClosingConnections cs \<Rightarrow> on_go reply True (spawn (Background ClosingDisconnects) (fold disconnect cs s))
      | ClosingDisconnects \<Rightarrow>
          on_go reply True (spawn (Background (ClosingOpenings (map_values (sv_openingSessions s)))) s)
      | ClosingOpenings ps \<Rightarrow> on_go reply (\<forall>p \<in> set ps. opening_settled s p) (close_sessions s))"

definition resume :: "point \<Rightarrow> reply \<Rightarrow> server \<Rightarrow> server option" where
  "resume p reply s =
     (case p of
        Serve rq q \<Rightarrow> resume_request rq q reply s
      | OpenSession i q \<Rightarrow> resume_opening i q reply s
      | Carry q \<Rightarrow> resume_data q reply s
      | Transport c q \<Rightarrow> resume_transport c q reply s
      | Background q \<Rightarrow> resume_server q reply s)"

datatype action = Accept
  | Receive nat "thrown + client_message list"
  | HandshakeTimeout nat
  | TransportClosed nat
  | TransportFailed nat
  | TransportMarkedClosed nat
  | RuntimeEvent nat runtime_event
  | PhaseChange nat session_phase
  | DisposeReturns nat "thrown option"
  | Close
  | Resume nat reply

definition step :: "action \<Rightarrow> server \<Rightarrow> server option" where
  "step a s =
     (case a of
        Accept \<Rightarrow> Some (accept s)
      | Receive c decoded \<Rightarrow> if sv_conns s c = None then None else Some (receive c decoded s)
      | HandshakeTimeout c \<Rightarrow>
          (case sv_conns s c of
             None \<Rightarrow> None
           | Some cn \<Rightarrow> if cn_timer cn then Some (failProtocol c InvalidRequest s) else None)
      | TransportClosed c \<Rightarrow> if sv_conns s c = None then None else Some (disconnect c s)
      | TransportFailed c \<Rightarrow>
          if sv_conns s c = None then None else Some (spawn (Transport c FailClosing) (closing_transport c None s))
      | TransportMarkedClosed c \<Rightarrow>
          if sv_conns s c = None then None else Some (set_conn c (\<lambda>n. n\<lparr>cn_closed := True\<rparr>) s)
      | RuntimeEvent r e \<Rightarrow>
          (case sv_lives s r of
             None \<Rightarrow> None
           | Some live \<Rightarrow> if lv_subscribed live then Some (handleRuntimeEvent r e s) else None)
      | PhaseChange r phase \<Rightarrow>
          if sv_lives s r = None then None else Some (set_live r (\<lambda>l. l\<lparr>lv_phase := phase\<rparr>) s)
      | DisposeReturns r result \<Rightarrow>
          (case sv_lives s r of
             None \<Rightarrow> None
           | Some live \<Rightarrow>
               if lv_disposing live = Some DisposePending
               then
                 (let s1 = (if map_get (sv_liveSessions s) (lv_id live) = Some r
                            then s\<lparr>sv_liveSessions := map_remove (sv_liveSessions s) (lv_id live)\<rparr> else s)
                  in Some (set_live r (\<lambda>l. l\<lparr>lv_disposing :=
                       Some (case result of None \<Rightarrow> DisposeDone | Some e \<Rightarrow> DisposeFailed e)\<rparr>) s1))
               else None)
      | Close \<Rightarrow> if sv_closing s then None else Some (spawn (Background ClosingListeners) (s\<lparr>sv_closing := True\<rparr>))
      | Resume t reply \<Rightarrow>
          (case map_of (sv_tasks s) t of
             None \<Rightarrow> None
           | Some p \<Rightarrow> resume p reply (s\<lparr>sv_tasks := remove1 (t, p) (sv_tasks s)\<rparr>)))"

inductive reachable :: "server \<Rightarrow> server \<Rightarrow> bool" for s0 where
  reachable_start: "reachable s0 s0"
| reachable_step: "reachable s0 s \<Longrightarrow> step a s = Some s' \<Longrightarrow> reachable s0 s'"

text \<open>What holds at the start and is kept by every step holds in every state the server reaches.\<close>

locale server_invariant =
  fixes good :: "server \<Rightarrow> bool"
  assumes good_start: "good (new_server encodable uuid)"
    and good_step: "good s \<Longrightarrow> step a s = Some s' \<Longrightarrow> good s'"
begin

lemma reachable_good:
  assumes "reachable (new_server encodable uuid) s"
  shows "good s"
  using assms by (induction rule: reachable.induct) (auto intro: good_start good_step)

end

text \<open>A sequence of steps, for the evaluation of concrete runs.\<close>

fun run :: "action list \<Rightarrow> server \<Rightarrow> server option" where
  "run [] s = Some s"
| "run (a # as) s = (case step a s of None \<Rightarrow> None | Some s' \<Rightarrow> run as s')"

definition plain_snapshot :: "ident \<Rightarrow> session_snapshot" where
  "plain_snapshot sid = \<lparr>sn_id = sid, sn_name = None, sn_cwd = ''/'', sn_createdAt = 0, sn_updatedAt = 0, sn_phase = PhaseIdle,
     sn_attached = False, sn_locked = False, sn_revision = 0, sn_content = JNull\<rparr>"

text \<open>A connection says hello and attaches to session \<open>s\<close>, which becomes runtime 7.\<close>

definition attach_run :: "action list" where
  "attach_run = [Accept, Receive 0 (Inr [Hello (JsInt 1)]), Resume 1 (GotStored []), Resume 2 (GotSnapshots []),
     Resume 3 (GotModels []), Resume 4 Go,
     Receive 0 (Inr [Request ''a'' (AttachCommand ''s'')]), Resume 5 GotRuntime, Resume 8 (GotSnapshot (plain_snapshot ''s'')),
     Resume 6 Go, Resume 9 Go, Resume 10 Go, Resume 11 (GotSnapshot (plain_snapshot ''s'')), Resume 12 Go, Resume 13 Go,
     Resume 14 Go, Resume 16 Go, Resume 17 Go, Resume 15 Go, Resume 18 (GotModels []), Resume 19 (GotStored []),
     Resume 20 (GotSnapshots [plain_snapshot ''s'']), Resume 21 Go, Resume 22 Go, Resume 23 Go]"

definition example_server :: server where
  "example_server = new_server (\<lambda>_. True) (\<lambda>_. ''new'')"

lemma run_reachable: "run as s = Some s' \<Longrightarrow> reachable s0 s \<Longrightarrow> reachable s0 s'"
  by (induction as arbitrary: s) (auto split: option.splits intro: reachable_step)

lemma run_witness:
  assumes "case run as s of None \<Rightarrow> False | Some s' \<Rightarrow> P s'"
  obtains s' where "reachable s s'" "P s'"
  using assms run_reachable [OF _ reachable_start] by (auto split: option.splits)

section \<open>The list of sessions\<close>

lemma fold_map_set_fresh:
  assumes "distinct (map fst (m @ xs))"
  shows "fold (\<lambda>(i, v) m. map_set m i v) xs m = m @ xs"
  using assms
proof (induction xs arbitrary: m)
  case (Cons x xs)
  obtain i v where x: "x = (i, v)" by fastforce
  with Cons.prems have "map_set m i v = m @ [x]"
    by (auto intro!: map_set_fresh simp: map_has_def map_get_def map_of_eq_None_iff)
  with Cons x show ?case by simp
qed simp

definition listed_item :: "(ident, session_snapshot) js_map \<Rightarrow> protocol_metadata \<Rightarrow> protocol_metadata" where
  "listed_item live item = (case map_get live (md_id item) of None \<Rightarrow> item
     | Some sn \<Rightarrow> (toMetadata sn)\<lparr>md_parentSessionId := md_parentSessionId item\<rparr>)"

lemma merge_stored_spec:
  assumes "distinct (map md_id stored)"
  shows "merge_stored stored live = (map (listed_item live) stored, filter (\<lambda>(i, sn). i \<notin> md_id ` set stored) live)"
  using assms
proof (induction stored arbitrary: live)
  case Nil
  then show ?case by (simp add: case_prod_unfold)
next
  case (Cons item stored)
  have other: "listed_item (map_remove live (md_id item)) x = listed_item live x" if "x \<in> set stored" for x
    proof -
    have "md_id x \<noteq> md_id item" using that Cons.prems by (auto simp: image_iff)
    then show ?thesis by (simp add: listed_item_def)
  qed
  show ?case
  proof (cases "map_get live (md_id item)")
    case None
    then have "filter (\<lambda>(i, sn). i \<notin> md_id ` set stored) live = filter (\<lambda>(i, sn). i \<notin> md_id ` set (item # stored)) live"
      by (intro filter_cong) (auto simp: map_get_def map_of_eq_None_iff image_iff)
    with None Cons show ?thesis by (simp add: listed_item_def)
  next
    case (Some sn)
    with Cons other show ?thesis
      by (auto simp: listed_item_def map_remove_filter case_prod_unfold intro!: filter_cong)
  qed
qed

text \<open>
  The session list joins what the service has stored with the live sessions: a stored session that is live
  is shown with its live name, directory and times and its stored parent, other stored sessions are shown as
  stored, and live sessions that are not stored yet follow. Each session is listed once.
\<close>

lemma listing_merges_live_sessions:
  assumes "distinct (map md_id stored)" "distinct (map fst live)" "\<forall>(i, sn) \<in> set live. sn_id sn = i"
  shows "merge_metadata stored live =
      map (listed_item live) stored @ map (\<lambda>(i, sn). toMetadata sn) (filter (\<lambda>(i, sn). i \<notin> md_id ` set stored) live) \<and>
    map md_id (merge_metadata stored live) =
      map md_id stored @ filter (\<lambda>i. i \<notin> md_id ` set stored) (map fst live) \<and>
    distinct (map md_id (merge_metadata stored live))"
proof -
  have merged: "merge_metadata stored live =
      map (listed_item live) stored @ map (\<lambda>(i, sn). toMetadata sn) (filter (\<lambda>(i, sn). i \<notin> md_id ` set stored) live)"
    using merge_stored_spec [OF assms(1)] fold_map_set_fresh [of "[]" live] assms(2)
    by (simp add: merge_metadata_def map_values_def case_prod_unfold)
  have ids: "sn_id sn = i" if "(i, sn) \<in> set live" for i sn using assms(3) that by auto
  have item: "md_id (listed_item live x) = md_id x" for x
    using ids [of "md_id x"] by (auto simp: listed_item_def toMetadata_def dest!: map_get_in_set split: option.splits)
  have rest: "map md_id (map (\<lambda>(i, sn). toMetadata sn) (filter (\<lambda>(i, sn). i \<notin> md_id ` set stored) xs)) =
      filter (\<lambda>i. i \<notin> md_id ` set stored) (map fst xs)" if "set xs \<subseteq> set live" for xs
    using that ids by (induction xs) (auto simp: toMetadata_def)
  have listing: "map md_id (merge_metadata stored live) =
      map md_id stored @ filter (\<lambda>i. i \<notin> md_id ` set stored) (map fst live)"
    using rest [of live] item by (simp add: merged)
  moreover have "distinct (map md_id (merge_metadata stored live))"
    unfolding listing using assms(1,2) by auto
  ultimately show ?thesis using merged by blast
qed

lemma listing_merges_live_sessions_witness:
  "map md_id (merge_metadata [toMetadata (plain_snapshot ''a''), toMetadata (plain_snapshot ''b'')]
     [(''b'', plain_snapshot ''b''), (''c'', plain_snapshot ''c'')]) = [''a'', ''b'', ''c'']"
proof -
  let ?stored = "[toMetadata (plain_snapshot ''a''), toMetadata (plain_snapshot ''b'')]"
  let ?live = "[(''b'', plain_snapshot ''b''), (''c'', plain_snapshot ''c'')]"
  have "distinct (map md_id ?stored)" "distinct (map fst ?live)" "\<forall>(i, sn) \<in> set ?live. sn_id sn = i"
    by (simp_all add: plain_snapshot_def toMetadata_def)
  then have "map md_id (merge_metadata ?stored ?live) =
      map md_id ?stored @ filter (\<lambda>i. i \<notin> md_id ` set ?stored) (map fst ?live)"
    using listing_merges_live_sessions [of ?stored ?live] by blast
  then show ?thesis by (simp add: plain_snapshot_def toMetadata_def)
qed

end
