(* ===== verification/Server_Runtimes.thy ===== *)
theory Server_Runtimes
  imports Server
begin

text \<open>
  The runtimes of the server's sessions: an invariant of every reachable state ties the operations that run,
  the sessions being opened and the live sessions to the log, so that a runtime is disposed once at most and
  no operation starts on it afterwards.
\<close>

lemmas state_updates = spawn_def observe_def set_conn_def set_live_def settle_opening_def closing_transport_def

section \<open>Disposal and operations\<close>

text \<open>The runtime an operation runs on at a point, and the runtime that is being registered.\<close>

fun operating_on :: "point \<Rightarrow> nat option" where
  "operating_on (Serve rq (Operating r)) = Some r"
| "operating_on (Serve rq (OperationFailed r e)) = Some r"
| "operating_on (Carry (Snapping (ForOperation rq) r)) = Some r"
| "operating_on (Carry (Normalized (ForOperation rq) r sn)) = Some r"
| "operating_on (Carry (Broadcasted (ForOperation rq) r sn)) = Some r"
| "operating_on p = None"

fun registering :: "point \<Rightarrow> nat option" where
  "registering (OpenSession p (OpeningSnapshot sid r)) = Some r"
| "registering p = None"

fun shutting_down :: "point \<Rightarrow> bool" where
  "shutting_down (Background (ClosingConnections cs)) = True"
| "shutting_down (Background ClosingListeners) = True"
| "shutting_down (Background ClosingDisconnects) = True"
| "shutting_down (Background (ClosingOpenings ps)) = True"
| "shutting_down p = False"

definition operations_on :: "nat \<Rightarrow> server \<Rightarrow> nat" where
  "operations_on r s = length (filter (\<lambda>(t, p). operating_on p = Some r) (sv_tasks s))"

definition registrations :: "server \<Rightarrow> nat list" where
  "registrations s = List.map_filter (\<lambda>(t, p). registering p) (sv_tasks s)"

definition disposed :: "server \<Rightarrow> nat \<Rightarrow> bool" where
  "disposed s r \<longleftrightarrow> Disposed r \<in> set (sv_log s)"

text \<open>A runtime is disposed once at most, and no operation starts on it afterwards.\<close>

fun disposal_ok :: "observation list \<Rightarrow> bool" where
  "disposal_ok [] \<longleftrightarrow> True"
| "disposal_ok (Disposed r # es) \<longleftrightarrow>
     Disposed r \<notin> set es \<and> (\<forall>op. Started r op \<notin> set es) \<and> disposal_ok es"
| "disposal_ok (e # es) \<longleftrightarrow> disposal_ok es"

text \<open>The invariant; \<open>d\<close> is the runtime of an operation whose task has been taken out, \<open>fresh\<close> a runtime
  whose registration has.\<close>

definition runtimes_ok :: "nat option \<Rightarrow> nat option \<Rightarrow> server \<Rightarrow> bool" where
  "runtimes_ok d fresh s \<longleftrightarrow>
     (\<forall>r. sv_next s \<le> r \<longrightarrow> sv_lives s r = None \<and> \<not> disposed s r) \<and>
     (\<forall>sid r. map_get (sv_liveSessions s) sid = Some r \<longrightarrow>
        (\<exists>live. sv_lives s r = Some live \<and> lv_id live = sid \<and> (disposed s r \<longrightarrow> lv_disposing live \<noteq> None))) \<and>
     (\<forall>r live. sv_lives s r = Some live \<and> disposed s r \<and> lv_disposing live = None \<longrightarrow> sv_closing s) \<and>
     (\<forall>r. r \<in> set (registrations s) \<or> fresh = Some r \<longrightarrow> sv_lives s r = None \<and> \<not> disposed s r \<and> r < sv_next s) \<and>
     distinct (registrations s) \<and> (\<forall>r. fresh = Some r \<longrightarrow> r \<notin> set (registrations s)) \<and>
     distinct (map fst (sv_liveSessions s)) \<and>
     disposal_ok (sv_log s) \<and>
     (\<forall>r. sv_lives s r = None \<longrightarrow> operations_on r s = 0 \<and> d \<noteq> Some r) \<and>
     (\<forall>r live. sv_lives s r = Some live \<longrightarrow>
        lv_operationCount live = int (operations_on r s) + (if d = Some r then 1 else 0)) \<and>
     (\<forall>t p. (t, p) \<in> set (sv_tasks s) \<and> shutting_down p \<longrightarrow> sv_closing s) \<and>
     (\<forall>r live. sv_lives s r = Some live \<longrightarrow> lv_disposing live = None \<or> operations_on r s = 0 \<and> d \<noteq> Some r)"

lemma disposal_ok_snoc:
  "disposal_ok (es @ [e]) \<longleftrightarrow> disposal_ok es \<and>
     (\<forall>r. e = Disposed r \<or> (\<exists>op. e = Started r op) \<longrightarrow> Disposed r \<notin> set es)"
  by (induction es rule: disposal_ok.induct) (cases e; auto)+

lemma operations_on_simps:
  "operations_on r (spawn p s) = operations_on r s + (if operating_on p = Some r then 1 else 0)"
  "operations_on r (observe e s) = operations_on r s"
  "operations_on r (set_conn c f s) = operations_on r s"
  "operations_on r (set_live r' g s) = operations_on r s"
  "operations_on r (settle_opening i pr s) = operations_on r s"
  by (simp_all add: operations_on_def state_updates)

lemma registrations_simps:
  "registrations (spawn p s) = registrations s @ (case registering p of None \<Rightarrow> [] | Some r \<Rightarrow> [r])"
  "registrations (observe e s) = registrations s"
  "registrations (set_conn c f s) = registrations s"
  "registrations (set_live r' g s) = registrations s"
  "registrations (settle_opening i pr s) = registrations s"
  by (simp_all add: registrations_def state_updates List.map_filter_def split: option.splits)

lemma update_simps [simp]:
  "sv_lives (spawn p s) = sv_lives s" "sv_conns (spawn p s) = sv_conns s" "sv_log (spawn p s) = sv_log s"
  "sv_closing (spawn p s) = sv_closing s" "sv_liveSessions (spawn p s) = sv_liveSessions s"
  "sv_next (spawn p s) = Suc (sv_next s)" "sv_tasks (spawn p s) = sv_tasks s @ [(sv_next s, p)]"
  "sv_lives (observe e s) = sv_lives s" "sv_conns (observe e s) = sv_conns s" "sv_log (observe e s) = sv_log s @ [e]"
  "sv_closing (observe e s) = sv_closing s" "sv_liveSessions (observe e s) = sv_liveSessions s"
  "sv_next (observe e s) = sv_next s" "sv_tasks (observe e s) = sv_tasks s"
  "sv_lives (set_conn c f s) = sv_lives s" "sv_log (set_conn c f s) = sv_log s"
  "sv_closing (set_conn c f s) = sv_closing s" "sv_liveSessions (set_conn c f s) = sv_liveSessions s"
  "sv_next (set_conn c f s) = sv_next s" "sv_tasks (set_conn c f s) = sv_tasks s"
  "sv_conns (set_conn c f s) c' = (if c' = c then map_option f (sv_conns s c) else sv_conns s c')"
  "sv_lives (set_live r g s) r' = (if r' = r then map_option g (sv_lives s r) else sv_lives s r')"
  "sv_conns (set_live r g s) = sv_conns s" "sv_log (set_live r g s) = sv_log s"
  "sv_closing (set_live r g s) = sv_closing s" "sv_liveSessions (set_live r g s) = sv_liveSessions s"
  "sv_next (set_live r g s) = sv_next s" "sv_tasks (set_live r g s) = sv_tasks s"
  "sv_lives (settle_opening i pr s) = sv_lives s" "sv_conns (settle_opening i pr s) = sv_conns s"
  "sv_log (settle_opening i pr s) = sv_log s" "sv_closing (settle_opening i pr s) = sv_closing s"
  "sv_liveSessions (settle_opening i pr s) = sv_liveSessions s" "sv_next (settle_opening i pr s) = sv_next s"
  "sv_tasks (settle_opening i pr s) = sv_tasks s"
  by (simp_all add: state_updates)

lemma disposed_simps:
  "disposed (spawn p s) r \<longleftrightarrow> disposed s r"
  "disposed (set_conn c f s) r \<longleftrightarrow> disposed s r"
  "disposed (set_live r' g s) r \<longleftrightarrow> disposed s r"
  "disposed (settle_opening i pr s) r \<longleftrightarrow> disposed s r"
  "disposed (observe e s) r \<longleftrightarrow> disposed s r \<or> e = Disposed r"
  by (auto simp: disposed_def)

lemmas runtime_simps = operations_on_simps registrations_simps disposed_simps

lemma runtimes_okD:
  assumes "runtimes_ok d fresh s"
  shows "sv_next s \<le> r \<Longrightarrow> sv_lives s r = None" "sv_next s \<le> r \<Longrightarrow> \<not> disposed s r"
    "map_get (sv_liveSessions s) sid = Some r \<Longrightarrow>
       \<exists>live. sv_lives s r = Some live \<and> lv_id live = sid \<and> (disposed s r \<longrightarrow> lv_disposing live \<noteq> None)"
    "sv_lives s r = Some live \<Longrightarrow> disposed s r \<Longrightarrow> lv_disposing live = None \<Longrightarrow> sv_closing s"
    "r \<in> set (registrations s) \<or> fresh = Some r \<Longrightarrow> sv_lives s r = None \<and> \<not> disposed s r \<and> r < sv_next s"
    "distinct (registrations s)" "fresh = Some r \<Longrightarrow> r \<notin> set (registrations s)"
    "distinct (map fst (sv_liveSessions s))" "disposal_ok (sv_log s)"
    "sv_lives s r = None \<Longrightarrow> operations_on r s = 0 \<and> d \<noteq> Some r"
    "sv_lives s r = Some live \<Longrightarrow>
       lv_operationCount live = int (operations_on r s) + (if d = Some r then 1 else 0)"
    "(t, p) \<in> set (sv_tasks s) \<Longrightarrow> shutting_down p \<Longrightarrow> sv_closing s"
    "sv_lives s r = Some live \<Longrightarrow> lv_disposing live = None \<or> operations_on r s = 0 \<and> d \<noteq> Some r"
  using assms unfolding runtimes_ok_def by blast+

lemma runtimes_okI:
  assumes "\<And>r. sv_next s \<le> r \<Longrightarrow> sv_lives s r = None \<and> \<not> disposed s r"
    "\<And>sid r. map_get (sv_liveSessions s) sid = Some r \<Longrightarrow>
       \<exists>live. sv_lives s r = Some live \<and> lv_id live = sid \<and> (disposed s r \<longrightarrow> lv_disposing live \<noteq> None)"
    "\<And>r live. sv_lives s r = Some live \<Longrightarrow> disposed s r \<Longrightarrow> lv_disposing live = None \<Longrightarrow> sv_closing s"
    "\<And>r. r \<in> set (registrations s) \<or> fresh = Some r \<Longrightarrow> sv_lives s r = None \<and> \<not> disposed s r \<and> r < sv_next s"
    "distinct (registrations s)" "\<And>r. fresh = Some r \<Longrightarrow> r \<notin> set (registrations s)"
    "distinct (map fst (sv_liveSessions s))" "disposal_ok (sv_log s)"
    "\<And>r. sv_lives s r = None \<Longrightarrow> operations_on r s = 0 \<and> d \<noteq> Some r"
    "\<And>r live. sv_lives s r = Some live \<Longrightarrow>
       lv_operationCount live = int (operations_on r s) + (if d = Some r then 1 else 0)"
    "\<And>t p. (t, p) \<in> set (sv_tasks s) \<Longrightarrow> shutting_down p \<Longrightarrow> sv_closing s"
    "\<And>r live. sv_lives s r = Some live \<Longrightarrow> lv_disposing live = None \<or> operations_on r s = 0 \<and> d \<noteq> Some r"
  shows "runtimes_ok d fresh s"
  unfolding runtimes_ok_def using assms by blast

named_theorems runtime_intros \<open>what keeps the invariant of the runtimes\<close>

lemma runtimes_spawn [runtime_intros]:
  assumes "runtimes_ok d fresh s" "operating_on p = None" "registering p = None" "shutting_down p \<Longrightarrow> sv_closing s"
  shows "runtimes_ok d fresh (spawn p s)"
  using assms by (auto simp: runtimes_ok_def runtime_simps less_Suc_eq)

lemma runtimes_spawn_operating:
  assumes ok: "runtimes_ok (Some r) fresh s" and p: "operating_on p = Some r" "registering p = None" "\<not> shutting_down p"
  shows "runtimes_ok None fresh (spawn p s)"
proof -
  note ok' = runtimes_okD [OF ok]
  show ?thesis
  proof (rule runtimes_okI, goal_cases)
    case (4 r')
    then show ?case using ok'(5) [of r'] p by (auto simp: runtime_simps)
  next
    case (9 r')
    then show ?case using ok'(10) [of r'] p by (auto simp: runtime_simps)
  next
    case (10 r' live)
    then show ?case using ok'(11) [of r' live] p by (auto simp: runtime_simps)
  next
    case (11 t q)
    then show ?case using ok'(12) [of t q] p by auto
  next
    case (12 r' live)
    then show ?case using ok'(13) [of r' live] p by (auto simp: runtime_simps)
  qed (use ok' p in \<open>simp_all add: runtime_simps\<close>)
qed

lemma runtimes_observe [runtime_intros]:
  assumes "runtimes_ok d fresh s" "\<And>r. e \<noteq> Disposed r" "\<And>r op. e \<noteq> Started r op"
  shows "runtimes_ok d fresh (observe e s)"
  using assms by (simp add: runtimes_ok_def runtime_simps disposal_ok_snoc)

lemma runtimes_set_conn [runtime_intros]: "runtimes_ok d fresh s \<Longrightarrow> runtimes_ok d fresh (set_conn c f s)"
  by (simp add: runtimes_ok_def runtime_simps)

lemma runtimes_settle [runtime_intros]: "runtimes_ok d fresh s \<Longrightarrow> runtimes_ok d fresh (settle_opening p result s)"
  by (simp add: runtimes_ok_def runtime_simps)

lemma runtimes_set_live [runtime_intros]:
  assumes ok: "runtimes_ok d fresh s"
    and g: "\<And>l. lv_id (g l) = lv_id l" "\<And>l. lv_disposing (g l) = lv_disposing l"
    "\<And>l. lv_operationCount (g l) = lv_operationCount l"
  shows "runtimes_ok d fresh (set_live r g s)"
proof -
  have old: "\<exists>live'. sv_lives s r' = Some live' \<and> lv_id live = lv_id live' \<and> lv_disposing live = lv_disposing live' \<and>
      lv_operationCount live = lv_operationCount live'" if "sv_lives (set_live r g s) r' = Some live" for r' live
    using that g by (auto split: if_splits)
  have new: "\<exists>live'. sv_lives (set_live r g s) r' = Some live' \<and> lv_id live' = lv_id live \<and>
      lv_disposing live' = lv_disposing live" if "sv_lives s r' = Some live" for r' live
    using that g by (cases "r' = r") auto
  have none: "sv_lives (set_live r g s) r' = None \<longleftrightarrow> sv_lives s r' = None" for r' by simp
  note ok' = runtimes_okD [OF ok]
  show ?thesis
  proof (rule runtimes_okI, goal_cases)
    case (2 sid r')
    then have "map_get (sv_liveSessions s) sid = Some r'" by simp
    from ok'(3) [OF this] new show ?case by (metis disposed_simps(3))
  next
    case (3 r' live)
    then show ?case using old [OF 3(1)] ok'(4) [of r'] by (auto simp: disposed_simps)
  next
    case (10 r' live)
    then show ?case using old [OF 10(1)] ok'(11) [of r'] by (auto simp: runtime_simps)
  next
    case (12 r' live)
    then show ?case using old [OF 12(1)] ok'(13) [of r'] by (auto simp: runtime_simps)
  qed (use ok' none in \<open>simp_all add: runtime_simps del: update_simps(22)\<close>)
qed


lemma runtimes_counters [runtime_intros]:
  "runtimes_ok d fresh s \<Longrightarrow> runtimes_ok d fresh (s\<lparr>sv_broadcasts := n\<rparr>)"
  "runtimes_ok d fresh s \<Longrightarrow> runtimes_ok d fresh (s\<lparr>sv_broadcastsDone := n\<rparr>)"
  "runtimes_ok d fresh s \<Longrightarrow> runtimes_ok d fresh (s\<lparr>sv_revision := n\<rparr>)"
  "runtimes_ok d fresh s \<Longrightarrow> runtimes_ok d fresh (s\<lparr>sv_connections := cs\<rparr>)"
  "runtimes_ok d fresh s \<Longrightarrow> runtimes_ok d fresh (s\<lparr>sv_conns := conns\<rparr>)"
  "runtimes_ok d fresh s \<Longrightarrow> runtimes_ok d fresh (s\<lparr>sv_openingSessions := opens\<rparr>)"
  by (simp_all add: runtimes_ok_def disposed_def operations_on_def registrations_def)

lemma runtimes_transport [runtime_intros]:
  "runtimes_ok d fresh s \<Longrightarrow> runtimes_ok d fresh (closing_transport c final s)"
  "runtimes_ok d fresh s \<Longrightarrow> runtimes_ok d fresh (finish_handshake c s)"
  by (auto simp: closing_transport_def finish_handshake_def intro!: runtime_intros)

lemma closing_fold:
  "(\<And>x s. sv_closing (f x s) = sv_closing s) \<Longrightarrow> sv_closing (fold f xs s) = sv_closing s"
  by (induction xs arbitrary: s) simp_all

lemma closing_maybeDispose: "maybeDispose r s = (w, s') \<Longrightarrow> sv_closing s' = sv_closing s"
  by (auto simp: maybeDispose_def split: option.splits if_splits)

lemma closing_dispose_each: "dispose_each rs s = (ws, s') \<Longrightarrow> sv_closing s' = sv_closing s"
  by (induction rs arbitrary: s ws s')
    (fastforce split: prod.splits if_splits dest: closing_maybeDispose)+

lemma closing_disconnect: "sv_closing (disconnect c s) = sv_closing s"
  by (auto simp: disconnect_def Let_def closing_fold dest!: closing_dispose_each split: option.splits prod.splits)

lemma runtimes_fold [runtime_intros]:
  "runtimes_ok d fresh s \<Longrightarrow> (\<And>x s. runtimes_ok d fresh s \<Longrightarrow> runtimes_ok d fresh (f x s)) \<Longrightarrow>
   runtimes_ok d fresh (fold f xs s)"
  by (induction xs arbitrary: s) auto

lemma runtimes_dispose:
  assumes ok: "runtimes_ok d fresh s" and live: "sv_lives s r = Some live" and none: "lv_disposing live = None"
    and "\<not> sv_closing s" and idle: "lv_operationCount live \<le> 0"
    and g: "\<And>l. lv_id (g l) = lv_id l" "\<And>l. lv_disposing (g l) \<noteq> None"
      "\<And>l. lv_operationCount (g l) = lv_operationCount l"
  shows "runtimes_ok d fresh (observe (Disposed r) (set_live r g s))"
proof -
  note ok' = runtimes_okD [OF ok]
  have new: "\<not> disposed s r" using ok'(4) [OF live _ none] assms(4) by blast
  have lives: "sv_lives (set_live r g s) r' = (if r' = r then Some (g live) else sv_lives s r')" for r'
    using live by simp
  show ?thesis
  proof (rule runtimes_okI, goal_cases)
    case (1 r')
    then show ?case using ok'(1,2) [of r'] live by (auto simp: runtime_simps lives)
  next
    case (2 sid r')
    then show ?case using ok'(3) [of sid r'] live g by (auto simp: runtime_simps lives)
  next
    case (3 r' live')
    then show ?case using ok'(4) [of r' live'] g(2) [of live] live by (auto simp: runtime_simps split: if_splits)
  next
    case (4 r')
    then show ?case using ok'(5) [of r'] live by (auto simp: runtime_simps lives)
  next
    case 8
    then show ?case using ok'(9) new by (simp add: disposal_ok_snoc disposed_def)
  next
    case (9 r')
    then show ?case using ok'(10) [of r'] by (auto simp: runtime_simps lives split: if_splits)
  next
    case (10 r' live')
    then show ?case using ok'(11) [of r'] live g by (auto simp: runtime_simps lives split: if_splits)
  next
    case (12 r' live')
    then show ?case using ok'(13) [of r' live'] ok'(11) [OF live] idle by (auto simp: runtime_simps lives split: if_splits)
  qed (use ok' in \<open>simp_all add: runtime_simps\<close>)
qed

lemma runtimes_maybeDispose:
  assumes "runtimes_ok d fresh s" "maybeDispose r s = (w, s')"
  shows "runtimes_ok d fresh s'"
  using assms by (auto simp: maybeDispose_def must_stay_def intro!: runtimes_dispose split: option.splits if_splits)

lemma runtimes_broadcast [runtime_intros]:
  "runtimes_ok d fresh s \<Longrightarrow> runtimes_ok d fresh (broadcast s)"
  "runtimes_ok d fresh s \<Longrightarrow> runtimes_ok d fresh (after_dispose r w s)"
  "runtimes_ok d fresh s \<Longrightarrow> runtimes_ok d fresh (broadcast_finished s)"
  by (auto simp: broadcast_def after_dispose_def broadcast_finished_def intro!: runtime_intros)

lemma runtimes_schedule [runtime_intros]:
  "runtimes_ok d fresh s \<Longrightarrow> runtimes_ok d fresh (scheduleMaybeDispose r s)"
  by (auto simp: scheduleMaybeDispose_def intro!: runtime_intros intro: runtimes_maybeDispose split: prod.splits)

lemma runtimes_dispose_each:
  "runtimes_ok d fresh s \<Longrightarrow> dispose_each rs s = (ws, s') \<Longrightarrow> runtimes_ok d fresh s'"
proof (induction rs arbitrary: s ws s')
  case (Cons r rs)
  obtain w s1 where w: "maybeDispose r s = (w, s1)" by fastforce
  obtain ws2 s2 where rest: "dispose_each rs (if w = Starter then spawn (Background (Disposing r)) s1 else s1) = (ws2, s2)"
    by fastforce
  have "runtimes_ok d fresh (if w = Starter then spawn (Background (Disposing r)) s1 else s1)"
    using runtimes_maybeDispose [OF Cons.prems(1) w] by (auto intro: runtime_intros)
  from Cons.IH [OF this rest] Cons.prems(2) w rest show ?case by simp
qed simp

lemma runtimes_disconnect [runtime_intros]:
  assumes "runtimes_ok d fresh s"
  shows "runtimes_ok d fresh (disconnect c s)"
  using assms
  by (auto simp: disconnect_def Let_def intro!: runtime_intros
      elim!: runtimes_dispose_each [rotated] split: option.splits prod.splits)

lemma runtimes_send [runtime_intros]:
  "runtimes_ok d fresh s \<Longrightarrow> runtimes_ok d fresh (sendMessage k c m s)"
  "runtimes_ok d fresh s \<Longrightarrow> runtimes_ok d fresh (failProtocol c code s)"
  "runtimes_ok d fresh s \<Longrightarrow> runtimes_ok d fresh (send_each m cs s)"
  unfolding send_each_def sendMessage_def failProtocol_def
  by (auto intro!: runtime_intros split: option.splits)

lemma runtimes_listing [runtime_intros]:
  "runtimes_ok d fresh s \<Longrightarrow> runtimes_ok d fresh (list_failed k e s)"
  "runtimes_ok d fresh s \<Longrightarrow> runtimes_ok d fresh (list_done k ms s)"
  by (cases k; auto simp: list_failed_def list_done_def intro!: runtime_intros)+

lemma runtimes_acquire [runtime_intros]:
  "runtimes_ok d fresh s \<Longrightarrow> runtimes_ok d fresh (acquire rq sid options s)"
  by (auto simp: acquire_def Let_def intro!: runtime_intros split: option.splits)

lemma runtimes_attach [runtime_intros]:
  "runtimes_ok d fresh s \<Longrightarrow> runtimes_ok d fresh (attach rq r s)"
  by (auto simp: attach_def intro!: runtime_intros intro: runtimes_maybeDispose split: option.splits prod.splits)

lemma runtimes_detach [runtime_intros]:
  "runtimes_ok d fresh s \<Longrightarrow> runtimes_ok d fresh (detach rq sid s)"
  by (auto simp: detach_def Let_def simp del: update_simps(22) intro!: runtime_intros intro: runtimes_maybeDispose [rotated] split: option.splits prod.splits)


lemma attached_undisposed:
  assumes "runtimes_ok d fresh s" "requireAttached c sid s = Inr r"
  shows "\<not> disposed s r" "\<exists>live. sv_lives s r = Some live \<and> lv_disposing live = None"
  using assms(2) runtimes_okD(3) [OF assms(1), of sid r]
  by (auto simp: requireAttached_def split: option.splits if_splits)

lemma runtimes_started:
  assumes "runtimes_ok d fresh s" "\<not> disposed s r"
  shows "runtimes_ok d fresh (observe (Started r op) s)"
  using assms by (simp add: runtimes_ok_def runtime_simps disposal_ok_snoc) (simp add: disposed_def)

lemma runtimes_count:
  assumes ok: "runtimes_ok d fresh s" and live: "sv_lives s r = Some live" "lv_disposing live = None"
  shows "d = None \<Longrightarrow> runtimes_ok (Some r) fresh (set_live r (\<lambda>l. l\<lparr>lv_operationCount := lv_operationCount l + 1\<rparr>) s)"
    and "d = Some r \<Longrightarrow> runtimes_ok None fresh (set_live r (\<lambda>l. l\<lparr>lv_operationCount := lv_operationCount l - 1\<rparr>) s)"
proof -
  note ok' = runtimes_okD [OF ok]
  have lives: "sv_lives (set_live r g s) r' = None \<longleftrightarrow> sv_lives s r' = None" for r' g by simp
  {
    assume d: "d = None"
    show "runtimes_ok (Some r) fresh (set_live r (\<lambda>l. l\<lparr>lv_operationCount := lv_operationCount l + 1\<rparr>) s)" (is "runtimes_ok _ _ ?s")
    proof (rule runtimes_okI, goal_cases)
      case (2 sid r')
      then show ?case using ok'(3) [of sid r'] by (auto simp: runtime_simps)
    next
      case (3 r' live)
      then show ?case using ok'(4) [of r'] by (auto simp: runtime_simps split: if_splits)
    next
      case (10 r' live)
      then show ?case using ok'(11) [of r'] d by (auto simp: runtime_simps split: if_splits)
    next
      case (12 r' live')
      then show ?case using ok'(13) [of r' live'] live d by (auto simp: runtime_simps split: if_splits)
    qed (use ok' lives live(1) in \<open>auto simp: runtime_simps simp del: update_simps(22)\<close>)
  next
    assume d: "d = Some r"
    show "runtimes_ok None fresh (set_live r (\<lambda>l. l\<lparr>lv_operationCount := lv_operationCount l - 1\<rparr>) s)" (is "runtimes_ok _ _ ?s")
    proof (rule runtimes_okI, goal_cases)
      case (2 sid r')
      then show ?case using ok'(3) [of sid r'] by (auto simp: runtime_simps)
    next
      case (3 r' live)
      then show ?case using ok'(4) [of r'] by (auto simp: runtime_simps split: if_splits)
    next
      case (10 r' live)
      then show ?case using ok'(11) [of r'] d by (auto simp: runtime_simps split: if_splits)
    next
      case (12 r' live')
      then show ?case using ok'(13) [of r' live'] live d by (auto simp: runtime_simps split: if_splits)
    qed (use ok' lives live(1) in \<open>auto simp: runtime_simps simp del: update_simps(22)\<close>)
  }
qed

lemma runtimes_execute [runtime_intros]:
  assumes "runtimes_ok None fresh s"
  shows "runtimes_ok None fresh (executeCommand rq s)"
proof -
  have op: "runtimes_ok None fresh (runOperation rq r op s)" if "requireAttached (rq_conn rq) sid s = Inr r" for sid r op
  proof -
    note attached = attached_undisposed [OF assms that]
    have "runtimes_ok (Some r) fresh (set_live r (\<lambda>l. l\<lparr>lv_operationCount := lv_operationCount l + 1\<rparr>) s)"
      using runtimes_count(1) [OF assms] attached(2) by blast
    then show ?thesis unfolding runOperation_def
      using attached(1) by (intro runtimes_spawn_operating runtimes_started) (simp_all add: runtime_simps)
  qed
  then show ?thesis using assms
    by (auto simp: executeCommand_def intro!: runtime_intros split: command.splits sum.splits)
qed

lemma operating_live:
  assumes "runtimes_ok (Some r) fresh s"
  obtains live where "sv_lives s r = Some live" "lv_disposing live = None"
proof -
  obtain live where live: "sv_lives s r = Some live" using runtimes_okD(10) [OF assms, of r] by auto
  moreover have "lv_disposing live = None"
    using runtimes_okD(13) [OF assms live] by auto
  ultimately show ?thesis using that by blast
qed

lemma runtimes_end_operation [runtime_intros]:
  "runtimes_ok (Some r) fresh s \<Longrightarrow> runtimes_ok None fresh (end_operation r s)"
  unfolding end_operation_def
  by (rule runtimes_schedule, rule operating_live, assumption, rule runtimes_count(2) [where d = "Some r"]) simp_all

lemma runtimes_snapshot_failed:
  "runtimes_ok (operating_on (Carry (Snapping k r))) fresh s \<Longrightarrow> runtimes_ok None fresh (snapshot_failed k r e s)"
  by (cases k) (auto simp: snapshot_failed_def intro: runtimes_spawn runtimes_spawn_operating)

lemma runtimes_snapshot_arrived:
  assumes "runtimes_ok (operating_on (Carry (Snapping k r))) fresh s"
  shows "runtimes_ok None fresh (snapshot_arrived k r sn s)"
  using runtimes_snapshot_failed [OF assms] assms
  by (cases k) (auto simp: snapshot_arrived_def intro: runtimes_spawn runtimes_spawn_operating split: option.splits)

lemma runtimes_broadcast_snapshot:
  assumes "runtimes_ok (operating_on (Carry (Snapping k r))) fresh s"
  shows "runtimes_ok None fresh (broadcast_snapshot k r sn s)"
  using runtimes_send(3) [OF assms]
  by (cases k) (auto simp: broadcast_snapshot_def Let_def intro: runtimes_spawn runtimes_spawn_operating [where r = r])

lemma runtimes_after_broadcast:
  assumes "runtimes_ok (operating_on (Carry (Snapping k r))) fresh s"
  shows "runtimes_ok None fresh (after_broadcast k r sn s)"
  using assms
  by (cases k) (auto simp: after_broadcast_def intro!: runtimes_spawn runtimes_end_operation runtimes_broadcast(1)
      dest: runtimes_maybeDispose split: prod.splits)

lemma runtimes_messages [runtime_intros]:
  "runtimes_ok None fresh s \<Longrightarrow> runtimes_ok None fresh (finishHandshake c version s)"
  "runtimes_ok None fresh s \<Longrightarrow> runtimes_ok None fresh (dispatchMessage c m s)"
  "runtimes_ok None fresh s \<Longrightarrow> runtimes_ok None fresh (dispatch_all c ms s)"
  "runtimes_ok None fresh s \<Longrightarrow> runtimes_ok None fresh (receive c decoded s)"
proof -
  show hello: "runtimes_ok None fresh (finishHandshake c version s)" if "runtimes_ok None fresh s" for c version s
    using that by (auto simp: finishHandshake_def intro!: runtime_intros)
  show dispatch: "runtimes_ok None fresh (dispatchMessage c m s)" if "runtimes_ok None fresh s" for c m s
    using that
    by (auto simp: dispatchMessage_def Let_def intro!: hello runtime_intros split: option.splits client_message.splits)
  show all: "runtimes_ok None fresh (dispatch_all c ms s)" if "runtimes_ok None fresh s" for c ms s
    using that by (induction ms arbitrary: s) (auto intro: dispatch split: option.splits)
  show "runtimes_ok None fresh (receive c decoded s)" if "runtimes_ok None fresh s"
    using that by (auto simp: receive_def intro!: all runtime_intros split: option.splits sum.splits)
qed

lemma runtimes_events [runtime_intros]:
  "runtimes_ok d fresh s \<Longrightarrow> runtimes_ok d fresh (terminate r s)"
  "runtimes_ok d fresh s \<Longrightarrow> runtimes_ok d fresh (handleRuntimeEvent r e s)"
  by (auto simp: terminate_def handleRuntimeEvent_def intro!: runtime_intros split: option.splits runtime_event.splits)

lemma runtimes_hello [runtime_intros]:
  "runtimes_ok d fresh s \<Longrightarrow> runtimes_ok d fresh (resume_hello c revision refresh snapshot s)"
  "runtimes_ok d fresh s \<Longrightarrow> runtimes_ok d fresh (sent k c s)"
  "runtimes_ok d fresh s \<Longrightarrow> runtimes_ok d fresh (performBroadcast n s)"
  "runtimes_ok d fresh s \<Longrightarrow> runtimes_ok d fresh (send_next n snapshot cs s)"
  "runtimes_ok d fresh s \<Longrightarrow> sv_closing s \<Longrightarrow> runtimes_ok d fresh (close_connections s)"
  by (auto simp: resume_hello_def sent_def performBroadcast_def send_next_def close_connections_def Let_def closing_fold closing_transport_def
      intro!: runtime_intros split: option.splits send_for.splits list.splits)


lemma runtimes_fresh_disposed:
  assumes ok: "runtimes_ok d (Some r) s"
  shows "runtimes_ok d None (observe (Disposed r) s)"
proof -
  note ok' = runtimes_okD [OF ok]
  have r: "sv_lives s r = None" "\<not> disposed s r" "r < sv_next s" "r \<notin> set (registrations s)"
    using ok'(5,7) [of r] by auto
  show ?thesis
  proof (rule runtimes_okI, goal_cases)
    case (1 r')
    then show ?case using ok'(1,2) [of r'] r by (auto simp: runtime_simps)
  next
    case (2 sid r')
    then show ?case using ok'(3) [of sid r'] r by (auto simp: runtime_simps)
  next
    case (3 r' live)
    then show ?case using ok'(4) [of r' live] r by (auto simp: runtime_simps)
  next
    case (4 r')
    then show ?case using ok'(5) [of r'] r by (auto simp: runtime_simps)
  next
    case 8
    then show ?case using ok'(9) r by (simp add: disposal_ok_snoc disposed_def)
  next
    case (12 r' live')
    then show ?case using ok'(13) [of r' live'] by (simp add: runtime_simps)
  qed (use ok'(1-12) in \<open>simp_all add: runtime_simps\<close>)
qed

lemma runtimes_register:
  assumes ok: "runtimes_ok None (Some r) s"
  shows "runtimes_ok None None (register_live p sid r s)"
proof -
  note ok' = runtimes_okD [OF ok]
  have r: "sv_lives s r = None" "\<not> disposed s r" "r < sv_next s" "r \<notin> set (registrations s)"
    using ok'(5,7) [of r] by auto
  let ?s = "register_live p sid r s"
  have same: "disposed ?s = disposed s" "registrations ?s = registrations s" "operations_on r' ?s = operations_on r' s"
    "sv_next ?s = sv_next s" "sv_log ?s = sv_log s" "sv_closing ?s = sv_closing s" "sv_tasks ?s = sv_tasks s"
    "sv_liveSessions ?s = map_set (sv_liveSessions s) sid r"
    "sv_lives ?s r' = (if r' = r then Some \<lparr>lv_id = sid, lv_connections = [], lv_subscribed = True, lv_operationCount = 0,
       lv_ready = True, lv_terminal = False, lv_disposing = None, lv_phase = PhaseIdle\<rparr> else sv_lives s r')" for r'
    by (simp_all add: register_live_def settle_opening_def disposed_def registrations_def operations_on_def fun_eq_iff)
  show ?thesis
  proof (rule runtimes_okI, goal_cases)
    case (1 r')
    then show ?case using ok'(1,2) [of r'] r by (auto simp: same)
  next
    case (2 sid' r')
    then show ?case using ok'(3) [of sid' r'] r by (auto simp: same split: if_splits)
  next
    case (3 r' live)
    then show ?case using ok'(4) [of r' live] r by (auto simp: same split: if_splits)
  next
    case (10 r' live)
    then show ?case using ok'(10,11) [of r'] r by (auto simp: same split: if_splits)
  next
    case (12 r' live)
    then show ?case using ok'(13) [of r' live] by (auto simp: same split: if_splits)
  qed (use ok' r in \<open>auto simp: same map_set_keys_distinct split: if_splits\<close>)
qed

lemma runtimes_new_runtime:
  assumes ok: "runtimes_ok d None s"
  shows "runtimes_ok d (Some (sv_next s)) (s\<lparr>sv_next := Suc (sv_next s)\<rparr>)" (is "runtimes_ok _ _ ?s")
proof -
  note ok' = runtimes_okD [OF ok]
  have same: "disposed ?s = disposed s" "registrations ?s = registrations s" "operations_on r ?s = operations_on r s" for r
    by (simp_all add: disposed_def registrations_def operations_on_def fun_eq_iff)
  show ?thesis
  proof (rule runtimes_okI, goal_cases)
    case (4 r)
    then show ?case using ok'(5) [of r] ok'(1,2) [of r] by (auto simp: same)
  next
    case (6 r)
    then show ?case using ok'(5) [of r] by (auto simp: same)
  next
    case (12 r' live')
    then show ?case using ok'(13) [of r' live'] by (simp add: same)
  qed (use ok'(1-12) in \<open>simp_all add: same\<close>)
qed

lemma runtimes_spawn_registering:
  assumes ok: "runtimes_ok d (Some r) s" and p: "registering p = Some r" "operating_on p = None" "\<not> shutting_down p"
  shows "runtimes_ok d None (spawn p s)"
  using runtimes_okD(5) [OF ok, of r] ok p
  by (auto simp: runtimes_ok_def runtime_simps less_Suc_eq)

lemma runtimes_opening:
  assumes "resume_opening p q reply s = Some s'"
    and "runtimes_ok None (registering (OpenSession p q)) s"
  shows "runtimes_ok None None s'"
proof -
  have acquired: "runtimes_ok None None (runtime_acquired p sid s)" if "runtimes_ok None None s" for sid
    using runtimes_new_runtime [OF that]
    by (auto simp: runtime_acquired_def Let_def intro: runtimes_spawn_registering runtimes_fresh_disposed runtimes_spawn)
  have failed: "runtimes_ok None None (opening_failed p r e s)" if "runtimes_ok None (Some r) s" for r e
    using that by (auto simp: opening_failed_def intro: runtimes_spawn runtimes_fresh_disposed)
  show ?thesis using assms acquired failed
    by (cases q; cases reply)
      (auto simp: resume_opening_def on_settled_def intro: runtimes_settle runtimes_register)
qed

lemma runtimes_request:
  assumes "resume_request rq q reply s = Some s'"
    and ok: "runtimes_ok (operating_on (Serve rq q)) None s"
  shows "runtimes_ok None None s'"
proof (cases "\<exists>r. q = Operating r")
  case True
  then obtain r where q: "q = Operating r" ..
  have "runtimes_ok None None (spawn (Carry (Snapping (ForOperation rq) r)) s)"
    using ok q by (auto intro: runtimes_spawn_operating [where r = r])
  then show ?thesis using assms q
    by (cases reply) (auto simp: resume_request_def on_settled_def intro!: runtimes_spawn runtimes_end_operation)
next
  case False
  then show ?thesis using assms
    by (cases q)
      (auto simp: resume_request_def on_go_def resume_queued_def after_opening_def respond_def Let_def
        intro!: runtimes_spawn runtimes_broadcast runtimes_end_operation runtimes_execute runtimes_acquire runtimes_attach
          runtimes_send runtimes_counters
        split: option.splits open_promise.splits if_splits)
qed

lemma runtimes_data:
  assumes "resume_data q reply s = Some s'"
    and ok: "runtimes_ok (operating_on (Carry q)) None s"
  shows "runtimes_ok None None s'"
proof (cases q)
  case (Snapping k r)
  with assms show ?thesis
    by (cases reply) (auto simp: resume_data_def intro: runtimes_snapshot_failed runtimes_snapshot_arrived)
next
  case (Normalized k r sn)
  then have "operating_on (Carry q) = operating_on (Carry (Snapping k r))" by (cases k) simp_all
  with Normalized assms show ?thesis
    by (auto simp: resume_data_def on_go_def intro: runtimes_broadcast_snapshot split: if_splits)
next
  case (Broadcasted k r sn)
  then have "operating_on (Carry q) = operating_on (Carry (Snapping k r))" by (cases k) simp_all
  with Broadcasted assms show ?thesis
    by (auto simp: resume_data_def on_go_def intro: runtimes_after_broadcast split: if_splits)
qed (use assms in \<open>cases reply; auto simp: resume_data_def intro!: runtimes_listing runtimes_spawn split: if_splits\<close>)+

lemma runtimes_transport_resume:
  "resume_transport c q reply s = Some s' \<Longrightarrow> runtimes_ok None None s \<Longrightarrow> runtimes_ok None None s'"
  by (cases q; cases reply)
    (auto simp: resume_transport_def on_go_def on_settled_def intro!: runtime_intros split: if_splits)


lemma runtimes_dispose_closing:
  assumes ok: "runtimes_ok d fresh s" and live: "sv_lives s r = Some live" and new: "\<not> disposed s r"
    and closing: "sv_closing s" "sv_liveSessions s = []"
  shows "runtimes_ok d fresh (observe (Disposed r) (set_live r (\<lambda>l. l\<lparr>lv_subscribed := False\<rparr>) s))"
proof -
  note ok' = runtimes_okD [OF ok]
  show ?thesis
  proof (rule runtimes_okI, goal_cases)
    case (1 r')
    then show ?case using ok'(1,2) [of r'] live by (auto simp: runtime_simps split: if_splits)
  next
    case (4 r')
    then show ?case using ok'(5) [of r'] live by (auto simp: runtime_simps split: if_splits)
  next
    case 8
    then show ?case using runtimes_okD(9) [OF ok] new by (simp add: disposal_ok_snoc disposed_def)
  next
    case (9 r')
    then show ?case using runtimes_okD(10) [OF ok, of r'] by (auto simp: runtime_simps split: if_splits)
  next
    case (10 r' live')
    then show ?case using runtimes_okD(11) [OF ok, of r'] by (auto simp: runtime_simps split: if_splits)
  next
    case (12 r' live')
    then show ?case using runtimes_okD(13) [OF ok, of r'] by (auto simp: runtime_simps split: if_splits)
  qed (use ok closing in \<open>auto simp: runtime_simps dest: runtimes_okD\<close>)
qed

lemma not_disposing_distinct:
  assumes ok: "runtimes_ok d fresh s"
  shows "distinct (not_disposing s)"
    and "r \<in> set (not_disposing s) \<Longrightarrow> sv_lives s r \<noteq> None \<and> \<not> disposed s r"
proof -
  have get: "map_get (sv_liveSessions s) sid = Some r" if "(sid, r) \<in> set (sv_liveSessions s)" for sid r
    using that runtimes_okD(8) [OF ok] by (simp add: map_get_of_in_set)
  have id: "\<exists>live. sv_lives s r = Some live \<and> lv_id live = sid \<and> (disposed s r \<longrightarrow> lv_disposing live \<noteq> None)"
    if "(sid, r) \<in> set (sv_liveSessions s)" for sid r
    using runtimes_okD(3) [OF ok get [OF that]] .
  have "inj_on snd (set (sv_liveSessions s))"
  proof (rule inj_onI)
    fix x y assume "x \<in> set (sv_liveSessions s)" "y \<in> set (sv_liveSessions s)" "snd x = snd y"
    then obtain i j r where "x = (i, r)" "y = (j, r)" "(i, r) \<in> set (sv_liveSessions s)" "(j, r) \<in> set (sv_liveSessions s)"
      by (metis prod.collapse)
    with id [of i r] id [of j r] show "x = y" by auto
  qed
  then show "distinct (not_disposing s)"
    using runtimes_okD(8) [OF ok] unfolding not_disposing_def map_values_def
    by (intro distinct_filter) (simp add: distinct_map)
  show "sv_lives s r \<noteq> None \<and> \<not> disposed s r" if "r \<in> set (not_disposing s)"
    using that id by (fastforce simp: not_disposing_def map_values_def split: option.splits)
qed

lemma runtimes_close_sessions:
  assumes ok: "runtimes_ok None None s" and closing: "sv_closing s"
  shows "runtimes_ok None None (close_sessions s)"
proof -
  have dispose: "runtimes_ok None None
      (fold (\<lambda>r s. observe (Disposed r) (set_live r (\<lambda>l. l\<lparr>lv_subscribed := False\<rparr>) s)) rs s)"
    if "runtimes_ok None None s" "sv_closing s" "sv_liveSessions s = []" "distinct rs"
      "\<forall>r \<in> set rs. sv_lives s r \<noteq> None \<and> \<not> disposed s r" for rs s
    using that
  proof (induction rs arbitrary: s)
    case (Cons r rs)
    then obtain live where "sv_lives s r = Some live" by auto
    with Cons.prems have "runtimes_ok None None (observe (Disposed r) (set_live r (\<lambda>l. l\<lparr>lv_subscribed := False\<rparr>) s))"
      by (intro runtimes_dispose_closing) auto
    moreover have "\<forall>q \<in> set rs. sv_lives (observe (Disposed r) (set_live r (\<lambda>l. l\<lparr>lv_subscribed := False\<rparr>) s)) q \<noteq> None \<and>
        \<not> disposed (observe (Disposed r) (set_live r (\<lambda>l. l\<lparr>lv_subscribed := False\<rparr>) s)) q"
      using Cons.prems by (auto simp: runtime_simps)
    ultimately show ?case using Cons.IH Cons.prems by simp
  qed simp
  have "runtimes_ok None None (s\<lparr>sv_liveSessions := []\<rparr>)"
    using ok by (simp add: runtimes_ok_def disposed_def operations_on_def registrations_def)
  then show ?thesis unfolding close_sessions_def Let_def
    using not_disposing_distinct [OF ok] closing by (intro dispose) (auto simp: disposed_def)
qed

lemma runtimes_server_resume:
  assumes "resume_server q reply s = Some s'" "runtimes_ok None None s" "shutting_down (Background q) \<Longrightarrow> sv_closing s"
  shows "runtimes_ok None None s'"
  using assms
  by (cases q; cases reply)
    (auto simp: resume_server_def on_go_def closing_fold closing_disconnect intro!: runtime_intros intro: runtimes_close_sessions split: if_splits)


section \<open>Steps keep the runtimes in order\<close>

lemma map_filter_remove1:
  assumes "x \<in> set xs"
  shows "mset (List.map_filter f xs) = mset (List.map_filter f (remove1 x xs)) + (case f x of None \<Rightarrow> {#} | Some y \<Rightarrow> {#y#})"
  using assms by (induction xs) (auto simp: List.map_filter_def split: option.splits)

lemma runtimes_take_task:
  assumes ok: "runtimes_ok None None s" and task: "(t, p) \<in> set (sv_tasks s)"
  shows "runtimes_ok (operating_on p) (registering p) (s\<lparr>sv_tasks := remove1 (t, p) (sv_tasks s)\<rparr>)" (is "runtimes_ok _ _ ?s")
proof -
  note ok' = runtimes_okD [OF ok]
  have disposed: "disposed ?s = disposed s" by (simp add: disposed_def fun_eq_iff)
  have ops: "operations_on r s = operations_on r ?s + (if operating_on p = Some r then 1 else 0)" for r
    using task length_pos_if_in_set [of "(t, p)" "filter (\<lambda>(t, p). operating_on p = Some r) (sv_tasks s)"]
    by (auto simp: operations_on_def filter_remove1 length_remove1)
  have regs: "mset (registrations s) = mset (registrations ?s) + (case registering p of None \<Rightarrow> {#} | Some y \<Rightarrow> {#y#})"
    using map_filter_remove1 [OF task, of "\<lambda>(t, p). registering p"] by (simp add: registrations_def)
  have set_regs: "r \<in> set (registrations s)" if "r \<in> set (registrations ?s) \<or> registering p = Some r" for r
    using arg_cong [OF regs, of set_mset] that by (cases "registering p") auto
  have "mset (registrations s) = mset (registrations ?s @ (case registering p of None \<Rightarrow> [] | Some y \<Rightarrow> [y]))"
    using regs by (simp split: option.splits)
  from mset_eq_imp_distinct_iff [OF this] have "distinct (registrations ?s @ (case registering p of None \<Rightarrow> [] | Some y \<Rightarrow> [y]))"
    using ok'(6) by blast
  then have dist: "distinct (registrations ?s)" "registering p = Some r \<Longrightarrow> r \<notin> set (registrations ?s)" for r
    by auto
  show ?thesis
  proof (rule runtimes_okI, goal_cases)
    case (4 r)
    then show ?case using ok'(5) [of r] set_regs [of r] by (simp add: disposed)
  next
    case (9 r)
    then show ?case using ok'(10) [of r] ops [of r] by auto
  next
    case (10 r live)
    then show ?case using ok'(11) [of r live] ops [of r] by auto
  next
    case (11 t' q)
    then show ?case using ok'(12) [of t' q] notin_set_remove1 by fastforce
  next
    case (12 r live)
    then show ?case using ok'(13) [of r live] ops [of r] by (auto split: if_splits)
  qed (use ok' dist in \<open>simp_all add: disposed\<close>)
qed

lemma runtimes_close_task: "runtimes_ok d fresh s \<Longrightarrow> runtimes_ok d fresh (s\<lparr>sv_closing := True\<rparr>)"
  by (simp add: runtimes_ok_def disposed_def operations_on_def registrations_def)


lemma runtimes_dispose_returns:
  assumes ok: "runtimes_ok None None s" and live: "sv_lives s r = Some live" "lv_disposing live = Some DisposePending"
  shows "runtimes_ok None None (set_live r (\<lambda>l. l\<lparr>lv_disposing := Some result\<rparr>)
    (if map_get (sv_liveSessions s) (lv_id live) = Some r
     then s\<lparr>sv_liveSessions := map_remove (sv_liveSessions s) (lv_id live)\<rparr> else s))"
proof -
  have keep: "runtimes_ok None None (set_live r (\<lambda>l. l\<lparr>lv_disposing := Some result\<rparr>) s)"
    if ok: "runtimes_ok None None s" and live: "sv_lives s r = Some live" "lv_disposing live \<noteq> None" for s
  proof -
    note ok' = runtimes_okD [OF ok]
    have none: "sv_lives (set_live r g s) r' = None \<longleftrightarrow> sv_lives s r' = None" for r' g by simp
    show ?thesis
    proof (rule runtimes_okI, goal_cases)
      case (2 sid r')
      then show ?case using ok'(3) [of sid r'] by (auto simp: runtime_simps)
    next
      case (3 r' live)
      then show ?case using ok'(4) [of r'] by (auto simp: runtime_simps split: if_splits)
    next
      case (10 r' live)
      then show ?case using ok'(11) [of r'] by (auto simp: runtime_simps split: if_splits)
    next
      case (12 r' live')
      then show ?case using ok'(13) [of r' live'] ok'(13) [OF live(1)] live by (auto simp: runtime_simps split: if_splits)
    next
      case (11 t p)
      then show ?case using ok'(12) [of t p] by simp
    qed (use ok' none in \<open>auto simp: runtime_simps simp del: update_simps(22)\<close>)
  qed
  have "runtimes_ok None None (s\<lparr>sv_liveSessions := map_remove (sv_liveSessions s) (lv_id live)\<rparr>)"
    using ok by (auto simp: runtimes_ok_def disposed_def operations_on_def registrations_def map_remove_keys_distinct)
  with ok live show ?thesis by (auto intro: keep)
qed

lemma runtimes_accept: "runtimes_ok d fresh s \<Longrightarrow> runtimes_ok d fresh (accept s)"
  by (auto simp: accept_def Let_def runtimes_ok_def disposed_def operations_on_def registrations_def disposal_ok_snoc)

lemma runtimes_step:
  assumes "runtimes_ok None None s" "step a s = Some s'"
  shows "runtimes_ok None None s'"
proof (cases a)
  case (Resume t reply)
  then obtain p where p: "(t, p) \<in> set (sv_tasks s)"
    "resume p reply (s\<lparr>sv_tasks := remove1 (t, p) (sv_tasks s)\<rparr>) = Some s'"
    using assms(2) by (auto simp: step_def dest: map_of_SomeD split: option.splits)
  note ok = runtimes_take_task [OF assms(1) p(1)]
  have closing: "shutting_down p \<Longrightarrow> sv_closing (s\<lparr>sv_tasks := remove1 (t, p) (sv_tasks s)\<rparr>)"
    using runtimes_okD(12) [OF assms(1) p(1)] by simp
  show ?thesis
  proof (cases p)
    case (Serve rq q)
    with ok p(2) show ?thesis by (auto simp: resume_def intro: runtimes_request)
  next
    case (OpenSession i q)
    with ok p(2) show ?thesis by (auto simp: resume_def intro: runtimes_opening)
  next
    case (Carry q)
    with ok p(2) show ?thesis by (auto simp: resume_def intro: runtimes_data)
  next
    case (Transport c q)
    with ok p(2) show ?thesis by (auto simp: resume_def intro: runtimes_transport_resume)
  next
    case (Background q)
    with ok p(2) closing show ?thesis by (auto simp: resume_def intro: runtimes_server_resume)
  qed
next
  case (DisposeReturns r result)
  then obtain live where live: "sv_lives s r = Some live" "lv_disposing live = Some DisposePending"
    using assms(2) by (auto simp: step_def split: option.splits if_splits)
  then show ?thesis using runtimes_dispose_returns [OF assms(1) live] assms(2) DisposeReturns
    by (simp add: step_def Let_def) blast
next
  case (RuntimeEvent r e)
  with assms show ?thesis by (auto simp: step_def intro: runtimes_events split: option.splits if_splits)
next
  case Close
  with assms show ?thesis by (auto simp: step_def intro!: runtimes_spawn runtimes_close_task split: if_splits)
next
  case (PhaseChange r phase)
  with assms show ?thesis by (auto simp: step_def intro!: runtimes_set_live split: if_splits)
next
  case Accept
  with assms show ?thesis by (auto simp: step_def intro: runtimes_accept)
next
  case (Receive c decoded)
  with assms show ?thesis by (auto simp: step_def intro: runtimes_messages split: if_splits)
qed (use assms in \<open>auto simp: step_def intro: runtimes_send runtimes_disconnect runtimes_set_conn runtimes_spawn runtimes_transport
    split: option.splits if_splits\<close>)

lemma runtimes_new: "runtimes_ok None None (new_server encodable uuid)"
  by (simp add: runtimes_ok_def new_server_def disposed_def operations_on_def registrations_def List.map_filter_def)

interpretation live_runtimes: server_invariant "runtimes_ok None None"
  by unfold_locales (auto intro: runtimes_new runtimes_step)

section \<open>What this means for the runtimes\<close>

lemma disposal_ok_once: "disposal_ok es \<Longrightarrow> length (filter (\<lambda>e. e = Disposed r) es) \<le> 1"
proof (induction es rule: disposal_ok.induct)
  case (2 r' es)
  then show ?case by (auto simp: filter_empty_conv)
qed auto

lemma disposal_ok_after: "disposal_ok (before @ Disposed r # after) \<Longrightarrow> Started r op \<notin> set after"
  by (induction before rule: disposal_ok.induct) auto

text \<open>
  C10. Whatever the order in which calls return, clients send and connections close: the server disposes a
  runtime at most once, never starts an operation on a runtime it has disposed, and until it closes down
  a runtime it has disposed has no operation left that still runs.
\<close>

theorem runtimes_disposed_once_and_idle:
  assumes "reachable (new_server encodable uuid) s"
  shows "length (filter (\<lambda>e. e = Disposed r) (sv_log s)) \<le> 1 \<and>
    (\<forall>before after op. sv_log s = before @ Disposed r # after \<longrightarrow> Started r op \<notin> set after) \<and>
    (Disposed r \<in> set (sv_log s) \<longrightarrow> sv_closing s \<or> operations_on r s = 0)"
proof -
  note ok = runtimes_okD [OF live_runtimes.reachable_good [OF assms]]
  have "sv_closing s \<or> operations_on r s = 0" if "Disposed r \<in> set (sv_log s)"
  proof (cases "sv_lives s r")
    case None
    then show ?thesis using ok(10) [of r] by simp
  next
    case (Some live)
    then show ?thesis using ok(4) [of r live] ok(13) [of r live] that by (auto simp: disposed_def)
  qed
  with disposal_ok_once [OF ok(9)] disposal_ok_after ok(9) show ?thesis by metis
qed

text \<open>A prompt still runs when its connection detaches; the session is disposed when the prompt has ended.\<close>

definition prompt_detach_run :: "action list" where
  "prompt_detach_run = attach_run @ [Receive 0 (Inr [Request ''b'' (RuntimeCommand ''s'' (PromptOp ''hi''))]),
     Receive 0 (Inr [Request ''c'' (DetachCommand ''s'')]), Resume 25 Go, Resume 24 Go,
     Resume 28 (GotSnapshot (plain_snapshot ''s'')), Resume 29 Go, Resume 30 Go, DisposeReturns 7 None]"

lemma prompt_detach_result:
  "case run prompt_detach_run example_server of None \<Rightarrow> False
   | Some s \<Rightarrow> Disposed 7 \<in> set (sv_log s) \<and> Started 7 (PromptOp ''hi'') \<in> set (sv_log s) \<and> \<not> sv_closing s"
  by code_simp

theorem runtimes_disposed_once_and_idle_witness:
  "\<exists>s. reachable example_server s \<and> Disposed 7 \<in> set (sv_log s) \<and> Started 7 (PromptOp ''hi'') \<in> set (sv_log s) \<and>
     length (filter (\<lambda>e. e = Disposed 7) (sv_log s)) \<le> 1 \<and> operations_on 7 s = 0"
proof -
  obtain s where s: "reachable example_server s" "Disposed 7 \<in> set (sv_log s) \<and>
    Started 7 (PromptOp ''hi'') \<in> set (sv_log s) \<and> \<not> sv_closing s"
    using run_witness [OF prompt_detach_result] .
  with runtimes_disposed_once_and_idle [OF s(1) [unfolded example_server_def], of 7] show ?thesis by blast
qed

end
