(* ===== verification/Server_Requests.thy ===== *)
theory Server_Requests
  imports Server_Runtimes
begin

text \<open>
  Every request is accounted for: it is answered once, or its task still runs, or its connection is
  gone.
\<close>

section \<open>Requests and answers\<close>

fun snapshot_request :: "snapshot_for \<Rightarrow> client_request option" where
  "snapshot_request (ForSession rq) = Some rq"
| "snapshot_request (ForOperation rq) = Some rq"
| "snapshot_request (ForDetach rq sid) = Some rq"
| "snapshot_request ForEvent = None"

fun listing_request :: "listing_for \<Rightarrow> client_request option" where
  "listing_request (ListFor rq) = Some rq"
| "listing_request k = None"

fun point_request :: "point \<Rightarrow> client_request option" where
  "point_request (Serve rq q) = Some rq"
| "point_request (Carry (Listing k)) = listing_request k"
| "point_request (Carry (ListingLive k stored rs)) = listing_request k"
| "point_request (Carry (Snapping k r)) = snapshot_request k"
| "point_request (Carry (Normalized k r sn)) = snapshot_request k"
| "point_request (Carry (Broadcasted k r sn)) = snapshot_request k"
| "point_request p = None"

definition owed :: "client_request option \<Rightarrow> nat \<Rightarrow> ident \<Rightarrow> nat" where
  "owed d c i = (if \<exists>rq. d = Some rq \<and> rq_conn rq = c \<and> rq_id rq = i then 1 else 0)"

definition pending :: "nat \<Rightarrow> ident \<Rightarrow> server \<Rightarrow> nat" where
  "pending c i s = sum_list (map (\<lambda>(t, p). owed (point_request p) c i) (sv_tasks s))"

fun answers_request :: "nat \<Rightarrow> ident \<Rightarrow> observation \<Rightarrow> bool" where
  "answers_request c i (Sent c' (ResponseOk i' v)) \<longleftrightarrow> c' = c \<and> i' = i"
| "answers_request c i (Sent c' (ResponseError i' code)) \<longleftrightarrow> c' = c \<and> i' = i"
| "answers_request c i e \<longleftrightarrow> False"

definition answered :: "nat \<Rightarrow> ident \<Rightarrow> server \<Rightarrow> nat" where
  "answered c i s = length (filter (answers_request c i) (sv_log s))"

definition requested :: "nat \<Rightarrow> ident \<Rightarrow> server \<Rightarrow> nat" where
  "requested c i s = length (filter (\<lambda>e. e = Requested c i) (sv_log s))"

definition open_connection :: "server \<Rightarrow> nat \<Rightarrow> bool" where
  "open_connection s c \<longleftrightarrow> \<not> sv_closing s \<and> (\<exists>cn. sv_conns s c = Some cn \<and> \<not> cn_disconnected cn \<and>
     \<not> cn_closed cn \<and> \<not> cn_closeCalled cn \<and> cn_stage cn \<noteq> Closing \<and> cn_stage cn \<noteq> Closed)"

definition shaking_hands :: "server \<Rightarrow> nat \<Rightarrow> bool" where
  "shaking_hands s c \<longleftrightarrow> (\<exists>cn. sv_conns s c = Some cn \<and> (cn_stage cn = AwaitingHello \<or> cn_stage cn = Handshaking))"

definition past_handshake :: "server \<Rightarrow> nat \<times> bool \<Rightarrow> bool" where
  "past_handshake s x \<longleftrightarrow>
     (\<exists>cn. sv_conns s (fst x) = Some cn \<and> cn_stage cn \<noteq> AwaitingHello \<and> (snd x \<longrightarrow> cn_stage cn \<noteq> Handshaking))"

definition abandoned :: "server \<Rightarrow> nat \<Rightarrow> bool" where
  "abandoned s c \<longleftrightarrow> shaking_hands s c \<and> handshake_settled s c"

text \<open>The points of a handshake: those of the snapshot in its reply, and those of a second snapshot, sent to a
  connection that is ready.\<close>

fun greets :: "point \<Rightarrow> (nat \<times> bool) option" where
  "greets (Carry (Listing (HelloFor c revision refresh))) = Some (c, refresh)"
| "greets (Carry (ListingLive (HelloFor c revision refresh) stored rs)) = Some (c, refresh)"
| "greets (Transport c (HelloModels revision refresh sessions)) = Some (c, refresh)"
| "greets (Transport c (Sending (HelloSend revision))) = Some (c, False)"
| "greets (Transport c (Sending RefreshSend)) = Some (c, True)"
| "greets (Transport c (SendFailed (HelloSend revision))) = Some (c, False)"
| "greets (Transport c (SendFailed RefreshSend)) = Some (c, True)"
| "greets p = None"

definition requests_ok :: "client_request option \<Rightarrow> server \<Rightarrow> bool" where
  "requests_ok d s \<longleftrightarrow>
     (\<forall>c i. answered c i s + pending c i s + owed d c i \<le> requested c i s) \<and>
     (\<forall>c i. open_connection s c \<longrightarrow> answered c i s + pending c i s + owed d c i = requested c i s) \<and>
     (\<forall>c. sv_next s \<le> c \<longrightarrow> sv_conns s c = None) \<and>
     (\<forall>c i. sv_conns s c = None \<longrightarrow> requested c i s = 0) \<and>
     (\<forall>c. open_connection s c \<longrightarrow> \<not> abandoned s c) \<and>
     (\<forall>t p x. (t, p) \<in> set (sv_tasks s) \<longrightarrow> greets p = Some x \<longrightarrow> past_handshake s x)"

lemma requests_okD:
  assumes "requests_ok d s"
  shows "answered c i s + pending c i s + owed d c i \<le> requested c i s"
    "open_connection s c \<Longrightarrow> answered c i s + pending c i s + owed d c i = requested c i s"
    "sv_next s \<le> c \<Longrightarrow> sv_conns s c = None"
    "sv_conns s c = None \<Longrightarrow> requested c i s = 0"
    "open_connection s c \<Longrightarrow> \<not> abandoned s c"
    "(t, p) \<in> set (sv_tasks s) \<Longrightarrow> greets p = Some x \<Longrightarrow> past_handshake s x"
  using assms unfolding requests_ok_def by blast+

lemma requests_okI:
  assumes "\<And>c i. answered c i s + pending c i s + owed d c i \<le> requested c i s"
    "\<And>c i. open_connection s c \<Longrightarrow> answered c i s + pending c i s + owed d c i = requested c i s"
    "\<And>c. sv_next s \<le> c \<Longrightarrow> sv_conns s c = None"
    "\<And>c i. sv_conns s c = None \<Longrightarrow> requested c i s = 0"
    "\<And>c. open_connection s c \<Longrightarrow> \<not> abandoned s c"
    "\<And>t p x. (t, p) \<in> set (sv_tasks s) \<Longrightarrow> greets p = Some x \<Longrightarrow> past_handshake s x"
  shows "requests_ok d s"
  unfolding requests_ok_def using assms by blast

lemma owed_None [simp]: "owed None c i = 0"
  by (simp add: owed_def)

lemma request_counts:
  "pending c i (spawn p s) = pending c i s + owed (point_request p) c i"
  "pending c i (observe e s) = pending c i s" "pending c i (set_conn c' f s) = pending c i s"
  "pending c i (set_live r g s) = pending c i s" "pending c i (settle_opening q pr s) = pending c i s"
  "answered c i (spawn p s) = answered c i s" "answered c i (set_conn c' f s) = answered c i s"
  "answered c i (set_live r g s) = answered c i s" "answered c i (settle_opening q pr s) = answered c i s"
  "answered c i (observe e s) = answered c i s + (if answers_request c i e then 1 else 0)"
  "requested c i (spawn p s) = requested c i s" "requested c i (set_conn c' f s) = requested c i s"
  "requested c i (set_live r g s) = requested c i s" "requested c i (settle_opening q pr s) = requested c i s"
  "requested c i (observe e s) = requested c i s + (if e = Requested c i then 1 else 0)"
  by (simp_all add: pending_def answered_def requested_def)

lemma connection_views:
  "open_connection (spawn p s) c = open_connection s c" "open_connection (observe e s) c = open_connection s c"
  "open_connection (set_live r g s) c = open_connection s c" "open_connection (settle_opening q pr s) c = open_connection s c"
  "abandoned (spawn p s) c = abandoned s c" "abandoned (observe e s) c = abandoned s c"
  "abandoned (set_live r g s) c = abandoned s c" "abandoned (settle_opening q pr s) c = abandoned s c"
  "shaking_hands (spawn p s) c = shaking_hands s c" "shaking_hands (observe e s) c = shaking_hands s c"
  "shaking_hands (set_live r g s) c = shaking_hands s c" "shaking_hands (settle_opening q pr s) c = shaking_hands s c"
  "past_handshake (spawn p s) x = past_handshake s x" "past_handshake (observe e s) x = past_handshake s x"
  "past_handshake (set_live r g s) x = past_handshake s x" "past_handshake (settle_opening q pr s) x = past_handshake s x"
  by (simp_all add: open_connection_def abandoned_def shaking_hands_def past_handshake_def handshake_settled_def)

lemmas request_simps = request_counts connection_views

named_theorems request_intros \<open>what keeps the account of the requests\<close>

lemma requests_spawn [request_intros]:
  assumes "requests_ok d s" "point_request p = None" "greets p = None"
  shows "requests_ok d (spawn p s)"
  using assms by (auto simp: requests_ok_def request_simps)

lemma requests_spawn_refresh:
  assumes "requests_ok d s" "point_request p = None" "\<And>x. greets p = Some x \<Longrightarrow> past_handshake s x"
  shows "requests_ok d (spawn p s)"
  using assms by (auto simp: requests_ok_def request_simps)

lemma requests_spawn_request:
  assumes "requests_ok (Some rq) s" "point_request p = Some rq" "greets p = None"
  shows "requests_ok None (spawn p s)"
  using assms by (auto simp: requests_ok_def request_simps ac_simps)

lemma requests_observe [request_intros]:
  assumes "requests_ok d s" "\<And>c i. e \<noteq> Requested c i" "\<And>c i. \<not> answers_request c i e"
  shows "requests_ok d (observe e s)"
  using assms by (auto simp: requests_ok_def request_simps)

lemma requests_requested:
  assumes "requests_ok None s" "sv_conns s (rq_conn rq) \<noteq> None"
  shows "requests_ok (Some rq) (observe (Requested (rq_conn rq) (rq_id rq)) s)"
  using assms by (auto simp: requests_ok_def request_simps owed_def)

lemma requests_answered:
  assumes "requests_ok (Some rq) s" "\<And>c i. answers_request c i e \<longleftrightarrow> rq_conn rq = c \<and> rq_id rq = i"
    "\<And>c i. e \<noteq> Requested c i"
  shows "requests_ok None (observe e s)"
proof (rule requests_okI, goal_cases)
  case (1 c i)
  then show ?case using requests_okD(1) [OF assms(1), of c i] assms(2) [of c i] assms(3) [of c i]
    by (auto simp: request_simps owed_def)
next
  case (2 c i)
  then show ?case using requests_okD(2) [OF assms(1), of c i] assms(2) [of c i] assms(3) [of c i]
    by (auto simp: request_simps owed_def)
qed (use requests_okD [OF assms(1)] assms(3) in \<open>simp_all add: request_simps\<close>)

lemma requests_dropped:
  assumes "requests_ok (Some rq) s" "\<not> open_connection s (rq_conn rq)"
  shows "requests_ok None s"
proof (rule requests_okI, goal_cases)
  case (1 c i)
  then show ?case using requests_okD(1) [OF assms(1), of c i] by simp
next
  case (2 c i)
  then have "owed (Some rq) c i = 0" using assms(2) by (auto simp: owed_def)
  then show ?case using requests_okD(2) [OF assms(1) 2, of i] by simp
qed (use requests_okD [OF assms(1)] in simp_all)

lemma requests_set_live [request_intros]: "requests_ok d s \<Longrightarrow> requests_ok d (set_live r g s)"
  by (simp add: requests_ok_def request_simps)

lemma requests_settle [request_intros]: "requests_ok d s \<Longrightarrow> requests_ok d (settle_opening p result s)"
  by (simp add: requests_ok_def request_simps)

text \<open>Changes of a connection never open it, and a settled handshake leaves it ready or closed.\<close>

definition keeps_account :: "(connection \<Rightarrow> connection) \<Rightarrow> bool" where
  "keeps_account f \<longleftrightarrow> (\<forall>n.
     (cn_disconnected n \<longrightarrow> cn_disconnected (f n)) \<and> (cn_closed n \<longrightarrow> cn_closed (f n)) \<and>
     (cn_closeCalled n \<longrightarrow> cn_closeCalled (f n)) \<and>
     (cn_stage n = Closing \<or> cn_stage n = Closed \<longrightarrow> cn_stage (f n) = Closing \<or> cn_stage (f n) = Closed) \<and>
     (cn_stage (f n) = AwaitingHello \<longrightarrow> cn_stage n = AwaitingHello) \<and>
     (cn_stage (f n) = AwaitingHello \<or> cn_stage (f n) = Handshaking \<longrightarrow>
        (cn_stage n = AwaitingHello \<or> cn_stage n = Handshaking) \<and> (cn_handshake (f n) \<longrightarrow> cn_handshake n)))"

lemma requests_set_conn:
  assumes ok: "requests_ok d s" and f: "keeps_account f"
  shows "requests_ok d (set_conn c f s)"
proof -
  have opened: "open_connection s c'" if "open_connection (set_conn c f s) c'" for c'
    using that f by (cases "c' = c") (auto simp: open_connection_def keeps_account_def)
  have shaking: "shaking_hands s c'" if "shaking_hands (set_conn c f s) c'" for c'
    using that f by (cases "c' = c") (auto simp: shaking_hands_def keeps_account_def)
  have past: "past_handshake (set_conn c f s) x" if "past_handshake s x" for x
    using that f by (cases "fst x = c") (auto simp: keeps_account_def past_handshake_def)
  have abandoned: "abandoned s c'" if "abandoned (set_conn c f s) c'" for c'
    using that f by (cases "c' = c") (auto simp: abandoned_def shaking_hands_def handshake_settled_def keeps_account_def)
  note ok' = requests_okD [OF ok]
  show ?thesis
  proof (rule requests_okI, goal_cases)
    case (2 c' i)
    then show ?case using ok'(2) [OF opened, of c' i] by (simp add: request_simps)
  next
    case (3 c')
    then show ?case using ok'(3) [of c'] ok'(3) [of c] by auto
  next
    case (4 c' i)
    then show ?case using ok'(4) [of c' i] by (auto simp: request_simps split: if_splits)
  next
    case (5 c')
    then show ?case using ok'(5) opened abandoned by blast
  next
    case (6 t p c')
    then show ?case using ok'(6) [of t p c'] past by auto
  qed (use ok' in \<open>simp add: request_simps\<close>)
qed

lemma requests_finish_handshake:
  assumes ok: "requests_ok d s" and "\<not> (open_connection s c \<and> shaking_hands s c)"
  shows "requests_ok d (finish_handshake c s)"
proof -
  note ok' = requests_okD [OF ok]
  have same: "open_connection (finish_handshake c s) c' = open_connection s c'"
    "shaking_hands (finish_handshake c s) c' = shaking_hands s c'"
    "past_handshake (finish_handshake c s) x = past_handshake s x" for c' x
    by (auto simp: finish_handshake_def open_connection_def shaking_hands_def past_handshake_def)
  have "abandoned (finish_handshake c s) c' \<longleftrightarrow> abandoned s c'" if "c' \<noteq> c" for c'
    using that unfolding abandoned_def same by (simp add: finish_handshake_def handshake_settled_def)
  then have "\<not> abandoned (finish_handshake c s) c'" if "open_connection s c'" for c'
    using ok'(5) [OF that] assms(2) that same by (cases "c' = c") (auto simp: abandoned_def)
  with same ok' show ?thesis
    by (intro requests_okI) (auto simp: finish_handshake_def request_simps split: if_splits)
qed


section \<open>Operations that serve no request\<close>

lemma requests_counters [request_intros]:
  "requests_ok d s \<Longrightarrow> requests_ok d (s\<lparr>sv_broadcasts := n\<rparr>)"
  "requests_ok d s \<Longrightarrow> requests_ok d (s\<lparr>sv_broadcastsDone := n\<rparr>)"
  "requests_ok d s \<Longrightarrow> requests_ok d (s\<lparr>sv_revision := n\<rparr>)"
  "requests_ok d s \<Longrightarrow> requests_ok d (s\<lparr>sv_connections := cs\<rparr>)"
  "requests_ok d s \<Longrightarrow> requests_ok d (s\<lparr>sv_openingSessions := opens\<rparr>)"
  "requests_ok d s \<Longrightarrow> requests_ok d (s\<lparr>sv_liveSessions := lives\<rparr>)"
  "requests_ok d s \<Longrightarrow> requests_ok d (s\<lparr>sv_liveSessions := lives, sv_lives := objects\<rparr>)"
  by (simp_all add: requests_ok_def pending_def answered_def requested_def open_connection_def abandoned_def
      shaking_hands_def past_handshake_def handshake_settled_def)

lemma requests_fold [request_intros]:
  "requests_ok d s \<Longrightarrow> (\<And>x s. requests_ok d s \<Longrightarrow> requests_ok d (f x s)) \<Longrightarrow> requests_ok d (fold f xs s)"
  by (induction xs arbitrary: s) auto

lemma requests_closing_transport [request_intros]:
  "requests_ok d s \<Longrightarrow> requests_ok d (closing_transport c final s)"
  unfolding closing_transport_def
  by (auto intro!: requests_observe requests_set_conn simp: keeps_account_def)

lemma closing_transport_closes: "\<not> open_connection (closing_transport c final s) c"
  by (auto simp: closing_transport_def open_connection_def)

lemma requests_maybeDispose: "requests_ok d s \<Longrightarrow> maybeDispose r s = (w, s') \<Longrightarrow> requests_ok d s'"
  by (auto simp: maybeDispose_def intro!: request_intros split: option.splits if_splits)

lemma requests_broadcast [request_intros]:
  "requests_ok d s \<Longrightarrow> requests_ok d (broadcast s)"
  "requests_ok d s \<Longrightarrow> requests_ok d (after_dispose r w s)"
  "requests_ok d s \<Longrightarrow> requests_ok d (broadcast_finished s)"
  by (auto simp: broadcast_def after_dispose_def broadcast_finished_def intro!: request_intros)

lemma requests_schedule [request_intros]: "requests_ok d s \<Longrightarrow> requests_ok d (scheduleMaybeDispose r s)"
  by (auto simp: scheduleMaybeDispose_def intro!: requests_spawn dest: requests_maybeDispose split: prod.splits)

lemma requests_end_operation [request_intros]: "requests_ok d s \<Longrightarrow> requests_ok d (end_operation r s)"
  by (auto simp: end_operation_def intro!: request_intros)

lemma requests_dispose_each: "requests_ok d s \<Longrightarrow> dispose_each rs s = (ws, s') \<Longrightarrow> requests_ok d s'"
proof (induction rs arbitrary: s ws s')
  case (Cons r rs)
  obtain w s1 where w: "maybeDispose r s = (w, s1)" by fastforce
  obtain ws2 s2 where rest: "dispose_each rs (if w = Starter then spawn (Background (Disposing r)) s1 else s1) = (ws2, s2)"
    by fastforce
  have "requests_ok d (if w = Starter then spawn (Background (Disposing r)) s1 else s1)"
    using requests_maybeDispose [OF Cons.prems(1) w] by (auto intro: requests_spawn)
  from Cons.IH [OF this rest] Cons.prems(2) w rest show ?case by simp
qed simp

lemma requests_disconnect [request_intros]:
  assumes "requests_ok d s"
  shows "requests_ok d (disconnect c s)"
  using assms
  by (auto simp: disconnect_def Let_def keeps_account_def
      intro!: requests_spawn requests_set_conn requests_counters requests_fold requests_set_live
      elim!: requests_dispose_each [rotated] split: option.splits prod.splits)

lemma conns_maybeDispose: "maybeDispose r s = (w, s') \<Longrightarrow> sv_conns s' = sv_conns s"
  by (auto simp: maybeDispose_def split: option.splits if_splits)

lemma conns_dispose_each: "dispose_each rs s = (ws, s') \<Longrightarrow> sv_conns s' = sv_conns s"
proof (induction rs arbitrary: s ws s')
  case (Cons r rs)
  obtain w s1 where w: "maybeDispose r s = (w, s1)" by fastforce
  obtain ws2 s2 where rest: "dispose_each rs (if w = Starter then spawn (Background (Disposing r)) s1 else s1) = (ws2, s2)"
    by fastforce
  from Cons.IH [OF rest] Cons.prems w rest conns_maybeDispose [OF w] show ?case by (simp split: if_splits)
qed simp

lemma conns_fold_set_live: "sv_conns (fold (\<lambda>r. set_live r (g r)) rs s) = sv_conns s"
  by (induction rs arbitrary: s) simp_all

lemma disconnect_closes: "\<not> open_connection (disconnect c s) c"
  by (auto simp: disconnect_def open_connection_def Let_def conns_fold_set_live dest!: conns_dispose_each
      split: option.splits prod.splits if_splits)

lemma past_closing: "past_handshake (closing_transport c final s) x = past_handshake s x"
  by (auto simp: past_handshake_def closing_transport_def)

lemma requests_send_failed:
  assumes "requests_ok d s" "\<And>x. greets (Transport c (Sending k)) = Some x \<Longrightarrow> past_handshake s x"
  shows "requests_ok d (spawn (Transport c (SendFailed k)) (closing_transport c None s))"
proof (rule requests_spawn_refresh)
  show "requests_ok d (closing_transport c None s)" using assms(1) by (rule requests_closing_transport)
qed (use assms(2) in \<open>cases k; auto simp: past_closing\<close>)+

lemma requests_send:
  assumes "requests_ok d s" "\<And>i. \<not> answers_request c i (Sent c m)" "\<And>x. greets (Transport c (Sending k)) = Some x \<Longrightarrow> past_handshake s x"
  shows "requests_ok d (sendMessage k c m s)"
proof (cases "sv_conns s c")
  case (Some cn)
  have sent: "requests_ok d (spawn (Transport c (Sending k)) (observe (Sent c m) s))"
  proof (rule requests_spawn_refresh)
    have "\<not> answers_request c' i (Sent c m)" for c' i using assms(2) [of i] by (cases m) auto
    then show "requests_ok d (observe (Sent c m) s)" using assms(1) by (auto intro: requests_observe)
  qed (use assms(3) in \<open>cases k; auto simp: request_simps\<close>)+
  have failed: "requests_ok d (spawn (Transport c (SendFailed k)) (closing_transport c None s))"
    using assms by (intro requests_send_failed) auto
  have gone: "requests_ok d (finish_handshake c s)" if "cn_disconnected cn \<or> cn_closed cn"
    using that Some assms(1) by (intro requests_finish_handshake) (auto simp: open_connection_def)
  show ?thesis using sent failed gone assms(1) Some by (simp add: sendMessage_def)
qed (use assms in \<open>simp add: sendMessage_def\<close>)

lemma requests_send_plain [request_intros]:
  assumes "requests_ok d s" "\<And>i. \<not> answers_request c i (Sent c m)"
  shows "requests_ok d (sendMessage PlainSend c m s)"
  using assms by (intro requests_send) auto

lemma requests_send_each [request_intros]:
  assumes "requests_ok d s" "\<And>c i. \<not> answers_request c i (Sent c m)"
  shows "requests_ok d (send_each m cs s)"
  unfolding send_each_def using assms by (auto intro!: request_intros)

lemma requests_failProtocol [request_intros]: "requests_ok d s \<Longrightarrow> requests_ok d (failProtocol c code s)"
  unfolding failProtocol_def
  by (auto simp: keeps_account_def intro!: requests_spawn requests_closing_transport requests_set_conn split: option.splits)

lemma failProtocol_closes: "\<not> open_connection (failProtocol c code s) c"
  by (auto simp: failProtocol_def open_connection_def closing_transport_def split: option.splits)

lemma requests_hello_failed: "requests_ok d s \<Longrightarrow> requests_ok d (finish_handshake c (failProtocol c code s))"
  using failProtocol_closes by (auto intro!: requests_finish_handshake requests_failProtocol)

section \<open>Serving a request\<close>

lemma requests_serve: "requests_ok (Some rq) s \<Longrightarrow> requests_ok None (spawn (Serve rq q) s)"
  by (rule requests_spawn_request) simp_all

lemma requests_carry: "requests_ok (Some rq) s \<Longrightarrow> snapshot_request k = Some rq \<Longrightarrow> requests_ok None (spawn (Carry (Snapping k r)) s)"
  by (rule requests_spawn_request) simp_all

lemma requests_open: "requests_ok d s \<Longrightarrow> requests_ok d (spawn (OpenSession p q) s)"
  by (rule requests_spawn) simp_all

lemmas serving_intros = requests_serve requests_carry requests_open requests_set_live requests_settle requests_counters

lemma requests_respond:
  assumes "requests_ok (Some rq) s"
  shows "requests_ok None (respond rq result s)"
proof -
  let ?m = "case result of Inl e \<Rightarrow> ResponseError (rq_id rq) (toProtocolError e) | Inr v \<Rightarrow> ResponseOk (rq_id rq) v"
  have answer: "answers_request c i (Sent (rq_conn rq) ?m) \<longleftrightarrow> rq_conn rq = c \<and> rq_id rq = i" for c i
    by (cases result) auto
  have sent: "requests_ok None (spawn (Transport (rq_conn rq) (Sending PlainSend)) (observe (Sent (rq_conn rq) ?m) s))"
    using assms answer by (intro requests_spawn requests_answered [of rq]) auto
  have failed: "requests_ok None (spawn (Transport (rq_conn rq) (SendFailed PlainSend)) (closing_transport (rq_conn rq) None s))"
    using assms closing_transport_closes by (intro requests_spawn requests_dropped [of rq] requests_closing_transport) auto
  have gone: "requests_ok None s"
    if "\<forall>cn. sv_conns s (rq_conn rq) = Some cn \<longrightarrow> cn_disconnected cn \<or> cn_closed cn"
    using that assms by (intro requests_dropped [of rq]) (auto simp: open_connection_def)
  show ?thesis unfolding respond_def sendMessage_def
    using sent failed gone by (auto split: option.splits)
qed

lemma requests_list_failed:
  assumes "requests_ok (listing_request k) s"
  shows "requests_ok None (list_failed k e s)"
  using assms by (cases k) (auto simp: list_failed_def intro: requests_serve requests_hello_failed requests_broadcast)

lemma requests_list_done:
  assumes "requests_ok (listing_request k) s" "\<And>c revision refresh. k = HelloFor c revision refresh \<Longrightarrow> past_handshake s (c, refresh)"
  shows "requests_ok None (list_done k ms s)"
proof (cases k)
  case (HelloFor c revision refresh)
  with assms have "requests_ok None s" "past_handshake s (c, refresh)" by simp_all
  with HelloFor show ?thesis by (auto simp: list_done_def intro!: requests_spawn_refresh)
qed (use assms in \<open>auto simp: list_done_def intro: requests_serve requests_spawn\<close>)

lemma requests_acquire:
  assumes "requests_ok (Some rq) s"
  shows "requests_ok None (acquire rq sid options s)"
  using assms by (auto simp: acquire_def Let_def intro!: serving_intros split: option.splits)

lemma requests_attach:
  assumes "requests_ok (Some rq) s"
  shows "requests_ok None (attach rq r s)"
  using assms
  by (auto simp: attach_def keeps_account_def intro!: serving_intros requests_set_conn
      dest: requests_maybeDispose split: option.splits prod.splits)

lemma requests_detach:
  assumes "requests_ok (Some rq) s"
  shows "requests_ok None (detach rq sid s)"
proof -
  let ?cut = "set_conn (rq_conn rq) (\<lambda>n. n\<lparr>cn_sessionIds := removeAll sid (cn_sessionIds n)\<rparr>) s"
  have cut: "requests_ok (Some rq) ?cut"
    using assms by (auto simp: keeps_account_def intro!: requests_set_conn)
  then have live: "requests_ok (Some rq) (set_live r g ?cut)" for r g by (rule requests_set_live)
  have disposed: "requests_ok (Some rq) s'" if "maybeDispose r' (set_live r g ?cut) = (w, s')" for r r' g w s'
    using requests_maybeDispose [OF live that] .
  show ?thesis
  proof (cases "sv_conns s (rq_conn rq)")
    case (Some cn)
    show ?thesis
    proof (cases "sid \<in> set (cn_sessionIds cn)")
      case True
      with Some cut live disposed show ?thesis
        by (auto simp: detach_def Let_def simp del: update_simps intro!: serving_intros requests_broadcast
            split: option.splits prod.splits)
    qed (use Some assms in \<open>auto simp: detach_def Let_def intro: requests_serve\<close>)
  qed (use assms in \<open>auto simp: detach_def Let_def intro: requests_serve\<close>)
qed

lemma requests_execute:
  assumes "requests_ok (Some rq) s"
  shows "requests_ok None (executeCommand rq s)"
proof (cases "rq_command rq")
  case (RuntimeCommand sid op)
  with assms show ?thesis
    by (auto simp: executeCommand_def runOperation_def intro!: serving_intros requests_observe split: sum.splits)
next
  case ListCommand
  with assms show ?thesis by (auto simp: executeCommand_def intro: requests_spawn_request)
qed (use assms in \<open>auto simp: executeCommand_def intro: requests_acquire requests_detach\<close>)


lemma requests_snapshot_failed:
  "requests_ok (snapshot_request k) s \<Longrightarrow> requests_ok None (snapshot_failed k r e s)"
  by (cases k) (auto simp: snapshot_failed_def intro: requests_serve)

lemma requests_snapshot_arrived:
  assumes "requests_ok (snapshot_request k) s"
  shows "requests_ok None (snapshot_arrived k r sn s)"
proof -
  have "requests_ok None (spawn (Carry (Normalized k r sn')) s)" for sn'
    using assms by (cases "snapshot_request k") (auto intro: requests_spawn_request requests_spawn)
  then show ?thesis using requests_snapshot_failed [OF assms]
    by (auto simp: snapshot_arrived_def split: option.splits)
qed

lemma requests_broadcast_snapshot:
  assumes "requests_ok (snapshot_request k) s"
  shows "requests_ok None (broadcast_snapshot k r sn s)"
proof -
  have "requests_ok (snapshot_request k) (send_each (SessionSnapshotEvent sn) cs s)" for cs
    using assms by (auto intro!: requests_send_each)
  then show ?thesis
    by (cases k) (auto simp: broadcast_snapshot_def Let_def
        intro!: requests_spawn_request [where p = "Carry (Broadcasted _ _ _)"])
qed

lemma requests_after_broadcast:
  assumes "requests_ok (snapshot_request k) s"
  shows "requests_ok None (after_broadcast k r sn s)"
  using assms
  by (cases k) (auto simp: after_broadcast_def intro!: requests_serve requests_broadcast requests_end_operation
      dest: requests_maybeDispose split: prod.splits)

section \<open>Messages and events\<close>

lemma requests_finishHandshake:
  "requests_ok None s \<Longrightarrow> past_handshake s (c, False) \<Longrightarrow> requests_ok None (finishHandshake c version s)"
  by (auto simp: finishHandshake_def intro: requests_spawn_refresh requests_hello_failed)

lemma requests_dispatchMessage:
  assumes "requests_ok None s" "\<And>cn. sv_conns s c = Some cn \<Longrightarrow> \<not> isTerminalConnection cn"
  shows "requests_ok None (dispatchMessage c m s)"
proof (cases "sv_conns s c")
  case (Some cn)
  have hello: "requests_ok None (set_conn c (\<lambda>n. n\<lparr>cn_stage := Handshaking\<rparr>) s)" if "cn_stage cn = AwaitingHello"
  proof -
    have "set_conn c (\<lambda>n. n\<lparr>cn_stage := Handshaking\<rparr>) s =
        set_conn c (\<lambda>n. if cn_stage n = AwaitingHello then n\<lparr>cn_stage := Handshaking\<rparr> else n) s"
      using that Some by (simp add: set_conn_def)
    then show ?thesis using assms(1) by (auto simp: keeps_account_def intro!: requests_set_conn)
  qed
  have past: "past_handshake (set_conn c (\<lambda>n. n\<lparr>cn_stage := Handshaking\<rparr>) s) (c, False)"
    using Some by (simp add: past_handshake_def)
  have request: "requests_ok (Some \<lparr>rq_conn = c, rq_id = i, rq_command = cmd\<rparr>) (observe (Requested c i) s)" for i cmd
    using requests_requested [OF assms(1), of "\<lparr>rq_conn = c, rq_id = i, rq_command = cmd\<rparr>"] Some by simp
  show ?thesis using Some hello past request assms(1)
    by (cases m) (auto simp: dispatchMessage_def Let_def intro: requests_finishHandshake requests_failProtocol
        requests_execute requests_serve)
qed (use assms in \<open>simp add: dispatchMessage_def\<close>)

lemma requests_dispatch_all: "requests_ok None s \<Longrightarrow> requests_ok None (dispatch_all c ms s)"
proof (induction ms arbitrary: s)
  case (Cons m ms)
  then show ?case using requests_dispatchMessage [OF Cons.prems, of c m] by (auto split: option.splits)
qed simp

lemma requests_receive: "requests_ok None s \<Longrightarrow> requests_ok None (receive c decoded s)"
  by (auto simp: receive_def intro: requests_dispatch_all requests_failProtocol split: option.splits sum.splits)

lemma requests_events:
  "requests_ok d s \<Longrightarrow> requests_ok d (terminate r s)"
  "requests_ok d s \<Longrightarrow> requests_ok d (handleRuntimeEvent r e s)"
  by (auto simp: terminate_def handleRuntimeEvent_def intro!: request_intros split: option.splits runtime_event.splits)

lemma requests_accept:
  assumes ok: "requests_ok None s"
  shows "requests_ok None (accept s)"
proof (cases "sv_closing s")
  case True
  then show ?thesis using ok
    by (auto simp: accept_def Let_def requests_ok_def pending_def answered_def requested_def open_connection_def abandoned_def
        shaking_hands_def past_handshake_def handshake_settled_def)
next
  case False
  note ok' = requests_okD [OF ok]
  have new: "sv_conns s (sv_next s) = None" "requested (sv_next s) i s = 0" for i using ok'(3,4) by auto
  then have zero: "answered (sv_next s) i s + pending (sv_next s) i s = 0" for i
    using ok'(1) [of "sv_next s" i] by simp
  have counts: "answered c i (accept s) = answered c i s" "pending c i (accept s) = pending c i s"
    "requested c i (accept s) = requested c i s" for c i
    using False by (simp_all add: accept_def Let_def answered_def pending_def requested_def)
  have fields: "sv_next (accept s) = Suc (sv_next s)" "sv_tasks (accept s) = sv_tasks s"
    "c \<noteq> sv_next s \<Longrightarrow> sv_conns (accept s) c = sv_conns s c" "sv_conns (accept s) (sv_next s) \<noteq> None"
    "sv_closing (accept s) = sv_closing s" for c
    using False by (simp_all add: accept_def Let_def)
  have other: "open_connection (accept s) c = open_connection s c" "abandoned (accept s) c = abandoned s c"
    "past_handshake (accept s) (c, refresh) = past_handshake s (c, refresh)" if "c \<noteq> sv_next s" for c refresh
    using fields that by (simp_all add: open_connection_def abandoned_def shaking_hands_def past_handshake_def handshake_settled_def)
  have fresh: "\<not> abandoned (accept s) (sv_next s)"
    using False by (simp add: accept_def Let_def abandoned_def handshake_settled_def)
  show ?thesis
  proof (rule requests_okI, goal_cases)
    case (2 c i)
    then show ?case using ok'(2) [of c i] zero [of i] new(2) [of i] other(1) [of c] by (cases "c = sv_next s") (auto simp: counts)
  next
    case (3 c)
    then show ?case using ok'(3) [of c] fields by simp
  next
    case (4 c i)
    then show ?case using ok'(4) [of c i] fields by (cases "c = sv_next s") (auto simp: counts)
  next
    case (5 c)
    then show ?case using ok'(5) [of c] other fresh by (cases "c = sv_next s") auto
  next
    case (6 t p x)
    then have "past_handshake s x" using ok'(6) [of t p x] fields by simp
    moreover from this new have "fst x \<noteq> sv_next s" by (auto simp: past_handshake_def)
    ultimately show ?case using other(3) by (cases x) simp
  qed (use ok' in \<open>simp add: counts\<close>)
qed


section \<open>Tasks\<close>

lemma requests_resume_hello:
  assumes ok: "requests_ok None s" and past: "past_handshake s (c, refresh)"
  shows "requests_ok None (resume_hello c revision refresh snapshot s)"
proof -
  obtain cn where cn: "sv_conns s c = Some cn" "cn_stage cn \<noteq> AwaitingHello" "refresh \<Longrightarrow> cn_stage cn \<noteq> Handshaking"
    using past by (auto simp: past_handshake_def)
  have gone: "requests_ok None (finish_handshake c s)"
    if "sv_closing s \<or> cn_disconnected cn \<or> cn_stage cn \<noteq> Handshaking \<or> cn_closed cn"
    using that cn ok by (intro requests_finish_handshake) (auto simp: open_connection_def shaking_hands_def)
  have "requests_ok None (sendMessage k c m s)"
    if "\<And>i. \<not> answers_request c i (Sent c m)" "k = RefreshSend \<longrightarrow> refresh" for k m
    using that cn ok by (intro requests_send) (cases k; auto simp: past_handshake_def)+
  with cn gone show ?thesis by (auto simp: resume_hello_def)
qed

lemma requests_sent:
  assumes ok: "requests_ok None s" and past: "\<And>x. greets (Transport c (Sending k)) = Some x \<Longrightarrow> past_handshake s x"
  shows "requests_ok None (sent k c s)"
proof (cases k)
  case PlainSend
  with ok show ?thesis by (simp add: sent_def)
next
  case RefreshSend
  with past [of "(c, True)"] have "\<not> shaking_hands s c" by (auto simp: shaking_hands_def past_handshake_def)
  with ok RefreshSend show ?thesis by (auto simp: sent_def intro: requests_finish_handshake)
next
  case (HelloSend revision)
  then obtain cn where cn: "sv_conns s c = Some cn" "cn_stage cn \<noteq> AwaitingHello" using past [of "(c, False)"] by (auto simp: past_handshake_def)
  let ?s1 = "set_conn c (\<lambda>n. n\<lparr>cn_handshakeComplete := True, cn_stage := Ready, cn_timer := False\<rparr>) s"
  have ready: "requests_ok None ?s1" if "cn_stage cn = Handshaking"
  proof -
    have "?s1 = set_conn c (\<lambda>n. if cn_stage n = Handshaking
        then n\<lparr>cn_handshakeComplete := True, cn_stage := Ready, cn_timer := False\<rparr> else n) s"
      using that cn by (simp add: set_conn_def)
    then show ?thesis using ok by (auto simp: keeps_account_def intro!: requests_set_conn)
  qed
  have "\<not> shaking_hands ?s1 c" "past_handshake ?s1 (c, True)"
    using cn by (auto simp: shaking_hands_def past_handshake_def)
  then have "requests_ok None (finish_handshake c ?s1)" "requests_ok None (spawn (Carry (Listing (HelloFor c rev True))) ?s1)"
    if "cn_stage cn = Handshaking" for rev
    using ready [OF that] by (auto intro!: requests_finish_handshake requests_spawn_refresh)
  moreover have "requests_ok None (finish_handshake c s)" if "\<not> (\<not> cn_disconnected cn \<and> cn_stage cn = Handshaking)"
    using that cn ok by (intro requests_finish_handshake) (auto simp: open_connection_def shaking_hands_def)
  ultimately show ?thesis using HelloSend cn by (auto simp: sent_def Let_def)
qed

lemma requests_queued:
  assumes ok: "requests_ok (Some rq) s" and settled: "handshake_settled s (rq_conn rq)"
  shows "requests_ok None (resume_queued rq s)"
proof (cases "sv_conns s (rq_conn rq)")
  case (Some cn)
  have "requests_ok None s" if "\<not> (cn_stage cn = Ready \<and> \<not> cn_disconnected cn)"
  proof (rule requests_dropped [OF ok] notI)+
    assume open_rq: "open_connection s (rq_conn rq)"
    with Some that have "cn_stage cn = AwaitingHello \<or> cn_stage cn = Handshaking"
      by (cases "cn_stage cn") (auto simp: open_connection_def)
    with Some settled have "abandoned s (rq_conn rq)" by (auto simp: abandoned_def shaking_hands_def)
    with requests_okD(5) [OF ok open_rq] show False by simp
  qed
  with Some ok show ?thesis by (auto simp: resume_queued_def intro: requests_execute)
qed (use settled in \<open>simp add: handshake_settled_def\<close>)

lemma requests_after_dispose [request_intros]: "requests_ok d s \<Longrightarrow> requests_ok d (after_dispose r w s)"
  by (auto simp: after_dispose_def intro: requests_broadcast)

lemma requests_after_opening:
  assumes "requests_ok (Some rq) s" "opening_settled s p"
  shows "requests_ok None (after_opening rq sid p creator s)"
  using assms
  by (auto simp: after_opening_def opening_settled_def Let_def intro!: requests_serve requests_counters
      split: option.splits open_promise.splits)

lemma requests_request:
  assumes "requests_ok (Some rq) s" "resume_request rq q reply s = Some s'"
  shows "requests_ok None s'"
  using assms
  by (cases q) (auto simp: resume_request_def on_go_def on_settled_def
      intro!: requests_serve requests_carry requests_queued requests_after_opening requests_acquire requests_attach
        requests_end_operation requests_after_dispose requests_broadcast requests_respond
      split: if_splits option.splits reply.splits)

lemma requests_register_live: "requests_ok d s \<Longrightarrow> requests_ok d (register_live p sid r s)"
  unfolding register_live_def by (intro requests_settle requests_counters)

lemma requests_next: "requests_ok d s \<Longrightarrow> requests_ok d (s\<lparr>sv_next := Suc (sv_next s)\<rparr>)"
  by (auto simp: requests_ok_def pending_def answered_def requested_def open_connection_def abandoned_def
      shaking_hands_def past_handshake_def handshake_settled_def)

lemma requests_opening:
  assumes "requests_ok None s" "resume_opening p q reply s = Some s'"
  shows "requests_ok None s'"
  using assms
  by (cases q) (auto simp: resume_opening_def runtime_acquired_def opening_failed_def Let_def on_settled_def
      intro!: requests_open requests_observe requests_settle requests_register_live requests_next
      split: reply.splits if_splits)

lemma requests_listing:
  assumes "requests_ok (listing_request k) s" "\<And>c revision refresh. k = HelloFor c revision refresh \<Longrightarrow> past_handshake s (c, refresh)"
  shows "requests_ok None (spawn (Carry (ListingLive k stored rs)) s)"
proof (cases k)
  case (HelloFor c revision refresh)
  with assms have "requests_ok None s" "past_handshake s (c, refresh)" by simp_all
  with HelloFor show ?thesis by (auto intro!: requests_spawn_refresh)
qed (use assms in \<open>auto intro: requests_spawn_request requests_spawn\<close>)

lemma requests_data:
  assumes ok: "requests_ok (point_request (Carry q)) s" and past: "\<And>x. greets (Carry q) = Some x \<Longrightarrow> past_handshake s x"
    and "resume_data q reply s = Some s'"
  shows "requests_ok None s'"
  using assms
  by (cases q) (auto simp: resume_data_def on_go_def
      intro: requests_listing requests_list_failed requests_list_done requests_snapshot_arrived requests_snapshot_failed
        requests_broadcast_snapshot requests_after_broadcast
      split: reply.splits if_splits)

lemma requests_transport_resume:
  assumes ok: "requests_ok None s" and past: "\<And>x. greets (Transport c q) = Some x \<Longrightarrow> past_handshake s x"
    and "resume_transport c q reply s = Some s'"
  shows "requests_ok None s'"
proof (cases q)
  case (HelloModels revision refresh sessions)
  with past have "past_handshake s (c, refresh)" by simp
  with HelloModels assms(1,3) requests_list_failed [of "HelloFor c revision refresh" s] show ?thesis
    by (auto simp: resume_transport_def intro: requests_resume_hello split: reply.splits)
next
  case (Sending k)
  with past requests_sent [OF ok, of c k] requests_send_failed [OF ok, of c k] assms(1,3) show ?thesis
    by (auto simp: resume_transport_def on_settled_def split: reply.splits)
qed (use assms disconnect_closes in \<open>auto simp: resume_transport_def on_go_def
    intro!: requests_disconnect requests_finish_handshake requests_broadcast split: if_splits\<close>)

lemma requests_perform: "requests_ok d s \<Longrightarrow> requests_ok d (performBroadcast n s)"
  by (auto simp: performBroadcast_def broadcast_finished_def Let_def intro!: requests_spawn requests_counters)

lemma requests_close_connections: "requests_ok d s \<Longrightarrow> requests_ok d (close_connections s)"
  by (auto simp: close_connections_def Let_def keeps_account_def
      intro!: requests_spawn requests_fold requests_closing_transport requests_set_conn)

lemma requests_close_sessions: "requests_ok d s \<Longrightarrow> requests_ok d (close_sessions s)"
  by (auto simp: close_sessions_def Let_def intro!: requests_fold requests_observe requests_set_live requests_counters)

lemma requests_send_next: "requests_ok d s \<Longrightarrow> requests_ok d (send_next n snapshot cs s)"
  by (auto simp: send_next_def broadcast_finished_def intro!: requests_spawn requests_send_plain requests_counters
      split: list.splits)

lemma requests_server_resume:
  assumes "requests_ok None s" "resume_server q reply s = Some s'"
  shows "requests_ok None s'"
  using assms
  by (cases q) (auto simp: resume_server_def on_go_def broadcast_finished_def
      intro!: requests_spawn requests_fold requests_disconnect requests_after_dispose requests_schedule requests_perform
        requests_counters requests_send_next requests_close_connections requests_close_sessions
      split: reply.splits if_splits)

lemma requests_take_task:
  assumes ok: "requests_ok None s" and task: "(t, p) \<in> set (sv_tasks s)"
  shows "requests_ok (point_request p) (s\<lparr>sv_tasks := remove1 (t, p) (sv_tasks s)\<rparr>)" (is "requests_ok _ ?s")
proof -
  have pending: "pending c i s = pending c i ?s + owed (point_request p) c i" for c i
    using sum_list_map_remove1 [OF task, of "\<lambda>(t, p). owed (point_request p) c i"] by (simp add: pending_def)
  have same: "answered c i ?s = answered c i s" "requested c i ?s = requested c i s" "open_connection ?s c = open_connection s c"
    "abandoned ?s c = abandoned s c" "past_handshake ?s x = past_handshake s x" for c i x
    by (simp_all add: answered_def requested_def open_connection_def abandoned_def shaking_hands_def past_handshake_def
        handshake_settled_def)
  note ok' = requests_okD [OF ok]
  show ?thesis
  proof (rule requests_okI, goal_cases)
    case (1 c i)
    show ?case using ok'(1) [of c i] pending [of c i] same by simp
  next
    case (2 c i)
    then show ?case using ok'(2) [of c i] pending [of c i] same by simp
  next
    case (6 t' q x)
    then have "(t', q) \<in> set (sv_tasks s)" using set_remove1_subset [of "(t, p)" "sv_tasks s"] by auto
    from ok'(6) [OF this 6(2)] same(5) show ?case by simp
  qed (use ok' same in simp_all)
qed

lemma requests_close: "requests_ok d s \<Longrightarrow> requests_ok d (s\<lparr>sv_closing := True\<rparr>)"
  by (auto simp: requests_ok_def pending_def answered_def requested_def open_connection_def abandoned_def
      shaking_hands_def past_handshake_def handshake_settled_def)

lemma requests_resume:
  assumes ok: "requests_ok (point_request p) s" and past: "\<And>x. greets p = Some x \<Longrightarrow> past_handshake s x"
    and "resume p reply s = Some s'"
  shows "requests_ok None s'"
proof (cases p)
  case (Carry q)
  with assms show ?thesis by (auto simp: resume_def intro: requests_data)
next
  case (Transport c q)
  with assms have "resume_transport c q reply s = Some s'" "requests_ok None s" by (simp_all add: resume_def)
  then show ?thesis using requests_transport_resume [OF _ past [unfolded Transport]] by blast
qed (use ok assms(3) in \<open>auto simp: resume_def intro: requests_request requests_opening requests_server_resume\<close>)

lemma requests_step:
  assumes ok: "requests_ok None s" and "step a s = Some s'"
  shows "requests_ok None s'"
proof (cases a)
  case (Resume t reply)
  then obtain p where p: "(t, p) \<in> set (sv_tasks s)"
    "resume p reply (s\<lparr>sv_tasks := remove1 (t, p) (sv_tasks s)\<rparr>) = Some s'"
    using assms(2) by (auto simp: step_def dest: map_of_SomeD split: option.splits)
  show ?thesis
    by (rule requests_resume [OF requests_take_task [OF ok p(1)] _ p(2)])
      (use requests_okD(6) [OF ok p(1)] in \<open>simp add: past_handshake_def\<close>)
next
  case (Receive c decoded)
  with assms show ?thesis by (auto simp: step_def intro: requests_receive split: if_splits)
next
  case (RuntimeEvent r e)
  with assms show ?thesis by (auto simp: step_def intro: requests_events split: option.splits if_splits)
next
  case (DisposeReturns r result)
  with assms show ?thesis
    by (auto simp: step_def Let_def intro!: requests_set_live requests_counters split: option.splits if_splits)
next
  case Close
  with assms show ?thesis by (auto simp: step_def intro!: requests_spawn requests_close split: if_splits)
qed (use assms in \<open>auto simp: step_def keeps_account_def intro!: requests_accept requests_failProtocol requests_disconnect requests_spawn
    requests_closing_transport requests_set_conn requests_set_live split: option.splits if_splits\<close>)

lemma requests_new: "requests_ok None (new_server encodable uuid)"
  by (simp add: requests_ok_def new_server_def pending_def answered_def requested_def open_connection_def)

interpretation served_requests: server_invariant "requests_ok None"
  by unfold_locales (auto intro: requests_new requests_step)

section \<open>What this means for the clients\<close>

text \<open>
  C11. Every request a connection makes after its hello is answered at most once; on a connection that stays
  open each request is either answered or still has a task that serves it, so nothing is lost on the way:
  when no task is left, every request of an open connection has been answered exactly once.
\<close>

theorem requests_answered_exactly_once:
  assumes "reachable (new_server encodable uuid) s"
  shows "answered c i s \<le> requested c i s \<and>
    (open_connection s c \<longrightarrow> answered c i s + pending c i s = requested c i s) \<and>
    (open_connection s c \<and> sv_tasks s = [] \<longrightarrow> answered c i s = requested c i s)"
proof -
  note ok = requests_okD [OF served_requests.reachable_good [OF assms]]
  have "pending c i s = 0" if "sv_tasks s = []" using that by (simp add: pending_def)
  with ok(1) [of c i] ok(2) [of c i] show ?thesis by auto
qed

lemma open_connection_code [code]: "open_connection s c \<longleftrightarrow> \<not> sv_closing s \<and> (case sv_conns s c of None \<Rightarrow> False | Some cn \<Rightarrow> \<not> cn_disconnected cn \<and>
     \<not> cn_closed cn \<and> \<not> cn_closeCalled cn \<and> cn_stage cn \<noteq> Closing \<and> cn_stage cn \<noteq> Closed)"
  by (auto simp: open_connection_def split: option.splits)

lemma attach_result:
  "case run attach_run example_server of None \<Rightarrow> False
   | Some s \<Rightarrow> requested 0 ''a'' s = 1 \<and> open_connection s 0 \<and> sv_tasks s = []"
  by code_simp

theorem requests_answered_exactly_once_witness:
  "\<exists>s. reachable example_server s \<and> requested 0 ''a'' s = 1 \<and> open_connection s 0 \<and> answered 0 ''a'' s = 1"
proof -
  obtain s where s: "reachable example_server s" "requested 0 ''a'' s = 1 \<and> open_connection s 0 \<and> sv_tasks s = []"
    using run_witness [OF attach_result] .
  with requests_answered_exactly_once [OF s(1) [unfolded example_server_def], of 0 "''a''"] show ?thesis by auto
qed

definition dead_attachment_run :: "action list" where
  "dead_attachment_run = attach_run @ [
     Receive 0 (Inr [Request ''b'' (AttachCommand ''s''), Request ''c'' (DetachCommand ''s'')]),
     Resume 24 Go, Resume 26 Go, Resume 27 (GotSnapshot (plain_snapshot ''s'')), Resume 28 Go, Resume 30 Go, Resume 32 Go,
     DisposeReturns 7 None, Resume 25 Go, Resume 36 Go]"

text \<open>
  A client sends attach and detach of an attached session in one chunk. The detach starts the disposal of
  the session before the attach goes on; the attach does not look at the disposal again, answers that the
  session is attached, and the session is disposed: the client is left attached to a session that is gone.
\<close>

lemma pipelined_detach_leaves_dead_attachment:
  "case run dead_attachment_run example_server of None \<Rightarrow> False
   | Some s \<Rightarrow>
       Sent 0 (ResponseOk ''b'' (AttachResult ((plain_snapshot ''s'')\<lparr>sn_attached := True, sn_locked := True\<rparr>))) \<in> set (sv_log s) \<and>
       Sent 0 (ResponseOk ''c'' (DetachResult ''s'')) \<in> set (sv_log s) \<and>
       map_option cn_sessionIds (sv_conns s 0) = Some [''s''] \<and>
       sv_liveSessions s = [] \<and> requireAttached 0 ''s'' s = Inl (PiError NotFound)"
  by code_simp

end
