(* ===== verification/Server_Progress.thy ===== *)
theory Server_Progress
  imports Server_Requests
begin

text \<open>
  No request of the server waits for something that can no longer happen: the promises it waits for belong to
  a task that can go on or to a disposal that can return.
\<close>

section \<open>What a waiting task needs\<close>

text \<open>The tasks whose end settles the handshake of a connection.\<close>

definition shakes :: "point \<Rightarrow> nat option" where
  "shakes p = map_option fst (greets p)"

lemma greets_send_failed [simp]: "greets (Transport c (SendFailed k)) = greets (Transport c (Sending k))"
  by (cases k) simp_all

fun waits :: "point \<Rightarrow> bool" where
  "waits (Serve rq Queued) = True"
| "waits (Serve rq (WaitOpening sid p creator)) = True"
| "waits q = False"

definition hands_moving :: "server \<Rightarrow> nat \<Rightarrow> bool" where
  "hands_moving s c \<longleftrightarrow> handshake_settled s c \<or> (\<exists>t q. (t, q) \<in> set (sv_tasks s) \<and> shakes q = Some c)"

definition opening_moving :: "server \<Rightarrow> nat \<Rightarrow> bool" where
  "opening_moving s p \<longleftrightarrow> opening_settled s p \<or> (\<exists>t q. (t, OpenSession p q) \<in> set (sv_tasks s))"

definition handshaking :: "server \<Rightarrow> nat \<Rightarrow> bool" where
  "handshaking s c \<longleftrightarrow> (\<exists>cn. sv_conns s c = Some cn \<and> cn_stage cn = Handshaking)"

definition numbered :: "server \<Rightarrow> bool" where
  "numbered s \<longleftrightarrow> distinct (map fst (sv_tasks s)) \<and> (\<forall>x \<in> set (sv_tasks s). fst x < sv_next s) \<and>
     (\<forall>p. sv_next s \<le> p \<longrightarrow> sv_openings s p = None) \<and>
     (\<forall>t p q. (t, OpenSession p q) \<in> set (sv_tasks s) \<longrightarrow> p < sv_next s)"

text \<open>The invariant; \<open>hs\<close> and \<open>ops\<close> are what the task just taken out was to settle.\<close>

definition moving :: "nat option \<Rightarrow> nat option \<Rightarrow> server \<Rightarrow> bool" where
  "moving hs ops s \<longleftrightarrow> numbered s \<and>
     (\<forall>t rq. (t, Serve rq Queued) \<in> set (sv_tasks s) \<longrightarrow> hs = Some (rq_conn rq) \<or> hands_moving s (rq_conn rq)) \<and>
     (\<forall>c. handshaking s c \<longrightarrow> hs = Some c \<or> hands_moving s c) \<and>
     (\<forall>t rq sid p creator. (t, Serve rq (WaitOpening sid p creator)) \<in> set (sv_tasks s) \<longrightarrow> ops = Some p \<or> opening_moving s p) \<and>
     (\<forall>sid p. map_get (sv_openingSessions s) sid = Some p \<longrightarrow> ops = Some p \<or> opening_moving s p)"

lemma movingD:
  assumes "moving hs ops s"
  shows "numbered s"
    "(t, Serve rq Queued) \<in> set (sv_tasks s) \<Longrightarrow> hs = Some (rq_conn rq) \<or> hands_moving s (rq_conn rq)"
    "handshaking s c \<Longrightarrow> hs = Some c \<or> hands_moving s c"
    "(t, Serve rq (WaitOpening sid p creator)) \<in> set (sv_tasks s) \<Longrightarrow> ops = Some p \<or> opening_moving s p"
    "map_get (sv_openingSessions s) sid = Some p \<Longrightarrow> ops = Some p \<or> opening_moving s p"
  using assms unfolding moving_def by blast+

lemma movingI:
  assumes "numbered s"
    "\<And>t rq. (t, Serve rq Queued) \<in> set (sv_tasks s) \<Longrightarrow> hs = Some (rq_conn rq) \<or> hands_moving s (rq_conn rq)"
    "\<And>c. handshaking s c \<Longrightarrow> hs = Some c \<or> hands_moving s c"
    "\<And>t rq sid p creator. (t, Serve rq (WaitOpening sid p creator)) \<in> set (sv_tasks s) \<Longrightarrow> ops = Some p \<or> opening_moving s p"
    "\<And>sid p. map_get (sv_openingSessions s) sid = Some p \<Longrightarrow> ops = Some p \<or> opening_moving s p"
  shows "moving hs ops s"
  using assms unfolding moving_def by blast

section \<open>Quiet changes\<close>

text \<open>Most of what the server does adds tasks that wait for nobody and keeps all promises as they are.\<close>

definition quiet :: "server \<Rightarrow> server \<Rightarrow> bool" where
  "quiet s s' \<longleftrightarrow>
     set (sv_tasks s) \<subseteq> set (sv_tasks s') \<and> (\<forall>x \<in> set (sv_tasks s'). x \<in> set (sv_tasks s) \<or> \<not> waits (snd x)) \<and>
     (\<forall>c. handshake_settled s c \<longrightarrow> handshake_settled s' c) \<and> (\<forall>p. opening_settled s p \<longrightarrow> opening_settled s' p) \<and>
     (\<forall>c. handshaking s' c \<longrightarrow> handshaking s c) \<and>
     (\<forall>sid p. map_get (sv_openingSessions s') sid = Some p \<longrightarrow> map_get (sv_openingSessions s) sid = Some p) \<and>
     (numbered s \<longrightarrow> numbered s')"

lemma quiet_refl [intro, simp]: "quiet s s"
  by (simp add: quiet_def)

lemma quiet_trans: "quiet s s1 \<Longrightarrow> quiet s1 s2 \<Longrightarrow> quiet s s2"
  unfolding quiet_def by blast

lemma quietD:
  assumes "quiet s s'"
  shows "x \<in> set (sv_tasks s) \<Longrightarrow> x \<in> set (sv_tasks s')" "x \<in> set (sv_tasks s') \<Longrightarrow> waits (snd x) \<Longrightarrow> x \<in> set (sv_tasks s)"
    "handshake_settled s c \<Longrightarrow> handshake_settled s' c" "opening_settled s p \<Longrightarrow> opening_settled s' p"
    "handshaking s' c \<Longrightarrow> handshaking s c" "map_get (sv_openingSessions s') sid = Some p \<Longrightarrow> map_get (sv_openingSessions s) sid = Some p"
    "numbered s \<Longrightarrow> numbered s'"
  using assms unfolding quiet_def by blast+

lemma quiet_promises:
  assumes "quiet s s'"
  shows "hands_moving s c \<Longrightarrow> hands_moving s' c" "opening_moving s p \<Longrightarrow> opening_moving s' p"
  using quietD [OF assms] unfolding hands_moving_def opening_moving_def by blast+

lemma quiet_moving:
  assumes "moving hs ops s" "quiet s s'"
  shows "moving hs ops s'"
proof (rule movingI, goal_cases)
  case 1
  then show ?case using movingD(1) [OF assms(1)] quietD(7) [OF assms(2)] by blast
next
  case (2 t rq)
  then show ?case using movingD(2) [OF assms(1), of t rq] quietD(2) [OF assms(2) 2] quiet_promises(1) [OF assms(2)] by auto
next
  case (3 c)
  then show ?case using movingD(3) [OF assms(1)] quietD(5) [OF assms(2)] quiet_promises(1) [OF assms(2)] by blast
next
  case (4 t rq sid p creator)
  then show ?case using movingD(4) [OF assms(1), of t rq sid p creator] quietD(2) [OF assms(2) 4] quiet_promises(2) [OF assms(2)] by auto
next
  case (5 sid p)
  then show ?case using movingD(5) [OF assms(1), of sid p] quietD(6) [OF assms(2)] quiet_promises(2) [OF assms(2)] by blast
qed

named_theorems quiet_intros \<open>what changes no promise\<close>

lemma quiet_spawn [quiet_intros]:
  assumes "quiet s s'" "\<not> waits p" "\<And>i q. p = OpenSession i q \<Longrightarrow> i < sv_next s'"
  shows "quiet s (spawn p s')"
proof -
  have "numbered (spawn p s')" if "numbered s'"
    using that assms(3) by (fastforce simp: numbered_def spawn_def)
  then have "quiet s' (spawn p s')"
    using assms(2) by (auto simp: quiet_def spawn_def handshake_settled_def opening_settled_def handshaking_def)
  with assms(1) show ?thesis by (rule quiet_trans)
qed

lemma quiet_observe [quiet_intros]: "quiet s s' \<Longrightarrow> quiet s (observe e s')"
  by (simp add: quiet_def observe_def handshake_settled_def opening_settled_def handshaking_def numbered_def)

lemma quiet_set_live [quiet_intros]: "quiet s s' \<Longrightarrow> quiet s (set_live r g s')"
  by (simp add: quiet_def set_live_def handshake_settled_def opening_settled_def handshaking_def numbered_def)

lemma quiet_counters [quiet_intros]:
  "quiet s s' \<Longrightarrow> quiet s (s'\<lparr>sv_broadcasts := n\<rparr>)" "quiet s s' \<Longrightarrow> quiet s (s'\<lparr>sv_broadcastsDone := n\<rparr>)"
  "quiet s s' \<Longrightarrow> quiet s (s'\<lparr>sv_revision := n\<rparr>)" "quiet s s' \<Longrightarrow> quiet s (s'\<lparr>sv_connections := cs\<rparr>)"
  "quiet s s' \<Longrightarrow> quiet s (s'\<lparr>sv_closing := b\<rparr>)"
  "quiet s s' \<Longrightarrow> quiet s (s'\<lparr>sv_liveSessions := lives\<rparr>)"
  "quiet s s' \<Longrightarrow> quiet s (s'\<lparr>sv_liveSessions := lives, sv_lives := objects\<rparr>)"
  by (simp_all add: quiet_def handshake_settled_def opening_settled_def handshaking_def numbered_def)

lemma quiet_next [quiet_intros]: "quiet s s' \<Longrightarrow> quiet s (s'\<lparr>sv_next := Suc (sv_next s')\<rparr>)"
  by (auto simp: quiet_def handshake_settled_def opening_settled_def handshaking_def numbered_def less_Suc_eq)

lemma quiet_settle:
  assumes "quiet s s'" "result \<noteq> OpenPending" "p < sv_next s'"
  shows "quiet s (settle_opening p result s')"
proof -
  have "numbered (settle_opening p result s')" if "numbered s'" using that assms(3) by (auto simp: numbered_def settle_opening_def)
  then have "quiet s' (settle_opening p result s')"
    using assms(2) by (auto simp: quiet_def settle_opening_def handshake_settled_def opening_settled_def handshaking_def)
  with assms(1) show ?thesis by (rule quiet_trans)
qed

lemma quiet_set_conn:
  assumes "quiet s s'" "\<And>n. cn_handshake n \<Longrightarrow> cn_handshake (f n)" "\<And>n. cn_stage (f n) = Handshaking \<Longrightarrow> cn_stage n = Handshaking"
  shows "quiet s (set_conn c f s')"
proof -
  have "handshake_settled (set_conn c f s') c'" if "handshake_settled s' c'" for c'
    using that assms(2) by (auto simp: handshake_settled_def set_conn_def split: option.splits)
  moreover have "handshaking s' c'" if "handshaking (set_conn c f s') c'" for c'
    using that assms(3) by (cases "c' = c") (auto simp: handshaking_def set_conn_def)
  ultimately have "quiet s' (set_conn c f s')"
    by (auto simp: quiet_def set_conn_def opening_settled_def numbered_def)
  with assms(1) show ?thesis by (rule quiet_trans)
qed

lemma quiet_fold [quiet_intros]:
  "quiet s s' \<Longrightarrow> (\<And>x s'. quiet s s' \<Longrightarrow> quiet s (f x s')) \<Longrightarrow> quiet s (fold f xs s')"
  by (induction xs arbitrary: s') auto


lemma quiet_forget_opening [quiet_intros]:
  "quiet s s' \<Longrightarrow> quiet s (s'\<lparr>sv_openingSessions := map_remove (sv_openingSessions s') sid\<rparr>)"
  by (auto simp: quiet_def handshake_settled_def opening_settled_def handshaking_def numbered_def split: if_splits)

lemma quiet_transport [quiet_intros]:
  "quiet s s' \<Longrightarrow> quiet s (closing_transport c final s')"
  "quiet s s' \<Longrightarrow> quiet s (finish_handshake c s')"
  by (auto simp: closing_transport_def finish_handshake_def intro!: quiet_observe quiet_set_conn)

lemma quiet_broadcast [quiet_intros]:
  "quiet s s' \<Longrightarrow> quiet s (broadcast s')" "quiet s s' \<Longrightarrow> quiet s (broadcast_finished s')"
  by (auto simp: broadcast_def broadcast_finished_def intro!: quiet_spawn quiet_counters)

lemma quiet_maybeDispose: "maybeDispose r s' = (w, s'') \<Longrightarrow> quiet s s' \<Longrightarrow> quiet s s''"
  by (auto simp: maybeDispose_def intro!: quiet_observe quiet_set_live split: option.splits if_splits)

lemma quiet_schedule [quiet_intros]: "quiet s s' \<Longrightarrow> quiet s (scheduleMaybeDispose r s')"
  by (auto simp: scheduleMaybeDispose_def intro!: quiet_spawn dest: quiet_maybeDispose split: prod.splits)

lemma quiet_dispose_each: "dispose_each rs s' = (ws, s'') \<Longrightarrow> quiet s s' \<Longrightarrow> quiet s s''"
proof (induction rs arbitrary: s' ws s'')
  case (Cons r rs)
  obtain w s1 where w: "maybeDispose r s' = (w, s1)" by fastforce
  obtain ws2 s2 where rest: "dispose_each rs (if w = Starter then spawn (Background (Disposing r)) s1 else s1) = (ws2, s2)"
    by fastforce
  have "quiet s (if w = Starter then spawn (Background (Disposing r)) s1 else s1)"
    using quiet_maybeDispose [OF w Cons.prems(2)] by (auto intro: quiet_spawn)
  from Cons.IH [OF rest this] Cons.prems(1) w rest show ?case by simp
qed simp

lemma quiet_disconnect [quiet_intros]:
  assumes "quiet s s'"
  shows "quiet s (disconnect c s')"
  using assms
  by (auto simp: disconnect_def Let_def intro!: quiet_spawn quiet_set_conn quiet_counters quiet_fold quiet_set_live
      elim!: quiet_dispose_each split: option.splits prod.splits)

lemma quiet_send [quiet_intros]: "quiet s s' \<Longrightarrow> quiet s (sendMessage k c m s')"
  by (auto simp: sendMessage_def intro!: quiet_spawn quiet_observe quiet_transport split: option.splits)

lemma quiet_failProtocol [quiet_intros]: "quiet s s' \<Longrightarrow> quiet s (failProtocol c code s')"
  by (auto simp: failProtocol_def intro!: quiet_spawn quiet_transport quiet_set_conn split: option.splits)

lemma quiet_send_each [quiet_intros]: "quiet s s' \<Longrightarrow> quiet s (send_each m cs s')"
  by (auto simp: send_each_def intro!: quiet_fold quiet_send)

lemma quiet_end_operation [quiet_intros]: "quiet s s' \<Longrightarrow> quiet s (end_operation r s')"
  by (auto simp: end_operation_def intro!: quiet_schedule quiet_set_live)

lemma quiet_after_dispose [quiet_intros]: "quiet s s' \<Longrightarrow> quiet s (after_dispose r w s')"
  by (auto simp: after_dispose_def intro!: quiet_broadcast)

lemma quiet_serving:
  "quiet s s' \<Longrightarrow> quiet s (attach rq r s')" "quiet s s' \<Longrightarrow> quiet s (runOperation rq r op s')"
  "quiet s s' \<Longrightarrow> quiet s (respond rq result s')" "quiet s s' \<Longrightarrow> quiet s (snapshot_failed k r e s')"
  by (auto simp: attach_def runOperation_def respond_def snapshot_failed_def
      intro!: quiet_spawn quiet_set_live quiet_set_conn quiet_observe quiet_send dest: quiet_maybeDispose
      split: option.splits prod.splits snapshot_for.splits)

lemma quiet_detach: 
  assumes "quiet s s'"
  shows "quiet s (detach rq sid s')"
proof -
  let ?cut = "set_conn (rq_conn rq) (\<lambda>n. n\<lparr>cn_sessionIds := removeAll sid (cn_sessionIds n)\<rparr>) s'"
  have cut: "quiet s ?cut" using assms by (auto intro!: quiet_set_conn)
  then have live: "quiet s (set_live r g ?cut)" for r g by (rule quiet_set_live)
  have disposed: "quiet s s''" if "maybeDispose r' (set_live r g ?cut) = (w, s'')" for r r' g w s''
    using quiet_maybeDispose [OF that live] .
  show ?thesis
  proof (cases "sv_conns s' (rq_conn rq)")
    case (Some cn)
    show ?thesis
    proof (cases "sid \<in> set (cn_sessionIds cn)")
      case True
      with Some cut live disposed show ?thesis
        by (auto simp: detach_def Let_def simp del: update_simps intro!: quiet_spawn quiet_broadcast
            split: option.splits prod.splits)
    qed (use Some assms in \<open>auto simp: detach_def Let_def intro: quiet_spawn\<close>)
  qed (use assms in \<open>auto simp: detach_def Let_def intro: quiet_spawn\<close>)
qed

lemma quiet_snapshots:
  "quiet s s' \<Longrightarrow> quiet s (snapshot_arrived k r sn s')" "quiet s s' \<Longrightarrow> quiet s (broadcast_snapshot k r sn s')"
  "quiet s s' \<Longrightarrow> quiet s (after_broadcast k r sn s')"
  by (auto simp: snapshot_arrived_def broadcast_snapshot_def after_broadcast_def Let_def
      intro!: quiet_spawn quiet_serving quiet_send_each quiet_broadcast quiet_end_operation dest: quiet_maybeDispose
      split: option.splits prod.splits snapshot_for.splits)

lemma quiet_lists:
  "quiet s s' \<Longrightarrow> quiet s (list_failed k e s')" "quiet s s' \<Longrightarrow> quiet s (list_done k ms s')"
  by (auto simp: list_failed_def list_done_def intro!: quiet_spawn quiet_broadcast quiet_transport quiet_failProtocol
      split: listing_for.splits)

lemma quiet_events:
  "quiet s s' \<Longrightarrow> quiet s (terminate r s')" "quiet s s' \<Longrightarrow> quiet s (handleRuntimeEvent r e s')"
  by (auto simp: terminate_def handleRuntimeEvent_def intro!: quiet_intros split: option.splits runtime_event.splits)

lemma quiet_hello:
  "quiet s s' \<Longrightarrow> quiet s (resume_hello c revision refresh snapshot s')" "quiet s s' \<Longrightarrow> quiet s (sent k c s')"
  by (auto simp: resume_hello_def sent_def Let_def intro!: quiet_spawn quiet_send quiet_transport quiet_set_conn
      split: option.splits send_for.splits)

lemma quiet_closing:
  "quiet s s' \<Longrightarrow> quiet s (performBroadcast n s')" "quiet s s' \<Longrightarrow> quiet s (close_connections s')"
  "quiet s s' \<Longrightarrow> quiet s (close_sessions s')" "quiet s s' \<Longrightarrow> quiet s (send_next n snapshot cs s')"
  by (auto simp: performBroadcast_def close_connections_def close_sessions_def send_next_def Let_def
      intro!: quiet_spawn quiet_fold quiet_transport quiet_set_conn quiet_observe quiet_set_live quiet_counters quiet_broadcast quiet_send
      split: list.splits)


section \<open>Steps that wait or settle\<close>

lemma moving_start_handshake:
  assumes "moving None ops s"
  shows "moving (Some c) ops (set_conn c (\<lambda>n. n\<lparr>cn_stage := Handshaking\<rparr>) s)" (is "moving _ _ ?s")
proof -
  have hands: "hands_moving s c' \<Longrightarrow> hands_moving ?s c'" for c'
    by (auto simp: hands_moving_def handshake_settled_def set_conn_def split: option.splits)
  have shaking: "handshaking ?s c' \<Longrightarrow> c' = c \<or> handshaking s c'" for c'
    by (auto simp: handshaking_def set_conn_def split: if_splits)
  have rest: "opening_moving ?s p = opening_moving s p" "numbered ?s = numbered s" for p
    by (simp_all add: opening_moving_def opening_settled_def numbered_def set_conn_def)
  show ?thesis
  proof (rule movingI, goal_cases)
    case (3 c')
    then show ?case using movingD(3) [OF assms, of c'] hands [of c'] shaking [of c'] by auto
  qed (use movingD [OF assms] hands rest in \<open>auto simp: set_conn_def\<close>)
qed

lemma moving_settled:
  assumes "moving (Some c) ops s" "hands_moving s c"
  shows "moving None ops s"
  using assms unfolding moving_def by blast

lemma moving_opened:
  assumes "moving hs (Some p) s" "opening_moving s p"
  shows "moving hs None s"
  using assms unfolding moving_def by blast

lemma promises_spawn:
  "hands_moving s c \<Longrightarrow> hands_moving (spawn q s) c" "opening_moving s p \<Longrightarrow> opening_moving (spawn q s) p"
  "handshaking (spawn q s) = handshaking s" "sv_openingSessions (spawn q s) = sv_openingSessions s"
  by (auto simp: hands_moving_def opening_moving_def handshaking_def handshake_settled_def opening_settled_def spawn_def fun_eq_iff)

lemma moving_spawn:
  assumes "moving None None s" "\<And>i r. q \<noteq> OpenSession i r" "\<And>rq. q = Serve rq Queued \<Longrightarrow> hands_moving s (rq_conn rq)"
    "\<And>rq sid p creator. q = Serve rq (WaitOpening sid p creator) \<Longrightarrow> opening_moving s p"
  shows "moving None None (spawn q s)"
proof (rule movingI, goal_cases)
  case 1
  then show ?case using movingD(1) [OF assms(1)] assms(2) by (fastforce simp: numbered_def spawn_def)
next
  case (2 t rq)
  then show ?case using movingD(2) [OF assms(1), of t rq] assms(3) promises_spawn(1) by auto
next
  case (3 c)
  then show ?case using movingD(3) [OF assms(1), of c] promises_spawn by auto
next
  case (4 t rq sid p creator)
  then show ?case using movingD(4) [OF assms(1), of t rq sid p creator] assms(4) promises_spawn(2) by auto
next
  case (5 sid p)
  then show ?case using movingD(5) [OF assms(1), of sid p] promises_spawn by auto
qed

lemma moving_queued:
  assumes "moving None None s" "handshaking s (rq_conn rq)"
  shows "moving None None (spawn (Serve rq Queued) s)"
  using movingD(3) [OF assms] by (intro moving_spawn [OF assms(1)]) auto

lemma moving_wait_opening:
  assumes "moving None None s" "opening_moving s p"
  shows "moving None None (spawn (Serve rq (WaitOpening sid p creator)) s)"
  using assms by (intro moving_spawn) auto

lemma moving_open:
  assumes "moving None None s"
  shows "moving None None (spawn (OpenSession (sv_next s) q) (settle_opening (sv_next s) OpenPending
    (s\<lparr>sv_openingSessions := map_set (sv_openingSessions s) sid (sv_next s)\<rparr>)))" (is "moving _ _ ?s")
proof (rule movingI, goal_cases)
  case 1
  then show ?case using movingD(1) [OF assms] by (fastforce simp: numbered_def spawn_def settle_opening_def)
next
  case (2 t rq)
  then show ?case using movingD(2) [OF assms, of t rq] 
    by (auto simp: hands_moving_def handshake_settled_def spawn_def settle_opening_def)
next
  case (3 c)
  then show ?case using movingD(3) [OF assms, of c] 
    by (auto simp: hands_moving_def handshake_settled_def handshaking_def spawn_def settle_opening_def)
next
  case (4 t rq sid' p creator)
  then show ?case using movingD(4) [OF assms, of t rq sid' p creator]
    by (auto simp: opening_moving_def opening_settled_def spawn_def settle_opening_def)
next
  case (5 sid' p)
  then show ?case using movingD(5) [OF assms, of sid' p]
    by (auto simp: opening_moving_def opening_settled_def spawn_def settle_opening_def split: if_splits)
qed


lemma hands_finish: "sv_conns s c \<noteq> None \<Longrightarrow> hands_moving (finish_handshake c s) c"
  by (auto simp: hands_moving_def handshake_settled_def finish_handshake_def)

lemma hands_spawn: "shakes q = Some c \<Longrightarrow> hands_moving (spawn q s) c"
  by (auto simp: hands_moving_def)

lemma conns_kept:
  "(\<exists>n. sv_conns (failProtocol c code s) c' = Some n) \<longleftrightarrow> (\<exists>n. sv_conns s c' = Some n)"
  "(\<exists>n. sv_conns (disconnect c s) c' = Some n) \<longleftrightarrow> (\<exists>n. sv_conns s c' = Some n)"
  by (auto simp: failProtocol_def closing_transport_def disconnect_def Let_def conns_fold_set_live
      dest!: conns_dispose_each split: option.splits prod.splits if_splits)

lemma hands_send: "sv_conns s c \<noteq> None \<Longrightarrow> k \<noteq> PlainSend \<Longrightarrow> hands_moving (sendMessage k c m s) c"
  by (cases k) (auto simp: sendMessage_def shakes_def intro!: hands_finish hands_spawn split: option.splits)

lemma hands_list_failed: "sv_conns s c \<noteq> None \<Longrightarrow> hands_moving (list_failed (HelloFor c revision refresh) e s) c"
  by (auto simp: list_failed_def conns_kept intro!: hands_finish)

lemma hands_list_done: "hands_moving (list_done (HelloFor c revision refresh) ms s) c"
  by (auto simp: list_done_def shakes_def intro!: hands_spawn)

lemma hands_resume_hello: "sv_conns s c \<noteq> None \<Longrightarrow> hands_moving (resume_hello c revision refresh snapshot s) c"
  by (auto simp: resume_hello_def intro!: hands_finish hands_send)

lemma hands_sent: "sv_conns s c \<noteq> None \<Longrightarrow> k \<noteq> PlainSend \<Longrightarrow> hands_moving (sent k c s) c"
  by (cases k) (auto simp: sent_def shakes_def Let_def intro!: hands_finish hands_spawn)

section \<open>The steps\<close>

lemma moving_acquire:
  assumes "moving None None s"
  shows "moving None None (acquire rq sid options s)"
proof -
  have plain: "moving None None (spawn (Serve rq q) s)" if "\<not> waits (Serve rq q)" for q
    using quiet_moving [OF assms quiet_spawn [OF quiet_refl]] that by auto
  have joined: "moving None None (spawn (Serve rq (WaitOpening sid p False)) s)" if "map_get (sv_openingSessions s) sid = Some p" for p
    using moving_wait_opening [OF assms] movingD(5) [OF assms that] by simp
  let ?open = "spawn (OpenSession (sv_next s) (OpeningRuntime sid options)) (settle_opening (sv_next s) OpenPending
    (s\<lparr>sv_openingSessions := map_set (sv_openingSessions s) sid (sv_next s)\<rparr>))"
  have "opening_moving ?open (sv_next s)" by (auto simp: opening_moving_def)
  then have "moving None None (spawn (Serve rq (WaitOpening sid (sv_next s) True)) ?open)"
    by (rule moving_wait_opening [OF moving_open [OF assms]])
  with plain joined show ?thesis by (auto simp: acquire_def Let_def split: option.splits)
qed

lemma moving_execute:
  assumes "moving None None s"
  shows "moving None None (executeCommand rq s)"
proof (cases "rq_command rq")
  case (RuntimeCommand sid op)
  have "quiet s (executeCommand rq s)"
    using RuntimeCommand by (auto simp: executeCommand_def intro!: quiet_spawn quiet_serving split: sum.splits)
  then show ?thesis by (rule quiet_moving [OF assms])
next
  case ListCommand
  then have "quiet s (executeCommand rq s)" by (auto simp: executeCommand_def intro!: quiet_spawn)
  then show ?thesis by (rule quiet_moving [OF assms])
next
  case (DetachCommand sid)
  then have "quiet s (executeCommand rq s)" by (auto simp: executeCommand_def intro!: quiet_detach)
  then show ?thesis by (rule quiet_moving [OF assms])
qed (use moving_acquire [OF assms] in \<open>simp_all add: executeCommand_def\<close>)

lemma moving_dispatch:
  assumes "moving None None s"
  shows "moving None None (dispatchMessage c m s)"
proof (cases "sv_conns s c")
  case (Some cn)
  have quiet: "moving None None s'" if "quiet s s'" for s' using quiet_moving [OF assms that] .
  let ?s1 = "set_conn c (\<lambda>n. n\<lparr>cn_stage := Handshaking\<rparr>) s"
  have shaking: "moving (Some c) None ?s1" by (rule moving_start_handshake [OF assms])
  have "moving None None (finishHandshake c version ?s1)" for version
  proof (rule moving_settled [OF quiet_moving [OF shaking]])
    show "quiet ?s1 (finishHandshake c version ?s1)"
      by (auto simp: finishHandshake_def intro!: quiet_spawn quiet_transport quiet_failProtocol)
    show "hands_moving (finishHandshake c version ?s1) c"
      using Some by (auto simp: finishHandshake_def shakes_def conns_kept intro!: hands_spawn hands_finish)
  qed
  moreover have "moving None None (spawn (Serve \<lparr>rq_conn = c, rq_id = i, rq_command = cmd\<rparr> Queued) (observe (Requested c i) s))"
    if "cn_stage cn = Handshaking" for i cmd
    using that Some quiet_moving [OF assms quiet_observe [OF quiet_refl]]
    by (intro moving_queued) (auto simp: handshaking_def)
  moreover have "moving None None (executeCommand rq (observe e s))" for rq e
    by (intro moving_execute quiet quiet_observe quiet_refl)
  moreover have "moving None None (failProtocol c code s)" for code
    by (intro quiet quiet_failProtocol quiet_refl)
  ultimately show ?thesis using Some assms by (auto simp: dispatchMessage_def Let_def split: client_message.splits)
qed (use assms in \<open>simp add: dispatchMessage_def\<close>)

lemma moving_receive:
  assumes "moving None None s"
  shows "moving None None (receive c decoded s)"
proof -
  have "moving None None (dispatch_all c ms s)" for ms using assms
    by (induction ms arbitrary: s) (auto intro: moving_dispatch split: option.splits)
  moreover have "moving None None (failProtocol c code s)" for code
    by (intro quiet_moving [OF assms] quiet_failProtocol quiet_refl)
  ultimately show ?thesis using assms by (auto simp: receive_def split: option.splits sum.splits)
qed

lemma moving_queued_resumed: "moving None None s \<Longrightarrow> moving None None (resume_queued rq s)"
  by (auto simp: resume_queued_def intro: moving_execute split: option.splits)

lemma moving_request:
  assumes "moving None None s" "resume_request rq q reply s = Some s'"
  shows "moving None None s'"
proof -
  have quiet: "moving None None s'" if "quiet s s'" for s' using quiet_moving [OF assms(1) that] .
  have "quiet s (after_opening rq sid p creator s)" for sid p creator
    by (auto simp: after_opening_def Let_def intro!: quiet_spawn quiet_forget_opening split: option.splits open_promise.splits)
  show ?thesis
  proof (cases q)
    case Queued
    with assms show ?thesis by (auto simp: resume_request_def on_go_def intro: moving_queued_resumed split: if_splits)
  next
    case (WaitDisposing sid options r)
    with assms show ?thesis
      by (auto simp: resume_request_def on_go_def intro!: moving_acquire moving_spawn split: if_splits option.splits)
  next
    case (WaitOpening sid p creator)
    with assms \<open>\<And>creator p sid. quiet s (after_opening rq sid p creator s)\<close> show ?thesis
      by (auto simp: resume_request_def on_go_def intro: quiet split: if_splits)
  qed (use assms in \<open>auto simp: resume_request_def on_go_def on_settled_def
      intro!: quiet quiet_spawn quiet_serving quiet_end_operation quiet_after_dispose quiet_broadcast
      split: if_splits option.splits reply.splits\<close>)
qed

lemma opening_settles: "result \<noteq> OpenPending \<Longrightarrow> opening_moving (settle_opening p result s) p"
  by (simp add: opening_moving_def opening_settled_def settle_opening_def)

lemma opening_spawns: "opening_moving (spawn (OpenSession p q) s) p"
  by (auto simp: opening_moving_def)

lemma moving_opening:
  assumes ok: "moving None (Some p) s" and p: "p < sv_next s" and "resume_opening p q reply s = Some s'"
  shows "moving None None s'"
proof -
  have "quiet s (register_live p sid r s)" for sid r
    unfolding register_live_def using p by (intro quiet_settle quiet_counters quiet_refl) simp_all
  moreover have "opening_moving (register_live p sid r s) p" for sid r
    unfolding register_live_def by (rule opening_settles) simp
  ultimately have "quiet s s' \<and> opening_moving s' p" using assms(3) p
    by (cases q) (auto simp: resume_opening_def runtime_acquired_def opening_failed_def Let_def on_settled_def
        intro!: quiet_settle quiet_spawn quiet_observe quiet_next opening_settles opening_spawns
        split: reply.splits if_splits)
  with quiet_moving [OF ok, of s'] show ?thesis by (auto intro: moving_opened)
qed

lemma moving_data:
  assumes ok: "moving (map_option fst (greets (Carry q))) None s"
    and conn: "\<And>c b. greets (Carry q) = Some (c, b) \<Longrightarrow> sv_conns s c \<noteq> None" and "resume_data q reply s = Some s'"
  shows "moving None None s'"
proof -
  have "quiet s s'" using assms(3)
    by (cases q) (auto simp: resume_data_def on_go_def intro!: quiet_spawn quiet_lists quiet_snapshots quiet_serving
        split: reply.splits if_splits)
  then have moved: "moving (map_option fst (greets (Carry q))) None s'" by (rule quiet_moving [OF ok])
  show ?thesis
  proof (cases "greets (Carry q)")
    case None
    with moved show ?thesis by simp
  next
    case (Some x)
    then obtain revision where q: "q = Listing (HelloFor (fst x) revision (snd x)) \<or>
        (\<exists>stored rs. q = ListingLive (HelloFor (fst x) revision (snd x)) stored rs)"
      by (cases q; cases x) (auto elim!: greets.elims)
    have "hands_moving s' (fst x)" using q assms(3) conn [of "fst x" "snd x"] Some
      by (auto simp: resume_data_def shakes_def intro!: hands_spawn hands_list_failed hands_list_done
          split: reply.splits if_splits)
    with moved Some show ?thesis by (auto intro: moving_settled)
  qed
qed

lemma moving_transport:
  assumes ok: "moving (shakes (Transport c q)) None s" and conn: "shakes (Transport c q) = Some c \<Longrightarrow> sv_conns s c \<noteq> None"
    and "resume_transport c q reply s = Some s'"
  shows "moving None None s'"
proof -
  have "quiet s s'" using assms(3)
    by (cases q) (auto simp: resume_transport_def on_go_def on_settled_def
        intro!: quiet_spawn quiet_transport quiet_disconnect quiet_broadcast quiet_hello quiet_lists
        split: reply.splits if_splits)
  then have moved: "moving (shakes (Transport c q)) None s'" by (rule quiet_moving [OF ok])
  show ?thesis
  proof (cases "shakes (Transport c q) = None")
    case True
    with moved show ?thesis by simp
  next
    case False
    then have c: "shakes (Transport c q) = Some c" by (auto simp: shakes_def elim!: greets.elims)
    have "hands_moving s' c" using assms(3) conn [OF c] c
      by (cases q) (auto simp: resume_transport_def on_go_def on_settled_def shakes_def conns_kept
          intro!: hands_sent hands_resume_hello hands_list_failed hands_finish hands_spawn split: reply.splits if_splits)
    with moved c show ?thesis by (auto intro: moving_settled)
  qed
qed

lemma moving_server:
  assumes "moving None None s" "resume_server q reply s = Some s'"
  shows "moving None None s'"
proof -
  have "quiet s s'" using assms(2)
    by (cases q) (auto simp: resume_server_def on_go_def
        intro!: quiet_spawn quiet_fold quiet_disconnect quiet_after_dispose quiet_schedule quiet_broadcast quiet_closing
        split: reply.splits if_splits)
  then show ?thesis by (rule quiet_moving [OF assms(1)])
qed


lemma moving_take_task:
  assumes ok: "moving None None s" and task: "(t, p) \<in> set (sv_tasks s)"
  shows "moving (shakes p) (case p of OpenSession i q \<Rightarrow> Some i | _ \<Rightarrow> None) (s\<lparr>sv_tasks := remove1 (t, p) (sv_tasks s)\<rparr>)"
    (is "moving _ ?ops ?s")
proof -
  have rest: "x \<in> set (sv_tasks s)" if "x \<in> set (sv_tasks ?s)" for x using that set_remove1_subset [of "(t, p)" "sv_tasks s"] by auto
  have other: "x = (t, p) \<or> x \<in> set (sv_tasks ?s)" if "x \<in> set (sv_tasks s)" for x
    using that by (cases "x = (t, p)") auto
  have hands: "shakes p = Some c \<or> hands_moving ?s c" if "hands_moving s c" for c
    using that other unfolding hands_moving_def handshake_settled_def by fastforce
  have opens: "?ops = Some i \<or> opening_moving ?s i" if "opening_moving s i" for i
    using that other unfolding opening_moving_def opening_settled_def by fastforce
  have shaking: "handshaking ?s c = handshaking s c" for c by (simp add: handshaking_def)
  show ?thesis
  proof (rule movingI, goal_cases)
    case 1
    have "distinct (map fst (remove1 (t, p) (sv_tasks s)))"
      using movingD(1) [OF ok] set_remove1_subset [of "(t, p)" "sv_tasks s"]
      by (auto simp: numbered_def distinct_map inj_on_def)
    then show ?case using movingD(1) [OF ok] rest by (simp add: numbered_def) blast
  next
    case (2 t' rq)
    then show ?case using movingD(2) [OF ok rest] hands by blast
  next
    case (3 c)
    then show ?case using movingD(3) [OF ok] hands shaking by blast
  next
    case (4 t' rq sid p' creator)
    then show ?case using movingD(4) [OF ok rest] opens by blast
  next
    case (5 sid p')
    then show ?case using movingD(5) [OF ok, of sid p'] opens by auto
  qed
qed

lemma moving_resume:
  assumes ok: "moving (shakes p) (case p of OpenSession i q \<Rightarrow> Some i | _ \<Rightarrow> None) s"
    and conn: "\<And>c. shakes p = Some c \<Longrightarrow> sv_conns s c \<noteq> None" and opens: "\<And>i q. p = OpenSession i q \<Longrightarrow> i < sv_next s"
    and "resume p reply s = Some s'"
  shows "moving None None s'"
proof (cases p)
  case (Serve rq q)
  with assms show ?thesis by (auto simp: resume_def shakes_def intro: moving_request)
next
  case (OpenSession i q)
  with assms show ?thesis by (auto simp: resume_def shakes_def intro: moving_opening)
next
  case (Carry q)
  have "moving (map_option fst (greets (Carry q))) None s" using ok Carry by (simp add: shakes_def)
  then show ?thesis
    by (rule moving_data) (use conn assms(4) Carry in \<open>auto simp: resume_def shakes_def\<close>)
next
  case (Transport c q)
  have "moving (shakes (Transport c q)) None s" using ok Transport by simp
  then show ?thesis
    by (rule moving_transport) (use conn assms(4) Transport in \<open>auto simp: resume_def\<close>)
next
  case (Background q)
  with assms show ?thesis by (auto simp: resume_def shakes_def intro: moving_server)
qed


lemma moving_accept:
  assumes "moving None None s" "sv_conns s (sv_next s) = None"
  shows "moving None None (accept s)"
proof (cases "sv_closing s")
  case True
  then show ?thesis using quiet_moving [OF assms(1) quiet_observe [OF quiet_next [OF quiet_refl]]]
    by (simp add: accept_def Let_def)
next
  case False
  have conns: "sv_conns (accept s) c = sv_conns s c" if "c \<noteq> sv_next s" for c
    using that False by (simp add: accept_def Let_def)
  have "handshake_settled (accept s) c" if "handshake_settled s c" for c
    using that assms(2) conns [of c] by (cases "c = sv_next s") (auto simp: handshake_settled_def)
  moreover have "handshaking s c" if "handshaking (accept s) c" for c
    using that False conns [of c] by (cases "c = sv_next s") (auto simp: handshaking_def accept_def Let_def)
  moreover have "numbered (accept s)" if "numbered s"
    using that False by (auto simp: numbered_def accept_def Let_def less_Suc_eq)
  ultimately have "quiet s (accept s)"
    using False by (auto simp: quiet_def accept_def Let_def opening_settled_def)
  then show ?thesis by (rule quiet_moving [OF assms(1)])
qed

lemma moving_step:
  assumes ok: "moving None None s" and requests: "requests_ok None s" and "step a s = Some s'"
  shows "moving None None s'"
proof -
  have quiet: "moving None None s'" if "quiet s s'" for s' using quiet_moving [OF ok that] .
  show ?thesis
  proof (cases a)
    case (Resume t reply)
    then obtain p where p: "(t, p) \<in> set (sv_tasks s)"
      "resume p reply (s\<lparr>sv_tasks := remove1 (t, p) (sv_tasks s)\<rparr>) = Some s'"
      using assms(3) by (auto simp: step_def dest: map_of_SomeD split: option.splits)
    show ?thesis
    proof (rule moving_resume [OF moving_take_task [OF ok p(1)] _ _ p(2)], goal_cases)
      case (1 c)
      then obtain b where "greets p = Some (c, b)" by (auto simp: shakes_def)
      then show ?case using requests_okD(6) [OF requests p(1)] by (auto simp: past_handshake_def)
    next
      case (2 i q)
      then show ?case using movingD(1) [OF ok] p(1) unfolding numbered_def by auto blast
    qed
  next
    case Accept
    with assms show ?thesis using requests_okD(3) [OF requests, of "sv_next s"] by (auto simp: step_def intro: moving_accept)
  next
    case (Receive c decoded)
    with assms show ?thesis by (auto simp: step_def intro: moving_receive split: if_splits)
  qed (use assms(3) in \<open>auto simp: step_def Let_def intro!: quiet quiet_events quiet_failProtocol quiet_disconnect quiet_spawn
      quiet_transport quiet_set_conn quiet_set_live quiet_counters split: option.splits if_splits\<close>)
qed

lemma moving_new: "moving None None (new_server encodable uuid)"
  by (simp add: moving_def numbered_def new_server_def handshaking_def)

interpretation moving_promises: server_invariant "\<lambda>s. requests_ok None s \<and> moving None None s"
  by unfold_locales (auto intro: requests_new requests_step moving_new moving_step)

section \<open>No request is stuck\<close>

text \<open>The actions a waiting request waits for: the return of a disposal, or a step of the task that opens the
  session or shakes hands.\<close>

definition awaited :: "server \<Rightarrow> point \<Rightarrow> action \<Rightarrow> bool" where
  "awaited s p a \<longleftrightarrow>
     (case p of
        Serve rq Queued \<Rightarrow> (\<exists>t q reply. a = Resume t reply \<and> (t, q) \<in> set (sv_tasks s) \<and> shakes q = Some (rq_conn rq))
      | Serve rq (WaitOpening sid i creator) \<Rightarrow> (\<exists>t q reply. a = Resume t reply \<and> (t, OpenSession i q) \<in> set (sv_tasks s))
      | Serve rq (WaitDisposing sid options r) \<Rightarrow> (\<exists>result. a = DisposeReturns r result)
      | Serve rq (AttachRefused r w) \<Rightarrow> (\<exists>result. a = DisposeReturns r result)
      | Serve rq (Detaching sid r w) \<Rightarrow> (\<exists>result. a = DisposeReturns r result)
      | _ \<Rightarrow> False)"

lemma resume_enabled:
  assumes "numbered s" "(t, p) \<in> set (sv_tasks s)" "resume p reply (s\<lparr>sv_tasks := remove1 (t, p) (sv_tasks s)\<rparr>) \<noteq> None"
  shows "step (Resume t reply) s \<noteq> None"
proof -
  have "map_of (sv_tasks s) t = Some p" using assms(1,2) by (auto simp: numbered_def)
  with assms(3) show ?thesis by (simp add: step_def)
qed

lemma opening_resumes: "\<exists>reply. resume (OpenSession i q) reply s \<noteq> None"
proof (cases q)
  case (OpeningRuntime sid options)
  then show ?thesis by (intro exI [of _ GotRuntime]) (simp add: resume_def resume_opening_def)
next
  case (OpeningSnapshot sid r)
  then show ?thesis by (intro exI [of _ "Fail OtherThrown"]) (simp add: resume_def resume_opening_def)
qed (intro exI [of _ Go]; simp add: resume_def resume_opening_def on_settled_def)+

lemma data_resumes: "\<exists>reply. resume (Carry q) reply s \<noteq> None"
proof (cases q)
  case (Listing k)
  then show ?thesis by (intro exI [of _ "GotStored []"]) (simp add: resume_def resume_data_def)
next
  case (ListingLive k stored rs)
  then show ?thesis by (intro exI [of _ "Fail OtherThrown"]) (simp add: resume_def resume_data_def)
next
  case (Snapping k r)
  then show ?thesis by (intro exI [of _ "Fail OtherThrown"]) (simp add: resume_def resume_data_def)
qed (intro exI [of _ Go]; simp add: resume_def resume_data_def on_go_def)+

lemma shaking_resumes:
  assumes "shakes q = Some c"
  shows "\<exists>reply. resume q reply s \<noteq> None"
proof (cases q)
  case (Carry p)
  then show ?thesis using data_resumes by simp
next
  case (Transport c' p)
  then show ?thesis
  proof (cases p)
    case (HelloModels revision refresh sessions)
    with Transport show ?thesis by (intro exI [of _ "GotModels []"]) (simp add: resume_def resume_transport_def)
  qed (use assms Transport in \<open>auto simp: shakes_def resume_def resume_transport_def on_settled_def on_go_def intro!: exI [of _ Go]\<close>)
qed (use assms in \<open>auto simp: shakes_def\<close>)

lemma disposal_returns:
  assumes "\<not> dispose_settled s r w"
  shows "step (DisposeReturns r result) s \<noteq> None"
  using assms by (auto simp: dispose_settled_def step_def split: option.splits)

text \<open>
  C12. No request hangs on the server: in every state it can reach, the task that serves a request can go on
  with some reply to what it awaits, or an action it waits for can happen now: the disposal of the session
  returns, or the task that opens its session or shakes hands on its connection takes a step.
\<close>

theorem requests_never_stuck:
  assumes "reachable (new_server encodable uuid) s" "(t, p) \<in> set (sv_tasks s)" "point_request p = Some rq"
  shows "\<exists>a. step a s \<noteq> None \<and> ((\<exists>reply. a = Resume t reply) \<or> awaited s p a)"
proof -
  note ok = movingD [OF conjunct2 [OF moving_promises.reachable_good [OF assms(1)]]]
  let ?s = "s\<lparr>sv_tasks := remove1 (t, p) (sv_tasks s)\<rparr>"
  have goes_on: ?thesis if "\<exists>reply. resume p reply ?s \<noteq> None"
    using that resume_enabled [OF ok(1) assms(2)] by blast
  have disposing: ?thesis if "\<not> dispose_settled s r w" "\<And>result. awaited s p (DisposeReturns r result)" for r w
    using that disposal_returns by blast
  have settled: "dispose_settled ?s = dispose_settled s" "opening_settled ?s = opening_settled s" "handshake_settled ?s = handshake_settled s"
    by (simp_all add: fun_eq_iff dispose_settled_def opening_settled_def handshake_settled_def)
  show ?thesis
  proof (cases p)
    case (Carry q)
    then show ?thesis using goes_on data_resumes by blast
  next
    case (Serve rq' q)
    have on_go: ?thesis if "resume_request rq' q Go ?s \<noteq> None"
      using that goes_on Serve by (auto simp: resume_def)
    have dispose: ?thesis if "\<And>result. awaited s p (DisposeReturns r result)" "dispose_settled s r w \<Longrightarrow> resume_request rq' q Go ?s \<noteq> None" for r w
      using that on_go disposing by blast
    show ?thesis
    proof (cases q)
      case Queued
      show ?thesis
      proof (cases "handshake_settled s (rq_conn rq')")
        case False
        then obtain t' q' where "(t', q') \<in> set (sv_tasks s)" "shakes q' = Some (rq_conn rq')"
          using ok(2) [of t rq'] assms(2) Serve Queued by (auto simp: hands_moving_def)
        with shaking_resumes resume_enabled [OF ok(1)] Serve Queued show ?thesis
          unfolding awaited_def by fastforce
      qed (use on_go Queued settled in \<open>simp add: resume_request_def on_go_def\<close>)
    next
      case (WaitOpening sid i creator)
      show ?thesis
      proof (cases "opening_settled s i")
        case False
        then obtain t' q' where "(t', OpenSession i q') \<in> set (sv_tasks s)"
          using ok(4) [of t rq' sid i creator] assms(2) Serve WaitOpening by (auto simp: opening_moving_def)
        with opening_resumes resume_enabled [OF ok(1)] Serve WaitOpening show ?thesis
          unfolding awaited_def by fastforce
      qed (use on_go WaitOpening settled in \<open>simp add: resume_request_def on_go_def\<close>)
    next
      case (WaitDisposing sid options r)
      then show ?thesis using Serve settled by (intro dispose [of r WaitOnly]) (auto simp: awaited_def resume_request_def on_go_def)
    next
      case (AttachRefused r w)
      then show ?thesis using Serve settled by (intro dispose [of r w]) (auto simp: awaited_def resume_request_def on_go_def)
    next
      case (Detaching sid r w)
      then show ?thesis using Serve settled by (intro dispose [of r w]) (auto simp: awaited_def resume_request_def on_go_def)
    qed (use on_go in \<open>simp_all add: resume_request_def on_go_def on_settled_def\<close>)
  qed (use assms(3) in auto)
qed


definition example_attach :: client_request where
  "example_attach = \<lparr>rq_conn = 0, rq_id = ''a'', rq_command = AttachCommand ''s''\<rparr>"

lemma opening_run_result:
  "case run (take 7 attach_run) example_server of None \<Rightarrow> False
   | Some s \<Rightarrow> (6, Serve example_attach (WaitOpening ''s'' 5 True)) \<in> set (sv_tasks s)"
  by code_simp

theorem requests_never_stuck_witness:
  "\<exists>s. reachable example_server s \<and> (6, Serve example_attach (WaitOpening ''s'' 5 True)) \<in> set (sv_tasks s) \<and>
     (\<exists>a. step a s \<noteq> None \<and> ((\<exists>reply. a = Resume 6 reply) \<or> awaited s (Serve example_attach (WaitOpening ''s'' 5 True)) a))"
proof -
  obtain s where s: "reachable example_server s" "(6, Serve example_attach (WaitOpening ''s'' 5 True)) \<in> set (sv_tasks s)"
    using run_witness [OF opening_run_result] .
  from requests_never_stuck [OF s(1) [unfolded example_server_def] s(2), of example_attach] s show ?thesis by auto
qed

end
