(* ===== verification/Client.thy ===== *)
theory Client
  imports Server
begin

text \<open>
  The client, \<^verbatim>\<open>packages/client/src\<close>: the reduced view of the server (\<^verbatim>\<open>state.ts\<close>), the connection and its
  handshake (\<^verbatim>\<open>connection.ts\<close>), requests and the leases on sessions (\<^verbatim>\<open>client.ts\<close>). As for the server, the code
  between two awaits is one step, and what waits for a promise is a task that may go on once the promise
  has settled. The transport is the environment: it opens, delivers decoded messages, fails and closes.
  Subscribers do not call the client from within a notification.
\<close>

section \<open>The view of the server\<close>

record client_state =
  ct_snapshot :: "server_snapshot option"
  ct_sessionSnapshots :: "(ident, session_snapshot) js_map"
  ct_attachedSessionIds :: "ident list" \<comment> \<open>a set\<close>

definition new_client_state :: client_state where
  "new_client_state = \<lparr>ct_snapshot = None, ct_sessionSnapshots = [], ct_attachedSessionIds = []\<rparr>"

definition reset_state :: "client_state \<Rightarrow> client_state" where
  "reset_state st = st\<lparr>ct_snapshot := None, ct_sessionSnapshots := [], ct_attachedSessionIds := []\<rparr>"

definition clearAttachments :: "client_state \<Rightarrow> client_state" where
  "clearAttachments st = st\<lparr>ct_attachedSessionIds := []\<rparr>"

definition isSessionAttached :: "client_state \<Rightarrow> ident \<Rightarrow> bool" where
  "isSessionAttached st sid \<longleftrightarrow> sid \<in> set (ct_attachedSessionIds st)"

definition forgetSessionSnapshot :: "ident \<Rightarrow> client_state \<Rightarrow> session_snapshot option \<times> client_state" where
  "forgetSessionSnapshot sid st =
     (map_get (ct_sessionSnapshots st) sid, st\<lparr>ct_sessionSnapshots := map_remove (ct_sessionSnapshots st) sid\<rparr>)"

definition restoreSessionSnapshot :: "session_snapshot \<Rightarrow> client_state \<Rightarrow> client_state" where
  "restoreSessionSnapshot sn st =
     (if map_has (ct_sessionSnapshots st) (sn_id sn) then st
      else st\<lparr>ct_sessionSnapshots := map_set (ct_sessionSnapshots st) (sn_id sn) sn\<rparr>)"

definition applySessionSnapshot :: "session_snapshot \<Rightarrow> bool \<Rightarrow> client_state \<Rightarrow> client_state" where
  "applySessionSnapshot sn force st =
     (case map_get (ct_sessionSnapshots st) (sn_id sn) of
        Some current \<Rightarrow> if \<not> force \<and> sn_revision sn < sn_revision current then st else
          st\<lparr>ct_sessionSnapshots := map_set (ct_sessionSnapshots st) (sn_id sn) sn,
             ct_attachedSessionIds := (if sn_attached sn then add_new (sn_id sn) (ct_attachedSessionIds st)
               else removeAll (sn_id sn) (ct_attachedSessionIds st))\<rparr>
      | None \<Rightarrow>
          st\<lparr>ct_sessionSnapshots := map_set (ct_sessionSnapshots st) (sn_id sn) sn,
             ct_attachedSessionIds := (if sn_attached sn then add_new (sn_id sn) (ct_attachedSessionIds st)
               else removeAll (sn_id sn) (ct_attachedSessionIds st))\<rparr>)"

definition applyServerSnapshot :: "server_snapshot \<Rightarrow> client_state \<Rightarrow> client_state" where
  "applyServerSnapshot sn st =
     (case ct_snapshot st of
        Some current \<Rightarrow> if vs_revision sn < vs_revision current then st else st\<lparr>ct_snapshot := Some sn\<rparr>
      | None \<Rightarrow> st\<lparr>ct_snapshot := Some sn\<rparr>)"

definition applyResult :: "command_result \<Rightarrow> client_state \<Rightarrow> client_state" where
  "applyResult result st =
     (case result of
        ListResult _ \<Rightarrow> st
      | DetachResult sid \<Rightarrow>
          (let st1 = st\<lparr>ct_attachedSessionIds := removeAll sid (ct_attachedSessionIds st)\<rparr>
           in case map_get (ct_sessionSnapshots st1) sid of
                None \<Rightarrow> st1
              | Some sn \<Rightarrow> applySessionSnapshot (sn\<lparr>sn_attached := False\<rparr>) True st1)
      | CreateResult sn \<Rightarrow> applySessionSnapshot sn False st
      | AttachResult sn \<Rightarrow> applySessionSnapshot sn False st
      | RuntimeResult _ sn \<Rightarrow> applySessionSnapshot sn False st)"

text \<open>The events of the protocol; the remaining messages are not events.\<close>

definition applyEvent :: "server_message \<Rightarrow> client_state \<Rightarrow> client_state" where
  "applyEvent event st =
     (case event of
        ServerSnapshotEvent sn \<Rightarrow> applyServerSnapshot sn st
      | SessionSnapshotEvent sn \<Rightarrow> applySessionSnapshot sn False st
      | SessionRemovedEvent sid \<Rightarrow>
          st\<lparr>ct_sessionSnapshots := map_remove (ct_sessionSnapshots st) sid,
             ct_attachedSessionIds := removeAll sid (ct_attachedSessionIds st)\<rparr>
      | _ \<Rightarrow> st)"

section \<open>The state of the client\<close>

datatype client_error = ClientDisposed | ClientDisconnected | ServerFailed error_code | ProtocolViolation
  | OwnershipError ident | SessionDetached ident | OtherClientError

text \<open>The promise of a request has the number of the request; all other promises are numbered on their own.\<close>

datatype promise = RequestPromise nat | OwnPromise nat

datatype outcome = Fulfilled | Answered command_result | Welcomed server_snapshot | LeaseGiven nat | Rejected client_error

text \<open>A connection, once its transport is there, is the only one with that transport.\<close>

datatype lifecycle = Disconnected
  | Connecting nat bool nat \<comment> \<open>id, whether the transport is open, promise of the handshake\<close>
  | Connected nat "nat option"

record pending_request =
  pd_number :: nat
  pd_command :: command

datatype lease_mode = SharedLease | ExclusiveLease

datatype lease_state = LeaseActive | Releasing | Released | Invalidated

text \<open>A lease is known by the token that was reserved for it.\<close>

record lease =
  ls_session :: ident
  ls_generation :: nat
  ls_state :: lease_state
  ls_release :: "nat option"

datatype waiting = OpeningTransport nat
  | SendingHello nat
  | SendingFrame nat
  | CreatingSession nat promise
  | AwaitDetachment nat ident nat promise
  | AwaitReconciliation nat ident nat promise
  | AwaitAttachment nat ident nat promise
  | AttachAnswer ident "session_snapshot option" promise nat
  | DetachAnswer promise nat
  | ReleaseAwait nat promise bool nat
  | ReleaseRejected nat client_error bool nat
  | ReconcileAnswer ident promise nat
  | ReconcileFinally ident outcome nat

datatype client_notice = Settled promise outcome
  | FrameSent nat client_message
  | TransportCloseCalled nat

record client =
  cl_lifecycle :: lifecycle
  cl_sequence :: nat
  cl_state :: client_state
  cl_pendingRequests :: "(ident, pending_request) js_map"
  cl_leaseCounts :: "(ident, nat) js_map"
  cl_exclusiveLeases :: "(ident, nat) js_map"
  cl_generations :: "(ident, nat) js_map"
  cl_attachments :: "(ident, nat) js_map"
  cl_detachments :: "(ident, nat) js_map"
  cl_cleanupRequired :: "ident list" \<comment> \<open>a set\<close>
  cl_reconciliations :: "(ident, nat) js_map"
  cl_requestSequence :: nat
  cl_disposed :: bool
  cl_leases :: "(nat, lease) js_map"
  cl_nextToken :: nat
  cl_nextPromise :: nat
  cl_settled :: "promise \<Rightarrow> outcome option"
  cl_tasks :: "(nat \<times> waiting) list"
  cl_nextTask :: nat
  cl_log :: "client_notice list"
  cl_encodable :: "client_message \<Rightarrow> bool" \<comment> \<open>what encodeClientMessage accepts\<close>
  cl_sendThrows :: "client_message \<Rightarrow> bool" \<comment> \<open>whether the transport throws instead of returning a promise\<close>

definition new_client :: "(client_message \<Rightarrow> bool) \<Rightarrow> (client_message \<Rightarrow> bool) \<Rightarrow> client" where
  "new_client encodable sendThrows =
     \<lparr>cl_lifecycle = Disconnected, cl_sequence = 0, cl_state = new_client_state, cl_pendingRequests = [], cl_leaseCounts = [],
      cl_exclusiveLeases = [], cl_generations = [], cl_attachments = [], cl_detachments = [], cl_cleanupRequired = [],
      cl_reconciliations = [], cl_requestSequence = 0, cl_disposed = False, cl_leases = [], cl_nextToken = 0,
      cl_nextPromise = 0, cl_settled = (\<lambda>_. None), cl_tasks = [], cl_nextTask = 0, cl_log = [],
      cl_encodable = encodable, cl_sendThrows = sendThrows\<rparr>"

definition new_promise :: "client \<Rightarrow> nat \<times> client" where
  "new_promise s = (cl_nextPromise s, s\<lparr>cl_nextPromise := cl_nextPromise s + 1\<rparr>)"

text \<open>Only the first settlement of a promise counts; every call of its resolvers is logged.\<close>

definition settle :: "promise \<Rightarrow> outcome \<Rightarrow> client \<Rightarrow> client" where
  "settle p out s = s\<lparr>cl_settled := (if cl_settled s p = None then (cl_settled s)(p \<mapsto> out) else cl_settled s),
     cl_log := cl_log s @ [Settled p out]\<rparr>"

definition wait :: "waiting \<Rightarrow> client \<Rightarrow> client" where
  "wait point s = s\<lparr>cl_tasks := cl_tasks s @ [(cl_nextTask s, point)], cl_nextTask := cl_nextTask s + 1\<rparr>"

definition notice :: "client_notice \<Rightarrow> client \<Rightarrow> client" where
  "notice n s = s\<lparr>cl_log := cl_log s @ [n]\<rparr>"

abbreviation on_state :: "(client_state \<Rightarrow> client_state) \<Rightarrow> client \<Rightarrow> client" where
  "on_state f s \<equiv> s\<lparr>cl_state := f (cl_state s)\<rparr>"

section \<open>The table of leases\<close>

definition lease_count :: "client \<Rightarrow> ident \<Rightarrow> nat" where
  "lease_count s sid = (case map_get (cl_leaseCounts s) sid of None \<Rightarrow> 0 | Some n \<Rightarrow> n)"

definition lease_generation :: "client \<Rightarrow> ident \<Rightarrow> nat" where
  "lease_generation s sid = (case map_get (cl_generations s) sid of None \<Rightarrow> 0 | Some g \<Rightarrow> g)"

definition reserveSessionLease :: "ident \<Rightarrow> lease_mode \<Rightarrow> client \<Rightarrow> client_error + nat \<times> client" where
  "reserveSessionLease sid mode s =
     (let n = lease_count s sid
      in if mode = ExclusiveLease \<and> 0 < n then Inl (OwnershipError sid)
         else if mode = SharedLease \<and> map_has (cl_exclusiveLeases s) sid then Inl (OwnershipError sid)
         else (let token = cl_nextToken s;
                   s1 = s\<lparr>cl_nextToken := token + 1, cl_leaseCounts := map_set (cl_leaseCounts s) sid (n + 1)\<rparr>
               in Inr (token, if mode = ExclusiveLease
                         then s1\<lparr>cl_exclusiveLeases := map_set (cl_exclusiveLeases s1) sid token\<rparr> else s1)))"

definition releaseSessionLease :: "ident \<Rightarrow> nat \<Rightarrow> client \<Rightarrow> client" where
  "releaseSessionLease sid token s =
     (let n = lease_count s sid;
          s1 = s\<lparr>cl_leaseCounts := (if n \<le> 1 then map_remove (cl_leaseCounts s) sid else map_set (cl_leaseCounts s) sid (n - 1))\<rparr>
      in if map_get (cl_exclusiveLeases s1) sid = Some token
         then s1\<lparr>cl_exclusiveLeases := map_remove (cl_exclusiveLeases s1) sid\<rparr> else s1)"

definition invalidateSessionLeases :: "ident \<Rightarrow> client \<Rightarrow> client" where
  "invalidateSessionLeases sid s =
     s\<lparr>cl_leaseCounts := map_remove (cl_leaseCounts s) sid, cl_exclusiveLeases := map_remove (cl_exclusiveLeases s) sid,
       cl_cleanupRequired := removeAll sid (cl_cleanupRequired s),
       cl_generations := map_set (cl_generations s) sid (lease_generation s sid + 1)\<rparr>"

definition invalidateAllSessionLeases :: "client \<Rightarrow> client" where
  "invalidateAllSessionLeases s =
     (fold invalidateSessionLeases (map fst (cl_leaseCounts s)) s)\<lparr>cl_cleanupRequired := []\<rparr>"

section \<open>The connection\<close>

definition settle_pending :: "client_error \<Rightarrow> pending_request \<Rightarrow> client \<Rightarrow> client" where
  "settle_pending err r = settle (RequestPromise (pd_number r)) (Rejected err)"

definition rejectPendingRequests :: "client_error \<Rightarrow> client \<Rightarrow> client" where
  "rejectPendingRequests err s = fold (settle_pending err) (map_values (cl_pendingRequests s)) (s\<lparr>cl_pendingRequests := []\<rparr>)"

definition handle_disconnected :: "client_error \<Rightarrow> client \<Rightarrow> client" where
  "handle_disconnected err s = rejectPendingRequests err (invalidateAllSessionLeases (on_state clearAttachments s))"

definition fail :: "client_error \<Rightarrow> client \<Rightarrow> client" where
  "fail err s =
     (case cl_lifecycle s of
        Disconnected \<Rightarrow> s
      | Connecting _ _ h \<Rightarrow> handle_disconnected err (settle (OwnPromise h) (Rejected err) (s\<lparr>cl_lifecycle := Disconnected\<rparr>))
      | Connected _ None \<Rightarrow> handle_disconnected err (s\<lparr>cl_lifecycle := Disconnected\<rparr>)
      | Connected _ (Some h) \<Rightarrow>
          handle_disconnected err (settle (OwnPromise h) (Rejected err) (s\<lparr>cl_lifecycle := Disconnected\<rparr>)))"

definition failAndClose :: "client_error \<Rightarrow> client \<Rightarrow> client" where
  "failAndClose err s =
     (case cl_lifecycle s of
        Disconnected \<Rightarrow> s
      | Connecting i open_ _ \<Rightarrow> if open_ then notice (TransportCloseCalled i) (fail err s) else fail err s
      | Connected i _ \<Rightarrow> notice (TransportCloseCalled i) (fail err s))"

definition isCurrent :: "nat \<Rightarrow> client \<Rightarrow> bool" where
  "isCurrent i s \<longleftrightarrow> (case cl_lifecycle s of Disconnected \<Rightarrow> False | Connecting j _ _ \<Rightarrow> i = j | Connected j _ \<Rightarrow> i = j)"

definition is_connected :: "client \<Rightarrow> bool" where
  "is_connected s \<longleftrightarrow> (case cl_lifecycle s of Connected _ _ \<Rightarrow> True | _ \<Rightarrow> False)"

definition connection_connect :: "client \<Rightarrow> client" where
  "connection_connect s =
     (case new_promise s of (h, s1) \<Rightarrow>
        if cl_lifecycle s1 \<noteq> Disconnected then settle (OwnPromise h) (Rejected ClientDisconnected) s1
        else (let i = cl_sequence s1 + 1
              in wait (OpeningTransport i) (s1\<lparr>cl_sequence := i, cl_lifecycle := Connecting i False h\<rparr>)))"

definition connect :: "client \<Rightarrow> client" where
  "connect s =
     (if cl_disposed s then (case new_promise s of (p, s1) \<Rightarrow> settle (OwnPromise p) (Rejected ClientDisposed) s1)
      else connection_connect (if cl_lifecycle s = Disconnected then on_state reset_state s else s))"

definition connection_send :: "client_message \<Rightarrow> client \<Rightarrow> client" where
  "connection_send m s =
     (case cl_lifecycle s of
        Connected i _ \<Rightarrow>
          if cl_sendThrows s m then failAndClose ClientDisconnected s
          else wait (SendingFrame i) (notice (FrameSent i m) s)
      | _ \<Rightarrow> s)"

definition openTransport :: "nat \<Rightarrow> client_error option \<Rightarrow> client \<Rightarrow> client" where
  "openTransport i err s =
     (case err of
        Some e \<Rightarrow> if isCurrent i s then fail ClientDisconnected s else s
      | None \<Rightarrow>
          (case cl_lifecycle s of
             Connecting j _ h \<Rightarrow>
               if i \<noteq> j then notice (TransportCloseCalled i) s
               else (let s1 = s\<lparr>cl_lifecycle := Connecting i True h\<rparr>; m = Hello (JsInt 1)
                     in if \<not> cl_encodable s1 m \<or> cl_sendThrows s1 m then failAndClose ClientDisconnected s1
                        else wait (SendingHello i) (notice (FrameSent i m) s1))
           | _ \<Rightarrow> notice (TransportCloseCalled i) s))"

section \<open>Messages of the server\<close>

definition request_id :: "nat \<Rightarrow> ident" where
  "request_id n = ''request-'' @ decimal n"

definition takePendingRequest :: "ident \<Rightarrow> client \<Rightarrow> pending_request option \<times> client" where
  "takePendingRequest rid s =
     (case map_get (cl_pendingRequests s) rid of
        None \<Rightarrow> (None, s)
      | Some r \<Rightarrow> (Some r, s\<lparr>cl_pendingRequests := map_remove (cl_pendingRequests s) rid\<rparr>))"

definition op_name :: "runtime_op \<Rightarrow> string" where
  "op_name op = (case op of PromptOp _ \<Rightarrow> ''prompt'' | SteerOp _ \<Rightarrow> ''steer'' | AbortOp \<Rightarrow> ''abort''
     | SetModelOp _ \<Rightarrow> ''set_model'' | SetThinkingOp _ \<Rightarrow> ''set_thinking'')"

definition command_name :: "command \<Rightarrow> string" where
  "command_name c = (case c of ListCommand \<Rightarrow> ''list'' | CreateCommand _ \<Rightarrow> ''create'' | AttachCommand _ \<Rightarrow> ''attach''
     | DetachCommand _ \<Rightarrow> ''detach'' | RuntimeCommand _ op \<Rightarrow> op_name op)"

definition result_name :: "command_result \<Rightarrow> string" where
  "result_name r = (case r of ListResult _ \<Rightarrow> ''list'' | CreateResult _ \<Rightarrow> ''create'' | AttachResult _ \<Rightarrow> ''attach''
     | DetachResult _ \<Rightarrow> ''detach'' | RuntimeResult op _ \<Rightarrow> op_name op)"

definition handleResponse :: "ident \<Rightarrow> error_code + command_result \<Rightarrow> client \<Rightarrow> client" where
  "handleResponse rid response s =
     (case takePendingRequest rid s of
        (None, s1) \<Rightarrow> failAndClose ProtocolViolation s1
      | (Some r, s1) \<Rightarrow>
          (case response of
             Inl code \<Rightarrow> settle (RequestPromise (pd_number r)) (Rejected (ServerFailed code)) s1
           | Inr result \<Rightarrow>
               if result_name result \<noteq> command_name (pd_command r)
               then failAndClose ProtocolViolation (settle (RequestPromise (pd_number r)) (Rejected ProtocolViolation) s1)
               else settle (RequestPromise (pd_number r)) (Answered result) (on_state (applyResult result) s1)))"

definition handleMessage :: "server_message \<Rightarrow> client \<Rightarrow> client" where
  "handleMessage m s =
     (case m of
        ResponseOk rid result \<Rightarrow> handleResponse rid (Inr result) s
      | ResponseError rid code \<Rightarrow> handleResponse rid (Inl code) s
      | SessionRemovedEvent sid \<Rightarrow> on_state (applyEvent m) (invalidateSessionLeases sid s)
      | _ \<Rightarrow> on_state (applyEvent m) s)"

definition is_handshake_message :: "server_message \<Rightarrow> bool" where
  "is_handshake_message m \<longleftrightarrow> (case m of ServerHello _ \<Rightarrow> True | HelloError _ \<Rightarrow> True | _ \<Rightarrow> False)"

definition connection_message :: "server_message \<Rightarrow> client \<Rightarrow> client" where
  "connection_message m s =
     (case cl_lifecycle s of
        Connecting i open_ h \<Rightarrow>
          (case m of
             HelloError code \<Rightarrow> failAndClose (ServerFailed code) s
           | ServerHello snapshot \<Rightarrow>
               if \<not> open_ then failAndClose ProtocolViolation s
               else settle (OwnPromise h) (Welcomed snapshot)
                      (on_state (applyServerSnapshot snapshot) s)\<lparr>cl_lifecycle := Connected i None\<rparr>
           | _ \<Rightarrow> failAndClose ProtocolViolation s)
      | Connected _ _ \<Rightarrow> if is_handshake_message m then failAndClose ProtocolViolation s else handleMessage m s
      | Disconnected \<Rightarrow> s)"

fun connection_messages :: "server_message list \<Rightarrow> client \<Rightarrow> client" where
  "connection_messages [] s = s"
| "connection_messages (m # ms) s = (if cl_lifecycle s = Disconnected then s else connection_messages ms (connection_message m s))"

definition handleData :: "nat \<Rightarrow> client_error + server_message list \<Rightarrow> client \<Rightarrow> client" where
  "handleData i decoded s =
     (if \<not> isCurrent i s then s
      else if (case cl_lifecycle s of Connecting _ open_ _ \<Rightarrow> \<not> open_ | _ \<Rightarrow> False) then failAndClose ProtocolViolation s
      else (case decoded of Inl err \<Rightarrow> failAndClose err s | Inr ms \<Rightarrow> connection_messages ms s))"

text \<open>What the decoder says when the stream ends is given by the environment.\<close>

definition handleClose :: "nat \<Rightarrow> client_error option \<Rightarrow> client \<Rightarrow> client" where
  "handleClose i decoder_error s =
     (if isCurrent i s then fail (case decoder_error of None \<Rightarrow> ClientDisconnected | Some e \<Rightarrow> e) s else s)"

definition handleError :: "nat \<Rightarrow> client \<Rightarrow> client" where
  "handleError i s = (if isCurrent i s then failAndClose ClientDisconnected s else s)"

section \<open>Requests\<close>

definition rejected :: "client_error \<Rightarrow> client \<Rightarrow> promise \<times> client" where
  "rejected err s = (case new_promise s of (p, s1) \<Rightarrow> (OwnPromise p, settle (OwnPromise p) (Rejected err) s1))"

definition request :: "command \<Rightarrow> client \<Rightarrow> promise \<times> client" where
  "request command s =
     (if cl_disposed s then rejected ClientDisposed s
      else if \<not> is_connected s then rejected ClientDisconnected s
      else (let n = cl_requestSequence s + 1; m = Request (request_id n) command;
                s1 = s\<lparr>cl_requestSequence := n,
                  cl_pendingRequests := map_set (cl_pendingRequests s) (request_id n) \<lparr>pd_number = n, pd_command = command\<rparr>\<rparr>
            in (RequestPromise n,
                if \<not> cl_encodable s1 m
                then (case takePendingRequest (request_id n) s1 of
                        (Some r, s2) \<Rightarrow> settle_pending OtherClientError r s2 | (None, s2) \<Rightarrow> s2)
                else connection_send m s1)))"

definition dispose :: "client \<Rightarrow> client" where
  "dispose s =
     (if cl_disposed s then s
      else invalidateAllSessionLeases (on_state reset_state
             (failAndClose ClientDisposed (rejectPendingRequests ClientDisposed (s\<lparr>cl_disposed := True\<rparr>)))))"

section \<open>Leases\<close>

definition createSessionLease :: "ident \<Rightarrow> nat \<Rightarrow> client \<Rightarrow> client" where
  "createSessionLease sid token s =
     (let g = lease_generation s sid
      in s\<lparr>cl_generations := map_set (cl_generations s) sid g,
           cl_leases := map_set (cl_leases s) token
             \<lparr>ls_session = sid, ls_generation = g, ls_state = LeaseActive, ls_release = None\<rparr>\<rparr>)"

definition refreshState :: "client \<Rightarrow> lease \<Rightarrow> lease" where
  "refreshState s l =
     (if (ls_state l = LeaseActive \<or> ls_state l = Releasing) \<and> map_get (cl_generations s) (ls_session l) \<noteq> Some (ls_generation l)
      then l\<lparr>ls_state := Invalidated\<rparr> else l)"

definition isActive :: "client \<Rightarrow> lease \<Rightarrow> bool" where
  "isActive s l \<longleftrightarrow> ls_state (refreshState s l) = LeaseActive \<and> isSessionAttached (cl_state s) (ls_session l)"

definition assertActive :: "client \<Rightarrow> lease \<Rightarrow> client_error option" where
  "assertActive s l =
     (if cl_disposed s then Some ClientDisposed
      else if \<not> is_connected s then Some ClientDisconnected
      else if \<not> isActive s l then Some (SessionDetached (ls_session l)) else None)"

definition set_lease :: "nat \<Rightarrow> lease \<Rightarrow> client \<Rightarrow> client" where
  "set_lease token l s = s\<lparr>cl_leases := map_set (cl_leases s) token l\<rparr>"

text \<open>The call that returns a lease, from its reservation to the lease; its promise is the first argument.\<close>

definition acquired :: "nat \<Rightarrow> ident \<Rightarrow> nat \<Rightarrow> client \<Rightarrow> client" where
  "acquired call sid token s = settle (OwnPromise call) (LeaseGiven token) (createSessionLease sid token s)"

definition acquire_failed :: "nat \<Rightarrow> ident \<Rightarrow> nat \<Rightarrow> client_error \<Rightarrow> client \<Rightarrow> client" where
  "acquire_failed call sid token err s = settle (OwnPromise call) (Rejected err) (releaseSessionLease sid token s)"

definition attachSession :: "ident \<Rightarrow> client \<Rightarrow> nat \<times> client" where
  "attachSession sid s =
     (case new_promise s of (ap, s0) \<Rightarrow>
        (case forgetSessionSnapshot sid (cl_state s0) of (previous, st) \<Rightarrow>
           (case request (AttachCommand sid) (s0\<lparr>cl_state := st\<rparr>) of (rp, s1) \<Rightarrow>
              (ap, wait (AttachAnswer sid previous rp ap) (s1\<lparr>cl_attachments := map_set (cl_attachments s1) sid ap\<rparr>)))))"

definition acquire_attach :: "nat \<Rightarrow> ident \<Rightarrow> nat \<Rightarrow> bool \<Rightarrow> client \<Rightarrow> client" where
  "acquire_attach call sid token reconciled s =
     (if reconciled \<or> \<not> isSessionAttached (cl_state s) sid
      then (case map_get (cl_attachments s) sid of
              Some ap \<Rightarrow> wait (AwaitAttachment call sid token (OwnPromise ap)) s
            | None \<Rightarrow> (case attachSession sid s of (ap, s1) \<Rightarrow> wait (AwaitAttachment call sid token (OwnPromise ap)) s1))
      else acquired call sid token s)"

definition reconcileSessionCleanup :: "ident \<Rightarrow> client \<Rightarrow> nat \<times> client" where
  "reconcileSessionCleanup sid s =
     (case map_get (cl_reconciliations s) sid of
        Some p \<Rightarrow> (p, s)
      | None \<Rightarrow>
          (case new_promise s of (p, s0) \<Rightarrow>
             (case request (DetachCommand sid) s0 of (rp, s1) \<Rightarrow>
                (p, wait (ReconcileAnswer sid rp p) (s1\<lparr>cl_reconciliations := map_set (cl_reconciliations s1) sid p\<rparr>)))))"

definition acquire_reconcile :: "nat \<Rightarrow> ident \<Rightarrow> nat \<Rightarrow> client \<Rightarrow> client" where
  "acquire_reconcile call sid token s =
     (if sid \<in> set (cl_cleanupRequired s)
      then (case reconcileSessionCleanup sid s of (p, s1) \<Rightarrow> wait (AwaitReconciliation call sid token (OwnPromise p)) s1)
      else acquire_attach call sid token False s)"

definition acquireSession :: "ident \<Rightarrow> lease_mode \<Rightarrow> client \<Rightarrow> client" where
  "acquireSession sid mode s =
     (case new_promise s of (call, s0) \<Rightarrow>
        if cl_disposed s0 then settle (OwnPromise call) (Rejected ClientDisposed) s0
        else (case reserveSessionLease sid mode s0 of
                Inl err \<Rightarrow> settle (OwnPromise call) (Rejected err) s0
              | Inr (token, s1) \<Rightarrow>
                  (case map_get (cl_detachments s1) sid of
                     Some d \<Rightarrow> wait (AwaitDetachment call sid token (OwnPromise d)) s1
                   | None \<Rightarrow> acquire_reconcile call sid token s1)))"

definition createSession :: "session_options \<Rightarrow> client \<Rightarrow> client" where
  "createSession options s =
     (case new_promise s of (call, s0) \<Rightarrow>
        (case request (CreateCommand options) s0 of (rp, s1) \<Rightarrow> wait (CreatingSession call rp) s1))"

text \<open>A release; an error that is thrown at once is a rejected promise here.\<close>

definition release :: "nat \<Rightarrow> bool \<Rightarrow> client \<Rightarrow> client" where
  "release token relinquish s =
     (case map_get (cl_leases s) token of
        None \<Rightarrow> s
      | Some l0 \<Rightarrow>
          (let l = refreshState s l0; s0 = set_lease token l s
           in if ls_state l = Released \<or> ls_state l = Invalidated then s0
              else if ls_release l \<noteq> None then s0
              else (case assertActive s0 l of
                      Some err \<Rightarrow> snd (rejected err s0)
                    | None \<Rightarrow>
                        (case new_promise s0 of (rel, s1) \<Rightarrow>
                           (let s2 = set_lease token (l\<lparr>ls_state := Releasing, ls_release := Some rel\<rparr>) s1
                            in if lease_count s2 (ls_session l) \<le> 1
                               then (case request (DetachCommand (ls_session l)) s2 of (rp, s3) \<Rightarrow>
                                       (case new_promise s3 of (d, s4) \<Rightarrow>
                                          wait (ReleaseAwait token (OwnPromise d) relinquish rel) (wait (DetachAnswer rp d)
                                            (s4\<lparr>cl_detachments := map_set (cl_detachments s4) (ls_session l) d\<rparr>))))
                               else settle (OwnPromise rel) Fulfilled
                                      (set_lease token (l\<lparr>ls_state := Released, ls_release := Some rel\<rparr>)
                                         (releaseSessionLease (ls_session l) token s2)))))))"

definition lease_request :: "nat \<Rightarrow> runtime_op \<Rightarrow> client \<Rightarrow> client" where
  "lease_request token op s =
     (case map_get (cl_leases s) token of
        None \<Rightarrow> s
      | Some l \<Rightarrow>
          (case assertActive s l of
             Some err \<Rightarrow> snd (rejected err s)
           | None \<Rightarrow> snd (request (RuntimeCommand (ls_session l) op) s)))"

section \<open>Tasks that go on\<close>

definition forget_promise :: "(ident, nat) js_map \<Rightarrow> ident \<Rightarrow> promise \<Rightarrow> (ident, nat) js_map" where
  "forget_promise m sid p = (if map_option OwnPromise (map_get m sid) = Some p then map_remove m sid else m)"

definition error_of :: "outcome \<Rightarrow> client_error option" where
  "error_of out = (case out of Rejected err \<Rightarrow> Some err | _ \<Rightarrow> None)"

definition session_created :: "nat \<Rightarrow> outcome \<Rightarrow> client \<Rightarrow> client" where
  "session_created call out s =
     (case out of
        Answered (CreateResult sn) \<Rightarrow>
          (case reserveSessionLease (sn_id sn) ExclusiveLease s of
             Inl err \<Rightarrow> settle (OwnPromise call) (Rejected err) s
           | Inr (token, s1) \<Rightarrow> acquired call (sn_id sn) token s1)
      | Rejected err \<Rightarrow> settle (OwnPromise call) (Rejected err) s
      | _ \<Rightarrow> s)"

definition session_attached :: "nat \<Rightarrow> ident \<Rightarrow> nat \<Rightarrow> promise \<Rightarrow> outcome \<Rightarrow> client \<Rightarrow> client" where
  "session_attached call sid token p out s =
     (let s1 = s\<lparr>cl_attachments := forget_promise (cl_attachments s) sid p\<rparr>
      in case error_of out of None \<Rightarrow> acquired call sid token s1 | Some err \<Rightarrow> acquire_failed call sid token err s1)"

definition attach_answered :: "session_snapshot option \<Rightarrow> nat \<Rightarrow> outcome \<Rightarrow> client \<Rightarrow> client" where
  "attach_answered previous ap out s =
     (case error_of out of
        None \<Rightarrow> settle (OwnPromise ap) Fulfilled s
      | Some err \<Rightarrow> settle (OwnPromise ap) (Rejected err)
          (case previous of None \<Rightarrow> s | Some sn \<Rightarrow> on_state (restoreSessionSnapshot sn) s))"

definition release_settled :: "nat \<Rightarrow> promise \<Rightarrow> bool \<Rightarrow> nat \<Rightarrow> outcome \<Rightarrow> client \<Rightarrow> client" where
  "release_settled token d relinquish rel out s =
     (case map_get (cl_leases s) token of
        None \<Rightarrow> s
      | Some l \<Rightarrow>
          (case error_of out of
             None \<Rightarrow>
               (let s1 = releaseSessionLease (ls_session l) token s
                in settle (OwnPromise rel) Fulfilled (set_lease token (l\<lparr>ls_state := Released\<rparr>)
                     (s1\<lparr>cl_detachments := forget_promise (cl_detachments s1) (ls_session l) d\<rparr>)))
           | Some err \<Rightarrow>
               wait (ReleaseRejected token err relinquish rel)
                 (s\<lparr>cl_detachments := forget_promise (cl_detachments s) (ls_session l) d\<rparr>)))"

definition release_rejected :: "nat \<Rightarrow> client_error \<Rightarrow> bool \<Rightarrow> nat \<Rightarrow> client \<Rightarrow> client" where
  "release_rejected token err relinquish rel s =
     (case map_get (cl_leases s) token of
        None \<Rightarrow> s
      | Some l0 \<Rightarrow>
          (let l = refreshState s l0
           in if ls_state l = Invalidated then settle (OwnPromise rel) Fulfilled (set_lease token l s)
              else if relinquish
              then (let s1 = releaseSessionLease (ls_session l) token s
                    in settle (OwnPromise rel) (Rejected err) (set_lease token (l\<lparr>ls_state := Released\<rparr>)
                         (s1\<lparr>cl_cleanupRequired := add_new (ls_session l) (cl_cleanupRequired s1)\<rparr>)))
              else settle (OwnPromise rel) (Rejected err)
                     (set_lease token (l\<lparr>ls_state := LeaseActive, ls_release := None\<rparr>) s)))"

definition reconcile_answered :: "ident \<Rightarrow> nat \<Rightarrow> outcome \<Rightarrow> client \<Rightarrow> client" where
  "reconcile_answered sid p out s =
     (case error_of out of
        None \<Rightarrow> wait (ReconcileFinally sid Fulfilled p) (s\<lparr>cl_cleanupRequired := removeAll sid (cl_cleanupRequired s)\<rparr>)
      | Some err \<Rightarrow> wait (ReconcileFinally sid (Rejected err) p) s)"

definition transport_task :: "waiting \<Rightarrow> client_error option \<Rightarrow> client \<Rightarrow> client option" where
  "transport_task point err s =
     (case point of
        OpeningTransport i \<Rightarrow> Some (openTransport i err s)
      | SendingHello i \<Rightarrow> Some (if err \<noteq> None \<and> isCurrent i s then failAndClose ClientDisconnected s else s)
      | SendingFrame i \<Rightarrow> Some (if err \<noteq> None \<and> isCurrent i s then failAndClose ClientDisconnected s else s)
      | _ \<Rightarrow> None)"

definition proceed :: "waiting \<Rightarrow> client \<Rightarrow> client option" where
  "proceed point s =
     (case point of
        CreatingSession call p \<Rightarrow> map_option (\<lambda>out. session_created call out s) (cl_settled s p)
      | AwaitDetachment call sid token p \<Rightarrow> map_option (\<lambda>out. acquire_reconcile call sid token s) (cl_settled s p)
      | AwaitReconciliation call sid token p \<Rightarrow>
          map_option (\<lambda>out. case error_of out of None \<Rightarrow> acquire_attach call sid token True s
              | Some err \<Rightarrow> acquire_failed call sid token err s) (cl_settled s p)
      | AwaitAttachment call sid token p \<Rightarrow> map_option (\<lambda>out. session_attached call sid token p out s) (cl_settled s p)
      | AttachAnswer sid previous p ap \<Rightarrow> map_option (\<lambda>out. attach_answered previous ap out s) (cl_settled s p)
      | DetachAnswer p d \<Rightarrow>
          map_option (\<lambda>out. settle (OwnPromise d) (case error_of out of None \<Rightarrow> Fulfilled | Some err \<Rightarrow> Rejected err) s) (cl_settled s p)
      | ReleaseAwait token p relinquish rel \<Rightarrow> map_option (\<lambda>out. release_settled token p relinquish rel out s) (cl_settled s p)
      | ReleaseRejected token err relinquish rel \<Rightarrow> Some (release_rejected token err relinquish rel s)
      | ReconcileAnswer sid p out_p \<Rightarrow> map_option (\<lambda>out. reconcile_answered sid out_p out s) (cl_settled s p)
      | ReconcileFinally sid out p \<Rightarrow>
          Some (settle (OwnPromise p) out (s\<lparr>cl_reconciliations := map_remove (cl_reconciliations s) sid\<rparr>))
      | _ \<Rightarrow> None)"

section \<open>Steps\<close>

datatype client_action = CallConnect
  | CallDisconnect
  | CallDispose
  | CallList
  | CallCreate session_options
  | CallAcquire ident lease_mode
  | CallDetach nat
  | CallLeaseDispose nat
  | CallLease nat runtime_op
  | DataArrives nat "client_error + server_message list"
  | TransportCloses nat "client_error option"
  | TransportErrs nat
  | TransportReturns nat "client_error option"
  | Proceed nat

definition take_task :: "nat \<Rightarrow> client \<Rightarrow> (waiting \<times> client) option" where
  "take_task t s =
     (case map_of (cl_tasks s) t of None \<Rightarrow> None | Some point \<Rightarrow> Some (point, s\<lparr>cl_tasks := remove1 (t, point) (cl_tasks s)\<rparr>))"

definition client_step :: "client_action \<Rightarrow> client \<Rightarrow> client option" where
  "client_step a s =
     (case a of
        CallConnect \<Rightarrow> Some (connect s)
      | CallDisconnect \<Rightarrow> Some (failAndClose ClientDisconnected s)
      | CallDispose \<Rightarrow> Some (dispose s)
      | CallList \<Rightarrow> Some (snd (request ListCommand s))
      | CallCreate options \<Rightarrow> Some (createSession options s)
      | CallAcquire sid mode \<Rightarrow> Some (acquireSession sid mode s)
      | CallDetach token \<Rightarrow> Some (release token False s)
      | CallLeaseDispose token \<Rightarrow> Some (release token True s)
      | CallLease token op \<Rightarrow> Some (lease_request token op s)
      | DataArrives i decoded \<Rightarrow> Some (handleData i decoded s)
      | TransportCloses i err \<Rightarrow> Some (handleClose i err s)
      | TransportErrs i \<Rightarrow> Some (handleError i s)
      | TransportReturns t err \<Rightarrow> (case take_task t s of None \<Rightarrow> None | Some (point, s1) \<Rightarrow> transport_task point err s1)
      | Proceed t \<Rightarrow> (case take_task t s of None \<Rightarrow> None | Some (point, s1) \<Rightarrow> proceed point s1))"

inductive client_reachable :: "client \<Rightarrow> client \<Rightarrow> bool" for s0 where
  client_start: "client_reachable s0 s0"
| client_next: "client_reachable s0 s \<Longrightarrow> client_step a s = Some s' \<Longrightarrow> client_reachable s0 s'"

fun client_run :: "client_action list \<Rightarrow> client \<Rightarrow> client option" where
  "client_run [] s = Some s"
| "client_run (a # as) s = (case client_step a s of None \<Rightarrow> None | Some s' \<Rightarrow> client_run as s')"

text \<open>What holds at the start and is kept by every step holds in every state the client reaches.\<close>

locale client_invariant =
  fixes good :: "client \<Rightarrow> bool"
  assumes good_start: "good (new_client encodable sendThrows)"
    and good_step: "good s \<Longrightarrow> client_step a s = Some s' \<Longrightarrow> good s'"
begin

lemma reachable_good:
  assumes "client_reachable (new_client encodable sendThrows) s"
  shows "good s"
  using assms by (induction rule: client_reachable.induct) (auto intro: good_start good_step)

end

section \<open>Snapshots\<close>

lemma apply_newer:
  assumes "map_get (ct_sessionSnapshots st) (sn_id sn) = None \<or>
    (\<exists>current. map_get (ct_sessionSnapshots st) (sn_id sn) = Some current \<and> sn_revision current \<le> sn_revision sn)"
  shows "map_get (ct_sessionSnapshots (applySessionSnapshot sn b st)) (sn_id sn) = Some sn"
    "isSessionAttached (applySessionSnapshot sn b st) (sn_id sn) \<longleftrightarrow> sn_attached sn"
  using assms by (auto simp: applySessionSnapshot_def isSessionAttached_def add_new_def)

lemma apply_older:
  assumes "map_get (ct_sessionSnapshots st) (sn_id sn) = Some current" "sn_revision sn < sn_revision current"
  shows "applySessionSnapshot sn False st = st"
  using assms by (simp add: applySessionSnapshot_def)

definition apply_all :: "session_snapshot list \<Rightarrow> client_state \<Rightarrow> client_state" where
  "apply_all sns st = fold (\<lambda>sn. applySessionSnapshot sn False) sns st"

lemma apply_all_bounded:
  assumes "\<forall>x \<in> set sns. sn_id x = sid \<and> sn_revision x \<le> k"
    and "\<forall>current. map_get (ct_sessionSnapshots st) sid = Some current \<longrightarrow> sn_revision current \<le> k"
  shows "\<forall>current. map_get (ct_sessionSnapshots (apply_all sns st)) sid = Some current \<longrightarrow> sn_revision current \<le> k"
  using assms
proof (induction sns arbitrary: st)
  case (Cons x sns)
  have "\<forall>current. map_get (ct_sessionSnapshots (applySessionSnapshot x False st)) sid = Some current \<longrightarrow> sn_revision current \<le> k"
    using Cons.prems by (auto simp: applySessionSnapshot_def split: option.splits if_splits)
  with Cons.IH Cons.prems(1) show ?case by (simp add: apply_all_def)
qed (simp add: apply_all_def)

lemma apply_all_kept:
  assumes "\<forall>x \<in> set sns. sn_id x = sid \<and> (x = sn \<or> sn_revision x < sn_revision sn)" "sn_id sn = sid"
    and "map_get (ct_sessionSnapshots st) sid = Some sn" "isSessionAttached st sid \<longleftrightarrow> sn_attached sn"
  shows "map_get (ct_sessionSnapshots (apply_all sns st)) sid = Some sn \<and> (isSessionAttached (apply_all sns st) sid \<longleftrightarrow> sn_attached sn)"
  using assms
proof (induction sns arbitrary: st)
  case (Cons x sns)
  have "map_get (ct_sessionSnapshots (applySessionSnapshot x False st)) sid = Some sn \<and>
      (isSessionAttached (applySessionSnapshot x False st) sid \<longleftrightarrow> sn_attached sn)"
  proof (cases "x = sn")
    case True
    then show ?thesis using apply_newer [of st sn False] Cons.prems(2,3) by simp
  next
    case False
    then have "applySessionSnapshot x False st = st" using apply_older [of st x sn] Cons.prems(1,3) by simp
    then show ?thesis using Cons.prems(3,4) by simp
  qed
  with Cons.IH [of "applySessionSnapshot x False st"] Cons.prems(1,2) show ?case by (simp add: apply_all_def)
qed (simp add: apply_all_def)

text \<open>
  The newest snapshot of a session wins, in whatever order snapshots arrive. When responses and events
  bring snapshots of one session among which one has the highest revision, the client ends with that snapshot
  and takes the session as attached exactly if the snapshot says so.
\<close>

lemma newest_snapshot_wins:
  assumes "sn \<in> set sns" "\<forall>x \<in> set sns. sn_id x = sid" "\<forall>x \<in> set sns. x = sn \<or> sn_revision x < sn_revision sn"
    and "map_get (ct_sessionSnapshots st) sid = None"
  shows "map_get (ct_sessionSnapshots (apply_all sns st)) sid = Some sn \<and> (isSessionAttached (apply_all sns st) sid \<longleftrightarrow> sn_attached sn)"
proof -
  obtain before after where split: "sns = before @ sn # after" using split_list [OF assms(1)] by blast
  let ?st = "apply_all before st"
  have sid: "sn_id sn = sid" using assms(1,2) by blast
  have "\<forall>x \<in> set before. sn_id x = sid \<and> sn_revision x \<le> sn_revision sn" using assms(2,3) split by auto
  from apply_all_bounded [OF this, of st] assms(4)
  have "map_get (ct_sessionSnapshots ?st) (sn_id sn) = None \<or>
      (\<exists>current. map_get (ct_sessionSnapshots ?st) (sn_id sn) = Some current \<and> sn_revision current \<le> sn_revision sn)"
    unfolding sid by (cases "map_get (ct_sessionSnapshots ?st) sid") simp_all
  note applied = apply_newer [OF this, of False, unfolded sid]
  have "apply_all sns st = apply_all after (applySessionSnapshot sn False ?st)" by (simp add: apply_all_def split)
  with apply_all_kept [OF _ sid applied, of after] assms(2,3) split show ?thesis by simp
qed

end
