(* ===== verification/Client_Requests.thy ===== *)
theory Client_Requests
  imports Client
begin

text \<open>
  The requests of the client: an invariant of every reachable state that accounts for each request number, and
  the property that every request is settled exactly once, with a result of its own command.
\<close>

section \<open>Requests are settled once\<close>

fun settlement_of :: "nat \<Rightarrow> client_notice \<Rightarrow> outcome option" where
  "settlement_of n (Settled (RequestPromise m) out) = (if m = n then Some out else None)"
| "settlement_of n _ = None"

definition settlements :: "client \<Rightarrow> nat \<Rightarrow> outcome list" where
  "settlements s n = List.map_filter (settlement_of n) (cl_log s)"

definition frame_sent :: "client \<Rightarrow> nat \<Rightarrow> command \<Rightarrow> bool" where
  "frame_sent s n c \<longleftrightarrow> (\<exists>i. FrameSent i (Request (request_id n) c) \<in> set (cl_log s))"

definition requests_core :: "client \<Rightarrow> bool" where
  "requests_core s \<longleftrightarrow> distinct (map fst (cl_pendingRequests s)) \<and>
     (\<forall>rid r. map_get (cl_pendingRequests s) rid = Some r \<longrightarrow>
        rid = request_id (pd_number r) \<and> pd_number r \<in> {1..cl_requestSequence s} \<and> settlements s (pd_number r) = []) \<and>
     (\<forall>n. n \<in> {1..cl_requestSequence s} \<longrightarrow> \<not> map_has (cl_pendingRequests s) (request_id n) \<longrightarrow> length (settlements s n) = 1) \<and>
     (\<forall>n. n \<notin> {1..cl_requestSequence s} \<longrightarrow> settlements s n = []) \<and>
     (\<forall>n result. Answered result \<in> set (settlements s n) \<longrightarrow> (\<exists>c. frame_sent s n c \<and> result_name result = command_name c))"

definition requests_ok :: "client \<Rightarrow> bool" where
  "requests_ok s \<longleftrightarrow> requests_core s \<and> (\<not> is_connected s \<longrightarrow> cl_pendingRequests s = []) \<and>
     (\<forall>rid r. map_get (cl_pendingRequests s) rid = Some r \<longrightarrow> frame_sent s (pd_number r) (pd_command r))"

text \<open>A step that leaves the requests alone: it settles none and keeps the connection.\<close>

definition same_requests :: "client \<Rightarrow> client \<Rightarrow> bool" where
  "same_requests s s' \<longleftrightarrow> cl_pendingRequests s' = cl_pendingRequests s \<and> cl_requestSequence s' = cl_requestSequence s \<and>
     is_connected s' = is_connected s \<and> (\<forall>n. settlements s' n = settlements s n) \<and> set (cl_log s) \<subseteq> set (cl_log s')"

lemma same_requests_refl [simp]: "same_requests s s"
  by (simp add: same_requests_def)

lemma same_requests_trans [trans]: "same_requests s s1 \<Longrightarrow> same_requests s1 s2 \<Longrightarrow> same_requests s s2"
  by (auto simp: same_requests_def)

lemma request_id_inject [simp]: "request_id m = request_id n \<longleftrightarrow> m = n"
  by (simp add: request_id_def)

lemma frame_sent_mono: "set (cl_log s) \<subseteq> set (cl_log s') \<Longrightarrow> frame_sent s n c \<Longrightarrow> frame_sent s' n c"
  by (auto simp: frame_sent_def)

lemma same_requests_ok:
  assumes "same_requests s s'"
  shows "requests_ok s \<Longrightarrow> requests_ok s'"
proof -
  assume ok: "requests_ok s"
  have frames: "frame_sent s' n c" if "frame_sent s n c" for n c
    using assms that by (auto simp: same_requests_def intro: frame_sent_mono)
  have core: "requests_core s'" using ok assms frames unfolding requests_ok_def requests_core_def same_requests_def by fastforce
  then show ?thesis using ok assms frames unfolding requests_ok_def same_requests_def by auto
qed

lemma settlements_append:
  "cl_log s' = cl_log s @ ns \<Longrightarrow> settlements s' n = settlements s n @ List.map_filter (settlement_of n) ns"
  by (simp add: settlements_def List.map_filter_def)

lemma settle_fields [simp]:
  "cl_pendingRequests (settle p out s) = cl_pendingRequests s" "cl_requestSequence (settle p out s) = cl_requestSequence s"
  "cl_lifecycle (settle p out s) = cl_lifecycle s" "cl_log (settle p out s) = cl_log s @ [Settled p out]"
  by (simp_all add: settle_def)

lemma same_log:
  assumes "cl_pendingRequests s' = cl_pendingRequests s" "cl_requestSequence s' = cl_requestSequence s"
    "cl_lifecycle s' = cl_lifecycle s" "cl_log s' = cl_log s @ ns" "\<forall>n. List.map_filter (settlement_of n) ns = []"
  shows "same_requests s s'"
  using assms by (simp add: same_requests_def settlements_append [OF assms(4)] is_connected_def)

lemma same_unlogged:
  assumes "cl_pendingRequests s' = cl_pendingRequests s" "cl_requestSequence s' = cl_requestSequence s"
    "cl_lifecycle s' = cl_lifecycle s" "cl_log s' = cl_log s"
  shows "same_requests s s'"
  using assms by (intro same_log [where ns = "[]"]) (simp_all add: List.map_filter_def)

lemma same_settle [simp]: "same_requests s (settle (OwnPromise p) out s)"
  by (rule same_log [where ns = "[Settled (OwnPromise p) out]"]) (simp_all add: List.map_filter_def)

lemma same_wait [simp]: "same_requests s (wait point s)"
  by (rule same_unlogged) (simp_all add: wait_def)

lemma same_set_lease [simp]: "same_requests s (set_lease token l s)"
  by (rule same_unlogged) (simp_all add: set_lease_def)

lemma same_new_promise [simp]: "same_requests s (snd (new_promise s))"
  by (rule same_unlogged) (simp_all add: new_promise_def)

lemma same_release [simp]: "same_requests s (releaseSessionLease sid token s)"
  by (rule same_unlogged) (simp_all add: releaseSessionLease_def Let_def)

lemma same_create [simp]: "same_requests s (createSessionLease sid token s)"
  by (rule same_unlogged) (simp_all add: createSessionLease_def Let_def)

lemma same_reserve: "reserveSessionLease sid mode s = Inr (token, s') \<Longrightarrow> same_requests s s'"
  by (rule same_unlogged) (auto simp: reserveSessionLease_def Let_def split: if_splits)

lemma invalidate_fields:
  "cl_pendingRequests (invalidateSessionLeases sid s) = cl_pendingRequests s"
  "cl_requestSequence (invalidateSessionLeases sid s) = cl_requestSequence s"
  "cl_lifecycle (invalidateSessionLeases sid s) = cl_lifecycle s" "cl_log (invalidateSessionLeases sid s) = cl_log s"
  by (simp_all add: invalidateSessionLeases_def)

lemma invalidate_all_fields [simp]:
  "cl_pendingRequests (invalidateAllSessionLeases s) = cl_pendingRequests s"
  "cl_requestSequence (invalidateAllSessionLeases s) = cl_requestSequence s"
  "cl_lifecycle (invalidateAllSessionLeases s) = cl_lifecycle s" "cl_log (invalidateAllSessionLeases s) = cl_log s"
proof -
  have "cl_pendingRequests (fold invalidateSessionLeases ids s) = cl_pendingRequests s \<and>
      cl_requestSequence (fold invalidateSessionLeases ids s) = cl_requestSequence s \<and>
      cl_lifecycle (fold invalidateSessionLeases ids s) = cl_lifecycle s \<and> cl_log (fold invalidateSessionLeases ids s) = cl_log s" for ids
    by (induction ids arbitrary: s) (simp_all add: invalidate_fields)
  then show "cl_pendingRequests (invalidateAllSessionLeases s) = cl_pendingRequests s"
    "cl_requestSequence (invalidateAllSessionLeases s) = cl_requestSequence s"
    "cl_lifecycle (invalidateAllSessionLeases s) = cl_lifecycle s" "cl_log (invalidateAllSessionLeases s) = cl_log s"
    by (simp_all add: invalidateAllSessionLeases_def)
qed

lemma acquire_end_same [simp]:
  "same_requests s (acquired call sid token s)" "same_requests s (acquire_failed call sid token err s)"
  unfolding acquired_def acquire_failed_def by (rule same_requests_trans, rule same_create same_release, rule same_settle)+

text \<open>Rejecting the pending requests settles each of them.\<close>

lemma settle_pending_fold:
  "cl_pendingRequests (fold (settle_pending err) rs s) = cl_pendingRequests s"
  "cl_requestSequence (fold (settle_pending err) rs s) = cl_requestSequence s"
  "cl_lifecycle (fold (settle_pending err) rs s) = cl_lifecycle s"
  "cl_log (fold (settle_pending err) rs s) = cl_log s @ map (\<lambda>r. Settled (RequestPromise (pd_number r)) (Rejected err)) rs"
  by (induction rs arbitrary: s) (simp_all add: settle_pending_def)

lemma rejected_settlements:
  "List.map_filter (settlement_of n) (map (\<lambda>r. Settled (RequestPromise (pd_number r)) (Rejected err)) rs) =
     replicate (length (filter (\<lambda>r. pd_number r = n) rs)) (Rejected err)"
  by (induction rs) (auto simp: List.map_filter_def)

lemma filter_distinct_length: "distinct xs \<Longrightarrow> length (filter (\<lambda>x. x = a) xs) = (if a \<in> set xs then 1 else 0)"
  by (induction xs) (auto simp: filter_empty_conv)

lemma core_pendingD:
  assumes "requests_core s" "map_get (cl_pendingRequests s) rid = Some r"
  shows "rid = request_id (pd_number r)" "pd_number r \<in> {1..cl_requestSequence s}" "settlements s (pd_number r) = []"
  using assms unfolding requests_core_def by blast+

lemma core_pending_numberD:
  assumes "requests_core s" "map_get (cl_pendingRequests s) (request_id n) = Some r"
  shows "pd_number r = n" "n \<in> {1..cl_requestSequence s}" "settlements s n = []"
  using core_pendingD [OF assms] by simp_all

lemma pending_numbers:
  assumes "requests_core s"
  shows "length (filter (\<lambda>r. pd_number r = n) (map_values (cl_pendingRequests s))) =
    (if map_has (cl_pendingRequests s) (request_id n) then 1 else 0)"
proof -
  let ?m = "cl_pendingRequests s"
  have key: "rid = request_id (pd_number r)" if "(rid, r) \<in> set ?m" for rid r
    using assms that map_get_of_in_set [of ?m rid r] by (simp add: requests_core_def)
  have dist: "distinct (map fst ?m)" using assms by (simp add: requests_core_def)
  have "filter (\<lambda>r. pd_number r = n) (map snd ?m) = map snd (filter (\<lambda>(rid, r). rid = request_id n) ?m)"
    by (auto simp: filter_map comp_def dest!: key intro!: arg_cong [of _ _ "map snd"] filter_cong)
  moreover have "length (filter (\<lambda>(rid, r). rid = request_id n) ?m) = length (filter (\<lambda>x. x = request_id n) (map fst ?m))"
    by (simp add: filter_map comp_def case_prod_unfold)
  moreover have "length (filter (\<lambda>x. x = request_id n) (map fst ?m)) = (if request_id n \<in> set (map fst ?m) then 1 else 0)"
    by (rule filter_distinct_length [OF dist])
  ultimately show ?thesis by (simp add: map_values_def map_has_keys map_keys_def)
qed

lemma reject_pending_core:
  assumes "requests_core s"
  shows "requests_core (rejectPendingRequests err s)" "cl_pendingRequests (rejectPendingRequests err s) = []"
    "cl_lifecycle (rejectPendingRequests err s) = cl_lifecycle s"
proof -
  let ?s' = "rejectPendingRequests err s"
  show [simp]: "cl_pendingRequests ?s' = []" "cl_lifecycle ?s' = cl_lifecycle s"
    by (simp_all add: rejectPendingRequests_def settle_pending_fold)
  have log: "cl_log ?s' = cl_log s @ map (\<lambda>r. Settled (RequestPromise (pd_number r)) (Rejected err)) (map_values (cl_pendingRequests s))"
    and seq [simp]: "cl_requestSequence ?s' = cl_requestSequence s"
    by (simp_all add: rejectPendingRequests_def settle_pending_fold)
  have settled: "settlements ?s' n = settlements s n @ (if map_has (cl_pendingRequests s) (request_id n) then [Rejected err] else [])" for n
    by (simp add: settlements_append [OF log] rejected_settlements pending_numbers [OF assms])
  have frames: "frame_sent ?s' n c" if "frame_sent s n c" for n c using that by (auto simp: frame_sent_def log)
  have pending: "n \<in> {1..cl_requestSequence s} \<and> settlements s n = []" if "map_has (cl_pendingRequests s) (request_id n)" for n
    using core_pending_numberD [OF assms] that unfolding map_has_get by blast
  show "requests_core ?s'"
    unfolding requests_core_def
  proof (intro conjI allI impI)
    fix n assume n: "n \<in> {1..cl_requestSequence ?s'}"
    then show "length (settlements ?s' n) = 1"
      using assms pending [of n] by (auto simp: settled requests_core_def)
  next
    fix n assume "n \<notin> {1..cl_requestSequence ?s'}"
    then show "settlements ?s' n = []" using assms pending [of n] by (auto simp: settled requests_core_def)
  next
    fix n result assume "Answered result \<in> set (settlements ?s' n)"
    then have "Answered result \<in> set (settlements s n)" by (auto simp: settled split: if_splits)
    then show "\<exists>c. frame_sent ?s' n c \<and> result_name result = command_name c"
      using assms frames by (meson requests_core_def)
  qed simp_all
qed

lemma core_same:
  assumes "requests_core s" "cl_pendingRequests s' = cl_pendingRequests s" "cl_requestSequence s' = cl_requestSequence s"
    "\<forall>n. settlements s' n = settlements s n" "set (cl_log s) \<subseteq> set (cl_log s')"
  shows "requests_core s'"
  using assms frame_sent_mono [OF assms(5)] unfolding requests_core_def by fastforce

lemma core_log:
  assumes "requests_core s" "cl_pendingRequests s' = cl_pendingRequests s" "cl_requestSequence s' = cl_requestSequence s"
    "cl_log s' = cl_log s @ ns" "\<forall>n. List.map_filter (settlement_of n) ns = []"
  shows "requests_core s'"
  using assms by (intro core_same [OF assms(1)]) (simp_all add: settlements_append [OF assms(4)])

lemma handle_disconnected_ok:
  assumes "requests_core s"
  shows "requests_ok (handle_disconnected err s)"
    "cl_lifecycle (handle_disconnected err s) = cl_lifecycle s"
proof -
  let ?s1 = "invalidateAllSessionLeases (on_state clearAttachments s)"
  have core: "requests_core ?s1" using assms by (rule core_log [where ns = "[]"]) (simp_all add: List.map_filter_def)
  from reject_pending_core [OF core, of err] show "requests_ok (handle_disconnected err s)"
    "cl_lifecycle (handle_disconnected err s) = cl_lifecycle s"
    by (simp_all add: handle_disconnected_def requests_ok_def)
qed

lemma fail_ok:
  assumes "requests_core s" "cl_lifecycle s = Disconnected \<Longrightarrow> requests_ok s"
  shows "requests_ok (fail err s)" "requests_ok (failAndClose err s)" "cl_lifecycle (failAndClose err s) = Disconnected"
proof -
  have core: "requests_core (s\<lparr>cl_lifecycle := Disconnected\<rparr>)"
    "requests_core (settle (OwnPromise h) out (s\<lparr>cl_lifecycle := Disconnected\<rparr>))" for h out
    by (rule core_log [OF assms(1), where ns = "[]"], simp_all add: List.map_filter_def)
      (rule core_log [OF assms(1), where ns = "[Settled (OwnPromise h) out]"], simp_all add: List.map_filter_def)
  note ok = handle_disconnected_ok(1) [OF core(1)] handle_disconnected_ok(1) [OF core(2)]
  show fail: "requests_ok (fail err s)"
    using assms(2) by (auto simp: fail_def ok split: lifecycle.splits option.splits)
  have closed: "requests_ok (notice (TransportCloseCalled i) (fail err s))" for i
    by (rule same_requests_ok [OF _ fail], rule same_log [where ns = "[TransportCloseCalled i]"])
      (simp_all add: notice_def List.map_filter_def)
  show "requests_ok (failAndClose err s)"
    using assms(2) fail closed by (auto simp: failAndClose_def split: lifecycle.splits)
  show "cl_lifecycle (failAndClose err s) = Disconnected"
    using handle_disconnected_ok(2) [OF core(1)] handle_disconnected_ok(2) [OF core(2)]
    by (auto simp: failAndClose_def fail_def notice_def split: lifecycle.splits option.splits)
qed

lemma requests_ok_core: "requests_ok s \<Longrightarrow> requests_core s"
  by (simp add: requests_ok_def)

lemmas fail_keeps = fail_ok(1,2) [OF requests_ok_core]

lemma taken_ok:
  assumes "requests_core s" "map_get (cl_pendingRequests s) rid = Some r" "is_connected s"
    and frames: "\<And>rid' r'. rid' \<noteq> rid \<Longrightarrow> map_get (cl_pendingRequests s) rid' = Some r' \<Longrightarrow> frame_sent s (pd_number r') (pd_command r')"
    and answer: "\<And>result. out = Answered result \<Longrightarrow> \<exists>c. frame_sent s (pd_number r) c \<and> result_name result = command_name c"
  shows "requests_ok (settle (RequestPromise (pd_number r)) out (s\<lparr>cl_pendingRequests := map_remove (cl_pendingRequests s) rid\<rparr>))"
proof -
  define t where "t = settle (RequestPromise (pd_number r)) out (s\<lparr>cl_pendingRequests := map_remove (cl_pendingRequests s) rid\<rparr>)"
  have t [simp]: "cl_pendingRequests t = map_remove (cl_pendingRequests s) rid" "cl_requestSequence t = cl_requestSequence s"
    "cl_lifecycle t = cl_lifecycle s" by (simp_all add: t_def)
  note r = core_pendingD [OF assms(1,2)]
  have log: "cl_log t = cl_log s @ [Settled (RequestPromise (pd_number r)) out]" by (simp add: t_def)
  have settled: "settlements t n = settlements s n @ (if n = pd_number r then [out] else [])" for n
    by (simp add: settlements_append [OF log] List.map_filter_def)
  have kept: "frame_sent t n c" if "frame_sent s n c" for n c using that by (auto simp: frame_sent_def log)
  have other: "pd_number r' \<noteq> pd_number r" if "rid' \<noteq> rid" "map_get (cl_pendingRequests s) rid' = Some r'" for rid' r'
    using core_pendingD(1) [OF assms(1) that(2)] that(1) r(1) by auto
  have "requests_core t"
    unfolding requests_core_def
  proof (intro conjI allI impI)
    show "distinct (map fst (cl_pendingRequests t))" using assms(1) by (simp add: requests_core_def map_remove_keys_distinct)
  next
    fix rid' r' assume "map_get (cl_pendingRequests t) rid' = Some r'"
    then have r': "rid' \<noteq> rid" "map_get (cl_pendingRequests s) rid' = Some r'" by (auto split: if_splits)
    from core_pendingD [OF assms(1) r'(2)] other [OF r'] show "rid' = request_id (pd_number r')"
      "pd_number r' \<in> {1..cl_requestSequence t}" "settlements t (pd_number r') = []" by (simp_all add: settled)
  next
    fix n assume "n \<in> {1..cl_requestSequence t}" "\<not> map_has (cl_pendingRequests t) (request_id n)"
    then show "length (settlements t n) = 1"
      using assms(1) r by (cases "n = pd_number r") (auto simp: settled requests_core_def map_has_def)
  next
    fix n assume "n \<notin> {1..cl_requestSequence t}"
    then show "settlements t n = []" using assms(1) r(2) by (auto simp: settled requests_core_def)
  next
    fix n result assume "Answered result \<in> set (settlements t n)"
    then consider "Answered result \<in> set (settlements s n)" | "n = pd_number r" "out = Answered result"
      by (auto simp: settled split: if_splits)
    then show "\<exists>c. frame_sent t n c \<and> result_name result = command_name c"
    proof cases
      case 1
      then show ?thesis using assms(1) kept by (meson requests_core_def)
    next
      case 2
      then show ?thesis using answer kept by blast
    qed
  qed
  then show ?thesis unfolding t_def [symmetric] using assms(3) frames kept
    by (auto simp: requests_ok_def is_connected_def split: if_splits)
qed

lemma requests_ok_frames:
  "requests_ok s \<Longrightarrow> map_get (cl_pendingRequests s) rid = Some r \<Longrightarrow> frame_sent s (pd_number r) (pd_command r)"
  by (simp add: requests_ok_def)

lemma requests_ok_pending: "requests_ok s \<Longrightarrow> map_get (cl_pendingRequests s) rid = Some r \<Longrightarrow> is_connected s"
  by (auto simp: requests_ok_def)

lemma issue_core:
  assumes "requests_core s" "n = cl_requestSequence s + 1"
  shows "requests_core (s\<lparr>cl_requestSequence := n,
    cl_pendingRequests := map_set (cl_pendingRequests s) (request_id n) \<lparr>pd_number = n, pd_command = c\<rparr>\<rparr>)"
proof -
  define t where "t = s\<lparr>cl_requestSequence := n,
    cl_pendingRequests := map_set (cl_pendingRequests s) (request_id n) \<lparr>pd_number = n, pd_command = c\<rparr>\<rparr>"
  have [simp]: "settlements t = settlements s" "frame_sent t = frame_sent s" "cl_requestSequence t = n"
    "cl_pendingRequests t = map_set (cl_pendingRequests s) (request_id n) \<lparr>pd_number = n, pd_command = c\<rparr>"
    by (simp_all add: t_def settlements_def frame_sent_def fun_eq_iff)
  have new: "settlements s n = []" using assms by (simp add: requests_core_def)
  show ?thesis
    unfolding requests_core_def t_def [symmetric]
  proof (intro conjI allI impI)
    show "distinct (map fst (cl_pendingRequests t))" using assms(1) by (simp add: requests_core_def map_set_keys_distinct)
  next
    fix rid r assume r: "map_get (cl_pendingRequests t) rid = Some r"
    show "rid = request_id (pd_number r)" "pd_number r \<in> {1..cl_requestSequence t}" "settlements t (pd_number r) = []"
      using r new core_pendingD [OF assms(1), of rid r] assms(2) by (auto split: if_splits)
  next
    fix k assume k: "k \<in> {1..cl_requestSequence t}" "\<not> map_has (cl_pendingRequests t) (request_id k)"
    then have "k \<in> {1..cl_requestSequence s}" "\<not> map_has (cl_pendingRequests s) (request_id k)" using assms(2) by auto
    then show "length (settlements t k) = 1" using assms(1) by (simp add: requests_core_def)
  next
    fix k assume "k \<notin> {1..cl_requestSequence t}"
    then have "k \<notin> {1..cl_requestSequence s}" using assms(2) by auto
    then show "settlements t k = []" using assms(1) by (simp add: requests_core_def)
  next
    fix k result assume "Answered result \<in> set (settlements t k)"
    then show "\<exists>c. frame_sent t k c \<and> result_name result = command_name c" using assms(1) by (simp add: requests_core_def)
  qed
qed

lemma rejected_same: "same_requests s (snd (rejected err s))"
  by (rule same_log [where ns = "[Settled (OwnPromise (cl_nextPromise s)) (Rejected err)]"])
    (simp_all add: rejected_def new_promise_def List.map_filter_def)

lemma request_ok:
  assumes "requests_ok s"
  shows "requests_ok (snd (request c s))"
proof (cases "cl_disposed s \<or> \<not> is_connected s")
  case True
  then show ?thesis using same_requests_ok [OF rejected_same assms] by (auto simp: request_def)
next
  case False
  define n where "n = cl_requestSequence s + 1"
  define s1 where "s1 = s\<lparr>cl_requestSequence := n,
    cl_pendingRequests := map_set (cl_pendingRequests s) (request_id n) \<lparr>pd_number = n, pd_command = c\<rparr>\<rparr>"
  obtain i h where conn: "cl_lifecycle s1 = Connected i h" using False by (auto simp: is_connected_def s1_def split: lifecycle.splits)
  have core: "requests_core s1" unfolding s1_def by (rule issue_core [OF requests_ok_core [OF assms] n_def])
  have new: "map_get (cl_pendingRequests s1) (request_id n) = Some \<lparr>pd_number = n, pd_command = c\<rparr>" by (simp add: s1_def)
  have old: "frame_sent s1 (pd_number r) (pd_command r)" if "rid \<noteq> request_id n" "map_get (cl_pendingRequests s1) rid = Some r" for rid r
    using requests_ok_frames [OF assms] that by (simp add: s1_def frame_sent_def)
  have snd: "snd (request c s) = (if \<not> cl_encodable s1 (Request (request_id n) c)
      then settle (RequestPromise n) (Rejected OtherClientError) (s1\<lparr>cl_pendingRequests := map_remove (cl_pendingRequests s1) (request_id n)\<rparr>)
      else connection_send (Request (request_id n) c) s1)"
    using False by (simp add: request_def Let_def n_def s1_def takePendingRequest_def settle_pending_def)
  show ?thesis
  proof (cases "cl_encodable s1 (Request (request_id n) c)")
    case False
    have "requests_ok (settle (RequestPromise n) (Rejected OtherClientError) (s1\<lparr>cl_pendingRequests := map_remove (cl_pendingRequests s1) (request_id n)\<rparr>))"
      using taken_ok [OF core new, of "Rejected OtherClientError"] old conn by (simp add: is_connected_def)
    then show ?thesis using snd False by simp
  next
    case True
    let ?s2 = "wait (SendingFrame i) (notice (FrameSent i (Request (request_id n) c)) s1)"
    have log: "cl_log ?s2 = cl_log s1 @ [FrameSent i (Request (request_id n) c)]" by (simp add: wait_def notice_def)
    have "requests_core ?s2"
      by (rule core_log [OF core _ _ log]) (simp_all add: wait_def notice_def List.map_filter_def)
    moreover have "frame_sent ?s2 (pd_number r) (pd_command r)" if "map_get (cl_pendingRequests s1) rid = Some r" for rid r
      using that old [of rid r] new by (cases "rid = request_id n") (auto simp: frame_sent_def log)
    ultimately have "requests_ok ?s2" using conn by (simp add: requests_ok_def is_connected_def wait_def notice_def)
    moreover have "requests_ok (failAndClose ClientDisconnected s1)" by (rule fail_ok(2) [OF core]) (simp add: conn)
    ultimately show ?thesis using snd True conn by (simp add: connection_send_def)
  qed
qed

lemma response_ok:
  assumes "requests_ok s"
  shows "requests_ok (handleResponse rid response s)"
proof (cases "map_get (cl_pendingRequests s) rid")
  case None
  then show ?thesis using fail_keeps(2) [OF assms assms] by (simp add: handleResponse_def takePendingRequest_def)
next
  case (Some r)
  let ?taken = "\<lambda>out st. settle (RequestPromise (pd_number r)) out (st\<lparr>cl_pendingRequests := map_remove (cl_pendingRequests st) rid\<rparr>)"
  have taken: "requests_ok (?taken out s)" if "\<And>result. out = Answered result \<Longrightarrow> result_name result = command_name (pd_command r)" for out
    using taken_ok [OF requests_ok_core [OF assms] Some requests_ok_pending [OF assms Some]] requests_ok_frames [OF assms] Some that by blast
  have answered: "requests_ok (settle (RequestPromise (pd_number r)) out
      (s\<lparr>cl_pendingRequests := map_remove (cl_pendingRequests s) rid, cl_state := st\<rparr>))"
    if "\<And>result. out = Answered result \<Longrightarrow> result_name result = command_name (pd_command r)" for out st
    by (rule same_requests_ok [OF _ taken [OF that]], rule same_unlogged) simp_all
  have failed: "requests_ok (?taken (Rejected err) s)" "requests_ok (failAndClose err' (?taken (Rejected err) s))" for err err'
    using taken [of "Rejected err"] fail_keeps(2) [of "?taken (Rejected err) s"] by simp_all
  show ?thesis
    using failed answered [of "Answered _"] Some by (simp add: handleResponse_def takePendingRequest_def split: sum.splits)
qed

text \<open>The other operations change the requests only through these.\<close>

lemma ok_same:
  "requests_ok s \<Longrightarrow> requests_ok (settle (OwnPromise p) out s)" "requests_ok s \<Longrightarrow> requests_ok (wait point s)"
  "requests_ok s \<Longrightarrow> requests_ok (set_lease token l s)" "requests_ok s \<Longrightarrow> requests_ok (releaseSessionLease sid token s)"
  "requests_ok s \<Longrightarrow> requests_ok (createSessionLease sid token s)" "requests_ok s \<Longrightarrow> requests_ok (snd (new_promise s))"
  "requests_ok s \<Longrightarrow> requests_ok (acquired call sid token s)" "requests_ok s \<Longrightarrow> requests_ok (acquire_failed call sid token err s)"
  by (erule same_requests_ok [rotated], simp)+

lemma ok_reserve: "requests_ok s \<Longrightarrow> reserveSessionLease sid mode s = Inr (token, s') \<Longrightarrow> requests_ok s'"
  using same_requests_ok [OF same_reserve] .

lemma ok_rejected: "requests_ok s \<Longrightarrow> requests_ok (snd (rejected err s))"
  using same_requests_ok [OF rejected_same] .

lemma ok_unlogged:
  assumes "requests_ok s" "cl_pendingRequests s' = cl_pendingRequests s" "cl_requestSequence s' = cl_requestSequence s"
    "cl_lifecycle s' = cl_lifecycle s" "cl_log s' = cl_log s"
  shows "requests_ok s'"
  using same_requests_ok [OF same_unlogged assms(1)] assms(2-) by blast

lemma ok_fields:
  assumes "requests_ok s"
  shows "requests_ok (s\<lparr>cl_state := st\<rparr>)" "requests_ok (s\<lparr>cl_attachments := m\<rparr>)" "requests_ok (s\<lparr>cl_detachments := m\<rparr>)"
    "requests_ok (s\<lparr>cl_reconciliations := m\<rparr>)" "requests_ok (s\<lparr>cl_cleanupRequired := ids\<rparr>)" "requests_ok (s\<lparr>cl_tasks := ts\<rparr>)"
    "requests_ok (s\<lparr>cl_nextPromise := k\<rparr>)" "requests_ok (s\<lparr>cl_disposed := b\<rparr>)"
    "requests_ok (invalidateSessionLeases sid s)" "requests_ok (invalidateAllSessionLeases s)"
  by (rule ok_unlogged [OF assms]; simp add: invalidate_fields)+

lemma message_ok: "requests_ok s \<Longrightarrow> requests_ok (handleMessage m s)"
  by (cases m) (simp_all add: handleMessage_def response_ok ok_fields)

lemma ok_notice:
  assumes "requests_ok s"
  shows "requests_ok (notice (FrameSent i m) s)" "requests_ok (notice (TransportCloseCalled i) s)"
  by (rule same_requests_ok [OF _ assms], rule same_log [where ns = "[FrameSent i m]"], simp_all add: notice_def List.map_filter_def)
    (rule same_requests_ok [OF _ assms], rule same_log [where ns = "[TransportCloseCalled i]"], simp_all add: notice_def List.map_filter_def)

text \<open>While the client is not connected nothing is pending, and it may change its connection.\<close>

lemma ok_lifecycle:
  assumes "requests_ok s" "\<not> is_connected s"
  shows "requests_ok (s\<lparr>cl_lifecycle := l\<rparr>)"
proof -
  have "requests_core (s\<lparr>cl_lifecycle := l\<rparr>)"
    by (rule core_log [OF requests_ok_core [OF assms(1)], where ns = "[]"]) (simp_all add: List.map_filter_def)
  with assms show ?thesis by (simp add: requests_ok_def)
qed

lemma connection_message_ok:
  assumes "requests_ok s"
  shows "requests_ok (connection_message m s)"
proof (cases "cl_lifecycle s")
  case (Connecting i opened h)
  have hello: "requests_ok ((settle (OwnPromise h) out (s\<lparr>cl_state := st\<rparr>))\<lparr>cl_lifecycle := Connected i None\<rparr>)" for out st
    using assms Connecting by (intro ok_lifecycle ok_same ok_fields) (simp_all add: is_connected_def)
  show ?thesis using fail_keeps(2) [OF assms assms] hello Connecting
    by (cases m) (auto simp: connection_message_def)
next
  case (Connected i h)
  then show ?thesis using fail_keeps(2) [OF assms assms] message_ok [OF assms] by (simp add: connection_message_def)
qed (use assms in \<open>simp add: connection_message_def\<close>)

lemma connection_messages_ok: "requests_ok s \<Longrightarrow> requests_ok (connection_messages ms s)"
  by (induction ms arbitrary: s) (simp_all add: connection_message_ok)

lemmas keeps = ok_same ok_fields ok_notice ok_rejected request_ok connection_messages_ok

lemma fail_keeps_all: "requests_ok s \<Longrightarrow> requests_ok (fail err s)" "requests_ok s \<Longrightarrow> requests_ok (failAndClose err s)"
  by (rule fail_keeps; assumption)+

lemma not_connected: "cl_lifecycle s = Disconnected \<Longrightarrow> \<not> is_connected s" "cl_lifecycle s = Connecting i b h \<Longrightarrow> \<not> is_connected s"
  by (simp_all add: is_connected_def)

lemma connect_ok:
  assumes "requests_ok s"
  shows "requests_ok (connect s)"
proof -
  have new: "requests_ok ((s\<lparr>cl_state := st, cl_nextPromise := k, cl_sequence := i\<rparr>)\<lparr>cl_lifecycle := l\<rparr>)"
    if "cl_lifecycle s = Disconnected" for st k i l
  proof (rule ok_lifecycle)
    show "requests_ok (s\<lparr>cl_state := st, cl_nextPromise := k, cl_sequence := i\<rparr>)" by (rule ok_unlogged [OF assms]) simp_all
  qed (simp add: is_connected_def that)
  show ?thesis using new assms by (simp add: connect_def connection_connect_def new_promise_def Let_def keeps)
qed

lemma dispose_ok:
  assumes "requests_ok s"
  shows "requests_ok (dispose s)"
proof -
  let ?s1 = "rejectPendingRequests ClientDisposed (s\<lparr>cl_disposed := True\<rparr>)"
  have "requests_core (s\<lparr>cl_disposed := True\<rparr>)" using assms by (simp add: requests_ok_core keeps)
  from reject_pending_core [OF this] have "requests_ok ?s1" by (simp add: requests_ok_def)
  then show ?thesis using assms by (simp add: dispose_def keeps fail_keeps_all)
qed

lemma open_ok:
  assumes "requests_ok s"
  shows "requests_ok (openTransport i err s)"
proof (cases "cl_lifecycle s")
  case (Connecting j opened h)
  have "requests_ok (s\<lparr>cl_lifecycle := Connecting j True h\<rparr>)" using ok_lifecycle [OF assms] Connecting by (simp add: is_connected_def)
  then show ?thesis using assms Connecting by (simp add: openTransport_def Let_def keeps fail_keeps_all split: option.splits)
qed (use assms in \<open>simp_all add: openTransport_def keeps fail_keeps_all split: option.splits\<close>)

lemma attach_session_ok: "requests_ok s \<Longrightarrow> requests_ok (snd (attachSession sid s))"
  by (simp add: attachSession_def forgetSessionSnapshot_def case_prod_unfold keeps)

lemma acquire_attach_ok: "requests_ok s \<Longrightarrow> requests_ok (acquire_attach call sid token b s)"
  by (simp add: acquire_attach_def case_prod_unfold keeps attach_session_ok split: option.split)

lemma reconcile_ok: "requests_ok s \<Longrightarrow> requests_ok (snd (reconcileSessionCleanup sid s))"
  by (simp add: reconcileSessionCleanup_def case_prod_unfold keeps split: option.split)

lemma acquire_reconcile_ok: "requests_ok s \<Longrightarrow> requests_ok (acquire_reconcile call sid token s)"
  by (simp add: acquire_reconcile_def case_prod_unfold keeps reconcile_ok acquire_attach_ok)

lemma reserved_ok: "requests_ok s \<Longrightarrow> reserveSessionLease sid mode s = Inr x \<Longrightarrow> requests_ok (snd x)"
  using ok_reserve by (cases x) fastforce

lemma acquire_ok: "requests_ok s \<Longrightarrow> requests_ok (acquireSession sid mode s)"
  using ok_reserve [OF ok_same(6) [of s]]
  by (auto simp: acquireSession_def case_prod_unfold keeps acquire_reconcile_ok split: sum.split option.split)

lemma create_ok: "requests_ok s \<Longrightarrow> requests_ok (createSession options s)"
  by (simp add: createSession_def case_prod_unfold keeps)

lemma release_ok: "requests_ok s \<Longrightarrow> requests_ok (release token b s)"
  by (simp add: release_def Let_def case_prod_unfold keeps split: option.split)

lemma lease_request_ok: "requests_ok s \<Longrightarrow> requests_ok (lease_request token op s)"
  by (simp add: lease_request_def keeps split: option.split)

lemma session_created_ok: "requests_ok s \<Longrightarrow> requests_ok (session_created call out s)"
  by (simp add: session_created_def case_prod_unfold keeps reserved_ok split: outcome.split command_result.split sum.split)

lemma settled_ok:
  assumes "requests_ok s"
  shows "requests_ok (session_attached call sid token p out s)" "requests_ok (attach_answered previous ap out s)"
    "requests_ok (release_settled token p b rel out s)" "requests_ok (release_rejected token err b rel s)"
    "requests_ok (reconcile_answered sid k out s)"
  using assms by (simp_all add: session_attached_def attach_answered_def release_settled_def release_rejected_def
      reconcile_answered_def Let_def keeps split: option.split)

lemma proceed_ok: "requests_ok s \<Longrightarrow> proceed point s = Some s' \<Longrightarrow> requests_ok s'"
  by (cases point) (auto simp: proceed_def keeps settled_ok session_created_ok acquire_reconcile_ok acquire_attach_ok split: option.splits)

lemma transport_task_ok: "requests_ok s \<Longrightarrow> transport_task point err s = Some s' \<Longrightarrow> requests_ok s'"
  by (cases point) (auto simp: transport_task_def open_ok fail_keeps_all)

lemma transport_events_ok:
  assumes "requests_ok s"
  shows "requests_ok (handleData i decoded s)" "requests_ok (handleClose i err s)" "requests_ok (handleError i s)"
  using assms by (simp_all add: handleData_def handleClose_def handleError_def fail_keeps_all keeps split: sum.split)

lemma taken_task_ok: "requests_ok s \<Longrightarrow> take_task t s = Some (point, s') \<Longrightarrow> requests_ok s'"
  by (auto simp: take_task_def keeps split: option.splits)

interpretation settled_requests: client_invariant requests_ok
proof (unfold_locales, goal_cases)
  case 1
  show ?case by (simp add: requests_ok_def requests_core_def new_client_def settlements_def List.map_filter_def)
next
  case (2 s a s')
  then show ?case
    by (cases a) (auto simp: client_step_def connect_ok dispose_ok keeps fail_keeps_all create_ok acquire_ok release_ok lease_request_ok
        transport_events_ok dest: taken_task_ok transport_task_ok proceed_ok split: option.splits)
qed

section \<open>Property\<close>

text \<open>
  C13. Every request of the client is settled exactly once. In every state the client can reach, whatever the
  server sends and however transports fail, each request it has made is either still pending, and then the
  client is connected and the request is not settled, or no longer pending, and then its promise was settled
  exactly once. It is settled with a result only if a request with its number was sent for the command the
  result belongs to.
\<close>

theorem client_requests_settled_once:
  assumes "client_reachable (new_client encodable sendThrows) s" "1 \<le> n" "n \<le> cl_requestSequence s"
  shows "if map_has (cl_pendingRequests s) (request_id n) then is_connected s \<and> settlements s n = []
    else (\<exists>out. settlements s n = [out] \<and>
      (case out of Answered result \<Rightarrow> \<exists>i c. FrameSent i (Request (request_id n) c) \<in> set (cl_log s) \<and> command_name c = result_name result
       | _ \<Rightarrow> True))"
proof -
  have ok: "requests_ok s" by (rule settled_requests.reachable_good [OF assms(1)])
  show ?thesis
  proof (cases "map_has (cl_pendingRequests s) (request_id n)")
    case True
    then obtain r where r: "map_get (cl_pendingRequests s) (request_id n) = Some r" unfolding map_has_get by blast
    from core_pending_numberD(3) [OF requests_ok_core [OF ok] r] requests_ok_pending [OF ok r] True show ?thesis by simp
  next
    case False
    then have "length (settlements s n) = 1" using requests_ok_core [OF ok] assms(2,3) by (simp add: requests_core_def)
    then obtain out where out: "settlements s n = [out]" by (auto simp: length_Suc_conv)
    then have "\<exists>c. frame_sent s n c \<and> result_name result = command_name c" if "out = Answered result" for result
      using requests_ok_core [OF ok] that unfolding requests_core_def by auto
    with out False show ?thesis by (fastforce simp: frame_sent_def split: outcome.split)
  qed
qed

text \<open>A client that connects, asks for the list of sessions twice and loses its connection.\<close>

definition lost_run :: "client_action list" where
  "lost_run = [CallConnect, TransportReturns 0 None,
     DataArrives 1 (Inr [ServerHello \<lparr>vs_revision = 0, vs_sessions = [], vs_models = []\<rparr>]),
     CallList, CallList, DataArrives 1 (Inr [ResponseOk ''request-2'' (ListResult [])]), TransportCloses 1 None]"

lemma client_run_reachable: "client_run as s = Some s' \<Longrightarrow> client_reachable s0 s \<Longrightarrow> client_reachable s0 s'"
  by (induction as arbitrary: s) (auto split: option.splits intro: client_next)

theorem client_requests_settled_once_witness:
  "\<exists>s. client_run lost_run (new_client (\<lambda>_. True) (\<lambda>_. False)) = Some s \<and> (\<exists>out. settlements s 1 = [out])"
proof -
  have run: "case client_run lost_run (new_client (\<lambda>_. True) (\<lambda>_. False)) of None \<Rightarrow> False
      | Some s \<Rightarrow> cl_requestSequence s = 2 \<and> cl_pendingRequests s = []"
    by code_simp
  then obtain s where s: "client_run lost_run (new_client (\<lambda>_. True) (\<lambda>_. False)) = Some s"
      "cl_requestSequence s = 2" "cl_pendingRequests s = []"
    by (auto split: option.splits)
  from client_requests_settled_once [OF client_run_reachable [OF s(1) client_start], of 1] s show ?thesis by auto
qed

end
