(* ===== verification/Client_Leases.thy ===== *)
theory Client_Leases
  imports Client
begin

text \<open>
  The leases of the client: the counters and tokens of \<^verbatim>\<open>client.ts\<close> refine a set of held leases as long as only held
  leases are released, and a run in which the client itself releases one that is not.
\<close>

section \<open>The table of leases as a set of held leases\<close>

text \<open>
  The specification: the leases held, each with its token, session and mode. A lease is granted when it is
  shared and all held leases of the session are, or when the session has none.
\<close>

datatype lease_op = Reserve ident lease_mode | Release ident nat | Invalidate ident

record held_leases =
  hl_held :: "(nat \<times> ident \<times> lease_mode) list"
  hl_next :: nat

definition on_session :: "ident \<Rightarrow> (nat \<times> ident \<times> lease_mode) list \<Rightarrow> (nat \<times> ident \<times> lease_mode) list" where
  "on_session sid held = filter (\<lambda>(t, sid', m). sid' = sid) held"

definition may_hold :: "held_leases \<Rightarrow> ident \<Rightarrow> lease_mode \<Rightarrow> bool" where
  "may_hold h sid mode \<longleftrightarrow> (\<forall>(t, sid', m) \<in> set (on_session sid (hl_held h)). mode = SharedLease \<and> m = SharedLease)"

definition held_step :: "lease_op \<Rightarrow> held_leases \<Rightarrow> nat option \<times> held_leases" where
  "held_step op h =
     (case op of
        Reserve sid mode \<Rightarrow>
          if may_hold h sid mode then (Some (hl_next h), \<lparr>hl_held = hl_held h @ [(hl_next h, sid, mode)], hl_next = hl_next h + 1\<rparr>)
          else (None, h)
      | Release sid t \<Rightarrow> (None, h\<lparr>hl_held := filter (\<lambda>x. fst x \<noteq> t) (hl_held h)\<rparr>)
      | Invalidate sid \<Rightarrow> (None, h\<lparr>hl_held := filter (\<lambda>(t, sid', m). sid' \<noteq> sid) (hl_held h)\<rparr>))"

text \<open>Only held leases are released.\<close>

definition releases_held :: "lease_op \<Rightarrow> held_leases \<Rightarrow> bool" where
  "releases_held op h = (case op of Release sid t \<Rightarrow> list_ex (\<lambda>(t', sid', m). t' = t \<and> sid' = sid) (hl_held h) | _ \<Rightarrow> True)"

definition table_step :: "lease_op \<Rightarrow> client \<Rightarrow> nat option \<times> client" where
  "table_step op s =
     (case op of
        Reserve sid mode \<Rightarrow> (case reserveSessionLease sid mode s of Inl _ \<Rightarrow> (None, s) | Inr (t, s') \<Rightarrow> (Some t, s'))
      | Release sid t \<Rightarrow> (None, releaseSessionLease sid t s)
      | Invalidate sid \<Rightarrow> (None, invalidateSessionLeases sid s))"

fun held_run :: "lease_op list \<Rightarrow> held_leases \<Rightarrow> nat option list \<times> held_leases" where
  "held_run [] h = ([], h)"
| "held_run (op # ops) h = (case held_step op h of (r, h1) \<Rightarrow> (case held_run ops h1 of (rs, h2) \<Rightarrow> (r # rs, h2)))"

fun table_run :: "lease_op list \<Rightarrow> client \<Rightarrow> nat option list \<times> client" where
  "table_run [] s = ([], s)"
| "table_run (op # ops) s = (case table_step op s of (r, s1) \<Rightarrow> (case table_run ops s1 of (rs, s2) \<Rightarrow> (r # rs, s2)))"

fun only_held_released :: "lease_op list \<Rightarrow> held_leases \<Rightarrow> bool" where
  "only_held_released [] h = True"
| "only_held_released (op # ops) h \<longleftrightarrow> releases_held op h \<and> only_held_released ops (snd (held_step op h))"

definition represents :: "client \<Rightarrow> held_leases \<Rightarrow> bool" where
  "represents s h \<longleftrightarrow> cl_nextToken s = hl_next h \<and> distinct (map fst (hl_held h)) \<and> (\<forall>x \<in> set (hl_held h). fst x < hl_next h) \<and>
     (\<forall>sid. lease_count s sid = length (on_session sid (hl_held h))) \<and>
     (\<forall>sid t. map_get (cl_exclusiveLeases s) sid = Some t \<longleftrightarrow> (t, sid, ExclusiveLease) \<in> set (hl_held h)) \<and>
     (\<forall>sid t. (t, sid, ExclusiveLease) \<in> set (hl_held h) \<longrightarrow> on_session sid (hl_held h) = [(t, sid, ExclusiveLease)])"

lemma lease_count_update:
  "lease_count (s\<lparr>cl_leaseCounts := map_set m sid n\<rparr>) sid' = (if sid' = sid then n else lease_count (s\<lparr>cl_leaseCounts := m\<rparr>) sid')"
  "lease_count (s\<lparr>cl_leaseCounts := map_remove m sid\<rparr>) sid' = (if sid' = sid then 0 else lease_count (s\<lparr>cl_leaseCounts := m\<rparr>) sid')"
  by (simp_all add: lease_count_def)

lemma on_session_simps [simp]:
  "on_session sid [] = []" "on_session sid (xs @ ys) = on_session sid xs @ on_session sid ys"
  "on_session sid (x # xs) = (if fst (snd x) = sid then x # on_session sid xs else on_session sid xs)"
  by (auto simp: on_session_def split: prod.splits)

lemma may_hold_table:
  assumes "represents s h"
  shows "(\<exists>x. reserveSessionLease sid mode s = Inr x) \<longleftrightarrow> may_hold h sid mode"
proof (cases mode)
  case SharedLease
  have "map_has (cl_exclusiveLeases s) sid \<longleftrightarrow> (\<exists>t. (t, sid, ExclusiveLease) \<in> set (hl_held h))"
    using assms by (simp add: represents_def map_has_get)
  then show ?thesis using SharedLease lease_mode.exhaust
    by (auto simp: reserveSessionLease_def Let_def may_hold_def on_session_def)
next
  case ExclusiveLease
  have "may_hold h sid mode \<longleftrightarrow> on_session sid (hl_held h) = []"
    using ExclusiveLease by (cases "on_session sid (hl_held h)") (auto simp: may_hold_def)
  then show ?thesis using assms ExclusiveLease by (auto simp: reserveSessionLease_def Let_def represents_def)
qed

lemma representsD:
  assumes "represents s h"
  shows "cl_nextToken s = hl_next h" "distinct (map fst (hl_held h))" "\<And>x. x \<in> set (hl_held h) \<Longrightarrow> fst x < hl_next h"
    "lease_count s sid = length (on_session sid (hl_held h))"
    "map_get (cl_exclusiveLeases s) sid = Some t \<longleftrightarrow> (t, sid, ExclusiveLease) \<in> set (hl_held h)"
    "(t, sid, ExclusiveLease) \<in> set (hl_held h) \<Longrightarrow> on_session sid (hl_held h) = [(t, sid, ExclusiveLease)]"
  using assms by (auto simp: represents_def)

lemma reserve_represents:
  assumes "represents s h" "may_hold h sid mode"
  shows "\<exists>s'. reserveSessionLease sid mode s = Inr (hl_next h, s') \<and>
    represents s' \<lparr>hl_held = hl_held h @ [(hl_next h, sid, mode)], hl_next = hl_next h + 1\<rparr>"
proof -
  note rep = representsD [OF assms(1)]
  let ?h' = "\<lparr>hl_held = hl_held h @ [(hl_next h, sid, mode)], hl_next = hl_next h + 1\<rparr>"
  obtain s' where s': "reserveSessionLease sid mode s = Inr (hl_next h, s')"
    using may_hold_table [OF assms(1), of sid mode] assms(2) rep(1) by (auto simp: reserveSessionLease_def Let_def split: if_splits)
  have counts: "lease_count s' sid' = (if sid' = sid then lease_count s sid + 1 else lease_count s sid')" for sid'
    using s' by (auto simp: reserveSessionLease_def Let_def lease_count_def split: if_splits)
  have exclusive: "map_get (cl_exclusiveLeases s') sid' =
      (if sid' = sid \<and> mode = ExclusiveLease then Some (hl_next h) else map_get (cl_exclusiveLeases s) sid')" for sid'
    using s' rep(1) by (auto simp: reserveSessionLease_def Let_def split: if_splits)
  have shared: "m = SharedLease \<and> mode = SharedLease" if "(t, sid, m) \<in> set (hl_held h)" for t m
  proof -
    have "(t, sid, m) \<in> set (on_session sid (hl_held h))" using that by (simp add: on_session_def)
    with assms(2) show ?thesis by (auto simp: may_hold_def)
  qed
  have none: "on_session sid (hl_held h) = []" if "mode = ExclusiveLease"
    using that assms(2) by (cases "on_session sid (hl_held h)") (auto simp: may_hold_def)
  have "represents s' ?h'"
    unfolding represents_def
  proof (intro conjI allI impI ballI)
    show "cl_nextToken s' = hl_next ?h'" using s' rep(1) by (auto simp: reserveSessionLease_def Let_def split: if_splits)
    show "distinct (map fst (hl_held ?h'))" using rep(2,3) by fastforce
  next
    fix x assume "x \<in> set (hl_held ?h')"
    then show "fst x < hl_next ?h'" using rep(3) [of x] by auto
  next
    fix sid' show "lease_count s' sid' = length (on_session sid' (hl_held ?h'))" by (simp add: counts rep(4))
  next
    fix sid' t show "map_get (cl_exclusiveLeases s') sid' = Some t \<longleftrightarrow> (t, sid', ExclusiveLease) \<in> set (hl_held ?h')"
      using shared rep(5) by (auto simp: exclusive)
  next
    fix sid' t assume t: "(t, sid', ExclusiveLease) \<in> set (hl_held ?h')"
    show "on_session sid' (hl_held ?h') = [(t, sid', ExclusiveLease)]"
    proof (cases "(t, sid', ExclusiveLease) \<in> set (hl_held h)")
      case True
      then have "sid' \<noteq> sid" using shared by blast
      with rep(6) [OF True] show ?thesis by simp
    qed (use t none in auto)
  qed
  with s' show ?thesis by blast
qed

lemma remove_token:
  assumes "distinct (map fst held)" "(t, sid, m) \<in> set held"
  shows "length (on_session sid' (filter (\<lambda>x. fst x \<noteq> t) held)) =
    (if sid' = sid then length (on_session sid held) - 1 else length (on_session sid' held))"
  using assms
proof (induction held)
  case (Cons x held)
  show ?case
  proof (cases "fst x = t")
    case True
    then have "x = (t, sid, m)" "\<forall>y \<in> set held. fst y \<noteq> t" using Cons.prems by (auto simp: rev_image_eqI)
    then show ?thesis by simp
  next
    case False
    then have mem: "(t, sid, m) \<in> set held" using Cons.prems by auto
    then have "0 < length (on_session sid held)" by (auto simp: on_session_def filter_empty_conv)
    with Cons.IH mem Cons.prems(1) False show ?thesis by auto
  qed
qed simp

lemma release_represents:
  assumes "represents s h" "(t, sid, m) \<in> set (hl_held h)"
  shows "represents (releaseSessionLease sid t s) (h\<lparr>hl_held := filter (\<lambda>x. fst x \<noteq> t) (hl_held h)\<rparr>)"
proof -
  note rep = representsD [OF assms(1)]
  let ?held = "filter (\<lambda>x. fst x \<noteq> t) (hl_held h)" and ?s' = "releaseSessionLease sid t s"
  have owner: "sid' = sid \<and> m' = m" if "(t, sid', m') \<in> set (hl_held h)" for sid' m'
    using eq_key_imp_eq_value [OF rep(2) that assms(2)] by simp
  have counts: "lease_count ?s' sid' = (if sid' = sid then lease_count s sid - 1 else lease_count s sid')" for sid'
    by (auto simp: releaseSessionLease_def Let_def lease_count_def split: option.splits)
  have only: "sid' = sid" if "map_get (cl_exclusiveLeases s) sid' = Some t" for sid'
    using that owner rep(5) by blast
  have removed: "map_get (cl_exclusiveLeases ?s') sid' =
      (if sid' = sid \<and> map_get (cl_exclusiveLeases s) sid = Some t then None else map_get (cl_exclusiveLeases s) sid')" for sid'
    by (simp add: releaseSessionLease_def Let_def)
  have exclusive: "map_get (cl_exclusiveLeases ?s') sid' = Some u \<longleftrightarrow> map_get (cl_exclusiveLeases s) sid' = Some u \<and> u \<noteq> t" for sid' u
    by (auto simp: removed dest: only)
  show ?thesis
    unfolding represents_def
  proof (intro conjI allI impI ballI)
    show "cl_nextToken ?s' = hl_next (h\<lparr>hl_held := ?held\<rparr>)" using rep(1) by (simp add: releaseSessionLease_def Let_def)
    show "distinct (map fst (hl_held (h\<lparr>hl_held := ?held\<rparr>)))" using rep(2) by (simp add: distinct_map_filter)
  next
    fix x assume "x \<in> set (hl_held (h\<lparr>hl_held := ?held\<rparr>))"
    then show "fst x < hl_next (h\<lparr>hl_held := ?held\<rparr>)" using rep(3) [of x] by auto
  next
    fix sid' show "lease_count ?s' sid' = length (on_session sid' (hl_held (h\<lparr>hl_held := ?held\<rparr>)))"
      using remove_token [OF rep(2) assms(2), of sid'] by (simp add: counts rep(4))
  next
    fix sid' u show "map_get (cl_exclusiveLeases ?s') sid' = Some u \<longleftrightarrow> (u, sid', ExclusiveLease) \<in> set (hl_held (h\<lparr>hl_held := ?held\<rparr>))"
      by (auto simp: exclusive rep(5))
  next
    fix sid' u assume u: "(u, sid', ExclusiveLease) \<in> set (hl_held (h\<lparr>hl_held := ?held\<rparr>))"
    have "on_session sid' ?held = filter (\<lambda>x. fst x \<noteq> t) (on_session sid' (hl_held h))" by (auto simp: on_session_def conj_commute)
    then show "on_session sid' (hl_held (h\<lparr>hl_held := ?held\<rparr>)) = [(u, sid', ExclusiveLease)]" using rep(6) [of u sid'] u by simp
  qed
qed

lemma invalidate_represents:
  assumes "represents s h"
  shows "represents (invalidateSessionLeases sid s) (h\<lparr>hl_held := filter (\<lambda>(t, sid', m). sid' \<noteq> sid) (hl_held h)\<rparr>)"
proof -
  note rep = representsD [OF assms]
  let ?held = "filter (\<lambda>(t, sid', m). sid' \<noteq> sid) (hl_held h)" and ?s' = "invalidateSessionLeases sid s"
  have sessions: "on_session sid' ?held = (if sid' = sid then [] else on_session sid' (hl_held h))" for sid'
    by (auto simp: on_session_def filter_empty_conv intro: filter_cong)
  have counts: "lease_count ?s' sid' = (if sid' = sid then 0 else lease_count s sid')" for sid'
    by (simp add: invalidateSessionLeases_def lease_count_def)
  have exclusive: "map_get (cl_exclusiveLeases ?s') sid' = (if sid' = sid then None else map_get (cl_exclusiveLeases s) sid')" for sid'
    by (simp add: invalidateSessionLeases_def)
  show ?thesis
    unfolding represents_def
  proof (intro conjI allI impI ballI)
    show "cl_nextToken ?s' = hl_next (h\<lparr>hl_held := ?held\<rparr>)" using rep(1) by (simp add: invalidateSessionLeases_def)
    show "distinct (map fst (hl_held (h\<lparr>hl_held := ?held\<rparr>)))" using rep(2) by (simp add: distinct_map_filter)
  next
    fix x assume "x \<in> set (hl_held (h\<lparr>hl_held := ?held\<rparr>))"
    then show "fst x < hl_next (h\<lparr>hl_held := ?held\<rparr>)" using rep(3) [of x] by auto
  qed (use rep(5,6) in \<open>auto simp: counts sessions rep(4) exclusive\<close>)
qed

lemma table_step_refines:
  assumes "represents s h" "releases_held op h"
  shows "fst (table_step op s) = fst (held_step op h)" "represents (snd (table_step op s)) (snd (held_step op h))"
proof -
  have "fst (table_step op s) = fst (held_step op h) \<and> represents (snd (table_step op s)) (snd (held_step op h))"
  proof (cases op)
    case (Reserve sid mode)
    show ?thesis
    proof (cases "may_hold h sid mode")
      case True
      then show ?thesis using reserve_represents [OF assms(1)] Reserve by (fastforce simp: table_step_def held_step_def)
    next
      case False
      then obtain err where "reserveSessionLease sid mode s = Inl err"
        using may_hold_table [OF assms(1), of sid mode] by (cases "reserveSessionLease sid mode s") auto
      then show ?thesis using False Reserve assms(1) by (simp add: table_step_def held_step_def)
    qed
  next
    case (Release sid t)
    then obtain m where "(t, sid, m) \<in> set (hl_held h)" using assms(2) by (auto simp: releases_held_def list_ex_iff)
    from release_represents [OF assms(1) this] Release show ?thesis by (simp add: table_step_def held_step_def)
  next
    case (Invalidate sid)
    with invalidate_represents [OF assms(1)] show ?thesis by (simp add: table_step_def held_step_def)
  qed
  then show "fst (table_step op s) = fst (held_step op h)" "represents (snd (table_step op s)) (snd (held_step op h))" by simp_all
qed

lemma table_run_refines:
  "represents s h \<Longrightarrow> only_held_released ops h \<Longrightarrow>
   fst (table_run ops s) = fst (held_run ops h) \<and> represents (snd (table_run ops s)) (snd (held_run ops h))"
proof (induction ops arbitrary: s h)
  case (Cons op ops)
  from table_step_refines [OF Cons.prems(1)] Cons.prems(2) Cons.IH [of "snd (table_step op s)" "snd (held_step op h)"]
  show ?case by (simp add: case_prod_unfold)
qed simp

section \<open>A stale release\<close>

definition attached_snapshot :: "ident \<Rightarrow> session_snapshot" where
  "attached_snapshot sid = (plain_snapshot sid)\<lparr>sn_attached := True\<rparr>"

text \<open>
  A client holds an exclusive lease and releases it; while the detach is under way the session is removed, which
  invalidates the lease, and is acquired again. The answer to the detach then releases the old token a second time.
\<close>

definition stale_run :: "client_action list" where
  "stale_run = [CallConnect, TransportReturns 0 None,
     DataArrives 1 (Inr [ServerHello \<lparr>vs_revision = 0, vs_sessions = [], vs_models = []\<rparr>]),
     CallAcquire ''s'' ExclusiveLease, DataArrives 1 (Inr [ResponseOk ''request-1'' (AttachResult (attached_snapshot ''s''))]),
     Proceed 3, Proceed 4,
     CallDetach 0, DataArrives 1 (Inr [SessionRemovedEvent ''s'']), CallAcquire ''s'' ExclusiveLease,
     DataArrives 1 (Inr [ResponseOk ''request-2'' (DetachResult ''s'')]), Proceed 6, Proceed 7, Proceed 8,
     DataArrives 1 (Inr [ResponseOk ''request-3'' (AttachResult (attached_snapshot ''s''))]), Proceed 10, Proceed 11,
     CallAcquire ''s'' ExclusiveLease]"

definition active_leases :: "client \<Rightarrow> (nat \<times> ident) list" where
  "active_leases s = map (\<lambda>(t, l). (t, ls_session l)) (filter (\<lambda>(t, l). isActive s l) (cl_leases s))"

definition acquire_modes :: "client_action list \<Rightarrow> lease_mode list" where
  "acquire_modes as = List.map_filter (\<lambda>a. case a of CallAcquire sid mode \<Rightarrow> Some mode | _ \<Rightarrow> None) as"

section \<open>Properties\<close>

text \<open>
  C14. The table of leases keeps the promise of exclusive leases, as long as only held leases are released. For
  every sequence of reservations, releases and invalidations in which each released lease is held at that
  moment, the counters and tokens of the client grant and refuse exactly the leases that the set of held
  leases allows (a shared one next to shared ones, an exclusive one alone), and the counter of a session is the
  number of its held leases.
\<close>

theorem lease_table_refines_held_leases:
  assumes "only_held_released ops \<lparr>hl_held = [], hl_next = 0\<rparr>"
  shows "fst (table_run ops (new_client encodable sendThrows)) = fst (held_run ops \<lparr>hl_held = [], hl_next = 0\<rparr>) \<and>
    lease_count (snd (table_run ops (new_client encodable sendThrows))) sid =
      length (on_session sid (hl_held (snd (held_run ops \<lparr>hl_held = [], hl_next = 0\<rparr>))))"
proof -
  have "represents (new_client encodable sendThrows) \<lparr>hl_held = [], hl_next = 0\<rparr>"
    by (simp add: represents_def new_client_def lease_count_def)
  from table_run_refines [OF this assms] show ?thesis by (simp add: representsD(4))
qed

text \<open>
  A lease that is released after it was invalidated takes the place of another. The client releases the
  token of a lease without checking whether the lease was invalidated in the meantime. When a session is
  removed while a detach is under way and acquired again before the answer, the new exclusive lease is no
  longer counted, and the next exclusive acquisition is granted beside it: two exclusive leases of one session
  are active.
\<close>

lemma stale_release_breaks_exclusivity:
  "\<exists>s. client_run stale_run (new_client (\<lambda>_. True) (\<lambda>_. False)) = Some s \<and>
     acquire_modes stale_run = [ExclusiveLease, ExclusiveLease, ExclusiveLease] \<and> active_leases s = [(1, ''s''), (2, ''s'')]"
proof -
  have "map_option active_leases (client_run stale_run (new_client (\<lambda>_. True) (\<lambda>_. False))) = Some [(1, ''s''), (2, ''s'')]"
    by code_simp
  moreover have "acquire_modes stale_run = [ExclusiveLease, ExclusiveLease, ExclusiveLease]"
    by (simp add: acquire_modes_def stale_run_def List.map_filter_def)
  ultimately show ?thesis by auto
qed

definition lease_ops :: "lease_op list" where
  "lease_ops = [Reserve ''s'' SharedLease, Reserve ''s'' ExclusiveLease, Reserve ''s'' SharedLease, Release ''s'' 0, Release ''s'' 1,
     Reserve ''s'' ExclusiveLease, Reserve ''s'' SharedLease, Invalidate ''s'', Reserve ''s'' SharedLease]"

theorem lease_table_refines_held_leases_witness:
  "fst (table_run lease_ops (new_client (\<lambda>_. True) (\<lambda>_. False))) =
     [Some 0, None, Some 1, None, None, Some 2, None, None, Some 3]"
proof -
  have "only_held_released lease_ops \<lparr>hl_held = [], hl_next = 0\<rparr>" by code_simp
  moreover have "fst (held_run lease_ops \<lparr>hl_held = [], hl_next = 0\<rparr>) = [Some 0, None, Some 1, None, None, Some 2, None, None, Some 3]"
    by code_simp
  ultimately show ?thesis using lease_table_refines_held_leases [of lease_ops] by simp
qed

end
