(* ===== verification/Message_Transform.thy ===== *)
theory Message_Transform
  imports Session_Context "HOL-Library.Sublist"
begin

text \<open>
  The conversation a provider is sent, \<^verbatim>\<open>packages/ai/src/api/transform-messages.ts\<close>: images a model cannot
  see become placeholders, what only one model understands is dropped or turned into text, identifiers of
  tool calls are rewritten for the provider, failed answers are left out and tool calls without a result
  get one. Messages always have content here; the source's replacement of missing content by an
  empty list has no counterpart. Strings are sequences of 8-bit characters, so white space is what is white
  space among these. The identifier rewriting of the provider and the clock are arguments.
\<close>

section \<open>Images\<close>

record target_model =
  tm_id :: string
  tm_api :: string
  tm_provider :: string
  tm_input :: "string list"

definition NON_VISION_USER_IMAGE_PLACEHOLDER :: string where
  "NON_VISION_USER_IMAGE_PLACEHOLDER = ''(image omitted: model does not support images)''"

definition NON_VISION_TOOL_IMAGE_PLACEHOLDER :: string where
  "NON_VISION_TOOL_IMAGE_PLACEHOLDER = ''(tool image omitted: model does not support images)''"

fun replace_images_loop :: "string \<Rightarrow> bool \<Rightarrow> input_content list \<Rightarrow> input_content list" where
  "replace_images_loop placeholder previousWasPlaceholder [] = []"
| "replace_images_loop placeholder previousWasPlaceholder (ImageInput data mimeType # content) =
     (if previousWasPlaceholder then [] else [TextInput placeholder None]) @ replace_images_loop placeholder True content"
| "replace_images_loop placeholder previousWasPlaceholder (TextInput text signature # content) =
     TextInput text signature # replace_images_loop placeholder (text = placeholder) content"

definition replaceImagesWithPlaceholder :: "input_content list \<Rightarrow> string \<Rightarrow> input_content list" where
  "replaceImagesWithPlaceholder content placeholder = replace_images_loop placeholder False content"

fun downgrade_message :: "agent_message \<Rightarrow> agent_message" where
  "downgrade_message (UserMessage m) =
     (case um_content m of
        ContentBlocks content \<Rightarrow>
          UserMessage (m\<lparr>um_content := ContentBlocks
            (replaceImagesWithPlaceholder content NON_VISION_USER_IMAGE_PLACEHOLDER)\<rparr>)
      | ContentString _ \<Rightarrow> UserMessage m)"
| "downgrade_message (ToolResultMessage m) =
     ToolResultMessage (m\<lparr>tr_content := replaceImagesWithPlaceholder (tr_content m) NON_VISION_TOOL_IMAGE_PLACEHOLDER\<rparr>)"
| "downgrade_message m = m"

definition downgradeUnsupportedImages :: "agent_message list \<Rightarrow> target_model \<Rightarrow> agent_message list" where
  "downgradeUnsupportedImages messages model =
     (if ''image'' \<in> set (tm_input model) then messages else map downgrade_message messages)"

section \<open>The first pass\<close>

definition is_same_model :: "assistant_message \<Rightarrow> target_model \<Rightarrow> bool" where
  "is_same_model m model \<longleftrightarrow>
     am_provider m = tm_provider model \<and> am_api m = tm_api model \<and> am_model m = tm_id model"

text \<open>An optional string that JavaScript takes for true: present and not empty.\<close>

definition truthy :: "string option \<Rightarrow> bool" where
  "truthy s \<longleftrightarrow> (case s of None \<Rightarrow> False | Some t \<Rightarrow> t \<noteq> [])"

definition blank :: "string \<Rightarrow> bool" where
  "blank text \<longleftrightarrow> (\<forall>c \<in> set text. of_char c \<in> {9, 10, 11, 12, 13, 32, 0xA0::nat})"

definition transform_thinking :: "bool \<Rightarrow> string \<Rightarrow> string option \<Rightarrow> bool option \<Rightarrow> assistant_content list" where
  "transform_thinking isSameModel thinking signature redacted =
     (let block = ThinkingContent thinking signature redacted
      in if redacted = Some True then (if isSameModel then [block] else [])
         else if isSameModel \<and> truthy signature then [block]
         else if blank thinking then []
         else if isSameModel then [block]
         else [TextContent thinking None])"

type_synonym id_normalizer = "ident \<Rightarrow> target_model \<Rightarrow> assistant_message \<Rightarrow> ident"

definition transform_call ::
    "id_normalizer option \<Rightarrow> target_model \<Rightarrow> assistant_message \<Rightarrow> tool_call \<Rightarrow> (ident, ident) js_map \<Rightarrow> tool_call \<times> (ident, ident) js_map" where
  "transform_call normalizeToolCallId model m toolCall toolCallIdMap =
     (let isSameModel = is_same_model m model;
          normalized = (if \<not> isSameModel \<and> truthy (tc_thoughtSignature toolCall)
            then toolCall\<lparr>tc_thoughtSignature := None\<rparr> else toolCall)
      in case normalizeToolCallId of
           None \<Rightarrow> (normalized, toolCallIdMap)
         | Some rename \<Rightarrow>
             let normalizedId = rename (tc_id toolCall) model m
             in if \<not> isSameModel \<and> normalizedId \<noteq> tc_id toolCall
                then (normalized\<lparr>tc_id := normalizedId\<rparr>, map_set toolCallIdMap (tc_id toolCall) normalizedId)
                else (normalized, toolCallIdMap))"

fun transform_content ::
    "id_normalizer option \<Rightarrow> target_model \<Rightarrow> assistant_message \<Rightarrow> assistant_content list \<Rightarrow> (ident, ident) js_map \<Rightarrow>
      assistant_content list \<times> (ident, ident) js_map" where
  "transform_content rename model m [] ids = ([], ids)"
| "transform_content rename model m (ThinkingContent thinking signature redacted # blocks) ids =
     (case transform_content rename model m blocks ids of
        (content, ids') \<Rightarrow> (transform_thinking (is_same_model m model) thinking signature redacted @ content, ids'))"
| "transform_content rename model m (TextContent text signature # blocks) ids =
     (case transform_content rename model m blocks ids of
        (content, ids') \<Rightarrow> (TextContent text (if is_same_model m model then signature else None) # content, ids'))"
| "transform_content rename model m (ToolCallContent toolCall # blocks) ids =
     (case transform_call rename model m toolCall ids of
        (call, ids1) \<Rightarrow>
          (case transform_content rename model m blocks ids1 of (content, ids') \<Rightarrow> (ToolCallContent call # content, ids')))"

definition transform_result :: "(ident, ident) js_map \<Rightarrow> tool_result_message \<Rightarrow> tool_result_message" where
  "transform_result ids m =
     (case map_get ids (tr_toolCallId m) of
        None \<Rightarrow> m
      | Some normalizedId \<Rightarrow>
          if normalizedId \<noteq> [] \<and> normalizedId \<noteq> tr_toolCallId m then m\<lparr>tr_toolCallId := normalizedId\<rparr> else m)"

fun transform_message ::
    "id_normalizer option \<Rightarrow> target_model \<Rightarrow> agent_message \<Rightarrow> (ident, ident) js_map \<Rightarrow> agent_message \<times> (ident, ident) js_map" where
  "transform_message rename model (ToolResultMessage m) ids = (ToolResultMessage (transform_result ids m), ids)"
| "transform_message rename model (AssistantMessage m) ids =
     (case transform_content rename model m (am_content m) ids of
        (content, ids') \<Rightarrow> (AssistantMessage (m\<lparr>am_content := content\<rparr>), ids'))"
| "transform_message rename model m ids = (m, ids)"

fun transform_all ::
    "id_normalizer option \<Rightarrow> target_model \<Rightarrow> agent_message list \<Rightarrow> (ident, ident) js_map \<Rightarrow> agent_message list" where
  "transform_all rename model [] ids = []"
| "transform_all rename model (m # ms) ids =
     (case transform_message rename model m ids of (m', ids') \<Rightarrow> m' # transform_all rename model ms ids')"

section \<open>The second pass\<close>

record replay =
  rp_result :: "agent_message list"
  rp_pending :: "tool_call list"
  rp_existing :: "ident list"

definition synthetic_result :: "(nat \<Rightarrow> int) \<Rightarrow> replay \<Rightarrow> tool_call \<Rightarrow> agent_message" where
  "synthetic_result now st tc = ToolResultMessage \<lparr>tr_toolCallId = tc_id tc, tr_toolName = tc_name tc,
     tr_content = [TextInput ''No result provided'' None], tr_details = None, tr_usage = None, tr_addedToolNames = None,
     tr_isError = True, tr_timestamp = now (length (rp_result st))\<rparr>"

definition push_message :: "agent_message \<Rightarrow> replay \<Rightarrow> replay" where
  "push_message m st = st\<lparr>rp_result := rp_result st @ [m]\<rparr>"

definition insertSyntheticToolResults :: "(nat \<Rightarrow> int) \<Rightarrow> replay \<Rightarrow> replay" where
  "insertSyntheticToolResults now st =
     (if rp_pending st = [] then st
      else (fold (\<lambda>tc s. if tc_id tc \<in> set (rp_existing s) then s else push_message (synthetic_result now s tc) s)
              (rp_pending st) st)\<lparr>rp_pending := [], rp_existing := []\<rparr>)"

definition failed_answer :: "assistant_message \<Rightarrow> bool" where
  "failed_answer m \<longleftrightarrow> am_stopReason m = StopError \<or> am_stopReason m = StopAborted"

definition replay_answer :: "(nat \<Rightarrow> int) \<Rightarrow> assistant_message \<Rightarrow> replay \<Rightarrow> replay" where
  "replay_answer now m st =
     (let st1 = insertSyntheticToolResults now st; toolCalls = tool_calls_of (am_content m)
      in if failed_answer m then st1
         else push_message (AssistantMessage m)
                (if toolCalls = [] then st1 else st1\<lparr>rp_pending := toolCalls, rp_existing := []\<rparr>))"

fun replay_message :: "(nat \<Rightarrow> int) \<Rightarrow> agent_message \<Rightarrow> replay \<Rightarrow> replay" where
  "replay_message now (AssistantMessage m) st = replay_answer now m st"
| "replay_message now (ToolResultMessage m) st =
     push_message (ToolResultMessage m) (st\<lparr>rp_existing := rp_existing st @ [tr_toolCallId m]\<rparr>)"
| "replay_message now (UserMessage m) st = push_message (UserMessage m) (insertSyntheticToolResults now st)"
| "replay_message now m st = push_message m st"

definition replay_all :: "(nat \<Rightarrow> int) \<Rightarrow> agent_message list \<Rightarrow> agent_message list" where
  "replay_all now transformed =
     rp_result (insertSyntheticToolResults now
       (fold (replay_message now) transformed \<lparr>rp_result = [], rp_pending = [], rp_existing = []\<rparr>))"

definition transformMessages ::
    "(nat \<Rightarrow> int) \<Rightarrow> agent_message list \<Rightarrow> target_model \<Rightarrow> id_normalizer option \<Rightarrow> agent_message list" where
  "transformMessages now messages model normalizeToolCallId =
     replay_all now (transform_all normalizeToolCallId model (downgradeUnsupportedImages messages model) [])"


section \<open>Every tool call has a result\<close>

fun boundary :: "agent_message \<Rightarrow> bool" where
  "boundary (UserMessage m) = True"
| "boundary (AssistantMessage m) = True"
| "boundary m = False"

definition answered_in :: "agent_message list \<Rightarrow> tool_call \<Rightarrow> bool" where
  "answered_in ms c \<longleftrightarrow> (\<exists>r. ToolResultMessage r \<in> set (takeWhile (\<lambda>m. \<not> boundary m) ms) \<and> tr_toolCallId r = tc_id c)"

text \<open>After an answer and before the next answer or user message, each of its tool calls has a result.\<close>

fun calls_answered :: "agent_message list \<Rightarrow> bool" where
  "calls_answered [] \<longleftrightarrow> True"
| "calls_answered (AssistantMessage m # ms) \<longleftrightarrow>
     (\<forall>c \<in> set (tool_calls_of (am_content m)). answered_in ms c) \<and> calls_answered ms"
| "calls_answered (m # ms) \<longleftrightarrow> calls_answered ms"

text \<open>The same while the second pass runs: what \<open>waiting\<close> holds may still lack a result.\<close>

fun calls_answered_but :: "tool_call set \<Rightarrow> agent_message list \<Rightarrow> bool" where
  "calls_answered_but waiting [] \<longleftrightarrow> True"
| "calls_answered_but waiting (AssistantMessage m # ms) \<longleftrightarrow>
     (\<forall>c \<in> set (tool_calls_of (am_content m)). answered_in ms c \<or> (\<forall>x \<in> set ms. \<not> boundary x) \<and> c \<in> waiting) \<and>
     calls_answered_but waiting ms"
| "calls_answered_but waiting (m # ms) \<longleftrightarrow> calls_answered_but waiting ms"

lemma answered_in_append: "answered_in ms c \<Longrightarrow> answered_in (ms @ ms') c"
  by (induction ms) (auto simp: answered_in_def)

lemma calls_answered_but_empty: "calls_answered_but {} ms \<longleftrightarrow> calls_answered ms"
  by (induction "{}::tool_call set" ms rule: calls_answered_but.induct) auto

lemma answered_in_snoc:
  "answered_in (ms @ [ToolResultMessage r]) c \<longleftrightarrow>
     answered_in ms c \<or> (\<forall>x \<in> set ms. \<not> boundary x) \<and> tr_toolCallId r = tc_id c"
  by (induction ms) (auto simp: answered_in_def)

lemma answered_but_result:
  "calls_answered_but waiting ms \<Longrightarrow>
   calls_answered_but {c \<in> waiting. tc_id c \<noteq> tr_toolCallId r} (ms @ [ToolResultMessage r])"
  by (induction waiting ms rule: calls_answered_but.induct) (auto simp: answered_in_snoc)

lemma answered_but_mono: "calls_answered_but waiting ms \<Longrightarrow> waiting \<subseteq> waiting' \<Longrightarrow> calls_answered_but waiting' ms"
  by (induction waiting ms rule: calls_answered_but.induct) auto

lemma answered_but_other:
  "calls_answered_but waiting ms \<Longrightarrow> \<not> boundary m \<Longrightarrow> calls_answered_but waiting (ms @ [m])"
proof (induction waiting ms rule: calls_answered_but.induct)
  case (1 waiting)
  then show ?case by (cases m) auto
qed (auto simp: answered_in_append)

lemma answered_but_boundary:
  assumes "calls_answered ms" "\<And>a. m = AssistantMessage a \<Longrightarrow> set (tool_calls_of (am_content a)) \<subseteq> waiting"
  shows "calls_answered_but waiting (ms @ [m])"
  using assms
proof (induction ms rule: calls_answered.induct)
  case 1
  then show ?case by (cases m) auto
qed (auto simp: answered_in_append)

definition waiting_calls :: "replay \<Rightarrow> tool_call set" where
  "waiting_calls st = {c \<in> set (rp_pending st). tc_id c \<notin> set (rp_existing st)}"

lemma insert_fold:
  assumes "calls_answered_but {c \<in> set cs. tc_id c \<notin> set (rp_existing st)} (rp_result st)"
  shows "calls_answered (rp_result (fold (\<lambda>tc s. if tc_id tc \<in> set (rp_existing s) then s
    else push_message (synthetic_result now s tc) s) cs st))"
  using assms
proof (induction cs arbitrary: st)
  case Nil
  then show ?case by (simp add: calls_answered_but_empty)
next
  case (Cons tc cs)
  show ?case
  proof (cases "tc_id tc \<in> set (rp_existing st)")
    case True
    then have "{c \<in> set (tc # cs). tc_id c \<notin> set (rp_existing st)} = {c \<in> set cs. tc_id c \<notin> set (rp_existing st)}" by auto
    with Cons True show ?thesis by simp
  next
    case False
    obtain r where r: "synthetic_result now st tc = ToolResultMessage r" "tr_toolCallId r = tc_id tc"
      by (simp add: synthetic_result_def)
    from answered_but_result [OF Cons.prems, of r] r(2)
    have "calls_answered_but {c \<in> set cs. tc_id c \<notin> set (rp_existing (push_message (synthetic_result now st tc) st))}
        (rp_result (push_message (synthetic_result now st tc) st))"
      by (auto simp: push_message_def r(1) elim!: answered_but_mono)
    from Cons.IH [OF this] False show ?thesis by simp
  qed
qed

lemma insert_answers:
  assumes "calls_answered_but (waiting_calls st) (rp_result st)"
  shows "calls_answered (rp_result (insertSyntheticToolResults now st))"
    and "waiting_calls (insertSyntheticToolResults now st) = {}"
  using assms insert_fold [of "rp_pending st" st now]
  by (auto simp: insertSyntheticToolResults_def waiting_calls_def calls_answered_but_empty)

lemma replay_answers:
  assumes "calls_answered_but (waiting_calls st) (rp_result st)"
  shows "calls_answered_but (waiting_calls (replay_message now m st)) (rp_result (replay_message now m st))"
proof (cases m)
  case (AssistantMessage a)
  let ?st = "insertSyntheticToolResults now st"
  have done_: "calls_answered (rp_result ?st)" "waiting_calls ?st = {}" using insert_answers [OF assms] by auto
  show ?thesis
  proof (cases "failed_answer a")
    case True
    with done_ AssistantMessage show ?thesis by (simp add: replay_answer_def calls_answered_but_empty)
  next
    case False
    show ?thesis
    proof (cases "tool_calls_of (am_content a) = []")
      case True
      with AssistantMessage False done_ show ?thesis
        by (auto simp: replay_answer_def Let_def push_message_def waiting_calls_def intro!: answered_but_boundary)
    next
      case calls: False
      have "calls_answered_but (set (tool_calls_of (am_content a))) (rp_result ?st @ [AssistantMessage a])"
        by (rule answered_but_boundary [OF done_(1)]) simp
      with AssistantMessage False calls show ?thesis
        by (simp add: replay_answer_def Let_def push_message_def waiting_calls_def)
    qed
  qed
next
  case (ToolResultMessage r)
  with answered_but_result [OF assms, of r] show ?thesis
    by (auto simp: push_message_def waiting_calls_def elim!: answered_but_mono)
next
  case (UserMessage u)
  with insert_answers [OF assms, of now] show ?thesis
    by (auto simp: push_message_def waiting_calls_def intro!: answered_but_boundary)
qed (use answered_but_other [OF assms, of m] in \<open>auto simp: push_message_def waiting_calls_def\<close>)

lemma replay_all_answers: "calls_answered (replay_all now ms)"
proof -
  have "calls_answered_but (waiting_calls (fold (replay_message now) ms st)) (rp_result (fold (replay_message now) ms st))"
    if "calls_answered_but (waiting_calls st) (rp_result st)" for st
    using that by (induction ms arbitrary: st) (auto simp: replay_answers)
  then show ?thesis unfolding replay_all_def by (intro insert_answers) simp
qed

section \<open>Nothing else is added, lost or reordered\<close>

fun synthetic :: "agent_message \<Rightarrow> bool" where
  "synthetic (ToolResultMessage r) \<longleftrightarrow> tr_isError r \<and> tr_content r = [TextInput ''No result provided'' None]"
| "synthetic m \<longleftrightarrow> False"

fun kept :: "agent_message \<Rightarrow> bool" where
  "kept (AssistantMessage m) \<longleftrightarrow> \<not> failed_answer m"
| "kept m \<longleftrightarrow> True"

lemma subseq_insert: "subseq (xs @ ys) (xs @ zs @ ys)"
  by (intro list_emb_append_mono subseq_drop_many) auto

lemma insert_fold_extends:
  "\<exists>extra. rp_result (fold (\<lambda>tc s. if tc_id tc \<in> set (rp_existing s) then s
     else push_message (synthetic_result now s tc) s) cs st) = rp_result st @ extra \<and> (\<forall>x \<in> set extra. synthetic x)"
proof (induction cs arbitrary: st)
  case (Cons tc cs)
  have one: "synthetic (synthetic_result now st tc)" by (simp add: synthetic_result_def)
  obtain extra where "rp_result (fold (\<lambda>tc s. if tc_id tc \<in> set (rp_existing s) then s
      else push_message (synthetic_result now s tc) s) (tc # cs) st) =
    rp_result (if tc_id tc \<in> set (rp_existing st) then st else push_message (synthetic_result now st tc) st) @ extra"
    "\<forall>x \<in> set extra. synthetic x"
    using Cons.IH [of "if tc_id tc \<in> set (rp_existing st) then st else push_message (synthetic_result now st tc) st"]
    unfolding fold_Cons comp_apply by blast
  with one show ?case
    by (intro exI [of _ "(if tc_id tc \<in> set (rp_existing st) then [] else [synthetic_result now st tc]) @ extra"])
      (auto simp: push_message_def)
qed simp

lemma insert_extends:
  obtains extra where "rp_result (insertSyntheticToolResults now st) = rp_result st @ extra" "\<forall>x \<in> set extra. synthetic x"
proof -
  have "\<exists>extra. rp_result (insertSyntheticToolResults now st) = rp_result st @ extra \<and> (\<forall>x \<in> set extra. synthetic x)"
    using insert_fold_extends [of now "rp_pending st" st] by (auto simp: insertSyntheticToolResults_def)
  then show ?thesis using that by blast
qed

lemma replay_extends:
  obtains extra where "rp_result (replay_message now m st) = rp_result st @ extra @ (if kept m then [m] else [])"
    "\<forall>x \<in> set extra. synthetic x"
proof -
  obtain extra where extra: "rp_result (insertSyntheticToolResults now st) = rp_result st @ extra" "\<forall>x \<in> set extra. synthetic x"
    by (rule insert_extends)
  show ?thesis
  proof (cases m)
    case (AssistantMessage a)
    with extra show ?thesis by (intro that [of extra]) (auto simp: replay_answer_def Let_def push_message_def)
  next
    case (UserMessage u)
    with extra show ?thesis by (intro that [of extra]) (auto simp: push_message_def)
  qed (rule that [of "[]"]; simp add: push_message_def)+
qed

lemma replay_fold_extends:
  "subseq (rp_result st @ filter kept ms) (rp_result (fold (replay_message now) ms st)) \<and>
   filter (\<lambda>m. \<not> synthetic m) (rp_result (fold (replay_message now) ms st)) =
     filter (\<lambda>m. \<not> synthetic m) (rp_result st @ filter kept ms)"
proof (induction ms arbitrary: st)
  case (Cons m ms)
  obtain extra where extra: "rp_result (replay_message now m st) = rp_result st @ extra @ (if kept m then [m] else [])"
    "\<forall>x \<in> set extra. synthetic x"
    by (rule replay_extends)
  have "subseq (rp_result st @ filter kept (m # ms)) (rp_result (replay_message now m st) @ filter kept ms)"
    by (cases "kept m") (simp_all add: extra(1) subseq_insert)
  moreover have "filter (\<lambda>m. \<not> synthetic m) extra = []" using extra(2) by (simp add: filter_empty_conv)
  ultimately show ?case using Cons.IH [of "replay_message now m st"] extra(1)
    by (auto intro: subseq_order.trans split: if_splits)
qed simp

lemma replay_all_extends:
  "subseq (filter kept ms) (replay_all now ms) \<and>
   filter (\<lambda>m. \<not> synthetic m) (replay_all now ms) = filter (\<lambda>m. \<not> synthetic m) (filter kept ms)"
proof -
  let ?st = "fold (replay_message now) ms \<lparr>rp_result = [], rp_pending = [], rp_existing = []\<rparr>"
  obtain extra where extra: "rp_result (insertSyntheticToolResults now ?st) = rp_result ?st @ extra" "\<forall>x \<in> set extra. synthetic x"
    by (rule insert_extends)
  then have "filter (\<lambda>m. \<not> synthetic m) extra = []" by (simp add: filter_empty_conv)
  with extra(1) replay_fold_extends [of "\<lparr>rp_result = [], rp_pending = [], rp_existing = []\<rparr>" ms now] show ?thesis
    by (auto simp: replay_all_def)
qed

section \<open>Which results are made up\<close>

text \<open>
  The second pass described by looking ahead: an answer is followed by the messages up to the next answer or user
  message and then by one result for each of its calls that none of these messages answers, in the order of
  the calls. \<open>n\<close> counts the messages before, which the clock of the made up results depends on.
\<close>

definition no_result :: "tool_call \<Rightarrow> int \<Rightarrow> agent_message" where
  "no_result c time = ToolResultMessage \<lparr>tr_toolCallId = tc_id c, tr_toolName = tc_name c,
     tr_content = [TextInput ''No result provided'' None], tr_details = None, tr_usage = None, tr_addedToolNames = None,
     tr_isError = True, tr_timestamp = time\<rparr>"

definition no_results :: "(nat \<Rightarrow> int) \<Rightarrow> nat \<Rightarrow> tool_call list \<Rightarrow> agent_message list" where
  "no_results now n calls = map (\<lambda>(k, c). no_result c (now k)) (enumerate n calls)"

definition up_to_boundary :: "agent_message list \<Rightarrow> agent_message list" where
  "up_to_boundary ms = takeWhile (\<lambda>m. \<not> boundary m) ms"

definition from_boundary :: "agent_message list \<Rightarrow> agent_message list" where
  "from_boundary ms = dropWhile (\<lambda>m. \<not> boundary m) ms"

definition unanswered :: "agent_message list \<Rightarrow> tool_call list \<Rightarrow> tool_call list" where
  "unanswered ms calls = filter (\<lambda>c. \<not> answered_in ms c) calls"

function completed :: "(nat \<Rightarrow> int) \<Rightarrow> nat \<Rightarrow> agent_message list \<Rightarrow> agent_message list" where
  "completed now n [] = []"
| "completed now n (AssistantMessage a # ms) =
     (if failed_answer a then completed now n ms
      else (let given = up_to_boundary ms;
                missing = unanswered ms (tool_calls_of (am_content a))
            in AssistantMessage a # given @ no_results now (Suc n + length given) missing @
               completed now (Suc n + length given + length missing) (from_boundary ms)))"
| "\<forall>a. m \<noteq> AssistantMessage a \<Longrightarrow> completed now n (m # ms) = m # completed now (Suc n) ms"
  by (atomize_elim) (auto, metis neq_Nil_conv)
termination
  by (relation "measure (\<lambda>(now, n, ms). length ms)") (auto simp: from_boundary_def length_dropWhile_le le_imp_less_Suc)

lemma completed_other [simp]: "\<not> boundary m \<Longrightarrow> completed now n (m # ms) = m # completed now (Suc n) ms"
  by (cases m) simp_all

lemma segment_simps [simp]:
  "up_to_boundary [] = []" "from_boundary [] = []"
  "up_to_boundary (m # ms) = (if boundary m then [] else m # up_to_boundary ms)"
  "from_boundary (m # ms) = (if boundary m then m # ms else from_boundary ms)"
  by (simp_all add: up_to_boundary_def from_boundary_def)

lemma completed_segment: "completed now n ms = up_to_boundary ms @ completed now (n + length (up_to_boundary ms)) (from_boundary ms)"
  by (induction ms arbitrary: n) auto

lemma no_results_simps [simp]:
  "no_results now n [] = []" "no_results now n (c # calls) = no_result c (now n) # no_results now (Suc n) calls"
  "length (no_results now n calls) = length calls"
  by (simp_all add: no_results_def)

lemma inserted_results:
  "rp_result (insertSyntheticToolResults now st) = rp_result st @
     no_results now (length (rp_result st)) (filter (\<lambda>c. tc_id c \<notin> set (rp_existing st)) (rp_pending st))"
  "rp_pending (insertSyntheticToolResults now st) = []"
proof -
  have "rp_result (fold (\<lambda>tc s. if tc_id tc \<in> set (rp_existing s) then s else push_message (synthetic_result now s tc) s) calls s) =
      rp_result s @ no_results now (length (rp_result s)) (filter (\<lambda>c. tc_id c \<notin> set (rp_existing s)) calls)" for calls s
    by (induction calls arbitrary: s) (simp_all add: push_message_def synthetic_result_def no_result_def)
  then show "rp_result (insertSyntheticToolResults now st) = rp_result st @
     no_results now (length (rp_result st)) (filter (\<lambda>c. tc_id c \<notin> set (rp_existing st)) (rp_pending st))"
    "rp_pending (insertSyntheticToolResults now st) = []"
    by (simp_all add: insertSyntheticToolResults_def)
qed

lemma answered_in_simps [simp]:
  "answered_in (m # ms) c \<longleftrightarrow> \<not> boundary m \<and> ((\<exists>r. m = ToolResultMessage r \<and> tr_toolCallId r = tc_id c) \<or> answered_in ms c)"
  "\<not> answered_in [] c"
  by (auto simp: answered_in_def)

text \<open>What is left to send while calls are pending, some of whose results have been seen.\<close>

definition remaining :: "(nat \<Rightarrow> int) \<Rightarrow> nat \<Rightarrow> tool_call list \<Rightarrow> ident list \<Rightarrow> agent_message list \<Rightarrow> agent_message list" where
  "remaining now n pending seen ms =
     (let given = up_to_boundary ms; missing = filter (\<lambda>c. tc_id c \<notin> set seen \<and> \<not> answered_in ms c) pending
      in given @ no_results now (n + length given) missing @ completed now (n + length given + length missing) (from_boundary ms))"

lemma remaining_nothing: "remaining now n [] seen ms = completed now n ms"
  using completed_segment [of now n ms] by (simp add: remaining_def Let_def)

lemma remaining_replay:
  "rp_result (insertSyntheticToolResults now (fold (replay_message now) ms st)) =
   rp_result st @ remaining now (length (rp_result st)) (rp_pending st) (rp_existing st) ms"
proof (induction ms arbitrary: st)
  case Nil
  then show ?case by (simp add: inserted_results remaining_def)
next
  case (Cons m ms)
  define st1 where "st1 = insertSyntheticToolResults now st"
  define missing where "missing = filter (\<lambda>c. tc_id c \<notin> set (rp_existing st)) (rp_pending st)"
  have st1: "rp_result st1 = rp_result st @ no_results now (length (rp_result st)) missing" "rp_pending st1 = []"
    by (simp_all add: st1_def inserted_results missing_def)
  note IH = Cons.IH [of "replay_message now m st"]
  show ?case
  proof (cases m)
    case (AssistantMessage a)
    then show ?thesis using IH st1
      by (auto simp: replay_answer_def st1_def [symmetric] push_message_def Let_def remaining_def unanswered_def
          missing_def [symmetric] completed_segment [symmetric])
  next
    case (UserMessage u)
    then show ?thesis using IH st1
      by (simp add: st1_def [symmetric] push_message_def remaining_nothing) (simp add: remaining_def missing_def Let_def)
  next
    case (ToolResultMessage r)
    have "filter (\<lambda>c. tc_id c \<noteq> tr_toolCallId r \<and> tc_id c \<notin> set (rp_existing st) \<and> \<not> answered_in ms c) (rp_pending st) =
      filter (\<lambda>c. tc_id c \<notin> set (rp_existing st) \<and> tr_toolCallId r \<noteq> tc_id c \<and> \<not> answered_in ms c) (rp_pending st)"
      by (rule filter_cong) auto
    then show ?thesis using IH ToolResultMessage by (simp add: push_message_def remaining_def Let_def)
  qed (use IH in \<open>simp_all add: push_message_def remaining_def Let_def\<close>)
qed

lemma replay_completes: "replay_all now ms = completed now 0 ms"
  by (simp add: replay_all_def remaining_replay remaining_nothing)
text \<open>
  C15. Whatever the history, the provider is sent the messages of the first pass without the answers that failed or
  were aborted, none of the others lost and none moved, and results for unanswered calls: after an answer and the
  messages up to the next answer or user message comes, in the order of its calls, exactly one error result for
  each call that no result among those messages names, and for no other call. So every tool call that is sent is
  answered by a tool result before the next answer or user message.
\<close>

theorem provider_sees_answered_calls:
  "transformMessages now messages model rename =
     completed now 0 (transform_all rename model (downgradeUnsupportedImages messages model) []) \<and>
   calls_answered (transformMessages now messages model rename) \<and>
   subseq (filter kept (transform_all rename model (downgradeUnsupportedImages messages model) []))
     (transformMessages now messages model rename) \<and>
   filter (\<lambda>m. \<not> synthetic m) (transformMessages now messages model rename) =
     filter (\<lambda>m. \<not> synthetic m) (filter kept (transform_all rename model (downgradeUnsupportedImages messages model) []))"
  unfolding transformMessages_def using replay_completes replay_all_answers replay_all_extends by blast

section \<open>No image reaches a model without vision\<close>

fun is_image :: "input_content \<Rightarrow> bool" where
  "is_image (ImageInput data mimeType) = True"
| "is_image (TextInput text signature) = False"

fun has_image :: "agent_message \<Rightarrow> bool" where
  "has_image (UserMessage m) = (case um_content m of ContentString s \<Rightarrow> False | ContentBlocks bs \<Rightarrow> list_ex is_image bs)"
| "has_image (ToolResultMessage m) = list_ex is_image (tr_content m)"
| "has_image m = False"

lemma replaced_images: "\<not> list_ex is_image (replaceImagesWithPlaceholder content placeholder)"
proof -
  have "\<not> list_ex is_image (replace_images_loop placeholder previous content)" for previous
    by (induction placeholder previous content rule: replace_images_loop.induct) auto
  then show ?thesis by (simp add: replaceImagesWithPlaceholder_def)
qed

lemma replaced_images_keep_texts:
  "filter (\<lambda>b. b \<noteq> TextInput placeholder None) (replaceImagesWithPlaceholder content placeholder) =
   filter (\<lambda>b. \<not> is_image b \<and> b \<noteq> TextInput placeholder None) content"
proof -
  have "filter (\<lambda>b. b \<noteq> TextInput placeholder None) (replace_images_loop placeholder previous content) =
      filter (\<lambda>b. \<not> is_image b \<and> b \<noteq> TextInput placeholder None) content" for previous
    by (induction placeholder previous content rule: replace_images_loop.induct) auto
  then show ?thesis by (simp add: replaceImagesWithPlaceholder_def)
qed

lemma downgraded_has_no_image: "\<not> has_image (downgrade_message m)"
  by (cases m) (auto simp: replaced_images split: message_content.splits)

lemma transform_keeps_images: "has_image (fst (transform_message rename model m ids)) = has_image m"
  by (cases m) (auto simp: transform_result_def split: prod.splits option.splits)

lemma transform_all_images: "\<exists>m' \<in> set (transform_all rename model ms ids). has_image m' \<Longrightarrow> \<exists>m \<in> set ms. has_image m"
proof (induction ms arbitrary: ids)
  case (Cons m ms)
  obtain m1 ids1 where m1: "transform_message rename model m ids = (m1, ids1)" by fastforce
  with Cons transform_keeps_images [of rename model m ids] show ?case by auto
qed simp

lemma images_become_placeholders:
  assumes "''image'' \<notin> set (tm_input model)" "m \<in> set (transformMessages now messages model rename)"
  shows "\<not> has_image m"
proof (cases "synthetic m")
  case True
  then show ?thesis by (cases m) auto
next
  case False
  let ?first = "transform_all rename model (downgradeUnsupportedImages messages model) []"
  have "m \<in> set (filter (\<lambda>m. \<not> synthetic m) (transformMessages now messages model rename))" using assms(2) False by simp
  then have "m \<in> set ?first" using replay_all_extends [of ?first now] by (simp add: transformMessages_def)
  moreover have "\<not> has_image x" if "x \<in> set (downgradeUnsupportedImages messages model)" for x
    using that assms(1) downgraded_has_no_image by (auto simp: downgradeUnsupportedImages_def)
  ultimately show ?thesis using transform_all_images [of rename model "downgradeUnsupportedImages messages model" "[]"] by blast
qed

section \<open>Renamed calls keep their results\<close>








lemma tool_calls_append [simp]: "tool_calls_of (xs @ ys) = tool_calls_of xs @ tool_calls_of ys"
  by (induction xs rule: tool_calls_of.induct) auto

lemma thinking_has_no_calls [simp]: "tool_calls_of (transform_thinking same thinking signature redacted) = []"
  by (simp add: transform_thinking_def Let_def)









end
