(* ===== verification/Spec2Isabelle.thy ===== *)
theory Spec2Isabelle
  imports Lane_Reducer Truncate Edit_Diff Branch_Summary Protocol_Codec Agent_Facade Server_Progress Client_Requests Client_Leases
    Message_Transform
begin

text \<open>
  A verification library for the core of Euler, a coding agent written in TypeScript. Paths below are
  relative to \<^verbatim>\<open>src/packages\<close>.

  \<^bold>\<open>The program.\<close> An agent works on \<^emph>\<open>sessions\<close>: trees of immutable entries (messages, settings,
  summaries) with named lanes that point into the tree, and a log of lane records that says which
  operation is under way. A session is written through a storage (in memory, or one JSONL file) and
  read through a facade. After a crash the records of a lane are reduced to the state the operation had
  reached. A branch becomes the context of a model; long branches are compacted into summaries, and
  abandoned branches are summarised. The agent loop asks the model, runs the tools it calls and feeds
  the results back; a provider gets the conversation in a form it accepts. Tools edit files and truncate
  their output. Clients and servers exchange messages as CBOR values in length-prefixed frames; the
  server shares live sessions between its connections.

  \<^bold>\<open>Theories and sources.\<close>
  \<^item> \<^verbatim>\<open>Euler_Prelude\<close>: JavaScript's insertion-ordered \<open>Map\<close>, numbers that may not be integers, stable
    sorting, the locale \<open>fallible_machine\<close> for state machines whose steps may be refused, and the
    collections of facts the components share.
  \<^item> \<^verbatim>\<open>Session_Types\<close>: \<^verbatim>\<open>agent/src/harness/session/types.ts\<close> and the messages of \<^verbatim>\<open>ai/src/types.ts\<close>
    and \<^verbatim>\<open>agent/src/harness/messages.ts\<close>.
  \<^item> \<^verbatim>\<open>Session_State\<close>: \<^verbatim>\<open>session/state.ts\<close>, every mutation, query and fork of the event-sourced state.
    Well-formedness is an invariant of \<open>applyMutation\<close>; walks to the root end; branch queries and paging
    meet their specification; forks replay into copies.
  \<^item> \<^verbatim>\<open>Session_Memory\<close>: \<^verbatim>\<open>session/memory.ts\<close>. The locale \<open>session_storage\<close> is the contract of a storage:
    at most one open operation per lane, an append-only history. It is interpreted for the storage in
    memory here and for the JSONL storage in \<^verbatim>\<open>Jsonl_Storage\<close>.
  \<^item> \<^verbatim>\<open>Payload_Check\<close>, \<^verbatim>\<open>Session_Tree\<close>: \<^verbatim>\<open>session/session.ts\<close>, the check of durable payloads on an object
    heap, and the facade over any storage (locale \<open>storage_client\<close>, interpreted for both storages).
  \<^item> \<^verbatim>\<open>Json_Text\<close>, \<^verbatim>\<open>Session_Json\<close>, \<^verbatim>\<open>Jsonl_Codec\<close>, \<^verbatim>\<open>Jsonl_Storage\<close>, \<^verbatim>\<open>Jsonl_Repo\<close>: JSON text as the language
    defines it, the shape of every stored value, and \<^verbatim>\<open>session/jsonl/codec.ts\<close>, \<^verbatim>\<open>storage.ts\<close>, \<^verbatim>\<open>repo.ts\<close>.
    What is written is what a reload sees; a torn last line is repaired.
  \<^item> \<^verbatim>\<open>Lane_Reducer\<close>: \<^verbatim>\<open>agent/src/harness/reducer.ts\<close>. The validation of a record log is equivalent to a
    specification without running state; the recovered operation and queues agree with the log.
  \<^item> \<^verbatim>\<open>Session_Context\<close>, \<^verbatim>\<open>Compaction\<close>, \<^verbatim>\<open>Branch_Summary\<close>, \<^verbatim>\<open>Model_Retry\<close>: \<^verbatim>\<open>session/context.ts\<close>,
    \<^verbatim>\<open>harness/compaction/*.ts\<close>, \<^verbatim>\<open>ai/src/utils/retry.ts\<close>. The context of a session after a compaction, where a
    branch is cut, what a summary of an abandoned branch covers (locale \<open>branch_reader\<close>, for both
    storages), how often a failed call is repeated.
  \<^item> \<^verbatim>\<open>Agent_Loop\<close>: \<^verbatim>\<open>agent/src/agent-loop.ts\<close>. The events of a run are well bracketed and announce exactly
    the messages it returns; tool calls are answered in order, whatever the interleaving of the tools.
  \<^item> \<^verbatim>\<open>Agent_Facade\<close>: \<^verbatim>\<open>agent/src/agent.ts\<close>, the agent as a part of the world of its own run. The locale
    \<open>world_invariant\<close> carries what every function of the environment keeps through a run of the loop; interpreted
    for the loop configuration of the agent it shows that the transcript grows by exactly what a run
    returns, or by what it announced before an error, which is then reported in one message, and that the agent
    is idle afterwards.
  \<^item> \<^verbatim>\<open>Edit_Diff\<close>, \<^verbatim>\<open>Truncate\<close> (on \<^verbatim>\<open>Js_String\<close>): \<^verbatim>\<open>harness/tools/edit-diff.ts\<close>, \<^verbatim>\<open>harness/utils/truncate.ts\<close>
    on UTF-16 strings.
  \<^item> \<^verbatim>\<open>Framing\<close>, \<^verbatim>\<open>Cbor\<close>, \<^verbatim>\<open>Protocol_Codec\<close>: \<^verbatim>\<open>protocol/src/framing.ts\<close>, \<^verbatim>\<open>cbor/*.ts\<close>, \<^verbatim>\<open>codec.ts\<close> at the level
    of bytes, with the laws of the stream decoder, round trips and limits.
  \<^item> \<^verbatim>\<open>Server\<close>, \<^verbatim>\<open>Server_Runtimes\<close>, \<^verbatim>\<open>Server_Requests\<close>, \<^verbatim>\<open>Server_Progress\<close>: \<^verbatim>\<open>server/src/server.ts\<close>,
    \<^verbatim>\<open>sessions.ts\<close>, \<^verbatim>\<open>snapshots.ts\<close>. The state of the server with the tasks that wait at an await, one definition
    per operation, and a step relation in which tasks, clients, transports and runtimes interleave freely.
    Invariants of all reachable states (locale \<open>server_invariant\<close>, interpreted three times) show that a
    runtime is disposed once and never under an operation, that each request is answered once or still
    served, and that no request waits for something that cannot happen any more.
  \<^item> \<^verbatim>\<open>Client\<close>, \<^verbatim>\<open>Client_Requests\<close>, \<^verbatim>\<open>Client_Leases\<close>: \<^verbatim>\<open>client/src/client.ts\<close>, \<^verbatim>\<open>connection.ts\<close>, \<^verbatim>\<open>state.ts\<close>,
    \<^verbatim>\<open>session-handle.ts\<close>, in the style of the server: a state with waiting tasks and a step function for calls,
    transports and promises. Every request is settled once (locale \<open>client_invariant\<close>); the table of leases refines a
    set of held leases while only held leases are released; a run shows where the client breaks that condition.
  \<^item> \<^verbatim>\<open>Message_Transform\<close>: \<^verbatim>\<open>ai/src/api/transform-messages.ts\<close>, the conversation as a provider is sent it: every
    tool call has a result, results are made up for unanswered calls only, nothing else is added, lost or moved,
    renamed calls keep their results.

  \<^bold>\<open>Modelling.\<close> A function of the source is a definition of the same name where that name is free. Loops
  are recursive functions on the list or index they run over. A loop that need not end for every
  argument (the payload check on cyclic heaps, the frame decoder, the walk over parents, the streams,
  tools and turns of a run) is a \<open>partial_function\<close> into \<open>option\<close>; the theorems that need a result state
  that there is one. The JSON parser carries fuel, \<open>2 * length + 2\<close>, and the lemma \<open>json_parse_fuel\<close> shows that
  this is enough for every printed value. Exceptions and refusals are left summands; an
  error that ends a run of the agent loop is a mark on the world of the run, after which nothing acts on it. Code between two
  awaits is one step; where steps interleave, the order is an argument (the agent loop) or any order is a
  run (the server).

  Arguments of the definitions stand for code outside the sources: the file system (\<open>file_ops\<close>, with the
  laws of the locale \<open>file_laws\<close> and an instance that keeps files in memory and tears appends), the
  clock, the generator of ids, the schema check and deep equality of typebox, NFKC normalisation, the
  parts of a diff, the model, tools and hooks.

  Numbers of the sources that are stored or compared are exact: integers where the code expects them,
  rationals in JSON, bit patterns in CBOR. Identifiers, texts of messages and JSON texts are lists of
  8-bit characters; where UTF-16 matters (truncation, edits, CBOR) strings are lists of code units.
  Texts of error messages are kept only where the code inspects or returns them as data.

  \<^bold>\<open>Not modelled.\<close> The SQLite backend (SQL statements run by a database), the Node.js environment, the
  providers and their HTTP streams, the terminal interface, the coding-agent application with its
  extensions and settings, sockets, subscriptions, telemetry and scripts: input and output, or code whose logic lies
  in services and packages the sources only call. Of the agent package the proxy, prompt
  templates, skills, the shell and file tools around the modelled text functions, and of the protocol
  the schema tables are left out.
\<close>

end
